(* ===== verification/Prelude.thy ===== *)
theory Prelude
  imports Complex_Main "HOL-Library.Monad_Syntax"
begin

text \<open>
  Shared vocabulary of the development: the exceptions the program raises
  (\<^verbatim>\<open>src/src/scraper_engine/core/exceptions.py\<close> and the ones of the Python and Redis client
  libraries that the code catches by name), results as sums, the Python string operations the
  components use, and the small generic lemmas on association lists and on clamping.

  Python's unbounded integers are \<open>int\<close>, its floats exact rationals (\<open>rat\<close>; IEEE rounding is
  not modelled), its strings \<open>string\<close>, a byte-sized character being a Latin-1 code point.
\<close>

named_theorems keyspace_simps \<open>what each Redis command does to the observers of a keyspace\<close>
named_theorems run_simps \<open>one step of a client program or of a script\<close>
named_theorems model_defs \<open>definitions unfolded when a concrete instance is evaluated\<close>

subsection \<open>Exceptions and results\<close>

datatype exn =
    SSRFBlockedError string string string
  | ProxyPoolExhaustedError string int int
  | QuotaExceededError string int
  | CapSolverBudgetExceededError string rat rat
  | CircuitBreakerOpenError string string
  | AuthenticationError string
  | TenantNotFoundError string
  | PostgresClientMissingError int
  | AdmissionUnavailableError
  | AdmissionTimeoutError int
  | AdmissionCancelledError
  | NestedClaimError
  | RedisConnectionError
  | RedisTimeoutError
  | ResponseError
  | ValueError
  | KeyError
  | IndexError
  | RuntimeError string
  | AssertionError
  | OtherError string

type_synonym 'a res = "exn + 'a"

text \<open>The DNS layer's marker for a host that does not resolve.\<close>

definition unresolvable_sentinel :: string where
  "unresolvable_sentinel = ''<unresolvable>''"

fun is_unresolvable :: "exn \<Rightarrow> bool" where
  "is_unresolvable (SSRFBlockedError url host network) = (network = unresolvable_sentinel)"
| "is_unresolvable _ = False"

subsection \<open>Python strings\<close>

fun starts_with :: "string \<Rightarrow> string \<Rightarrow> bool" where
  "starts_with s [] = True"
| "starts_with [] (p # ps) = False"
| "starts_with (c # cs) (p # ps) = (c = p \<and> starts_with cs ps)"

fun contains :: "string \<Rightarrow> string \<Rightarrow> bool" where
  "contains [] p = (p = [])"
| "contains (c # cs) p = (starts_with (c # cs) p \<or> contains cs p)"

definition removeprefix :: "string \<Rightarrow> string \<Rightarrow> string" where
  "removeprefix s p = (if starts_with s p then drop (length p) s else s)"

definition is_space :: "char \<Rightarrow> bool" where
  "is_space c \<longleftrightarrow> of_char c \<in> {9, 10, 11, 12, 13, 28, 29, 30, 31, 32, 133, 160 :: nat}"

definition py_strip :: "string \<Rightarrow> string" where
  "py_strip s = rev (dropWhile is_space (rev (dropWhile is_space s)))"

definition lower_char :: "char \<Rightarrow> char" where
  "lower_char c = (if 65 \<le> (of_char c :: nat) \<and> (of_char c :: nat) \<le> 90
     then char_of ((of_char c :: nat) + 32)
     else if 192 \<le> (of_char c :: nat) \<and> (of_char c :: nat) \<le> 222 \<and> (of_char c :: nat) \<noteq> 215
     then char_of ((of_char c :: nat) + 32) else c)"

definition py_lower :: "string \<Rightarrow> string" where
  "py_lower s = map lower_char s"

lemma starts_with_append [simp]: "starts_with (p @ s) p"
  by (induction p) auto

lemma starts_with_iff: "starts_with s p \<longleftrightarrow> (\<exists>t. s = p @ t)"
  by (induction s p rule: starts_with.induct) auto

lemma contains_iff: "contains s p \<longleftrightarrow> (\<exists>a b. s = a @ p @ b)"
proof (induction s)
  case (Cons c s)
  show ?case
    unfolding contains.simps Cons.IH starts_with_iff
    by (auto simp: Cons_eq_append_conv)
qed simp

text \<open>A separator that does not occur in the last field splits a key in one way only.\<close>

lemma last_field_unique:
  assumes "xs @ c # ys = xs' @ c # ys'" "c \<notin> set ys" "c \<notin> set ys'"
  shows "xs = xs'" "ys = ys'"
  using assms by (auto simp: append_eq_append_conv2 Cons_eq_append_conv append_eq_Cons_conv)

text \<open>Decimal text of an integer, as \<open>str(n)\<close> prints it.\<close>

fun digits_of :: "nat \<Rightarrow> string" where
  "digits_of n = (if n < 10 then [char_of (48 + n)]
     else digits_of (n div 10) @ [char_of (48 + n mod 10)])"

declare digits_of.simps [simp del]

definition py_str_int :: "int \<Rightarrow> string" where
  "py_str_int i = (if i < 0 then CHR ''-'' # digits_of (nat (- i)) else digits_of (nat i))"

definition is_ascii_digit :: "char \<Rightarrow> bool" where
  "is_ascii_digit c \<longleftrightarrow> 48 \<le> (of_char c :: nat) \<and> (of_char c :: nat) \<le> 57"

fun digits_value :: "nat \<Rightarrow> string \<Rightarrow> nat" where
  "digits_value acc [] = acc"
| "digits_value acc (c # cs) = digits_value (10 * acc + (of_char c - 48)) cs"

lemma digits_value_append: "digits_value acc (xs @ ys) = digits_value (digits_value acc xs) ys"
  by (induction xs arbitrary: acc) auto

lemma digits_of_digits: "n' \<in> set (digits_of n) \<Longrightarrow> is_ascii_digit n'"
proof (induction n rule: digits_of.induct)
  case (1 n)
  have dig: "is_ascii_digit (char_of (48 + m))" if "m < 10" for m :: nat
    using that by (simp add: is_ascii_digit_def)
  show ?case
  proof (cases "n < 10")
    case True
    with "1.prems" show ?thesis by (simp add: digits_of.simps [of n] dig)
  next
    case False
    with "1.prems" have "n' \<in> set (digits_of (n div 10)) \<or> n' = char_of (48 + n mod 10)"
      by (auto simp: digits_of.simps [of n])
    with "1.IH" [OF False] dig [of "n mod 10"] show ?thesis by auto
  qed
qed

lemma digits_of_not_Nil [simp]: "digits_of n \<noteq> []"
  by (subst digits_of.simps) simp

lemma digits_value_digits_of [simp]: "digits_value 0 (digits_of n) = n"
proof (induction n rule: digits_of.induct)
  case (1 n)
  show ?case
  proof (cases "n < 10")
    case True
    then show ?thesis by (simp add: digits_of.simps [of n])
  next
    case False
    with "1.IH" show ?thesis
      by (simp add: digits_of.simps [of n] digits_value_append)
  qed
qed

subsection \<open>Association lists\<close>

definition alist_put :: "'k \<Rightarrow> 'v \<Rightarrow> ('k \<times> 'v) list \<Rightarrow> ('k \<times> 'v) list" where
  "alist_put k v xs =
     (if k \<in> fst ` set xs then map (\<lambda>(k', v'). (k', if k' = k then v else v')) xs
      else xs @ [(k, v)])"

definition alist_del :: "'k \<Rightarrow> ('k \<times> 'v) list \<Rightarrow> ('k \<times> 'v) list" where
  "alist_del k xs = filter (\<lambda>(k', _). k' \<noteq> k) xs"

lemma map_of_alist_put [simp]: "map_of (alist_put k v xs) = (map_of xs)(k \<mapsto> v)"
proof -
  have present: "map_of (map (\<lambda>(k', v'). (k', if k' = k then v else v')) xs) =
      (if k \<in> fst ` set xs then (map_of xs)(k \<mapsto> v) else map_of xs)" for xs :: "('a \<times> 'b) list"
    by (induction xs) (auto simp: fun_eq_iff)
  show ?thesis
  proof (cases "k \<in> fst ` set xs")
    case False
    then have "map_of xs k = None" by (simp add: map_of_eq_None_iff)
    with False show ?thesis
      by (auto simp: alist_put_def map_add_def fun_eq_iff split: option.splits)
  qed (simp add: alist_put_def present)
qed

lemma map_of_alist_del [simp]: "map_of (alist_del k xs) = (map_of xs)(k := None)"
  by (induction xs) (auto simp: alist_del_def fun_eq_iff)

lemma keys_alist_put [simp]: "fst ` set (alist_put k v xs) = insert k (fst ` set xs)"
  by (force simp: alist_put_def image_iff)

lemma keys_alist_del [simp]: "fst ` set (alist_del k xs) = fst ` set xs - {k}"
  by (force simp: alist_del_def)

lemma distinct_alist_put [simp]:
  "distinct (map fst xs) \<Longrightarrow> distinct (map fst (alist_put k v xs))"
  by (auto simp: alist_put_def comp_def case_prod_beta' image_iff)

lemma distinct_alist_del [simp]:
  "distinct (map fst xs) \<Longrightarrow> distinct (map fst (alist_del k xs))"
  unfolding alist_del_def by (induction xs) auto

lemma alist_put_not_Nil [simp]: "alist_put k v xs \<noteq> []"
  by (auto simp: alist_put_def)

lemma distinct_map_fst_filter:
  "distinct (map fst xs) \<Longrightarrow> distinct (map fst (filter P xs))"
  by (induction xs) auto

lemma map_of_filter_distinct:
  assumes "distinct (map fst al)"
  shows "map_of (filter Q al) key = Option.bind (map_of al key) (\<lambda>w. if Q (key, w) then Some w else None)"
  using assms by (induction al) (auto split: option.splits dest: map_of_SomeD simp: image_iff map_of_eq_None_iff)

subsection \<open>Clamping\<close>

definition clamp :: "'a::linorder \<Rightarrow> 'a \<Rightarrow> 'a \<Rightarrow> 'a" where
  "clamp lo hi x = min (max x lo) hi"

lemma clamp_bounds: "lo \<le> hi \<Longrightarrow> lo \<le> clamp lo hi x \<and> clamp lo hi x \<le> hi"
  by (simp add: clamp_def)

lemma clamp_upper: "clamp lo hi x \<le> hi"
  by (simp add: clamp_def)

text \<open>Python's \<open>round(x, 2)\<close>: to hundredths, a tie going to the even neighbour.\<close>

definition py_round2 :: "rat \<Rightarrow> rat" where
  "py_round2 x =
     (let y = 100 * x; f = \<lfloor>y\<rfloor>; d = y - of_int f
      in (if d < 1 / 2 \<or> d = 1 / 2 \<and> even f then of_int f else of_int (f + 1)) / 100)"

lemma py_round2_close: "\<bar>py_round2 x - x\<bar> \<le> 1 / 200"
proof -
  define y where "y = 100 * x"
  define d where "d = y - of_int \<lfloor>y\<rfloor>"
  have d: "0 \<le> d" "d < 1" unfolding d_def by linarith+
  have y: "y = of_int \<lfloor>y\<rfloor> + d" by (simp add: d_def)
  have x: "x = (of_int \<lfloor>y\<rfloor> + d) / 100" using y by (simp add: y_def)
  show ?thesis
  proof (cases "d < 1 / 2 \<or> d = 1 / 2 \<and> even \<lfloor>y\<rfloor>")
    case True
    then have "py_round2 x = of_int \<lfloor>y\<rfloor> / 100"
      unfolding py_round2_def Let_def y_def [symmetric] d_def [symmetric] by (rule if_P [THEN arg_cong])
    with True d x show ?thesis by (auto simp: abs_le_iff field_simps)
  next
    case False
    then have "py_round2 x = of_int (\<lfloor>y\<rfloor> + 1) / 100"
      unfolding py_round2_def Let_def y_def [symmetric] d_def [symmetric] by (rule if_not_P [THEN arg_cong])
    with False d x show ?thesis by (auto simp: abs_le_iff field_simps)
  qed
qed

lemma py_round2_mono:
  assumes "x \<le> y"
  shows "py_round2 x \<le> py_round2 y"
proof -
  define f where "f = (\<lambda>x :: rat. \<lfloor>100 * x\<rfloor>)"
  define up where "up = (\<lambda>x :: rat. \<not> (100 * x - of_int (f x) < 1 / 2 \<or>
      100 * x - of_int (f x) = 1 / 2 \<and> even (f x)))"
  have eq: "py_round2 z = of_int (f z + (if up z then 1 else 0)) / 100" for z
    by (simp add: py_round2_def Let_def f_def up_def)
  have "f x \<le> f y" unfolding f_def using assms by (intro floor_mono) simp
  moreover have "up x \<longrightarrow> up y" if "f x = f y"
    using assms that unfolding up_def by auto
  ultimately have "f x + (if up x then 1 else 0) \<le> f y + (if up y then 1 else 0)"
    by (cases "f x = f y") auto
  then show ?thesis by (simp add: eq divide_right_mono del: of_int_add)
qed

lemma last_filter_last: "xs \<noteq> [] \<Longrightarrow> P (last xs) \<Longrightarrow> last (filter P xs) = last xs"
  by (induction xs rule: rev_induct) auto

end
