(* ===== verification/Botasaurus_Pool.thy ===== *)
theory Botasaurus_Pool
  imports Prelude
begin

text \<open>
  \<^verbatim>\<open>src/src/scraper_engine/browser/botasaurus_pool.py\<close>: the live Botasaurus drivers of one job, reused
  for the same proxy identity and domain. The fetches of a job interleave at every \<open>await\<close>; what runs
  between two of them is a function on the pool's state, and a step relation puts them together,
  with a fetch cancelled at any \<open>await\<close>, the keeper of host seats
  (\<^verbatim>\<open>orchestrator/host_capacity.py\<close>, \<open>SeatKeeper.retain\<close> and \<open>discard\<close>) and the shutdown at the end of the job.
  Entries are mutable objects shared by the pool and a fetch: a heap from addresses to entries.
\<close>

subsection \<open>State\<close>

record bot_entry =
  be_key :: string
  be_domain :: string
  be_busy :: bool
  be_last_used :: int
  be_seat :: "string option"
  be_driver :: "nat option"

text \<open>
  Where a fetch stands: \<open>e\<close> is the address of the entry it reserved. The success of the page
  decides between returning its HTML and raising once the entry is dropped.
\<close>

datatype bot_stage =
    Checking_Out
  | Handing_Back nat "string option"
  | Evicting nat nat
  | Reserved nat
  | Permitted nat
  | Blanked nat
  | Closing nat bool
  | Dropping nat bool
  | Returned
  | Raised_Out
  | Stranded nat

fun held :: "bot_stage \<Rightarrow> nat option" where
  "held (Handing_Back e seat) = Some e"
| "held (Evicting e victim) = Some e"
| "held (Reserved e) = Some e"
| "held (Permitted e) = Some e"
| "held (Blanked e) = Some e"
| "held (Closing e good) = Some e"
| "held (Dropping e good) = Some e"
| "held (Stranded e) = Some e"
| "held _ = None"

text \<open>
  The settings of the pool and the requests of its fetches: proxy identity, domain, whether the
  proxy can be asked for again, and the lease id of the render's own host claim, if it has one.
\<close>

record bot_job =
  bj_max_pooled_drivers :: int
  bj_park_drivers :: bool
  bj_seat_keeper :: bool
  bj_identity :: "nat \<Rightarrow> string"
  bj_domain :: "nat \<Rightarrow> string"
  bj_reusable :: "nat \<Rightarrow> bool"
  bj_claim :: "nat \<Rightarrow> string option"

definition max_drivers :: "bot_job \<Rightarrow> nat" where
  "max_drivers J = nat (max 1 (bj_max_pooled_drivers J))"

text \<open>
  \<open>bt_seats\<close> is what the keeper holds. \<open>bt_launched\<close> records for whom each driver was launched, \<open>bt_taken\<close> the
  claims that were retained and \<open>bt_lost\<close> the seats whose lease ran out on the host.
\<close>

record bot_state =
  bt_heap :: "nat \<Rightarrow> bot_entry"
  bt_next :: nat
  bt_entries :: "nat list"
  bt_stage :: "nat \<Rightarrow> bot_stage"
  bt_launched :: "nat \<Rightarrow> string \<times> string"
  bt_next_driver :: nat
  bt_seats :: "string list"
  bt_taken :: "string list"
  bt_clock :: int
  bt_lost :: "string list"

definition new_entry :: "string \<Rightarrow> string \<Rightarrow> int \<Rightarrow> bot_entry" where
  "new_entry key domain now = \<lparr>be_key = key, be_domain = domain, be_busy = True, be_last_used = now,
     be_seat = None, be_driver = None\<rparr>"

definition bot_pool_init :: bot_state where
  "bot_pool_init = \<lparr>bt_heap = (\<lambda>e. new_entry [] [] 0), bt_next = 0, bt_entries = [], bt_stage = (\<lambda>f. Checking_Out),
     bt_launched = (\<lambda>d. ([], [])), bt_next_driver = 0, bt_seats = [], bt_taken = [], bt_clock = 0, bt_lost = []\<rparr>"

definition set_entry :: "nat \<Rightarrow> (bot_entry \<Rightarrow> bot_entry) \<Rightarrow> bot_state \<Rightarrow> bot_state" where
  "set_entry e g s = s\<lparr>bt_heap := (bt_heap s)(e := g (bt_heap s e))\<rparr>"

definition set_stage :: "nat \<Rightarrow> bot_stage \<Rightarrow> bot_state \<Rightarrow> bot_state" where
  "set_stage f st s = s\<lparr>bt_stage := (bt_stage s)(f := st)\<rparr>"

subsection \<open>Seats\<close>

text \<open>\<open>SeatKeeper.retain\<close>: the seat of the current claim, unless it already keeps another browser alive.\<close>

definition retain :: "bot_job \<Rightarrow> nat \<Rightarrow> bot_state \<Rightarrow> string option \<times> bot_state" where
  "retain J f s =
     (case bj_claim J f of None \<Rightarrow> (None, s)
      | Some lease \<Rightarrow> if lease \<in> set (bt_taken s) then (None, s)
          else (Some lease, s\<lparr>bt_taken := lease # bt_taken s, bt_seats := lease # bt_seats s\<rparr>))"

text \<open>\<open>_release_seat\<close>: a seat the keeper no longer has is given back already.\<close>

definition release_seat :: "string option \<Rightarrow> bot_state \<Rightarrow> bot_state" where
  "release_seat seat s = (case seat of None \<Rightarrow> s | Some l \<Rightarrow> s\<lparr>bt_seats := removeAll l (bt_seats s)\<rparr>)"

subsection \<open>Checking out and in\<close>

definition oldest :: "bot_state \<Rightarrow> nat list \<Rightarrow> nat" where
  "oldest s es = hd [e \<leftarrow> es. \<forall>e'\<in>set es. be_last_used (bt_heap s e) \<le> be_last_used (bt_heap s e')]"

definition idle_entries :: "bot_state \<Rightarrow> nat list" where
  "idle_entries s = [e \<leftarrow> bt_entries s. \<not> be_busy (bt_heap s e)]"

text \<open>
  \<open>_checkout\<close> up to its first \<open>await\<close>, under the condition's lock: an idle match is taken, else a new
  entry reserved under the cap, else the longest idle entry replaced; \<open>None\<close> is to wait.
\<close>

definition checkout :: "bot_job \<Rightarrow> nat \<Rightarrow> bot_state \<Rightarrow> bot_state option" where
  "checkout J f s =
     (let key = bj_identity J f; domain = bj_domain J f;
          match = find (\<lambda>e. \<not> be_busy (bt_heap s e) \<and> be_key (bt_heap s e) = key \<and> be_domain (bt_heap s e) = domain)
                    (bt_entries s);
          fresh = bt_next s;
          allocated = s\<lparr>bt_heap := (bt_heap s)(fresh := new_entry key domain (bt_clock s)), bt_next := Suc fresh\<rparr> in
      case match of
        Some e \<Rightarrow> Some (set_stage f (Handing_Back e (be_seat (bt_heap s e)))
                    (set_entry e (\<lambda>x. x\<lparr>be_busy := True, be_seat := None\<rparr>) s))
      | None \<Rightarrow>
        if length (bt_entries s) < max_drivers J
        then Some (set_stage f (Reserved fresh) (allocated\<lparr>bt_entries := bt_entries s @ [fresh]\<rparr>))
        else if idle_entries s \<noteq> []
        then (let victim = oldest s (idle_entries s) in
              Some (set_stage f (Evicting fresh victim)
                (allocated\<lparr>bt_entries := remove1 victim (bt_entries s) @ [fresh]\<rparr>)))
        else None)"

text \<open>\<open>_close_entry\<close>: the seat goes back first, then the driver is closed.\<close>

definition close_entry :: "nat \<Rightarrow> bot_state \<Rightarrow> bot_state" where
  "close_entry e s =
     set_entry e (\<lambda>x. x\<lparr>be_seat := None, be_driver := None\<rparr>) (release_seat (be_seat (bt_heap s e)) s)"

text \<open>A close cut short behind the hand-back of the seat: the driver is still there.\<close>

definition close_cut_short :: "nat \<Rightarrow> bot_state \<Rightarrow> bot_state" where
  "close_cut_short e s = set_entry e (\<lambda>x. x\<lparr>be_seat := None\<rparr>) s"

definition checkin :: "nat \<Rightarrow> nat \<Rightarrow> bot_state \<Rightarrow> bot_state" where
  "checkin f e s = set_stage f Returned
     (set_entry e (\<lambda>x. x\<lparr>be_busy := False, be_last_used := bt_clock s\<rparr>) s)"

text \<open>The driver of an entry, launched for the entry's own request.\<close>

definition launch_driver :: "nat \<Rightarrow> bot_state \<Rightarrow> bot_state" where
  "launch_driver e s =
     (let d = bt_next_driver s in
      set_entry e (\<lambda>x. x\<lparr>be_driver := Some d\<rparr>)
        (s\<lparr>bt_next_driver := Suc d,
           bt_launched := (bt_launched s)(d := (be_key (bt_heap s e), be_domain (bt_heap s e)))\<rparr>))"

text \<open>
  Behind a navigation: a driver is parked only if parking is on, its proxy can be asked for again, it
  went to a blank page and, with a keeper, this render's seat stays with it.
\<close>

definition park_decision :: "bot_job \<Rightarrow> nat \<Rightarrow> nat \<Rightarrow> bool \<Rightarrow> bot_state \<Rightarrow> bot_state" where
  "park_decision J f e blank s =
     (if \<not> (bj_park_drivers J \<and> bj_reusable J f \<and> blank) then set_stage f (Closing e True) s
      else if \<not> bj_seat_keeper J then set_stage f (Blanked e) s
      else (case retain J f s of
              (None, s1) \<Rightarrow> set_stage f (Closing e True) s1
            | (Some seat, s1) \<Rightarrow> set_stage f (Blanked e) (set_entry e (\<lambda>x. x\<lparr>be_seat := Some seat\<rparr>) s1)))"

text \<open>\<open>_close_parked\<close>: the idle entry holding a seat, or the longest idle one; \<open>None\<close> when there is none.\<close>

definition parked_choice :: "string option \<Rightarrow> bot_state \<Rightarrow> nat option" where
  "parked_choice seat s =
     (let idle = (case seat of None \<Rightarrow> idle_entries s | Some l \<Rightarrow> [e \<leftarrow> idle_entries s. be_seat (bt_heap s e) = Some l]) in
      if idle = [] then None else Some (oldest s idle))"

definition close_parked :: "string option \<Rightarrow> bot_state \<Rightarrow> bot_state" where
  "close_parked seat s =
     (case parked_choice seat s of None \<Rightarrow> s
      | Some e \<Rightarrow> close_entry e (s\<lparr>bt_entries := remove1 e (bt_entries s)\<rparr>))"

definition bot_shutdown :: "bot_state \<Rightarrow> bot_state" where
  "bot_shutdown s = fold close_entry (bt_entries s) (s\<lparr>bt_entries := []\<rparr>)"

subsection \<open>Steps\<close>

text \<open>
  One step of one fetch, of the keeper or of the job. A fetch cancelled inside \<open>_checkout\<close>, inside a
  close or inside \<open>_checkin\<close> is \<open>Stranded\<close> with its entry; anywhere else a failure or a
  cancellation closes the driver. Two stretches with awaits are one step each: from the navigation to
  the retaining of the seat, during which only the fetch itself uses its busy entry, and the closes of a shutdown,
  whose entries have already left the pool.
\<close>

inductive bot_step :: "bot_job \<Rightarrow> bot_state \<Rightarrow> bot_state \<Rightarrow> bool" for J where
  step_checkout: "bt_stage s f = Checking_Out \<Longrightarrow> checkout J f s = Some s1 \<Longrightarrow> bot_step J s s1"
| step_cancel_wait: "bt_stage s f = Checking_Out \<Longrightarrow> bot_step J s (set_stage f Raised_Out s)"
| step_hand_back: "bt_stage s f = Handing_Back e seat \<Longrightarrow> bot_step J s (set_stage f (Reserved e) (release_seat seat s))"
| step_hand_back_cut: "bt_stage s f = Handing_Back e seat \<Longrightarrow> bot_step J s (set_stage f (Stranded e) s)"
| step_evict: "bt_stage s f = Evicting e v \<Longrightarrow> bot_step J s (set_stage f (Reserved e) (close_entry v s))"
| step_evict_cut: "bt_stage s f = Evicting e v \<Longrightarrow> bot_step J s (set_stage f (Stranded e) (close_cut_short v s))"
| step_permit: "bt_stage s f = Reserved e \<Longrightarrow> bot_step J s (set_stage f (Permitted e) s)"
| step_no_permit: "bt_stage s f = Reserved e \<Longrightarrow> bot_step J s (set_stage f (Closing e False) s)"
| step_launch: "bt_stage s f = Permitted e \<Longrightarrow> be_driver (bt_heap s e) = None \<Longrightarrow> bot_step J s (launch_driver e s)"
| step_navigated: "bt_stage s f = Permitted e \<Longrightarrow> be_driver (bt_heap s e) = Some d \<Longrightarrow>
    bot_step J s (park_decision J f e blank s)"
| step_failed: "bt_stage s f = Permitted e \<Longrightarrow> bot_step J s (set_stage f (Closing e False) s)"
| step_checkin: "bt_stage s f = Blanked e \<Longrightarrow> bot_step J s (checkin f e s)"
| step_checkin_cut: "bt_stage s f = Blanked e \<Longrightarrow> bot_step J s (set_stage f (Stranded e) s)"
| step_close: "bt_stage s f = Closing e good \<Longrightarrow> bot_step J s (set_stage f (Dropping e good) (close_entry e s))"
| step_close_cut: "bt_stage s f = Closing e good \<Longrightarrow> bot_step J s (set_stage f (Stranded e) (close_cut_short e s))"
| step_drop: "bt_stage s f = Dropping e good \<Longrightarrow>
    bot_step J s (set_stage f (if good then Returned else Raised_Out) (s\<lparr>bt_entries := remove1 e (bt_entries s)\<rparr>))"
| step_reclaim: "bot_step J s (close_parked seat s)"
| step_lapse: "l \<in> set (bt_seats s) \<Longrightarrow> bot_step J s (s\<lparr>bt_seats := removeAll l (bt_seats s), bt_lost := l # bt_lost s\<rparr>)"
| step_tick: "0 \<le> dt \<Longrightarrow> bot_step J s (s\<lparr>bt_clock := bt_clock s + dt\<rparr>)"
| step_shutdown: "bot_step J s (bot_shutdown s)"

inductive bot_reach :: "bot_job \<Rightarrow> bot_state \<Rightarrow> bool" for J where
  reach_init: "bot_reach J bot_pool_init"
| reach_step: "bot_reach J s \<Longrightarrow> bot_step J s s1 \<Longrightarrow> bot_reach J s1"

subsection \<open>The invariant\<close>

definition entry_ready :: "bot_job \<Rightarrow> bot_entry \<Rightarrow> bool" where
  "entry_ready J x \<longleftrightarrow> be_driver x \<noteq> None \<and> (bj_seat_keeper J \<longrightarrow> be_seat x \<noteq> None)"

text \<open>The shape of the pool and of the reservations.\<close>

definition pool_shape :: "bot_job \<Rightarrow> bot_state \<Rightarrow> bool" where
  "pool_shape J s \<longleftrightarrow>
     distinct (bt_entries s) \<and> (\<forall>e\<in>set (bt_entries s). e < bt_next s) \<and> length (bt_entries s) \<le> max_drivers J
     \<and> (\<forall>e\<in>set (bt_entries s). \<not> be_busy (bt_heap s e) \<longrightarrow> entry_ready J (bt_heap s e))
     \<and> (\<forall>f e v. bt_stage s f = Evicting e v \<longrightarrow> v < bt_next s \<and> v \<notin> set (bt_entries s))
     \<and> (\<forall>f e. bt_stage s f = Blanked e \<longrightarrow> e \<in> set (bt_entries s) \<longrightarrow> entry_ready J (bt_heap s e))"

text \<open>A fetch owns the entry it reserved: busy, made for its own request, and nobody else's.\<close>

definition owners_ok :: "bot_job \<Rightarrow> bot_state \<Rightarrow> bool" where
  "owners_ok J s \<longleftrightarrow>
     (\<forall>f e. held (bt_stage s f) = Some e \<longrightarrow> e < bt_next s \<and> be_busy (bt_heap s e)
        \<and> be_key (bt_heap s e) = bj_identity J f \<and> be_domain (bt_heap s e) = bj_domain J f)
     \<and> (\<forall>f g e. held (bt_stage s f) = Some e \<longrightarrow> held (bt_stage s g) = Some e \<longrightarrow> f = g)
     \<and> (\<forall>e\<in>set (bt_entries s). be_busy (bt_heap s e) \<longrightarrow> (\<exists>f. held (bt_stage s f) = Some e))"

text \<open>A driver is in one entry, the one it was launched for; a seat keeps one entry.\<close>

definition drivers_ok :: "bot_state \<Rightarrow> bool" where
  "drivers_ok s \<longleftrightarrow>
     (\<forall>e d. be_driver (bt_heap s e) = Some d \<longrightarrow> e < bt_next s \<and> d < bt_next_driver s
        \<and> bt_launched s d = (be_key (bt_heap s e), be_domain (bt_heap s e)))
     \<and> (\<forall>e e' d. be_driver (bt_heap s e) = Some d \<longrightarrow> be_driver (bt_heap s e') = Some d \<longrightarrow> e = e')
     \<and> (\<forall>e l. be_seat (bt_heap s e) = Some l \<longrightarrow> e < bt_next s \<and> l \<in> set (bt_taken s))
     \<and> (\<forall>e e' l. be_seat (bt_heap s e) = Some l \<longrightarrow> be_seat (bt_heap s e') = Some l \<longrightarrow> e = e')"

definition bot_ok :: "bot_job \<Rightarrow> bot_state \<Rightarrow> bool" where
  "bot_ok J s \<longleftrightarrow> pool_shape J s \<and> owners_ok J s \<and> drivers_ok s"

lemmas bot_ops = set_entry_def set_stage_def

lemma bot_ok_init: "bot_ok J bot_pool_init"
  by (simp add: bot_ok_def pool_shape_def owners_ok_def drivers_ok_def bot_pool_init_def new_entry_def)

lemma bot_ok_irrelevant [simp]:
  "bot_ok J (s\<lparr>bt_seats := ls\<rparr>) = bot_ok J s" "bot_ok J (s\<lparr>bt_clock := c\<rparr>) = bot_ok J s"
  "bot_ok J (s\<lparr>bt_lost := lost\<rparr>) = bot_ok J s"
  by (simp_all add: bot_ok_def pool_shape_def owners_ok_def drivers_ok_def)

lemma bot_ok_release_seat [simp]: "bot_ok J (release_seat seat s) = bot_ok J s"
  by (cases seat) (simp_all add: release_seat_def)

lemma release_seat_fields [simp]:
  "bt_heap (release_seat seat s) = bt_heap s" "bt_entries (release_seat seat s) = bt_entries s"
  "bt_stage (release_seat seat s) = bt_stage s" "bt_next (release_seat seat s) = bt_next s"
  "bt_taken (release_seat seat s) = bt_taken s" "bt_launched (release_seat seat s) = bt_launched s"
  "bt_next_driver (release_seat seat s) = bt_next_driver s" "bt_clock (release_seat seat s) = bt_clock s"
  "bt_lost (release_seat seat s) = bt_lost s"
  by (cases seat; simp add: release_seat_def)+

text \<open>A fetch moves on with the entry it holds.\<close>

lemma bot_ok_stage:
  assumes "bot_ok J s" "held (bt_stage s f) = Some e" "held st = Some e"
    and "\<And>x v. st = Evicting x v \<Longrightarrow> v < bt_next s \<and> v \<notin> set (bt_entries s)"
    and "\<And>x. st = Blanked x \<Longrightarrow> entry_ready J (bt_heap s x)"
  shows "bot_ok J (set_stage f st s)"
proof -
  have h: "held (((bt_stage s)(f := st)) g) = held (bt_stage s g)" for g using assms(2,3) by simp
  have "pool_shape J (set_stage f st s)"
    using assms(1,4,5) by (auto simp: bot_ok_def pool_shape_def set_stage_def)
  moreover have "owners_ok J (set_stage f st s)"
    using assms(1) unfolding bot_ok_def owners_ok_def by (simp add: set_stage_def h del: fun_upd_apply)
  moreover have "drivers_ok (set_stage f st s)"
    using assms(1) by (simp add: bot_ok_def drivers_ok_def set_stage_def)
  ultimately show ?thesis by (simp add: bot_ok_def)
qed

text \<open>A fetch that ends lets go of an entry that has left the pool or was checked in.\<close>

lemma bot_ok_end:
  assumes "bot_ok J s" "held st = None"
    and "\<And>e. held (bt_stage s f) = Some e \<Longrightarrow> e \<in> set (bt_entries s) \<Longrightarrow> False"
  shows "bot_ok J (set_stage f st s)"
proof -
  have "pool_shape J (set_stage f st s)"
    using assms(1,2) by (auto simp: bot_ok_def pool_shape_def set_stage_def)
  moreover have "owners_ok J (set_stage f st s)"
    unfolding owners_ok_def
  proof (intro conjI allI impI ballI)
    fix e assume "e \<in> set (bt_entries (set_stage f st s))" "be_busy (bt_heap (set_stage f st s) e)"
    then obtain g where "held (bt_stage s g) = Some e" "e \<in> set (bt_entries s)"
      using assms(1) by (auto simp: bot_ok_def owners_ok_def set_stage_def)
    then show "\<exists>g. held (bt_stage (set_stage f st s) g) = Some e"
      using assms(3) [of e] by (intro exI [of _ g]) (auto simp: set_stage_def)
  qed (use assms(1,2) in \<open>auto simp: bot_ok_def owners_ok_def set_stage_def split: if_splits\<close>)
  moreover have "drivers_ok (set_stage f st s)"
    using assms(1) by (simp add: bot_ok_def drivers_ok_def set_stage_def)
  ultimately show ?thesis by (simp add: bot_ok_def)
qed

text \<open>Closing an entry that is outside the pool, or reserved and not about to be parked.\<close>

lemma bot_ok_strip:
  assumes "bot_ok J s"
    and "e \<in> set (bt_entries s) \<Longrightarrow> be_busy (bt_heap s e) \<and> (\<forall>f. bt_stage s f \<noteq> Blanked e)"
    and "\<And>x. g x = x\<lparr>be_seat := None, be_driver := None\<rparr> \<or> g x = x\<lparr>be_seat := None\<rparr>"
  shows "bot_ok J (set_entry e g s)"
proof -
  have g: "be_key (g x) = be_key x" "be_domain (g x) = be_domain x" "be_busy (g x) = be_busy x"
    "be_seat (g x) = None" "be_driver (g x) = be_driver x \<or> be_driver (g x) = None" for x
    using assms(3) [of x] by auto
  have "pool_shape J (set_entry e g s)"
    using assms(1,2) g by (auto simp: bot_ok_def pool_shape_def set_entry_def)
  moreover have "owners_ok J (set_entry e g s)"
    using assms(1) g by (auto simp: bot_ok_def owners_ok_def set_entry_def)
  moreover have "drivers_ok (set_entry e g s)"
    using assms(1) g unfolding bot_ok_def drivers_ok_def set_entry_def
    by (simp split del: if_split split: if_splits) (metis option.distinct(1))
  ultimately show ?thesis by (simp add: bot_ok_def)
qed

lemma bot_ok_close:
  assumes "bot_ok J s" "e \<in> set (bt_entries s) \<Longrightarrow> be_busy (bt_heap s e) \<and> (\<forall>f. bt_stage s f \<noteq> Blanked e)"
  shows "bot_ok J (close_entry e s)" "bot_ok J (close_cut_short e s)"
  unfolding close_entry_def close_cut_short_def using assms by (auto intro!: bot_ok_strip)

text \<open>Entries may leave the pool at any time.\<close>

lemma bot_ok_shrink:
  assumes "bot_ok J s" "distinct es" "set es \<subseteq> set (bt_entries s)" "length es \<le> length (bt_entries s)"
  shows "bot_ok J (s\<lparr>bt_entries := es\<rparr>)"
proof -
  have "pool_shape J (s\<lparr>bt_entries := es\<rparr>)"
    using assms unfolding bot_ok_def pool_shape_def by simp (meson subsetD le_trans)
  moreover have "owners_ok J (s\<lparr>bt_entries := es\<rparr>)"
    using assms unfolding bot_ok_def owners_ok_def by simp (meson subsetD)
  moreover have "drivers_ok (s\<lparr>bt_entries := es\<rparr>)"
    using assms by (simp add: bot_ok_def drivers_ok_def)
  ultimately show ?thesis by (simp add: bot_ok_def)
qed

text \<open>A new entry is reserved beside entries that stay.\<close>

lemma bot_ok_reserve:
  assumes ok: "bot_ok J s" and free: "held (bt_stage s f) = None"
    and es: "distinct es" "set es \<subseteq> set (bt_entries s)" "length es < max_drivers J"
    and st: "held st = Some (bt_next s)" "\<And>x v. st = Evicting x v \<Longrightarrow> v < bt_next s \<and> v \<notin> set es" "\<And>x. st \<noteq> Blanked x"
  shows "bot_ok J (set_stage f st (s\<lparr>bt_heap := (bt_heap s)(bt_next s := new_entry (bj_identity J f) (bj_domain J f) c),
    bt_next := Suc (bt_next s), bt_entries := es @ [bt_next s]\<rparr>))" (is "bot_ok J ?s")
proof -
  let ?n = "bt_next s"
  have old: "\<forall>e\<in>set es. e < ?n" "\<forall>e\<in>set (bt_entries s). e < ?n" using ok es(2) by (auto simp: bot_ok_def pool_shape_def)
  have held_old: "held (bt_stage s g) = Some e \<Longrightarrow> e < ?n" for g e using ok by (auto simp: bot_ok_def owners_ok_def)
  have "pool_shape J ?s"
    unfolding pool_shape_def
  proof (intro conjI allI impI ballI)
    fix e assume "e \<in> set (bt_entries ?s)" "\<not> be_busy (bt_heap ?s e)"
    then show "entry_ready J (bt_heap ?s e)"
      using ok es(2) old by (auto simp: bot_ok_def pool_shape_def set_stage_def new_entry_def split: if_splits)
  next
    fix g e assume a: "bt_stage ?s g = Blanked e" "e \<in> set (bt_entries ?s)"
    then have "bt_stage s g = Blanked e" using st(3) by (auto simp: set_stage_def split: if_splits)
    moreover from this have "e < ?n" using held_old [of g e] by simp
    ultimately show "entry_ready J (bt_heap ?s e)"
      using a ok es(2) by (auto simp: bot_ok_def pool_shape_def set_stage_def)
  next
    fix g e v assume a: "bt_stage ?s g = Evicting e v"
    then have "v < ?n \<and> v \<notin> set es" using ok st(2) es(2) by (cases "g = f") (auto simp: bot_ok_def pool_shape_def set_stage_def)
    then show "v < bt_next ?s" "v \<notin> set (bt_entries ?s)" by (auto simp: set_stage_def)
  qed (use es old in \<open>auto simp: set_stage_def\<close>)
  moreover have "owners_ok J ?s"
    unfolding owners_ok_def
  proof (intro conjI allI impI ballI)
    fix e assume "e \<in> set (bt_entries ?s)" "be_busy (bt_heap ?s e)"
    then have "e = ?n \<or> e \<in> set (bt_entries s) \<and> be_busy (bt_heap s e)"
      using es(2) old by (auto simp: set_stage_def split: if_splits)
    then consider "e = ?n" | "e \<in> set (bt_entries s)" "be_busy (bt_heap s e)" by blast
    then show "\<exists>g. held (bt_stage ?s g) = Some e"
    proof cases
      case 1
      then show ?thesis using st(1) by (intro exI [of _ f]) (simp add: set_stage_def)
    next
      case 2
      then obtain g where "held (bt_stage s g) = Some e" using ok by (auto simp: bot_ok_def owners_ok_def)
      then show ?thesis using free by (intro exI [of _ g]) (auto simp: set_stage_def)
    qed
  qed (use ok st(1) held_old in \<open>fastforce simp: bot_ok_def owners_ok_def set_stage_def new_entry_def split: if_splits\<close>)+
  moreover have "drivers_ok ?s"
    using ok unfolding bot_ok_def drivers_ok_def
    by (auto simp: set_stage_def new_entry_def less_Suc_eq split: if_splits)
  ultimately show ?thesis by (simp add: bot_ok_def)
qed

lemma idle_not_held:
  "bot_ok J s \<Longrightarrow> \<not> be_busy (bt_heap s e) \<Longrightarrow> held (bt_stage s f) \<noteq> Some e"
  by (auto simp: bot_ok_def owners_ok_def)

text \<open>An idle entry is taken over by a fetch of the same identity and domain.\<close>

lemma bot_ok_reuse:
  assumes ok: "bot_ok J s" and free: "held (bt_stage s f) = None"
    and e: "\<not> be_busy (bt_heap s e)" "e \<in> set (bt_entries s)" "be_key (bt_heap s e) = bj_identity J f" "be_domain (bt_heap s e) = bj_domain J f"
  shows "bot_ok J (set_stage f (Handing_Back e seat) (set_entry e (\<lambda>x. x\<lparr>be_busy := True, be_seat := None\<rparr>) s))"
    (is "bot_ok J ?s")
proof -
  have n: "held (bt_stage s g) \<noteq> Some e" for g by (rule idle_not_held [OF ok e(1)])
  have nb: "bt_stage s g \<noteq> Blanked e" for g using n [of g] by auto
  have "pool_shape J ?s"
    using ok n nb by (auto simp: bot_ok_def pool_shape_def bot_ops)
  moreover have "owners_ok J ?s"
    unfolding owners_ok_def
  proof (intro conjI allI impI ballI)
    fix x assume x: "x \<in> set (bt_entries ?s)" "be_busy (bt_heap ?s x)"
    show "\<exists>g. held (bt_stage ?s g) = Some x"
    proof (cases "x = e")
      case True
      then show ?thesis by (intro exI [of _ f]) (simp add: bot_ops)
    next
      case False
      then obtain g where "held (bt_stage s g) = Some x" using ok x by (auto simp: bot_ok_def owners_ok_def bot_ops)
      then show ?thesis using free by (intro exI [of _ g]) (auto simp: bot_ops)
    qed
  next
    fix g h x assume "held (bt_stage ?s g) = Some x" "held (bt_stage ?s h) = Some x"
    then show "g = h" using ok n by (auto simp: bot_ok_def owners_ok_def bot_ops split: if_splits)
  next
    fix g x assume "held (bt_stage ?s g) = Some x"
    then have "g = f \<and> x = e \<or> held (bt_stage s g) = Some x" by (auto simp: bot_ops split: if_splits)
    then show "x < bt_next ?s" "be_busy (bt_heap ?s x)" "be_key (bt_heap ?s x) = bj_identity J g"
      "be_domain (bt_heap ?s x) = bj_domain J g"
      using ok e by (auto simp: bot_ok_def owners_ok_def pool_shape_def bot_ops)
  qed
  moreover have "drivers_ok ?s"
    using ok unfolding bot_ok_def drivers_ok_def by (auto simp: bot_ops split: if_splits)
  ultimately show ?thesis by (simp add: bot_ok_def)
qed

lemma oldest_in: "es \<noteq> [] \<Longrightarrow> oldest s es \<in> set es"
proof -
  assume "es \<noteq> []"
  then obtain m where m: "m \<in> set es" "\<forall>e'\<in>set es. be_last_used (bt_heap s m) \<le> be_last_used (bt_heap s e')"
    using ex_is_arg_min_if_finite [of "set es" "\<lambda>e. be_last_used (bt_heap s e)"]
    by (auto simp: is_arg_min_linorder)
  then have "[e \<leftarrow> es. \<forall>e'\<in>set es. be_last_used (bt_heap s e) \<le> be_last_used (bt_heap s e')] \<noteq> []"
    by (auto simp: filter_empty_conv)
  from hd_in_set [OF this] show ?thesis by (simp add: oldest_def)
qed

lemma bot_ok_checkout:
  assumes ok: "bot_ok J s" and "bt_stage s f = Checking_Out" "checkout J f s = Some s1"
  shows "bot_ok J s1"
proof -
  have free: "held (bt_stage s f) = None" using assms(2) by simp
  have shape: "distinct (bt_entries s)" "length (bt_entries s) \<le> max_drivers J"
    "\<And>e. e \<in> set (bt_entries s) \<Longrightarrow> e < bt_next s"
    using ok by (auto simp: bot_ok_def pool_shape_def)
  let ?match = "find (\<lambda>e. \<not> be_busy (bt_heap s e) \<and> be_key (bt_heap s e) = bj_identity J f
    \<and> be_domain (bt_heap s e) = bj_domain J f) (bt_entries s)"
  show ?thesis
  proof (cases ?match)
    case (Some e)
    then have "\<not> be_busy (bt_heap s e)" "e \<in> set (bt_entries s)" "be_key (bt_heap s e) = bj_identity J f"
      "be_domain (bt_heap s e) = bj_domain J f" by (auto simp: find_Some_iff)
    from bot_ok_reuse [OF ok free this] show ?thesis using assms(3) Some by (auto simp: checkout_def Let_def)
  next
    case None
    show ?thesis
    proof (cases "length (bt_entries s) < max_drivers J")
      case True
      with bot_ok_reserve [OF ok free shape(1) subset_refl True, of "Reserved (bt_next s)" "bt_clock s"]
      show ?thesis using assms(3) None by (auto simp: checkout_def Let_def)
    next
      case full: False
      then have idle: "idle_entries s \<noteq> []" using assms(3) None by (auto simp: checkout_def Let_def split: if_splits)
      let ?v = "oldest s (idle_entries s)"
      have v: "?v \<in> set (bt_entries s)" using oldest_in [OF idle] by (auto simp: idle_entries_def)
      have "distinct (remove1 ?v (bt_entries s))" "set (remove1 ?v (bt_entries s)) \<subseteq> set (bt_entries s)"
        "?v \<notin> set (remove1 ?v (bt_entries s))" using shape(1) by (auto simp: set_remove1_subset)
      moreover have "length (remove1 ?v (bt_entries s)) < max_drivers J"
      proof -
        have "length (remove1 ?v (bt_entries s)) = length (bt_entries s) - 1" using v by (simp add: length_remove1)
        then show ?thesis using shape(2) length_pos_if_in_set [OF v] by linarith
      qed
      ultimately have "bot_ok J (set_stage f (Evicting (bt_next s) ?v)
          (s\<lparr>bt_heap := (bt_heap s)(bt_next s := new_entry (bj_identity J f) (bj_domain J f) (bt_clock s)),
             bt_next := Suc (bt_next s), bt_entries := remove1 ?v (bt_entries s) @ [bt_next s]\<rparr>))"
        using shape(3) [OF v] by (intro bot_ok_reserve [OF ok free]) auto
      then show ?thesis using assms(3) None full idle by (auto simp: checkout_def Let_def)
    qed
  qed
qed

lemma held_owned:
  assumes "bot_ok J s" "held (bt_stage s f) = Some e"
  shows "e < bt_next s" "be_busy (bt_heap s e)" "be_key (bt_heap s e) = bj_identity J f"
    "be_domain (bt_heap s e) = bj_domain J f"
  using assms unfolding bot_ok_def owners_ok_def by blast+

lemma held_unique:
  assumes "bot_ok J s" "held (bt_stage s f) = Some e" "held (bt_stage s g) = Some e"
  shows "g = f"
  using assms unfolding bot_ok_def owners_ok_def by blast

lemma not_blanked:
  assumes "bot_ok J s" "held (bt_stage s f) = Some e" "bt_stage s f \<noteq> Blanked e"
  shows "bt_stage s g \<noteq> Blanked e"
proof
  assume "bt_stage s g = Blanked e"
  with held_unique [OF assms(1,2), of g] assms(3) show False by simp
qed

text \<open>A driver is launched for an entry that has none; its number was never used.\<close>

lemma bot_ok_launch:
  assumes ok: "bot_ok J s" and f: "bt_stage s f = Permitted e" and none: "be_driver (bt_heap s e) = None"
  shows "bot_ok J (launch_driver e s)"
proof -
  have e: "e < bt_next s" "be_busy (bt_heap s e)" using held_owned [OF ok, of f e] f by simp_all
  have nb: "bt_stage s g \<noteq> Blanked e" for g using not_blanked [OF ok, of f e g] f by simp
  have "pool_shape J (launch_driver e s)"
    using ok e nb unfolding bot_ok_def pool_shape_def by (auto simp: launch_driver_def Let_def set_entry_def)
  moreover have "owners_ok J (launch_driver e s)"
    using ok unfolding bot_ok_def owners_ok_def by (auto simp: launch_driver_def Let_def set_entry_def)
  moreover have "drivers_ok (launch_driver e s)"
  proof -
    have d: "drivers_ok s" using ok by (simp add: bot_ok_def)
    have fresh: "be_driver (bt_heap s x) \<noteq> Some (bt_next_driver s)" for x
      using d unfolding drivers_ok_def by (metis less_irrefl)
    have old: "be_driver (bt_heap s x) = Some y \<Longrightarrow> x < bt_next s \<and> y < bt_next_driver s
        \<and> bt_launched s y = (be_key (bt_heap s x), be_domain (bt_heap s x))" for x y
      using d unfolding drivers_ok_def by blast
    show ?thesis
      using d e fresh old unfolding drivers_ok_def launch_driver_def Let_def set_entry_def
      by (simp add: less_Suc_eq) blast
  qed
  ultimately show ?thesis by (simp add: bot_ok_def)
qed

text \<open>A seat is bound to one entry for good.\<close>

lemma bot_ok_seat:
  assumes ok: "bot_ok J s" and f: "bt_stage s f = Permitted e" and new: "l \<notin> set (bt_taken s)"
  shows "bot_ok J (set_entry e (\<lambda>x. x\<lparr>be_seat := Some l\<rparr>) (s\<lparr>bt_taken := l # bt_taken s, bt_seats := ls\<rparr>))"
    (is "bot_ok J ?s")
proof -
  have e: "e < bt_next s" "be_busy (bt_heap s e)" using held_owned [OF ok, of f e] f by simp_all
  have nb: "bt_stage s g \<noteq> Blanked e" for g using not_blanked [OF ok, of f e g] f by simp
  have "pool_shape J ?s"
    using ok e nb unfolding bot_ok_def pool_shape_def by (auto simp: set_entry_def)
  moreover have "owners_ok J ?s"
    using ok unfolding bot_ok_def owners_ok_def by (auto simp: set_entry_def)
  moreover have "drivers_ok ?s"
  proof -
    have d: "drivers_ok s" using ok by (simp add: bot_ok_def)
    have fresh: "be_seat (bt_heap s x) \<noteq> Some l" for x using d new unfolding drivers_ok_def by blast
    show ?thesis using d e fresh unfolding drivers_ok_def by (auto simp: set_entry_def split: if_splits)
  qed
  ultimately show ?thesis by (simp add: bot_ok_def)
qed

lemma bot_ok_park:
  assumes ok: "bot_ok J s" and f: "bt_stage s f = Permitted e" and d: "be_driver (bt_heap s e) = Some d"
  shows "bot_ok J (park_decision J f e blank s)"
proof -
  have close: "bot_ok J (set_stage f (Closing e True) s)" using ok f by (intro bot_ok_stage) auto
  have plain: "\<not> bj_seat_keeper J \<Longrightarrow> bot_ok J (set_stage f (Blanked e) s)"
    using ok f d by (intro bot_ok_stage) (auto simp: entry_ready_def)
  have kept: "bot_ok J (set_stage f (Blanked e) (set_entry e (\<lambda>x. x\<lparr>be_seat := Some l\<rparr>)
      (s\<lparr>bt_taken := l # bt_taken s, bt_seats := l # bt_seats s\<rparr>)))" if "l \<notin> set (bt_taken s)" for l
    using bot_ok_seat [OF ok f that] f d by (intro bot_ok_stage) (auto simp: entry_ready_def set_entry_def)
  show ?thesis
    using close plain kept by (auto simp: park_decision_def retain_def split: option.splits)
qed

lemma bot_ok_checkin:
  assumes ok: "bot_ok J s" and f: "bt_stage s f = Blanked e"
  shows "bot_ok J (checkin f e s)"
proof -
  have others: "held (bt_stage s g) = Some e \<Longrightarrow> g = f" for g using held_unique [OF ok, of f e g] f by simp
  have ready: "e \<in> set (bt_entries s) \<longrightarrow> entry_ready J (bt_heap s e)"
    using ok f unfolding bot_ok_def pool_shape_def by blast
  have "pool_shape J (checkin f e s)"
    using ok ready unfolding bot_ok_def pool_shape_def by (auto simp: checkin_def bot_ops entry_ready_def)
  moreover have "owners_ok J (checkin f e s)"
    unfolding owners_ok_def
  proof (intro conjI allI impI ballI)
    fix x assume x: "x \<in> set (bt_entries (checkin f e s))" "be_busy (bt_heap (checkin f e s) x)"
    then have "x \<noteq> e" "x \<in> set (bt_entries s)" "be_busy (bt_heap s x)" by (auto simp: checkin_def bot_ops split: if_splits)
    moreover from this obtain g where "held (bt_stage s g) = Some x" using ok unfolding bot_ok_def owners_ok_def by blast
    ultimately show "\<exists>g. held (bt_stage (checkin f e s) g) = Some x"
      using f by (intro exI [of _ g]) (auto simp: checkin_def bot_ops)
  next
    fix g h x assume "held (bt_stage (checkin f e s) g) = Some x" "held (bt_stage (checkin f e s) h) = Some x"
    then show "g = h" using held_unique [OF ok, of h x g] by (auto simp: checkin_def bot_ops split: if_splits)
  next
    fix g x assume "held (bt_stage (checkin f e s) g) = Some x"
    then have "held (bt_stage s g) = Some x" "x \<noteq> e" using others by (auto simp: checkin_def bot_ops split: if_splits)
    then show "x < bt_next (checkin f e s)" "be_busy (bt_heap (checkin f e s) x)"
      "be_key (bt_heap (checkin f e s) x) = bj_identity J g" "be_domain (bt_heap (checkin f e s) x) = bj_domain J g"
      using ok by (auto simp: bot_ok_def owners_ok_def checkin_def bot_ops)
  qed
  moreover have "drivers_ok (checkin f e s)"
    using ok unfolding bot_ok_def drivers_ok_def by (auto simp: checkin_def bot_ops split: if_splits)
  ultimately show ?thesis by (simp add: bot_ok_def)
qed

lemma bot_ok_remove:
  assumes "bot_ok J s"
  shows "bot_ok J (s\<lparr>bt_entries := remove1 e (bt_entries s)\<rparr>)"
proof (rule bot_ok_shrink [OF assms])
  show "distinct (remove1 e (bt_entries s))" using assms by (auto simp: bot_ok_def pool_shape_def)
qed (auto simp: set_remove1_subset length_remove1)

lemma bot_ok_close_parked:
  assumes "bot_ok J s"
  shows "bot_ok J (close_parked seat s)"
proof (cases "parked_choice seat s")
  case (Some e)
  have "distinct (bt_entries s)" using assms by (simp add: bot_ok_def pool_shape_def)
  then have "e \<notin> set (remove1 e (bt_entries s))" by simp
  then have "bot_ok J (close_entry e (s\<lparr>bt_entries := remove1 e (bt_entries s)\<rparr>))"
    by (intro bot_ok_close(1) bot_ok_remove assms) simp
  then show ?thesis using Some by (simp add: close_parked_def)
qed (use assms in \<open>simp add: close_parked_def\<close>)

lemma bot_ok_shutdown:
  assumes "bot_ok J s"
  shows "bot_ok J (bot_shutdown s)"
proof -
  have "bot_ok J (fold close_entry es t) \<and> bt_entries (fold close_entry es t) = []"
    if "bot_ok J t" "bt_entries t = []" for es t
    using that
  proof (induction es arbitrary: t)
    case (Cons e es)
    have "bot_ok J (close_entry e t)" using Cons.prems by (intro bot_ok_close) simp_all
    moreover have "bt_entries (close_entry e t) = []" using Cons.prems by (simp add: close_entry_def set_entry_def)
    ultimately show ?case using Cons.IH by simp
  qed simp
  moreover have "bot_ok J (s\<lparr>bt_entries := []\<rparr>)" by (rule bot_ok_shrink [OF assms]) simp_all
  ultimately show ?thesis by (simp add: bot_shutdown_def)
qed

lemma close_keeps [simp]:
  "bt_entries (close_entry e s) = bt_entries s" "bt_stage (close_entry e s) = bt_stage s"
  "bt_entries (close_cut_short e s) = bt_entries s" "bt_stage (close_cut_short e s) = bt_stage s"
  "bt_next (close_entry e s) = bt_next s" "bt_next (close_cut_short e s) = bt_next s"
  by (simp_all add: close_entry_def close_cut_short_def set_entry_def)

lemma bot_ok_step:
  assumes "bot_step J s s1" "bot_ok J s"
  shows "bot_ok J s1"
  using assms
proof (induction rule: bot_step.induct)
  case (step_checkout s f s1)
  then show ?case by (blast intro: bot_ok_checkout)
next
  case (step_cancel_wait s f)
  then show ?case by (intro bot_ok_end) auto
next
  case (step_hand_back s f e seat)
  then show ?case by (intro bot_ok_stage [of _ _ _ e]) auto
next
  case (step_hand_back_cut s f e seat)
  then show ?case by (intro bot_ok_stage [of _ _ _ e]) auto
next
  case (step_evict s f e v)
  have "v \<notin> set (bt_entries s)" using step_evict unfolding bot_ok_def pool_shape_def by blast
  then have "bot_ok J (close_entry v s)" by (intro bot_ok_close step_evict.prems) simp
  then show ?case using step_evict by (intro bot_ok_stage [of _ _ _ e]) auto
next
  case (step_evict_cut s f e v)
  have "v \<notin> set (bt_entries s)" using step_evict_cut unfolding bot_ok_def pool_shape_def by blast
  then have "bot_ok J (close_cut_short v s)" by (intro bot_ok_close step_evict_cut.prems) simp
  then show ?case using step_evict_cut by (intro bot_ok_stage [of _ _ _ e]) auto
next
  case (step_permit s f e)
  then show ?case by (intro bot_ok_stage [of _ _ _ e]) auto
next
  case (step_no_permit s f e)
  then show ?case by (intro bot_ok_stage [of _ _ _ e]) auto
next
  case (step_failed s f e)
  then show ?case by (intro bot_ok_stage [of _ _ _ e]) auto
next
  case (step_checkin_cut s f e)
  then show ?case by (intro bot_ok_stage [of _ _ _ e]) auto
next
  case (step_close s f e good)
  have "be_busy (bt_heap s e)" using held_owned(2) [OF step_close.prems, of f e] step_close.hyps by simp
  moreover have "bt_stage s g \<noteq> Blanked e" for g using not_blanked [OF step_close.prems, of f e g] step_close.hyps by simp
  ultimately have "bot_ok J (close_entry e s)" by (intro bot_ok_close step_close.prems) simp
  then show ?case using step_close by (intro bot_ok_stage [of _ _ _ e]) auto
next
  case (step_close_cut s f e good)
  have "be_busy (bt_heap s e)" using held_owned(2) [OF step_close_cut.prems, of f e] step_close_cut.hyps by simp
  moreover have "bt_stage s g \<noteq> Blanked e" for g using not_blanked [OF step_close_cut.prems, of f e g] step_close_cut.hyps by simp
  ultimately have "bot_ok J (close_cut_short e s)" by (intro bot_ok_close step_close_cut.prems) simp
  then show ?case using step_close_cut by (intro bot_ok_stage [of _ _ _ e]) auto
next
  case (step_drop s f e good)
  have "distinct (bt_entries s)" using step_drop by (simp add: bot_ok_def pool_shape_def)
  then show ?case using step_drop by (intro bot_ok_end bot_ok_remove) auto
qed (auto intro: bot_ok_launch bot_ok_park bot_ok_checkin bot_ok_close_parked bot_ok_shutdown)

lemma bot_reach_ok: "bot_reach J s \<Longrightarrow> bot_ok J s"
  by (induction rule: bot_reach.induct) (auto intro: bot_ok_init bot_ok_step)

text \<open>
  \<^bold>\<open>C4\<close>: a live browser never crosses between proxies, domains or fetches. However the fetches of a job
  interleave, with evictions, cancellations at any await, the reclaiming of parked drivers and a
  shutdown in between, the driver a fetch holds was launched for that fetch's own proxy identity and
  domain, and no other fetch and no entry of the pool but its own has it.
\<close>

theorem driver_never_shared:
  assumes "bot_reach J s" "held (bt_stage s f) = Some e" "be_driver (bt_heap s e) = Some d"
  shows "bt_launched s d = (bj_identity J f, bj_domain J f)
    \<and> (\<forall>g e'. held (bt_stage s g) = Some e' \<longrightarrow> be_driver (bt_heap s e') = Some d \<longrightarrow> g = f)
    \<and> (\<forall>e'\<in>set (bt_entries s). be_driver (bt_heap s e') = Some d \<longrightarrow> e' = e)"
proof -
  note ok = bot_reach_ok [OF assms(1)]
  have one: "be_driver (bt_heap s e') = Some d \<Longrightarrow> e' = e" for e'
    using ok assms(3) unfolding bot_ok_def drivers_ok_def by blast
  have "bt_launched s d = (be_key (bt_heap s e), be_domain (bt_heap s e))"
    using ok assms(3) unfolding bot_ok_def drivers_ok_def by blast
  then show ?thesis using one held_owned [OF ok assms(2)] held_unique [OF ok assms(2)] by auto
qed

text \<open>
  The seat of an entry is one the keeper holds, unless the host let it lapse; a seat that a fetch is
  handing back keeps no entry.
\<close>

definition seats_ok :: "bot_state \<Rightarrow> bool" where
  "seats_ok s \<longleftrightarrow>
     (\<forall>e l. be_seat (bt_heap s e) = Some l \<longrightarrow> l \<in> set (bt_seats s) \<or> l \<in> set (bt_lost s))
     \<and> (\<forall>f e l. bt_stage s f = Handing_Back e (Some l) \<longrightarrow> l \<in> set (bt_taken s) \<and> (\<forall>x. be_seat (bt_heap s x) \<noteq> Some l))"

lemma seats_okI:
  assumes "\<And>e l. be_seat (bt_heap s e) = Some l \<Longrightarrow> l \<in> set (bt_seats s) \<or> l \<in> set (bt_lost s)"
    and "\<And>f e l. bt_stage s f = Handing_Back e (Some l) \<Longrightarrow> l \<in> set (bt_taken s)"
    and "\<And>f e l x. bt_stage s f = Handing_Back e (Some l) \<Longrightarrow> be_seat (bt_heap s x) = Some l \<Longrightarrow> False"
  shows "seats_ok s"
  using assms unfolding seats_ok_def by blast

lemma seats_okD:
  assumes "seats_ok s"
  shows "be_seat (bt_heap s e) = Some l \<Longrightarrow> l \<in> set (bt_seats s) \<or> l \<in> set (bt_lost s)"
    and "bt_stage s f = Handing_Back e (Some l) \<Longrightarrow> l \<in> set (bt_taken s)"
    and "bt_stage s f = Handing_Back e (Some l) \<Longrightarrow> be_seat (bt_heap s x) = Some l \<Longrightarrow> False"
  using assms unfolding seats_ok_def by blast+

text \<open>Most steps take no seat from an entry that keeps one, give none and begin no hand-back.\<close>

lemma seats_ok_shrink:
  assumes "seats_ok s" "bt_taken t = bt_taken s" "bt_lost t = bt_lost s"
    and "\<And>e l. be_seat (bt_heap t e) = Some l \<Longrightarrow> be_seat (bt_heap s e) = Some l \<and> (l \<in> set (bt_seats s) \<longrightarrow> l \<in> set (bt_seats t))"
    and "\<And>f e l. bt_stage t f = Handing_Back e (Some l) \<Longrightarrow> bt_stage s f = Handing_Back e (Some l)"
  shows "seats_ok t"
proof (rule seats_okI)
  fix e l assume "be_seat (bt_heap t e) = Some l"
  with assms(4) [OF this] seats_okD(1) [OF assms(1), of e l] assms(3) show "l \<in> set (bt_seats t) \<or> l \<in> set (bt_lost t)" by auto
next
  fix f e l assume "bt_stage t f = Handing_Back e (Some l)"
  with seats_okD(2) [OF assms(1) assms(5)] assms(2) show "l \<in> set (bt_taken t)" by simp
next
  fix f e l x assume "bt_stage t f = Handing_Back e (Some l)" "be_seat (bt_heap t x) = Some l"
  with assms(4,5) seats_okD(3) [OF assms(1)] show False by blast
qed

lemma seat_unique: "bot_ok J s \<Longrightarrow> be_seat (bt_heap s e) = Some l \<Longrightarrow> be_seat (bt_heap s e') = Some l \<Longrightarrow> e = e'"
  unfolding bot_ok_def drivers_ok_def by blast

lemma seat_taken: "bot_ok J s \<Longrightarrow> be_seat (bt_heap s e) = Some l \<Longrightarrow> l \<in> set (bt_taken s)"
  unfolding bot_ok_def drivers_ok_def by blast

lemma seats_ok_close:
  assumes "bot_ok J s" "seats_ok s"
  shows "seats_ok (close_entry e s)" "seats_ok (close_cut_short e s)"
proof -
  show "seats_ok (close_entry e s)"
  proof (rule seats_ok_shrink [OF assms(2)])
    fix x l assume "be_seat (bt_heap (close_entry e s) x) = Some l"
    then have x: "x \<noteq> e" "be_seat (bt_heap s x) = Some l" by (auto simp: close_entry_def bot_ops split: if_splits)
    moreover have "be_seat (bt_heap s e) \<noteq> Some l" using seat_unique [OF assms(1) x(2), of e] x(1) by blast
    ultimately show "be_seat (bt_heap s x) = Some l \<and> (l \<in> set (bt_seats s) \<longrightarrow> l \<in> set (bt_seats (close_entry e s)))"
      by (auto simp: close_entry_def bot_ops release_seat_def split: option.split)
  qed (simp_all add: close_entry_def bot_ops)
  show "seats_ok (close_cut_short e s)"
    by (rule seats_ok_shrink [OF assms(2)]) (auto simp: close_cut_short_def bot_ops split: if_splits)
qed

lemma seats_ok_stage:
  "seats_ok s \<Longrightarrow> (\<And>e l. st \<noteq> Handing_Back e (Some l)) \<Longrightarrow> seats_ok (set_stage f st s)"
  by (erule seats_ok_shrink) (auto simp: set_stage_def split: if_splits)

lemma seats_ok_entries [simp]: "seats_ok (s\<lparr>bt_entries := es\<rparr>) = seats_ok s" "seats_ok (s\<lparr>bt_clock := c\<rparr>) = seats_ok s"
  by (simp_all add: seats_ok_def)

lemma seats_ok_checkout:
  assumes "bot_ok J s" "seats_ok s" "checkout J f s = Some s1"
  shows "seats_ok s1"
proof -
  have allocate: "seats_ok (set_stage f st (s\<lparr>bt_heap := (bt_heap s)(bt_next s := new_entry k d c), bt_next := n, bt_entries := es\<rparr>))"
    if "\<And>e l. st \<noteq> Handing_Back e (Some l)" for st k d c n es
    using that by (intro seats_ok_shrink [OF assms(2)]) (auto simp: set_stage_def new_entry_def split: if_splits)
  have take: "seats_ok (set_stage f (Handing_Back e (be_seat (bt_heap s e))) (set_entry e (\<lambda>x. x\<lparr>be_busy := True, be_seat := None\<rparr>) s))" for e
  proof (rule seats_okI)
    fix g x l y
    assume g: "bt_stage (set_stage f (Handing_Back e (be_seat (bt_heap s e))) (set_entry e (\<lambda>x. x\<lparr>be_busy := True, be_seat := None\<rparr>) s)) g = Handing_Back x (Some l)"
    then show "l \<in> set (bt_taken (set_stage f (Handing_Back e (be_seat (bt_heap s e))) (set_entry e (\<lambda>x. x\<lparr>be_busy := True, be_seat := None\<rparr>) s)))"
      using seat_taken [OF assms(1)] seats_okD(2) [OF assms(2)] by (auto simp: bot_ops split: if_splits)
    assume "be_seat (bt_heap (set_stage f (Handing_Back e (be_seat (bt_heap s e))) (set_entry e (\<lambda>x. x\<lparr>be_busy := True, be_seat := None\<rparr>) s)) y) = Some l"
    with g show False
      using seat_unique [OF assms(1)] seats_okD(3) [OF assms(2)] by (auto simp: bot_ops split: if_splits)
  qed (use seats_okD(1) [OF assms(2)] in \<open>auto simp: bot_ops split: if_splits\<close>)
  from assms(3) show ?thesis
    unfolding checkout_def Let_def using allocate take by (auto split: option.splits if_splits)
qed

lemma seats_ok_park:
  assumes "bot_ok J s" "seats_ok s"
  shows "seats_ok (park_decision J f e blank s)"
proof -
  have kept: "seats_ok (set_entry e (\<lambda>x. x\<lparr>be_seat := Some l\<rparr>) (s\<lparr>bt_taken := l # bt_taken s, bt_seats := l # bt_seats s\<rparr>))"
    if "l \<notin> set (bt_taken s)" for l
    by (rule seats_okI) (use that seats_okD [OF assms(2)] in \<open>fastforce simp: bot_ops split: if_splits\<close>)+
  show ?thesis
    using assms(2) kept
    by (auto simp: park_decision_def retain_def intro!: seats_ok_stage split: option.splits)
qed

lemma seats_ok_shutdown:
  assumes "bot_ok J s" "seats_ok s"
  shows "seats_ok (bot_shutdown s)"
proof -
  have "seats_ok (fold close_entry es t)" if "bot_ok J t" "bt_entries t = []" "seats_ok t" for es t
    using that
  proof (induction es arbitrary: t)
    case (Cons e es)
    have "bot_ok J (close_entry e t)" using Cons.prems by (intro bot_ok_close) simp_all
    moreover have "bt_entries (close_entry e t) = []" using Cons.prems by simp
    ultimately show ?case using Cons.IH seats_ok_close(1) [OF Cons.prems(1,3)] by simp
  qed simp
  moreover have "bot_ok J (s\<lparr>bt_entries := []\<rparr>)" by (rule bot_ok_shrink [OF assms(1)]) simp_all
  ultimately show ?thesis using assms(2) by (simp add: bot_shutdown_def)
qed

lemma seats_ok_step:
  assumes "bot_step J s s1" "bot_ok J s" "seats_ok s"
  shows "seats_ok s1"
  using assms
proof (induction rule: bot_step.induct)
  case (step_checkout s f s1)
  then show ?case by (blast intro: seats_ok_checkout)
next
  case (step_hand_back s f e seat)
  have "seats_ok (release_seat seat s)"
    by (rule seats_ok_shrink [OF step_hand_back.prems(2)])
      (use seats_okD(3) [OF step_hand_back.prems(2)] step_hand_back.hyps in \<open>auto simp: release_seat_def split: option.splits\<close>)
  then show ?case by (rule seats_ok_stage) simp
next
  case (step_launch s f e)
  then show ?case by (intro seats_ok_shrink [OF step_launch.prems(2)]) (auto simp: launch_driver_def bot_ops Let_def split: if_splits)
next
  case (step_checkin s f e)
  then show ?case by (intro seats_ok_shrink [OF step_checkin.prems(2)]) (auto simp: checkin_def bot_ops split: if_splits)
next
  case (step_drop s f e good)
  then show ?case by (auto intro!: seats_ok_stage)
next
  case (step_reclaim s seat)
  then have "bot_ok J (s\<lparr>bt_entries := es\<rparr>)" if "es = remove1 e (bt_entries s)" for e es using that by (simp add: bot_ok_remove)
  with step_reclaim show ?case by (auto simp: close_parked_def intro!: seats_ok_close(1) split: option.split)
next
  case (step_lapse s l)
  then show ?case unfolding seats_ok_def by auto
qed (auto intro!: seats_ok_stage intro: seats_ok_close seats_ok_park seats_ok_shutdown)

lemma bot_reach_seats: "bot_reach J s \<Longrightarrow> seats_ok s"
proof (induction rule: bot_reach.induct)
  case reach_init
  then show ?case by (simp add: seats_ok_def bot_pool_init_def new_entry_def)
qed (blast intro: seats_ok_step bot_reach_ok)

text \<open>
  \<^bold>\<open>C23\<close>: every parked browser is live and paid for. In every reachable state the pool holds no more
  entries than its cap, launches in flight included, and an idle entry has a driver and, under host
  admission, a seat that no other entry has and that the keeper of seats holds on the host, unless
  the lease of the seat has lapsed there.
\<close>

theorem parked_driver_accounted:
  assumes "bot_reach J s"
  shows "length (bt_entries s) \<le> max_drivers J \<and> (\<forall>e. e \<in> set (bt_entries s) \<and> \<not> be_busy (bt_heap s e) \<longrightarrow>
     be_driver (bt_heap s e) \<noteq> None \<and>
     (bj_seat_keeper J \<longrightarrow> (\<exists>l. be_seat (bt_heap s e) = Some l \<and> (l \<in> set (bt_seats s) \<or> l \<in> set (bt_lost s))
        \<and> (\<forall>e'. be_seat (bt_heap s e') = Some l \<longrightarrow> e' = e))))"
proof (intro conjI allI impI; (elim conjE)?)
  note ok = bot_reach_ok [OF assms]
  show "length (bt_entries s) \<le> max_drivers J" using ok by (simp add: bot_ok_def pool_shape_def)
  fix e assume e: "e \<in> set (bt_entries s)" "\<not> be_busy (bt_heap s e)"
  then have ready: "entry_ready J (bt_heap s e)" using ok unfolding bot_ok_def pool_shape_def by blast
  then show "be_driver (bt_heap s e) \<noteq> None" by (simp add: entry_ready_def)
  assume "bj_seat_keeper J"
  with ready obtain l where "be_seat (bt_heap s e) = Some l" by (auto simp: entry_ready_def)
  then show "\<exists>l. be_seat (bt_heap s e) = Some l \<and> (l \<in> set (bt_seats s) \<or> l \<in> set (bt_lost s))
      \<and> (\<forall>e'. be_seat (bt_heap s e') = Some l \<longrightarrow> e' = e)"
    using seats_okD(1) [OF bot_reach_seats [OF assms]] seat_unique [OF ok] by blast
qed

subsection \<open>A run\<close>

definition demo_bot :: bot_job where
  "demo_bot = \<lparr>bj_max_pooled_drivers = 1, bj_park_drivers = True, bj_seat_keeper = True, bj_identity = (\<lambda>f. ''p''),
     bj_domain = (\<lambda>f. ''shop.example''), bj_reusable = (\<lambda>f. True), bj_claim = (\<lambda>f. Some ''lease'')\<rparr>"

text \<open>Fetch 0 reserves an entry and launches its driver; then it parks it.\<close>

definition demo_launched :: bot_state where
  "demo_launched = launch_driver 0 (set_stage 0 (Permitted 0) (the (checkout demo_bot 0 bot_pool_init)))"

definition demo_parked :: bot_state where
  "demo_parked = checkin 0 0 (park_decision demo_bot 0 0 True demo_launched)"

lemmas demo_bot_simps = demo_bot_def demo_launched_def demo_parked_def checkout_def bot_pool_init_def max_drivers_def
  bot_ops new_entry_def launch_driver_def park_decision_def retain_def checkin_def

lemma demo_launched_reach: "bot_reach demo_bot demo_launched"
proof -
  let ?s1 = "the (checkout demo_bot 0 bot_pool_init)"
  have "checkout demo_bot 0 bot_pool_init = Some ?s1" by (simp add: demo_bot_simps)
  then have "bot_reach demo_bot ?s1"
    by (intro reach_step [OF reach_init step_checkout [of _ 0]]) (simp_all add: bot_pool_init_def)
  then have "bot_reach demo_bot (set_stage 0 (Permitted 0) ?s1)"
    by (rule reach_step) (rule step_permit, simp add: demo_bot_simps)
  then show ?thesis
    unfolding demo_launched_def by (rule reach_step) (rule step_launch [of _ 0]; simp add: demo_bot_simps)
qed

lemma demo_parked_reach: "bot_reach demo_bot demo_parked"
proof -
  have "bot_reach demo_bot (park_decision demo_bot 0 0 True demo_launched)"
    by (rule reach_step [OF demo_launched_reach]) (rule step_navigated [of _ 0 0 0]; simp add: demo_bot_simps Let_def)
  then show ?thesis
    unfolding demo_parked_def by (rule reach_step) (rule step_checkin, simp add: demo_bot_simps Let_def)
qed

lemma driver_never_shared_witness:
  "be_driver (bt_heap demo_launched 0) = Some 0 \<and> bt_launched demo_launched 0 = (bj_identity demo_bot 0, bj_domain demo_bot 0)"
  using driver_never_shared [OF demo_launched_reach, of 0 0 0] by (simp add: demo_bot_simps Let_def)

lemma parked_driver_accounted_witness:
  "be_driver (bt_heap demo_parked 0) \<noteq> None \<and> be_seat (bt_heap demo_parked 0) = Some ''lease'' \<and> bt_seats demo_parked = [''lease''] \<and>
   length (bt_entries demo_parked) \<le> 1"
proof -
  have "0 \<in> set (bt_entries demo_parked)" "\<not> be_busy (bt_heap demo_parked 0)" "bj_seat_keeper demo_bot"
    "be_seat (bt_heap demo_parked 0) = Some ''lease''" "bt_seats demo_parked = [''lease'']" "max_drivers demo_bot = 1"
    by (simp_all add: demo_bot_simps Let_def)
  with parked_driver_accounted [OF demo_parked_reach] show ?thesis by auto
qed

subsection \<open>What a cancelled fetch leaves behind\<close>

text \<open>
  The reservation is made outside the block that undoes it: a fetch cancelled while it hands back the
  seat of a driver it took over, or while it closes the one it replaces, leaves its entry busy for
  the rest of the job. With one driver per job no later fetch gets one.
\<close>

lemma fold_close_stage [simp]: "bt_stage (fold close_entry es s) = bt_stage s"
  by (induction es arbitrary: s) simp_all

lemma close_parked_stage [simp]: "bt_stage (close_parked seat s) = bt_stage s"
  by (simp add: close_parked_def split: option.splits)

lemma stranded_for_good:
  assumes "bot_step J s s1" "bt_stage s f = Stranded e"
  shows "bt_stage s1 f = Stranded e"
  using assms
  by (cases rule: bot_step.cases)
    (auto simp: checkout_def Let_def bot_ops park_decision_def retain_def checkin_def launch_driver_def bot_shutdown_def
      split: option.splits if_splits)

lemma stranded_blocks:
  assumes "bot_reach J s" "bt_stage s f = Stranded e" "bt_entries s = [e]" "max_drivers J = 1"
  shows "checkout J g s = None"
  using held_owned(2) [OF bot_reach_ok [OF assms(1)], of f e] assms(2,3,4)
  by (simp add: checkout_def idle_entries_def)

lemma cancelled_takeover_strands:
  assumes "bot_reach J s" "bt_stage s f = Handing_Back e seat" "bt_entries s = [e]" "max_drivers J = 1"
  shows "\<exists>s1. bot_reach J s1 \<and> (\<forall>g. checkout J g s1 = None)"
proof -
  let ?s = "set_stage f (Stranded e) s"
  have r: "bot_reach J ?s" by (rule reach_step [OF assms(1) step_hand_back_cut]) fact
  have "checkout J g ?s = None" for g
    by (rule stranded_blocks [OF r, of f e]) (use assms in \<open>simp_all add: set_stage_def\<close>)
  with r show ?thesis by blast
qed

end
