(* ===== verification/Redis_Service.thy ===== *)
theory Redis_Service
  imports Prelude "HOL-Library.Product_Lexorder" "HOL-Library.List_Lexorder" "HOL-Library.Char_ord"
begin

text \<open>
  The Redis service as the program sees it. Redis is not part of the repository, so it is a
  parameter: a \<^emph>\<open>server\<close> is any function executing commands on some state, and the theorems
  about the components hold for every server that behaves as the Redis command reference says
  (locale \<open>redis_server\<close>, stated against the reference keyspace \<open>redis_exec\<close>).

  The program's side is syntax: a Lua script is a \<open>lua\<close> term (executed atomically by EVAL), an
  async Python method a \<open>prog\<close> term, whose every round trip may be lost in either direction and
  whose continuation sees the exception the client raises then.
\<close>

subsection \<open>Commands and replies\<close>

text \<open>
  A stored string is given by what its text denotes: the decimal text of an integer or of a
  float, the text \<open>json.dumps\<close> printed for a value, or any other text.
\<close>

datatype json =
    JNull | JBool bool | JInt int | JNum rat | JStr string
  | JList "json list" | JObj "(string \<times> json) list"

datatype rstr = RInt int | RNum rat | RText string | RJson json

datatype zflag = ZPlain | ZNX | ZXX

datatype command =
    GET string
  | SET string rstr "int option" bool
  | DEL string
  | INCRBY string int
  | INCRBYFLOAT string rat
  | PEXPIRE string int
  | PTTL string
  | TIME
  | ZADD string zflag int string
  | ZREM string string
  | ZCARD string
  | ZSCORE string string
  | ZCOUNT_above string int
  | ZREMRANGE_upto string int
  | ZRANGE_upto string int
  | ZRANGE_above string int
  | ZRANGE string
  | HSET string string rstr
  | HMSET string "(string \<times> rstr) list"
  | HDEL string string
  | HDELS string "string list"
  | HGET string string
  | HGETALL string
  | HINCRBY string string int
  | SADD string "string list"
  | SREM string "string list"
  | SCARD string

datatype reply =
    RNil | ROk | RBulk rstr | RInteger int | RMembers "string list"
  | RPairs "(string \<times> rstr) list" | RStrings "rstr list" | RErr

subsection \<open>The documented keyspace\<close>

datatype rvalue = VStr rstr | VZset "(string \<times> int) list" | VHash "(string \<times> rstr) list" | VSet "string list"

record entry =
  e_val :: rvalue
  e_exp :: "int option"

record keyspace =
  ks_us :: int
  ks_db :: "string \<Rightarrow> entry option"

text \<open>The server's clock runs in microseconds, expiries are in milliseconds.\<close>

definition ks_now :: "keyspace \<Rightarrow> int" where
  "ks_now K = ks_us K div 1000"

definition alive :: "int \<Rightarrow> entry \<Rightarrow> bool" where
  "alive now e = (case e_exp e of None \<Rightarrow> True | Some t \<Rightarrow> now \<le> t)"

definition live :: "keyspace \<Rightarrow> string \<Rightarrow> entry option" where
  "live K k = (case ks_db K k of None \<Rightarrow> None | Some e \<Rightarrow> if alive (ks_now K) e then Some e else None)"

definition deadline :: "keyspace \<Rightarrow> string \<Rightarrow> int option" where
  "deadline K k = (case live K k of None \<Rightarrow> None | Some e \<Rightarrow> e_exp e)"

text \<open>Typed reads: \<open>None\<close> is a key of another type (\<open>WRONGTYPE\<close>).\<close>

definition str_at :: "keyspace \<Rightarrow> string \<Rightarrow> rstr option option" where
  "str_at K k = (case live K k of None \<Rightarrow> Some None
     | Some e \<Rightarrow> (case e_val e of VStr v \<Rightarrow> Some (Some v) | _ \<Rightarrow> None))"

definition zset_at :: "keyspace \<Rightarrow> string \<Rightarrow> (string \<times> int) list option" where
  "zset_at K k = (case live K k of None \<Rightarrow> Some []
     | Some e \<Rightarrow> (case e_val e of VZset z \<Rightarrow> Some z | _ \<Rightarrow> None))"

definition hash_at :: "keyspace \<Rightarrow> string \<Rightarrow> (string \<times> rstr) list option" where
  "hash_at K k = (case live K k of None \<Rightarrow> Some []
     | Some e \<Rightarrow> (case e_val e of VHash h \<Rightarrow> Some h | _ \<Rightarrow> None))"

definition set_at :: "keyspace \<Rightarrow> string \<Rightarrow> string list option" where
  "set_at K k = (case live K k of None \<Rightarrow> Some []
     | Some e \<Rightarrow> (case e_val e of VSet ms \<Rightarrow> Some ms | _ \<Rightarrow> None))"

definition put :: "string \<Rightarrow> entry option \<Rightarrow> keyspace \<Rightarrow> keyspace" where
  "put k e K = K\<lparr>ks_db := (ks_db K)(k := e)\<rparr>"

definition put_str :: "string \<Rightarrow> rstr \<Rightarrow> int option \<Rightarrow> keyspace \<Rightarrow> keyspace" where
  "put_str k v t K = put k (Some \<lparr>e_val = VStr v, e_exp = t\<rparr>) K"

text \<open>A container that loses its last element disappears, and its expiry with it.\<close>

definition put_zset :: "string \<Rightarrow> (string \<times> int) list \<Rightarrow> keyspace \<Rightarrow> keyspace" where
  "put_zset k z K =
     put k (if z = [] then None else Some \<lparr>e_val = VZset z, e_exp = deadline K k\<rparr>) K"

definition put_hash :: "string \<Rightarrow> (string \<times> rstr) list \<Rightarrow> keyspace \<Rightarrow> keyspace" where
  "put_hash k h K =
     put k (if h = [] then None else Some \<lparr>e_val = VHash h, e_exp = deadline K k\<rparr>) K"

definition put_set :: "string \<Rightarrow> string list \<Rightarrow> keyspace \<Rightarrow> keyspace" where
  "put_set k ms K =
     put k (if ms = [] then None else Some \<lparr>e_val = VSet ms, e_exp = deadline K k\<rparr>) K"

text \<open>A new expiry for a key that exists; one that is not in the future deletes it.\<close>

definition bump :: "string \<Rightarrow> int \<Rightarrow> keyspace \<Rightarrow> keyspace" where
  "bump k ms K =
     (case live K k of None \<Rightarrow> K
      | Some e \<Rightarrow> if ms \<le> 0 then put k None K else put k (Some (e\<lparr>e_exp := Some (ks_now K + ms)\<rparr>)) K)"

definition zorder :: "(string \<times> int) list \<Rightarrow> string list" where
  "zorder z = map fst (sort_key (\<lambda>(m, s). (s, m)) z)"

definition as_int :: "rstr option \<Rightarrow> int option" where
  "as_int v = (case v of None \<Rightarrow> Some 0 | Some (RInt i) \<Rightarrow> Some i | _ \<Rightarrow> None)"

definition as_num :: "rstr option \<Rightarrow> rat option" where
  "as_num v = (case v of None \<Rightarrow> Some 0 | Some (RInt i) \<Rightarrow> Some (of_int i)
     | Some (RNum q) \<Rightarrow> Some q | _ \<Rightarrow> None)"

definition zadd :: "zflag \<Rightarrow> int \<Rightarrow> string \<Rightarrow> (string \<times> int) list \<Rightarrow> (string \<times> int) list" where
  "zadd f sc m z =
     (case (f, map_of z m) of
        (ZNX, Some _) \<Rightarrow> z
      | (ZXX, None) \<Rightarrow> z
      | _ \<Rightarrow> alist_put m sc z)"

fun redis_exec :: "command \<Rightarrow> keyspace \<Rightarrow> reply \<times> keyspace" where
  "redis_exec (GET k) K =
     (case str_at K k of None \<Rightarrow> (RErr, K) | Some None \<Rightarrow> (RNil, K) | Some (Some v) \<Rightarrow> (RBulk v, K))"
| "redis_exec (SET k v px nx) K =
     (case px of
        Some t \<Rightarrow>
          if t \<le> 0 then (RErr, K)
          else if nx \<and> live K k \<noteq> None then (RNil, K)
          else (ROk, put_str k v (Some (ks_now K + t)) K)
      | None \<Rightarrow> if nx \<and> live K k \<noteq> None then (RNil, K) else (ROk, put_str k v None K))"
| "redis_exec (DEL k) K = (RInteger (if live K k = None then 0 else 1), put k None K)"
| "redis_exec (INCRBY k n) K =
     (case str_at K k of None \<Rightarrow> (RErr, K)
      | Some v \<Rightarrow> (case as_int v of None \<Rightarrow> (RErr, K)
          | Some i \<Rightarrow> (RInteger (i + n), put_str k (RInt (i + n)) (deadline K k) K)))"
| "redis_exec (INCRBYFLOAT k q) K =
     (case str_at K k of None \<Rightarrow> (RErr, K)
      | Some v \<Rightarrow> (case as_num v of None \<Rightarrow> (RErr, K)
          | Some i \<Rightarrow> (RBulk (RNum (i + q)), put_str k (RNum (i + q)) (deadline K k) K)))"
| "redis_exec (PEXPIRE k ms) K =
     (RInteger (if live K k = None then 0 else 1), bump k ms K)"
| "redis_exec (PTTL k) K =
     (case live K k of None \<Rightarrow> (RInteger (- 2), K)
      | Some e \<Rightarrow> (case e_exp e of None \<Rightarrow> (RInteger (- 1), K)
          | Some t \<Rightarrow> (RInteger (t - ks_now K), K)))"
| "redis_exec TIME K = (RStrings [RInt (ks_us K div 1000000), RInt (ks_us K mod 1000000)], K)"
| "redis_exec (ZADD k f sc m) K =
     (case zset_at K k of None \<Rightarrow> (RErr, K)
      | Some z \<Rightarrow> (RInteger (if map_of z m = None \<and> f \<noteq> ZXX then 1 else 0), put_zset k (zadd f sc m z) K))"
| "redis_exec (ZREM k m) K =
     (case zset_at K k of None \<Rightarrow> (RErr, K)
      | Some z \<Rightarrow> (RInteger (if map_of z m = None then 0 else 1), put_zset k (alist_del m z) K))"
| "redis_exec (ZCARD k) K =
     (case zset_at K k of None \<Rightarrow> (RErr, K) | Some z \<Rightarrow> (RInteger (int (length z)), K))"
| "redis_exec (ZSCORE k m) K =
     (case zset_at K k of None \<Rightarrow> (RErr, K)
      | Some z \<Rightarrow> (case map_of z m of None \<Rightarrow> (RNil, K) | Some sc \<Rightarrow> (RBulk (RInt sc), K)))"
| "redis_exec (ZCOUNT_above k t) K =
     (case zset_at K k of None \<Rightarrow> (RErr, K)
      | Some z \<Rightarrow> (RInteger (int (length (filter (\<lambda>(m, sc). t < sc) z))), K))"
| "redis_exec (ZREMRANGE_upto k t) K =
     (case zset_at K k of None \<Rightarrow> (RErr, K)
      | Some z \<Rightarrow> (RInteger (int (length (filter (\<lambda>(m, sc). sc \<le> t) z))),
          put_zset k (filter (\<lambda>(m, sc). t < sc) z) K))"
| "redis_exec (ZRANGE_upto k t) K =
     (case zset_at K k of None \<Rightarrow> (RErr, K)
      | Some z \<Rightarrow> (RMembers (zorder (filter (\<lambda>(m, sc). sc \<le> t) z)), K))"
| "redis_exec (ZRANGE_above k t) K =
     (case zset_at K k of None \<Rightarrow> (RErr, K)
      | Some z \<Rightarrow> (RMembers (zorder (filter (\<lambda>(m, sc). t < sc) z)), K))"
| "redis_exec (ZRANGE k) K =
     (case zset_at K k of None \<Rightarrow> (RErr, K) | Some z \<Rightarrow> (RMembers (zorder z), K))"
| "redis_exec (HSET k f v) K =
     (case hash_at K k of None \<Rightarrow> (RErr, K)
      | Some h \<Rightarrow> (RInteger (if map_of h f = None then 1 else 0), put_hash k (alist_put f v h) K))"
| "redis_exec (HMSET k fvs) K =
     (case hash_at K k of None \<Rightarrow> (RErr, K)
      | Some h \<Rightarrow> (RInteger (int (length (filter (\<lambda>f. map_of h f = None) (remdups (map fst fvs))))),
          put_hash k (fold (\<lambda>(f, v). alist_put f v) fvs h) K))"
| "redis_exec (HDEL k f) K =
     (case hash_at K k of None \<Rightarrow> (RErr, K)
      | Some h \<Rightarrow> (RInteger (if map_of h f = None then 0 else 1), put_hash k (alist_del f h) K))"
| "redis_exec (HDELS k fs) K =
     (case hash_at K k of None \<Rightarrow> (RErr, K)
      | Some h \<Rightarrow> (RInteger (int (length (filter (\<lambda>f. map_of h f \<noteq> None) (remdups fs)))),
          put_hash k (fold alist_del fs h) K))"
| "redis_exec (HGET k f) K =
     (case hash_at K k of None \<Rightarrow> (RErr, K)
      | Some h \<Rightarrow> (case map_of h f of None \<Rightarrow> (RNil, K) | Some v \<Rightarrow> (RBulk v, K)))"
| "redis_exec (HGETALL k) K =
     (case hash_at K k of None \<Rightarrow> (RErr, K) | Some h \<Rightarrow> (RPairs h, K))"
| "redis_exec (HINCRBY k f n) K =
     (case hash_at K k of None \<Rightarrow> (RErr, K)
      | Some h \<Rightarrow> (case as_int (map_of h f) of None \<Rightarrow> (RErr, K)
          | Some i \<Rightarrow> (RInteger (i + n), put_hash k (alist_put f (RInt (i + n)) h) K)))"
| "redis_exec (SADD k ms) K =
     (if ms = [] then (RErr, K)
      else case set_at K k of None \<Rightarrow> (RErr, K)
      | Some s \<Rightarrow> (case filter (\<lambda>m. m \<notin> set s) (remdups ms) of fresh \<Rightarrow>
          (RInteger (int (length fresh)), put_set k (s @ fresh) K)))"
| "redis_exec (SREM k ms) K =
     (if ms = [] then (RErr, K)
      else case set_at K k of None \<Rightarrow> (RErr, K)
      | Some s \<Rightarrow> (RInteger (int (length (filter (\<lambda>m. m \<in> set ms) s))),
          put_set k (filter (\<lambda>m. m \<notin> set ms) s) K))"
| "redis_exec (SCARD k) K =
     (case set_at K k of None \<Rightarrow> (RErr, K) | Some s \<Rightarrow> (RInteger (int (length s)), K))"

definition ks_wait :: "nat \<Rightarrow> keyspace \<Rightarrow> keyspace" where
  "ks_wait d K = K\<lparr>ks_us := ks_us K + 1000 * int d\<rparr>"

subsection \<open>Scripts and client programs\<close>

datatype lua = LRet reply | LCall command "reply \<Rightarrow> lua"

text \<open>A command error raised by \<open>redis.call\<close> ends the script; what it wrote before stays written.\<close>

primrec run_lua :: "(command \<Rightarrow> 's \<Rightarrow> reply \<times> 's) \<Rightarrow> lua \<Rightarrow> 's \<Rightarrow> reply \<times> 's" where
  "run_lua ex (LRet r) s = (r, s)"
| "run_lua ex (LCall c k) s =
     (case ex c s of (r, s') \<Rightarrow> if r = RErr then (RErr, s') else run_lua ex (k r) s')"

datatype 'a prog =
    Return 'a
  | Raise exn
  | Cmd command "exn + reply \<Rightarrow> 'a prog"
  | Eval lua "exn + reply \<Rightarrow> 'a prog"

text \<open>What happens on the wire to one round trip, after a pause of so many milliseconds.\<close>

datatype fate = Answered | RequestLost exn | ReplyLost exn

type_synonym event = "nat \<times> fate"

record 's server =
  srv_exec :: "command \<Rightarrow> 's \<Rightarrow> reply \<times> 's"
  srv_wait :: "nat \<Rightarrow> 's \<Rightarrow> 's"

definition next_event :: "event list \<Rightarrow> event" where
  "next_event es = (case es of [] \<Rightarrow> (0, Answered) | e # _ \<Rightarrow> e)"

definition client_view :: "reply \<Rightarrow> exn + reply" where
  "client_view r = (if r = RErr then Inl ResponseError else Inr r)"

definition transact ::
  "'s server \<Rightarrow> ('s \<Rightarrow> reply \<times> 's) \<Rightarrow> event \<Rightarrow> 's \<Rightarrow> (exn + reply) \<times> 's" where
  "transact sv f ev s =
     (let s1 = srv_wait sv (fst ev) s in
      case snd ev of
        Answered \<Rightarrow> (case f s1 of (r, s2) \<Rightarrow> (client_view r, s2))
      | RequestLost e \<Rightarrow> (Inl e, s1)
      | ReplyLost e \<Rightarrow> (Inl e, snd (f s1)))"

primrec run :: "'s server \<Rightarrow> 'a prog \<Rightarrow> event list \<Rightarrow> 's \<Rightarrow> (exn + 'a) \<times> 's" where
  "run sv (Return a) es s = (Inr a, s)"
| "run sv (Raise e) es s = (Inl e, s)"
| "run sv (Cmd c k) es s =
     (case transact sv (srv_exec sv c) (next_event es) s of (r, s') \<Rightarrow> run sv (k r) (tl es) s')"
| "run sv (Eval l k) es s =
     (case transact sv (run_lua (srv_exec sv) l) (next_event es) s of (r, s') \<Rightarrow> run sv (k r) (tl es) s')"

text \<open>How many round trips a run makes, to split a list of events between two programs.\<close>

primrec trips :: "'s server \<Rightarrow> 'a prog \<Rightarrow> event list \<Rightarrow> 's \<Rightarrow> nat" where
  "trips sv (Return a) es s = 0"
| "trips sv (Raise e) es s = 0"
| "trips sv (Cmd c k) es s =
     (case transact sv (srv_exec sv c) (next_event es) s of (r, s') \<Rightarrow> Suc (trips sv (k r) (tl es) s'))"
| "trips sv (Eval l k) es s =
     (case transact sv (run_lua (srv_exec sv) l) (next_event es) s of (r, s') \<Rightarrow>
        Suc (trips sv (k r) (tl es) s'))"

text \<open>
  \<open>tonumber(redis.call('GET', k) or '0')\<close>: \<open>None\<close> is \<open>nil\<close>, on which the script's arithmetic
  raises, ending the script.
\<close>

definition lua_tonumber :: "reply \<Rightarrow> rat option" where
  "lua_tonumber r = (case r of RNil \<Rightarrow> Some 0 | RBulk v \<Rightarrow> as_num (Some v) | RInteger i \<Rightarrow> Some (of_int i) | _ \<Rightarrow> None)"

text \<open>An awaited command: an exception propagates.\<close>

definition call :: "command \<Rightarrow> (reply \<Rightarrow> 'a prog) \<Rightarrow> 'a prog" where
  "call c k = Cmd c (\<lambda>r. case r of Inl e \<Rightarrow> Raise e | Inr v \<Rightarrow> k v)"

definition eval_script :: "lua \<Rightarrow> (reply \<Rightarrow> 'a prog) \<Rightarrow> 'a prog" where
  "eval_script l k = Eval l (\<lambda>r. case r of Inl e \<Rightarrow> Raise e | Inr v \<Rightarrow> k v)"

text \<open>Awaiting a sub-program, and \<open>try: ... except Exception\<close>.\<close>

primrec andthen :: "'a prog \<Rightarrow> ('a \<Rightarrow> 'b prog) \<Rightarrow> 'b prog" where
  "andthen (Return a) f = f a"
| "andthen (Raise e) f = Raise e"
| "andthen (Cmd c k) f = Cmd c (\<lambda>r. andthen (k r) f)"
| "andthen (Eval l k) f = Eval l (\<lambda>r. andthen (k r) f)"

primrec catch :: "'a prog \<Rightarrow> (exn \<Rightarrow> 'a prog) \<Rightarrow> 'a prog" where
  "catch (Return a) h = Return a"
| "catch (Raise e) h = h e"
| "catch (Cmd c k) h = Cmd c (\<lambda>r. catch (k r) h)"
| "catch (Eval l k) h = Eval l (\<lambda>r. catch (k r) h)"


text \<open>How Python reads a stored text: \<open>int(raw)\<close>, \<open>float(raw)\<close> and truth of the text.\<close>

definition py_int :: "rstr \<Rightarrow> int res" where
  "py_int v = (case v of RInt i \<Rightarrow> Inr i | _ \<Rightarrow> Inl ValueError)"

definition py_float :: "rstr \<Rightarrow> rat res" where
  "py_float v = (case v of RInt i \<Rightarrow> Inr (of_int i) | RNum q \<Rightarrow> Inr q | _ \<Rightarrow> Inl ValueError)"

definition py_truthy :: "rstr \<Rightarrow> bool" where
  "py_truthy v \<longleftrightarrow> v \<noteq> RText []"

definition lift_res :: "'a res \<Rightarrow> ('a \<Rightarrow> 'b prog) \<Rightarrow> 'b prog" where
  "lift_res r k = (case r of Inl e \<Rightarrow> Raise e | Inr a \<Rightarrow> k a)"

subsection \<open>Concurrent clients\<close>

text \<open>
  Several clients of one server: one step is one round trip of one client, chosen by a schedule
  of client numbers. Between two round trips of a client any other client may run.
\<close>

fun client_step :: "'s server \<Rightarrow> 'a prog \<Rightarrow> 's \<Rightarrow> 'a prog \<times> 's" where
  "client_step sv (Cmd c k) s =
     (case transact sv (srv_exec sv c) (0, Answered) s of (r, s') \<Rightarrow> (k r, s'))"
| "client_step sv (Eval l k) s =
     (case transact sv (run_lua (srv_exec sv) l) (0, Answered) s of (r, s') \<Rightarrow> (k r, s'))"
| "client_step sv p s = (p, s)"

fun interleave :: "'s server \<Rightarrow> nat list \<Rightarrow> 'a prog list \<Rightarrow> 's \<Rightarrow> 'a prog list \<times> 's" where
  "interleave sv [] ps s = (ps, s)"
| "interleave sv (i # is) ps s =
     (if i < length ps
      then (case client_step sv (ps ! i) s of (p, s') \<Rightarrow> interleave sv is (ps[i := p]) s')
      else interleave sv is ps s)"

subsection \<open>Observers\<close>

lemma ks_now_put [simp]: "ks_now (put k e K) = ks_now K"
  by (simp add: put_def ks_now_def)

lemma ks_now_puts [simp]:
  "ks_now (put_str k v t K) = ks_now K"
  "ks_now (put_zset k z K) = ks_now K"
  "ks_now (put_hash k h K) = ks_now K"
  "ks_now (put_set k ms K) = ks_now K"
  by (simp_all add: put_str_def put_zset_def put_hash_def put_set_def)

lemma live_put:
  "live (put k e K) k' =
     (if k' = k then (case e of None \<Rightarrow> None | Some x \<Rightarrow> if alive (ks_now K) x then Some x else None)
      else live K k')"
  by (simp add: live_def put_def ks_now_def split: option.splits)

lemma live_alive: "live K k = Some e \<Longrightarrow> alive (ks_now K) e"
  by (auto simp: live_def split: option.splits if_splits)

lemma alive_deadline: "alive (ks_now K) \<lparr>e_val = v, e_exp = deadline K k\<rparr>"
  by (auto simp: alive_def deadline_def split: option.splits dest: live_alive)

lemma live_put_str [keyspace_simps]:
  "live (put_str k v t K) k' =
     (if k' = k
      then (if (case t of None \<Rightarrow> True | Some x \<Rightarrow> ks_now K \<le> x) then Some \<lparr>e_val = VStr v, e_exp = t\<rparr> else None)
      else live K k')"
  by (auto simp: put_str_def live_put alive_def split: option.splits)

lemma live_put_zset [keyspace_simps]:
  "live (put_zset k z K) k' =
     (if k' = k then (if z = [] then None else Some \<lparr>e_val = VZset z, e_exp = deadline K k\<rparr>)
      else live K k')"
  by (simp add: put_zset_def live_put alive_deadline)

lemma live_put_hash [keyspace_simps]:
  "live (put_hash k h K) k' =
     (if k' = k then (if h = [] then None else Some \<lparr>e_val = VHash h, e_exp = deadline K k\<rparr>)
      else live K k')"
  by (simp add: put_hash_def live_put alive_deadline)

lemma str_at_put_str [keyspace_simps]:
  "str_at (put_str k v t K) k' =
     (if k' = k then Some (if (case t of None \<Rightarrow> True | Some x \<Rightarrow> ks_now K \<le> x) then Some v else None)
      else str_at K k')"
  by (simp add: str_at_def live_put_str)

lemma zset_at_put_zset [keyspace_simps]:
  "zset_at (put_zset k z K) k' = (if k' = k then Some z else zset_at K k')"
  by (simp add: zset_at_def live_put_zset)

lemma hash_at_put_hash [keyspace_simps]:
  "hash_at (put_hash k h K) k' = (if k' = k then Some h else hash_at K k')"
  by (simp add: hash_at_def live_put_hash)

text \<open>A write to one key is invisible at every other key.\<close>

lemma at_put_other [keyspace_simps]:
  assumes "k' \<noteq> k"
  shows "str_at (put k e K) k' = str_at K k'" "zset_at (put k e K) k' = zset_at K k'"
    "hash_at (put k e K) k' = hash_at K k'" "deadline (put k e K) k' = deadline K k'"
    "zset_at (put_str k v t K) k' = zset_at K k'" "hash_at (put_str k v t K) k' = hash_at K k'"
    "deadline (put_str k v t K) k' = deadline K k'"
    "str_at (put_zset k z K) k' = str_at K k'" "hash_at (put_zset k z K) k' = hash_at K k'"
    "deadline (put_zset k z K) k' = deadline K k'"
    "str_at (put_hash k h K) k' = str_at K k'" "zset_at (put_hash k h K) k' = zset_at K k'"
    "deadline (put_hash k h K) k' = deadline K k'"
  using assms
  by (simp_all add: str_at_def zset_at_def hash_at_def deadline_def live_put live_put_str
      live_put_zset live_put_hash)

lemma str_at_put_None [keyspace_simps]: "str_at (put k None K) k = Some None"
  by (simp add: str_at_def live_put)

lemma live_put_None [keyspace_simps]: "live (put k None K) k = None"
  by (simp add: live_put)

text \<open>Pushing out the expiry of a live key changes no value.\<close>

lemma live_bump:
  "0 < ms \<Longrightarrow> live (bump k ms K) k' =
     (if k' = k then map_option (\<lambda>e. e\<lparr>e_exp := Some (ks_now K + ms)\<rparr>) (live K k) else live K k')"
  by (auto simp: bump_def live_put alive_def split: option.splits)

lemma at_bump [keyspace_simps]:
  assumes "0 < ms"
  shows "str_at (bump k ms K) k' = str_at K k'" "zset_at (bump k ms K) k' = zset_at K k'"
    "hash_at (bump k ms K) k' = hash_at K k'"
    "deadline (bump k ms K) k' = (if k' = k \<and> live K k \<noteq> None then Some (ks_now K + ms) else deadline K k')"
    "live (bump k ms K) k' = None \<longleftrightarrow> live K k' = None"
  by (auto simp: str_at_def zset_at_def hash_at_def deadline_def live_bump [OF assms] split: option.splits)

lemma ks_now_bump [simp]: "ks_now (bump k ms K) = ks_now K"
  by (simp add: bump_def split: option.splits)

text \<open>A key that exists is not past its expiry.\<close>

lemma deadline_live [simp]: "(case deadline K k of None \<Rightarrow> True | Some x \<Rightarrow> ks_now K \<le> x)"
  by (auto simp: deadline_def alive_def split: option.splits dest: live_alive)

lemma deadline_future: "deadline K k = Some x \<Longrightarrow> ks_now K \<le> x"
  using deadline_live [of K k] by simp

lemma redis_exec_now [simp]: "ks_now (snd (redis_exec c K)) = ks_now K"
  by (cases c) (auto split: option.splits)

text \<open>
  The state after a command, as seen by the typed reads; each equation also holds for a key of
  the wrong type, which the command leaves alone.
\<close>

abbreviation after :: "command \<Rightarrow> keyspace \<Rightarrow> keyspace" where
  "after c K \<equiv> snd (redis_exec c K)"

lemma zset_at_after [keyspace_simps]:
  "zset_at (after (ZREM k m) K) k' = (if k' = k then map_option (alist_del m) (zset_at K k) else zset_at K k')"
  "zset_at (after (ZADD k f sc m) K) k' = (if k' = k then map_option (zadd f sc m) (zset_at K k) else zset_at K k')"
  "k' \<noteq> k \<Longrightarrow> zset_at (after (HSET k fd v) K) k' = zset_at K k'"
  "k' \<noteq> k \<Longrightarrow> zset_at (after (HDEL k fd) K) k' = zset_at K k'"
  "k' \<noteq> k \<Longrightarrow> zset_at (after (HINCRBY k fd n) K) k' = zset_at K k'"
  "k' \<noteq> k \<Longrightarrow> zset_at (after (SET k w px nx) K) k' = zset_at K k'"
  by (auto split: option.splits simp: zset_at_put_zset at_put_other)

lemma hash_at_after [keyspace_simps]:
  "hash_at (after (HSET k fd v) K) k' = (if k' = k then map_option (alist_put fd v) (hash_at K k) else hash_at K k')"
  "hash_at (after (HDEL k fd) K) k' = (if k' = k then map_option (alist_del fd) (hash_at K k) else hash_at K k')"
  "k' \<noteq> k \<Longrightarrow> hash_at (after (ZREM k m) K) k' = hash_at K k'"
  "k' \<noteq> k \<Longrightarrow> hash_at (after (ZADD k f sc m) K) k' = hash_at K k'"
  "k' \<noteq> k \<Longrightarrow> hash_at (after (HINCRBY k fd n) K) k' = hash_at K k'"
  "k' \<noteq> k \<Longrightarrow> hash_at (after (SET k w px nx) K) k' = hash_at K k'"
  by (auto split: option.splits simp: hash_at_put_hash at_put_other)

lemma str_at_after [keyspace_simps]:
  "k' \<noteq> k \<Longrightarrow> str_at (after (HSET k fd v) K) k' = str_at K k'"
  "k' \<noteq> k \<Longrightarrow> str_at (after (HDEL k fd) K) k' = str_at K k'"
  "k' \<noteq> k \<Longrightarrow> str_at (after (ZREM k m) K) k' = str_at K k'"
  "k' \<noteq> k \<Longrightarrow> str_at (after (ZADD k f sc m) K) k' = str_at K k'"
  "k' \<noteq> k \<Longrightarrow> str_at (after (HINCRBY k fd n) K) k' = str_at K k'"
  "k' \<noteq> k \<Longrightarrow> str_at (after (SET k w px nx) K) k' = str_at K k'"
  by (auto split: option.splits simp: str_at_put_str at_put_other)

lemma deadline_after [keyspace_simps]:
  "k' \<noteq> k \<Longrightarrow> deadline (after (HSET k fd v) K) k' = deadline K k'"
  "k' \<noteq> k \<Longrightarrow> deadline (after (HDEL k fd) K) k' = deadline K k'"
  "k' \<noteq> k \<Longrightarrow> deadline (after (ZREM k m) K) k' = deadline K k'"
  "k' \<noteq> k \<Longrightarrow> deadline (after (ZADD k f sc m) K) k' = deadline K k'"
  "k' \<noteq> k \<Longrightarrow> deadline (after (HINCRBY k fd n) K) k' = deadline K k'"
  "k' \<noteq> k \<Longrightarrow> deadline (after (SET k w px nx) K) k' = deadline K k'"
  by (auto split: option.splits simp: at_put_other)

text \<open>A command on a key of its own type succeeds.\<close>

lemma reply_ok [keyspace_simps]:
  "fst (redis_exec (ZREM k m) K) = RErr \<longleftrightarrow> zset_at K k = None"
  "fst (redis_exec (ZADD k f sc m) K) = RErr \<longleftrightarrow> zset_at K k = None"
  "fst (redis_exec (HSET k fd v) K) = RErr \<longleftrightarrow> hash_at K k = None"
  "fst (redis_exec (HDEL k fd) K) = RErr \<longleftrightarrow> hash_at K k = None"
  "fst (redis_exec (HGET k fd) K) = RErr \<longleftrightarrow> hash_at K k = None"
  "fst (redis_exec (GET k) K) = RErr \<longleftrightarrow> str_at K k = None"
  by (auto split: option.splits)

lemma zadd_not_Nil [simp]: "f \<noteq> ZXX \<Longrightarrow> zadd f sc m z \<noteq> []"
  by (cases f) (auto simp: zadd_def split: option.splits)

lemma zadd_member: "m \<in> fst ` set (zadd ZNX sc m z)"
proof (cases "map_of z m")
  case (Some t)
  then have "(m, t) \<in> set z" by (rule map_of_SomeD)
  with Some show ?thesis by (force simp: zadd_def)
qed (simp add: zadd_def)

lemma map_of_zadd_plain [simp]: "map_of (zadd ZPlain sc m z) = (map_of z)(m \<mapsto> sc)"
  by (simp add: zadd_def)

lemma distinct_zadd [simp]: "distinct (map fst z) \<Longrightarrow> distinct (map fst (zadd f sc m z))"
  by (cases f) (auto simp: zadd_def split: option.splits)

lemma set_zorder [simp]: "set (zorder z) = fst ` set z"
  by (simp add: zorder_def)

lemma length_zorder [simp]: "length (zorder z) = length z"
  by (simp add: zorder_def)

lemma distinct_zorder [simp]: "distinct (map fst z) \<Longrightarrow> distinct (zorder z)"
  by (simp add: zorder_def distinct_map)

subsection \<open>Running programs\<close>

lemma run_lua_call [run_simps]:
  "run_lua redis_exec (LCall c k) K =
     (if fst (redis_exec c K) = RErr then (RErr, snd (redis_exec c K))
      else run_lua redis_exec (k (fst (redis_exec c K))) (snd (redis_exec c K)))"
  by (simp split: prod.splits)

lemma run_call [run_simps]:
  "run sv (call c k) es s =
     (case transact sv (srv_exec sv c) (next_event es) s of
        (Inl e, s') \<Rightarrow> (Inl e, s') | (Inr r, s') \<Rightarrow> run sv (k r) (tl es) s')"
  by (auto simp: call_def split: prod.splits sum.splits)

lemma run_eval_script [run_simps]:
  "run sv (eval_script l k) es s =
     (case transact sv (run_lua (srv_exec sv) l) (next_event es) s of
        (Inl e, s') \<Rightarrow> (Inl e, s') | (Inr r, s') \<Rightarrow> run sv (k r) (tl es) s')"
  by (auto simp: eval_script_def split: prod.splits sum.splits)

lemma run_andthen:
  "run sv (andthen p f) es s =
     (case run sv p es s of
        (Inl e, s') \<Rightarrow> (Inl e, s')
      | (Inr a, s') \<Rightarrow> run sv (f a) (drop (trips sv p es s) es) s')"
proof (induction p arbitrary: es s)
  case (Cmd c k)
  then show ?case
    by (auto simp: drop_Suc Cmd split: prod.splits sum.splits)
next
  case (Eval l k)
  then show ?case
    by (auto simp: drop_Suc Eval split: prod.splits sum.splits)
qed auto

lemma run_catch:
  "run sv (catch p h) es s =
     (case run sv p es s of
        (Inl e, s') \<Rightarrow> run sv (h e) (drop (trips sv p es s) es) s'
      | (Inr a, s') \<Rightarrow> (Inr a, s'))"
proof (induction p arbitrary: es s)
  case (Cmd c k)
  then show ?case
    by (auto simp: drop_Suc Cmd split: prod.splits sum.splits)
next
  case (Eval l k)
  then show ?case
    by (auto simp: drop_Suc Eval split: prod.splits sum.splits)
qed auto

text \<open>Unfolding a program into the sequence of its round trips.\<close>

lemma andthen_call: "andthen (call c k) f = call c (\<lambda>v. andthen (k v) f)"
  by (auto simp: call_def fun_eq_iff split: sum.splits)

lemma andthen_lift_res: "andthen (lift_res r k) f = lift_res r (\<lambda>v. andthen (k v) f)"
  by (auto simp: lift_res_def split: sum.splits)

lemma andthen_assoc: "andthen (andthen p f) g = andthen p (\<lambda>a. andthen (f a) g)"
  by (induction p) auto

lemmas unroll_simps = andthen_call andthen_lift_res andthen_assoc

text \<open>With a prompt and reliable network (no events listed) composition is plain sequencing.\<close>

lemma run_andthen_Nil [run_simps]:
  "run sv (andthen p f) [] s =
     (case run sv p [] s of (Inl e, s') \<Rightarrow> (Inl e, s') | (Inr a, s') \<Rightarrow> run sv (f a) [] s')"
  by (simp add: run_andthen split: prod.splits sum.splits)

subsection \<open>Footprints\<close>

fun cmd_keys :: "command \<Rightarrow> string set" where
  "cmd_keys (GET k) = {k}"
| "cmd_keys (SET k v t nx) = {k}"
| "cmd_keys (DEL k) = {k}"
| "cmd_keys (INCRBY k n) = {k}"
| "cmd_keys (INCRBYFLOAT k q) = {k}"
| "cmd_keys (PEXPIRE k ms) = {k}"
| "cmd_keys (PTTL k) = {k}"
| "cmd_keys TIME = {}"
| "cmd_keys (ZADD k f sc m) = {k}"
| "cmd_keys (ZREM k m) = {k}"
| "cmd_keys (ZCARD k) = {k}"
| "cmd_keys (ZSCORE k m) = {k}"
| "cmd_keys (ZCOUNT_above k t) = {k}"
| "cmd_keys (ZREMRANGE_upto k t) = {k}"
| "cmd_keys (ZRANGE_upto k t) = {k}"
| "cmd_keys (ZRANGE_above k t) = {k}"
| "cmd_keys (ZRANGE k) = {k}"
| "cmd_keys (HSET k f v) = {k}"
| "cmd_keys (HMSET k fvs) = {k}"
| "cmd_keys (HDEL k f) = {k}"
| "cmd_keys (HDELS k fs) = {k}"
| "cmd_keys (HGET k f) = {k}"
| "cmd_keys (HGETALL k) = {k}"
| "cmd_keys (HINCRBY k f n) = {k}"
| "cmd_keys (SADD k ms) = {k}"
| "cmd_keys (SREM k ms) = {k}"
| "cmd_keys (SCARD k) = {k}"

primrec lua_within :: "string set \<Rightarrow> lua \<Rightarrow> bool" where
  "lua_within Q (LRet r) = True"
| "lua_within Q (LCall c k) = (cmd_keys c \<subseteq> Q \<and> (\<forall>r. lua_within Q (k r)))"

primrec prog_within :: "string set \<Rightarrow> 'a prog \<Rightarrow> bool" where
  "prog_within Q (Return a) = True"
| "prog_within Q (Raise e) = True"
| "prog_within Q (Cmd c k) = (cmd_keys c \<subseteq> Q \<and> (\<forall>r. prog_within Q (k r)))"
| "prog_within Q (Eval l k) = (lua_within Q l \<and> (\<forall>r. prog_within Q (k r)))"

lemma prog_within_call [simp]: "prog_within Q (call c k) \<longleftrightarrow> cmd_keys c \<subseteq> Q \<and> (\<forall>v. prog_within Q (k v))"
  by (auto simp: call_def split: sum.splits)

lemma prog_within_eval_script [simp]:
  "prog_within Q (eval_script l k) \<longleftrightarrow> lua_within Q l \<and> (\<forall>v. prog_within Q (k v))"
  by (auto simp: eval_script_def split: sum.splits)

lemma prog_within_lift_res [simp]: "(\<And>a. prog_within Q (k a)) \<Longrightarrow> prog_within Q (lift_res r k)"
  by (auto simp: lift_res_def split: sum.splits)

lemma prog_within_andthen [simp]:
  "prog_within Q p \<Longrightarrow> (\<And>a. prog_within Q (f a)) \<Longrightarrow> prog_within Q (andthen p f)"
  by (induction p) auto

lemma prog_within_catch [simp]:
  "prog_within Q p \<Longrightarrow> (\<And>e. prog_within Q (h e)) \<Longrightarrow> prog_within Q (catch p h)"
  by (induction p) auto

lemma ks_db_puts [simp]:
  "ks_db (put k e K) = (ks_db K)(k := e)"
  "k' \<noteq> k \<Longrightarrow> ks_db (put_str k v t K) k' = ks_db K k'"
  "k' \<noteq> k \<Longrightarrow> ks_db (put_zset k z K) k' = ks_db K k'"
  "k' \<noteq> k \<Longrightarrow> ks_db (put_hash k h K) k' = ks_db K k'"
  "k' \<noteq> k \<Longrightarrow> ks_db (put_set k ys K) k' = ks_db K k'"
  "k' \<noteq> k \<Longrightarrow> ks_db (bump k ms K) k' = ks_db K k'"
  by (simp_all add: put_def put_str_def put_zset_def put_hash_def put_set_def bump_def split: option.splits)

lemma redis_exec_frame:
  "k \<notin> cmd_keys c \<Longrightarrow> ks_db (snd (redis_exec c K)) k = ks_db K k"
  by (cases c) (auto split: option.splits)

lemma run_lua_frame:
  "lua_within Q l \<Longrightarrow> k \<notin> Q \<Longrightarrow> ks_db (snd (run_lua redis_exec l K)) k = ks_db K k"
proof (induction l arbitrary: K)
  case (LCall c f)
  then have "k \<notin> cmd_keys c" by auto
  with LCall redis_exec_frame [of k c K] show ?case
    by (auto split: prod.splits)
qed simp

lemma ks_wait_sel [simp]: "ks_db (ks_wait d K) = ks_db K" "ks_now (ks_wait d K) = ks_now K + int d"
  by (simp_all add: ks_wait_def ks_now_def)

subsection \<open>The contract of the service\<close>

locale redis_server =
  fixes sv :: "'s server" and view :: "'s \<Rightarrow> keyspace"
  assumes exec_reply: "fst (srv_exec sv c s) = fst (redis_exec c (view s))"
    and exec_state: "view (snd (srv_exec sv c s)) = snd (redis_exec c (view s))"
    and wait_state: "view (srv_wait sv d s) = ks_wait d (view s)"
begin

lemma run_lua_sim:
  "fst (run_lua (srv_exec sv) l s) = fst (run_lua redis_exec l (view s)) \<and>
   view (snd (run_lua (srv_exec sv) l s)) = snd (run_lua redis_exec l (view s))"
proof (induction l arbitrary: s)
  case (LCall c k)
  obtain r s1 where ex: "srv_exec sv c s = (r, s1)" by (cases "srv_exec sv c s")
  have "redis_exec c (view s) = (r, view s1)"
    using exec_reply [of c s] exec_state [of c s] ex by (cases "redis_exec c (view s)") simp
  with ex LCall show ?case by simp
qed simp

end

definition mem_server :: "keyspace server" where
  "mem_server = \<lparr>srv_exec = redis_exec, srv_wait = ks_wait\<rparr>"

lemma next_event_simps [simp]: "next_event [] = (0, Answered)" "next_event (e # es) = e"
  by (simp_all add: next_event_def)

lemma ks_wait_0 [simp]: "ks_wait 0 K = K"
  by (simp add: ks_wait_def)

lemma mem_server_sel [simp]:
  "srv_exec mem_server = redis_exec" "srv_wait mem_server = ks_wait"
  by (simp_all add: mem_server_def)

lemma transact_answered [run_simps]:
  "transact mem_server f (0, Answered) K = (client_view (fst (f K)), snd (f K))"
  by (simp add: transact_def split: prod.splits)

lemma client_view_simps [simp]:
  "client_view RErr = Inl ResponseError" "r \<noteq> RErr \<Longrightarrow> client_view r = Inr r"
  by (simp_all add: client_view_def)

text \<open>A program changes nothing outside its footprint, whatever happens on the wire.\<close>

lemma transact_frame:
  assumes "\<And>K. ks_db (snd (f K)) k = ks_db K k"
  shows "ks_db (snd (transact mem_server f ev K)) k = ks_db K k"
  using assms [of "ks_wait (fst ev) K"]
  by (auto simp: transact_def Let_def split: fate.splits prod.splits)

lemma run_frame:
  "prog_within Q p \<Longrightarrow> k \<notin> Q \<Longrightarrow> ks_db (snd (run mem_server p es K)) k = ks_db K k"
proof (induction p arbitrary: es K)
  case (Cmd c f)
  have "ks_db (snd (transact mem_server (redis_exec c) (next_event es) K)) k = ks_db K k"
    using Cmd.prems by (intro transact_frame redis_exec_frame) auto
  with Cmd show ?case by (auto split: prod.splits)
next
  case (Eval l f)
  have "ks_db (snd (transact mem_server (run_lua redis_exec l) (next_event es) K)) k = ks_db K k"
    using Eval.prems by (intro transact_frame run_lua_frame) auto
  with Eval show ?case by (auto split: prod.splits)
qed auto

interpretation mem: redis_server mem_server "\<lambda>K. K"
  by unfold_locales simp_all

context redis_server
begin

lemma transact_sim:
  assumes "\<And>s. fst (f s) = fst (g (view s)) \<and> view (snd (f s)) = snd (g (view s))"
  shows "fst (transact sv f ev s) = fst (transact mem_server g ev (view s))"
    and "view (snd (transact sv f ev s)) = snd (transact mem_server g ev (view s))"
  using assms [of "srv_wait sv (fst ev) s"] wait_state
  by (auto simp: transact_def Let_def split: fate.splits prod.splits)

text \<open>
  Every program behaves on the real server exactly as on the reference keyspace, whatever the
  network does: the theorems below are proved about the keyspace and carry over.
\<close>

theorem run_sim:
  "fst (run sv p es s) = fst (run mem_server p es (view s)) \<and>
   view (snd (run sv p es s)) = snd (run mem_server p es (view s))"
proof (induction p arbitrary: es s)
  case (Cmd c k)
  obtain r s1 where t: "transact sv (srv_exec sv c) (next_event es) s = (r, s1)" by fastforce
  have "transact mem_server redis_exec_c (next_event es) (view s) = (r, view s1)"
    if "redis_exec_c = redis_exec c" for redis_exec_c
    using transact_sim [of "srv_exec sv c" "redis_exec c" "next_event es" s] t that
    by (metis exec_reply exec_state prod.collapse prod.sel)
  with t Cmd show ?case by simp
next
  case (Eval l k)
  obtain r s1 where t: "transact sv (run_lua (srv_exec sv) l) (next_event es) s = (r, s1)"
    by fastforce
  have "transact mem_server (run_lua redis_exec l) (next_event es) (view s) = (r, view s1)"
    using transact_sim [of "run_lua (srv_exec sv) l" "run_lua redis_exec l" "next_event es" s] t
    by (metis run_lua_sim prod.collapse prod.sel)
  with t Eval show ?case by simp
qed simp_all

lemma run_result: "fst (run sv p es s) = fst (run mem_server p es (view s))"
  and run_state: "view (snd (run sv p es s)) = snd (run mem_server p es (view s))"
  using run_sim by auto

end


text \<open>The same for concurrent clients.\<close>

context redis_server
begin

lemma client_step_sim:
  "fst (client_step sv p s) = fst (client_step mem_server p (view s)) \<and>
   view (snd (client_step sv p s)) = snd (client_step mem_server p (view s))"
proof (cases p)
  case (Cmd c k)
  with transact_sim [of "srv_exec sv c" "redis_exec c" "(0, Answered)" s] show ?thesis
    by (auto simp: exec_reply exec_state split: prod.splits)
next
  case (Eval l k)
  with transact_sim [of "run_lua (srv_exec sv) l" "run_lua redis_exec l" "(0, Answered)" s]
  show ?thesis by (auto simp: run_lua_sim split: prod.splits)
qed auto

lemma interleave_sim:
  "fst (interleave sv is ps s) = fst (interleave mem_server is ps (view s)) \<and>
   view (snd (interleave sv is ps s)) = snd (interleave mem_server is ps (view s))"
proof (induction "is" arbitrary: ps s)
  case (Cons i "is")
  show ?case
    using Cons [of "ps[i := fst (client_step sv (ps ! i) s)]" "snd (client_step sv (ps ! i) s)"]
      client_step_sim [of "ps ! i" s] Cons [of ps s]
    by (auto simp: case_prod_beta simp del: client_step.simps)
qed simp

end

text \<open>A program that is over: nothing it does matters any more.\<close>

primrec finished :: "'a prog \<Rightarrow> bool" where
  "finished (Return a) = True"
| "finished (Raise e) = True"
| "finished (Cmd c k) = False"
| "finished (Eval l k) = False"

lemma client_step_finished [simp]: "finished p \<Longrightarrow> client_step sv p s = (p, s)"
  by (cases p) auto

lemma client_step_call [run_simps]:
  "client_step mem_server (call c k) K =
     ((case client_view (fst (redis_exec c K)) of Inl e \<Rightarrow> Raise e | Inr v \<Rightarrow> k v), snd (redis_exec c K))"
  by (simp add: call_def transact_answered)

lemma put_str_put_str [simp]: "put_str k v t (put_str k v' t' K) = put_str k v t K"
  by (simp add: put_str_def put_def)

lemma client_step_eval_script [run_simps]:
  "client_step mem_server (eval_script l k) K =
     ((case client_view (fst (run_lua redis_exec l K)) of Inl e \<Rightarrow> Raise e | Inr v \<Rightarrow> k v),
      snd (run_lua redis_exec l K))"
  by (simp add: eval_script_def transact_answered)

lemma andthen_eval_script: "andthen (eval_script l k) f = eval_script l (\<lambda>v. andthen (k v) f)"
  by (auto simp: eval_script_def fun_eq_iff split: sum.splits)

definition empty_keyspace :: keyspace where
  "empty_keyspace = \<lparr>ks_us = 0, ks_db = (\<lambda>_. None)\<rparr>"

lemma empty_keyspace_simps [simp]:
  "ks_now empty_keyspace = 0" "live empty_keyspace k = None" "str_at empty_keyspace k = Some None"
  "zset_at empty_keyspace k = Some []" "hash_at empty_keyspace k = Some []" "deadline empty_keyspace k = None"
  by (simp_all add: empty_keyspace_def ks_now_def live_def str_at_def zset_at_def hash_at_def deadline_def)

end
