(* ===== verification/Models.thy ===== *)
theory Models
  imports Redis_Service
begin

text \<open>
  \<^verbatim>\<open>src/src/scraper_engine/core/models.py\<close>: the enumerations, the proxy, the fetch result that
  every level produces, the caller's overrides and the job response, with the validators that
  guard them. The fields \<open>timings\<close>, \<open>network_events\<close> and \<open>fetched_at\<close> of a fetch result are
  measurements nothing in the modelled code branches on; they are left out.
\<close>

subsection \<open>Enumerations\<close>

datatype proxy_protocol = P_HTTP | P_HTTPS | P_SOCKS4 | P_SOCKS5

datatype anonymity_level = TRANSPARENT | ANONYMOUS | ELITE

datatype asn_class = DATACENTER | RESIDENTIAL | MOBILE | ASN_UNKNOWN

datatype failure_category =
    NETWORK_TIMEOUT | DETECTION_BLOCK | BROWSER_CRASH | CAPTCHA_TRIGGERED | PARSE_ERROR
  | PROXY_EXHAUSTED | CIRCUIT_OPEN | SSRF_BLOCKED | QUOTA_EXCEEDED | HOST_UNREACHABLE
  | NOT_FOUND | POLITENESS_TIMEOUT | CAPACITY_TIMEOUT | DEPENDENCY_UNAVAILABLE
  | PROXY_AUTH_FAILED | RATE_LIMITED

datatype job_status = PENDING | PROCESSING | COMPLETED | FAILED | CANCELLED | DEAD_LETTER

datatype proxy_source = Pool | Paid_Gateway

fun protocol_value :: "proxy_protocol \<Rightarrow> string" where
  "protocol_value P_HTTP = ''HTTP''"
| "protocol_value P_HTTPS = ''HTTPS''"
| "protocol_value P_SOCKS4 = ''SOCKS4''"
| "protocol_value P_SOCKS5 = ''SOCKS5''"

fun category_value :: "failure_category \<Rightarrow> string" where
  "category_value NETWORK_TIMEOUT = ''network_timeout''"
| "category_value DETECTION_BLOCK = ''detection_block''"
| "category_value BROWSER_CRASH = ''browser_crash''"
| "category_value CAPTCHA_TRIGGERED = ''captcha_triggered''"
| "category_value PARSE_ERROR = ''parse_error''"
| "category_value PROXY_EXHAUSTED = ''proxy_exhausted''"
| "category_value CIRCUIT_OPEN = ''circuit_open''"
| "category_value SSRF_BLOCKED = ''ssrf_blocked''"
| "category_value QUOTA_EXCEEDED = ''quota_exceeded''"
| "category_value HOST_UNREACHABLE = ''host_unreachable''"
| "category_value NOT_FOUND = ''not_found''"
| "category_value POLITENESS_TIMEOUT = ''politeness_timeout''"
| "category_value CAPACITY_TIMEOUT = ''capacity_timeout''"
| "category_value DEPENDENCY_UNAVAILABLE = ''dependency_unavailable''"
| "category_value PROXY_AUTH_FAILED = ''proxy_auth_failed''"
| "category_value RATE_LIMITED = ''rate_limited''"

fun source_value :: "proxy_source \<Rightarrow> string" where
  "source_value Pool = ''pool''"
| "source_value Paid_Gateway = ''paid_gateway''"

definition all_categories :: "failure_category list" where
  "all_categories = [NETWORK_TIMEOUT, DETECTION_BLOCK, BROWSER_CRASH, CAPTCHA_TRIGGERED,
     PARSE_ERROR, PROXY_EXHAUSTED, CIRCUIT_OPEN, SSRF_BLOCKED, QUOTA_EXCEEDED, HOST_UNREACHABLE,
     NOT_FOUND, POLITENESS_TIMEOUT, CAPACITY_TIMEOUT, DEPENDENCY_UNAVAILABLE, PROXY_AUTH_FAILED,
     RATE_LIMITED]"

text \<open>\<open>FailureCategory(text)\<close>, as the stored rows are read back.\<close>

definition category_of_value :: "string \<Rightarrow> failure_category res" where
  "category_of_value s =
     (case filter (\<lambda>c. category_value c = s) all_categories of [] \<Rightarrow> Inl ValueError | c # _ \<Rightarrow> Inr c)"

lemma category_of_value_value: "category_of_value (category_value c) = Inr c"
  by (cases c) (simp_all add: category_of_value_def all_categories_def)

lemma category_value_inj: "category_value a = category_value b \<longleftrightarrow> a = b"
  by (metis category_of_value_value sum.inject(2))

lemma category_value_no_colon: "CHR '':'' \<notin> set (category_value c)"
  by (cases c) simp_all

subsection \<open>Proxies\<close>

record proxy =
  px_id :: int
  px_ip :: string
  px_port :: int
  px_protocol :: proxy_protocol
  px_anonymity :: anonymity_level
  px_asn_class :: asn_class
  px_reliability_score :: rat
  px_username :: "string option"
  px_password :: "string option"
  px_source :: proxy_source

definition proxy_url :: "proxy \<Rightarrow> string" where
  "proxy_url p = py_lower (protocol_value (px_protocol p)) @ ''://'' @ px_ip p @ '':'' @ py_str_int (px_port p)"

definition proxy_auth_url :: "proxy \<Rightarrow> string" where
  "proxy_auth_url p =
     (case (px_username p, px_password p) of
        (Some u, Some pw) \<Rightarrow> py_lower (protocol_value (px_protocol p)) @ ''://'' @ u @ '':'' @ pw @ ''@''
          @ px_ip p @ '':'' @ py_str_int (px_port p)
      | _ \<Rightarrow> proxy_url p)"

definition proxy_key :: "proxy \<Rightarrow> string" where
  "proxy_key p = px_ip p @ '':'' @ py_str_int (px_port p)"

definition proxy_reusable :: "proxy \<Rightarrow> bool" where
  "proxy_reusable p \<longleftrightarrow> px_source p \<noteq> Paid_Gateway"

definition identity_key :: "proxy \<Rightarrow> string" where
  "identity_key p =
     (case px_username p of None \<Rightarrow> proxy_key p
      | Some u \<Rightarrow> u @ ''@'' @ px_ip p @ '':'' @ py_str_int (px_port p))"

lemma py_str_int_no_colon: "CHR '':'' \<notin> set (py_str_int i)"
proof -
  have "\<not> is_ascii_digit CHR '':''" by (simp add: is_ascii_digit_def)
  then show ?thesis using digits_of_digits by (auto simp: py_str_int_def)
qed

lemma py_str_int_inj: "py_str_int i = py_str_int j \<longleftrightarrow> i = j"
proof
  assume eq: "py_str_int i = py_str_int j"
  have nd: "CHR ''-'' \<notin> set (digits_of n)" for n
    using digits_of_digits [of "CHR ''-''" n] by (auto simp: is_ascii_digit_def)
  have val: "digits_of m = digits_of n \<Longrightarrow> m = n" for m n
    by (metis digits_value_digits_of)
  show "i = j"
  proof (cases "i < 0"; cases "j < 0")
    assume "i < 0" "j < 0"
    with eq val [of "nat (- i)" "nat (- j)"] show ?thesis by (simp add: py_str_int_def)
  next
    assume "i < 0" "\<not> j < 0"
    with eq have "CHR ''-'' # digits_of (nat (- i)) = digits_of (nat j)" by (simp add: py_str_int_def)
    then show ?thesis using nd [of "nat j"] by (metis list.set_intros(1))
  next
    assume "\<not> i < 0" "j < 0"
    with eq have "CHR ''-'' # digits_of (nat (- j)) = digits_of (nat i)" by (simp add: py_str_int_def)
    then show ?thesis using nd [of "nat i"] by (metis list.set_intros(1))
  next
    assume "\<not> i < 0" "\<not> j < 0"
    with eq val [of "nat i" "nat j"] show ?thesis by (simp add: py_str_int_def)
  qed
qed simp

text \<open>\<open>key()\<close> names one row of the pool: address and port can be read back.\<close>

lemma proxy_key_inj: "proxy_key p = proxy_key q \<longleftrightarrow> px_ip p = px_ip q \<and> px_port p = px_port q"
proof
  assume "proxy_key p = proxy_key q"
  then have "px_ip p @ CHR '':'' # py_str_int (px_port p) = px_ip q @ CHR '':'' # py_str_int (px_port q)"
    by (simp add: proxy_key_def)
  from last_field_unique [OF this py_str_int_no_colon py_str_int_no_colon]
  show "px_ip p = px_ip q \<and> px_port p = px_port q" by (simp add: py_str_int_inj)
qed (simp add: proxy_key_def)

text \<open>On one gateway endpoint the exit identity is the user name, which \<open>key()\<close> does not see.\<close>

lemma identity_key_sessions:
  assumes "px_ip p = px_ip q" "px_port p = px_port q" "px_username p = Some u" "px_username q = Some v"
  shows "proxy_key p = proxy_key q" "identity_key p = identity_key q \<longleftrightarrow> u = v"
  using assms by (simp_all add: proxy_key_def identity_key_def)

subsection \<open>Results of a fetch\<close>

text \<open>One entry of \<open>escalations\<close>: a level this URL passed through and why it was rejected.\<close>

record escalation =
  es_level :: int
  es_reason :: string
  es_http_status :: "int option"
  es_engine :: "string option"
  es_proxy_source :: "proxy_source option"

record fetch_result =
  fr_url :: string
  fr_success :: bool
  fr_http_status :: "int option"
  fr_is_challenge_page :: bool
  fr_html :: "string option"
  fr_markdown :: "string option"
  fr_extracted :: "json option"
  fr_level_used :: int
  fr_failure_category :: "failure_category option"
  fr_error_message :: "string option"
  fr_proxy_used :: "string option"
  fr_proxy_source :: "proxy_source option"
  fr_html_snapshot_url :: "string option"
  fr_from_cache :: bool
  fr_duration_ms :: int
  fr_engine :: "string option"
  fr_escalations :: "escalation list option"
  fr_paid_gateway_skipped :: "bool option"
  fr_site_refused_recently :: "bool option"
  fr_block_reason :: "string option"
  fr_retry_after_seconds :: "int option"

text \<open>\<open>FetchResult(url=..., success=..., level_used=..., duration_ms=...)\<close> with every default.\<close>

definition new_result :: "string \<Rightarrow> bool \<Rightarrow> int \<Rightarrow> int \<Rightarrow> fetch_result" where
  "new_result url success level_used duration_ms =
     \<lparr>fr_url = url, fr_success = success, fr_http_status = None, fr_is_challenge_page = False,
      fr_html = None, fr_markdown = None, fr_extracted = None, fr_level_used = level_used,
      fr_failure_category = None, fr_error_message = None, fr_proxy_used = None,
      fr_proxy_source = None, fr_html_snapshot_url = None, fr_from_cache = False,
      fr_duration_ms = duration_ms, fr_engine = None, fr_escalations = None,
      fr_paid_gateway_skipped = None, fr_site_refused_recently = None, fr_block_reason = None,
      fr_retry_after_seconds = None\<rparr>"

text \<open>A failure built by the engine itself, before or after any real attempt.\<close>

definition failed_result :: "string \<Rightarrow> int \<Rightarrow> failure_category \<Rightarrow> string \<Rightarrow> fetch_result" where
  "failed_result url level category message =
     (new_result url False level 0)\<lparr>fr_failure_category := Some category, fr_error_message := Some message\<rparr>"

lemma new_result_simps [simp]:
  "fr_url (new_result u s l d) = u" "fr_success (new_result u s l d) = s"
  "fr_level_used (new_result u s l d) = l" "fr_http_status (new_result u s l d) = None"
  "fr_failure_category (new_result u s l d) = None" "fr_from_cache (new_result u s l d) = False"
  "fr_is_challenge_page (new_result u s l d) = False" "fr_html (new_result u s l d) = None"
  "fr_error_message (new_result u s l d) = None" "fr_paid_gateway_skipped (new_result u s l d) = None"
  "fr_proxy_source (new_result u s l d) = None" "fr_retry_after_seconds (new_result u s l d) = None"
  "fr_block_reason (new_result u s l d) = None" "fr_engine (new_result u s l d) = None"
  by (simp_all add: new_result_def)

lemma failed_result_simps [simp]:
  "fr_url (failed_result u l c m) = u" "\<not> fr_success (failed_result u l c m)"
  "fr_level_used (failed_result u l c m) = l" "fr_http_status (failed_result u l c m) = None"
  "fr_failure_category (failed_result u l c m) = Some c"
  "fr_error_message (failed_result u l c m) = Some m"
  "fr_from_cache (failed_result u l c m) = False"
  "fr_paid_gateway_skipped (failed_result u l c m) = None"
  "fr_proxy_source (failed_result u l c m) = None"
  "fr_retry_after_seconds (failed_result u l c m) = None"
  by (simp_all add: failed_result_def)

text \<open>Python's \<open>or\<close> on an optional text, an optional status and an optional boolean.\<close>

definition or_str :: "string option \<Rightarrow> string \<Rightarrow> string" where
  "or_str m d = (case m of Some s \<Rightarrow> if s = [] then d else s | None \<Rightarrow> d)"

definition or_int :: "int option \<Rightarrow> int \<Rightarrow> int" where
  "or_int m d = (case m of Some i \<Rightarrow> if i = 0 then d else i | None \<Rightarrow> d)"

definition truthy_str :: "string option \<Rightarrow> bool" where
  "truthy_str m = (case m of Some s \<Rightarrow> s \<noteq> [] | None \<Rightarrow> False)"

definition truthy_bool :: "bool option \<Rightarrow> bool" where
  "truthy_bool b \<longleftrightarrow> b = Some True"

lemma truthy_bool_simps [simp]: "truthy_bool (Some b) = b" "\<not> truthy_bool None"
  by (simp_all add: truthy_bool_def)

lemma or_str_simps [simp]: "or_str None d = d" "or_str (Some (c # cs)) d = c # cs" "or_str (Some []) d = d"
  by (simp_all add: or_str_def)

text \<open>Characters outside Latin-1 are written as their UTF-8 bytes.\<close>

definition em_dash :: string where
  "em_dash = [CHR 0xE2, CHR 0x80, CHR 0x94]"

subsection \<open>Requests\<close>

record config_overrides =
  co_max_retries :: int
  co_timeout_seconds :: int
  co_extraction_schema :: "json option"
  co_bypass_cache :: bool
  co_enable_smallmodel :: bool
  co_enable_llm :: bool
  co_min_level :: "int option"
  co_max_level :: "int option"
  co_politeness_concurrency :: "int option"
  co_politeness_delay_seconds :: "rat option"

definition default_overrides :: config_overrides where
  "default_overrides = \<lparr>co_max_retries = 3, co_timeout_seconds = 120, co_extraction_schema = None,
     co_bypass_cache = False, co_enable_smallmodel = False, co_enable_llm = False,
     co_min_level = None, co_max_level = None, co_politeness_concurrency = None,
     co_politeness_delay_seconds = None\<rparr>"

definition in_range :: "int \<Rightarrow> int \<Rightarrow> int option \<Rightarrow> bool" where
  "in_range lo hi v = (case v of None \<Rightarrow> True | Some x \<Rightarrow> lo \<le> x \<and> x \<le> hi)"

text \<open>The field constraints, then \<open>level_range_is_coherent\<close>.\<close>

definition level_range_is_coherent :: "config_overrides \<Rightarrow> config_overrides res" where
  "level_range_is_coherent o' =
     (case (co_min_level o', co_max_level o') of
        (Some lo, Some hi) \<Rightarrow> if lo > hi then Inl ValueError else Inr o'
      | _ \<Rightarrow> Inr o')"

definition validate_overrides :: "config_overrides \<Rightarrow> config_overrides res" where
  "validate_overrides o' =
     (if in_range 1 3 (co_min_level o') \<and> in_range 1 3 (co_max_level o')
       \<and> (case co_politeness_concurrency o' of None \<Rightarrow> True | Some c \<Rightarrow> 1 \<le> c)
       \<and> (case co_politeness_delay_seconds o' of None \<Rightarrow> True | Some d \<Rightarrow> 0 \<le> d)
      then level_range_is_coherent o' else Inl ValueError)"

record scrape_request =
  rq_urls :: "string list"
  rq_overrides :: "config_overrides option"

definition scrape_request_non_empty :: "string list \<Rightarrow> string list res" where
  "scrape_request_non_empty urls =
     (if urls = [] then Inl ValueError else if 500 < length urls then Inl ValueError else Inr urls)"

definition crawl_request_non_empty :: "string list \<Rightarrow> string list res" where
  "crawl_request_non_empty start_urls = (if start_urls = [] then Inl ValueError else Inr start_urls)"

definition valid_overrides :: "config_overrides option \<Rightarrow> bool" where
  "valid_overrides ov = (case ov of None \<Rightarrow> True | Some o' \<Rightarrow> validate_overrides o' = Inr o')"

lemma valid_overrides_iff:
  "valid_overrides (Some o') \<longleftrightarrow>
     in_range 1 3 (co_min_level o') \<and> in_range 1 3 (co_max_level o') \<and>
     (\<forall>c. co_politeness_concurrency o' = Some c \<longrightarrow> 1 \<le> c) \<and>
     (\<forall>d. co_politeness_delay_seconds o' = Some d \<longrightarrow> 0 \<le> d) \<and>
     (\<forall>lo hi. co_min_level o' = Some lo \<longrightarrow> co_max_level o' = Some hi \<longrightarrow> lo \<le> hi)"
  by (auto simp: valid_overrides_def validate_overrides_def level_range_is_coherent_def
      split: option.splits if_splits)

record job_status_response =
  js_job_id :: string
  js_status :: job_status
  js_results :: "fetch_result list option"
  js_error :: "string option"
  js_partial_failure :: bool

end
