(* ===== verification/Proxy_Scoring.thy ===== *)
theory Proxy_Scoring
  imports Models
begin

text \<open>
  \<^verbatim>\<open>src/src/scraper_engine/proxy/scoring.py\<close> and the mapping of a classifier's answer in
  \<^verbatim>\<open>proxy/harvester.py\<close>: the composite score of a proxy. Scores are floats in the code and exact
  rationals here.
\<close>

subsection \<open>The formula\<close>

record proxy_score =
  ps_total :: rat
  ps_latency_score :: rat
  ps_success_rate :: rat
  ps_anonymity_bonus :: rat
  ps_recency_penalty :: rat
  ps_breakdown :: "(string \<times> rat) list"

definition compute_success_rate :: "int \<Rightarrow> int \<Rightarrow> rat option" where
  "compute_success_rate successes failures =
     (let n = successes + failures in if n = 0 then None else Some (of_int successes / of_int n * 100))"

fun ANONYMITY_BONUS :: "anonymity_level \<Rightarrow> rat" where
  "ANONYMITY_BONUS ELITE = 100"
| "ANONYMITY_BONUS ANONYMOUS = 50"
| "ANONYMITY_BONUS TRANSPARENT = 0"

fun ASN_BONUS :: "asn_class \<Rightarrow> rat" where
  "ASN_BONUS RESIDENTIAL = 100"
| "ASN_BONUS MOBILE = 100"
| "ASN_BONUS DATACENTER = 0"
| "ASN_BONUS ASN_UNKNOWN = 0"

definition W_LATENCY :: rat where "W_LATENCY = 25 / 100"
definition W_SUCCESS :: rat where "W_SUCCESS = 45 / 100"
definition W_ANONYMITY :: rat where "W_ANONYMITY = 15 / 100"
definition W_ASN :: rat where "W_ASN = 10 / 100"
definition W_RECENCY :: rat where "W_RECENCY = 5 / 100"
definition W_NO_SUCCESS_TOTAL :: rat where "W_NO_SUCCESS_TOTAL = W_LATENCY + W_ANONYMITY + W_ASN + W_RECENCY"

lemmas weights = W_LATENCY_def W_SUCCESS_def W_ANONYMITY_def W_ASN_def W_RECENCY_def W_NO_SUCCESS_TOTAL_def

text \<open>The four dimensions that need no track record.\<close>

definition latency_points :: "int option \<Rightarrow> rat" where
  "latency_points latency_ms = (case latency_ms of Some ms \<Rightarrow> max 0 (min 100 (100 - of_int ms / 100)) | None \<Rightarrow> 50)"

definition recency_loss :: "rat option \<Rightarrow> rat" where
  "recency_loss seconds_ago = (case seconds_ago of Some s \<Rightarrow> min 30 (s / 3600 * 2) | None \<Rightarrow> 0)"

definition compute_score :: "int option \<Rightarrow> rat option \<Rightarrow> anonymity_level \<Rightarrow> asn_class \<Rightarrow> rat option \<Rightarrow> proxy_score" where
  "compute_score latency_ms success_rate anonymity asn seconds_ago =
     (let latency_score = latency_points latency_ms;
          anonymity_bonus = ANONYMITY_BONUS anonymity;
          asn_bonus = ASN_BONUS asn;
          recency_penalty = recency_loss seconds_ago;
          recency_score = 100 - recency_penalty;
          rate = (case success_rate of None \<Rightarrow> 50 | Some s \<Rightarrow> max 0 (min 100 s));
          sum = (case success_rate of
              None \<Rightarrow> latency_score * (W_LATENCY / W_NO_SUCCESS_TOTAL) + anonymity_bonus * (W_ANONYMITY / W_NO_SUCCESS_TOTAL)
                + asn_bonus * (W_ASN / W_NO_SUCCESS_TOTAL) + recency_score * (W_RECENCY / W_NO_SUCCESS_TOTAL)
            | Some _ \<Rightarrow> latency_score * W_LATENCY + rate * W_SUCCESS + anonymity_bonus * W_ANONYMITY
                + asn_bonus * W_ASN + recency_score * W_RECENCY)
      in \<lparr>ps_total = max 0 (min 100 sum), ps_latency_score = latency_score, ps_success_rate = rate,
          ps_anonymity_bonus = anonymity_bonus, ps_recency_penalty = recency_penalty,
          ps_breakdown = [(''latency'', latency_score), (''success_rate'', rate), (''anonymity_bonus'', anonymity_bonus),
            (''asn_bonus'', asn_bonus), (''recency_penalty'', recency_penalty)]\<rparr>)"

definition to_asn_class :: "string \<Rightarrow> asn_class" where
  "to_asn_class raw = (let lowered = py_lower raw in
     if contains lowered ''residential'' then RESIDENTIAL
     else if contains lowered ''mobile'' then MOBILE
     else if contains lowered ''datacenter'' then DATACENTER else ASN_UNKNOWN)"

definition score_validation :: "int option \<Rightarrow> anonymity_level \<Rightarrow> asn_class \<Rightarrow> rat option \<Rightarrow> rat" where
  "score_validation latency_ms anonymity asn success_rate =
     ps_total (compute_score latency_ms success_rate anonymity asn (Some 0))"

subsection \<open>The moving average of the latency\<close>

type_synonym latency_history = "(string \<times> rat list) list"

definition endpoint_key :: "string \<Rightarrow> int \<Rightarrow> string" where
  "endpoint_key ip port = ip @ '':'' @ py_str_int port"

definition apply_success :: "string \<Rightarrow> int \<Rightarrow> int \<Rightarrow> latency_history \<Rightarrow> latency_history" where
  "apply_success ip port latency_ms history =
     (let key = endpoint_key ip port;
          samples = (case map_of history key of Some xs \<Rightarrow> xs | None \<Rightarrow> []) @ [of_int latency_ms]
      in alist_put key (if length samples > 50 then drop (length samples - 50) samples else samples) history)"

definition average_latency :: "string \<Rightarrow> int \<Rightarrow> latency_history \<Rightarrow> rat option" where
  "average_latency ip port history =
     (case map_of history (endpoint_key ip port) of
        None \<Rightarrow> None | Some [] \<Rightarrow> None | Some xs \<Rightarrow> Some (sum_list xs / of_nat (length xs)))"

subsection \<open>Ranges and comparisons\<close>

lemma latency_points_range [simp]: "0 \<le> latency_points l" "latency_points l \<le> 100"
  by (auto simp: latency_points_def split: option.splits)

lemma latency_points_mono: "l \<le> l' \<Longrightarrow> latency_points (Some l') \<le> latency_points (Some l)"
  by (auto simp: latency_points_def divide_right_mono)

lemma score_in_range [simp]:
  "0 \<le> ps_total (compute_score l s a c r)" "ps_total (compute_score l s a c r) \<le> 100"
  by (simp_all add: compute_score_def Let_def)

lemma score_validation_range [simp]: "0 \<le> score_validation l a c s" "score_validation l a c s \<le> 100"
  by (simp_all add: score_validation_def)

text \<open>The four dimensions weighted to at most 55 points, and the total in terms of them.\<close>

definition untested_points :: "int option \<Rightarrow> anonymity_level \<Rightarrow> asn_class \<Rightarrow> rat option \<Rightarrow> rat" where
  "untested_points l a c r = latency_points l * W_LATENCY + ANONYMITY_BONUS a * W_ANONYMITY + ASN_BONUS c * W_ASN
     + (100 - recency_loss r) * W_RECENCY"

definition waited :: "rat option \<Rightarrow> bool" where
  "waited r \<longleftrightarrow> (case r of None \<Rightarrow> True | Some s \<Rightarrow> 0 \<le> s)"

lemma untested_points_eq: "untested_points l a c r =
    latency_points l / 4 + ANONYMITY_BONUS a * 3 / 20 + ASN_BONUS c / 10 + (100 - recency_loss r) / 20"
  by (simp add: untested_points_def weights)

lemma points_range:
  assumes "0 \<le> x" "x \<le> 100" "0 \<le> y" "y \<le> 100" "0 \<le> z" "z \<le> 100" "0 \<le> w" "w \<le> 100"
  shows "0 \<le> x / 4 + y * 3 / 20 + z / 10 + (100 - w) / (20 :: rat)" "x / 4 + y * 3 / 20 + z / 10 + (100 - w) / (20 :: rat) \<le> 55"
proof -
  have "0 \<le> x / 4 \<and> x / 4 \<le> 25" "0 \<le> y * 3 / 20 \<and> y * 3 / 20 \<le> 15" "0 \<le> z / 10 \<and> z / 10 \<le> 10"
    "0 \<le> (100 - w) / 20 \<and> (100 - w) / 20 \<le> 5"
    using assms by simp_all
  then show "0 \<le> x / 4 + y * 3 / 20 + z / 10 + (100 - w) / (20 :: rat)" "x / 4 + y * 3 / 20 + z / 10 + (100 - w) / (20 :: rat) \<le> 55"
    by linarith+
qed

lemma untested_points_range:
  assumes "waited r"
  shows "0 \<le> untested_points l a c r" "untested_points l a c r \<le> 55"
proof -
  have "0 \<le> recency_loss r" "recency_loss r \<le> 30"
    using assms by (auto simp: recency_loss_def waited_def split: option.splits)
  moreover have "0 \<le> ANONYMITY_BONUS a" "ANONYMITY_BONUS a \<le> 100" "0 \<le> ASN_BONUS c" "ASN_BONUS c \<le> 100"
    by (cases a; simp)+ (cases c; simp)+
  ultimately show "0 \<le> untested_points l a c r" "untested_points l a c r \<le> 55"
    unfolding untested_points_eq by (intro points_range latency_points_range; linarith)+
qed

lemma weight_ratios: "W_LATENCY / W_NO_SUCCESS_TOTAL = 5 / 11" "W_ANONYMITY / W_NO_SUCCESS_TOTAL = 3 / 11"
    "W_ASN / W_NO_SUCCESS_TOTAL = 2 / 11" "W_RECENCY / W_NO_SUCCESS_TOTAL = 1 / 11"
  by (simp_all add: weights)

lemma score_unknown:
  assumes "waited r"
  shows "ps_total (compute_score l None a c r) = untested_points l a c r * 100 / 55"
proof -
  have "ps_total (compute_score l None a c r) = max 0 (min 100
      (latency_points l * (5 / 11) + ANONYMITY_BONUS a * (3 / 11) + ASN_BONUS c * (2 / 11) + (100 - recency_loss r) * (1 / 11)))"
    unfolding compute_score_def weight_ratios Let_def by simp
  also have "latency_points l * (5 / 11) + ANONYMITY_BONUS a * (3 / 11) + ASN_BONUS c * (2 / 11) + (100 - recency_loss r) * (1 / 11)
      = untested_points l a c r * 100 / 55"
    unfolding untested_points_eq by (simp add: field_simps)
  finally show ?thesis
    using untested_points_range [OF assms, of l a c] by simp
qed

lemma score_measured:
  assumes "waited r" "0 \<le> s" "s \<le> 100"
  shows "ps_total (compute_score l (Some s) a c r) = untested_points l a c r + s * W_SUCCESS"
proof -
  have "ps_total (compute_score l (Some s) a c r) = max 0 (min 100 (untested_points l a c r + s * W_SUCCESS))"
    using assms by (simp add: compute_score_def Let_def untested_points_def)
  then show ?thesis
    using untested_points_range [OF assms(1), of l a c] assms by (simp add: W_SUCCESS_def)
qed

text \<open>The share of successes in a track record.\<close>

definition share :: "int \<Rightarrow> int \<Rightarrow> rat" where
  "share successes failures = of_int successes / of_int (successes + failures)"

lemma share_range:
  assumes "0 \<le> s" "0 \<le> f" "0 < s + f"
  shows "0 \<le> share s f" "share s f \<le> 1"
  using assms by (simp_all add: share_def divide_le_eq_1)

lemma share_mono:
  assumes "0 \<le> s" "0 \<le> f" "0 < s + f"
  shows "share s f \<le> share (s + 1) f" "share s (f + 1) \<le> share s f"
proof -
  have "s * (s + 1 + f) \<le> (s + 1) * (s + f)"
    using assms by (simp add: algebra_simps)
  then have "(of_int s :: rat) * of_int (s + 1 + f) \<le> of_int (s + 1) * of_int (s + f)"
    by (metis of_int_le_iff of_int_mult)
  then show "share s f \<le> share (s + 1) f"
    unfolding share_def using assms by (subst divide_le_eq, simp) (simp add: le_divide_eq field_simps)
  show "share s (f + 1) \<le> share s f"
    unfolding share_def using assms by (intro divide_left_mono) (simp_all del: of_int_add)
qed

lemma success_rate_share: "compute_success_rate s f = (if s + f = 0 then None else Some (share s f * 100))"
  by (simp add: compute_success_rate_def share_def)

text \<open>The score of a track record.\<close>

definition record_score :: "int option \<Rightarrow> anonymity_level \<Rightarrow> asn_class \<Rightarrow> rat option \<Rightarrow> int \<Rightarrow> int \<Rightarrow> rat" where
  "record_score l a c r successes failures = ps_total (compute_score l (compute_success_rate successes failures) a c r)"

lemma record_score_cases:
  assumes "waited r" "0 \<le> s" "0 \<le> f"
  shows "record_score l a c r s f =
    (if s + f = 0 then untested_points l a c r * 100 / 55 else untested_points l a c r + share s f * 45)"
proof (cases "s + f = 0")
  case True
  then show ?thesis
    using assms score_unknown by (simp add: record_score_def success_rate_share)
next
  case False
  then have "0 \<le> share s f * 100" "share s f * 100 \<le> 100"
    using share_range [of s f] assms by simp_all
  from score_measured [OF assms(1) this] show ?thesis
    using False by (simp add: record_score_def success_rate_share W_SUCCESS_def)
qed

text \<open>A success never lowers the score of a proxy and a failure never raises it, the first ones included.\<close>

lemma success_never_lowers:
  assumes "waited r" "0 \<le> s" "0 \<le> f"
  shows "record_score l a c r s f \<le> record_score l a c r (s + 1) f"
proof (cases "s + f = 0")
  case True
  then have "s = 0" "f = 0" using assms by simp_all
  then show ?thesis
    using untested_points_range [OF assms(1), of l a c] assms(1) by (simp add: record_score_cases share_def)
next
  case False
  then show ?thesis
    using share_mono(1) [of s f] assms by (simp add: record_score_cases)
qed

lemma failure_never_raises:
  assumes "waited r" "0 \<le> s" "0 \<le> f"
  shows "record_score l a c r s (f + 1) \<le> record_score l a c r s f"
proof (cases "s + f = 0")
  case True
  then have "s = 0" "f = 0" using assms by simp_all
  then show ?thesis
    using untested_points_range [OF assms(1), of l a c] assms(1) by (simp add: record_score_cases share_def)
next
  case False
  then show ?thesis
    using share_mono(2) [of s f] assms by (simp add: record_score_cases)
qed

text \<open>The history keeps at most the last 50 samples of a proxy.\<close>

lemma apply_success_window:
  assumes "map_of (apply_success ip port ms h) (endpoint_key ip port) = Some xs"
  shows "length xs \<le> 50 \<and> last xs = of_int ms"
  using assms by (auto simp: apply_success_def Let_def split: if_splits option.splits)

end
