(* ===== verification/Pool_Health.thy ===== *)
theory Pool_Health
  imports Redis_Service
begin

text \<open>
  \<^verbatim>\<open>src/src/scraper_engine/proxy/pool_health.py\<close>: the health of each tier of the proxy pool, kept
  in one Redis key per tier, and the transitions between two checks. The number of validated
  proxies of a tier (a \<open>COUNT\<close> on \<open>proxy_pool\<close>) is an argument, \<open>Inl\<close> for a failing query.
\<close>

record proxy_tier_config =
  tc_min_score_level_1 :: rat
  tc_min_score_level_2 :: rat
  tc_min_score_level_3 :: rat
  tc_allow_tier2_fallback_for_tier3 :: bool
  tc_allow_tier1_fallback_for_tier2 :: bool
  tc_degraded_below_count :: int
  tc_critical_below_count :: int

definition proxy_tier_defaults :: proxy_tier_config where
  "proxy_tier_defaults = \<lparr>tc_min_score_level_1 = 40, tc_min_score_level_2 = 70, tc_min_score_level_3 = 90,
     tc_allow_tier2_fallback_for_tier3 = False, tc_allow_tier1_fallback_for_tier2 = False,
     tc_degraded_below_count = 20, tc_critical_below_count = 5\<rparr>"

definition TIERS :: "int list" where "TIERS = [1, 2, 3]"

datatype pool_health_state = HEALTHY | DEGRADED | CRITICAL

fun pool_state_value :: "pool_health_state \<Rightarrow> string" where
  "pool_state_value HEALTHY = ''healthy''"
| "pool_state_value DEGRADED = ''degraded''"
| "pool_state_value CRITICAL = ''critical''"

definition pool_state_of_value :: "rstr \<Rightarrow> pool_health_state res" where
  "pool_state_of_value v =
     (if v = RText ''healthy'' then Inr HEALTHY else if v = RText ''degraded'' then Inr DEGRADED
      else if v = RText ''critical'' then Inr CRITICAL else Inl ValueError)"

record pool_transition =
  pt_tier :: int
  pt_old :: pool_health_state
  pt_new :: pool_health_state
  pt_count :: int

definition pool_state_key :: "int \<Rightarrow> string" where
  "pool_state_key tier = ''proxy:pool_health:tier:'' @ py_str_int tier"

definition classify_pool :: "int \<Rightarrow> proxy_tier_config \<Rightarrow> pool_health_state" where
  "classify_pool n cfg =
     (if n < tc_critical_below_count cfg then CRITICAL
      else if n < tc_degraded_below_count cfg then DEGRADED else HEALTHY)"

definition pool_current_state :: "int \<Rightarrow> pool_health_state prog" where
  "pool_current_state tier = call (GET (pool_state_key tier)) (\<lambda>r. case r of
     RBulk v \<Rightarrow> if py_truthy v then lift_res (pool_state_of_value v) Return else Return HEALTHY
   | _ \<Rightarrow> Return HEALTHY)"

definition min_score_of :: "proxy_tier_config \<Rightarrow> int \<Rightarrow> rat" where
  "min_score_of cfg tier = (if tier = 1 then tc_min_score_level_1 cfg else if tier = 2 then tc_min_score_level_2 cfg
     else tc_min_score_level_3 cfg)"

text \<open>One tier of \<open>PoolHealthMonitor.check\<close>; \<open>count\<close> is the query for a minimum score.\<close>

definition check_tier :: "proxy_tier_config \<Rightarrow> (rat \<Rightarrow> int res) \<Rightarrow> int \<Rightarrow> pool_transition list prog" where
  "check_tier cfg count tier = lift_res (count (min_score_of cfg tier)) (\<lambda>n.
     let new_state = classify_pool n cfg in
     andthen (pool_current_state tier) (\<lambda>old_state.
     call (SET (pool_state_key tier) (RText (pool_state_value new_state)) None False) (\<lambda>_.
     Return (if new_state \<noteq> old_state
       then [\<lparr>pt_tier = tier, pt_old = old_state, pt_new = new_state, pt_count = n\<rparr>] else []))))"

primrec check_tiers :: "proxy_tier_config \<Rightarrow> (rat \<Rightarrow> int res) \<Rightarrow> int list \<Rightarrow> pool_transition list prog" where
  "check_tiers cfg count [] = Return []"
| "check_tiers cfg count (t # ts) = andthen (check_tier cfg count t) (\<lambda>xs.
     andthen (check_tiers cfg count ts) (\<lambda>ys. Return (xs @ ys)))"

definition pool_check :: "proxy_tier_config \<Rightarrow> (rat \<Rightarrow> int res) \<Rightarrow> pool_transition list prog" where
  "pool_check cfg count = check_tiers cfg count TIERS"

lemma pool_state_of_value_value [simp]: "pool_state_of_value (RText (pool_state_value s)) = Inr s"
  by (cases s) (simp_all add: pool_state_of_value_def)

lemma pool_state_value_nonempty [simp]: "pool_state_value s \<noteq> []"
  by (cases s) simp_all

end
