(* ===== verification/Tenant.thy ===== *)
theory Tenant
  imports Redis_Service
begin

text \<open>
  \<^verbatim>\<open>src/src/scraper_engine/core/tenant.py\<close>, the validation gate of tenant identifiers, and
  \<^verbatim>\<open>src/src/scraper_engine/storage/redis_client.py\<close>, the client that puts the identifier in front
  of every key. The theorem of the pair: keys of two tenants never meet, and no call made for one
  tenant changes what is stored for another.
\<close>

subsection \<open>Tenant identifiers\<close>

definition is_lower :: "char \<Rightarrow> bool" where
  "is_lower c \<longleftrightarrow> 97 \<le> (of_char c :: nat) \<and> (of_char c :: nat) \<le> 122"

definition tenant_char :: "char \<Rightarrow> bool" where
  "tenant_char c \<longleftrightarrow> is_lower c \<or> is_ascii_digit c \<or> c = CHR ''_''"

definition newline :: char where
  "newline = CHR 0x0A"

text \<open>The pattern without its final \<open>$\<close>, against a whole string.\<close>

definition tenant_body :: "string \<Rightarrow> bool" where
  "tenant_body s = (case s of [] \<Rightarrow> False
     | c # cs \<Rightarrow> is_lower c \<and> list_all tenant_char cs \<and> 2 \<le> length cs \<and> length cs \<le> 62)"

text \<open>\<open>$\<close> also matches in front of one newline that ends the string.\<close>

definition TENANT_RE_match :: "string \<Rightarrow> bool" where
  "TENANT_RE_match s \<longleftrightarrow>
     tenant_body s \<or> s \<noteq> [] \<and> last s = newline \<and> tenant_body (butlast s)"

definition TenantId :: "string \<Rightarrow> string res" where
  "TenantId value = (if TENANT_RE_match value then Inr value else Inl ValueError)"

lemma tenant_body_iff:
  "tenant_body b \<longleftrightarrow> (\<exists>c cs. b = c # cs \<and> is_lower c \<and> list_all tenant_char cs \<and>
     2 \<le> length cs \<and> length cs \<le> 62)"
  by (auto simp: tenant_body_def split: list.splits)

lemma TENANT_RE_match_iff:
  "TENANT_RE_match s \<longleftrightarrow> (\<exists>b. tenant_body b \<and> (s = b \<or> s = b @ [newline]))"
  unfolding TENANT_RE_match_def
  by (metis append_butlast_last_id butlast_snoc last_snoc snoc_eq_iff_butlast)

lemma colon_not_tenant_char: "\<not> tenant_char CHR '':''" "\<not> is_lower CHR '':''" "newline \<noteq> CHR '':''"
  by (simp_all add: tenant_char_def is_lower_def is_ascii_digit_def newline_def)

lemma tenant_body_no_colon: "tenant_body s \<Longrightarrow> CHR '':'' \<notin> set s"
  using colon_not_tenant_char unfolding tenant_body_iff list_all_iff by (metis set_ConsD)

lemma TENANT_RE_no_colon: "TENANT_RE_match s \<Longrightarrow> CHR '':'' \<notin> set s"
  using tenant_body_no_colon colon_not_tenant_char(3) by (auto simp: TENANT_RE_match_iff)

text \<open>A newline behind an identifier passes the gate: \<open>$\<close> is used where \<open>\Z\<close> was meant.\<close>

lemma TenantId_newline: "TenantId s = Inr s \<Longrightarrow> tenant_body s \<Longrightarrow> TenantId (s @ [newline]) = Inr (s @ [newline])"
  by (auto simp: TenantId_def TENANT_RE_match_iff split: if_splits)

lemma TenantId_no_colon: "TenantId s = Inr t \<Longrightarrow> CHR '':'' \<notin> set t"
  by (auto simp: TenantId_def TENANT_RE_no_colon split: if_splits)

subsection \<open>The tenant-scoped client\<close>

definition rc_prefix :: "string \<Rightarrow> string \<Rightarrow> string" where
  "rc_prefix tenant_id key = tenant_id @ '':'' @ key"

text \<open>Every method refuses to run before \<open>start()\<close>; \<open>started\<close> is whether \<open>_client\<close> is set.\<close>

definition need_client :: "bool \<Rightarrow> 'a prog \<Rightarrow> 'a prog" where
  "need_client started p = (if started then p else Raise (RuntimeError ''RedisClient.start() must be called''))"

definition rc_get :: "bool \<Rightarrow> string \<Rightarrow> string \<Rightarrow> rstr option prog" where
  "rc_get started tenant_id key = need_client started
     (call (GET (rc_prefix tenant_id key)) (\<lambda>r. case r of
        RBulk v \<Rightarrow> Return (if py_truthy v then Some v else None) | _ \<Rightarrow> Return None))"

definition rc_set :: "bool \<Rightarrow> string \<Rightarrow> string \<Rightarrow> rstr \<Rightarrow> int option \<Rightarrow> unit prog" where
  "rc_set started tenant_id key value ttl = need_client started
     (case ttl of
        Some t \<Rightarrow> call (SET (rc_prefix tenant_id key) value (Some (t * 1000)) False) (\<lambda>_. Return ())
      | None \<Rightarrow> call (SET (rc_prefix tenant_id key) value None False) (\<lambda>_. Return ()))"

definition rc_incrby :: "bool \<Rightarrow> string \<Rightarrow> string \<Rightarrow> int \<Rightarrow> int prog" where
  "rc_incrby started tenant_id key amount = need_client started
     (call (INCRBY (rc_prefix tenant_id key) amount) (\<lambda>r. case r of
        RInteger i \<Rightarrow> Return i | _ \<Rightarrow> Raise ResponseError))"

definition rc_expire :: "bool \<Rightarrow> string \<Rightarrow> string \<Rightarrow> int \<Rightarrow> bool prog" where
  "rc_expire started tenant_id key ttl = need_client started
     (call (PEXPIRE (rc_prefix tenant_id key) (ttl * 1000)) (\<lambda>r. Return (r = RInteger 1)))"

definition rc_sadd :: "bool \<Rightarrow> string \<Rightarrow> string \<Rightarrow> string list \<Rightarrow> int prog" where
  "rc_sadd started tenant_id key members = need_client started
     (call (SADD (rc_prefix tenant_id key) members) (\<lambda>r. case r of
        RInteger i \<Rightarrow> Return i | _ \<Rightarrow> Raise ResponseError))"

definition rc_srem :: "bool \<Rightarrow> string \<Rightarrow> string \<Rightarrow> string list \<Rightarrow> int prog" where
  "rc_srem started tenant_id key members = need_client started
     (call (SREM (rc_prefix tenant_id key) members) (\<lambda>r. case r of
        RInteger i \<Rightarrow> Return i | _ \<Rightarrow> Raise ResponseError))"

definition rc_scard :: "bool \<Rightarrow> string \<Rightarrow> string \<Rightarrow> int prog" where
  "rc_scard started tenant_id key = need_client started
     (call (SCARD (rc_prefix tenant_id key)) (\<lambda>r. case r of
        RInteger i \<Rightarrow> Return i | _ \<Rightarrow> Raise ResponseError))"

text \<open>\<open>eval\<close> puts no prefix in front of the keys: the caller names them in full.\<close>

definition rc_eval :: "bool \<Rightarrow> lua \<Rightarrow> reply prog" where
  "rc_eval started script = need_client started (eval_script script Return)"

text \<open>The calls a tenant-scoped handler can make: every method of the class.\<close>

datatype rc_op =
    RcGet string
  | RcSet string rstr "int option"
  | RcIncrby string int
  | RcSadd string "string list"
  | RcSrem string "string list"
  | RcScard string
  | RcExpire string int
  | RcEval lua

fun rc_op_prog :: "bool \<Rightarrow> string \<Rightarrow> rc_op \<Rightarrow> unit prog" where
  "rc_op_prog st t (RcGet k) = andthen (rc_get st t k) (\<lambda>_. Return ())"
| "rc_op_prog st t (RcSet k v ttl) = rc_set st t k v ttl"
| "rc_op_prog st t (RcIncrby k n) = andthen (rc_incrby st t k n) (\<lambda>_. Return ())"
| "rc_op_prog st t (RcSadd k ms) = andthen (rc_sadd st t k ms) (\<lambda>_. Return ())"
| "rc_op_prog st t (RcSrem k ms) = andthen (rc_srem st t k ms) (\<lambda>_. Return ())"
| "rc_op_prog st t (RcScard k) = andthen (rc_scard st t k) (\<lambda>_. Return ())"
| "rc_op_prog st t (RcExpire k ttl) = andthen (rc_expire st t k ttl) (\<lambda>_. Return ())"
| "rc_op_prog st t (RcEval script) = andthen (rc_eval st script) (\<lambda>_. Return ())"

text \<open>What the caller of \<open>eval\<close> has to see to: the script uses keys of its tenant only.\<close>

fun keys_prefixed :: "string \<Rightarrow> rc_op \<Rightarrow> bool" where
  "keys_prefixed t (RcEval script) = lua_within (range (rc_prefix t)) script"
| "keys_prefixed t _ = True"

lemma rc_prefix_inject:
  assumes "CHR '':'' \<notin> set t" "CHR '':'' \<notin> set t'"
  shows "rc_prefix t k = rc_prefix t' k' \<longleftrightarrow> t = t' \<and> k = k'"
  using assms
  by (auto simp: rc_prefix_def append_eq_append_conv2 Cons_eq_append_conv append_eq_Cons_conv)

lemma within_need_client [simp]: "prog_within Q p \<Longrightarrow> prog_within Q (need_client st p)"
  by (simp add: need_client_def)

lemma within_rc_op: "keys_prefixed t x \<Longrightarrow> prog_within (range (rc_prefix t)) (rc_op_prog st t x)"
  by (cases x)
    (auto simp: rc_get_def rc_set_def rc_incrby_def rc_sadd_def rc_srem_def rc_scard_def rc_expire_def rc_eval_def
      split: reply.splits option.splits intro!: prog_within_andthen within_need_client)

lemma run_rc_get [run_simps]:
  "str_at K (rc_prefix t k) = Some v \<Longrightarrow> v \<noteq> Some (RText []) \<Longrightarrow>
   run mem_server (rc_get True t k) [] K = (Inr v, K)"
  by (auto simp: rc_get_def need_client_def run_simps py_truthy_def split: option.splits)

lemma run_rc_eval [run_simps]:
  "run mem_server (rc_eval True l) es K = run mem_server (eval_script l Return) es K"
  by (simp add: rc_eval_def need_client_def)

subsection \<open>Properties\<close>

text \<open>
  \<^bold>\<open>C20\<close>. Tenant isolation of the key space. For two different identifiers accepted by the gate,
  no call of any method of the tenant-scoped client made for one, whatever the network does to it
  and on any server that behaves as Redis documents, changes any key that belongs to the other;
  for \<open>eval\<close>, which adds no prefix, provided its script uses keys of its own tenant only.
\<close>

theorem tenant_keys_isolated:
  assumes "redis_server sv view" "TenantId s = Inr t" "TenantId s' = Inr t'" "t \<noteq> t'"
    and "keys_prefixed t x"
  shows "ks_db (view (snd (run sv (rc_op_prog st t x) es w))) (rc_prefix t' k) = ks_db (view w) (rc_prefix t' k)"
proof -
  have "rc_prefix t' k \<notin> range (rc_prefix t)"
    using rc_prefix_inject TenantId_no_colon assms(2-4) by (auto simp: image_iff)
  from run_frame [OF within_rc_op [OF assms(5)] this] show ?thesis
    by (simp add: redis_server.run_state [OF assms(1)])
qed

theorem tenant_keys_isolated_witness:
  "ks_db (snd (run mem_server (rc_op_prog True ''acme'' (RcSadd ''n'' [''a'', ''b''])) [] empty_keyspace))
     (rc_prefix ''acme_2'' ''n'') = None \<and>
   ks_db (snd (run mem_server (rc_op_prog True ''acme'' (RcEval (LCall (DEL (rc_prefix ''acme'' ''n'')) LRet)))
     [(5, ReplyLost RedisTimeoutError)] empty_keyspace)) (rc_prefix ''acme_2'' ''n'') = None"
proof -
  have ids: "TenantId ''acme'' = Inr ''acme''" "TenantId ''acme_2'' = Inr ''acme_2''" "''acme'' \<noteq> ''acme_2''"
    by (simp_all add: TenantId_def TENANT_RE_match_def tenant_body_def is_lower_def tenant_char_def is_ascii_digit_def)
  have "keys_prefixed ''acme'' (RcSadd ''n'' [''a'', ''b''])"
    "keys_prefixed ''acme'' (RcEval (LCall (DEL (rc_prefix ''acme'' ''n'')) LRet))" by simp_all
  from this [THEN tenant_keys_isolated [OF mem.redis_server_axioms ids]]
  show ?thesis by (simp add: empty_keyspace_def del: rc_op_prog.simps)
qed

end
