(* ===== verification/Proxy_Pool.thy ===== *)
theory Proxy_Pool
  imports Proxy_Scoring Pool_Health Tenant
begin

text \<open>
  The scored pool of proxies and its manager: the table \<open>proxy_pool\<close> (migrations 001, 003 and 006),
  \<^verbatim>\<open>src/src/scraper_engine/proxy/manager.py\<close> and \<^verbatim>\<open>proxy/lease.py\<close>. Before each statement on the
  table the other processes may change it in any way, and every call may fail before or after it took
  effect. The answers of the preflight to the candidates of one search are a function: a search asks
  about no candidate twice.
\<close>

subsection \<open>The table\<close>

record pool_row =
  pp_id :: int
  pp_ip :: string
  pp_port :: int
  pp_protocol :: proxy_protocol
  pp_anonymity :: anonymity_level
  pp_asn :: asn_class
  pp_latency :: "int option"
  pp_score :: rat
  pp_failures :: int
  pp_successes :: int
  pp_validated :: "rat option"
  pp_attempts :: int
  pp_attempted :: "rat option"

definition pp_key :: "pool_row \<Rightarrow> string" where
  "pp_key r = endpoint_key (pp_ip r) (pp_port r)"

definition at_endpoint :: "string \<Rightarrow> int \<Rightarrow> pool_row \<Rightarrow> bool" where
  "at_endpoint ip port r \<longleftrightarrow> pp_ip r = ip \<and> pp_port r = port"

text \<open>\<open>UPDATE ... WHERE ip = $1 AND port = $2\<close>, and the first row of its \<open>RETURNING\<close>.\<close>

definition update_pool :: "string \<Rightarrow> int \<Rightarrow> (pool_row \<Rightarrow> pool_row) \<Rightarrow> pool_row list \<Rightarrow> pool_row list" where
  "update_pool ip port f rows = map (\<lambda>r. if at_endpoint ip port r then f r else r) rows"

definition count_success :: "string \<Rightarrow> int \<Rightarrow> rat \<Rightarrow> pool_row list \<Rightarrow> pool_row option \<times> pool_row list" where
  "count_success ip port now rows =
     (let rows' = update_pool ip port (\<lambda>r. r\<lparr>pp_successes := pp_successes r + 1, pp_validated := Some now\<rparr>) rows
      in (List.find (at_endpoint ip port) rows', rows'))"

definition count_failure :: "string \<Rightarrow> int \<Rightarrow> rat \<Rightarrow> pool_row list \<Rightarrow> pool_row option \<times> pool_row list" where
  "count_failure ip port now rows =
     (let rows' = update_pool ip port (\<lambda>r. r\<lparr>pp_failures := pp_failures r + 1\<rparr>) rows
      in (List.find (at_endpoint ip port) rows', rows'))"

definition set_score :: "rat \<Rightarrow> string \<Rightarrow> int \<Rightarrow> rat \<Rightarrow> pool_row list \<Rightarrow> unit \<times> pool_row list" where
  "set_score q ip port now rows = ((), update_pool ip port (\<lambda>r. r\<lparr>pp_score := q\<rparr>) rows)"

text \<open>\<open>ORDER BY (global_success_count > 0) DESC, reliability_score DESC\<close>, ties in the order of the table.\<close>

definition ranked :: "pool_row list \<Rightarrow> pool_row list" where
  "ranked rows = sort_key (\<lambda>r. if pp_successes r > 0 then 0 else (1 :: nat)) (sort_key (\<lambda>r. - pp_score r) rows)"

definition fresh_rows :: "rat \<Rightarrow> string list \<Rightarrow> pool_row list \<Rightarrow> pool_row list" where
  "fresh_rows min_score exclude rows = ranked (filter (\<lambda>r. min_score \<le> pp_score r \<and> pp_key r \<notin> set exclude) rows)"

definition proxy_of_row :: "pool_row \<Rightarrow> proxy" where
  "proxy_of_row r = \<lparr>px_id = pp_id r, px_ip = pp_ip r, px_port = pp_port r, px_protocol = pp_protocol r,
     px_anonymity = pp_anonymity r, px_asn_class = pp_asn r, px_reliability_score = pp_score r,
     px_username = None, px_password = None, px_source = Pool\<rparr>"

text \<open>\<open>Proxy(...)\<close> validates the score.\<close>

primrec first_candidate :: "string list \<Rightarrow> pool_row list \<Rightarrow> proxy option res" where
  "first_candidate exclude [] = Inr None"
| "first_candidate exclude (r # rs) =
     (if pp_score r < 0 \<or> 100 < pp_score r then Inl ValueError
      else if proxy_key (proxy_of_row r) \<notin> set exclude then Inr (Some (proxy_of_row r))
      else first_candidate exclude rs)"

subsection \<open>The manager's surroundings\<close>

type_synonym pool_event = "rat \<times> (pool_row list \<Rightarrow> pool_row list) \<times> fate"

record 's pool_world =
  pw_rows :: "pool_row list"
  pw_now :: rat
  pw_store :: "pool_event list"
  pw_redis :: 's
  pw_net :: "event list"

type_synonym ('s, 'a) pooled = "'s pool_world \<Rightarrow> 'a res \<times> 's pool_world"

definition preturn :: "'a \<Rightarrow> ('s, 'a) pooled" where
  "preturn a w = (Inr a, w)"

definition pthrow :: "exn \<Rightarrow> ('s, 'a) pooled" where
  "pthrow e w = (Inl e, w)"

definition pbind :: "('s, 'a) pooled \<Rightarrow> ('a \<Rightarrow> ('s, 'b) pooled) \<Rightarrow> ('s, 'b) pooled" where
  "pbind m f w = (case m w of (Inl e, w') \<Rightarrow> (Inl e, w') | (Inr a, w') \<Rightarrow> f a w')"

definition pool_sql :: "(rat \<Rightarrow> pool_row list \<Rightarrow> 'a \<times> pool_row list) \<Rightarrow> ('s, 'a) pooled" where
  "pool_sql stmt w =
     (case (case pw_store w of [] \<Rightarrow> (0, id, Answered) | e # _ \<Rightarrow> e) of (d, others, f) \<Rightarrow>
       let now = pw_now w + d; rows = others (pw_rows w);
           w1 = w\<lparr>pw_now := now, pw_rows := rows, pw_store := tl (pw_store w)\<rparr>;
           (a, rows') = stmt now rows in
       case f of Answered \<Rightarrow> (Inr a, w1\<lparr>pw_rows := rows'\<rparr>)
         | RequestLost e \<Rightarrow> (Inl e, w1) | ReplyLost e \<Rightarrow> (Inl e, w1\<lparr>pw_rows := rows'\<rparr>))"

definition pool_redis :: "'s server \<Rightarrow> 'a prog \<Rightarrow> ('s, 'a) pooled" where
  "pool_redis sv p w = (case run sv p (pw_net w) (pw_redis w) of
     (r, s) \<Rightarrow> (r, w\<lparr>pw_redis := s, pw_net := drop (trips sv p (pw_net w) (pw_redis w)) (pw_net w)\<rparr>))"

subsection \<open>The manager\<close>

definition HARVEST_KICK_KEY :: string where "HARVEST_KICK_KEY = ''proxy:harvest:kick''"
definition HARVEST_KICK_TTL_SECONDS :: int where "HARVEST_KICK_TTL_SECONDS = 30"
definition MAX_ATTEMPTS :: nat where "MAX_ATTEMPTS = 10"

record proxy_manager =
  pm_tiers :: proxy_tier_config
  pm_probe :: "proxy \<Rightarrow> bool"

definition ban_key :: "string \<Rightarrow> string \<Rightarrow> string \<Rightarrow> int \<Rightarrow> string" where
  "ban_key tenant_id domain ip port =
     ''proxy_ban:'' @ tenant_id @ '':'' @ domain @ '':'' @ ip @ '':'' @ py_str_int port"

definition exhausted_metric :: "int \<Rightarrow> string" where
  "exhausted_metric level = ''metrics:proxy_exhausted_total:'' @ py_str_int level"

definition is_banned :: "string \<Rightarrow> proxy \<Rightarrow> string \<Rightarrow> bool prog" where
  "is_banned tenant_id p domain =
     andthen (rc_get True tenant_id (ban_key tenant_id domain (px_ip p) (px_port p))) (\<lambda>v. Return (v \<noteq> None))"

text \<open>\<open>_signal_exhaustion\<close>; the message it publishes reaches nobody (the daemon polls the key).\<close>

definition signal_exhaustion :: "unit prog" where
  "signal_exhaustion = catch (call (SET HARVEST_KICK_KEY (RText ''1'') (Some (HARVEST_KICK_TTL_SECONDS * 1000)) True)
     (\<lambda>_. Return ())) (\<lambda>_. Return ())"

definition recompute_score :: "rat \<Rightarrow> pool_row \<Rightarrow> rat" where
  "recompute_score now row =
     ps_total (compute_score (pp_latency row) (compute_success_rate (pp_successes row) (pp_failures row))
       (pp_anonymity row) (pp_asn row) (map_option (\<lambda>v. now - v) (pp_validated row)))"

text \<open>The second half of \<open>mark_success\<close> and \<open>mark_failure\<close>.\<close>

definition rescore :: "string \<Rightarrow> int \<Rightarrow> pool_row option \<Rightarrow> ('s, unit) pooled" where
  "rescore ip port row w = (case row of None \<Rightarrow> (Inr (), w)
     | Some r \<Rightarrow> pool_sql (set_score (recompute_score (pw_now w) r) ip port) w)"

definition mark_success :: "string \<Rightarrow> int \<Rightarrow> ('s, unit) pooled" where
  "mark_success ip port = pbind (pool_sql (count_success ip port)) (rescore ip port)"

definition mark_failure :: "'s server \<Rightarrow> string \<Rightarrow> string \<Rightarrow> int \<Rightarrow> string \<Rightarrow> bool \<Rightarrow> ('s, unit) pooled" where
  "mark_failure sv tenant_id ip port domain ban_domain =
     pbind (if ban_domain then pool_redis sv (rc_set True tenant_id (ban_key tenant_id domain ip port) (RText ''1'') (Some 3600))
            else preturn ()) (\<lambda>_.
     pbind (pool_sql (count_failure ip port)) (rescore ip port))"

definition select_candidate :: "rat \<Rightarrow> string list \<Rightarrow> ('s, proxy option) pooled" where
  "select_candidate min_score exclude =
     pbind (pool_sql (\<lambda>now rows. (take 20 (fresh_rows min_score exclude rows), rows)))
       (\<lambda>rows w. (first_candidate exclude rows, w))"

definition tier_min_score :: "proxy_tier_config \<Rightarrow> int \<Rightarrow> rat" where
  "tier_min_score cfg level = (if level = 1 then tc_min_score_level_1 cfg else if level = 2 then tc_min_score_level_2 cfg
     else if level = 3 then tc_min_score_level_3 cfg else 50)"

definition fallback_score :: "proxy_tier_config \<Rightarrow> int \<Rightarrow> rat option" where
  "fallback_score cfg level =
     (if level = 3 \<and> tc_allow_tier2_fallback_for_tier3 cfg then Some (tc_min_score_level_2 cfg)
      else if level = 2 \<and> tc_allow_tier1_fallback_for_tier2 cfg then Some (tc_min_score_level_1 cfg) else None)"

definition pool_exhausted :: "'s server \<Rightarrow> string \<Rightarrow> int \<Rightarrow> nat \<Rightarrow> ('s, 'a) pooled" where
  "pool_exhausted sv domain level attempts =
     pbind (pool_redis sv (call (INCRBY (exhausted_metric level) 1) (\<lambda>_. Return ()))) (\<lambda>_.
     pbind (pool_redis sv signal_exhaustion) (\<lambda>_. pthrow (ProxyPoolExhaustedError domain level (int attempts))))"

text \<open>What an attempt does with the candidate it found; \<open>rest\<close> are the later attempts, \<open>n\<close> of them.\<close>

definition lease_try :: "'s server \<Rightarrow> proxy_manager \<Rightarrow> string \<Rightarrow> int \<Rightarrow> string \<Rightarrow> nat \<Rightarrow> proxy option \<Rightarrow> string list
    \<Rightarrow> (string list \<Rightarrow> ('s, proxy) pooled) \<Rightarrow> ('s, proxy) pooled" where
  "lease_try sv self tenant_id level domain n found seen rest = (case found of
     None \<Rightarrow> pool_exhausted sv domain level (MAX_ATTEMPTS - n)
   | Some p \<Rightarrow> pbind (pool_redis sv (is_banned tenant_id p domain)) (\<lambda>banned.
       if banned then rest (proxy_key p # seen)
       else if \<not> pm_probe self p
       then pbind (mark_failure sv tenant_id (px_ip p) (px_port p) domain False) (\<lambda>_. rest (proxy_key p # seen))
       else preturn p))"

text \<open>
  The loop of \<open>get_proxy\<close> with \<open>n\<close> attempts left; \<open>fallback\<close> is the score of the fallback tier until it
  is used.
\<close>

primrec lease_loop :: "'s server \<Rightarrow> proxy_manager \<Rightarrow> string \<Rightarrow> int \<Rightarrow> string \<Rightarrow> nat \<Rightarrow> rat \<Rightarrow> rat option \<Rightarrow> string list
    \<Rightarrow> ('s, proxy) pooled" where
  "lease_loop sv self tenant_id level domain 0 min_score fallback seen = pool_exhausted sv domain level MAX_ATTEMPTS"
| "lease_loop sv self tenant_id level domain (Suc n) min_score fallback seen =
     pbind (select_candidate min_score seen) (\<lambda>found.
     case (if found = None then fallback else None) of
       None \<Rightarrow> lease_try sv self tenant_id level domain n found seen
         (lease_loop sv self tenant_id level domain n min_score fallback)
     | Some score \<Rightarrow> pbind (select_candidate score seen) (\<lambda>found'.
         lease_try sv self tenant_id level domain n found' seen
           (lease_loop sv self tenant_id level domain n score None)))"

definition get_proxy :: "'s server \<Rightarrow> proxy_manager \<Rightarrow> string \<Rightarrow> int \<Rightarrow> string \<Rightarrow> ('s, proxy) pooled" where
  "get_proxy sv self tenant_id level domain =
     lease_loop sv self tenant_id level domain MAX_ATTEMPTS (tier_min_score (pm_tiers self) level)
       (fallback_score (pm_tiers self) level) []"

subsection \<open>Leases\<close>

text \<open>\<^verbatim>\<open>proxy/lease.py\<close>; \<open>now\<close> is the monotonic clock. No caller reads \<open>is_expired\<close>.\<close>

record proxy_lease =
  le_proxy :: proxy
  le_tenant :: string
  le_ttl :: rat
  le_expires :: rat
  le_released :: bool

definition new_lease :: "proxy \<Rightarrow> string \<Rightarrow> proxy_lease" where
  "new_lease p tenant_id = \<lparr>le_proxy = p, le_tenant = tenant_id, le_ttl = 120, le_expires = 0, le_released = False\<rparr>"

definition lease_enter :: "rat \<Rightarrow> proxy_lease \<Rightarrow> proxy_lease" where
  "lease_enter now l = l\<lparr>le_expires := now + le_ttl l, le_released := False\<rparr>"

definition lease_heartbeat :: "rat \<Rightarrow> proxy_lease \<Rightarrow> proxy_lease" where
  "lease_heartbeat now l = l\<lparr>le_expires := now + le_ttl l\<rparr>"

definition lease_release :: "proxy_lease \<Rightarrow> proxy_lease" where
  "lease_release l = l\<lparr>le_released := True, le_expires := 0\<rparr>"

definition is_expired :: "rat \<Rightarrow> proxy_lease \<Rightarrow> bool" where
  "is_expired now l \<longleftrightarrow> le_expires l < now"

definition remaining_seconds :: "rat \<Rightarrow> proxy_lease \<Rightarrow> rat" where
  "remaining_seconds now l = max 0 (le_expires l - now)"

lemma lease_deadman: "0 \<le> le_ttl l \<Longrightarrow> is_expired t (lease_heartbeat now l) \<longleftrightarrow> now + le_ttl l < t"
  by (simp add: is_expired_def lease_heartbeat_def)

lemma released_lease_expired: "0 < now \<Longrightarrow> is_expired now (lease_release l) \<and> remaining_seconds now (lease_release l) = 0"
  by (simp add: is_expired_def lease_release_def remaining_seconds_def)

subsection \<open>Candidates in order\<close>

text \<open>The candidates of a search, each endpoint once, in the order a search without failures meets them.\<close>

function by_endpoint :: "pool_row list \<Rightarrow> pool_row list" where
  "by_endpoint [] = []"
| "by_endpoint (r # rs) = r # by_endpoint (filter (\<lambda>x. pp_key x \<noteq> pp_key r) rs)"
  by pat_completeness auto
termination
  by (relation "measure length") (auto simp: le_imp_less_Suc)

definition search_order :: "proxy_tier_config \<Rightarrow> int \<Rightarrow> pool_row list \<Rightarrow> pool_row list" where
  "search_order cfg level rows =
     (let first = by_endpoint (fresh_rows (tier_min_score cfg level) [] rows) in
      first @ (case fallback_score cfg level of None \<Rightarrow> []
        | Some s \<Rightarrow> by_endpoint (fresh_rows s (map pp_key first) rows)))"

lemma proxy_key_row [simp]: "proxy_key (proxy_of_row r) = pp_key r"
  by (simp add: proxy_key_def proxy_of_row_def pp_key_def endpoint_key_def)

lemma set_ranked [simp]: "set (ranked rows) = set rows"
  by (simp add: ranked_def)

lemma fresh_rows_cong: "set ex = set ex' \<Longrightarrow> fresh_rows m ex rows = fresh_rows m ex' rows"
  by (simp add: fresh_rows_def)

lemma fresh_rows_Cons: "fresh_rows m (k # ex) rows = filter (\<lambda>r. pp_key r \<noteq> k) (fresh_rows m ex rows)"
  by (simp add: fresh_rows_def ranked_def filter_sort) (metis (mono_tags, lifting))

lemma fresh_rows_update:
  assumes "endpoint_key ip port \<in> set ex" "\<And>r. pp_key (f r) = pp_key r"
  shows "fresh_rows m ex (update_pool ip port f rows) = fresh_rows m ex rows"
proof -
  have "filter (\<lambda>r. m \<le> pp_score r \<and> pp_key r \<notin> set ex) (update_pool ip port f rows)
      = filter (\<lambda>r. m \<le> pp_score r \<and> pp_key r \<notin> set ex) rows"
    using assms by (induction rows) (auto simp: update_pool_def at_endpoint_def pp_key_def)
  then show ?thesis by (simp add: fresh_rows_def)
qed

definition scores_valid :: "pool_row list \<Rightarrow> bool" where
  "scores_valid rows \<longleftrightarrow> (\<forall>r\<in>set rows. 0 \<le> pp_score r \<and> pp_score r \<le> 100)"

lemma first_candidate_head:
  assumes "scores_valid rows"
  shows "first_candidate ex (take 20 (fresh_rows m ex rows)) =
    Inr (case fresh_rows m ex rows of [] \<Rightarrow> None | r # _ \<Rightarrow> Some (proxy_of_row r))"
proof (cases "fresh_rows m ex rows")
  case (Cons r rs)
  then have "r \<in> set (fresh_rows m ex rows)" by simp
  then have "0 \<le> pp_score r \<and> pp_score r \<le> 100" "pp_key r \<notin> set ex"
    using assms by (auto simp: fresh_rows_def scores_valid_def)
  then show ?thesis using Cons by (simp add: not_less)
qed simp

subsection \<open>A search that nobody disturbs\<close>

text \<open>The bans of a tenant on a domain and the counter of exhausted searches are what the client stores there.\<close>

definition bans_readable :: "string \<Rightarrow> string \<Rightarrow> int \<Rightarrow> keyspace \<Rightarrow> bool" where
  "bans_readable tenant_id domain level K \<longleftrightarrow>
     (\<forall>ip port. str_at K (rc_prefix tenant_id (ban_key tenant_id domain ip port)) \<notin> {None, Some (Some (RText []))}) \<and>
     (\<exists>v i. str_at K (exhausted_metric level) = Some v \<and> as_int v = Some i)"

definition banned_in :: "string \<Rightarrow> string \<Rightarrow> keyspace \<Rightarrow> pool_row \<Rightarrow> bool" where
  "banned_in tenant_id domain K r \<longleftrightarrow> str_at K (rc_prefix tenant_id (ban_key tenant_id domain (pp_ip r) (pp_port r))) \<noteq> Some None"

definition undisturbed :: "string \<Rightarrow> string \<Rightarrow> int \<Rightarrow> keyspace \<Rightarrow> keyspace pool_world \<Rightarrow> bool" where
  "undisturbed tenant_id domain level K w \<longleftrightarrow> pw_store w = [] \<and> pw_net w = [] \<and> pw_redis w = K \<and>
     scores_valid (pw_rows w) \<and> bans_readable tenant_id domain level K"

lemma pool_sql_alone:
  "pw_store w = [] \<Longrightarrow> pool_sql stmt w = (Inr (fst (stmt (pw_now w) (pw_rows w))), w\<lparr>pw_rows := snd (stmt (pw_now w) (pw_rows w))\<rparr>)"
  by (simp add: pool_sql_def Let_def case_prod_beta')

lemma run_is_banned:
  assumes "bans_readable t d l K"
  shows "run mem_server (is_banned t (proxy_of_row r) d) [] K = (Inr (banned_in t d K r), K)"
proof -
  let ?k = "rc_prefix t (ban_key t d (pp_ip r) (pp_port r))"
  have "str_at K ?k \<notin> {None, Some (Some (RText []))}"
    using assms by (auto simp: bans_readable_def)
  then obtain v where v: "str_at K ?k = Some v" "v \<noteq> Some (RText [])"
    by (cases "str_at K ?k") auto
  then show ?thesis
    by (simp add: is_banned_def run_andthen_Nil run_rc_get [OF v] banned_in_def proxy_of_row_def)
qed

lemma mark_failure_alone:
  assumes "undisturbed t d l K w"
  shows "\<exists>u. mark_failure mem_server t ip port d False w = (Inr (), u) \<and> undisturbed t d l K u \<and>
    (\<forall>m ex. endpoint_key ip port \<in> set ex \<longrightarrow> fresh_rows m ex (pw_rows u) = fresh_rows m ex (pw_rows w))"
proof -
  let ?inc = "\<lambda>r. r\<lparr>pp_failures := pp_failures r + 1\<rparr>"
  let ?rows = "update_pool ip port ?inc (pw_rows w)"
  have w: "pw_store w = []" using assms by (simp add: undisturbed_def)
  have valid: "scores_valid ?rows"
    using assms by (auto simp: undisturbed_def scores_valid_def update_pool_def)
  have same: "fresh_rows m ex ?rows = fresh_rows m ex (pw_rows w)" if "endpoint_key ip port \<in> set ex" for m ex
    using that by (rule fresh_rows_update) (simp add: pp_key_def)
  show ?thesis
  proof (cases "List.find (at_endpoint ip port) ?rows")
    case None
    then have "mark_failure mem_server t ip port d False w = (Inr (), w\<lparr>pw_rows := ?rows\<rparr>)"
      using w by (simp add: mark_failure_def pbind_def preturn_def pool_sql_alone count_failure_def rescore_def Let_def)
    then show ?thesis
      using assms valid same by (auto simp: undisturbed_def)
  next
    case (Some r)
    let ?q = "recompute_score (pw_now w) r"
    let ?rows' = "update_pool ip port (\<lambda>r. r\<lparr>pp_score := ?q\<rparr>) ?rows"
    have "mark_failure mem_server t ip port d False w = (Inr (), w\<lparr>pw_rows := ?rows'\<rparr>)"
      using w Some by (simp add: mark_failure_def pbind_def preturn_def pool_sql_alone count_failure_def rescore_def set_score_def Let_def)
    moreover have "scores_valid ?rows'"
      using valid by (auto simp: scores_valid_def update_pool_def recompute_score_def)
    moreover have "fresh_rows m ex ?rows' = fresh_rows m ex (pw_rows w)" if "endpoint_key ip port \<in> set ex" for m ex
      using fresh_rows_update [OF that, of "\<lambda>r. r\<lparr>pp_score := ?q\<rparr>" m ?rows] same [OF that] by (simp add: pp_key_def)
    ultimately show ?thesis
      using assms by (auto simp: undisturbed_def)
  qed
qed

lemma select_alone:
  assumes "undisturbed t d l K w"
  shows "select_candidate m ex w = (Inr (case fresh_rows m ex (pw_rows w) of [] \<Rightarrow> None | r # _ \<Rightarrow> Some (proxy_of_row r)), w)"
  using assms by (simp add: select_candidate_def pbind_def pool_sql_alone first_candidate_head undisturbed_def)

lemma exhausted_alone:
  assumes "undisturbed t d l K w"
  shows "fst (pool_exhausted mem_server d l n w) = Inl (ProxyPoolExhaustedError d l (int n))"
proof -
  obtain v i where "str_at K (exhausted_metric l) = Some v" "as_int v = Some i"
    using assms by (auto simp: undisturbed_def bans_readable_def)
  then have incr: "fst (run mem_server (call (INCRBY (exhausted_metric l) 1) (\<lambda>_. Return ())) [] K) = Inr ()"
    by (simp add: run_simps)
  have signalled: "fst (run mem_server signal_exhaustion [] K') = Inr ()" for K'
    by (simp add: signal_exhaustion_def call_def case_prod_beta' split: sum.splits)
  show ?thesis
    using assms incr signalled
    by (auto simp: pool_exhausted_def pbind_def pool_redis_def pthrow_def undisturbed_def case_prod_beta' split: sum.splits)
qed

definition good_row :: "proxy_manager \<Rightarrow> string \<Rightarrow> string \<Rightarrow> keyspace \<Rightarrow> pool_row \<Rightarrow> bool" where
  "good_row self t d K r \<longleftrightarrow> \<not> banned_in t d K r \<and> pm_probe self (proxy_of_row r)"

text \<open>One attempt: the candidate is returned, or the later attempts go on without its endpoint.\<close>

lemma lease_try_alone:
  assumes "undisturbed t d l K w"
  shows "if good_row self t d K r
    then fst (lease_try mem_server self t l d n (Some (proxy_of_row r)) seen rest w) = Inr (proxy_of_row r)
    else \<exists>u. lease_try mem_server self t l d n (Some (proxy_of_row r)) seen rest w = rest (pp_key r # seen) u \<and> undisturbed t d l K u \<and>
      (\<forall>m ex. pp_key r \<in> set ex \<longrightarrow> fresh_rows m ex (pw_rows u) = fresh_rows m ex (pw_rows w))"
proof -
  have ban: "pool_redis mem_server (is_banned t (proxy_of_row r) d) w = (Inr (banned_in t d K r), w)"
    using assms run_is_banned [of t d l K r] by (simp add: pool_redis_def undisturbed_def)
  obtain u where u: "mark_failure mem_server t (pp_ip r) (pp_port r) d False w = (Inr (), u)" "undisturbed t d l K u"
    "\<forall>m ex. pp_key r \<in> set ex \<longrightarrow> fresh_rows m ex (pw_rows u) = fresh_rows m ex (pw_rows w)"
    using mark_failure_alone [OF assms] unfolding pp_key_def by blast
  have ends: "px_ip (proxy_of_row r) = pp_ip r" "px_port (proxy_of_row r) = pp_port r"
    by (simp_all add: proxy_of_row_def)
  show ?thesis
  proof (cases "banned_in t d K r")
    case True
    then show ?thesis using assms ban by (auto simp: lease_try_def pbind_def good_row_def)
  next
    case False
    then show ?thesis using ban u ends by (auto simp: lease_try_def pbind_def preturn_def good_row_def)
  qed
qed

definition search_answer :: "proxy_manager \<Rightarrow> string \<Rightarrow> int \<Rightarrow> string \<Rightarrow> keyspace \<Rightarrow> nat \<Rightarrow> pool_row list \<Rightarrow> proxy res" where
  "search_answer self t l d K n order = (case List.find (good_row self t d K) (take n order) of
     Some r \<Rightarrow> Inr (proxy_of_row r)
   | None \<Rightarrow> Inl (ProxyPoolExhaustedError d l (if length order < n then int (MAX_ATTEMPTS - n + length order + 1) else int MAX_ATTEMPTS)))"

lemma search_answer_Cons:
  assumes "Suc n \<le> MAX_ATTEMPTS"
  shows "search_answer self t l d K (Suc n) (r # order) =
    (if good_row self t d K r then Inr (proxy_of_row r) else search_answer self t l d K n order)"
  using assms by (auto simp: search_answer_def split: option.splits)

lemma loop_without_fallback:
  assumes "undisturbed t d l K w" "n \<le> MAX_ATTEMPTS"
  shows "fst (lease_loop mem_server self t l d n m None seen w)
    = search_answer self t l d K n (by_endpoint (fresh_rows m seen (pw_rows w)))"
  using assms
proof (induction n arbitrary: seen w)
  case 0
  then show ?case
    using exhausted_alone [OF 0(1)] by (simp add: search_answer_def)
next
  case (Suc n)
  show ?case
  proof (cases "fresh_rows m seen (pw_rows w)")
    case Nil
    then show ?thesis
      using Suc.prems
      by (simp add: exhausted_alone [OF Suc.prems(1)] select_alone [OF Suc.prems(1)] pbind_def lease_try_def search_answer_def of_nat_diff)
  next
    case (Cons r rs)
    let ?rest = "lease_loop mem_server self t l d n m None"
    have go: "lease_loop mem_server self t l d (Suc n) m None seen w = lease_try mem_server self t l d n (Some (proxy_of_row r)) seen ?rest w"
      using Cons by (simp add: select_alone [OF Suc.prems(1)] pbind_def)
    have order: "by_endpoint (fresh_rows m seen (pw_rows w)) = r # by_endpoint (fresh_rows m (pp_key r # seen) (pw_rows w))"
      using Cons by (simp add: fresh_rows_Cons)
    show ?thesis
    proof (cases "good_row self t d K r")
      case True
      then show ?thesis
        using lease_try_alone [OF Suc.prems(1), where r = r and rest = ?rest and n = n and seen = seen and self = self] Suc.prems(2) go order
        by (simp add: search_answer_Cons)
    next
      case False
      then obtain u where u: "lease_try mem_server self t l d n (Some (proxy_of_row r)) seen ?rest w = ?rest (pp_key r # seen) u"
        "undisturbed t d l K u" "fresh_rows m (pp_key r # seen) (pw_rows u) = fresh_rows m (pp_key r # seen) (pw_rows w)"
        using lease_try_alone [OF Suc.prems(1), where r = r and rest = ?rest and n = n and seen = seen and self = self] by auto
      then show ?thesis
        using Suc.IH [OF u(2), of "pp_key r # seen"] Suc.prems(2) go order False by (simp add: search_answer_Cons)
    qed
  qed
qed

lemma loop_with_fallback:
  assumes "undisturbed t d l K w" "n \<le> MAX_ATTEMPTS"
  shows "fst (lease_loop mem_server self t l d n m (Some s) seen w) = search_answer self t l d K n
    (let first = by_endpoint (fresh_rows m seen (pw_rows w)) in first @ by_endpoint (fresh_rows s (map pp_key first @ seen) (pw_rows w)))"
  using assms
proof (induction n arbitrary: seen w)
  case 0
  then show ?case
    using exhausted_alone [OF 0(1)] by (simp add: search_answer_def)
next
  case (Suc n)
  show ?case
  proof (cases "fresh_rows m seen (pw_rows w)")
    case Nil
    then have "lease_loop mem_server self t l d (Suc n) m (Some s) seen w = lease_loop mem_server self t l d (Suc n) s None seen w"
      by (simp add: select_alone [OF Suc.prems(1)] pbind_def)
    then show ?thesis
      using Nil loop_without_fallback [OF Suc.prems] by simp
  next
    case (Cons r rs)
    let ?rest = "lease_loop mem_server self t l d n m (Some s)"
    let ?more = "\<lambda>ex rows. let first = by_endpoint (fresh_rows m ex rows) in first @ by_endpoint (fresh_rows s (map pp_key first @ ex) rows)"
    have go: "lease_loop mem_server self t l d (Suc n) m (Some s) seen w = lease_try mem_server self t l d n (Some (proxy_of_row r)) seen ?rest w"
      using Cons by (simp add: select_alone [OF Suc.prems(1)] pbind_def)
    have order: "?more seen (pw_rows w) = r # ?more (pp_key r # seen) (pw_rows w)"
    proof -
      let ?first = "by_endpoint (fresh_rows m (pp_key r # seen) (pw_rows w))"
      have "by_endpoint (fresh_rows m seen (pw_rows w)) = r # ?first"
        using Cons by (simp add: fresh_rows_Cons)
      moreover have "fresh_rows s (map pp_key (r # ?first) @ seen) (pw_rows w) = fresh_rows s (map pp_key ?first @ pp_key r # seen) (pw_rows w)"
        by (rule fresh_rows_cong) auto
      ultimately show ?thesis by (simp add: Let_def)
    qed
    show ?thesis
    proof (cases "good_row self t d K r")
      case True
      then show ?thesis
        using lease_try_alone [OF Suc.prems(1), where r = r and rest = ?rest and n = n and seen = seen and self = self] Suc.prems(2) go order
        by (simp add: search_answer_Cons)
    next
      case False
      then obtain u where u: "lease_try mem_server self t l d n (Some (proxy_of_row r)) seen ?rest w = ?rest (pp_key r # seen) u"
        "undisturbed t d l K u" "\<forall>m ex. pp_key r \<in> set ex \<longrightarrow> fresh_rows m ex (pw_rows u) = fresh_rows m ex (pw_rows w)"
        using lease_try_alone [OF Suc.prems(1), where r = r and rest = ?rest and n = n and seen = seen and self = self] by auto
      then have "?more (pp_key r # seen) (pw_rows u) = ?more (pp_key r # seen) (pw_rows w)"
        by (simp add: Let_def)
      then show ?thesis
        using Suc.IH [OF u(2), of "pp_key r # seen"] Suc.prems(2) go order u(1) False by (simp add: search_answer_Cons)
    qed
  qed
qed

lemma search_order_simps:
  "fallback_score cfg level = None \<Longrightarrow> search_order cfg level rows = by_endpoint (fresh_rows (tier_min_score cfg level) [] rows)"
  "fallback_score cfg level = Some s \<Longrightarrow> search_order cfg level rows = (let first = by_endpoint (fresh_rows (tier_min_score cfg level) [] rows)
     in first @ by_endpoint (fresh_rows s (map pp_key first @ []) rows))"
  by (simp_all add: search_order_def Let_def)

lemma set_by_endpoint: "set (by_endpoint rows) \<subseteq> set rows"
  by (induction rows rule: by_endpoint.induct) auto

lemma search_order_member:
  assumes "r \<in> set (search_order cfg level rows)"
  shows "r \<in> set rows" "tier_min_score cfg level \<le> pp_score r \<or> (\<exists>s. fallback_score cfg level = Some s \<and> s \<le> pp_score r)"
  using assms set_by_endpoint unfolding search_order_def
  by (fastforce simp: Let_def fresh_rows_def split: option.splits)+

text \<open>A domain ban lasts an hour.\<close>

lemma ban_lasts:
  assumes "run mem_server (rc_set True t (ban_key t d (pp_ip r) (pp_port r)) (RText ''1'') (Some 3600)) [] K = (Inr (), K')"
  shows "banned_in t d (ks_wait ms K') r \<longleftrightarrow> ms \<le> 3600000"
proof -
  let ?k = "rc_prefix t (ban_key t d (pp_ip r) (pp_port r))"
  have "K' = put_str ?k (RText ''1'') (Some (ks_now K + 3600000)) K"
    using assms by (simp add: rc_set_def need_client_def run_simps)
  then show ?thesis
    by (auto simp: banned_in_def str_at_def live_def put_str_def put_def alive_def ks_now_def ks_wait_def split: option.splits)
qed

lemma get_proxy_answer:
  assumes "undisturbed t d l K w"
  shows "fst (get_proxy mem_server self t l d w) = search_answer self t l d K MAX_ATTEMPTS (search_order (pm_tiers self) l (pw_rows w))"
proof (cases "fallback_score (pm_tiers self) l")
  case None
  then show ?thesis
    using loop_without_fallback [OF assms order_refl] by (simp add: get_proxy_def search_order_simps)
next
  case (Some s)
  then show ?thesis
    using loop_with_fallback [OF assms order_refl, of self "tier_min_score (pm_tiers self) l" s "[]"]
    by (simp add: get_proxy_def search_order_simps)
qed

lemma find_good_row:
  "List.find (good_row self t d K) xs = List.find (\<lambda>r. \<not> banned_in t d K r \<and> pm_probe self (proxy_of_row r)) xs"
  by (rule arg_cong2 [where f = List.find]) (auto simp: good_row_def)

section \<open>Properties\<close>

text \<open>
  \<^bold>\<open>C33\<close>: a search that nobody disturbs returns the first of the ten best candidates that is neither
  banned for the domain nor dead, proven proxies before untested ones and higher scores first, the
  tier's own candidates before those of the fallback tier; otherwise it reports the pool exhausted.
\<close>

theorem get_proxy_search:
  assumes "pw_store w = []" "pw_net w = []" "scores_valid (pw_rows w)" "bans_readable t d l (pw_redis w)"
  shows "fst (get_proxy mem_server self t l d w) =
    (let order = search_order (pm_tiers self) l (pw_rows w) in
     case List.find (\<lambda>r. \<not> banned_in t d (pw_redis w) r \<and> pm_probe self (proxy_of_row r)) (take 10 order) of
       Some r \<Rightarrow> Inr (proxy_of_row r)
     | None \<Rightarrow> Inl (ProxyPoolExhaustedError d l (if length order < 10 then int (length order + 1) else 10)))"
proof -
  have u: "undisturbed t d l (pw_redis w) w"
    using assms by (simp add: undisturbed_def)
  show ?thesis
    using get_proxy_answer [OF u, of self] by (simp add: search_answer_def find_good_row MAX_ATTEMPTS_def Let_def cong: if_cong option.case_cong)
qed

definition demo_row :: "string \<Rightarrow> rat \<Rightarrow> int \<Rightarrow> pool_row" where
  "demo_row ip score successes = \<lparr>pp_id = 1, pp_ip = ip, pp_port = 80, pp_protocol = P_HTTP, pp_anonymity = ELITE,
     pp_asn = ASN_UNKNOWN, pp_latency = Some 500, pp_score = score, pp_failures = 0, pp_successes = successes,
     pp_validated = Some 0, pp_attempts = 0, pp_attempted = None\<rparr>"

definition demo_pool :: "keyspace pool_world" where
  "demo_pool = \<lparr>pw_rows = [demo_row ''untested'' 95 0, demo_row ''dead'' 80 2, demo_row ''proven'' 75 3, demo_row ''poor'' 50 9],
     pw_now = 100, pw_store = [], pw_redis = empty_keyspace, pw_net = []\<rparr>"

definition demo_manager :: proxy_manager where
  "demo_manager = \<lparr>pm_tiers = proxy_tier_defaults, pm_probe = \<lambda>p. px_ip p \<noteq> ''dead''\<rparr>"

lemma empty_bans_readable: "bans_readable t d l empty_keyspace"
  by (simp add: bans_readable_def empty_keyspace_def str_at_def live_def as_int_def)

theorem get_proxy_search_witness:
  "fst (get_proxy mem_server demo_manager ''acme'' 2 ''shop.example'' demo_pool) = Inr (proxy_of_row (demo_row ''proven'' 75 3))"
proof -
  have "search_order (pm_tiers demo_manager) 2 (pw_rows demo_pool) =
      [demo_row ''dead'' 80 2, demo_row ''proven'' 75 3, demo_row ''untested'' 95 0]"
    by code_simp
  moreover have "\<not> banned_in ''acme'' ''shop.example'' (pw_redis demo_pool) r" for r
    by (simp add: banned_in_def demo_pool_def empty_keyspace_def str_at_def live_def)
  moreover have "\<not> pm_probe demo_manager (proxy_of_row (demo_row ''dead'' 80 2))" "pm_probe demo_manager (proxy_of_row (demo_row ''proven'' 75 3))"
    by (simp_all add: demo_manager_def proxy_of_row_def demo_row_def)
  ultimately show ?thesis
    by (subst get_proxy_search)
      (simp_all add: demo_pool_def scores_valid_def demo_row_def [of _ _ 0] empty_bans_readable, simp_all add: demo_row_def)
qed

subsection \<open>What a search does not promise\<close>

text \<open>
  Bans count as attempts: with the ten best candidates banned for the domain the pool is reported
  exhausted, although the next candidate is neither banned nor dead.
\<close>

lemma bans_exhaust_search:
  assumes "undisturbed t d l K w" "search_order (pm_tiers self) l (pw_rows w) = order" "10 \<le> length order"
    and "\<And>r. r \<in> set (take 10 order) \<Longrightarrow> banned_in t d K r"
  shows "fst (get_proxy mem_server self t l d w) = Inl (ProxyPoolExhaustedError d l 10)"
proof -
  have "List.find (good_row self t d K) (take 10 order) = None"
    using assms(4) by (auto simp: find_None_iff good_row_def)
  then show ?thesis
    using get_proxy_answer [OF assms(1), of self] assms(2,3) by (simp add: search_answer_def MAX_ATTEMPTS_def)
qed
end
