(* ===== verification/Proxy_Harvest.thy ===== *)
theory Proxy_Harvest
  imports Proxy_Pool
begin

text \<open>
  Finding proxies: the parsers, the validation through a judge and the harvest cycle of
  \<^verbatim>\<open>src/src/scraper_engine/proxy/harvester.py\<close>, the classifier of \<^verbatim>\<open>proxy/asn_classifier.py\<close>, the
  probes of \<^verbatim>\<open>proxy/net_probe.py\<close> and the signal of \<^verbatim>\<open>proxy/source_health.py\<close>. What the network
  answers is an argument: the sources' bodies, the judges' responses, host names, and the output of
  the subprocess that runs the third-party broker.
\<close>

subsection \<open>Reading numbers and addresses\<close>

text \<open>\<open>s.split(sep)\<close> for one character, and \<open>s.rsplit(sep, 1)\<close>, \<open>None\<close> if it does not occur.\<close>

primrec split_on :: "char \<Rightarrow> string \<Rightarrow> string list" where
  "split_on c [] = [[]]"
| "split_on c (x # xs) = (if x = c then [] # split_on c xs
     else (case split_on c xs of [] \<Rightarrow> [[x]] | w # ws \<Rightarrow> (x # w) # ws))"

definition rsplit_once :: "char \<Rightarrow> string \<Rightarrow> (string \<times> string) option" where
  "rsplit_once c s = (if c \<in> set s
     then Some (rev (tl (dropWhile (\<lambda>x. x \<noteq> c) (rev s))), rev (takeWhile (\<lambda>x. x \<noteq> c) (rev s))) else None)"

text \<open>\<open>int(text)\<close>: surrounding space, a sign, digits with single underscores between them.\<close>

fun digit_groups :: "string \<Rightarrow> bool" where
  "digit_groups [] = False"
| "digit_groups [c] = is_ascii_digit c"
| "digit_groups (c # d # cs) = (is_ascii_digit c \<and> (if d = CHR ''_'' then digit_groups cs else digit_groups (d # cs)))"

definition port_of_text :: "string \<Rightarrow> int res" where
  "port_of_text s = (let t = py_strip s;
       neg = (case t of c # _ \<Rightarrow> c = CHR ''-'' | [] \<Rightarrow> False);
       body = (case t of c # cs \<Rightarrow> if c \<in> {CHR ''-'', CHR ''+''} then cs else t | [] \<Rightarrow> []) in
     if digit_groups body
     then Inr ((if neg then - 1 else 1) * int (digits_value 0 (filter (\<lambda>c. c \<noteq> CHR ''_'') body)))
     else Inl ValueError)"

text \<open>The pattern of four groups of one to three digits.\<close>

definition octet_text :: "string \<Rightarrow> bool" where
  "octet_text s \<longleftrightarrow> 1 \<le> length s \<and> length s \<le> 3 \<and> (\<forall>c\<in>set s. is_ascii_digit c)"

definition ipv4_text :: "string \<Rightarrow> bool" where
  "ipv4_text s \<longleftrightarrow> length (split_on CHR ''.'' s) = 4 \<and> (\<forall>w\<in>set (split_on CHR ''.'' s). octet_text w)"

subsection \<open>The parsers\<close>

definition parse_line :: "string \<Rightarrow> (string \<times> int \<times> string) option" where
  "parse_line raw = (let line = py_strip raw in
     case rsplit_once CHR '':'' line of None \<Rightarrow> None
     | Some (ip, port_str) \<Rightarrow> (case port_of_text port_str of Inl _ \<Rightarrow> None
       | Inr port \<Rightarrow> if ipv4_text ip then Some (ip, port, ''HTTP'') else None))"

definition parse_ip_port :: "string \<Rightarrow> nat \<Rightarrow> (string \<times> int \<times> string) list" where
  "parse_ip_port txt limit = List.map_filter parse_line (take (limit * 2) (split_on newline txt))"

text \<open>\<open>x in protocols\<close>, \<open>int(port)\<close> and truth of a decoded value; exceptions of other values are errors.\<close>

definition json_has :: "json \<Rightarrow> string \<Rightarrow> bool res" where
  "json_has j s = (case j of JList xs \<Rightarrow> Inr (JStr s \<in> set xs) | JStr t \<Rightarrow> Inr (contains t s)
     | JObj fs \<Rightarrow> Inr (s \<in> fst ` set fs) | _ \<Rightarrow> Inl (OtherError ''TypeError''))"

fun json_falsy :: "json \<Rightarrow> bool" where
  "json_falsy (JInt i) = (i = 0)"
| "json_falsy (JNum q) = (q = 0)"
| "json_falsy (JBool b) = (\<not> b)"
| "json_falsy (JStr s) = (s = [])"
| "json_falsy (JList xs) = (xs = [])"
| "json_falsy (JObj fs) = (fs = [])"
| "json_falsy JNull = True"

fun json_int :: "json \<Rightarrow> int res" where
  "json_int (JInt i) = Inr i"
| "json_int (JBool b) = Inr (if b then 1 else 0)"
| "json_int (JNum q) = Inr (if 0 \<le> q then floor q else ceiling q)"
| "json_int (JStr s) = port_of_text s"
| "json_int _ = Inl (OtherError ''TypeError'')"

definition field_or :: "(string \<times> json) list \<Rightarrow> string \<Rightarrow> json \<Rightarrow> json" where
  "field_or fs k d = (case map_of fs k of Some j \<Rightarrow> j | None \<Rightarrow> d)"

definition parse_geonode_entry :: "json \<Rightarrow> (string \<times> int \<times> string) option res" where
  "parse_geonode_entry entry = (case entry of
     JObj fs \<Rightarrow>
       (let ip = field_or fs ''ip'' (JStr []); port = field_or fs ''port'' (JInt 0); protocols = field_or fs ''protocols'' (JList []) in
        case json_has protocols ''http'' of Inl e \<Rightarrow> Inl e
        | Inr has_http \<Rightarrow> (case json_has protocols ''https'' of Inl e \<Rightarrow> Inl e
          | Inr has_https \<Rightarrow>
            let proto = (if has_http then ''HTTP'' else if has_https then ''HTTPS'' else ''HTTP'') in
            if json_falsy ip \<or> json_falsy port then Inr None
            else (case ip of JStr s \<Rightarrow>
                if ipv4_text s then (case json_int port of Inl e \<Rightarrow> Inl e | Inr p \<Rightarrow> Inr (Some (s, p, proto))) else Inr None
              | _ \<Rightarrow> Inl (OtherError ''TypeError''))))
   | _ \<Rightarrow> Inl (OtherError ''AttributeError''))"

primrec parse_geonode_entries :: "json list \<Rightarrow> (string \<times> int \<times> string) list res" where
  "parse_geonode_entries [] = Inr []"
| "parse_geonode_entries (e # es) = (case parse_geonode_entry e of Inl x \<Rightarrow> Inl x
     | Inr found \<Rightarrow> (case parse_geonode_entries es of Inl x \<Rightarrow> Inl x
       | Inr ps \<Rightarrow> Inr ((case found of None \<Rightarrow> [] | Some p \<Rightarrow> [p]) @ ps)))"

definition parse_geonode :: "json \<Rightarrow> nat \<Rightarrow> (string \<times> int \<times> string) list res" where
  "parse_geonode data limit = (case data of
     JObj fs \<Rightarrow> (case field_or fs ''data'' (JList []) of
        JList es \<Rightarrow> parse_geonode_entries (take (limit * 2) es)
      | JStr t \<Rightarrow> if take (limit * 2) t = [] then Inr [] else Inl (OtherError ''AttributeError'')
      | _ \<Rightarrow> Inl (OtherError ''TypeError''))
   | _ \<Rightarrow> Inl (OtherError ''AttributeError''))"

subsection \<open>Probes and validation\<close>

text \<open>
  What a judge answers: \<open>None\<close> when the request raised, otherwise a status, the decoded body, the
  three headers that give a proxy away and the milliseconds of this request.
\<close>

record judge_reply =
  jr_status :: int
  jr_body :: "json res"
  jr_via :: string
  jr_forwarded :: string
  jr_proxy_connection :: string
  jr_ms :: int

definition JUDGE_URLS :: "string list" where
  "JUDGE_URLS = [''http://httpbingo.org/ip'', ''http://api.ipify.org?format=json'', ''http://postman-echo.com/ip'']"

definition VALID_BODY_KEYS :: "string list" where
  "VALID_BODY_KEYS = [''origin'', ''ip'', ''headers'']"

text \<open>\<open>any(key in data for key in ...)\<close>; a body that has no members raises, and the check is given up.\<close>

primrec any_key :: "json \<Rightarrow> string list \<Rightarrow> bool res" where
  "any_key data [] = Inr False"
| "any_key data (k # ks) = (case json_has data k of Inl e \<Rightarrow> Inl e | Inr True \<Rightarrow> Inr True | Inr False \<Rightarrow> any_key data ks)"

primrec first_judge :: "(string \<Rightarrow> judge_reply option) \<Rightarrow> string list \<Rightarrow> judge_reply option" where
  "first_judge ask [] = None"
| "first_judge ask (url # urls) = (case ask url of
     None \<Rightarrow> first_judge ask urls
   | Some r \<Rightarrow> if jr_status r \<noteq> 200 then first_judge ask urls
       else (case jr_body r of Inl _ \<Rightarrow> first_judge ask urls
         | Inr data \<Rightarrow> (case any_key data VALID_BODY_KEYS of
             Inl _ \<Rightarrow> None | Inr True \<Rightarrow> Some r | Inr False \<Rightarrow> first_judge ask urls)))"

definition http_validate :: "(string \<Rightarrow> judge_reply option) \<Rightarrow> bool \<times> anonymity_level \<times> int option" where
  "http_validate ask = (case first_judge ask JUDGE_URLS of
     None \<Rightarrow> (False, TRANSPARENT, None)
   | Some r \<Rightarrow> (True,
       (if jr_via r = [] \<and> jr_forwarded r = [] \<and> jr_proxy_connection r = [] then ELITE
        else if jr_forwarded r = [] then ANONYMOUS else TRANSPARENT), Some (jr_ms r)))"

definition LEASE_CHECK_URLS :: "string list" where
  "LEASE_CHECK_URLS = [''https://httpbingo.org/ip'', ''https://api.ipify.org?format=json'', ''https://postman-echo.com/ip'']"

text \<open>\<open>http_probe\<close> and \<open>lease_preflight\<close>: \<open>ask\<close> gives the status of a GET through the proxy, \<open>None\<close> if it raised.\<close>

definition http_probe :: "(string \<Rightarrow> int option) \<Rightarrow> bool" where
  "http_probe ask \<longleftrightarrow> list_ex (\<lambda>url. ask url = Some 200) LEASE_CHECK_URLS"

definition lease_preflight :: "bool \<Rightarrow> (string \<Rightarrow> int option) \<Rightarrow> bool" where
  "lease_preflight tcp ask \<longleftrightarrow> tcp \<and> http_probe ask"

definition DATACENTER_KEYWORDS :: "string list" where
  "DATACENTER_KEYWORDS = [''amazon'', ''aws'', ''google'', ''microsoft'', ''azure'', ''digitalocean'', ''linode'', ''vultr'',
     ''ovh'', ''hetzner'', ''oracle'', ''cloudflare'', ''akamai'', ''fastly'', ''alibaba'', ''tencent'', ''scaleway'', ''contabo'',
     ''leaseweb'', ''hosting'', ''datacenter'', ''data center'', ''colocation'', ''server'']"

definition MOBILE_KEYWORDS :: "string list" where
  "MOBILE_KEYWORDS = [''mobile'', ''wireless'', ''cellular'', ''t-mobile'', ''verizon wireless'', ''vodafone'', ''airtel'', ''jio'', ''cellco'']"

text \<open>The host name of an address, \<open>None\<close> when the lookup failed or timed out.\<close>

definition classify_asn :: "string \<Rightarrow> string option \<Rightarrow> string" where
  "classify_asn ip hostname = (case hostname of None \<Rightarrow> ''unknown''
   | Some h0 \<Rightarrow> let h = py_lower h0 in
     if h = ip then ''unknown''
     else if list_ex (contains h) MOBILE_KEYWORDS then ''mobile''
     else if list_ex (contains h) DATACENTER_KEYWORDS then ''datacenter''
     else ''residential'')"

subsection \<open>Writing a candidate\<close>

definition SCORE_TCP_ONLY :: rat where "SCORE_TCP_ONLY = 25"

record reading =
  rd_ip :: string
  rd_port :: int
  rd_protocol :: proxy_protocol
  rd_anonymity :: anonymity_level
  rd_asn :: asn_class
  rd_latency :: "int option"
  rd_score :: rat

definition same_proxy :: "reading \<Rightarrow> pool_row \<Rightarrow> bool" where
  "same_proxy x r \<longleftrightarrow> pp_ip r = rd_ip x \<and> pp_port r = rd_port x \<and> pp_protocol r = rd_protocol x"

definition track_record :: "string \<Rightarrow> int \<Rightarrow> proxy_protocol \<Rightarrow> pool_row list \<Rightarrow> (int \<times> int) option" where
  "track_record ip port proto rows = map_option (\<lambda>r. (pp_successes r, pp_failures r))
     (List.find (\<lambda>r. pp_ip r = ip \<and> pp_port r = port \<and> pp_protocol r = proto) rows)"

text \<open>\<open>INSERT ... ON CONFLICT (ip, port, protocol) DO UPDATE\<close>; \<open>ident\<close> is the sequence's next number.\<close>

definition upsert_proxy :: "int \<Rightarrow> reading \<Rightarrow> rat \<Rightarrow> pool_row list \<Rightarrow> unit \<times> pool_row list" where
  "upsert_proxy ident x now rows = ((),
     if list_ex (same_proxy x) rows
     then map (\<lambda>r. if same_proxy x r
       then r\<lparr>pp_score := rd_score x, pp_anonymity := rd_anonymity x, pp_asn := rd_asn x, pp_latency := rd_latency x, pp_validated := Some now\<rparr>
       else r) rows
     else rows @ [\<lparr>pp_id = ident, pp_ip = rd_ip x, pp_port = rd_port x, pp_protocol = rd_protocol x, pp_anonymity = rd_anonymity x,
       pp_asn = rd_asn x, pp_latency = rd_latency x, pp_score = rd_score x, pp_failures = 0, pp_successes = 0,
       pp_validated = Some now, pp_attempts = 0, pp_attempted = None\<rparr>])"

definition rate_of :: "(int \<times> int) option \<Rightarrow> rat option" where
  "rate_of existing = (case existing of Some (s, f) \<Rightarrow> compute_success_rate s f | None \<Rightarrow> None)"

text \<open>What the network shows about a candidate: the TCP probe, the judges, the host name of its address.
  The candidates of a source are told apart by how many follow.\<close>

record sighting =
  sg_tcp :: bool
  sg_judge :: "string \<Rightarrow> judge_reply option"
  sg_hostname :: "string option"
  sg_ident :: int

definition protocol_of_text :: "string \<Rightarrow> proxy_protocol" where
  "protocol_of_text s = (if s = ''HTTPS'' then P_HTTPS else P_HTTP)"

text \<open>The body of the loop of \<open>_scrape_one\<close> for one candidate: whether it was written.\<close>

definition store_candidate :: "sighting \<Rightarrow> string \<times> int \<times> string \<Rightarrow> ('s, bool) pooled" where
  "store_candidate sg cand w = (case cand of (ip, port, proto_text) \<Rightarrow>
     let proto = protocol_of_text proto_text in
     if \<not> sg_tcp sg then (Inr False, w)
     else (case http_validate (sg_judge sg) of (is_valid, anonymity, latency_ms) \<Rightarrow>
       let write = (\<lambda>asn score w1. (case pool_sql (upsert_proxy (sg_ident sg) \<lparr>rd_ip = ip, rd_port = port, rd_protocol = proto,
           rd_anonymity = anonymity, rd_asn = asn, rd_latency = (if is_valid then latency_ms else None), rd_score = score\<rparr>) w1 of
             (Inl _, w2) \<Rightarrow> (Inr False, w2) | (Inr _, w2) \<Rightarrow> (Inr True, w2))) in
       if is_valid
       then (let asn = to_asn_class (classify_asn ip (sg_hostname sg)) in
         pbind (pool_sql (\<lambda>now rows. (track_record ip port proto rows, rows)))
           (\<lambda>existing. write asn (score_validation latency_ms anonymity asn (rate_of existing))) w)
       else write ASN_UNKNOWN SCORE_TCP_ONLY w))"

primrec store_candidates :: "(nat \<Rightarrow> sighting) \<Rightarrow> nat \<Rightarrow> (string \<times> int \<times> string) list \<Rightarrow> nat \<Rightarrow> ('s, nat) pooled" where
  "store_candidates see limit [] n = preturn n"
| "store_candidates see limit (c # cs) n = pbind (store_candidate (see (length cs)) c) (\<lambda>written.
     if written then (if limit \<le> n + 1 then preturn (n + 1) else store_candidates see limit cs (n + 1))
     else store_candidates see limit cs n)"

subsection \<open>The sources\<close>

datatype source_format = Ip_Port | Geonode_Json

text \<open>What a source answers: an error of the request, or a text or decoded body; a body that does not decode raises.\<close>

record source_reply =
  so_failed :: bool
  so_text :: string
  so_json :: "json res"

definition SOURCES :: "(string \<times> source_format) list" where
  "SOURCES = [(''proxyscrape_http'', Ip_Port), (''proxyscrape_https'', Ip_Port), (''geonode'', Geonode_Json),
     (''openproxylist'', Ip_Port), (''thespeedx_github'', Ip_Port), (''monosans_github'', Ip_Port), (''pubproxy'', Ip_Port),
     (''proxyscrape_getproxies'', Ip_Port), (''clarketm_github'', Ip_Port), (''sunny9577_github'', Ip_Port)]"

definition MIN_PER_SOURCE :: nat where "MIN_PER_SOURCE = 10"

definition scrape_one :: "(nat \<Rightarrow> sighting) \<Rightarrow> source_reply \<Rightarrow> source_format \<Rightarrow> nat \<Rightarrow> ('s, nat) pooled" where
  "scrape_one see reply fmt limit =
     (if so_failed reply then preturn 0
      else (case (case fmt of Ip_Port \<Rightarrow> Inr (parse_ip_port (so_text reply) limit)
                | Geonode_Json \<Rightarrow> (case so_json reply of Inl e \<Rightarrow> Inl e | Inr data \<Rightarrow> parse_geonode data limit)) of
          Inl e \<Rightarrow> pthrow e
        | Inr proxies \<Rightarrow> store_candidates see limit proxies 0))"

definition source_key :: "string \<Rightarrow> string" where
  "source_key name = ''metrics:proxy_source_healthy:'' @ name"

definition record_source_health :: "string \<Rightarrow> nat \<Rightarrow> unit prog" where
  "record_source_health name n = call (SET (source_key name) (RText (if 0 < n then ''1'' else ''0'')) None False) (\<lambda>_. Return ())"

primrec direct_scrape :: "'s server \<Rightarrow> (string \<Rightarrow> nat \<Rightarrow> sighting) \<Rightarrow> (string \<Rightarrow> source_reply) \<Rightarrow> nat \<Rightarrow> (string \<times> source_format) list \<Rightarrow> nat
    \<Rightarrow> ('s, nat) pooled" where
  "direct_scrape sv see replies limit [] n = preturn n"
| "direct_scrape sv see replies limit (src # srcs) n = (case src of (name, fmt) \<Rightarrow>
     pbind (scrape_one (see name) (replies name) fmt (max (limit - n) MIN_PER_SOURCE)) (\<lambda>k.
     pbind (pool_redis sv (record_source_health name k)) (\<lambda>_.
     direct_scrape sv see replies limit srcs (n + k))))"

subsection \<open>The broker\<close>

definition broker_protocol :: "string \<Rightarrow> proxy_protocol" where
  "broker_protocol proto_str =
     (if contains proto_str ''HTTP'' then P_HTTP else if contains proto_str ''HTTPS'' then P_HTTPS else P_SOCKS5)"

text \<open>
  One entry of the subprocess's output (host, port, types): whether it was written. Whatever an entry
  raises is swallowed; the classifier never raises.
\<close>

definition store_broker_entry :: "sighting \<Rightarrow> string \<times> int \<times> string list \<Rightarrow> ('s, bool) pooled" where
  "store_broker_entry sg entry w = (case entry of (ip, port, types) \<Rightarrow>
     let proto = broker_protocol (case types of [] \<Rightarrow> ''HTTP'' | t # _ \<Rightarrow> t);
         asn = to_asn_class (classify_asn ip (sg_hostname sg)) in
     case http_validate (sg_judge sg) of (is_valid, anonymity, latency_ms) \<Rightarrow>
     if \<not> is_valid then (Inr False, w)
     else (case pbind (pool_sql (\<lambda>now rows. (track_record ip port proto rows, rows))) (\<lambda>existing.
           pool_sql (upsert_proxy (sg_ident sg) \<lparr>rd_ip = ip, rd_port = port, rd_protocol = proto, rd_anonymity = anonymity,
             rd_asn = asn, rd_latency = latency_ms, rd_score = score_validation latency_ms anonymity asn (rate_of existing)\<rparr>)) w of
         (Inl _, w') \<Rightarrow> (Inr False, w') | (Inr _, w') \<Rightarrow> (Inr True, w')))"

primrec store_broker_entries :: "(nat \<Rightarrow> sighting) \<Rightarrow> (string \<times> int \<times> string list) list \<Rightarrow> nat \<Rightarrow> ('s, nat) pooled" where
  "store_broker_entries see [] n = preturn n"
| "store_broker_entries see (e # es) n = pbind (store_broker_entry (see (length es)) e)
     (\<lambda>written. store_broker_entries see es (if written then n + 1 else n))"

text \<open>\<open>harvest_once\<close>; the broker's entries, \<open>[]\<close> when the subprocess failed, depend on the limit it is given.\<close>

definition harvest_once :: "'s server \<Rightarrow> (string \<Rightarrow> nat \<Rightarrow> sighting) \<Rightarrow> (string \<Rightarrow> source_reply) \<Rightarrow>
    (nat \<Rightarrow> (string \<times> int \<times> string list) list) \<Rightarrow> nat \<Rightarrow> ('s, nat) pooled" where
  "harvest_once sv see replies broker limit =
     pbind (direct_scrape sv see replies limit SOURCES 0) (\<lambda>n.
     if n < limit then (\<lambda>w. case store_broker_entries (see ''broker'') (broker (max (limit - n) 5)) 0 w of
         (Inl _, w') \<Rightarrow> (Inr n, w') | (Inr k, w') \<Rightarrow> (Inr (n + k), w'))
     else preturn n)"

subsection \<open>Reading back what is printed\<close>

lemma split_on_append: "c \<notin> set l \<Longrightarrow> split_on c (l @ c # rest) = l # split_on c rest"
  by (induction l) auto

lemma split_on_not_Nil [simp]: "split_on c s \<noteq> []"
  by (induction s) (auto split: list.splits)

lemma rsplit_once_append: "c \<notin> set b \<Longrightarrow> rsplit_once c (a @ c # b) = Some (a, b)"
proof -
  assume b: "c \<notin> set b"
  then have "dropWhile (\<lambda>x. x \<noteq> c) (rev b @ c # rev a) = c # rev a" "takeWhile (\<lambda>x. x \<noteq> c) (rev b @ c # rev a) = rev b"
    by (subst dropWhile_append2 takeWhile_append2; auto)+
  then show ?thesis by (simp add: rsplit_once_def)
qed

lemma set_split_on: "set s \<subseteq> insert c (\<Union> (set ` set (split_on c s)))"
proof (induction s)
  case (Cons x s)
  then show ?case
    by (cases "split_on c s") auto
qed simp

lemma hd_split_on: "hd (split_on c s) \<noteq> [] \<Longrightarrow> s \<noteq> [] \<and> hd s \<in> set (hd (split_on c s))"
  by (cases s) (auto split: list.splits)

lemma digit_not_special:
  "is_ascii_digit c \<Longrightarrow> \<not> is_space c \<and> c \<noteq> CHR '':'' \<and> c \<noteq> CHR ''_'' \<and> c \<noteq> CHR ''-'' \<and> c \<noteq> CHR ''+'' \<and> c \<noteq> newline \<and> c \<noteq> CHR ''.''"
  by (auto simp: is_ascii_digit_def is_space_def newline_def)

lemma digit_groups_digits: "xs \<noteq> [] \<Longrightarrow> \<forall>c\<in>set xs. is_ascii_digit c \<Longrightarrow> digit_groups xs"
  by (induction xs rule: digit_groups.induct) (auto dest: digit_not_special)

lemma py_strip_id:
  assumes "s \<noteq> []" "\<not> is_space (hd s)" "\<not> is_space (last s)"
  shows "py_strip s = s"
proof -
  have "dropWhile is_space s = s" "dropWhile is_space (rev s) = rev s"
    using assms by (cases s, simp_all) (cases s rule: rev_cases, simp_all)
  then show ?thesis by (simp add: py_strip_def)
qed

lemma digits_of_char: "c \<in> set (digits_of n) \<Longrightarrow> is_ascii_digit c"
  by (rule digits_of_digits)

lemma port_of_text_str: "port_of_text (py_str_int i) = Inr i"
proof -
  let ?d = "digits_of (nat \<bar>i\<bar>)"
  have d: "?d \<noteq> []" "\<forall>c\<in>set ?d. is_ascii_digit c" using digits_of_char by auto
  then have groups: "digit_groups ?d" by (rule digit_groups_digits)
  have filt: "filter (\<lambda>c. c \<noteq> CHR ''_'') ?d = ?d"
    using d(2) by (auto simp: filter_id_conv dest: digit_not_special)
  have hd: "\<not> is_space (hd ?d)" "hd ?d \<notin> {CHR ''-'', CHR ''+''}" "\<not> is_space (last ?d)"
    using d digit_not_special by (metis empty_iff insert_iff list.set_sel(1) last_in_set)+
  obtain c cs where c: "?d = c # cs" using d(1) by (meson neq_Nil_conv)
  show ?thesis
  proof (cases "i < 0")
    case True
    then have "py_str_int i = CHR ''-'' # ?d" by (simp add: py_str_int_def)
    moreover have "py_strip (CHR ''-'' # ?d) = CHR ''-'' # ?d"
      using d(1) hd by (intro py_strip_id) (auto simp: is_space_def)
    ultimately show ?thesis
      using True groups filt by (simp add: port_of_text_def Let_def)
  next
    case False
    then have "py_str_int i = ?d" by (simp add: py_str_int_def)
    moreover have "py_strip ?d = ?d"
      using d(1) hd by (intro py_strip_id) auto
    moreover have "(case ?d of [] \<Rightarrow> False | x # _ \<Rightarrow> x = CHR ''-'') = False"
        "(case ?d of [] \<Rightarrow> [] | x # xs \<Rightarrow> if x \<in> {CHR ''-'', CHR ''+''} then xs else ?d) = ?d"
      using hd(2) c by simp_all
    ultimately show ?thesis
      using False groups filt unfolding port_of_text_def Let_def by (simp only: if_True if_False) simp
  qed
qed

text \<open>A line that is the \<open>key()\<close> of a proxy, and what it is read back as.\<close>

lemma py_str_int_chars: "c \<in> set (py_str_int i) \<Longrightarrow> is_ascii_digit c \<or> c = CHR ''-''"
  using digits_of_char by (auto simp: py_str_int_def split: if_splits)

lemma py_str_int_last: "py_str_int i \<noteq> [] \<and> is_ascii_digit (last (py_str_int i))"
  by (simp add: py_str_int_def digits_of_char [OF last_in_set [OF digits_of_not_Nil]])

lemma ipv4_text_chars: "ipv4_text s \<Longrightarrow> c \<in> set s \<Longrightarrow> is_ascii_digit c \<or> c = CHR ''.''"
  using set_split_on [of s "CHR ''.''"] by (fastforce simp: ipv4_text_def octet_text_def)

lemma ipv4_text_hd:
  assumes "ipv4_text s"
  shows "s \<noteq> [] \<and> is_ascii_digit (hd s)"
proof -
  have "octet_text (hd (split_on CHR ''.'' s))"
    using assms by (simp add: ipv4_text_def)
  then show ?thesis
    using hd_split_on [of "CHR ''.''" s] by (cases "hd (split_on CHR ''.'' s) = []") (auto simp: octet_text_def)
qed

lemma parse_proxy_line:
  assumes "ipv4_text (px_ip p)"
  shows "parse_line (proxy_key p) = Some (px_ip p, px_port p, ''HTTP'')" "newline \<notin> set (proxy_key p)"
proof -
  have "py_strip (proxy_key p) = proxy_key p"
    using ipv4_text_hd [OF assms] py_str_int_last [of "px_port p"]
    by (intro py_strip_id) (auto simp: proxy_key_def dest: digit_not_special)
  moreover have "rsplit_once CHR '':'' (proxy_key p) = Some (px_ip p, py_str_int (px_port p))"
    using rsplit_once_append [OF py_str_int_no_colon] by (simp add: proxy_key_def)
  ultimately show "parse_line (proxy_key p) = Some (px_ip p, px_port p, ''HTTP'')"
    using assms by (simp add: parse_line_def port_of_text_str)
  show "newline \<notin> set (proxy_key p)"
    using ipv4_text_chars [OF assms, of newline] py_str_int_chars [of newline "px_port p"] digit_not_special [of newline]
    by (auto simp: proxy_key_def newline_def)
qed

lemma split_lines:
  "\<forall>l\<in>set ls. newline \<notin> set l \<Longrightarrow> split_on newline (concat (map (\<lambda>l. l @ [newline]) ls)) = ls @ [[]]"
  by (induction ls) (simp_all add: split_on_append)

subsection \<open>What harvesting does to the pool\<close>

text \<open>A source writes at most what it is allowed, and a cycle at most its limit and ten for each source.\<close>

lemma store_candidates_bounded:
  assumes "store_candidates see limit cs n w = (Inr k, w')" "n < limit"
  shows "k \<le> limit"
  using assms
proof (induction cs arbitrary: n w)
  case Nil
  then show ?case by (simp add: preturn_def)
next
  case (Cons c cs)
  obtain written w1 where c: "store_candidate (see (length cs)) c w = (Inr written, w1)"
    using Cons.prems by (auto simp: pbind_def split: sum.splits prod.splits)
  show ?case
  proof (cases "written \<and> limit \<le> n + 1")
    case True
    then show ?thesis using Cons.prems c by (auto simp: pbind_def preturn_def)
  next
    case False
    then have "store_candidates see limit cs (if written then n + 1 else n) w1 = (Inr k, w')"
      using Cons.prems c by (auto simp: pbind_def split: if_splits)
    then show ?thesis
      by (rule Cons.IH) (use False Cons.prems(2) in auto)
  qed
qed

lemma scrape_one_bounded:
  "scrape_one see reply fmt limit w = (Inr k, w') \<Longrightarrow> 0 < limit \<Longrightarrow> k \<le> limit"
  by (auto simp: scrape_one_def preturn_def pthrow_def split: if_splits sum.splits source_format.splits dest: store_candidates_bounded)

lemma direct_scrape_bounded:
  assumes "direct_scrape sv see replies limit srcs n w = (Inr k, w')"
  shows "k \<le> max limit n + MIN_PER_SOURCE * length srcs"
  using assms
proof (induction srcs arbitrary: n w)
  case Nil
  then show ?case by (simp add: preturn_def)
next
  case (Cons src srcs)
  obtain name fmt where src: "src = (name, fmt)" by fastforce
  obtain j w1 w2 where j: "scrape_one (see name) (replies name) fmt (max (limit - n) MIN_PER_SOURCE) w = (Inr j, w1)"
    "direct_scrape sv see replies limit srcs (n + j) w2 = (Inr k, w')"
    using Cons.prems src by (auto simp: pbind_def split: sum.splits prod.splits)
  have "j \<le> max (limit - n) MIN_PER_SOURCE" using scrape_one_bounded [OF j(1)] by (simp add: MIN_PER_SOURCE_def)
  then have "max limit (n + j) \<le> max limit n + MIN_PER_SOURCE"
    by auto
  then show ?case
    using Cons.IH [OF j(2)] by (simp only: length_Cons mult_Suc_right)
qed

text \<open>
  A body the third source cannot decode, or decodes to another shape, is not that source's failure
  alone: the exception ends the cycle, and the seven sources behind it are not asked.
\<close>

lemma bad_body_ends_cycle:
  assumes "\<not> so_failed (replies ''geonode'')" "so_json (replies ''geonode'') = Inl e"
    and "\<And>name. name \<noteq> ''geonode'' \<Longrightarrow> so_failed (replies name)" "pw_net w = []"
  shows "fst (harvest_once mem_server see replies broker limit w) = Inl e"
  using assms
  by (simp add: harvest_once_def SOURCES_def scrape_one_def pbind_def preturn_def pthrow_def pool_redis_def record_source_health_def run_simps)

text \<open>Every protocol of the broker that names HTTPS also names HTTP: its HTTPS proxies are stored as HTTP ones.\<close>

lemma broker_never_https: "broker_protocol s \<noteq> P_HTTPS"
proof -
  have "contains s ''HTTPS'' \<Longrightarrow> contains s ''HTTP''"
    unfolding contains_iff by (metis append.assoc append_Cons append_Nil)
  then show ?thesis by (auto simp: broker_protocol_def)
qed

text \<open>
  One failed validation of a relisted proxy replaces its score by that of an unvalidated one: a proven
  proxy falls to 25, and a proxy that decayed below 25 rises to it.
\<close>

lemma failed_validation_resets:
  assumes "r \<in> set rows" "same_proxy x r" "rd_score x = SCORE_TCP_ONLY"
  shows "\<exists>r'\<in>set (snd (upsert_proxy ident x now rows)). same_proxy x r' \<and> pp_score r' = 25 \<and>
    pp_successes r' = pp_successes r \<and> pp_failures r' = pp_failures r"
proof -
  have "list_ex (same_proxy x) rows" using assms by (auto simp: list_ex_iff)
  then have rows': "snd (upsert_proxy ident x now rows) = map (\<lambda>r. if same_proxy x r
       then r\<lparr>pp_score := rd_score x, pp_anonymity := rd_anonymity x, pp_asn := rd_asn x, pp_latency := rd_latency x, pp_validated := Some now\<rparr>
       else r) rows"
    by (simp add: upsert_proxy_def)
  let ?r = "r\<lparr>pp_score := rd_score x, pp_anonymity := rd_anonymity x, pp_asn := rd_asn x, pp_latency := rd_latency x, pp_validated := Some now\<rparr>"
  have "?r \<in> set (snd (upsert_proxy ident x now rows))"
    using assms(1,2) unfolding rows' by force
  then show ?thesis
    using assms(2,3) by (intro bexI [of _ ?r]) (auto simp: same_proxy_def SCORE_TCP_ONLY_def)
qed

section \<open>Properties\<close>

text \<open>
  \<^bold>\<open>C40\<close>: a plain list of proxies is read back as it was written. A text with the \<open>key()\<close> of one proxy
  per line, the addresses being four groups of digits and the lines fewer than twice the limit, parses
  to the address and the port of each proxy, in order, every one with the protocol HTTP; the port may
  be any integer.
\<close>

theorem proxy_list_roundtrip:
  assumes "\<forall>p\<in>set ps. ipv4_text (px_ip p)" "length ps < limit * 2"
  shows "parse_ip_port (concat (map (\<lambda>p. proxy_key p @ [newline]) ps)) limit = map (\<lambda>p. (px_ip p, px_port p, ''HTTP'')) ps"
proof -
  have lines: "split_on newline (concat (map (\<lambda>p. proxy_key p @ [newline]) ps)) = map proxy_key ps @ [[]]"
    using split_lines [of "map proxy_key ps"] parse_proxy_line(2) assms(1) by (fastforce simp: o_def)
  have parsed: "List.map_filter parse_line (map proxy_key ps) = map (\<lambda>p. (px_ip p, px_port p, ''HTTP'')) ps"
    using assms(1) by (induction ps) (auto simp: map_filter_simps parse_proxy_line)
  have "parse_line [] = None"
    by (simp add: parse_line_def py_strip_def rsplit_once_def)
  then have "List.map_filter parse_line (map proxy_key ps @ [[]]) = map (\<lambda>p. (px_ip p, px_port p, ''HTTP'')) ps"
    using parsed by (simp add: List.map_filter_def)
  then show ?thesis
    using assms(2) by (simp add: parse_ip_port_def lines)
qed

definition listed_proxy :: "string \<Rightarrow> int \<Rightarrow> proxy" where
  "listed_proxy ip port = \<lparr>px_id = 1, px_ip = ip, px_port = port, px_protocol = P_HTTP, px_anonymity = TRANSPARENT,
     px_asn_class = ASN_UNKNOWN, px_reliability_score = 50, px_username = None, px_password = None, px_source = Pool\<rparr>"

theorem proxy_list_roundtrip_witness:
  "parse_ip_port (concat (map (\<lambda>p. proxy_key p @ [newline]) [listed_proxy ''203.0.113.7'' 3128, listed_proxy ''198.51.100.20'' 80])) 100
     = [(''203.0.113.7'', 3128, ''HTTP''), (''198.51.100.20'', 80, ''HTTP'')]"
  using proxy_list_roundtrip [of "[listed_proxy ''203.0.113.7'' 3128, listed_proxy ''198.51.100.20'' 80]" 100]
  by (simp add: listed_proxy_def ipv4_text_def octet_text_def is_ascii_digit_def)

end
