(* ===== verification/Failure_Policy.thy ===== *)
theory Failure_Policy
  imports Models
begin

text \<open>
  \<^verbatim>\<open>src/src/scraper_engine/fetcher/_failure.py\<close>, the classification of what went wrong in a
  fetch, and \<^verbatim>\<open>src/src/scraper_engine/core/retry.py\<close>, the retry matrix and the loop it governs.
  The parser of HTTP dates (\<open>email.utils\<close>) is an argument; the random draw of the jitter and the
  outcomes of the awaited calls are arguments too.
\<close>

subsection \<open>Classifying an exception\<close>

text \<open>An exception as the classifier sees it: its class, where the code asks for it, and its text.\<close>

datatype fetch_exn =
    Guard_Rejection string string string
  | Httpx_ProxyError string
  | Raised string

definition is_proxy_auth_failure :: "fetch_exn \<Rightarrow> bool" where
  "is_proxy_auth_failure e = (case e of
     Httpx_ProxyError s \<Rightarrow> starts_with s ''407''
   | Raised s \<Rightarrow> contains s ''NS_ERROR_PROXY_AUTHENTICATION_FAILED''
   | Guard_Rejection u h n \<Rightarrow> False)"

definition classify_fetch_exception :: "fetch_exn \<Rightarrow> failure_category \<Rightarrow> failure_category" where
  "classify_fetch_exception e dflt =
     (case e of
        Guard_Rejection u h n \<Rightarrow>
          if is_unresolvable (SSRFBlockedError u h n) then HOST_UNREACHABLE else SSRF_BLOCKED
      | _ \<Rightarrow> if is_proxy_auth_failure e then PROXY_AUTH_FAILED else dflt)"

text \<open>
  Only the guard's own verdict makes a host permanently unreachable or blocked: no text of any
  other exception does, whatever the proxy or the browser reported.
\<close>

lemma permanent_only_from_guard:
  assumes "classify_fetch_exception e dflt \<in> {HOST_UNREACHABLE, SSRF_BLOCKED}"
    "dflt \<notin> {HOST_UNREACHABLE, SSRF_BLOCKED}"
  shows "\<exists>u h n. e = Guard_Rejection u h n"
  using assms by (cases e) (auto simp: classify_fetch_exception_def split: if_splits)

subsection \<open>Classifying a status\<close>

definition DETECTION_BLOCK_STATUSES :: "int list" where
  "DETECTION_BLOCK_STATUSES = [401, 403, 404, 405, 410]"

definition RATE_LIMITED_STATUS :: int where
  "RATE_LIMITED_STATUS = 429"

definition RETRY_AFTER_CAP_SECONDS :: int where
  "RETRY_AFTER_CAP_SECONDS = 3600"

definition classify_http_status :: "int \<Rightarrow> failure_category option" where
  "classify_http_status status_code =
     (if status_code \<in> set DETECTION_BLOCK_STATUSES then Some DETECTION_BLOCK
      else if status_code = RATE_LIMITED_STATUS then Some RATE_LIMITED else None)"

lemma classify_http_status_cases:
  "classify_http_status s = Some c \<Longrightarrow> c \<in> {DETECTION_BLOCK, RATE_LIMITED} \<and> 400 \<le> s"
  by (auto simp: classify_http_status_def DETECTION_BLOCK_STATUSES_def RATE_LIMITED_STATUS_def
      split: if_splits)

lemma classify_http_status_ok [simp]:
  "classify_http_status 200 = None" "classify_http_status 0 = None"
  by (simp_all add: classify_http_status_def DETECTION_BLOCK_STATUSES_def RATE_LIMITED_STATUS_def)

subsection \<open>The Retry-After header\<close>

text \<open>
  \<open>str.isdigit\<close> holds of the superscripts one, two and three as well, which \<open>int()\<close> refuses.
\<close>

definition py_isdigit_char :: "char \<Rightarrow> bool" where
  "py_isdigit_char c \<longleftrightarrow> is_ascii_digit c \<or> of_char c \<in> {178, 179, 185 :: nat}"

definition py_isdigit :: "string \<Rightarrow> bool" where
  "py_isdigit s \<longleftrightarrow> s \<noteq> [] \<and> list_all py_isdigit_char s"

definition int_of_text :: "string \<Rightarrow> int res" where
  "int_of_text s = (if s \<noteq> [] \<and> list_all is_ascii_digit s then Inr (int (digits_value 0 s)) else Inl ValueError)"

text \<open>\<open>int(x)\<close> of a float truncates towards zero.\<close>

definition trunc_rat :: "rat \<Rightarrow> int" where
  "trunc_rat q = (if 0 \<le> q then \<lfloor>q\<rfloor> else \<lceil>q\<rceil>)"

definition parse_retry_after :: "(string \<Rightarrow> rat option) \<Rightarrow> string option \<Rightarrow> rat \<Rightarrow> int option res" where
  "parse_retry_after parse_date header now =
     (case header of None \<Rightarrow> Inr None
      | Some raw \<Rightarrow>
        let v = py_strip raw in
        if py_isdigit v then
          (case int_of_text v of Inl e \<Rightarrow> Inl e | Inr n \<Rightarrow> Inr (Some (min n RETRY_AFTER_CAP_SECONDS)))
        else (case parse_date v of None \<Rightarrow> Inr None
              | Some whn \<Rightarrow> Inr (Some (min (max (trunc_rat (whn - now)) 0) RETRY_AFTER_CAP_SECONDS))))"

definition retry_after_for :: "(string \<Rightarrow> rat option) \<Rightarrow> int \<Rightarrow> (string \<Rightarrow> string option) option \<Rightarrow> rat \<Rightarrow> int option res" where
  "retry_after_for parse_date status_code headers now =
     (if status_code \<noteq> RATE_LIMITED_STATUS then Inr None
      else case headers of None \<Rightarrow> Inr None
        | Some get \<Rightarrow> parse_retry_after parse_date (get ''retry-after'') now)"

lemma int_of_text_nonneg: "int_of_text s = Inr n \<Longrightarrow> 0 \<le> n"
  by (auto simp: int_of_text_def split: if_splits)

lemma int_of_text_digits_of: "int_of_text (digits_of n) = Inr (int n)"
  using digits_of_digits by (auto simp: int_of_text_def list_all_iff)

lemma py_strip_digits: "list_all is_ascii_digit s \<Longrightarrow> py_strip s = s"
proof -
  have nospace: "list_all is_ascii_digit xs \<Longrightarrow> dropWhile is_space xs = xs" for xs
    by (cases xs) (auto simp: is_space_def is_ascii_digit_def)
  assume "list_all is_ascii_digit s"
  then show ?thesis by (simp add: py_strip_def nospace)
qed

text \<open>
  Round trip and bounds of the Retry-After header: a number of seconds the site printed is read
  back as that number, capped at one hour, and whatever a date or a number says, a value that
  is accepted lies between zero and one hour. The only text the reader raises on is a text of
  digits one of which is a superscript.
\<close>

theorem retry_after_roundtrip_bounds:
  "parse_retry_after pd (Some (digits_of n)) now = Inr (Some (min (int n) 3600)) \<and>
   (\<forall>h k. parse_retry_after pd h now = Inr (Some k) \<longrightarrow> 0 \<le> k \<and> k \<le> 3600) \<and>
   (\<forall>h e. parse_retry_after pd h now = Inl e \<longleftrightarrow>
      e = ValueError \<and> (\<exists>raw. h = Some raw \<and> py_isdigit (py_strip raw) \<and>
        \<not> list_all is_ascii_digit (py_strip raw)))"
proof (intro conjI allI)
  have dig: "list_all is_ascii_digit (digits_of n)"
    using digits_of_digits by (auto simp: list_all_iff)
  then have "py_isdigit (digits_of n)"
    by (auto simp: py_isdigit_def py_isdigit_char_def list_all_iff)
  with dig show "parse_retry_after pd (Some (digits_of n)) now = Inr (Some (min (int n) 3600))"
    by (simp add: parse_retry_after_def py_strip_digits int_of_text_digits_of RETRY_AFTER_CAP_SECONDS_def)
  show "parse_retry_after pd h now = Inr (Some k) \<longrightarrow> 0 \<le> k \<and> k \<le> 3600" for h k
    by (auto simp: parse_retry_after_def Let_def RETRY_AFTER_CAP_SECONDS_def
        split: option.splits if_splits sum.splits dest: int_of_text_nonneg)
  show "parse_retry_after pd h now = Inl e \<longleftrightarrow>
      e = ValueError \<and> (\<exists>raw. h = Some raw \<and> py_isdigit (py_strip raw) \<and>
        \<not> list_all is_ascii_digit (py_strip raw))" for h e
    by (auto simp: parse_retry_after_def Let_def int_of_text_def py_isdigit_def
        split: option.splits if_splits sum.splits)
qed

theorem retry_after_roundtrip_bounds_witness:
  "parse_retry_after (\<lambda>_. None) (Some [CHR 0xB2]) 0 = Inl ValueError \<and>
   parse_retry_after (\<lambda>_. Some 90) (Some ''tomorrow'') 60 = Inr (Some 30) \<and>
   0 \<le> (30 :: int) \<and> (30 :: int) \<le> 3600"
proof -
  have d: "parse_retry_after (\<lambda>_. Some 90) (Some ''tomorrow'') 60 = Inr (Some 30)"
    by (simp add: parse_retry_after_def Let_def py_strip_def is_space_def py_isdigit_def
        py_isdigit_char_def is_ascii_digit_def trunc_rat_def RETRY_AFTER_CAP_SECONDS_def)
  have "py_isdigit (py_strip [CHR 0xB2]) \<and> \<not> list_all is_ascii_digit (py_strip [CHR 0xB2])"
    by (simp add: py_strip_def is_space_def py_isdigit_def py_isdigit_char_def is_ascii_digit_def)
  then have e: "parse_retry_after (\<lambda>_. None) (Some [CHR 0xB2]) 0 = Inl ValueError"
    using retry_after_roundtrip_bounds [of "\<lambda>_. None" 0 0, THEN conjunct2, THEN conjunct2,
        THEN spec, THEN spec, of "Some [CHR 0xB2]" ValueError] by blast
  have "0 \<le> (30 :: int) \<and> (30 :: int) \<le> 3600"
    using retry_after_roundtrip_bounds [of "\<lambda>_. Some 90" 0 60, THEN conjunct2, THEN conjunct1,
        THEN spec, THEN spec, of "Some ''tomorrow''" 30] d by blast
  with d e show ?thesis by blast
qed

subsection \<open>The retry matrix\<close>

record retry_strategy =
  max_attempts :: nat
  base_delay_seconds :: rat
  max_delay_seconds :: rat
  jitter :: bool
  retryable :: bool

definition strategy :: "nat \<Rightarrow> rat \<Rightarrow> rat \<Rightarrow> bool \<Rightarrow> retry_strategy" where
  "strategy n b m r = \<lparr>max_attempts = n, base_delay_seconds = b, max_delay_seconds = m, jitter = True, retryable = r\<rparr>"

fun RETRY_MATRIX :: "failure_category \<Rightarrow> retry_strategy" where
  "RETRY_MATRIX NETWORK_TIMEOUT = strategy 3 2 30 True"
| "RETRY_MATRIX DETECTION_BLOCK = strategy 1 0 0 False"
| "RETRY_MATRIX BROWSER_CRASH = strategy 2 5 60 True"
| "RETRY_MATRIX CAPTCHA_TRIGGERED = strategy 0 0 0 False"
| "RETRY_MATRIX PARSE_ERROR = strategy 2 1 10 True"
| "RETRY_MATRIX PROXY_EXHAUSTED = strategy 0 0 0 False"
| "RETRY_MATRIX CIRCUIT_OPEN = strategy 0 0 0 False"
| "RETRY_MATRIX SSRF_BLOCKED = strategy 0 0 0 False"
| "RETRY_MATRIX QUOTA_EXCEEDED = strategy 0 0 0 False"
| "RETRY_MATRIX HOST_UNREACHABLE = strategy 0 0 0 False"
| "RETRY_MATRIX NOT_FOUND = strategy 0 0 0 False"
| "RETRY_MATRIX POLITENESS_TIMEOUT = strategy 2 30 120 True"
| "RETRY_MATRIX CAPACITY_TIMEOUT = strategy 2 60 300 True"
| "RETRY_MATRIX DEPENDENCY_UNAVAILABLE = strategy 3 5 60 True"
| "RETRY_MATRIX PROXY_AUTH_FAILED = strategy 0 0 0 False"
| "RETRY_MATRIX RATE_LIMITED = strategy 3 60 3600 True"

text \<open>\<open>u\<close> is the draw of \<open>random.uniform(0.5, 1.5)\<close>.\<close>

definition backoff_delay :: "retry_strategy \<Rightarrow> rat \<Rightarrow> nat \<Rightarrow> rat" where
  "backoff_delay s u attempt =
     (let delay = min (base_delay_seconds s * 2 ^ attempt) (max_delay_seconds s)
      in if jitter s then delay * u else delay)"

text \<open>
  The loop over \<open>range(max_attempts)\<close>. \<open>fn k\<close> is the outcome of the call made in round \<open>k\<close>,
  \<open>on_retry\<close> the optional callback (which may itself raise), \<open>u k\<close> the draw of that round. The
  sleeps are returned with the outcome.
\<close>

function retry_rounds ::
  "(nat \<Rightarrow> exn + 'a) \<Rightarrow> (nat \<Rightarrow> exn \<Rightarrow> exn option) option \<Rightarrow> (nat \<Rightarrow> rat) \<Rightarrow> retry_strategy \<Rightarrow> nat
     \<Rightarrow> exn option \<Rightarrow> rat list \<Rightarrow> (exn + 'a) \<times> rat list" where
  "retry_rounds fn on_retry u s attempt last_exc slept =
     (if attempt < max_attempts s then
        (case fn attempt of
           Inr a \<Rightarrow> (Inr a, slept)
         | Inl e \<Rightarrow>
             if attempt + 1 < max_attempts s then
               (case (case on_retry of None \<Rightarrow> None | Some cb \<Rightarrow> cb attempt e) of
                  Some raised \<Rightarrow> (Inl raised, slept)
                | None \<Rightarrow> retry_rounds fn on_retry u s (attempt + 1) (Some e)
                            (slept @ [backoff_delay s (u attempt) attempt]))
             else retry_rounds fn on_retry u s (attempt + 1) (Some e) slept)
      else (case last_exc of None \<Rightarrow> (Inl AssertionError, slept) | Some e \<Rightarrow> (Inl e, slept)))"
  by pat_completeness auto

termination retry_rounds
  by (relation "measure (\<lambda>(fn, cb, u, s, attempt, _). max_attempts s - attempt)") auto

declare retry_rounds.simps [simp del]

definition retry_with_backoff ::
  "(nat \<Rightarrow> exn + 'a) \<Rightarrow> failure_category \<Rightarrow> (nat \<Rightarrow> exn \<Rightarrow> exn option) option \<Rightarrow> (nat \<Rightarrow> rat)
     \<Rightarrow> (exn + 'a) \<times> rat list" where
  "retry_with_backoff fn category on_retry u =
     (let s = RETRY_MATRIX category in
      if \<not> retryable s then (fn 0, []) else retry_rounds fn on_retry u s 0 None [])"

text \<open>How many calls a category is given.\<close>

definition allowed_calls :: "failure_category \<Rightarrow> nat" where
  "allowed_calls c = (if retryable (RETRY_MATRIX c) then max_attempts (RETRY_MATRIX c) else 1)"

lemma allowed_calls_pos: "0 < allowed_calls c \<and> allowed_calls c \<le> 3"
  by (cases c) (simp_all add: allowed_calls_def strategy_def)

lemma backoff_delay_le:
  assumes "0 \<le> base_delay_seconds s" "0 \<le> max_delay_seconds s" "1 / 2 \<le> u" "u \<le> 3 / 2"
  shows "0 \<le> backoff_delay s u k \<and> backoff_delay s u k \<le> 3 / 2 * max_delay_seconds s"
proof -
  define d where "d = min (base_delay_seconds s * 2 ^ k) (max_delay_seconds s)"
  have d: "0 \<le> d" "d \<le> max_delay_seconds s" using assms by (simp_all add: d_def)
  have "d * u \<le> max_delay_seconds s * (3 / 2)" using d assms by (intro mult_mono) auto
  moreover have "0 \<le> d * u" using d assms by simp
  ultimately show ?thesis
    unfolding backoff_delay_def Let_def d_def [symmetric] using d by simp
qed

text \<open>What the rounds from some attempt on do, the callback staying quiet.\<close>

lemma retry_rounds_quiet:
  assumes "\<And>k e. (case cb of None \<Rightarrow> None | Some f \<Rightarrow> f k e) = (None :: exn option)"
    and "a \<le> max_attempts s" "a = max_attempts s \<longrightarrow> le = Some e0"
  shows "(\<exists>k. a \<le> k \<and> k < max_attempts s \<and> (\<forall>j. a \<le> j \<and> j < k \<longrightarrow> isl (fn j)) \<and> \<not> isl (fn k) \<and>
            retry_rounds fn cb u s a le sl = (fn k, sl @ map (\<lambda>j. backoff_delay s (u j) j) [a..<k])) \<or>
         ((\<forall>j. a \<le> j \<and> j < max_attempts s \<longrightarrow> isl (fn j)) \<and>
            retry_rounds fn cb u s a le sl =
              ((if a = max_attempts s then Inl e0 else fn (max_attempts s - 1)),
               sl @ map (\<lambda>j. backoff_delay s (u j) j) [a..<max_attempts s - 1]))"
  using assms(2-)
proof (induction "max_attempts s - a" arbitrary: a le e0 sl)
  case 0
  then show ?case by (auto simp: retry_rounds.simps [of fn cb u s a])
next
  case (Suc d)
  then have lt: "a < max_attempts s" by simp
  show ?case
  proof (cases "fn a")
    case (Inr v)
    with lt have "retry_rounds fn cb u s a le sl = (fn a, sl)"
      by (simp add: retry_rounds.simps [of fn cb u s a])
    with lt Inr show ?thesis by (intro disjI1 exI [of _ a]) auto
  next
    case (Inl e)
    define sl' where "sl' = (if a + 1 < max_attempts s then sl @ [backoff_delay s (u a) a] else sl)"
    have step: "retry_rounds fn cb u s a le sl = retry_rounds fn cb u s (a + 1) (Some e) sl'"
      using lt Inl assms(1) by (simp add: retry_rounds.simps [of fn cb u s a] sl'_def)
    have d: "d = max_attempts s - (a + 1)" "a + 1 \<le> max_attempts s" "a + 1 = max_attempts s \<longrightarrow> Some e = Some e"
      using Suc.hyps(2) lt by simp_all
    from Suc.hyps(1) [OF d, of sl']
    consider (ok) k where "a + 1 \<le> k" "k < max_attempts s" "\<forall>j. a + 1 \<le> j \<and> j < k \<longrightarrow> isl (fn j)" "\<not> isl (fn k)"
        "retry_rounds fn cb u s (a + 1) (Some e) sl' = (fn k, sl' @ map (\<lambda>j. backoff_delay s (u j) j) [a + 1..<k])"
      | (bad) "\<forall>j. a + 1 \<le> j \<and> j < max_attempts s \<longrightarrow> isl (fn j)"
        "retry_rounds fn cb u s (a + 1) (Some e) sl' =
              ((if a + 1 = max_attempts s then Inl e else fn (max_attempts s - 1)),
               sl' @ map (\<lambda>j. backoff_delay s (u j) j) [a + 1..<max_attempts s - 1])"
      by blast
    then show ?thesis
    proof cases
      case ok
      then have "\<forall>j. a \<le> j \<and> j < k \<longrightarrow> isl (fn j)"
        using Inl by (metis Suc_eq_plus1 Suc_leI le_neq_implies_less isl_def)
      moreover have "[a..<k] = a # [a + 1..<k]" using ok(1) by (simp add: upt_rec)
      ultimately show ?thesis using ok step
        by (intro disjI1 exI [of _ k]) (simp add: sl'_def)
    next
      case bad
      then have "\<forall>j. a \<le> j \<and> j < max_attempts s \<longrightarrow> isl (fn j)"
        using Inl by (metis Suc_eq_plus1 Suc_leI le_neq_implies_less isl_def)
      moreover have "[a..<max_attempts s - 1] = a # [a + 1..<max_attempts s - 1]" if "a + 1 < max_attempts s"
        using that by (simp add: upt_rec)
      ultimately show ?thesis using bad step lt Inl
        by (intro disjI2) (auto simp: sl'_def dest!: sym [of "Suc a"])
    qed
  qed
qed

text \<open>
  \<^bold>\<open>C39\<close> The retry loop ends, for every category of the matrix, with the outcome of the first call
  that succeeds among the calls the category allows (three at most), or else with the exception
  of the le one; it never runs into its own assertion, and every sleep between two calls lies
  between zero and one and a half times the category's maximum, which the jitter may exceed.
\<close>

theorem retry_with_backoff_outcome:
  assumes "\<And>k. 1 / 2 \<le> u k \<and> u k \<le> (3 / 2 :: rat)"
  shows "(\<exists>k < allowed_calls c. (\<forall>j < k. isl (fn j)) \<and> (\<not> isl (fn k) \<or> k + 1 = allowed_calls c) \<and>
            fst (retry_with_backoff fn c None u) = fn k \<and>
            length (snd (retry_with_backoff fn c None u)) = k) \<and>
         (\<forall>d \<in> set (snd (retry_with_backoff fn c None u)).
            0 \<le> d \<and> d \<le> 3 / 2 * max_delay_seconds (RETRY_MATRIX c))"
proof -
  let ?s = "RETRY_MATRIX c"
  have nonneg: "0 \<le> base_delay_seconds ?s" "0 \<le> max_delay_seconds ?s"
    by (cases c; simp add: strategy_def)+
  have delay: "0 \<le> backoff_delay ?s (u j) j \<and> backoff_delay ?s (u j) j \<le> 3 / 2 * max_delay_seconds ?s" for j
    using nonneg assms [of j] by (intro backoff_delay_le) auto
  show ?thesis
  proof (cases "retryable ?s")
    case False
    then show ?thesis by (auto simp: retry_with_backoff_def allowed_calls_def)
  next
    case True
    then have n: "allowed_calls c = max_attempts ?s" "0 < max_attempts ?s"
      using allowed_calls_pos [of c] by (simp_all add: allowed_calls_def)
    have run: "retry_with_backoff fn c None u = retry_rounds fn None u ?s 0 None []"
      using True by (simp add: retry_with_backoff_def)
    from retry_rounds_quiet [of None 0 ?s None AssertionError fn u "[]"] n
    consider k where "k < max_attempts ?s" "\<forall>j < k. isl (fn j)" "\<not> isl (fn k)"
        "retry_rounds fn None u ?s 0 None [] = (fn k, map (\<lambda>j. backoff_delay ?s (u j) j) [0..<k])"
      | "\<forall>j < max_attempts ?s. isl (fn j)"
        "retry_rounds fn None u ?s 0 None [] =
           (fn (max_attempts ?s - 1), map (\<lambda>j. backoff_delay ?s (u j) j) [0..<max_attempts ?s - 1])"
      by auto
    then show ?thesis
    proof cases
      case 1
      then show ?thesis unfolding run n(1) using delay by (auto intro!: exI [of _ k])
    next
      case 2
      then show ?thesis unfolding run n(1) using delay n(2)
        by (auto intro!: exI [of _ "max_attempts ?s - 1"])
    qed
  qed
qed

theorem retry_with_backoff_outcome_witness:
  "(\<exists>k < allowed_calls NETWORK_TIMEOUT. (\<forall>j < k. isl ((\<lambda>_. Inl ValueError :: exn + unit) j)) \<and>
      (\<not> isl (Inl ValueError :: exn + unit) \<or> k + 1 = allowed_calls NETWORK_TIMEOUT) \<and>
      fst (retry_with_backoff (\<lambda>_. Inl ValueError :: exn + unit) NETWORK_TIMEOUT None (\<lambda>_. 1)) = Inl ValueError \<and>
      length (snd (retry_with_backoff (\<lambda>_. Inl ValueError :: exn + unit) NETWORK_TIMEOUT None (\<lambda>_. 1))) = k)"
  using retry_with_backoff_outcome [of "\<lambda>_. 1" NETWORK_TIMEOUT "\<lambda>_. Inl ValueError :: exn + unit"] by simp

end
