(* ===== verification/Ssrf_Guard.thy ===== *)
theory Ssrf_Guard
  imports Proxy_Harvest Failure_Policy "HOL-Library.Word"
begin

text \<open>
  \<^verbatim>\<open>src/src/scraper_engine/core/ssrf_guard.py\<close>: the guard every target and every redirect hop
  passes before it is contacted. The readers of addresses and networks of Python's \<open>ipaddress\<close>
  module (3.12) are written out over machine words, 32 bits for IPv4 and 128 for IPv6; what
  \<open>urlparse(url).hostname\<close> and \<open>getaddrinfo\<close> answer are arguments. The zone of a scoped address
  (\<open>fe80::1%eth0\<close>) is read and dropped: membership in a network does not look at it.
\<close>

unbundle bit_operations_syntax

subsection \<open>Reading an address\<close>

datatype ip = IPv4 "32 word" | IPv6 "128 word"

definition parse_octet :: "string \<Rightarrow> nat option" where
  "parse_octet s =
     (if s = [] \<or> \<not> list_all is_ascii_digit s \<or> 3 < length s \<or> (s \<noteq> ''0'' \<and> hd s = CHR ''0'')
        \<or> 255 < digits_value 0 s
      then None else Some (digits_value 0 s))"

definition parse_v4 :: "string \<Rightarrow> 32 word option" where
  "parse_v4 s =
     (case map parse_octet (split_on CHR ''.'' s) of
        [Some a, Some b, Some c, Some d] \<Rightarrow> Some (of_nat (((a * 256 + b) * 256 + c) * 256 + d))
      | _ \<Rightarrow> None)"

definition hex_digit :: "char \<Rightarrow> nat option" where
  "hex_digit c =
     (let n = (of_char c :: nat) in
      if 48 \<le> n \<and> n \<le> 57 then Some (n - 48)
      else if 97 \<le> n \<and> n \<le> 102 then Some (n - 87)
      else if 65 \<le> n \<and> n \<le> 70 then Some (n - 55) else None)"

fun hex_value :: "nat \<Rightarrow> string \<Rightarrow> nat option" where
  "hex_value acc [] = Some acc"
| "hex_value acc (c # cs) = (case hex_digit c of None \<Rightarrow> None | Some d \<Rightarrow> hex_value (16 * acc + d) cs)"

definition parse_hextet :: "string \<Rightarrow> nat option" where
  "parse_hextet s = (if s = [] \<or> 4 < length s then None else hex_value 0 s)"

fun hextets :: "string list \<Rightarrow> nat list option" where
  "hextets [] = Some []"
| "hextets (s # ss) =
     (case parse_hextet s of None \<Rightarrow> None
      | Some h \<Rightarrow> (case hextets ss of None \<Rightarrow> None | Some hs \<Rightarrow> Some (h # hs)))"

text \<open>An IPv4 suffix stands for the last two groups.\<close>

fun v6_groups :: "string list \<Rightarrow> (string list \<times> nat list) option" where
  "v6_groups parts =
     (if contains (List.last parts) ''.'' then
        (case parse_v4 (List.last parts) of None \<Rightarrow> None
         | Some w \<Rightarrow> Some (butlast parts, [unat (drop_bit 16 w), unat (take_bit 16 w)]))
      else Some (parts, []))"

text \<open>
  The groups before and behind \<open>::\<close>. A leading or trailing empty group is allowed only as part of
  it; \<open>tail\<close> are the groups of an IPv4 suffix, which are never empty.
\<close>

definition v6_halves :: "string list \<Rightarrow> nat list \<Rightarrow> (nat list \<times> nat \<times> nat list) option" where
  "v6_halves parts tail =
     (let len = length parts + length tail in
      if 9 < len then None else
      case [i \<leftarrow> [1..<len - 1]. i < length parts \<and> parts ! i = []] of
        [] \<Rightarrow>
          if len \<noteq> 8 then None
          else (case hextets parts of None \<Rightarrow> None | Some hs \<Rightarrow> Some (hs @ tail, 0, []))
      | [k] \<Rightarrow>
          let hi = (if parts ! 0 = [] then if k = 1 then Some [] else None else hextets (take k parts));
              lo = (if tail = [] \<and> List.last parts = [] then if k + 2 = len then Some [] else None
                    else (case hextets (drop (Suc k) parts) of None \<Rightarrow> None | Some hs \<Rightarrow> Some (hs @ tail)))
          in (case (hi, lo) of
                (Some h, Some l) \<Rightarrow>
                  if 8 < length h + length l + 1 then None else Some (h, 8 - (length h + length l), l)
              | _ \<Rightarrow> None)
      | _ \<Rightarrow> None)"

definition word_of_hextets :: "nat list \<Rightarrow> 128 word" where
  "word_of_hextets hs = foldl (\<lambda>acc h. push_bit 16 acc OR of_nat h) 0 hs"

text \<open>\<open>ip_str.partition('%')\<close>: a zone must not be empty nor hold another \<open>%\<close>.\<close>

definition drop_zone :: "string \<Rightarrow> string option" where
  "drop_zone s =
     (case split_on CHR ''%'' s of
        [addr] \<Rightarrow> Some addr
      | [addr, zone] \<Rightarrow> if zone = [] then None else Some addr
      | _ \<Rightarrow> None)"

definition parse_v6 :: "string \<Rightarrow> 128 word option" where
  "parse_v6 s =
     (case drop_zone s of None \<Rightarrow> None
      | Some addr \<Rightarrow>
        let parts = split_on CHR '':'' addr in
        if length parts < 3 then None
        else (case v6_groups parts of None \<Rightarrow> None
              | Some (ps, tail) \<Rightarrow>
                (case v6_halves ps tail of None \<Rightarrow> None
                 | Some (hi, skipped, lo) \<Rightarrow> Some (word_of_hextets (hi @ replicate skipped 0 @ lo)))))"

definition ip_address :: "string \<Rightarrow> ip res" where
  "ip_address s =
     (case parse_v4 s of Some w \<Rightarrow> Inr (IPv4 w)
      | None \<Rightarrow> (case parse_v6 s of Some w \<Rightarrow> Inr (IPv6 w) | None \<Rightarrow> Inl ValueError))"

subsection \<open>Networks\<close>

datatype ip_net = Net4 "32 word" nat | Net6 "128 word" nat

text \<open>The high bits of an address that a network of prefix length \<open>p\<close> compares.\<close>

definition net_part :: "nat \<Rightarrow> 'a::len word \<Rightarrow> 'a word" where
  "net_part p w = (w AND NOT (mask (LENGTH('a) - p)))"

text \<open>\<open>addr in net\<close>: another version is never a member.\<close>

fun in_net :: "ip \<Rightarrow> ip_net \<Rightarrow> bool" where
  "in_net (IPv4 w) (Net4 base p) = (net_part p w = base)"
| "in_net (IPv6 w) (Net6 base p) = (net_part p w = base)"
| "in_net _ _ = False"

definition prefix_text :: "nat \<Rightarrow> string \<Rightarrow> nat option" where
  "prefix_text bound s =
     (if s = [] \<or> \<not> list_all is_ascii_digit s \<or> bound < digits_value 0 s then None else Some (digits_value 0 s))"

text \<open>An IPv4 prefix may also be given as a netmask or as a host mask.\<close>

definition prefix_of_mask :: "32 word \<Rightarrow> nat option" where
  "prefix_of_mask m = find (\<lambda>p. m = NOT (mask (32 - p))) [0..<33]"

definition v4_prefix :: "string \<Rightarrow> nat option" where
  "v4_prefix s =
     (if s \<noteq> [] \<and> list_all is_ascii_digit s then prefix_text 32 s
      else case parse_v4 s of None \<Rightarrow> None
        | Some m \<Rightarrow> (case prefix_of_mask m of Some p \<Rightarrow> Some p | None \<Rightarrow> prefix_of_mask (NOT m)))"

definition network_v4 :: "string list \<Rightarrow> ip_net option" where
  "network_v4 parts =
     (let prefix = (case parts of [_] \<Rightarrow> Some 32 | [_, p] \<Rightarrow> v4_prefix p | _ \<Rightarrow> None) in
      case (parse_v4 (hd parts), prefix) of
        (Some w, Some p) \<Rightarrow> if net_part p w = w then Some (Net4 w p) else None
      | _ \<Rightarrow> None)"

definition network_v6 :: "string list \<Rightarrow> ip_net option" where
  "network_v6 parts =
     (let prefix = (case parts of [_] \<Rightarrow> Some 128 | [_, p] \<Rightarrow> prefix_text 128 p | _ \<Rightarrow> None) in
      case (parse_v6 (hd parts), prefix) of
        (Some w, Some p) \<Rightarrow> if net_part p w = w then Some (Net6 w p) else None
      | _ \<Rightarrow> None)"

text \<open>\<open>ipaddress.ip_network(n)\<close>, strict: a base with host bits set is refused.\<close>

definition ip_network :: "string \<Rightarrow> ip_net res" where
  "ip_network s =
     (let parts = split_on CHR ''/'' s in
      case network_v4 parts of Some n \<Rightarrow> Inr n
      | None \<Rightarrow> (case network_v6 parts of Some n \<Rightarrow> Inr n | None \<Rightarrow> Inl ValueError))"

text \<open>\<open>str(net)\<close>: dotted decimals, or hexadecimal groups with the longest run of zeros dropped.\<close>

definition v4_text :: "32 word \<Rightarrow> string" where
  "v4_text w = digits_of (unat (drop_bit 24 w)) @ ''.'' @ digits_of (unat (take_bit 8 (drop_bit 16 w)))
     @ ''.'' @ digits_of (unat (take_bit 8 (drop_bit 8 w))) @ ''.'' @ digits_of (unat (take_bit 8 w))"

fun hex_text :: "nat \<Rightarrow> string" where
  "hex_text n = (if n < 16 then [''0123456789abcdef'' ! n]
     else hex_text (n div 16) @ [''0123456789abcdef'' ! (n mod 16)])"

definition groups_of :: "128 word \<Rightarrow> nat list" where
  "groups_of w = map (\<lambda>i. unat (take_bit 16 (drop_bit (16 * (7 - i)) w))) [0..<8]"

text \<open>The longest run of zero groups, the first of several: \<open>(start, length)\<close>.\<close>

fun zero_run :: "nat list \<Rightarrow> nat \<Rightarrow> nat \<times> nat \<Rightarrow> nat \<times> nat \<Rightarrow> nat \<times> nat" where
  "zero_run [] i current best = best"
| "zero_run (g # gs) i (s, n) best =
     (if g = 0 then
        (let here = (if n = 0 then i else s, Suc n) in
         zero_run gs (Suc i) here (if snd best < snd here then here else best))
      else zero_run gs (Suc i) (0, 0) best)"

fun sep_join :: "string \<Rightarrow> string list \<Rightarrow> string" where
  "sep_join sep [] = []"
| "sep_join sep [s] = s"
| "sep_join sep (s # t # ss) = s @ sep @ sep_join sep (t # ss)"

definition v6_text :: "128 word \<Rightarrow> string" where
  "v6_text w =
     (let gs = groups_of w; (start, n) = zero_run gs 0 (0, 0) (0, 0); hs = map hex_text gs in
      if n \<le> 1 then sep_join '':'' hs
      else sep_join '':''
        ((if start = 0 then [[]] else []) @ take start hs @ [[]] @ drop (start + n) hs
         @ (if start + n = 8 then [[]] else [])))"

fun net_text :: "ip_net \<Rightarrow> string" where
  "net_text (Net4 w p) = v4_text w @ ''/'' @ digits_of p"
| "net_text (Net6 w p) = v6_text w @ ''/'' @ digits_of p"

subsection \<open>The guard\<close>

definition DENIED_NETWORKS :: "string list" where
  "DENIED_NETWORKS =
     [''127.0.0.0/8'', ''10.0.0.0/8'', ''172.16.0.0/12'', ''192.168.0.0/16'', ''169.254.0.0/16'',
      ''::1/128'', ''fc00::/7'', ''fe80::/10'']"

fun networks :: "string list \<Rightarrow> ip_net list res" where
  "networks [] = Inr []"
| "networks (s # ss) =
     (case ip_network s of Inl e \<Rightarrow> Inl e
      | Inr n \<Rightarrow> (case networks ss of Inl e \<Rightarrow> Inl e | Inr ns \<Rightarrow> Inr (n # ns)))"

text \<open>\<open>SSRFGuard(additional_denied_cidrs)\<close>: the ranges a guard refuses.\<close>

definition ssrf_guard :: "string list option \<Rightarrow> ip_net list res" where
  "ssrf_guard additional = networks (DENIED_NETWORKS @ (case additional of None \<Rightarrow> [] | Some ns \<Rightarrow> ns))"

fun check_hosts :: "ip_net list \<Rightarrow> string \<Rightarrow> string list \<Rightarrow> unit res" where
  "check_hosts denied url [] = Inr ()"
| "check_hosts denied url (host # hosts) =
     (case ip_address host of Inl e \<Rightarrow> Inl e
      | Inr addr \<Rightarrow>
        (case find (in_net addr) denied of
           Some net \<Rightarrow> Inl (SSRFBlockedError url host (net_text net))
         | None \<Rightarrow> check_hosts denied url hosts))"

text \<open>
  \<open>_resolve_hosts_sync\<close>: \<open>hostname\<close> is \<open>urlparse(url).hostname\<close> and \<open>lookup\<close> is \<open>getaddrinfo\<close>,
  \<open>None\<close> standing for a \<open>gaierror\<close>. The set of the addresses loses their order; the model keeps
  the order of the answer.
\<close>

definition resolve_hosts_sync ::
    "(string \<Rightarrow> string option res) \<Rightarrow> (string \<Rightarrow> string list option res) \<Rightarrow> string \<Rightarrow> string list res" where
  "resolve_hosts_sync hostname lookup url =
     (case hostname url of Inl e \<Rightarrow> Inl e
      | Inr None \<Rightarrow> Inl ValueError
      | Inr (Some host) \<Rightarrow>
        (case lookup host of Inl e \<Rightarrow> Inl e
         | Inr None \<Rightarrow> Inl (SSRFBlockedError url host unresolvable_sentinel)
         | Inr (Some addrs) \<Rightarrow>
             if addrs = [] then Inl (SSRFBlockedError url host unresolvable_sentinel)
             else Inr (remdups addrs)))"

definition validate ::
    "(string \<Rightarrow> string option res) \<Rightarrow> (string \<Rightarrow> string list option res) \<Rightarrow> ip_net list \<Rightarrow> string \<Rightarrow> unit res" where
  "validate hostname lookup denied url =
     (case resolve_hosts_sync hostname lookup url of Inl e \<Rightarrow> Inl e
      | Inr hosts \<Rightarrow> check_hosts denied url hosts)"



subsection \<open>Evaluating addresses\<close>

lemmas ip_defs = parse_octet_def parse_v4_def hex_digit_def parse_hextet_def v6_halves_def
  word_of_hextets_def drop_zone_def parse_v6_def ip_address_def net_part_def prefix_text_def
  v4_prefix_def network_v4_def network_v6_def ip_network_def is_ascii_digit_def

lemma replicate_numeral: "replicate (numeral k) x = x # replicate (pred_numeral k) x"
  by (simp add: numeral_eq_Suc)

lemmas ip_eval = ip_defs upt_rec mask_numeral replicate_numeral

lemma denied_ranges:
  "ssrf_guard None = Inr
     [Net4 0x7F000000 8, Net4 0x0A000000 8, Net4 0xAC100000 12, Net4 0xC0A80000 16, Net4 0xA9FE0000 16,
      Net6 1 128, Net6 0xFC000000000000000000000000000000 7, Net6 0xFE800000000000000000000000000000 10]"
  by (simp add: ssrf_guard_def DENIED_NETWORKS_def ip_eval)

text \<open>What the reader of addresses accepts and refuses, on the shapes its branches distinguish.\<close>

lemma ip_address_shapes:
  "ip_address ''::ffff:127.0.0.1'' = Inr (IPv6 0xFFFF7F000001)"
  "ip_address ''fe80::1%eth0'' = Inr (IPv6 0xFE800000000000000000000000000001)"
  "ip_address ''1:2:3:4:5:6:7::'' = Inr (IPv6 0x00010002000300040005000600070000)"
  "ip_address '':1::2'' = Inl ValueError" "ip_address ''1::2::3'' = Inl ValueError"
  "ip_address ''01.2.3.4'' = Inl ValueError"
  by (simp_all add: ip_eval)

text \<open>A network prints as its prefix form, whatever form of mask it was given in.\<close>

lemma net_text_shapes:
  "map_sum id (map net_text) (networks [''10.1.2.0/255.255.255.0'', ''1:0:0:2::/64'', ''::ffff:0:0/96''])
     = Inr [''10.1.2.0/24'', ''1:0:0:2::/64'', ''::ffff:0:0/96'']"
  by (simp add: ip_eval prefix_of_mask_def v4_text_def v6_text_def groups_of_def digits_of.simps Let_def
      char_of_def bit_0)

subsection \<open>Membership is a range of addresses\<close>

lemma net_part_push: "net_part p (w::'a::len word) = push_bit (LENGTH('a) - p) (drop_bit (LENGTH('a) - p) w)"
  unfolding net_part_def by (rule bit_word_eqI) (auto simp: bit_simps)

lemma net_part_eq_iff:
  fixes base w :: "'a::len word"
  assumes "net_part p base = base"
  shows "net_part p w = base \<longleftrightarrow> unat w div 2 ^ (LENGTH('a) - p) = unat base div 2 ^ (LENGTH('a) - p)"
proof -
  let ?n = "LENGTH('a) - p"
  have again: "drop_bit ?n (push_bit ?n (drop_bit ?n v)) = drop_bit ?n v" for v :: "'a word"
    by (rule bit_word_eqI) (auto simp: bit_simps dest: bit_imp_le_length)
  have "net_part p w = base \<longleftrightarrow> drop_bit ?n w = drop_bit ?n base"
    using assms again unfolding net_part_push by metis
  also have "\<dots> \<longleftrightarrow> unat (drop_bit ?n w) = unat (drop_bit ?n base)" by (simp only: word_unat_eq_iff)
  also have "\<dots> \<longleftrightarrow> unat w div 2 ^ ?n = unat base div 2 ^ ?n"
    unfolding unat_drop_bit_eq by (simp only: drop_bit_eq_div)
  finally show ?thesis .
qed

text \<open>An IPv4 address of four octets, as \<open>getaddrinfo\<close> prints it.\<close>

type_synonym quad = "nat \<times> nat \<times> nat \<times> nat"

fun dotted :: "quad \<Rightarrow> string" where
  "dotted (a, b, c, d) = digits_of a @ ''.'' @ digits_of b @ ''.'' @ digits_of c @ ''.'' @ digits_of d"

fun octets :: "quad \<Rightarrow> bool" where
  "octets (a, b, c, d) = (a < 256 \<and> b < 256 \<and> c < 256 \<and> d < 256)"

fun quad_value :: "quad \<Rightarrow> nat" where
  "quad_value (a, b, c, d) = ((a * 256 + b) * 256 + c) * 256 + d"

lemma parse_octet_digits:
  assumes "n < 256"
  shows "parse_octet (digits_of n) = Some n"
proof -
  consider "n < 10" | "10 \<le> n" "n < 100" | "100 \<le> n" by linarith
  then have "length (digits_of n) \<le> 3 \<and> (digits_of n = ''0'' \<or> hd (digits_of n) \<noteq> CHR ''0'')"
  proof cases
    case 1
    then show ?thesis by (auto simp: digits_of.simps [of n] char_of_def)
  next
    case 2
    then have "n div 10 < 10" "\<not> n < 10" by simp_all
    then have "of_char (hd (digits_of n)) = 48 + n div 10"
      by (simp add: digits_of.simps [of n] digits_of.simps [of "n div 10"])
    moreover have "n div 10 \<noteq> 0" using 2 by simp
    ultimately have "hd (digits_of n) \<noteq> CHR ''0''" by auto
    then show ?thesis using \<open>n div 10 < 10\<close> \<open>\<not> n < 10\<close>
      by (simp add: digits_of.simps [of n] digits_of.simps [of "n div 10"])
  next
    case 3
    have small: "n div 10 div 10 < 10" "\<not> n < 10" "\<not> n div 10 < 10" using 3 assms by simp_all
    then have "of_char (hd (digits_of n)) = 48 + n div 10 div 10"
      by (simp add: digits_of.simps [of n] digits_of.simps [of "n div 10"] digits_of.simps [of "n div 10 div 10"])
    moreover have "n div 10 div 10 \<noteq> 0" using 3 by simp
    ultimately have "hd (digits_of n) \<noteq> CHR ''0''" by auto
    then show ?thesis using small
      by (simp add: digits_of.simps [of n] digits_of.simps [of "n div 10"] digits_of.simps [of "n div 10 div 10"])
  qed
  then show ?thesis
    using assms digits_of_digits [of _ n] by (auto simp: parse_octet_def list_all_iff)
qed

lemma digits_of_no_dot: "CHR ''.'' \<notin> set (digits_of n)"
  using digits_of_digits [of "CHR ''.''" n] by (auto simp: is_ascii_digit_def)

lemma split_on_single: "c \<notin> set s \<Longrightarrow> split_on c s = [s]"
  by (induction s) auto

lemma ip_address_dotted:
  assumes "octets q"
  shows "ip_address (dotted q) = Inr (IPv4 (of_nat (quad_value q)))"
  using assms
  by (cases q) (simp add: ip_address_def parse_v4_def split_on_append [of "CHR ''.''"] digits_of_no_dot
      split_on_single parse_octet_digits)


subsection \<open>What the guard decides\<close>

definition refused :: "ip_net list \<Rightarrow> string \<Rightarrow> bool" where
  "refused denied host \<longleftrightarrow>
     (case ip_address host of Inl _ \<Rightarrow> True | Inr addr \<Rightarrow> \<exists>net\<in>set denied. in_net addr net)"

lemma check_hosts_ok: "check_hosts denied url hosts = Inr () \<longleftrightarrow> (\<forall>host\<in>set hosts. \<not> refused denied host)"
  by (induction hosts)
    (auto simp: refused_def find_None_iff find_Some_iff split: sum.splits option.splits)

lemma validate_ok:
  "validate hostname lookup denied url = Inr () \<longleftrightarrow>
     (\<exists>host addrs. hostname url = Inr (Some host) \<and> lookup host = Inr (Some addrs) \<and> addrs \<noteq> []
        \<and> (\<forall>a\<in>set addrs. \<not> refused denied a))"
  by (auto simp: validate_def resolve_hosts_sync_def check_hosts_ok split: sum.splits option.splits)

text \<open>More denied ranges never let more through.\<close>

lemma networks_append:
  "networks (xs @ ys) = (case networks xs of Inl e \<Rightarrow> Inl e
     | Inr as \<Rightarrow> (case networks ys of Inl e \<Rightarrow> Inl e | Inr bs \<Rightarrow> Inr (as @ bs)))"
  by (induction xs) (auto split: sum.splits)

lemma additional_ranges_only_refuse:
  assumes "ssrf_guard None = Inr denied" "ssrf_guard (Some extra) = Inr wider"
    and "validate hostname lookup wider url = Inr ()"
  shows "validate hostname lookup denied url = Inr ()"
proof -
  obtain more where "wider = denied @ more"
    using assms(1,2) by (auto simp: ssrf_guard_def networks_append split: sum.splits)
  then show ?thesis using assms(3) by (fastforce simp: validate_ok refused_def split: sum.splits)
qed

text \<open>The private ranges, read off the octets.\<close>

fun private_quad :: "quad \<Rightarrow> bool" where
  "private_quad (a, b, c, d) \<longleftrightarrow>
     a = 127 \<or> a = 10 \<or> a = 172 \<and> 16 \<le> b \<and> b < 32 \<or> a = 192 \<and> b = 168 \<or> a = 169 \<and> b = 254"

lemma base_digits:
  fixes a b r s k :: nat
  assumes "r < k" "s < k"
  shows "a * k + r = b * k + s \<longleftrightarrow> a = b \<and> r = s"
proof
  assume eq: "a * k + r = b * k + s"
  have "a = (a * k + r) div k" "b = (b * k + s) div k" using assms by simp_all
  with eq show "a = b \<and> r = s" by simp
qed simp

lemma unat_quad: "octets q \<Longrightarrow> unat (of_nat (quad_value q) :: 32 word) = quad_value q"
proof -
  assume "octets q"
  then have "quad_value q < 2 ^ LENGTH(32)" by (cases q) simp
  then show ?thesis by (simp only: unat_of_nat mod_less)
qed

lemma default_ranges:
  assumes "ssrf_guard None = Inr denied"
  shows "denied =
     [Net4 0x7F000000 8, Net4 0x0A000000 8, Net4 0xAC100000 12, Net4 0xC0A80000 16, Net4 0xA9FE0000 16,
      Net6 1 128, Net6 0xFC000000000000000000000000000000 7, Net6 0xFE800000000000000000000000000000 10]"
  using assms denied_ranges by simp

lemma in_net4:
  "net_part p base = base \<Longrightarrow>
     in_net (IPv4 w) (Net4 base p) \<longleftrightarrow> unat w div 2 ^ (32 - p) = unat base div 2 ^ (32 - p)"
  using net_part_eq_iff [of p base w] by simp

lemma refused_dotted:
  assumes "ssrf_guard None = Inr denied" "octets q"
  shows "refused denied (dotted q) \<longleftrightarrow> private_quad q"
proof (cases q)
  case (fields a b c d)
  have v: "quad_value q = a * 16777216 + b * 65536 + c * 256 + d" by (simp add: fields)
  have small: "a < 256" "b < 256" "c < 256" "d < 256" using assms(2) by (simp_all add: fields)
  let ?w = "of_nat (quad_value q) :: 32 word"
  have nets: "in_net (IPv4 ?w) (Net4 0x7F000000 8) \<longleftrightarrow> quad_value q div 16777216 = 127"
    "in_net (IPv4 ?w) (Net4 0x0A000000 8) \<longleftrightarrow> quad_value q div 16777216 = 10"
    "in_net (IPv4 ?w) (Net4 0xAC100000 12) \<longleftrightarrow> quad_value q div 1048576 = 2753"
    "in_net (IPv4 ?w) (Net4 0xC0A80000 16) \<longleftrightarrow> quad_value q div 65536 = 49320"
    "in_net (IPv4 ?w) (Net4 0xA9FE0000 16) \<longleftrightarrow> quad_value q div 65536 = 43518"
    by (subst in_net4, simp add: net_part_def mask_numeral, simp only: unat_quad [OF assms(2)], simp)+
  have "refused denied (dotted q) \<longleftrightarrow>
      quad_value q div 16777216 = 127 \<or> quad_value q div 16777216 = 10 \<or> quad_value q div 1048576 = 2753
      \<or> quad_value q div 65536 = 49320 \<or> quad_value q div 65536 = 43518"
    unfolding refused_def default_ranges [OF assms(1)] ip_address_dotted [OF assms(2)]
    by (simp only: sum.case list.set insert_iff nets in_net.simps(3,4) bex_simps simp_thms)
  also have "quad_value q div 16777216 = a" using small unfolding v by linarith
  also have "quad_value q div 1048576 = a * 16 + b div 16" using small unfolding v by linarith
  also have "quad_value q div 65536 = a * 256 + b" using small unfolding v by linarith
  also have "(a = 127 \<or> a = 10 \<or> a * 16 + b div 16 = 2753 \<or> a * 256 + b = 49320 \<or> a * 256 + b = 43518)
      \<longleftrightarrow> private_quad q"
  proof -
    have "a * 16 + b div 16 = 2753 \<longleftrightarrow> a = 172 \<and> b div 16 = 1"
      using base_digits [of "b div 16" 16 1 a 172] small by simp
    moreover have "b div 16 = 1 \<longleftrightarrow> 16 \<le> b \<and> b < 32" by (auto simp: div_nat_eqI)
    moreover have "a * 256 + b = 49320 \<longleftrightarrow> a = 192 \<and> b = 168"
      using base_digits [of b 256 168 a 192] small by simp
    moreover have "a * 256 + b = 43518 \<longleftrightarrow> a = 169 \<and> b = 254"
      using base_digits [of b 256 254 a 169] small by simp
    ultimately show ?thesis by (simp add: fields)
  qed
  finally show ?thesis .
qed

text \<open>
  \<^bold>\<open>C21\<close>: the guard is the intended predicate on addresses. With the default ranges, a URL whose host
  resolves to IPv4 addresses passes exactly when every one of them, not just the first, lies
  outside 127.0.0.0/8, 10.0.0.0/8, 172.16.0.0/12, 192.168.0.0/16 and 169.254.0.0/16, as read
  off its four octets; parsing, masks and word arithmetic included.
\<close>

theorem guard_reads_octets:
  assumes "ssrf_guard None = Inr denied" "hostname url = Inr (Some host)"
    and "lookup host = Inr (Some (map dotted quads))" "quads \<noteq> []" "\<forall>q\<in>set quads. octets q"
  shows "validate hostname lookup denied url = Inr () \<longleftrightarrow> (\<forall>q\<in>set quads. \<not> private_quad q)"
  using assms refused_dotted [OF assms(1)] by (auto simp: validate_ok)

theorem guard_reads_octets_witness:
  "validate (\<lambda>u. Inr (Some ''h'')) (\<lambda>h. Inr (Some (map dotted [(93, 184, 216, 34), (172, 31, 0, 7)])))
     [Net4 0x7F000000 8, Net4 0x0A000000 8, Net4 0xAC100000 12, Net4 0xC0A80000 16, Net4 0xA9FE0000 16,
      Net6 1 128, Net6 0xFC000000000000000000000000000000 7, Net6 0xFE800000000000000000000000000000 10] ''u'' \<noteq> Inr ()"
  by (subst guard_reads_octets [OF denied_ranges, of _ _ "''h''" _ "[(93, 184, 216, 34), (172, 31, 0, 7)]"]) simp_all

text \<open>
  What the ranges leave open: the unspecified address 0.0.0.0, which reaches the local host on
  Linux, and every IPv4 address wrapped as IPv4-mapped IPv6, loopback and the metadata service included.
\<close>

lemma unspecified_address_passes:
  assumes "ssrf_guard None = Inr denied"
  shows "validate (\<lambda>u. Inr (Some ''0.0.0.0'')) (\<lambda>h. Inr (Some [h])) denied url = Inr ()"
  using default_ranges [OF assms] by (simp add: validate_ok refused_def ip_eval)

lemma mapped_addresses_pass:
  assumes "ssrf_guard None = Inr denied" "addr \<in> {''::ffff:127.0.0.1'', ''::ffff:169.254.169.254'', ''::ffff:10.0.0.1''}"
  shows "validate (\<lambda>u. Inr (Some addr)) (\<lambda>h. Inr (Some [h])) denied url = Inr ()"
  using assms(2) default_ranges [OF assms(1)] by (elim insertE) (simp_all add: validate_ok refused_def ip_eval)

end
