(* ===== verification/Level1_Fetcher.thy ===== *)
theory Level1_Fetcher
  imports Ssrf_Guard
begin

text \<open>
  \<^verbatim>\<open>src/src/scraper_engine/fetcher/level_1.py\<close>, with the two clients it wraps
  (\<^verbatim>\<open>fetcher/scrapling_wrapper.py\<close> and \<^verbatim>\<open>services/botasaurus_requests_client.py\<close>):
  a fetch over HTTP alone. Up to three clients are
  tried in turn (the JA3-matched client, Scrapling, plain httpx), each following redirects by
  hand so that the SSRF guard sees every hop. The history of guard verdicts and requests is kept
  as a list, newest first: it is what the answers of the network may depend on, so a name may
  resolve differently from one moment to the next.
\<close>

subsection \<open>Clients, answers and the history\<close>

datatype engine = Ja3 | Scrapling | Httpx

datatype visit = Passed string | Rejected string | Requested engine string

datatype l1_error = Timed_Out | Failed_With fetch_exn

record l1_answer =
  la_status :: int
  la_text :: string
  la_url :: string
  la_location :: "string option"
  la_retry_after :: "string option"

text \<open>
  The fetcher: its guard, which clients it was built with, and the parameters outside the sources
  (name resolution, whether \<open>scrapling\<close> can be imported, \<open>httpx.URL.join\<close>, opening a client or a
  session, what each HTTP library answers, the texts of exceptions, the clocks).
\<close>

record level1 =
  l1_denied :: "ip_net list"
  l1_ja3_client :: bool
  l1_scrapling_client :: bool
  l1_hostname :: "string \<Rightarrow> string option res"
  l1_lookup :: "visit list \<Rightarrow> string \<Rightarrow> string list option res"
  l1_join :: "string \<Rightarrow> string \<Rightarrow> string res"
  l1_scrapling_available :: bool
  l1_client_error :: "engine \<Rightarrow> visit list \<Rightarrow> l1_error option"
  l1_http :: "engine \<Rightarrow> visit list \<Rightarrow> string \<Rightarrow> l1_error + l1_answer"
  l1_text :: "exn \<Rightarrow> string"
  l1_str :: "fetch_exn \<Rightarrow> string"
  l1_parse_date :: "string \<Rightarrow> rat option"
  l1_now :: "visit list \<Rightarrow> rat"
  l1_duration_ms :: "visit list \<Rightarrow> int"

definition MAX_REDIRECTS :: nat where
  "MAX_REDIRECTS = 10"

definition raised_as :: "level1 \<Rightarrow> exn \<Rightarrow> l1_error" where
  "raised_as self e = Failed_With
     (case e of SSRFBlockedError u h n \<Rightarrow> Guard_Rejection u h n | _ \<Rightarrow> Raised (l1_text self e))"

definition guard_verdict :: "level1 \<Rightarrow> visit list \<Rightarrow> string \<Rightarrow> unit res" where
  "guard_verdict self t url = validate (l1_hostname self) (l1_lookup self t) (l1_denied self) url"

definition guard_step :: "level1 \<Rightarrow> string \<Rightarrow> visit list \<Rightarrow> (l1_error + unit) \<times> visit list" where
  "guard_step self url t =
     (case guard_verdict self t url of
        Inl e \<Rightarrow> (Inl (raised_as self e), Rejected url # t)
      | Inr _ \<Rightarrow> (Inr (), Passed url # t))"

text \<open>
  \<open>ScraplingWrapper.fetch\<close>: no request at all when the package is missing, \<open>None\<close> when the request
  fails, and a \<open>location\<close> only behind a 3xx.
\<close>

definition scrapling_fetch :: "level1 \<Rightarrow> string \<Rightarrow> visit list \<Rightarrow> l1_answer option \<times> visit list" where
  "scrapling_fetch self url t =
     (if \<not> l1_scrapling_available self then (None, t)
      else (case l1_http self Scrapling t url of
              Inl _ \<Rightarrow> (None, Requested Scrapling url # t)
            | Inr page \<Rightarrow>
                (Some (page\<lparr>la_location := (if 300 \<le> la_status page \<and> la_status page < 400
                                            then la_location page else None)\<rparr>),
                 Requested Scrapling url # t)))"

text \<open>A request: \<open>None\<close> is the Scrapling wrapper's signal to fall back.\<close>

definition request :: "level1 \<Rightarrow> engine \<Rightarrow> string \<Rightarrow> visit list \<Rightarrow> (l1_error + l1_answer option) \<times> visit list" where
  "request self eng url t =
     (if eng = Scrapling then (case scrapling_fetch self url t of (r, t1) \<Rightarrow> (Inr r, t1))
      else (map_sum id Some (l1_http self eng t url), Requested eng url # t))"

subsection \<open>Following redirects\<close>

text \<open>
  Each client has its own test for a redirect: httpx calls every 3xx one and falls back to the
  URL of the response when there is no \<open>Location\<close>; the JA3 path asks for one of five statuses and a
  non-empty \<open>Location\<close>; the Scrapling wrapper answers with a \<open>location\<close> or without.
\<close>

fun redirect_target :: "engine \<Rightarrow> l1_answer \<Rightarrow> string option" where
  "redirect_target Httpx r =
     (if 300 \<le> la_status r \<and> la_status r < 400
      then Some (case la_location r of Some l \<Rightarrow> if l = [] then la_url r else l | None \<Rightarrow> la_url r) else None)"
| "redirect_target Ja3 r =
     (if la_status r \<in> {301, 302, 303, 307, 308}
      then (case la_location r of Some l \<Rightarrow> if l = [] then None else Some l | None \<Rightarrow> None) else None)"
| "redirect_target Scrapling r = la_location r"

definition still_redirects :: "engine \<Rightarrow> l1_answer \<Rightarrow> bool" where
  "still_redirects eng r \<longleftrightarrow> redirect_target eng r \<noteq> None"

fun follow :: "level1 \<Rightarrow> engine \<Rightarrow> nat \<Rightarrow> string \<Rightarrow> l1_answer \<Rightarrow> visit list
    \<Rightarrow> (l1_error + l1_answer option) \<times> visit list" where
  "follow self eng 0 current r t = (Inr (Some r), t)"
| "follow self eng (Suc n) current r t =
     (case redirect_target eng r of None \<Rightarrow> (Inr (Some r), t)
      | Some location \<Rightarrow>
        (case l1_join self current location of Inl e \<Rightarrow> (Inl (raised_as self e), t)
         | Inr nxt \<Rightarrow>
           (case guard_step self nxt t of
              (Inl e, t1) \<Rightarrow> (Inl e, t1)
            | (Inr _, t1) \<Rightarrow>
              (case request self eng nxt t1 of
                 (Inl e, t2) \<Rightarrow> (Inl e, t2)
               | (Inr None, t2) \<Rightarrow> (Inr None, t2)
               | (Inr (Some r2), t2) \<Rightarrow> follow self eng n nxt r2 t2))))"

definition redirect_limit_result :: "level1 \<Rightarrow> string \<Rightarrow> proxy option \<Rightarrow> int \<Rightarrow> visit list \<Rightarrow> fetch_result" where
  "redirect_limit_result self url proxy status t =
     (new_result url False 1 (l1_duration_ms self t))\<lparr>fr_http_status := Some status,
        fr_proxy_used := map_option proxy_key proxy, fr_failure_category := Some DETECTION_BLOCK,
        fr_error_message := Some ''Redirect limit (10) exceeded''\<rparr>"

text \<open>The result of a final answer; a malformed \<open>Retry-After\<close> of a 429 raises.\<close>

definition answered :: "level1 \<Rightarrow> string \<Rightarrow> proxy option \<Rightarrow> l1_answer \<Rightarrow> visit list \<Rightarrow> l1_error + fetch_result" where
  "answered self url proxy r t =
     (case retry_after_for (l1_parse_date self) (la_status r) (Some (\<lambda>_. la_retry_after r)) (l1_now self t) of
        Inl e \<Rightarrow> Inl (raised_as self e)
      | Inr wait \<Rightarrow>
        (let success = la_status r < 400 in
         Inr ((new_result url success 1 (l1_duration_ms self t))\<lparr>fr_http_status := Some (la_status r),
           fr_html := Some (la_text r), fr_proxy_used := map_option proxy_key proxy,
           fr_failure_category := (if success then None else classify_http_status (la_status r)),
           fr_retry_after_seconds := wait\<rparr>)))"

text \<open>One client from its first request to its result.\<close>

definition fetch_with :: "level1 \<Rightarrow> engine \<Rightarrow> string \<Rightarrow> proxy option \<Rightarrow> visit list
    \<Rightarrow> (l1_error + fetch_result option) \<times> visit list" where
  "fetch_with self eng url proxy t0 =
     (case request self eng url t0 of
        (Inl e, t) \<Rightarrow> (Inl e, t)
      | (Inr None, t) \<Rightarrow> (Inr None, t)
      | (Inr (Some r0), t1) \<Rightarrow>
        (case follow self eng MAX_REDIRECTS url r0 t1 of
           (Inl e, t) \<Rightarrow> (Inl e, t)
         | (Inr None, t) \<Rightarrow> (Inr None, t)
         | (Inr (Some r), t) \<Rightarrow>
           if still_redirects eng r then (Inr (Some (redirect_limit_result self url proxy (la_status r) t)), t)
           else (case answered self url proxy r t of
                   Inl e \<Rightarrow> (Inl e, t) | Inr result \<Rightarrow> (Inr (Some result), t))))"

text \<open>The two optional clients: whatever they raise is swallowed, and the next one is tried.\<close>

definition fetch_via_ja3 :: "level1 \<Rightarrow> string \<Rightarrow> proxy option \<Rightarrow> visit list \<Rightarrow> fetch_result option \<times> visit list" where
  "fetch_via_ja3 self url proxy t =
     (case l1_client_error self Ja3 t of Some e \<Rightarrow> (None, t)
      | None \<Rightarrow> (case fetch_with self Ja3 url proxy t of (Inl e, t1) \<Rightarrow> (None, t1) | (Inr res, t1) \<Rightarrow> (res, t1)))"

definition fetch_via_scrapling :: "level1 \<Rightarrow> string \<Rightarrow> proxy option \<Rightarrow> visit list \<Rightarrow> fetch_result option \<times> visit list" where
  "fetch_via_scrapling self url proxy t =
     (case fetch_with self Scrapling url proxy t of (Inl e, t1) \<Rightarrow> (None, t1) | (Inr res, t1) \<Rightarrow> (res, t1))"

definition l1_failure :: "level1 \<Rightarrow> string \<Rightarrow> l1_error \<Rightarrow> visit list \<Rightarrow> fetch_result" where
  "l1_failure self url err t =
     (let (category, message) =
        (case err of Timed_Out \<Rightarrow> (NETWORK_TIMEOUT, ''Request timed out'')
         | Failed_With e \<Rightarrow> (classify_fetch_exception e NETWORK_TIMEOUT, l1_str self e)) in
      (new_result url False 1 (l1_duration_ms self t))\<lparr>fr_failure_category := Some category,
        fr_error_message := Some message\<rparr>)"

text \<open>The last client. (httpx always answers or raises; \<open>None\<close> stands for the attribute error it would be.)\<close>

definition fetch_via_httpx :: "level1 \<Rightarrow> string \<Rightarrow> proxy option \<Rightarrow> visit list \<Rightarrow> fetch_result \<times> visit list" where
  "fetch_via_httpx self url proxy t =
     (case l1_client_error self Httpx t of Some e \<Rightarrow> (l1_failure self url e t, t)
      | None \<Rightarrow>
        (case fetch_with self Httpx url proxy t of
           (Inl e, t1) \<Rightarrow> (l1_failure self url e t1, t1)
         | (Inr None, t1) \<Rightarrow> (l1_failure self url (raised_as self (OtherError ''AttributeError'')) t1, t1)
         | (Inr (Some res), t1) \<Rightarrow> (res, t1)))"

definition scrapling_then_httpx :: "level1 \<Rightarrow> string \<Rightarrow> proxy option \<Rightarrow> visit list \<Rightarrow> fetch_result \<times> visit list" where
  "scrapling_then_httpx self url proxy t =
     (if l1_scrapling_client self
      then (case fetch_via_scrapling self url proxy t of
              (Some res, t1) \<Rightarrow> (res, t1) | (None, t1) \<Rightarrow> fetch_via_httpx self url proxy t1)
      else fetch_via_httpx self url proxy t)"

definition level1_fetch :: "level1 \<Rightarrow> string \<Rightarrow> proxy option \<Rightarrow> fetch_result \<times> visit list" where
  "level1_fetch self url proxy =
     (case guard_step self url [] of
        (Inl e, t) \<Rightarrow> (l1_failure self url e t, t)
      | (Inr _, t) \<Rightarrow>
        if l1_ja3_client self
        then (case fetch_via_ja3 self url proxy t of
                (Some res, t1) \<Rightarrow> (res, t1) | (None, t1) \<Rightarrow> scrapling_then_httpx self url proxy t1)
        else scrapling_then_httpx self url proxy t)"

text \<open>The factory: which clients the configuration asks for, and its guard's extra ranges.\<close>

definition build_level1_fetcher ::
    "bool \<Rightarrow> string \<Rightarrow> string list \<Rightarrow> level1 \<Rightarrow> level1 res" where
  "build_level1_fetcher ja3_enabled engine_name additional_denied_cidrs base =
     (case ssrf_guard (Some additional_denied_cidrs) of Inl e \<Rightarrow> Inl e
      | Inr denied \<Rightarrow> Inr (base\<lparr>l1_denied := denied, l1_ja3_client := ja3_enabled,
          l1_scrapling_client := (engine_name = ''scrapling'')\<rparr>))"

subsection \<open>Every request was cleared\<close>

text \<open>
  What the history of a fetch guarantees: a \<open>Passed\<close> was a verdict of the guard on the names as they
  resolved then, and every request is for a URL that passed before it.
\<close>

fun cleared :: "level1 \<Rightarrow> visit list \<Rightarrow> bool" where
  "cleared self [] = True"
| "cleared self (Passed u # t) \<longleftrightarrow> guard_verdict self t u = Inr () \<and> cleared self t"
| "cleared self (Rejected u # t) = cleared self t"
| "cleared self (Requested eng u # t) \<longleftrightarrow> Passed u \<in> set t \<and> cleared self t"

fun requests :: "visit list \<Rightarrow> nat" where
  "requests [] = 0"
| "requests (Requested eng u # t) = Suc (requests t)"
| "requests (_ # t) = requests t"

text \<open>One operation on the history: it stays cleared, keeps the clearances and adds few requests.\<close>

definition extends :: "level1 \<Rightarrow> nat \<Rightarrow> visit list \<Rightarrow> visit list \<Rightarrow> bool" where
  "extends self n t t1 \<longleftrightarrow> cleared self t1 \<and> set t \<subseteq> set t1 \<and> requests t1 \<le> requests t + n"

lemma extends_refl: "cleared self t \<Longrightarrow> extends self n t t"
  by (simp add: extends_def)

lemma extends_trans: "extends self m t t1 \<Longrightarrow> extends self n t1 t2 \<Longrightarrow> m + n \<le> k \<Longrightarrow> extends self k t t2"
  by (auto simp: extends_def)

lemma extends_mono: "extends self m t t1 \<Longrightarrow> m \<le> n \<Longrightarrow> extends self n t t1"
  by (auto simp: extends_def)

lemma extends_cleared: "extends self n t t1 \<Longrightarrow> cleared self t1"
  by (simp add: extends_def)

lemma extends_passed: "extends self n t t1 \<Longrightarrow> Passed u \<in> set t \<Longrightarrow> Passed u \<in> set t1"
  by (auto simp: extends_def)

lemma guard_step_extends: "cleared self t \<Longrightarrow> guard_step self url t = (res, t1) \<Longrightarrow> extends self 0 t t1"
  by (auto simp: guard_step_def extends_def split: sum.splits)

lemma guard_step_passed: "guard_step self url t = (Inr x, t1) \<Longrightarrow> Passed url \<in> set t1"
  by (auto simp: guard_step_def split: sum.splits)

lemma request_extends:
  "cleared self t \<Longrightarrow> Passed url \<in> set t \<Longrightarrow> request self eng url t = (res, t1) \<Longrightarrow> extends self 1 t t1"
  by (auto simp: request_def scrapling_fetch_def extends_def split: sum.splits if_splits)

lemma follow_extends:
  "cleared self t \<Longrightarrow> follow self eng n current r t = (res, t1) \<Longrightarrow> extends self n t t1"
proof (induction self eng n current r t arbitrary: res t1 rule: follow.induct)
  case (2 self eng n current r t)
  show ?case
  proof (cases "redirect_target eng r")
    case None
    with 2(2,3) show ?thesis by (simp add: extends_refl)
  next
    case (Some location)
    show ?thesis
    proof (cases "l1_join self current location")
      case (Inl e)
      with 2(2,3) Some show ?thesis by (simp add: extends_refl)
    next
      case (Inr nxt)
      obtain g t2 where g: "guard_step self nxt t = (g, t2)" by (metis prod.exhaust)
      have e1: "extends self 0 t t2" by (rule guard_step_extends [OF 2(2) g])
      show ?thesis
      proof (cases g)
        case (Inl e)
        with 2(3) Some Inr g have "t1 = t2" by simp
        then show ?thesis using extends_mono [OF e1, of "Suc n"] by simp
      next
        case (Inr u)
        obtain q t3 where q: "request self eng nxt t2 = (q, t3)" by (metis prod.exhaust)
        have e2: "extends self 1 t2 t3"
          using request_extends [OF extends_cleared [OF e1] _ q] guard_step_passed g Inr by blast
        have e12: "extends self 1 t t3" by (rule extends_trans [OF e1 e2]) simp
        consider e where "q = Inl e" | "q = Inr None" | r2 where "q = Inr (Some r2)"
          by (metis option.exhaust sum.exhaust)
        then show ?thesis
        proof cases
          case 3
          have "follow self eng n nxt r2 t3 = (res, t1)"
            using 2(3) Some \<open>l1_join self current location = Inr nxt\<close> g Inr q 3 by simp
          then have "extends self n t3 t1"
            by (rule 2(1) [OF Some \<open>l1_join self current location = Inr nxt\<close> g [symmetric] Inr q [symmetric] 3 refl
                  extends_cleared [OF e12]])
          then show ?thesis by (rule extends_trans [OF e12]) simp
        qed (use 2(3) Some \<open>l1_join self current location = Inr nxt\<close> g Inr q extends_mono [OF e12, of "Suc n"] in
            simp_all)
      qed
    qed
  qed
qed (auto intro: extends_refl)

lemma fetch_with_extends:
  assumes "cleared self t" "Passed url \<in> set t" "fetch_with self eng url proxy t = (res, t1)"
  shows "extends self 11 t t1"
proof -
  obtain q t2 where q: "request self eng url t = (q, t2)" by (metis prod.exhaust)
  have e: "extends self 1 t t2" by (rule request_extends [OF assms(1,2) q])
  show ?thesis
  proof (cases "\<exists>r. q = Inr (Some r)")
    case True
    then obtain r where r: "q = Inr (Some r)" by blast
    obtain g t3 where g: "follow self eng MAX_REDIRECTS url r t2 = (g, t3)" by (metis prod.exhaust)
    have "t1 = t3" using assms(3) q r g by (auto simp: fetch_with_def split: sum.splits option.splits if_splits)
    then show ?thesis
      using extends_trans [OF e follow_extends [OF extends_cleared [OF e] g]] by (simp add: MAX_REDIRECTS_def)
  next
    case False
    then have "t1 = t2" using assms(3) q by (auto simp: fetch_with_def split: sum.splits option.splits)
    then show ?thesis using extends_mono [OF e] by simp
  qed
qed

lemma fetch_via_extends:
  assumes "cleared self t" "Passed url \<in> set t"
  shows "extends self 11 t (snd (fetch_via_ja3 self url proxy t))"
    and "extends self 11 t (snd (fetch_via_scrapling self url proxy t))"
    and "extends self 11 t (snd (fetch_via_httpx self url proxy t))"
  using fetch_with_extends [OF assms] extends_mono [OF extends_refl [OF assms(1)], of 11]
  by (auto simp: fetch_via_ja3_def fetch_via_scrapling_def fetch_via_httpx_def
      split: option.splits prod.splits sum.splits)

lemma scrapling_then_httpx_extends:
  assumes "cleared self t" "Passed url \<in> set t"
  shows "extends self 22 t (snd (scrapling_then_httpx self url proxy t))"
proof (cases "l1_scrapling_client self")
  case True
  obtain res t1 where s: "fetch_via_scrapling self url proxy t = (res, t1)" by (metis prod.exhaust)
  have e: "extends self 11 t t1" using fetch_via_extends(2) [OF assms, of proxy] s by simp
  have "extends self 11 t1 (snd (fetch_via_httpx self url proxy t1))"
    using e assms(2) by (intro fetch_via_extends(3) extends_cleared) (auto intro: extends_passed)
  with e have "extends self 22 t (snd (fetch_via_httpx self url proxy t1))" by (rule extends_trans) simp
  then show ?thesis using True s extends_mono [OF e] by (auto simp: scrapling_then_httpx_def split: option.splits)
next
  case False
  then show ?thesis
    using extends_mono [OF fetch_via_extends(3) [OF assms, of proxy], of 22] by (simp add: scrapling_then_httpx_def)
qed

lemma level1_extends: "extends self 33 [] (snd (level1_fetch self url proxy))"
proof -
  obtain g t where g: "guard_step self url [] = (g, t)" by (metis prod.exhaust)
  have e: "extends self 0 [] t" by (rule guard_step_extends [OF _ g]) simp
  show ?thesis
  proof (cases g)
    case (Inl err)
    then show ?thesis using g extends_mono [OF e] by (simp add: level1_fetch_def)
  next
    case (Inr u)
    have c: "cleared self t" "Passed url \<in> set t" using extends_cleared [OF e] guard_step_passed g Inr by blast+
    obtain res t1 where j: "fetch_via_ja3 self url proxy t = (res, t1)" by (metis prod.exhaust)
    have ej: "extends self 11 [] t1" using extends_trans [OF e, of 11 t1] fetch_via_extends(1) [OF c, of proxy] j by simp
    have c1: "cleared self t1" "Passed url \<in> set t1"
      using fetch_via_extends(1) [OF c, of proxy] j c(2) extends_cleared extends_passed by fastforce+
    have "extends self 33 [] (snd (scrapling_then_httpx self url proxy t1))"
      using extends_trans [OF ej scrapling_then_httpx_extends [OF c1]] by simp
    moreover have "extends self 33 [] (snd (scrapling_then_httpx self url proxy t))"
      using extends_trans [OF e scrapling_then_httpx_extends [OF c]] by simp
    ultimately show ?thesis
      using g Inr j extends_mono [OF ej] by (auto simp: level1_fetch_def split: option.splits)
  qed
qed

lemma cleared_suffix: "cleared self (xs @ ys) \<Longrightarrow> cleared self ys"
proof (induction xs)
  case (Cons v xs)
  then show ?case by (cases v) auto
qed simp

lemma cleared_request:
  assumes "cleared self (later @ Requested eng u # earlier)"
  shows "\<exists>t t'. earlier = t' @ Passed u # t \<and> guard_verdict self t u = Inr ()"
proof -
  from cleared_suffix [OF assms] have "Passed u \<in> set earlier" "cleared self earlier" by simp_all
  then obtain t' t where "earlier = t' @ Passed u # t" by (meson split_list)
  with cleared_suffix \<open>cleared self earlier\<close> show ?thesis by fastforce
qed

text \<open>
  \<^bold>\<open>C3\<close>: no request leaves the process for a URL the guard did not clear. Whatever the names
  resolve to from one moment to the next, whatever the sites answer, whichever of the three
  clients is speaking and however long the chain of redirects is: every URL a level-1 fetch
  requests was checked before it in the same fetch, and at that moment its host resolved to
  addresses none of which the guard refuses.
\<close>

theorem requests_are_cleared:
  assumes "snd (level1_fetch self url proxy) = later @ Requested eng u # earlier"
  shows "\<exists>t t' host addrs. earlier = t' @ Passed u # t \<and> l1_hostname self u = Inr (Some host)
     \<and> l1_lookup self t host = Inr (Some addrs) \<and> addrs \<noteq> [] \<and> (\<forall>a\<in>set addrs. \<not> refused (l1_denied self) a)"
proof -
  have "cleared self (later @ Requested eng u # earlier)"
    using extends_cleared [OF level1_extends] assms by metis
  then show ?thesis by (auto dest!: cleared_request simp: guard_verdict_def validate_ok)
qed

text \<open>A fetch makes at most 33 requests: three clients, each with its ten redirects.\<close>

lemma level1_requests_bounded: "requests (snd (level1_fetch self url proxy)) \<le> 33"
  using level1_extends [of self url proxy] by (simp add: extends_def)


subsection \<open>A site that redirects, evaluated\<close>

text \<open>Every path answers 302 to \<open>/b\<close>, which answers 200.\<close>

definition demo_site :: level1 where
  "demo_site =
     \<lparr>l1_denied = [Net4 0x7F000000 8], l1_ja3_client = False, l1_scrapling_client = False,
      l1_hostname = (\<lambda>u. Inr (Some ''shop.example'')), l1_lookup = (\<lambda>t h. Inr (Some [''93.184.216.34''])),
      l1_join = (\<lambda>u l. Inr l), l1_scrapling_available = False, l1_client_error = (\<lambda>eng t. None),
      l1_http = (\<lambda>eng t u. Inr \<lparr>la_status = (if u = ''/b'' then 200 else 302), la_text = ''page'', la_url = u,
                  la_location = (if u = ''/b'' then None else Some ''/b''), la_retry_after = None\<rparr>),
      l1_text = (\<lambda>e. []), l1_str = (\<lambda>e. []), l1_parse_date = (\<lambda>s. None), l1_now = (\<lambda>t. 0),
      l1_duration_ms = (\<lambda>t. 5)\<rparr>"

lemmas l1_steps = level1_fetch_def guard_step_def guard_verdict_def scrapling_then_httpx_def fetch_via_httpx_def
  fetch_with_def request_def still_redirects_def answered_def retry_after_for_def RATE_LIMITED_STATUS_def

lemma demo_site_passes: "guard_verdict demo_site t u = Inr ()"
proof -
  have "\<not> refused [Net4 0x7F000000 8] ''93.184.216.34''" by (simp add: refused_def ip_eval)
  then show ?thesis by (simp add: guard_verdict_def demo_site_def validate_ok)
qed

lemma demo_site_history:
  "snd (level1_fetch demo_site ''/a'' None) =
     [Requested Httpx ''/b'', Passed ''/b'', Requested Httpx ''/a'', Passed ''/a'']"
proof -
  have "guard_step demo_site u t = (Inr (), Passed u # t)" for u t
    by (simp add: guard_step_def demo_site_passes)
  then show ?thesis
    by (simp add: level1_fetch_def scrapling_then_httpx_def fetch_via_httpx_def fetch_with_def request_def
        still_redirects_def answered_def retry_after_for_def RATE_LIMITED_STATUS_def demo_site_def
        MAX_REDIRECTS_def numeral_eq_Suc)
qed

lemma requests_are_cleared_witness:
  "\<exists>t t' host addrs. [Passed ''/b'', Requested Httpx ''/a'', Passed ''/a''] = t' @ Passed ''/b'' # t
     \<and> l1_hostname demo_site ''/b'' = Inr (Some host) \<and> l1_lookup demo_site t host = Inr (Some addrs) \<and> addrs \<noteq> []"
  using requests_are_cleared [of demo_site "''/a''" None "[]" Httpx "''/b''" "[Passed ''/b'', Requested Httpx ''/a'', Passed ''/a'']"]
    demo_site_history by auto

subsection \<open>Outcomes\<close>

text \<open>A target the guard refuses is never contacted, and its failure is the guard's verdict.\<close>

lemma refused_target_is_not_contacted:
  assumes "guard_verdict self [] url = Inl (SSRFBlockedError u h n)"
  shows "snd (level1_fetch self url proxy) = [Rejected url]"
    and "fr_failure_category (fst (level1_fetch self url proxy)) =
           Some (if n = unresolvable_sentinel then HOST_UNREACHABLE else SSRF_BLOCKED)"
    and "\<not> fr_success (fst (level1_fetch self url proxy))"
  using assms by (simp_all add: level1_fetch_def guard_step_def raised_as_def l1_failure_def classify_fetch_exception_def)

text \<open>Only a final answer below 400 is a success; a chain cut off at its last redirect is a block.\<close>

lemma fetch_with_success:
  assumes "fetch_with self eng url proxy t = (Inr (Some res), t1)"
  shows "fr_success res \<Longrightarrow> \<exists>code. fr_http_status res = Some code \<and> code < 400 \<and> fr_failure_category res = None"
    and "fr_success res \<or> fr_failure_category res \<in> {None, Some DETECTION_BLOCK, Some RATE_LIMITED}"
  using assms
  by (auto simp: fetch_with_def answered_def redirect_limit_result_def Let_def dest!: classify_http_status_cases
      split: sum.splits option.splits prod.splits if_splits)

definition redirects_forever :: "level1 \<Rightarrow> bool" where
  "redirects_forever self \<longleftrightarrow>
     (\<forall>eng t u r. l1_http self eng t u = Inr r \<longrightarrow>
        la_status r \<in> {301, 302, 303, 307, 308} \<and> (\<exists>l. la_location r = Some l \<and> l \<noteq> []))"

lemma request_redirects:
  assumes "redirects_forever self" "request self eng url t = (Inr (Some r), t1)"
  shows "still_redirects eng r"
proof (cases "l1_http self eng t url")
  case (Inl e)
  then show ?thesis using assms(2) by (auto simp: request_def scrapling_fetch_def split: if_splits)
next
  case (Inr raw)
  then obtain l where "la_status raw \<in> {301, 302, 303, 307, 308}" "la_location raw = Some l" "l \<noteq> []"
    using assms(1) unfolding redirects_forever_def by blast
  then show ?thesis
    using Inr assms(2)
    by (cases eng) (auto simp: request_def scrapling_fetch_def still_redirects_def split: if_splits)
qed

lemma follow_still_redirects:
  assumes "redirects_forever self" "follow self eng n current r t = (Inr (Some r1), t1)" "still_redirects eng r"
  shows "still_redirects eng r1"
  using assms(2,3)
proof (induction n arbitrary: current r t)
  case (Suc n)
  then show ?case
    by (auto split: option.splits sum.splits prod.splits dest: request_redirects [OF assms(1)])
qed auto

lemma fetch_with_loop:
  assumes "redirects_forever self" "fetch_with self eng url proxy t = (Inr (Some res), t1)"
  shows "\<not> fr_success res \<and> fr_failure_category res = Some DETECTION_BLOCK"
proof -
  obtain r0 t2 where q: "request self eng url t = (Inr (Some r0), t2)"
    using assms(2) by (auto simp: fetch_with_def split: prod.splits sum.splits option.splits)
  obtain r t3 where f: "follow self eng MAX_REDIRECTS url r0 t2 = (Inr (Some r), t3)"
    using assms(2) q by (auto simp: fetch_with_def split: prod.splits sum.splits option.splits)
  have "still_redirects eng r" by (rule follow_still_redirects [OF assms(1) f request_redirects [OF assms(1) q]])
  with assms(2) q f show ?thesis by (auto simp: fetch_with_def redirect_limit_result_def)
qed

lemma l1_failure_fails [simp]: "\<not> fr_success (l1_failure self url e t)"
  by (auto simp: l1_failure_def Let_def split: l1_error.splits)

text \<open>
  An endless chain of redirects is never reported as a success, by none of the three clients.
\<close>

lemma endless_redirects_never_succeed:
  assumes "redirects_forever self"
  shows "\<not> fr_success (fst (level1_fetch self url proxy))"
proof -
  have hx: "\<not> fr_success (fst (fetch_via_httpx self url proxy t))" for t
    by (auto simp: fetch_via_httpx_def dest: fetch_with_loop [OF assms] split: option.splits prod.splits sum.splits)
  have sc: "\<not> fr_success (fst (scrapling_then_httpx self url proxy t))" for t
    by (auto simp: scrapling_then_httpx_def fetch_via_scrapling_def hx dest: fetch_with_loop [OF assms]
        split: option.splits prod.splits sum.splits)
  show ?thesis
    by (auto simp: level1_fetch_def fetch_via_ja3_def sc dest: fetch_with_loop [OF assms]
        split: option.splits prod.splits sum.splits)
qed

text \<open>
  The clients disagree on a 3xx that names no other place: the JA3 path returns a 304 as the page, the
  httpx path takes it for a redirect to the same URL, asks ten more times and reports a block.
\<close>

lemma not_modified_is_a_block:
  assumes "\<And>t u. l1_http self Httpx t u = Inr r" "la_status r = 304" "la_location r = None"
    and "\<And>t. guard_verdict self t url = Inr ()" "l1_join self url (la_url r) = Inr url"
    and "l1_client_error self Httpx t0 = None"
  shows "fr_failure_category (fst (fetch_via_httpx self url proxy t0)) = Some DETECTION_BLOCK"
    and "requests (snd (fetch_via_httpx self url proxy t0)) = requests t0 + 11"
    and "redirect_target Ja3 r = None"
proof -
  have f: "\<exists>t1. follow self Httpx n url r t = (Inr (Some r), t1) \<and> requests t1 = requests t + n" for n t
  proof (induction n arbitrary: t)
    case (Suc n)
    from Suc [of "Requested Httpx url # Passed url # t"] show ?case
      using assms by (auto simp: guard_step_def request_def)
  qed simp
  obtain t1 where t1: "follow self Httpx MAX_REDIRECTS url r (Requested Httpx url # t0) = (Inr (Some r), t1)"
    "requests t1 = Suc (requests t0) + 10"
    using f [of MAX_REDIRECTS "Requested Httpx url # t0"] by (auto simp: MAX_REDIRECTS_def)
  have "fetch_via_httpx self url proxy t0 = (redirect_limit_result self url proxy 304 t1, t1)"
    using assms t1 by (simp add: fetch_via_httpx_def fetch_with_def request_def still_redirects_def)
  then show "fr_failure_category (fst (fetch_via_httpx self url proxy t0)) = Some DETECTION_BLOCK"
    "requests (snd (fetch_via_httpx self url proxy t0)) = requests t0 + 11"
    using t1 by (simp_all add: redirect_limit_result_def)
  show "redirect_target Ja3 r = None" using assms by simp
qed

end
