(* ===== verification/Challenge_Detector.thy ===== *)
theory Challenge_Detector
  imports Failure_Policy
begin

text \<open>
  \<^verbatim>\<open>src/src/scraper_engine/fetcher/challenge_detector.py\<close>: is a page a block, a challenge or an
  interstitial instead of content? The regular expressions are written out as matchers on
  strings, with the word characters and the white space of Python's \<open>re\<close> on Latin-1 text.
\<close>

subsection \<open>Character classes and searches\<close>

definition is_word_char :: "char \<Rightarrow> bool" where
  "is_word_char c \<longleftrightarrow>
     (let n = (of_char c :: nat) in
      (48 \<le> n \<and> n \<le> 57) \<or> (65 \<le> n \<and> n \<le> 90) \<or> n = 95 \<or> (97 \<le> n \<and> n \<le> 122)
      \<or> n \<in> {170, 178, 179, 181, 185, 186, 188, 189, 190}
      \<or> (192 \<le> n \<and> n \<noteq> 215 \<and> n \<noteq> 247))"

text \<open>Is there no word character at the head: the right-hand \<open>\b\<close> behind a word character.\<close>

definition word_ends :: "string \<Rightarrow> bool" where
  "word_ends s = (case s of [] \<Rightarrow> True | c # _ \<Rightarrow> \<not> is_word_char c)"

text \<open>
  \<open>\bX\b\<close> for an \<open>X\<close> that begins and ends with word characters: some position behind a
  non-word character where one of the lengths \<open>m\<close> offers is followed by a boundary.
\<close>

fun search_word :: "(string \<Rightarrow> nat list) \<Rightarrow> bool \<Rightarrow> string \<Rightarrow> bool" where
  "search_word m behind_word [] = False"
| "search_word m behind_word (c # cs) =
     ((\<not> behind_word \<and> (\<exists>k \<in> set (m (c # cs)). word_ends (drop k (c # cs))))
      \<or> search_word m (is_word_char c) cs)"

text \<open>A search at every position.\<close>

fun search_at :: "(string \<Rightarrow> bool) \<Rightarrow> string \<Rightarrow> bool" where
  "search_at m [] = m []"
| "search_at m (c # cs) = (m (c # cs) \<or> search_at m cs)"

lemma search_at_iff: "search_at m s \<longleftrightarrow> (\<exists>a b. s = a @ b \<and> m b)"
  by (induction s) (auto simp: Cons_eq_append_conv)

text \<open>Matching one literal after the other, \<open>None\<close> when it is not there.\<close>

definition lit :: "string \<Rightarrow> string \<Rightarrow> string option" where
  "lit p s = (if starts_with s p then Some (drop (length p) s) else None)"

definition spaces0 :: "string \<Rightarrow> string option" where
  "spaces0 s = Some (dropWhile is_space s)"

definition spaces1 :: "string \<Rightarrow> string option" where
  "spaces1 s = (case s of c # _ \<Rightarrow> if is_space c then Some (dropWhile is_space s) else None | [] \<Rightarrow> None)"

definition opt_lit :: "string \<Rightarrow> string \<Rightarrow> string option" where
  "opt_lit p s = (if starts_with s p then Some (drop (length p) s) else Some s)"

subsection \<open>Visible text\<close>

function strip_tags :: "string \<Rightarrow> string" where
  "strip_tags [] = []"
| "strip_tags (c # cs) =
     (if c = CHR ''<'' \<and> cs \<noteq> [] \<and> hd cs \<noteq> CHR ''>'' \<and> CHR ''>'' \<in> set cs
      then CHR '' '' # strip_tags (tl (dropWhile (\<lambda>d. d \<noteq> CHR ''>'') cs))
      else c # strip_tags cs)"
  by pat_completeness auto

lemma length_dropWhile_less: "length (dropWhile P cs) - Suc 0 < Suc (length cs)"
  by (meson diff_le_self le_imp_less_Suc length_dropWhile_le order_trans)

termination strip_tags
  by (relation "measure length") (auto simp: length_dropWhile_less)

function collapse_ws :: "string \<Rightarrow> string" where
  "collapse_ws [] = []"
| "collapse_ws (c # cs) =
     (if is_space c then CHR '' '' # collapse_ws (dropWhile is_space cs) else c # collapse_ws cs)"
  by pat_completeness auto

termination collapse_ws
  by (relation "measure length") (auto simp: le_imp_less_Suc length_dropWhile_le)

definition strip_html :: "string \<Rightarrow> string" where
  "strip_html html = py_strip (collapse_ws (strip_tags html))"

text \<open>The visible text is never longer than the page.\<close>

lemma length_strip_tags: "length (strip_tags s) \<le> length s"
proof (induction s rule: strip_tags.induct)
  case (2 c cs)
  have "length (tl (dropWhile (\<lambda>d. d \<noteq> CHR ''>'') cs)) \<le> length cs"
    using length_dropWhile_less [of _ cs] by (simp add: less_Suc_eq_le)
  with 2 show ?case by (auto intro: order_trans)
qed simp

lemma length_collapse_ws: "length (collapse_ws s) \<le> length s"
proof (induction s rule: collapse_ws.induct)
  case (2 c cs)
  with length_dropWhile_le [of is_space cs] show ?case by (auto intro: order_trans)
qed simp

lemma length_py_strip: "length (py_strip s) \<le> length s"
  by (metis length_dropWhile_le length_rev order_trans py_strip_def)

lemma length_strip_html: "length (strip_html s) \<le> length s"
  unfolding strip_html_def
  using length_py_strip length_collapse_ws length_strip_tags by (meson order_trans)

subsection \<open>The signatures\<close>

definition CHALLENGE_SIGNATURES :: "string list" where
  "CHALLENGE_SIGNATURES =
     [''cf-browser-verification'', ''cf-challenge-running'', ''h-captcha'', ''datadome'',
      ''akamai-bot-manager'', ''_challenge'', ''captcha-delivery'', ''attention required'',
      ''please verify you are a human'', ''access denied'', ''request blocked'',
      ''verifying your browser'', ''checking your browser'', ''error code: 1010'']"

definition CHALLENGE_STATUS_CODES :: "int list" where
  "CHALLENGE_STATUS_CODES = [403, 404, 429, 500, 502, 503, 504]"

definition GATEWAY_ERROR_MAX_LEN :: nat where
  "GATEWAY_ERROR_MAX_LEN = 300"

definition gateway_error_number :: "string \<Rightarrow> nat list" where
  "gateway_error_number s =
     (case s of a # b # c # _ \<Rightarrow> if a = CHR ''5'' \<and> is_ascii_digit b \<and> is_ascii_digit c then [3] else []
      | _ \<Rightarrow> [])"

definition gateway_error_word :: "string \<Rightarrow> nat list" where
  "gateway_error_word s =
     map length (filter (starts_with (py_lower s))
       [''error'', ''gateway'', ''unavailable'', ''timeout'', ''time-out'', ''refused'', ''failure''])"

definition looks_like_gateway_error :: "string \<Rightarrow> bool" where
  "looks_like_gateway_error html =
     (if html = [] then False
      else let visible = strip_html html in
        if visible = [] \<or> length visible > GATEWAY_ERROR_MAX_LEN then False
        else search_word gateway_error_number False visible \<and> search_word gateway_error_word False visible)"

definition firefox_plaintext_wrapper :: "string \<Rightarrow> bool" where
  "firefox_plaintext_wrapper html =
     search_at (\<lambda>s. Option.bind (lit ''<pre'' s) (\<lambda>s. Option.bind (spaces1 s)
       (\<lambda>s. Option.bind (lit (''style='' @ [CHR 0x22] @ ''word-wrap:'') s)
       (\<lambda>s. Option.bind (spaces0 s) (\<lambda>s. Option.bind (lit ''break-word;'' s)
       (\<lambda>s. Option.bind (spaces0 s) (\<lambda>s. Option.bind (lit ''white-space:'' s)
       (\<lambda>s. Option.bind (spaces0 s) (\<lambda>s. Option.bind (lit ''pre-wrap'' s)
       (\<lambda>s. Option.bind (opt_lit '';'' s) (lit [CHR 0x22])))))))))) \<noteq> None) (py_lower html)"

definition is_upper_or_underscore :: "char \<Rightarrow> bool" where
  "is_upper_or_underscore c \<longleftrightarrow> 65 \<le> (of_char c :: nat) \<and> (of_char c :: nat) \<le> 90 \<or> c = CHR ''_''"

definition chromium_net_error :: "string \<Rightarrow> nat list" where
  "chromium_net_error s =
     (case lit ''net::ERR_'' s of None \<Rightarrow> []
      | Some rest \<Rightarrow> (let n = length (takeWhile is_upper_or_underscore rest)
          in if n = 0 then [] else [9 + n]))"

subsection \<open>The verdict\<close>

definition status_reason :: "int \<Rightarrow> string" where
  "status_reason status = ''status:'' @ py_str_int status"

definition challenge_reason :: "string \<Rightarrow> int \<Rightarrow> bool \<Rightarrow> string option" where
  "challenge_reason html status_code short_page_is_suspect =
     (if status_code \<in> set CHALLENGE_STATUS_CODES then Some (status_reason status_code)
      else case filter (contains (py_lower html)) CHALLENGE_SIGNATURES of
        sig # _ \<Rightarrow> Some (''signature:'' @ sig)
      | [] \<Rightarrow>
        if looks_like_gateway_error html then Some ''gateway_error''
        else if firefox_plaintext_wrapper html then Some ''firefox_plaintext_wrapper''
        else if search_word chromium_net_error False html then Some ''chromium_net_error''
        else if short_page_is_suspect \<and> length (strip_html html) < 50 \<and> status_code = 200
        then Some ''short_page'' else None)"

definition is_challenge_page :: "string \<Rightarrow> int \<Rightarrow> bool \<Rightarrow> bool" where
  "is_challenge_page html status_code short_page_is_suspect \<longleftrightarrow>
     challenge_reason html status_code short_page_is_suspect \<noteq> None"

definition content_reason :: "string \<Rightarrow> string option" where
  "content_reason html = challenge_reason html 200 False"

definition JS_REQUIRED_MARKERS :: "string list" where
  "JS_REQUIRED_MARKERS =
     [''you need to enable javascript'', ''please enable javascript'', ''javascript is required'',
      ''javascript is disabled'', ''enable javascript to run this app'', ''this app requires javascript'']"

definition div_root :: "string \<Rightarrow> string" where
  "div_root name = ''<div id='' @ [CHR 0x22] @ name @ [CHR 0x22]"

definition EMPTY_SPA_ROOTS :: "string list" where
  "EMPTY_SPA_ROOTS =
     [div_root ''root'' @ ''></div>'', div_root ''app'' @ ''></div>'', ''<app-root></app-root>'',
      div_root ''__next'' @ ''></div>'',
      div_root ''app'' @ '' class='' @ [CHR 0x22, CHR 0x22] @ ''></div>'']"

definition looks_javascript_gated :: "string \<Rightarrow> bool" where
  "looks_javascript_gated html =
     (if html = [] then False
      else let html_lower = py_lower html;
               has_js_required = list_ex (contains html_lower) JS_REQUIRED_MARKERS;
               has_empty_root = list_ex (contains html_lower) EMPTY_SPA_ROOTS
        in if \<not> (has_js_required \<or> has_empty_root) then False
           else length (strip_html html) < 500)"

text \<open>\<open>custom_waf\<close>: the second word comes behind the first one on the same line.\<close>

definition custom_waf :: "string \<Rightarrow> bool" where
  "custom_waf s =
     search_at (\<lambda>t. list_ex (\<lambda>w. starts_with t w \<and>
         list_ex (contains (takeWhile (\<lambda>c. c \<noteq> CHR 0x0A) (drop (length w) t))) [''human'', ''bot'', ''automated''])
       [''blocked'', ''denied'', ''challenge'', ''verify'']) s"

definition classify_challenge_type :: "string \<Rightarrow> string" where
  "classify_challenge_type html =
     (let h = py_lower html in
      if list_ex (contains h) [''cf-browser-verification'', ''cf-challenge'', ''cf-ray-id''] then ''cloudflare''
      else if contains h ''datadome'' then ''datadome''
      else if contains h ''akamai'' then ''akamai''
      else if contains h ''g-recaptcha'' then ''recaptcha''
      else if contains h ''h-captcha'' then ''hcaptcha''
      else if custom_waf h then ''custom_waf'' else ''unknown'')"

subsection \<open>What a verdict says\<close>

lemma py_lower_append: "py_lower (a @ b) = py_lower a @ py_lower b"
  by (simp add: py_lower_def)

text \<open>A page that carries a signature anywhere, in any capitalisation, is a challenge page.\<close>

lemma signature_is_challenge:
  assumes "sig \<in> set CHALLENGE_SIGNATURES" "py_lower part = sig"
  shows "is_challenge_page (before @ part @ rest) status short"
proof -
  have "contains (py_lower (before @ part @ rest)) sig"
    using assms(2) by (auto simp: contains_iff py_lower_append)
  with assms(1) have "filter (contains (py_lower (before @ part @ rest))) CHALLENGE_SIGNATURES \<noteq> []"
    by (auto simp: filter_empty_conv)
  then show ?thesis
    by (auto simp: is_challenge_page_def challenge_reason_def split: list.splits)
qed

text \<open>Switching the short-page check off can only clear a page, never condemn it.\<close>

lemma short_page_only_adds:
  "challenge_reason html s False \<noteq> None \<Longrightarrow> challenge_reason html s True = challenge_reason html s False"
  by (auto simp: challenge_reason_def split: list.splits if_splits)

text \<open>The vocabulary of reasons.\<close>

lemma challenge_reason_vocabulary:
  assumes "challenge_reason html s short = Some r"
  shows "r = status_reason s \<and> s \<in> set CHALLENGE_STATUS_CODES \<or>
     (\<exists>sig \<in> set CHALLENGE_SIGNATURES. r = ''signature:'' @ sig) \<or>
     r \<in> {''gateway_error'', ''firefox_plaintext_wrapper'', ''chromium_net_error'', ''short_page''}"
proof (cases "s \<in> set CHALLENGE_STATUS_CODES")
  case True
  with assms show ?thesis by (simp add: challenge_reason_def)
next
  case False
  show ?thesis
  proof (cases "filter (contains (py_lower html)) CHALLENGE_SIGNATURES")
    case Nil
    with False assms show ?thesis by (auto simp: challenge_reason_def split: if_splits)
  next
    case (Cons sig rest)
    then have "sig \<in> set (filter (contains (py_lower html)) CHALLENGE_SIGNATURES)" by simp
    then have "sig \<in> set CHALLENGE_SIGNATURES" by (simp del: filter.simps)
    moreover have "Some (''signature:'' @ sig) = Some r"
      using assms unfolding challenge_reason_def Cons if_not_P [OF False] list.case by (rule trans [rotated]) simp
    ultimately show ?thesis by blast
  qed
qed

text \<open>A long page is neither a gateway error page nor a short page.\<close>

lemma gateway_error_short: "looks_like_gateway_error html \<Longrightarrow> length (strip_html html) \<le> 300"
  by (auto simp: looks_like_gateway_error_def Let_def GATEWAY_ERROR_MAX_LEN_def split: if_splits)

end
