(* ===== verification/Level3_Fetcher.thy ===== *)
theory Level3_Fetcher
  imports Ssrf_Guard Challenge_Detector
begin

text \<open>
  \<^verbatim>\<open>src/src/scraper_engine/fetcher/level_3.py\<close>, the fetch in a full browser, over the page helpers of
  \<^verbatim>\<open>fetcher/_content_utils.py\<close>, the in-page solving of CAPTCHAs of \<^verbatim>\<open>fetcher/_captcha.py\<close> and the
  primary-with-fallback solver of \<^verbatim>\<open>services/captcha_solver.py\<close>. The browser and its page are outside
  the sources: what they answer is a function of what was done to the page so far, a list kept newest
  first. A computation on the page returns an exception or a value and the longer list, or \<open>None\<close>
  when it never returns.
\<close>

subsection \<open>The page and the fetcher\<close>

datatype captcha_kind = Recaptcha_V2 | Hcaptcha | Turnstile

datatype deed =
    Read | Waited int | Scrolled | Measured
  | Probed | Asked_Primary captcha_kind string | Asked_Fallback captcha_kind string | Injected string

record site_answer =
  sa_status :: int
  sa_retry_after :: "string option"

text \<open>What the handler of an intercepted request does with it; an error other than the guard's escapes it.\<close>

datatype route_action = Aborted | Continued | Escaped

record level3 =
  l3_post_load_fixed_wait_ms :: int
  l3_max_total_wait_ms :: int
  l3_retry_wait_increment_ms :: int
  l3_scroll_passes :: int
  l3_scroll_wait_ms :: int
  l3_guard :: "string \<Rightarrow> unit res"
  l3_primary :: "(deed list \<Rightarrow> captcha_kind \<Rightarrow> string \<Rightarrow> fetch_exn + string option) option"
  l3_fallback :: "(deed list \<Rightarrow> captcha_kind \<Rightarrow> string \<Rightarrow> fetch_exn + string option) option"
  l3_enter_error :: "fetch_exn option"
  l3_exit_error :: "deed list \<Rightarrow> fetch_exn option"
  l3_intercepted :: "string list"
  l3_goto :: "route_action list \<Rightarrow> fetch_exn + site_answer option"
  l3_responses :: "route_action list \<Rightarrow> (bool \<times> bool \<times> site_answer) list"
  l3_content :: "deed list \<Rightarrow> string option"
  l3_wait_error :: "deed list \<Rightarrow> fetch_exn option"
  l3_height :: "deed list \<Rightarrow> int option"
  l3_scroll_ok :: "deed list \<Rightarrow> bool"
  l3_detect :: "deed list \<Rightarrow> (captcha_kind option \<times> string) option option"
  l3_inject_ok :: "deed list \<Rightarrow> bool"
  l3_str :: "fetch_exn \<Rightarrow> string"
  l3_parse_date :: "string \<Rightarrow> rat option"
  l3_now :: "deed list \<Rightarrow> rat"
  l3_duration_ms :: "deed list \<Rightarrow> int"

type_synonym 'a page_run = "deed list \<Rightarrow> ((fetch_exn + 'a) \<times> deed list) option"

definition page_return :: "'a \<Rightarrow> 'a page_run" where
  "page_return x t = Some (Inr x, t)"

definition page_bind :: "'a page_run \<Rightarrow> ('a \<Rightarrow> 'b page_run) \<Rightarrow> 'b page_run" where
  "page_bind m f t =
     (case m t of None \<Rightarrow> None
      | Some (Inl e, t1) \<Rightarrow> Some (Inl e, t1)
      | Some (Inr x, t1) \<Rightarrow> f x t1)"

subsection \<open>Intercepted requests and the main document's answer\<close>

text \<open>\<open>SSRFRouteGuard._handle\<close>: the last rejection is remembered.\<close>

definition route_handle :: "level3 \<Rightarrow> exn option \<Rightarrow> string \<Rightarrow> exn option \<times> route_action" where
  "route_handle self blocked url =
     (case l3_guard self url of
        Inl (SSRFBlockedError u h n) \<Rightarrow> (Some (SSRFBlockedError u h n), Aborted)
      | Inl _ \<Rightarrow> (blocked, Escaped)
      | Inr _ \<Rightarrow> (blocked, Continued))"

fun route_all :: "level3 \<Rightarrow> exn option \<Rightarrow> string list \<Rightarrow> exn option \<times> route_action list" where
  "route_all self blocked [] = (blocked, [])"
| "route_all self blocked (url # urls) =
     (case route_handle self blocked url of (blocked1, action) \<Rightarrow>
      case route_all self blocked1 urls of (blocked2, actions) \<Rightarrow> (blocked2, action # actions))"

text \<open>\<open>MainDocumentAnswer\<close>: the last response that is a navigation of the main frame.\<close>

definition main_document :: "(bool \<times> bool \<times> site_answer) list \<Rightarrow> site_answer option" where
  "main_document responses =
     foldl (\<lambda>kept (navigation, main_frame, r). if navigation \<and> main_frame then Some r else kept) None responses"

definition site_verdict :: "(bool \<times> bool \<times> site_answer) list \<Rightarrow> site_answer option" where
  "site_verdict responses =
     (case main_document responses of None \<Rightarrow> None
      | Some r \<Rightarrow> if classify_http_status (sa_status r) = None then None else Some r)"

subsection \<open>Reading, polling and scrolling\<close>

definition safe_content :: "level3 \<Rightarrow> string option page_run" where
  "safe_content self t = Some (Inr (l3_content self t), Read # t)"

definition wait_for_timeout :: "level3 \<Rightarrow> int \<Rightarrow> unit page_run" where
  "wait_for_timeout self ms t =
     Some (case l3_wait_error self t of Some e \<Rightarrow> Inl e | None \<Rightarrow> Inr (), Waited ms # t)"

definition unsolved :: "string option \<Rightarrow> int \<Rightarrow> bool" where
  "unsolved html status \<longleftrightarrow> (case html of None \<Rightarrow> True | Some h \<Rightarrow> is_challenge_page h status False)"

partial_function (option) poll_until_solved ::
    "level3 \<Rightarrow> int \<Rightarrow> int \<Rightarrow> int \<Rightarrow> deed list \<Rightarrow> ((fetch_exn + string option) \<times> deed list) option" where
  "poll_until_solved self max_total increment waited_ms t =
     (if unsolved (l3_content self t) 200 \<and> waited_ms < max_total then
        (case l3_wait_error self (Read # t) of
           Some e \<Rightarrow> Some (Inl e, Waited increment # Read # t)
         | None \<Rightarrow> poll_until_solved self max_total increment (waited_ms + increment) (Waited increment # Read # t))
      else Some (Inr (l3_content self t), Read # t))"

text \<open>One pass of scrolling: the new height, or \<open>None\<close> when any of its three calls raises.\<close>

definition scroll_pass :: "level3 \<Rightarrow> deed list \<Rightarrow> int option \<times> deed list" where
  "scroll_pass self t =
     (if \<not> l3_scroll_ok self t then (None, Scrolled # t)
      else let t1 = Scrolled # t; t2 = Waited (l3_scroll_wait_ms self) # t1 in
        (case l3_wait_error self t1 of Some e \<Rightarrow> (None, t2)
         | None \<Rightarrow> (l3_height self t2, Measured # t2)))"

fun autoscroll_passes :: "level3 \<Rightarrow> nat \<Rightarrow> nat \<Rightarrow> int \<Rightarrow> int \<Rightarrow> int \<Rightarrow> deed list \<Rightarrow> int \<times> deed list" where
  "autoscroll_passes self enough 0 flat last_height passes t = (passes, t)"
| "autoscroll_passes self enough (Suc n) flat last_height passes t =
     (case scroll_pass self t of
        (None, t1) \<Rightarrow> (passes, t1)
      | (Some new_height, t1) \<Rightarrow>
        if new_height \<le> last_height then
          (if int enough \<le> flat + 1 then (passes + 1, t1)
           else autoscroll_passes self enough n (flat + 1) last_height (passes + 1) t1)
        else autoscroll_passes self enough n 0 new_height (passes + 1) t1)"

definition autoscroll :: "level3 \<Rightarrow> int page_run" where
  "autoscroll self t =
     Some (if l3_scroll_passes self \<le> 0 then (Inr 0, t)
       else case l3_height self t of None \<Rightarrow> (Inr 0, Measured # t)
         | Some h \<Rightarrow> (case autoscroll_passes self 2 (nat (l3_scroll_passes self)) 0 h 0 (Measured # t) of
                        (n, t1) \<Rightarrow> (Inr n, t1)))"

subsection \<open>Solving a CAPTCHA in the page\<close>

text \<open>\<open>CaptchaSolver._key_url\<close>: the fallback is asked when the primary has no token.\<close>

definition key_url :: "level3 \<Rightarrow> captcha_kind \<Rightarrow> string \<Rightarrow> string option page_run" where
  "key_url self kind key t =
     Some (case l3_primary self of None \<Rightarrow> (Inr None, t)
      | Some primary \<Rightarrow>
        (let t1 = Asked_Primary kind key # t in
         case primary t kind key of
           Inl e \<Rightarrow> (Inl e, t1)
         | Inr (Some token) \<Rightarrow> (Inr (Some token), t1)
         | Inr None \<Rightarrow>
           (case l3_fallback self of None \<Rightarrow> (Inr None, t1)
            | Some fallback \<Rightarrow> (fallback t1 kind key, Asked_Fallback kind key # t1))))"

text \<open>
  \<open>solve_captcha_on_page\<close>: \<open>Some (Some (kind, sitekey))\<close> is a widget the probe found, \<open>kind\<close> being \<open>None\<close>
  for one without a handler; a raising probe and a probe that found nothing both give up.
\<close>

definition solve_captcha_on_page :: "level3 \<Rightarrow> bool page_run" where
  "solve_captcha_on_page self t =
     (case l3_detect self t of
        Some (Some (Some kind, sitekey)) \<Rightarrow>
          if sitekey = [] then Some (Inr False, Probed # t)
          else page_bind (key_url self kind sitekey) (\<lambda>token t1.
            (case token of None \<Rightarrow> Some (Inr False, t1)
             | Some tok \<Rightarrow>
               if tok = [] then Some (Inr False, t1)
               else Some (Inr (l3_inject_ok self t1), Injected tok # t1))) (Probed # t)
      | _ \<Rightarrow> Some (Inr False, Probed # t))"

definition maybe_solve_captcha :: "level3 \<Rightarrow> string option \<Rightarrow> string option page_run" where
  "maybe_solve_captcha self html =
     (if l3_primary self = None \<or> html = None \<or> \<not> unsolved html 200 then page_return html
      else page_bind (solve_captcha_on_page self) (\<lambda>solved.
        if \<not> solved then page_return html
        else page_bind (wait_for_timeout self (l3_retry_wait_increment_ms self)) (\<lambda>_.
          poll_until_solved self (l3_max_total_wait_ms self) (l3_retry_wait_increment_ms self) 0)))"

subsection \<open>The fetch\<close>

definition l3_proxy_used :: "proxy option \<Rightarrow> string option" where
  "l3_proxy_used proxy = Some (case proxy of None \<Rightarrow> ''none'' | Some p \<Rightarrow> proxy_key p)"

definition l3_retry_after :: "level3 \<Rightarrow> deed list \<Rightarrow> site_answer option \<Rightarrow> fetch_exn + int option" where
  "l3_retry_after self t answer =
     (case answer of None \<Rightarrow> Inr None
      | Some r \<Rightarrow>
        (case retry_after_for (l3_parse_date self) (sa_status r) (Some (\<lambda>_. sa_retry_after r)) (l3_now self t) of
           Inl e \<Rightarrow> Inl (Raised ''invalid literal'') | Inr wait \<Rightarrow> Inr wait))"

definition l3_page :: "level3 \<Rightarrow> string \<Rightarrow> proxy option \<Rightarrow> int \<Rightarrow> site_answer option \<Rightarrow> string option \<Rightarrow> fetch_result page_run" where
  "l3_page self url proxy status answer html t =
     Some (case l3_retry_after self t answer of Inl e \<Rightarrow> (Inl e, t)
       | Inr wait \<Rightarrow>
         (Inr ((new_result url True 3 (l3_duration_ms self t))\<lparr>fr_http_status := Some status, fr_html := html,
            fr_retry_after_seconds := wait, fr_proxy_used := l3_proxy_used proxy\<rparr>), t))"

text \<open>From a page that loaded to its result: settle an interstitial, solve, scroll.\<close>

definition l3_settle :: "level3 \<Rightarrow> int \<Rightarrow> string option page_run" where
  "l3_settle self nav_status =
     page_bind (safe_content self) (\<lambda>html.
       if unsolved html nav_status
       then page_bind (wait_for_timeout self (l3_post_load_fixed_wait_ms self)) (\<lambda>_.
         poll_until_solved self (l3_max_total_wait_ms self) (l3_retry_wait_increment_ms self)
           (l3_post_load_fixed_wait_ms self))
       else page_return html)"

definition l3_loaded :: "level3 \<Rightarrow> string \<Rightarrow> proxy option \<Rightarrow> site_answer option \<Rightarrow> fetch_result page_run" where
  "l3_loaded self url proxy answer =
     (let nav_status = (case answer of None \<Rightarrow> 200 | Some r \<Rightarrow> sa_status r) in
      page_bind (l3_settle self nav_status) (\<lambda>html.
      page_bind (maybe_solve_captcha self html) (\<lambda>html.
      page_bind (if 0 < l3_scroll_passes self
                 then page_bind (autoscroll self) (\<lambda>_. safe_content self) else page_return html) (\<lambda>html.
        l3_page self url proxy nav_status answer html))))"

definition guard_exn :: "exn \<Rightarrow> fetch_exn" where
  "guard_exn e = (case e of SSRFBlockedError u h n \<Rightarrow> Guard_Rejection u h n | _ \<Rightarrow> Raised [])"

definition l3_visit :: "level3 \<Rightarrow> string \<Rightarrow> proxy option \<Rightarrow> fetch_result page_run" where
  "l3_visit self url proxy t =
     (case route_all self None (l3_intercepted self) of (blocked, actions) \<Rightarrow>
      (case l3_goto self actions of
         Inr answer \<Rightarrow> l3_loaded self url proxy answer t
       | Inl e \<Rightarrow>
         (case blocked of Some b \<Rightarrow> Some (Inl (guard_exn b), t)
          | None \<Rightarrow>
            (case site_verdict (l3_responses self actions) of None \<Rightarrow> Some (Inl e, t)
             | Some verdict \<Rightarrow> l3_page self url proxy (sa_status verdict) (Some verdict) (Some []) t))))"

definition l3_failure :: "level3 \<Rightarrow> string \<Rightarrow> proxy option \<Rightarrow> fetch_exn \<Rightarrow> deed list \<Rightarrow> fetch_result" where
  "l3_failure self url proxy e t =
     (new_result url False 3 (l3_duration_ms self t))\<lparr>
        fr_failure_category := Some (classify_fetch_exception e BROWSER_CRASH),
        fr_error_message := Some (l3_str self e), fr_proxy_used := l3_proxy_used proxy\<rparr>"

text \<open>The context of the browser may raise on the way in and on the way out.\<close>

definition level3_fetch :: "level3 \<Rightarrow> string \<Rightarrow> proxy option \<Rightarrow> (fetch_result \<times> deed list) option" where
  "level3_fetch self url proxy =
     (case l3_enter_error self of Some e \<Rightarrow> Some (l3_failure self url proxy e [], [])
      | None \<Rightarrow>
        (case l3_visit self url proxy [] of None \<Rightarrow> None
         | Some (outcome, t) \<Rightarrow>
           Some (case l3_exit_error self t of Some e \<Rightarrow> l3_failure self url proxy e t
              | None \<Rightarrow> (case outcome of Inl e \<Rightarrow> l3_failure self url proxy e t | Inr res \<Rightarrow> res), t)))"

subsection \<open>Every fetch returns, and how long it waits\<close>

text \<open>The milliseconds a history waited in the page.\<close>

fun waiting :: "deed list \<Rightarrow> int" where
  "waiting [] = 0"
| "waiting (Waited ms # t) = ms + waiting t"
| "waiting (_ # t) = waiting t"

text \<open>A run that returns and waits at most \<open>k\<close> more.\<close>

definition returns_in :: "int \<Rightarrow> 'a page_run \<Rightarrow> bool" where
  "returns_in k m \<longleftrightarrow> (\<forall>t. \<exists>r t1. m t = Some (r, t1) \<and> waiting t1 \<le> waiting t + k)"

lemma returns_inI: "(\<And>t. \<exists>r t1. m t = Some (r, t1) \<and> waiting t1 \<le> waiting t + k) \<Longrightarrow> returns_in k m"
  by (simp add: returns_in_def)

lemma returns_inD: "returns_in k m \<Longrightarrow> \<exists>r t1. m t = Some (r, t1) \<and> waiting t1 \<le> waiting t + k"
  by (simp add: returns_in_def)

lemma returns_mono: "returns_in j m \<Longrightarrow> j \<le> k \<Longrightarrow> returns_in k m"
  unfolding returns_in_def by (metis add_left_mono order.trans)

lemma returns_return: "returns_in 0 (page_return x)"
  by (simp add: returns_in_def page_return_def)

lemma returns_bind:
  assumes "returns_in j m" "\<And>x. returns_in k (f x)" "0 \<le> k"
  shows "returns_in (j + k) (page_bind m f)"
proof (rule returns_inI)
  fix t
  obtain r t1 where m: "m t = Some (r, t1)" "waiting t1 \<le> waiting t + j" using returns_inD [OF assms(1)] by blast
  show "\<exists>r t2. page_bind m f t = Some (r, t2) \<and> waiting t2 \<le> waiting t + (j + k)"
  proof (cases r)
    case (Inl e)
    then show ?thesis using m assms(3) by (simp add: page_bind_def)
  next
    case (Inr x)
    obtain r2 t2 where "f x t1 = Some (r2, t2)" "waiting t2 \<le> waiting t1 + k"
      using returns_inD [OF assms(2)] by blast
    then show ?thesis using m Inr by (auto simp: page_bind_def)
  qed
qed

lemma returns_read: "returns_in 0 (safe_content self)"
  by (simp add: returns_in_def safe_content_def)

lemma returns_wait: "returns_in ms (wait_for_timeout self ms)"
  by (auto simp: returns_in_def wait_for_timeout_def)

text \<open>With a positive increment the poll ends, and overshoots its ceiling by less than one increment.\<close>

lemma poll_returns:
  assumes "0 < increment"
  shows "returns_in (max 0 (max_total - waited_ms + increment)) (poll_until_solved self max_total increment waited_ms)"
proof (rule returns_inI)
  fix t
  show "\<exists>r t1. poll_until_solved self max_total increment waited_ms t = Some (r, t1)
      \<and> waiting t1 \<le> waiting t + max 0 (max_total - waited_ms + increment)"
  proof (induction "nat (max_total - waited_ms)" arbitrary: waited_ms t rule: less_induct)
    case less
    show ?case
    proof (cases "unsolved (l3_content self t) 200 \<and> waited_ms < max_total \<and> l3_wait_error self (Read # t) = None")
      case True
      let ?t = "Waited increment # Read # t"
      have "nat (max_total - (waited_ms + increment)) < nat (max_total - waited_ms)" using True assms by simp
      from less [OF this] obtain r t1 where "poll_until_solved self max_total increment (waited_ms + increment) ?t = Some (r, t1)"
        "waiting t1 \<le> waiting ?t + max 0 (max_total - (waited_ms + increment) + increment)" by blast
      then show ?thesis using True by (subst poll_until_solved.simps) auto
    next
      case False
      then show ?thesis using assms by (subst poll_until_solved.simps) (auto split: option.splits)
    qed
  qed
qed

text \<open>Without one it never does, on a page that stays an interstitial.\<close>

lemma poll_diverges:
  assumes "increment \<le> 0" "waited_ms < max_total"
    and "\<And>t. unsolved (l3_content self t) 200" "\<And>t. l3_wait_error self t = None"
  shows "poll_until_solved self max_total increment waited_ms t = None"
proof -
  have "\<not> (s = self \<and> mt = max_total \<and> inc = increment \<and> w < mt)"
    if "poll_until_solved s mt inc w u = Some r" for s mt inc w u r
    by (rule poll_until_solved.raw_induct [OF _ that, where P = "\<lambda>s mt inc w u r.
          \<not> (s = self \<and> mt = max_total \<and> inc = increment \<and> w < mt)"])
      (use assms in \<open>fastforce split: if_splits\<close>)
  then show ?thesis using assms(2) by (metis option.exhaust)
qed

lemma scroll_pass_waiting:
  assumes "scroll_pass self t = (h, t1)" "0 \<le> l3_scroll_wait_ms self"
  shows "waiting t1 \<le> waiting t + l3_scroll_wait_ms self"
  using assms by (auto simp: scroll_pass_def Let_def split: if_splits option.splits)

lemma autoscroll_passes_waiting:
  assumes "0 \<le> l3_scroll_wait_ms self"
  shows "autoscroll_passes self enough n flat h passes t = (k, t1) \<Longrightarrow>
    waiting t1 \<le> waiting t + int n * l3_scroll_wait_ms self \<and> passes \<le> k \<and> k \<le> passes + int n"
proof (induction n arbitrary: flat h passes t)
  case (Suc n)
  obtain hh t2 where p: "scroll_pass self t = (hh, t2)" by (metis prod.exhaust)
  have w: "waiting t2 \<le> waiting t + l3_scroll_wait_ms self" by (rule scroll_pass_waiting [OF p assms])
  have e: "int (Suc n) * l3_scroll_wait_ms self = l3_scroll_wait_ms self + int n * l3_scroll_wait_ms self"
    by (simp add: algebra_simps)
  have pos: "0 \<le> int n * l3_scroll_wait_ms self" using assms by simp
  show ?case
    unfolding e using Suc.prems p w pos by (fastforce split: option.splits if_splits dest: Suc.IH)
qed simp

lemma returns_autoscroll:
  assumes "0 \<le> l3_scroll_wait_ms self" "0 \<le> l3_scroll_passes self"
  shows "returns_in (l3_scroll_passes self * l3_scroll_wait_ms self) (autoscroll self)"
proof (rule returns_inI)
  fix t
  have pos: "0 \<le> l3_scroll_passes self * l3_scroll_wait_ms self" using assms by simp
  have n: "int (nat (l3_scroll_passes self)) = l3_scroll_passes self" using assms by simp
  show "\<exists>r t1. autoscroll self t = Some (r, t1) \<and> waiting t1 \<le> waiting t + l3_scroll_passes self * l3_scroll_wait_ms self"
    using pos autoscroll_passes_waiting [OF assms(1), of 2 "nat (l3_scroll_passes self)" 0 _ 0 "Measured # t"]
    by (fastforce simp: autoscroll_def n split: option.splits prod.splits)
qed

lemma returns_solve: "returns_in 0 (solve_captcha_on_page self)"
  by (auto simp: returns_in_def solve_captcha_on_page_def page_bind_def key_url_def Let_def
      split: option.splits prod.splits sum.splits)

lemma returns_page: "returns_in 0 (l3_page self url proxy status answer html)"
  by (auto simp: returns_in_def l3_page_def split: sum.splits)

text \<open>The waiting a fetch may do in all: settling, one solved CAPTCHA, scrolling.\<close>

definition l3_waiting_bound :: "level3 \<Rightarrow> int" where
  "l3_waiting_bound self = max (l3_max_total_wait_ms self) (l3_post_load_fixed_wait_ms self)
     + l3_max_total_wait_ms self + 3 * l3_retry_wait_increment_ms self
     + max 0 (l3_scroll_passes self) * l3_scroll_wait_ms self"

definition l3_config_ok :: "level3 \<Rightarrow> bool" where
  "l3_config_ok self \<longleftrightarrow> 0 < l3_retry_wait_increment_ms self \<and> 0 \<le> l3_max_total_wait_ms self
     \<and> 0 \<le> l3_post_load_fixed_wait_ms self \<and> 0 \<le> l3_scroll_wait_ms self"

lemma returns_settle:
  assumes "l3_config_ok self"
  shows "returns_in (max (l3_max_total_wait_ms self) (l3_post_load_fixed_wait_ms self) + l3_retry_wait_increment_ms self)
    (l3_settle self status)"
proof -
  let ?fixed = "l3_post_load_fixed_wait_ms self" and ?inc = "l3_retry_wait_increment_ms self"
  let ?ceil = "l3_max_total_wait_ms self" and ?m = "max (l3_max_total_wait_ms self) (l3_post_load_fixed_wait_ms self)"
  have c: "0 < ?inc" "0 \<le> ?fixed" using assms by (simp_all add: l3_config_ok_def)
  have "returns_in (?fixed + max 0 (?ceil - ?fixed + ?inc))
      (page_bind (wait_for_timeout self ?fixed) (\<lambda>_. poll_until_solved self ?ceil ?inc ?fixed))"
    by (rule returns_bind [OF returns_wait poll_returns [OF c(1)]]) simp
  then have w: "returns_in (?m + ?inc)
      (page_bind (wait_for_timeout self ?fixed) (\<lambda>_. poll_until_solved self ?ceil ?inc ?fixed))"
    by (rule returns_mono) (use c in auto)
  have n: "returns_in (?m + ?inc) (page_return html)" for html :: "string option"
    by (rule returns_mono [OF returns_return]) (use c in auto)
  have "returns_in (0 + (?m + ?inc)) (l3_settle self status)"
    unfolding l3_settle_def by (rule returns_bind [OF returns_read]) (use w n c in auto)
  then show ?thesis by simp
qed

lemma returns_maybe_solve:
  assumes "l3_config_ok self"
  shows "returns_in (l3_max_total_wait_ms self + 2 * l3_retry_wait_increment_ms self) (maybe_solve_captcha self html)"
proof -
  let ?inc = "l3_retry_wait_increment_ms self" and ?ceil = "l3_max_total_wait_ms self"
  have c: "0 < ?inc" "0 \<le> ?ceil" using assms by (simp_all add: l3_config_ok_def)
  have "returns_in (?inc + max 0 (?ceil - 0 + ?inc))
      (page_bind (wait_for_timeout self ?inc) (\<lambda>_. poll_until_solved self ?ceil ?inc 0))"
    by (rule returns_bind [OF returns_wait poll_returns [OF c(1)]]) simp
  then have w: "returns_in (?ceil + 2 * ?inc) (page_bind (wait_for_timeout self ?inc) (\<lambda>_. poll_until_solved self ?ceil ?inc 0))"
    by (rule returns_mono) (use c in auto)
  have n: "returns_in (?ceil + 2 * ?inc) (page_return html)"
    by (rule returns_mono [OF returns_return]) (use c in auto)
  have "returns_in (0 + (?ceil + 2 * ?inc)) (page_bind (solve_captcha_on_page self) (\<lambda>solved.
      if \<not> solved then page_return html
      else page_bind (wait_for_timeout self ?inc) (\<lambda>_. poll_until_solved self ?ceil ?inc 0)))"
    by (rule returns_bind [OF returns_solve]) (use w n c in auto)
  then show ?thesis using n by (simp add: maybe_solve_captcha_def)
qed

lemma returns_scroll:
  assumes "l3_config_ok self"
  shows "returns_in (max 0 (l3_scroll_passes self) * l3_scroll_wait_ms self)
    (if 0 < l3_scroll_passes self then page_bind (autoscroll self) (\<lambda>_. safe_content self) else page_return html)"
proof (cases "0 < l3_scroll_passes self")
  case True
  have "returns_in (l3_scroll_passes self * l3_scroll_wait_ms self + 0) (page_bind (autoscroll self) (\<lambda>_. safe_content self))"
    using assms True by (intro returns_bind returns_autoscroll returns_read) (simp_all add: l3_config_ok_def)
  then show ?thesis using True by simp
qed (simp add: returns_return)

lemma returns_loaded:
  assumes "l3_config_ok self"
  shows "returns_in (l3_waiting_bound self) (l3_loaded self url proxy answer)"
proof -
  have c: "0 < l3_retry_wait_increment_ms self" "0 \<le> l3_max_total_wait_ms self"
    "0 \<le> max 0 (l3_scroll_passes self) * l3_scroll_wait_ms self"
    using assms by (simp_all add: l3_config_ok_def)
  have "returns_in (max (l3_max_total_wait_ms self) (l3_post_load_fixed_wait_ms self) + l3_retry_wait_increment_ms self
      + (l3_max_total_wait_ms self + 2 * l3_retry_wait_increment_ms self
      + (max 0 (l3_scroll_passes self) * l3_scroll_wait_ms self + 0))) (l3_loaded self url proxy answer)"
    unfolding l3_loaded_def Let_def
    by (intro returns_bind returns_settle returns_maybe_solve returns_scroll returns_page assms)
      (use c in auto)
  then show ?thesis by (rule returns_mono) (simp add: l3_waiting_bound_def)
qed

text \<open>
  \<^bold>\<open>C22\<close>: every browser fetch returns. With a positive poll increment, whatever the page, the site and
  the solvers do (challenges that never clear, documents that grow for ever, calls that raise), a
  level-3 fetch yields a result, and the waiting it does in the page is bounded: by the poll ceiling or
  the fixed wait, once more the ceiling after a solved CAPTCHA, three increments and the scroll passes.
\<close>

theorem level3_returns:
  assumes "l3_config_ok self"
  shows "\<exists>res t. level3_fetch self url proxy = Some (res, t) \<and> waiting t \<le> l3_waiting_bound self"
proof -
  have pos: "0 \<le> l3_waiting_bound self"
    using assms by (auto simp: l3_waiting_bound_def l3_config_ok_def intro!: add_nonneg_nonneg)
  have page: "returns_in (l3_waiting_bound self) (l3_page self url proxy status answer html)" for status answer html
    by (rule returns_mono [OF returns_page pos])
  have "returns_in (l3_waiting_bound self) (l3_visit self url proxy)"
    using returns_loaded [OF assms, of url proxy] page pos
    by (auto simp: returns_in_def l3_visit_def split: prod.splits sum.splits option.splits)
  then obtain r t where "l3_visit self url proxy [] = Some (r, t)" "waiting t \<le> l3_waiting_bound self"
    by (force dest: returns_inD [where t = "[]"])
  then show ?thesis using pos by (auto simp: level3_fetch_def split: option.splits sum.splits)
qed

text \<open>A page that stays unreadable, with the settings of the class itself: it waits out the ceiling.\<close>

definition stuck_page :: level3 where
  "stuck_page =
     \<lparr>l3_post_load_fixed_wait_ms = 10000, l3_max_total_wait_ms = 30000, l3_retry_wait_increment_ms = 5000,
      l3_scroll_passes = 0, l3_scroll_wait_ms = 1500, l3_guard = (\<lambda>u. Inr ()), l3_primary = None, l3_fallback = None,
      l3_enter_error = None, l3_exit_error = (\<lambda>t. None), l3_intercepted = [''/''],
      l3_goto = (\<lambda>a. Inr (Some \<lparr>sa_status = 200, sa_retry_after = None\<rparr>)), l3_responses = (\<lambda>a. []),
      l3_content = (\<lambda>t. None), l3_wait_error = (\<lambda>t. None), l3_height = (\<lambda>t. None), l3_scroll_ok = (\<lambda>t. True),
      l3_detect = (\<lambda>t. None), l3_inject_ok = (\<lambda>t. True), l3_str = (\<lambda>e. []), l3_parse_date = (\<lambda>s. None),
      l3_now = (\<lambda>t. 0), l3_duration_ms = (\<lambda>t. 0)\<rparr>"

lemma level3_returns_witness:
  "\<exists>res t. level3_fetch stuck_page ''/'' None = Some (res, t) \<and> waiting t \<le> l3_waiting_bound stuck_page"
  by (rule level3_returns) (simp add: l3_config_ok_def stuck_page_def)

text \<open>With an increment of zero, which the configuration accepts, the same page holds the fetch for ever.\<close>

lemma zero_increment_never_returns:
  "level3_fetch (stuck_page\<lparr>l3_retry_wait_increment_ms := 0\<rparr>) ''/'' None = None"
proof -
  let ?s = "stuck_page\<lparr>l3_retry_wait_increment_ms := 0\<rparr>"
  have "poll_until_solved ?s 30000 0 10000 t = None" for t
    by (rule poll_diverges) (simp_all add: stuck_page_def unsolved_def)
  then show ?thesis
    by (simp add: level3_fetch_def l3_visit_def l3_loaded_def l3_settle_def page_bind_def safe_content_def
        wait_for_timeout_def unsolved_def route_handle_def stuck_page_def)
qed

subsection \<open>What a failure is charged to\<close>

text \<open>
  Any intercepted request can make the failure of a page permanent, not only the one for the page: an
  asset whose host does not resolve, with a navigation that times out, reads as a page whose own host
  does not exist.
\<close>

lemma subresource_makes_permanent:
  assumes "l3_guard self url = Inr ()" "l3_guard self asset = Inl (SSRFBlockedError asset host unresolvable_sentinel)"
    and "l3_intercepted self = [url, asset]" "l3_goto self [Continued, Aborted] = Inl (Raised ''Timeout'')"
    and "l3_enter_error self = None" "\<And>t. l3_exit_error self t = None"
  shows "map_option (\<lambda>r. fr_failure_category (fst r)) (level3_fetch self url proxy) = Some (Some HOST_UNREACHABLE)"
  using assms
  by (simp add: level3_fetch_def l3_visit_def route_handle_def guard_exn_def l3_failure_def classify_fetch_exception_def)

text \<open>An error of a solver, a Redis that is down behind its budget say, ends the fetch as a browser crash.\<close>

lemma solver_error_is_a_crash:
  assumes "l3_primary self = Some (\<lambda>t k s. Inl (Raised e))" "l3_detect self t = Some (Some (Some kind, c # key))"
  shows "solve_captcha_on_page self t = Some (Inl (Raised e), [Asked_Primary kind (c # key), Probed] @ t)"
  using assms by (simp add: solve_captcha_on_page_def page_bind_def key_url_def)

lemma no_header_no_wait: "retry_after_for parse s (Some (\<lambda>_. None)) now = Inr None"
  by (simp add: retry_after_for_def parse_retry_after_def)

text \<open>A status the engine reads as the site's verdict is reported even when the navigation fails on it.\<close>

lemma verdict_is_reported:
  assumes "l3_goto self (snd (route_all self None (l3_intercepted self))) = Inl e"
    and "fst (route_all self None (l3_intercepted self)) = None"
    and "site_verdict (l3_responses self (snd (route_all self None (l3_intercepted self)))) = Some r"
    and "l3_enter_error self = None" "\<And>t. l3_exit_error self t = None" "sa_retry_after r = None"
  shows "\<exists>res t. level3_fetch self url proxy = Some (res, t) \<and> fr_success res \<and> fr_http_status res = Some (sa_status r)"
  using assms
  by (auto simp: level3_fetch_def l3_visit_def l3_page_def l3_retry_after_def no_header_no_wait
      split: prod.splits option.splits)

end
