(* ===== verification/Proxy_Upkeep.thy ===== *)
theory Proxy_Upkeep
  imports Proxy_Harvest
begin

text \<open>
  Keeping the pool healthy: the promotion of unvalidated proxies
  (\<^verbatim>\<open>src/src/scraper_engine/proxy/promotion.py\<close>), the periodic re-validation
  (\<^verbatim>\<open>proxy/health_monitor.py\<close>), the retention sweep (\<^verbatim>\<open>proxy/retention_reaper.py\<close>) and the watcher
  of the exhaustion signal (\<^verbatim>\<open>proxy/harvester_daemon.py\<close>). The checks of several proxies run at the
  same time in the code; their statements are taken here in the order of the batch, with any other
  statements between them.
\<close>

subsection \<open>Promotion\<close>

definition MAX_PROMOTION_ATTEMPTS :: int where "MAX_PROMOTION_ATTEMPTS = 5"
definition PROMOTION_BATCH_SIZE :: nat where "PROMOTION_BATCH_SIZE = 20"
definition PROMOTION_COOLDOWN_SECONDS :: rat where "PROMOTION_COOLDOWN_SECONDS = 900"

definition promotable :: "rat \<Rightarrow> pool_row \<Rightarrow> bool" where
  "promotable now r \<longleftrightarrow> pp_score r < 40 \<and> pp_attempts r < MAX_PROMOTION_ATTEMPTS \<and>
     (case pp_attempted r of None \<Rightarrow> True | Some t \<Rightarrow> t < now - PROMOTION_COOLDOWN_SECONDS)"

text \<open>\<open>ORDER BY last_promotion_attempt_at ASC NULLS FIRST\<close>.\<close>

definition by_attempted :: "pool_row list \<Rightarrow> pool_row list" where
  "by_attempted rows = filter (\<lambda>r. pp_attempted r = None) rows
     @ sort_key (\<lambda>r. case pp_attempted r of Some t \<Rightarrow> t | None \<Rightarrow> 0) (filter (\<lambda>r. pp_attempted r \<noteq> None) rows)"

definition promotion_candidates :: "rat \<Rightarrow> pool_row list \<Rightarrow> pool_row list" where
  "promotion_candidates now rows = take PROMOTION_BATCH_SIZE (by_attempted (filter (promotable now) rows))"

definition update_id :: "int \<Rightarrow> (pool_row \<Rightarrow> pool_row) \<Rightarrow> pool_row list \<Rightarrow> pool_row list" where
  "update_id i f rows = map (\<lambda>r. if pp_id r = i then f r else r) rows"

definition promote_row :: "int \<Rightarrow> rat \<Rightarrow> anonymity_level \<Rightarrow> asn_class \<Rightarrow> int option \<Rightarrow> rat \<Rightarrow> pool_row list \<Rightarrow> unit \<times> pool_row list" where
  "promote_row i score anonymity asn latency_ms now rows = ((), update_id i (\<lambda>r. r\<lparr>pp_score := score, pp_anonymity := anonymity,
     pp_asn := asn, pp_latency := latency_ms, pp_attempts := pp_attempts r + 1, pp_attempted := Some now\<rparr>) rows)"

definition promotion_failed :: "int \<Rightarrow> rat \<Rightarrow> pool_row list \<Rightarrow> unit \<times> pool_row list" where
  "promotion_failed i now rows = ((), update_id i (\<lambda>r. r\<lparr>pp_attempts := pp_attempts r + 1, pp_attempted := Some now\<rparr>) rows)"

record promotion_counts =
  pc_candidates :: nat
  pc_promoted :: nat
  pc_failed :: nat
  pc_exhausted :: nat

text \<open>\<open>_try_one\<close>: what the network shows of a proxy is a function of its row.\<close>

definition try_one :: "(pool_row \<Rightarrow> sighting) \<Rightarrow> pool_row \<Rightarrow> promotion_counts \<Rightarrow> ('s, promotion_counts) pooled" where
  "try_one see row c = (case http_validate (sg_judge (see row)) of (is_valid, anonymity, latency_ms) \<Rightarrow>
     if is_valid
     then (let asn = to_asn_class (classify_asn (pp_ip row) (sg_hostname (see row)));
               score = score_validation latency_ms anonymity asn (compute_success_rate (pp_successes row) (pp_failures row)) in
       pbind (pool_sql (promote_row (pp_id row) score anonymity asn latency_ms)) (\<lambda>_. preturn (c\<lparr>pc_promoted := pc_promoted c + 1\<rparr>)))
     else pbind (pool_sql (promotion_failed (pp_id row))) (\<lambda>_. preturn (c\<lparr>pc_failed := pc_failed c + 1,
       pc_exhausted := pc_exhausted c + (if MAX_PROMOTION_ATTEMPTS \<le> pp_attempts row + 1 then 1 else 0)\<rparr>)))"

primrec try_all :: "(pool_row \<Rightarrow> sighting) \<Rightarrow> pool_row list \<Rightarrow> promotion_counts \<Rightarrow> ('s, promotion_counts) pooled" where
  "try_all see [] c = preturn c"
| "try_all see (r # rs) c = pbind (try_one see r c) (try_all see rs)"

definition promotion_run :: "(pool_row \<Rightarrow> sighting) \<Rightarrow> ('s, promotion_counts) pooled" where
  "promotion_run see = pbind (pool_sql (\<lambda>now rows. (promotion_candidates now rows, rows))) (\<lambda>cands.
     try_all see cands \<lparr>pc_candidates = length cands, pc_promoted = 0, pc_failed = 0, pc_exhausted = 0\<rparr>)"

text \<open>
  \<open>promote_tcp_only\<close> of the harvester: no cap, no cooldown, and a statement for a failed validation
  whose placeholders start at \<open>$3\<close> with three arguments, which the server refuses.
\<close>

definition tcp_only_candidates :: "nat \<Rightarrow> pool_row list \<Rightarrow> pool_row list" where
  "tcp_only_candidates limit rows = take limit (by_attempted (filter (\<lambda>r. pp_score r < 40) rows))"

primrec promote_tcp_rows :: "(pool_row \<Rightarrow> sighting) \<Rightarrow> pool_row list \<Rightarrow> nat \<Rightarrow> ('s, nat) pooled" where
  "promote_tcp_rows see [] n = preturn n"
| "promote_tcp_rows see (row # rows) n = (case http_validate (sg_judge (see row)) of (is_valid, anonymity, latency_ms) \<Rightarrow>
     if is_valid
     then (let asn = to_asn_class (classify_asn (pp_ip row) (sg_hostname (see row)));
               score = score_validation latency_ms anonymity asn (compute_success_rate (pp_successes row) (pp_failures row)) in
       pbind (pool_sql (\<lambda>now rs. ((), map (\<lambda>r. if pp_ip r = pp_ip row \<and> pp_port r = pp_port row \<and> pp_protocol r = pp_protocol row
           then r\<lparr>pp_score := score, pp_anonymity := anonymity, pp_asn := asn, pp_latency := latency_ms,
             pp_attempts := pp_attempts r + 1, pp_attempted := Some now\<rparr> else r) rs)))
         (\<lambda>_. promote_tcp_rows see rows (n + 1)))
     else pthrow (OtherError ''IndeterminateDatatypeError''))"

definition promote_tcp_only :: "(pool_row \<Rightarrow> sighting) \<Rightarrow> nat \<Rightarrow> ('s, nat) pooled" where
  "promote_tcp_only see limit = pbind (pool_sql (\<lambda>now rows. (tcp_only_candidates limit rows, rows)))
     (\<lambda>cands. promote_tcp_rows see cands 0)"

subsection \<open>Re-validation\<close>

text \<open>\<open>ORDER BY last_validated ASC LIMIT 100\<close>: a missing instant sorts last.\<close>

definition oldest_validated :: "pool_row list \<Rightarrow> pool_row list" where
  "oldest_validated rows = take 100 (sort_key (\<lambda>r. case pp_validated r of Some t \<Rightarrow> t | None \<Rightarrow> 0) (filter (\<lambda>r. pp_validated r \<noteq> None) rows)
     @ filter (\<lambda>r. pp_validated r = None) rows)"

definition check_one :: "(pool_row \<Rightarrow> sighting) \<Rightarrow> pool_row \<Rightarrow> bool \<times> anonymity_level \<times> asn_class \<times> int option" where
  "check_one see row = (case http_validate (sg_judge (see row)) of (is_valid, anonymity, latency_ms) \<Rightarrow>
     if \<not> is_valid then (False, TRANSPARENT, ASN_UNKNOWN, None)
     else (True, anonymity, to_asn_class (classify_asn (pp_ip row) (sg_hostname (see row))), latency_ms))"

definition refresh_reading :: "string \<Rightarrow> int \<Rightarrow> anonymity_level \<Rightarrow> asn_class \<Rightarrow> int option \<Rightarrow> rat \<Rightarrow> pool_row list
    \<Rightarrow> (int \<times> int) option \<times> pool_row list" where
  "refresh_reading ip port anonymity asn latency_ms now rows =
     (let rows' = update_pool ip port (\<lambda>r. r\<lparr>pp_anonymity := anonymity, pp_asn := asn, pp_latency := latency_ms, pp_validated := Some now\<rparr>) rows
      in (map_option (\<lambda>r. (pp_successes r, pp_failures r)) (List.find (at_endpoint ip port) rows'), rows'))"

definition downgrade :: "string \<Rightarrow> int \<Rightarrow> rat \<Rightarrow> pool_row list \<Rightarrow> unit \<times> pool_row list" where
  "downgrade ip port now rows = ((), update_pool ip port (\<lambda>r. r\<lparr>pp_score := max 0 (pp_score r - 20), pp_validated := Some now\<rparr>) rows)"

definition delete_dead :: "rat \<Rightarrow> pool_row list \<Rightarrow> nat \<times> pool_row list" where
  "delete_dead now rows = (length (filter (\<lambda>r. pp_score r \<le> 0) rows), filter (\<lambda>r. 0 < pp_score r) rows)"

text \<open>The loop over the checked rows; the counts are (validated, downgraded).\<close>

primrec apply_checks :: "(pool_row \<Rightarrow> sighting) \<Rightarrow> pool_row list \<Rightarrow> nat \<times> nat \<Rightarrow> ('s, nat \<times> nat) pooled" where
  "apply_checks see [] c = preturn c"
| "apply_checks see (row # rows) c = (case check_one see row of (is_valid, anonymity, asn, latency_ms) \<Rightarrow>
     if is_valid
     then pbind (pool_sql (refresh_reading (pp_ip row) (pp_port row) anonymity asn latency_ms)) (\<lambda>fresh. case fresh of
         None \<Rightarrow> apply_checks see rows c
       | Some (s, f) \<Rightarrow> pbind (pool_sql (set_score (score_validation latency_ms anonymity asn (compute_success_rate s f)) (pp_ip row) (pp_port row)))
           (\<lambda>_. apply_checks see rows (fst c + 1, snd c)))
     else pbind (pool_sql (downgrade (pp_ip row) (pp_port row))) (\<lambda>_. apply_checks see rows (fst c, snd c + 1)))"

text \<open>\<open>check_all\<close>: the answer is (validated, removed, downgraded).\<close>

definition check_all :: "'s server \<Rightarrow> (pool_row \<Rightarrow> sighting) \<Rightarrow> ('s, nat \<times> nat \<times> nat) pooled" where
  "check_all sv see =
     pbind (pool_sql (\<lambda>now rows. (oldest_validated rows, rows))) (\<lambda>batch.
     pbind (apply_checks see batch (0, 0)) (\<lambda>c.
     pbind (pool_sql delete_dead) (\<lambda>removed.
     pbind (pool_sql (\<lambda>now rows. (length rows, rows))) (\<lambda>n.
     pbind (pool_redis sv (rc_set True ''system'' ''metrics:proxy_pool_size'' (RInt (int n)) (Some 600))) (\<lambda>_.
     preturn (fst c, removed, snd c))))))"

subsection \<open>Retention\<close>

definition deleted_row_count :: "string \<Rightarrow> int" where
  "deleted_row_count status = (let parts = filter (\<lambda>w. w \<noteq> []) (split_on CHR '' '' status) in
     if parts \<noteq> [] \<and> (\<forall>c\<in>set (last parts). is_ascii_digit c) then int (digits_value 0 (last parts)) else 0)"

record session_row =
  sn_domain :: string
  sn_expires :: rat

record ban_row =
  br_ip :: string
  br_domain :: string
  br_until :: rat

text \<open>
  One sweep: the expired sessions of every tenant whose statement succeeds, then the bans that ended
  more than the retention ago; (sessions deleted, bans deleted, tenants failed).
\<close>

primrec reap_sessions :: "(string \<Rightarrow> exn option) \<Rightarrow> rat \<Rightarrow> string list \<Rightarrow> (string \<Rightarrow> session_row list) \<Rightarrow> (nat \<times> nat) \<times> (string \<Rightarrow> session_row list)" where
  "reap_sessions fails now [] db = ((0, 0), db)"
| "reap_sessions fails now (t # ts) db = (case fails t of
     Some _ \<Rightarrow> (case reap_sessions fails now ts db of ((n, k), db') \<Rightarrow> ((n, k + 1), db'))
   | None \<Rightarrow> (case reap_sessions fails now ts (db(t := filter (\<lambda>s. \<not> sn_expires s < now) (db t))) of
       ((n, k), db') \<Rightarrow> ((n + length (filter (\<lambda>s. sn_expires s < now) (db t)), k), db')))"

definition retention_run :: "(string \<Rightarrow> exn option) \<Rightarrow> rat \<Rightarrow> rat \<Rightarrow> string list \<Rightarrow> (string \<Rightarrow> session_row list) \<Rightarrow> ban_row list
    \<Rightarrow> (nat \<times> nat \<times> nat) \<times> (string \<Rightarrow> session_row list) \<times> ban_row list" where
  "retention_run fails retention_days now tenants db bans = (case reap_sessions fails now tenants db of ((n, k), db') \<Rightarrow>
     let gone = (\<lambda>b. br_until b < now - retention_days * 86400) in
     ((n, length (filter gone bans), k), db', filter (\<lambda>b. \<not> gone b) bans))"

subsection \<open>The exhaustion signal\<close>

definition KICK_POLL_INTERVAL_SECONDS :: int where "KICK_POLL_INTERVAL_SECONDS = 5"
definition HARVEST_COOLDOWN_KEY :: string where "HARVEST_COOLDOWN_KEY = ''proxy:harvest:cooldown''"
definition HARVEST_COOLDOWN_SECONDS :: int where "HARVEST_COOLDOWN_SECONDS = 60"

text \<open>One pass of \<open>_run_kick_watcher\<close> up to the harvest: whether one is due.\<close>

definition kick_due :: "bool prog" where
  "kick_due = call (GET HARVEST_KICK_KEY) (\<lambda>r. case r of
     RBulk v \<Rightarrow> if py_truthy v then
         call (SET HARVEST_COOLDOWN_KEY (RText ''1'') (Some (HARVEST_COOLDOWN_SECONDS * 1000)) True) (\<lambda>r'.
           if r' = ROk then call (DEL HARVEST_KICK_KEY) (\<lambda>_. Return True) else Return False)
       else Return False
   | _ \<Rightarrow> Return False)"

definition kick_pass :: "'s server \<Rightarrow> ('s, nat) pooled \<Rightarrow> ('s, nat option) pooled" where
  "kick_pass sv harvest = pbind (pool_redis sv kick_due) (\<lambda>kicked.
     if kicked then pbind harvest (\<lambda>n. preturn (Some n)) else preturn None)"

subsection \<open>Every score stays in range\<close>

text \<open>The pools that the statements of all processes can produce, in any order, starting from the empty table.\<close>

inductive pool_reach :: "pool_row list \<Rightarrow> bool" where
  no_rows: "pool_reach []"
| harvested: "pool_reach rows \<Longrightarrow> rd_score x = SCORE_TCP_ONLY \<or> rd_score x = score_validation l a c rate
    \<Longrightarrow> pool_reach (snd (upsert_proxy ident x now rows))"
| succeeded: "pool_reach rows \<Longrightarrow> pool_reach (snd (count_success ip port now rows))"
| failed: "pool_reach rows \<Longrightarrow> pool_reach (snd (count_failure ip port now rows))"
| rescored: "pool_reach rows \<Longrightarrow> pool_reach (snd (set_score (recompute_score t r) ip port now rows))"
| validated: "pool_reach rows \<Longrightarrow> pool_reach (snd (set_score (score_validation l a c rate) ip port now rows))"
| promoted: "pool_reach rows \<Longrightarrow> pool_reach (snd (promote_row i (score_validation l a c rate) a' c' l' now rows))"
| not_promoted: "pool_reach rows \<Longrightarrow> pool_reach (snd (promotion_failed i now rows))"
| refreshed: "pool_reach rows \<Longrightarrow> pool_reach (snd (refresh_reading ip port a c l now rows))"
| downgraded: "pool_reach rows \<Longrightarrow> pool_reach (snd (downgrade ip port now rows))"
| swept: "pool_reach rows \<Longrightarrow> pool_reach (snd (delete_dead now rows))"

lemma scores_validD: "scores_valid rows \<Longrightarrow> r \<in> set rows \<Longrightarrow> 0 \<le> pp_score r \<and> pp_score r \<le> 100"
  by (simp add: scores_valid_def)

lemma scores_valid_map:
  assumes "scores_valid rows" "\<And>r. 0 \<le> pp_score r \<Longrightarrow> pp_score r \<le> 100 \<Longrightarrow> 0 \<le> pp_score (f r) \<and> pp_score (f r) \<le> 100"
  shows "scores_valid (map (\<lambda>r. if P r then f r else r) rows)"
  using assms by (auto simp: scores_valid_def)

lemma reach_scores_valid: "pool_reach rows \<Longrightarrow> scores_valid rows"
proof (induction rule: pool_reach.induct)
  case no_rows
  then show ?case by (simp add: scores_valid_def)
next
  case (harvested rows x l a c rate ident now)
  have "0 \<le> rd_score x" "rd_score x \<le> 100"
    using harvested.hyps(2) score_validation_range by (auto simp: SCORE_TCP_ONLY_def)
  then show ?case
    using harvested.IH by (auto simp: upsert_proxy_def scores_valid_def)
next
  case (swept rows now)
  then show ?case by (auto simp: delete_dead_def scores_valid_def)
qed (auto simp: count_success_def count_failure_def set_score_def promote_row_def promotion_failed_def refresh_reading_def downgrade_def
    update_pool_def update_id_def recompute_score_def Let_def intro!: scores_valid_map)

subsection \<open>The rolling re-validation\<close>

definition dated :: "pool_row list \<Rightarrow> bool" where
  "dated rows \<longleftrightarrow> (\<forall>r\<in>set rows. pp_validated r \<noteq> None)"

definition validated_at :: "pool_row \<Rightarrow> rat" where
  "validated_at r = (case pp_validated r of Some t \<Rightarrow> t | None \<Rightarrow> 0)"

definition place :: "pool_row \<Rightarrow> string \<times> int" where
  "place r = (pp_ip r, pp_port r)"

text \<open>The rows last validated by \<open>t0\<close>, but for those at the given places.\<close>

definition stale :: "rat \<Rightarrow> (string \<times> int) set \<Rightarrow> pool_row list \<Rightarrow> pool_row list" where
  "stale t0 X rows = filter (\<lambda>r. validated_at r \<le> t0 \<and> place r \<notin> X) rows"

lemma stale_update:
  assumes "t0 < now" "\<And>r. pp_validated (f r) = Some now" "\<And>r. place (f r) = place r"
  shows "stale t0 X (update_pool ip port f rows) = stale t0 (insert (ip, port) X) rows"
  using assms by (induction rows) (auto simp: stale_def update_pool_def at_endpoint_def validated_at_def place_def)

lemma dated_update:
  "dated rows \<Longrightarrow> (\<And>r. pp_validated (f r) \<noteq> None) \<Longrightarrow> dated (update_pool ip port f rows)"
  by (auto simp: dated_def update_pool_def)

lemma update_pool_twice:
  "(\<And>r. place (f r) = place r) \<Longrightarrow> update_pool ip port g (update_pool ip port f rows) = update_pool ip port (\<lambda>r. g (f r)) rows"
  by (induction rows) (auto simp: update_pool_def at_endpoint_def place_def)

text \<open>One checked row: its place is no longer stale, whatever the check found.\<close>

lemma apply_checks_Cons:
  assumes "pw_store w = []"
  shows "\<exists>f c'. apply_checks see (row # rows) c w
      = apply_checks see rows c' (w\<lparr>pw_rows := update_pool (pp_ip row) (pp_port row) f (pw_rows w)\<rparr>)
    \<and> (\<forall>r. pp_validated (f r) = Some (pw_now w) \<and> place (f r) = place r)"
proof -
  obtain v a cls l where v: "check_one see row = (v, a, cls, l)" by (metis prod_cases4)
  let ?ip = "pp_ip row" and ?port = "pp_port row" and ?now = "pw_now w"
  let ?f = "\<lambda>r. r\<lparr>pp_anonymity := a, pp_asn := cls, pp_latency := l, pp_validated := Some ?now\<rparr>"
  consider "\<not> v" | "v" "List.find (at_endpoint ?ip ?port) (update_pool ?ip ?port ?f (pw_rows w)) = None"
    | r where "v" "List.find (at_endpoint ?ip ?port) (update_pool ?ip ?port ?f (pw_rows w)) = Some r"
    by (cases v; cases "List.find (at_endpoint ?ip ?port) (update_pool ?ip ?port ?f (pw_rows w))") auto
  then show ?thesis
  proof cases
    case 1
    then have "apply_checks see (row # rows) c w = apply_checks see rows (fst c, snd c + 1)
        (w\<lparr>pw_rows := update_pool ?ip ?port (\<lambda>r. r\<lparr>pp_score := max 0 (pp_score r - 20), pp_validated := Some ?now\<rparr>) (pw_rows w)\<rparr>)"
      using assms v by (simp add: pbind_def pool_sql_alone downgrade_def)
    then show ?thesis
      by (rule_tac exI, rule_tac exI, rule_tac conjI, assumption) (simp add: place_def)
  next
    case 2
    then have "apply_checks see (row # rows) c w = apply_checks see rows c (w\<lparr>pw_rows := update_pool ?ip ?port ?f (pw_rows w)\<rparr>)"
      using assms v by (simp add: pbind_def pool_sql_alone refresh_reading_def Let_def)
    then show ?thesis
      by (rule_tac exI, rule_tac exI, rule_tac conjI, assumption) (simp add: place_def)
  next
    case (3 r)
    let ?q = "score_validation l a cls (compute_success_rate (pp_successes r) (pp_failures r))"
    have twice: "update_pool ?ip ?port (\<lambda>r. r\<lparr>pp_score := ?q\<rparr>) (update_pool ?ip ?port ?f (pw_rows w))
        = update_pool ?ip ?port (\<lambda>r. (?f r)\<lparr>pp_score := ?q\<rparr>) (pw_rows w)"
      by (rule update_pool_twice) (simp add: place_def)
    have "apply_checks see (row # rows) c w = apply_checks see rows (fst c + 1, snd c)
        (w\<lparr>pw_rows := update_pool ?ip ?port (\<lambda>r. (?f r)\<lparr>pp_score := ?q\<rparr>) (pw_rows w)\<rparr>)"
      using assms v 3 twice by (simp add: pbind_def pool_sql_alone refresh_reading_def set_score_def Let_def)
    then show ?thesis
      by (rule_tac exI, rule_tac exI, rule_tac conjI, assumption) (simp add: place_def)
  qed
qed

lemma apply_checks_stale:
  assumes "pw_store w = []" "t0 < pw_now w" "dated (pw_rows w)"
  shows "\<exists>c' u. apply_checks see batch c w = (Inr c', u) \<and> pw_store u = [] \<and> pw_now u = pw_now w \<and> dated (pw_rows u) \<and>
    (\<forall>X. stale t0 X (pw_rows u) = stale t0 (X \<union> place ` set batch) (pw_rows w))"
  using assms
proof (induction batch arbitrary: c w)
  case Nil
  then show ?case by (auto simp: preturn_def)
next
  case (Cons row rows)
  obtain f c' where f: "apply_checks see (row # rows) c w
      = apply_checks see rows c' (w\<lparr>pw_rows := update_pool (pp_ip row) (pp_port row) f (pw_rows w)\<rparr>)"
    "\<And>r. pp_validated (f r) = Some (pw_now w)" "\<And>r. place (f r) = place r"
    using apply_checks_Cons [OF Cons.prems(1)] by metis
  let ?w = "w\<lparr>pw_rows := update_pool (pp_ip row) (pp_port row) f (pw_rows w)\<rparr>"
  have "dated (pw_rows ?w)"
    using dated_update [OF Cons.prems(3)] f(2) by simp
  then obtain c'' u where u: "apply_checks see rows c' ?w = (Inr c'', u)" "pw_store u = []" "pw_now u = pw_now w" "dated (pw_rows u)"
    "\<And>X. stale t0 X (pw_rows u) = stale t0 (X \<union> place ` set rows) (pw_rows ?w)"
    using Cons.IH [of ?w c'] Cons.prems(1,2) by auto
  have "stale t0 X (pw_rows u) = stale t0 (X \<union> place ` set (row # rows)) (pw_rows w)" for X
    using u(5) [of X] stale_update [OF Cons.prems(2) f(2,3), of "X \<union> place ` set rows" "pp_ip row" "pp_port row" "pw_rows w"]
    by (simp add: place_def)
  then show ?case
    using f(1) u(1-4) by auto
qed

text \<open>The batch takes the stalest hundred.\<close>

lemma length_filter_conj_le: "length (filter (\<lambda>x. P x \<and> Q x) xs) \<le> length (filter P xs)"
  by (induction xs) auto

lemma filter_sorted_drop:
  fixes v :: "'a \<Rightarrow> rat"
  assumes "sorted (map v S)"
  shows "length (filter (\<lambda>r. v r \<le> t) (drop k S)) \<le> length (filter (\<lambda>r. v r \<le> t) S) - k"
proof (cases "\<exists>r\<in>set (drop k S). v r \<le> t")
  case True
  then obtain r where r: "r \<in> set (drop k S)" "v r \<le> t" by blast
  have "v x \<le> t" if "x \<in> set (take k S)" for x
  proof -
    have "sorted (map v (take k S) @ map v (drop k S))"
      using assms by (metis append_take_drop_id map_append)
    then have "v x \<le> v r" using that r(1) by (auto simp: sorted_append)
    then show ?thesis using r(2) by simp
  qed
  then have "filter (\<lambda>r. v r \<le> t) (take k S) = take k S" by (simp add: filter_id_conv)
  moreover have "length (take k S) = k"
    using r(1) by (cases "k \<le> length S") auto
  moreover have "filter (\<lambda>r. v r \<le> t) S = filter (\<lambda>r. v r \<le> t) (take k S) @ filter (\<lambda>r. v r \<le> t) (drop k S)"
    by (metis append_take_drop_id filter_append)
  ultimately show ?thesis by simp
next
  case False
  then have "filter (\<lambda>r. v r \<le> t) (drop k S) = []" by (auto simp: filter_empty_conv)
  then show ?thesis by simp
qed

lemma batch_stalest:
  assumes "dated rows"
  shows "length (stale t0 (place ` set (oldest_validated rows)) rows) \<le> length (stale t0 {} rows) - 100"
proof -
  let ?S = "sort_key validated_at rows"
  have "filter (\<lambda>r. pp_validated r \<noteq> None) rows = rows" "filter (\<lambda>r. pp_validated r = None) rows = []"
    using assms by (auto simp: dated_def filter_id_conv filter_empty_conv)
  moreover have "validated_at = (\<lambda>r. case pp_validated r of Some t \<Rightarrow> t | None \<Rightarrow> 0)"
    by (rule ext) (simp add: validated_at_def)
  ultimately have batch: "oldest_validated rows = take 100 ?S"
    unfolding oldest_validated_def by simp
  let ?X = "place ` set (take 100 ?S)"
  have len: "length (filter P rows) = length (filter P ?S)" for P
    by (simp add: filter_sort)
  have none: "filter (\<lambda>r. validated_at r \<le> t0 \<and> place r \<notin> ?X) (take 100 ?S) = []"
    by (auto simp: filter_empty_conv)
  have "length (stale t0 ?X rows) = length (filter (\<lambda>r. validated_at r \<le> t0 \<and> place r \<notin> ?X) (take 100 ?S @ drop 100 ?S))"
    unfolding stale_def len by simp
  also have "\<dots> = length (filter (\<lambda>r. validated_at r \<le> t0 \<and> place r \<notin> ?X) (drop 100 ?S))"
    unfolding filter_append none by simp
  also have "\<dots> \<le> length (filter (\<lambda>r. validated_at r \<le> t0) (drop 100 ?S))"
    by (rule length_filter_conj_le)
  also have "\<dots> \<le> length (filter (\<lambda>r. validated_at r \<le> t0) ?S) - 100"
    by (rule filter_sorted_drop) simp
  finally show ?thesis
    using len [of "\<lambda>r. validated_at r \<le> t0"] batch by (simp add: stale_def)
qed

text \<open>The cycles of the monitor, \<open>gap\<close> apart, each with its own view of the network.\<close>

primrec health_cycles :: "'s server \<Rightarrow> (nat \<Rightarrow> pool_row \<Rightarrow> sighting) \<Rightarrow> rat \<Rightarrow> nat \<Rightarrow> 's pool_world \<Rightarrow> 's pool_world" where
  "health_cycles sv see gap 0 w = w"
| "health_cycles sv see gap (Suc n) w =
     (let w' = health_cycles sv see gap n w in snd (check_all sv (see n) (w'\<lparr>pw_now := pw_now w' + gap\<rparr>)))"

lemma pool_redis_frame [simp]:
  "pw_rows (snd (pool_redis sv p w)) = pw_rows w" "pw_store (snd (pool_redis sv p w)) = pw_store w" "pw_now (snd (pool_redis sv p w)) = pw_now w"
  by (simp_all add: pool_redis_def case_prod_beta')

lemma snd_pbind_preturn [simp]: "snd (pbind m (\<lambda>_. preturn x) w) = snd (m w)"
  by (auto simp: pbind_def preturn_def split: prod.splits sum.splits)

lemma check_all_stale:
  assumes "pw_store w = []" "t0 < pw_now w" "dated (pw_rows w)"
  shows "let u = snd (check_all sv see w) in pw_store u = [] \<and> pw_now u = pw_now w \<and> dated (pw_rows u) \<and>
    length (stale t0 {} (pw_rows u)) \<le> length (stale t0 {} (pw_rows w)) - 100"
proof -
  obtain c u where u: "apply_checks see (oldest_validated (pw_rows w)) (0, 0) w = (Inr c, u)" "pw_store u = []" "pw_now u = pw_now w"
    "dated (pw_rows u)" "stale t0 {} (pw_rows u) = stale t0 (place ` set (oldest_validated (pw_rows w))) (pw_rows w)"
    using apply_checks_stale [OF assms, of see "oldest_validated (pw_rows w)" "(0, 0)"] by auto
  let ?rows = "filter (\<lambda>r. 0 < pp_score r) (pw_rows u)"
  have "w\<lparr>pw_rows := pw_rows w\<rparr> = w" by simp
  then have "pw_rows (snd (check_all sv see w)) = ?rows \<and> pw_store (snd (check_all sv see w)) = [] \<and> pw_now (snd (check_all sv see w)) = pw_now w"
  proof -
    have "check_all sv see w = pbind (pool_redis sv (rc_set True ''system'' ''metrics:proxy_pool_size'' (RInt (int (length ?rows))) (Some 600)))
        (\<lambda>_. preturn (fst c, length (filter (\<lambda>r. pp_score r \<le> 0) (pw_rows u)), snd c)) (u\<lparr>pw_rows := ?rows\<rparr>)"
      using u assms(1) by (simp add: check_all_def pbind_def [of "pool_sql _"] pbind_def [of "apply_checks _ _ _"] pool_sql_alone delete_dead_def)
    then show ?thesis
      using u by simp
  qed
  moreover have "dated ?rows" using u(4) by (auto simp: dated_def)
  moreover have "length (stale t0 {} ?rows) \<le> length (stale t0 {} (pw_rows u))"
    using length_filter_conj_le [of "\<lambda>r. validated_at r \<le> t0" "\<lambda>r. 0 < pp_score r" "pw_rows u"]
    by (simp add: stale_def filter_filter conj_commute)
  ultimately show ?thesis
    using batch_stalest [OF assms(3), of t0] u(5) by (auto simp: Let_def)
qed

lemma health_cycles_stale:
  assumes "pw_store w = []" "t0 < pw_now w" "dated (pw_rows w)" "0 \<le> gap"
  shows "let u = health_cycles sv see gap n w in pw_store u = [] \<and> t0 < pw_now u \<and> dated (pw_rows u) \<and>
    length (stale t0 {} (pw_rows u)) \<le> length (pw_rows w) - 100 * n"
proof (induction n)
  case 0
  then show ?case
    using assms by (simp add: stale_def)
next
  case (Suc n)
  let ?v = "health_cycles sv see gap n w"
  let ?w = "?v\<lparr>pw_now := pw_now ?v + gap\<rparr>"
  have "pw_store ?w = []" "t0 < pw_now ?w" "dated (pw_rows ?w)"
    "length (stale t0 {} (pw_rows ?w)) \<le> length (pw_rows w) - 100 * n"
    using Suc assms(4) by (simp_all add: Let_def)
  then show ?case
    using check_all_stale [of ?w t0 sv "see n"] by (auto simp: Let_def)
qed

section \<open>Properties\<close>

text \<open>
  \<^bold>\<open>C32\<close>: whatever the harvester, the promotion, the monitor and the fetches do to the pool, and in
  whatever order, every score stays between 0 and 100, so that the manager can always read its candidates.
\<close>

theorem pool_always_readable:
  assumes "pool_reach rows"
  shows "\<exists>c. first_candidate exclude (take 20 (fresh_rows min_score exclude rows)) = Inr c"
  using first_candidate_head [OF reach_scores_valid [OF assms]] by blast

definition demo_reading :: reading where
  "demo_reading = \<lparr>rd_ip = ''203.0.113.7'', rd_port = 3128, rd_protocol = P_HTTP, rd_anonymity = ELITE, rd_asn = RESIDENTIAL,
     rd_latency = Some 400, rd_score = score_validation (Some 400) ELITE RESIDENTIAL None\<rparr>"

lemma demo_reading_reach: "pool_reach (snd (downgrade ''203.0.113.7'' 3128 60 (snd (upsert_proxy 1 demo_reading 0 []))))"
  by (rule pool_reach.downgraded, rule pool_reach.harvested [where l = "Some 400" and a = ELITE and c = RESIDENTIAL and rate = None],
      rule pool_reach.no_rows) (simp add: demo_reading_def)

theorem pool_always_readable_witness:
  "\<exists>c. first_candidate [] (take 20 (fresh_rows 40 [] (snd (downgrade ''203.0.113.7'' 3128 60 (snd (upsert_proxy 1 demo_reading 0 [])))))) = Inr c"
  by (rule pool_always_readable [OF demo_reading_reach])

text \<open>
  \<^bold>\<open>C34\<close>: the monitor goes round the whole pool: after as many undisturbed cycles as the pool has hundreds
  of proxies, begun or full, every proxy left in it has been validated again, whatever the checks found.
\<close>

theorem pool_revalidated:
  assumes "pw_store w = []" "t0 < pw_now w" "dated (pw_rows w)" "0 \<le> gap"
    and "length (pw_rows w) \<le> 100 * n" "r \<in> set (pw_rows (health_cycles sv see gap n w))"
  shows "t0 < validated_at r"
proof -
  have "stale t0 {} (pw_rows (health_cycles sv see gap n w)) = []"
    using health_cycles_stale [OF assms(1-4), of sv see n] assms(5) by (simp add: Let_def)
  then show ?thesis
    using assms(6) by (fastforce simp: stale_def filter_empty_conv)
qed

definition demo_monitored :: "keyspace pool_world" where
  "demo_monitored = demo_pool\<lparr>pw_now := 1000\<rparr>"

definition demo_judge :: sighting where
  "demo_judge = \<lparr>sg_tcp = True, sg_judge = \<lambda>_. None, sg_hostname = None, sg_ident = 0\<rparr>"

theorem pool_revalidated_witness:
  "map pp_ip (pw_rows (health_cycles mem_server (\<lambda>_ _. demo_judge) 300 1 demo_monitored)) = [''untested'', ''dead'', ''proven'', ''poor'']
   \<and> 999 < validated_at (hd (pw_rows (health_cycles mem_server (\<lambda>_ _. demo_judge) 300 1 demo_monitored)))"
proof
  show ips: "map pp_ip (pw_rows (health_cycles mem_server (\<lambda>_ _. demo_judge) 300 1 demo_monitored)) = [''untested'', ''dead'', ''proven'', ''poor'']"
    by code_simp
  have "pw_rows (health_cycles mem_server (\<lambda>_ _. demo_judge) 300 1 demo_monitored) \<noteq> []" using ips by auto
  then have "hd (pw_rows (health_cycles mem_server (\<lambda>_ _. demo_judge) 300 1 demo_monitored))
      \<in> set (pw_rows (health_cycles mem_server (\<lambda>_ _. demo_judge) 300 1 demo_monitored))" by simp
  then show "999 < validated_at (hd (pw_rows (health_cycles mem_server (\<lambda>_ _. demo_judge) 300 1 demo_monitored)))"
    by (rule pool_revalidated [rotated 5])
      (simp_all add: demo_monitored_def demo_pool_def dated_def demo_row_def)
qed

subsection \<open>Promotion stays within its attempts\<close>

lemma promotable_capped: "r \<in> set (promotion_candidates now rows) \<Longrightarrow> pp_attempts r < MAX_PROMOTION_ATTEMPTS \<and> r \<in> set rows"
  by (auto simp: promotion_candidates_def by_attempted_def promotable_def dest: in_set_takeD)

text \<open>
  The harvester's own promotion cannot record a failure: the first candidate that does not validate
  ends it with the server's error, whatever comes behind.
\<close>

lemma tcp_promotion_stops:
  assumes "fst (http_validate (sg_judge (see row))) = False"
  shows "fst (promote_tcp_rows see (row # rows) n w) = Inl (OtherError ''IndeterminateDatatypeError'')"
  using assms by (simp add: pthrow_def case_prod_beta')

text \<open>After a harvest that a signal started none is started for a minute, however many signals come.\<close>

lemma kick_refused_in_cooldown:
  assumes "str_at K HARVEST_KICK_KEY = Some v" "live K HARVEST_COOLDOWN_KEY \<noteq> None"
  shows "run mem_server kick_due [] K = (Inr False, K)"
  using assms by (cases v) (auto simp: kick_due_def run_simps HARVEST_COOLDOWN_SECONDS_def)

end
