(* ===== verification/Job_Store.thy ===== *)
theory Job_Store
  imports Models
begin

text \<open>
  A tenant's tables in Postgres and every statement the engine runs on them:
  \<^verbatim>\<open>src/src/scraper_engine/storage/dlq.py\<close> (the queue of dead letters, whole), and the SQL on
  \<open>scrape_jobs\<close> and \<open>scrape_results\<close> of \<^verbatim>\<open>orchestrator/tasks.py\<close>, \<^verbatim>\<open>orchestrator/worker.py\<close>,
  \<^verbatim>\<open>orchestrator/stuck_job_reaper.py\<close>, \<^verbatim>\<open>proxy/dlq_reaper.py\<close> and \<^verbatim>\<open>api/routes.py\<close>. One statement is
  atomic; a table is the list of its rows in the order of their insertion, which is also the order
  in which rows that tie in an \<open>ORDER BY\<close> are returned (SQL leaves it open). Identifiers of jobs are
  UUIDs in their canonical text; times are seconds.
\<close>

subsection \<open>Tables\<close>

record dlq_row =
  dl_id :: int
  dl_job :: string
  dl_url :: string
  dl_category :: string
  dl_error :: string
  dl_level :: int
  dl_retries :: int
  dl_enqueued :: rat
  dl_dead :: rat
  dl_not_before :: "rat option"

text \<open>\<open>config_used\<close>: the overrides of a scrape job, or spider and seeds of a crawl.\<close>

datatype job_config = ScrapeConfig "config_overrides option" | CrawlConfig string "string list"

record job_row =
  sj_id :: string
  sj_urls :: "string list"
  sj_config :: job_config
  sj_status :: job_status
  sj_webhook :: "string option"
  sj_idempotency :: "string option"
  sj_created :: rat
  sj_updated :: rat
  sj_started :: "rat option"
  sj_finished :: "rat option"

record result_row =
  sr_job :: string
  sr_url :: string
  sr_success :: bool
  sr_http_status :: "int option"
  sr_is_challenge_page :: bool
  sr_level_used :: int
  sr_proxy_used :: "string option"
  sr_proxy_source :: "proxy_source option"
  sr_markdown :: "string option"
  sr_json_data :: "json option"
  sr_html_snapshot_url :: "string option"
  sr_time_taken_ms :: int
  sr_error_message :: "string option"
  sr_failure_category :: "failure_category option"
  sr_timings :: "json option"
  sr_extracted_at :: rat

record tenant_db =
  td_dlq :: "dlq_row list"
  td_next_id :: int
  td_jobs :: "job_row list"
  td_results :: "result_row list"
  td_now :: rat

subsection \<open>The queue of dead letters\<close>

definition dlq_at :: "string \<Rightarrow> string \<Rightarrow> dlq_row \<Rightarrow> bool" where
  "dlq_at job_id url r \<longleftrightarrow> dl_job r = job_id \<and> dl_url r = url"

text \<open>
  \<open>enqueue\<close>: the \<open>INSERT ... ON CONFLICT (job_id, url) DO UPDATE\<close>. The \<open>SERIAL\<close> column draws its number
  before the conflict is found, so the number is used up either way.
\<close>

definition dlq_enqueue ::
  "rat \<Rightarrow> string \<Rightarrow> string \<Rightarrow> failure_category \<Rightarrow> string \<Rightarrow> int \<Rightarrow> rat option \<Rightarrow> tenant_db \<Rightarrow> tenant_db" where
  "dlq_enqueue now job_id url category error level retry_not_before0 db =
     (let excluded = \<lparr>dl_id = td_next_id db, dl_job = job_id, dl_url = url, dl_category = category_value category,
            dl_error = error, dl_level = level, dl_retries = 0, dl_enqueued = td_now db, dl_dead = now,
            dl_not_before = retry_not_before0\<rparr>;
          update = (\<lambda>r. r\<lparr>dl_category := dl_category excluded, dl_error := dl_error excluded, dl_level := dl_level excluded,
            dl_dead := dl_dead excluded, dl_not_before := dl_not_before excluded\<rparr>) in
      db\<lparr>td_next_id := td_next_id db + 1,
         td_dlq := (if list_ex (dlq_at job_id url) (td_dlq db)
           then map (\<lambda>r. if dlq_at job_id url r then update r else r) (td_dlq db)
           else td_dlq db @ [excluded])\<rparr>)"

record dead_letter_entry =
  de_id :: int
  de_job_id :: string
  de_tenant_id :: string
  de_url :: string
  de_category :: failure_category
  de_error_message :: string
  de_level_attempted :: int
  de_auto_retry_count :: int
  de_enqueued_at :: rat
  de_dead_at :: rat
  de_retry_not_before :: "rat option"

definition to_entry :: "string \<Rightarrow> dlq_row \<Rightarrow> dead_letter_entry res" where
  "to_entry tenant_id r = (case category_of_value (dl_category r) of Inl e \<Rightarrow> Inl e
     | Inr c \<Rightarrow> Inr \<lparr>de_id = dl_id r, de_job_id = dl_job r, de_tenant_id = tenant_id, de_url = dl_url r, de_category = c,
         de_error_message = dl_error r, de_level_attempted = dl_level r, de_auto_retry_count = dl_retries r,
         de_enqueued_at = dl_enqueued r, de_dead_at = dl_dead r, de_retry_not_before = dl_not_before r\<rparr>)"

primrec to_entries :: "string \<Rightarrow> dlq_row list \<Rightarrow> dead_letter_entry list res" where
  "to_entries tenant_id [] = Inr []"
| "to_entries tenant_id (r # rs) = (case to_entry tenant_id r of Inl e \<Rightarrow> Inl e
     | Inr x \<Rightarrow> (case to_entries tenant_id rs of Inl e \<Rightarrow> Inl e | Inr xs \<Rightarrow> Inr (x # xs)))"

definition list_for_tenant :: "string \<Rightarrow> nat \<Rightarrow> nat \<Rightarrow> string option \<Rightarrow> tenant_db \<Rightarrow> dead_letter_entry list res" where
  "list_for_tenant tenant_id limit offset job_id db =
     to_entries tenant_id (take limit (drop offset (sort_key (\<lambda>r. - dl_dead r)
       (filter (\<lambda>r. case job_id of None \<Rightarrow> True | Some j \<Rightarrow> dl_job r = j) (td_dlq db)))))"

definition retry_candidate :: "failure_category list \<Rightarrow> int \<Rightarrow> dlq_row \<Rightarrow> bool" where
  "retry_candidate categories max_auto_retries r \<longleftrightarrow>
     dl_category r \<in> set (map category_value categories) \<and> dl_retries r < max_auto_retries"

definition list_retryable ::
  "string \<Rightarrow> failure_category list \<Rightarrow> int \<Rightarrow> nat \<Rightarrow> tenant_db \<Rightarrow> dead_letter_entry list res" where
  "list_retryable tenant_id categories max_auto_retries limit db =
     to_entries tenant_id (take limit (sort_key dl_dead (filter (retry_candidate categories max_auto_retries) (td_dlq db))))"

definition mark_retry_attempt :: "int \<Rightarrow> tenant_db \<Rightarrow> tenant_db" where
  "mark_retry_attempt entry_id db =
     db\<lparr>td_dlq := map (\<lambda>r. if dl_id r = entry_id then r\<lparr>dl_retries := dl_retries r + 1\<rparr> else r) (td_dlq db)\<rparr>"

definition dlq_clear :: "string \<Rightarrow> string \<Rightarrow> tenant_db \<Rightarrow> tenant_db" where
  "dlq_clear job_id url db = db\<lparr>td_dlq := filter (\<lambda>r. \<not> dlq_at job_id url r) (td_dlq db)\<rparr>"

subsection \<open>Jobs\<close>

definition TERMINAL_STATUSES :: "job_status list" where
  "TERMINAL_STATUSES = [COMPLETED, FAILED, CANCELLED, DEAD_LETTER]"

definition job_row_of :: "string \<Rightarrow> tenant_db \<Rightarrow> job_row option" where
  "job_row_of job_id db = find (\<lambda>r. sj_id r = job_id) (td_jobs db)"

definition update_jobs :: "(job_row \<Rightarrow> bool) \<Rightarrow> (job_row \<Rightarrow> job_row) \<Rightarrow> tenant_db \<Rightarrow> tenant_db" where
  "update_jobs P f db = db\<lparr>td_jobs := map (\<lambda>r. if P r then f r else r) (td_jobs db)\<rparr>"

lemma job_row_of_update:
  assumes "\<And>r. sj_id (f r) = sj_id r"
  shows "job_row_of j (update_jobs P f db) = map_option (\<lambda>r. if P r then f r else r) (job_row_of j db)"
proof -
  have "find (\<lambda>r. sj_id r = j) (map (\<lambda>r. if P r then f r else r) rs) = map_option (\<lambda>r. if P r then f r else r) (find (\<lambda>r. sj_id r = j) rs)" for rs
    by (induction rs) (auto simp: assms)
  then show ?thesis by (simp add: job_row_of_def update_jobs_def)
qed

text \<open>An \<open>UPDATE ... WHERE job_id = ... AND ... RETURNING\<close>: the row as it is after the update, if any was updated.\<close>

definition update_job_where ::
  "string \<Rightarrow> (job_row \<Rightarrow> bool) \<Rightarrow> (job_row \<Rightarrow> job_row) \<Rightarrow> tenant_db \<Rightarrow> job_row option \<times> tenant_db" where
  "update_job_where job_id P f db =
     (let db' = update_jobs (\<lambda>r. sj_id r = job_id \<and> P r) f db in
      (case job_row_of job_id db of None \<Rightarrow> None | Some r \<Rightarrow> if P r then Some (f r) else None, db'))"

definition insert_job ::
  "string \<Rightarrow> string list \<Rightarrow> job_config \<Rightarrow> string option \<Rightarrow> string option \<Rightarrow> tenant_db \<Rightarrow> tenant_db" where
  "insert_job job_id urls config webhook idempotency_key db =
     db\<lparr>td_jobs := td_jobs db @ [\<lparr>sj_id = job_id, sj_urls = urls, sj_config = config, sj_status = PENDING, sj_webhook = webhook,
        sj_idempotency = idempotency_key, sj_created = td_now db, sj_updated = td_now db, sj_started = None, sj_finished = None\<rparr>]\<rparr>"

definition live_idempotent :: "string \<Rightarrow> tenant_db \<Rightarrow> job_row option" where
  "live_idempotent idempotency_key db =
     (case sort_key (\<lambda>r. - sj_created r) (filter (\<lambda>r. sj_idempotency r = Some idempotency_key
        \<and> sj_status r \<notin> {FAILED, CANCELLED, DEAD_LETTER}) (td_jobs db)) of [] \<Rightarrow> None | r # _ \<Rightarrow> Some r)"

definition enqueue_failed :: "string \<Rightarrow> tenant_db \<Rightarrow> tenant_db" where
  "enqueue_failed job_id db =
     update_jobs (\<lambda>r. sj_id r = job_id) (\<lambda>r. r\<lparr>sj_status := FAILED, sj_updated := td_now db\<rparr>) db"

definition cancel_update :: "string \<Rightarrow> tenant_db \<Rightarrow> job_row option \<times> tenant_db" where
  "cancel_update job_id db =
     update_job_where job_id (\<lambda>r. sj_status r \<notin> set TERMINAL_STATUSES) (\<lambda>r. r\<lparr>sj_status := CANCELLED, sj_updated := td_now db\<rparr>) db"

definition start_update :: "string \<Rightarrow> tenant_db \<Rightarrow> tenant_db" where
  "start_update job_id db = update_jobs (\<lambda>r. sj_id r = job_id)
     (\<lambda>r. r\<lparr>sj_status := PROCESSING, sj_updated := td_now db, sj_started := Some (td_now db)\<rparr>) db"

definition finish_update :: "string \<Rightarrow> job_status \<Rightarrow> tenant_db \<Rightarrow> tenant_db" where
  "finish_update job_id status db = update_jobs (\<lambda>r. sj_id r = job_id)
     (\<lambda>r. r\<lparr>sj_status := status, sj_updated := td_now db, sj_finished := Some (td_now db)\<rparr>) db"

definition touch_job :: "string \<Rightarrow> tenant_db \<Rightarrow> tenant_db" where
  "touch_job job_id db = update_jobs (\<lambda>r. sj_id r = job_id) (\<lambda>r. r\<lparr>sj_updated := td_now db\<rparr>) db"

text \<open>The re-drive of the reaper of dead letters; it returns the number of URLs (\<open>array_length\<close>, \<open>NULL\<close> for none).\<close>

definition redrive_update :: "string \<Rightarrow> tenant_db \<Rightarrow> nat option option \<times> tenant_db" where
  "redrive_update job_id db =
     (case update_job_where job_id (\<lambda>r. sj_status r \<notin> {PENDING, PROCESSING, CANCELLED})
        (\<lambda>r. r\<lparr>sj_status := PENDING, sj_updated := td_now db\<rparr>) db of
        (row, db') \<Rightarrow> (map_option (\<lambda>r. if sj_urls r = [] then None else Some (length (sj_urls r))) row, db'))"

definition reconcile_update :: "string \<Rightarrow> tenant_db \<Rightarrow> tenant_db" where
  "reconcile_update job_id db = update_jobs (\<lambda>r. sj_id r = job_id)
     (\<lambda>r. r\<lparr>sj_status := FAILED, sj_updated := td_now db,
        sj_finished := (case sj_finished r of None \<Rightarrow> Some (td_now db) | t \<Rightarrow> t)\<rparr>) db"

definition stale_jobs :: "rat \<Rightarrow> rat \<Rightarrow> tenant_db \<Rightarrow> job_row list" where
  "stale_jobs processing_grace pending_grace db = filter (\<lambda>r.
     sj_status r = PROCESSING \<and> sj_updated r < td_now db - processing_grace
     \<or> sj_status r = PENDING \<and> sj_updated r < td_now db - pending_grace) (td_jobs db)"

subsection \<open>Results\<close>

text \<open>
  \<open>_timings_column\<close> packs the diagnostics of a result into one JSON value, with the phase timings (a
  dictionary of integers, an argument here), and \<open>_split_timings_column\<close> of \<^verbatim>\<open>api/routes.py\<close> takes it
  apart again. An escalation is the dictionary \<open>_reject\<close> appends.
\<close>

definition json_opt :: "('a \<Rightarrow> json) \<Rightarrow> 'a option \<Rightarrow> json" where
  "json_opt f x = (case x of None \<Rightarrow> JNull | Some a \<Rightarrow> f a)"

definition escalation_json :: "escalation \<Rightarrow> json" where
  "escalation_json e = JObj [(''level'', JInt (es_level e)), (''reason'', JStr (es_reason e)),
     (''http_status'', json_opt JInt (es_http_status e)), (''engine'', json_opt JStr (es_engine e)),
     (''proxy_source'', json_opt (\<lambda>s. JStr (source_value s)) (es_proxy_source e))]"

definition timings_column :: "(string \<times> int) list option \<Rightarrow> fetch_result \<Rightarrow> json option" where
  "timings_column timings result =
     (let escalations = (case fr_escalations result of Some (e # es) \<Rightarrow> [(''escalations'', JList (map escalation_json (e # es)))] | _ \<Rightarrow> []);
          skipped = (if fr_paid_gateway_skipped result = Some True then [(''paid_gateway_skipped'', JBool True)] else []);
          refused = (if fr_site_refused_recently result = Some True then [(''site_refused_recently'', JBool True)] else []);
          reason = (case fr_block_reason result of Some (c # cs) \<Rightarrow> [(''block_reason'', JStr (c # cs))] | _ \<Rightarrow> []) in
      if timings = None \<and> escalations = [] \<and> skipped = [] \<and> refused = [] \<and> reason = [] then None
      else Some (JObj (map (\<lambda>(k, n). (k, JInt n)) (case timings of None \<Rightarrow> [] | Some t \<Rightarrow> t)
        @ escalations @ skipped @ refused @ reason)))"

record diagnostics =
  dg_timings :: "(string \<times> json) list option"
  dg_escalations :: "json option"
  dg_paid_gateway_skipped :: "json option"
  dg_block_reason :: "json option"
  dg_site_refused_recently :: "json option"

definition no_diagnostics :: diagnostics where
  "no_diagnostics = \<lparr>dg_timings = None, dg_escalations = None, dg_paid_gateway_skipped = None, dg_block_reason = None,
     dg_site_refused_recently = None\<rparr>"

definition pop :: "string \<Rightarrow> (string \<times> json) list \<Rightarrow> json option \<times> (string \<times> json) list" where
  "pop k fs = (map_of fs k, filter (\<lambda>f. fst f \<noteq> k) fs)"

definition split_timings_column :: "json option \<Rightarrow> diagnostics" where
  "split_timings_column raw = (case raw of
     Some (JObj payload) \<Rightarrow>
       (let (escalations, p1) = pop ''escalations'' payload; (skipped, p2) = pop ''paid_gateway_skipped'' p1;
            (block_reason, p3) = pop ''block_reason'' p2; (refused_recently, p4) = pop ''site_refused_recently'' p3 in
        \<lparr>dg_timings = (if p4 = [] then None else Some p4), dg_escalations = escalations, dg_paid_gateway_skipped = skipped,
          dg_block_reason = block_reason, dg_site_refused_recently = refused_recently\<rparr>)
   | _ \<Rightarrow> no_diagnostics)"

definition insert_result :: "string \<Rightarrow> fetch_result \<Rightarrow> string option \<Rightarrow> (string \<times> int) list option \<Rightarrow> tenant_db \<Rightarrow> tenant_db" where
  "insert_result job_id result html_snapshot_url timings db = db\<lparr>td_results := td_results db @ [\<lparr>sr_job = job_id, sr_url = fr_url result,
     sr_success = fr_success result, sr_http_status = fr_http_status result, sr_is_challenge_page = fr_is_challenge_page result,
     sr_level_used = fr_level_used result, sr_proxy_used = fr_proxy_used result, sr_proxy_source = fr_proxy_source result,
     sr_markdown = fr_markdown result, sr_json_data = fr_extracted result, sr_html_snapshot_url = html_snapshot_url,
     sr_time_taken_ms = fr_duration_ms result, sr_error_message = fr_error_message result,
     sr_failure_category = fr_failure_category result, sr_timings = timings_column timings result, sr_extracted_at = td_now db\<rparr>]\<rparr>"

definition select_succeeded :: "string \<Rightarrow> tenant_db \<Rightarrow> string list" where
  "select_succeeded job_id db =
     remdups (map sr_url (filter (\<lambda>r. sr_job r = job_id \<and> sr_success r) (td_results db)))"

definition CACHE_TTL_DAYS :: rat where "CACHE_TTL_DAYS = 7"

text \<open>The reuse query of \<open>Worker._check_cache\<close>: the newest fresh success without a block status.\<close>

definition reusable_row :: "string \<Rightarrow> tenant_db \<Rightarrow> result_row \<Rightarrow> bool" where
  "reusable_row url db r \<longleftrightarrow> sr_url r = url \<and> sr_success r \<and> td_now db - CACHE_TTL_DAYS * 86400 < sr_extracted_at r
     \<and> (case sr_http_status r of None \<Rightarrow> 200 | Some s \<Rightarrow> s) < 400"

definition select_cached :: "string \<Rightarrow> tenant_db \<Rightarrow> result_row option" where
  "select_cached url db = (case sort_key (\<lambda>r. - sr_extracted_at r) (filter (reusable_row url db) (td_results db)) of
     [] \<Rightarrow> None | r # _ \<Rightarrow> Some r)"

definition select_results :: "string \<Rightarrow> rat option \<Rightarrow> tenant_db \<Rightarrow> result_row list" where
  "select_results job_id since db = sort_key sr_extracted_at (filter (\<lambda>r. sr_job r = job_id
     \<and> (case since of None \<Rightarrow> True | Some t \<Rightarrow> t < sr_extracted_at r)) (td_results db))"

subsection \<open>The ledger of automatic retries\<close>

text \<open>
  What the reaper relies on, whoever else writes to the queue: a row is found by a number that is
  never used again, a recorded failure keeps the count of a row and starts a new one at 0, and only
  an attempt raises a count, by one.
\<close>

definition capped :: "('s \<Rightarrow> 'i \<Rightarrow> int option) \<Rightarrow> int \<Rightarrow> 's \<Rightarrow> bool" where
  "capped count cap s \<longleftrightarrow> (\<forall>i n. count s i = Some n \<longrightarrow> n \<le> cap)"

definition spare :: "('s \<Rightarrow> 'i \<Rightarrow> int option) \<Rightarrow> ('s \<Rightarrow> 'i \<Rightarrow> bool) \<Rightarrow> int \<Rightarrow> 's \<Rightarrow> 'i \<Rightarrow> bool" where
  "spare count used cap s i \<longleftrightarrow> used s i \<and> (\<forall>n. count s i = Some n \<longrightarrow> n < cap)"

locale retry_ledger =
  fixes good :: "'s \<Rightarrow> bool"
    and count :: "'s \<Rightarrow> 'i \<Rightarrow> int option"
    and used :: "'s \<Rightarrow> 'i \<Rightarrow> bool"
    and fail :: "'f \<Rightarrow> 's \<Rightarrow> 's"
    and forget :: "'k \<Rightarrow> 's \<Rightarrow> 's"
    and attempt :: "'i \<Rightarrow> 's \<Rightarrow> 's"
  assumes good_kept: "good s \<Longrightarrow> good (fail f s)" "good s \<Longrightarrow> good (forget k s)" "good s \<Longrightarrow> good (attempt i s)"
    and used_kept: "used s i \<Longrightarrow> used (fail f s) i" "used s i \<Longrightarrow> used (forget k s) i" "used s i \<Longrightarrow> used (attempt j s) i"
    and fail_count: "good s \<Longrightarrow> count (fail f s) i = count s i \<or> \<not> used s i \<and> count (fail f s) i = Some 0"
    and forget_count: "good s \<Longrightarrow> count (forget k s) i = count s i \<or> count (forget k s) i = None"
    and attempt_count: "good s \<Longrightarrow> count (attempt i s) j = (if j = i then map_option (\<lambda>n. n + 1) (count s j) else count s j)"
begin

lemma capped_fail: "good s \<Longrightarrow> 0 \<le> cap \<Longrightarrow> capped count cap s \<Longrightarrow> capped count cap (fail f s)"
  using fail_count unfolding capped_def by (metis option.inject)

lemma capped_forget: "good s \<Longrightarrow> capped count cap s \<Longrightarrow> capped count cap (forget k s)"
  using forget_count unfolding capped_def by (metis option.distinct(1))

lemma capped_attempt: "good s \<Longrightarrow> capped count cap s \<Longrightarrow> spare count used cap s i \<Longrightarrow> capped count cap (attempt i s)"
  using attempt_count by (auto simp: capped_def spare_def split: if_splits)

lemma spare_fail: "good s \<Longrightarrow> spare count used cap s i \<Longrightarrow> spare count used cap (fail f s) i"
  using fail_count used_kept unfolding spare_def by metis

lemma spare_forget: "good s \<Longrightarrow> spare count used cap s i \<Longrightarrow> spare count used cap (forget k s) i"
  using forget_count used_kept unfolding spare_def by (metis option.distinct(1))

lemma spare_attempt: "good s \<Longrightarrow> spare count used cap s i \<Longrightarrow> i \<noteq> j \<Longrightarrow> spare count used cap (attempt j s) i"
  using attempt_count used_kept by (auto simp: spare_def)

end

definition dlq_ok :: "tenant_db \<Rightarrow> bool" where
  "dlq_ok db \<longleftrightarrow> distinct (map dl_id (td_dlq db)) \<and> list_all (\<lambda>r. dl_id r < td_next_id db) (td_dlq db) \<and>
     distinct (map (\<lambda>r. (dl_job r, dl_url r)) (td_dlq db)) \<and>
     list_all (\<lambda>r. dl_category r \<in> set (map category_value all_categories)) (td_dlq db)"

definition dlq_count :: "tenant_db \<Rightarrow> int \<Rightarrow> int option" where
  "dlq_count db = map_of (map (\<lambda>r. (dl_id r, dl_retries r)) (td_dlq db))"

definition id_used :: "tenant_db \<Rightarrow> int \<Rightarrow> bool" where
  "id_used db i \<longleftrightarrow> i < td_next_id db"

record dlq_failure =
  df_now :: rat
  df_job :: string
  df_url :: string
  df_category :: failure_category
  df_error :: string
  df_level :: int
  df_not_before :: "rat option"

definition enqueue_failure :: "dlq_failure \<Rightarrow> tenant_db \<Rightarrow> tenant_db" where
  "enqueue_failure f = dlq_enqueue (df_now f) (df_job f) (df_url f) (df_category f) (df_error f) (df_level f) (df_not_before f)"

lemma map_of_map_update:
  "(\<And>x. x \<in> set xs \<Longrightarrow> k (f x) = k x \<and> v (f x) = v x) \<Longrightarrow> map_of (map (\<lambda>x. (k (f x), v (f x))) xs) = map_of (map (\<lambda>x. (k x, v x)) xs)"
  by (rule arg_cong [of _ _ map_of]) (auto intro: map_cong)

lemma category_valued [simp]: "category_value c \<in> category_value ` set all_categories"
  by (cases c) (simp_all add: all_categories_def)

lemma dlq_at_pair: "dlq_at j u r \<longleftrightarrow> (dl_job r, dl_url r) = (j, u)"
  by (simp add: dlq_at_def)

lemma dlq_ok_enqueue: "dlq_ok db \<Longrightarrow> dlq_ok (dlq_enqueue now j u c e l nb db)"
proof -
  assume ok: "dlq_ok db"
  show ?thesis
  proof (cases "list_ex (dlq_at j u) (td_dlq db)")
    case True
    with ok show ?thesis
      by (auto simp: dlq_ok_def dlq_enqueue_def Let_def list_all_iff o_def if_distrib cong: if_cong)
  next
    case False
    then have "(j, u) \<notin> (\<lambda>r. (dl_job r, dl_url r)) ` set (td_dlq db)"
      by (auto simp: list_ex_iff dlq_at_def)
    with False ok show ?thesis
      by (auto simp: dlq_ok_def dlq_enqueue_def Let_def list_all_iff)
  qed
qed

interpretation ledger: retry_ledger dlq_ok dlq_count id_used enqueue_failure "\<lambda>(job_id, url). dlq_clear job_id url" mark_retry_attempt
proof
  fix db :: tenant_db and f :: dlq_failure and k :: "string \<times> string" and i j :: int
  show "dlq_ok db \<Longrightarrow> dlq_ok (enqueue_failure f db)" by (simp add: enqueue_failure_def dlq_ok_enqueue)
  show "dlq_ok db \<Longrightarrow> dlq_ok ((\<lambda>(job_id, url). dlq_clear job_id url) k db)"
    by (auto simp: dlq_ok_def dlq_clear_def list_all_iff distinct_map_filter split: prod.split)
  show "dlq_ok db \<Longrightarrow> dlq_ok (mark_retry_attempt i db)"
    by (auto simp: dlq_ok_def mark_retry_attempt_def list_all_iff o_def if_distrib cong: if_cong)
  show "id_used db i \<Longrightarrow> id_used (enqueue_failure f db) i"
    by (simp add: id_used_def enqueue_failure_def dlq_enqueue_def Let_def)
  show "id_used db i \<Longrightarrow> id_used ((\<lambda>(job_id, url). dlq_clear job_id url) k db) i"
    by (simp add: id_used_def dlq_clear_def split: prod.split)
  show "id_used db i \<Longrightarrow> id_used (mark_retry_attempt j db) i"
    by (simp add: id_used_def mark_retry_attempt_def)
  assume ok: "dlq_ok db"
  show "dlq_count (enqueue_failure f db) i = dlq_count db i \<or> \<not> id_used db i \<and> dlq_count (enqueue_failure f db) i = Some 0"
  proof (cases "list_ex (dlq_at (df_job f) (df_url f)) (td_dlq db)")
    case True
    then show ?thesis
      by (simp add: dlq_count_def enqueue_failure_def dlq_enqueue_def Let_def o_def if_distrib cong: if_cong)
  next
    case False
    then show ?thesis
      by (auto simp: dlq_count_def id_used_def enqueue_failure_def dlq_enqueue_def Let_def map_add_def split: option.split)
  qed
  show "dlq_count ((\<lambda>(job_id, url). dlq_clear job_id url) k db) i = dlq_count db i \<or>
      dlq_count ((\<lambda>(job_id, url). dlq_clear job_id url) k db) i = None"
  proof (cases k)
    case (Pair a b)
    have "map_of (map (\<lambda>r. (dl_id r, dl_retries r)) (filter P rs)) i \<in> {map_of (map (\<lambda>r. (dl_id r, dl_retries r)) rs) i, None}"
      if "distinct (map dl_id rs)" for P and rs :: "dlq_row list"
      using that by (induction rs) (auto simp: map_of_eq_None_iff image_image)
    with ok Pair show ?thesis by (auto simp: dlq_ok_def dlq_count_def dlq_clear_def)
  qed
  show "dlq_count (mark_retry_attempt i db) j = (if j = i then map_option (\<lambda>n. n + 1) (dlq_count db j) else dlq_count db j)"
  proof -
    have "map_of (map (\<lambda>r. (dl_id (if dl_id r = i then r\<lparr>dl_retries := dl_retries r + 1\<rparr> else r),
          dl_retries (if dl_id r = i then r\<lparr>dl_retries := dl_retries r + 1\<rparr> else r))) rs) j =
        (if j = i then map_option (\<lambda>n. n + 1) (map_of (map (\<lambda>r. (dl_id r, dl_retries r)) rs) j)
         else map_of (map (\<lambda>r. (dl_id r, dl_retries r)) rs) j)" for rs :: "dlq_row list"
      by (induction rs) auto
    then show ?thesis by (simp add: dlq_count_def mark_retry_attempt_def o_def)
  qed
qed

end
