(* ===== verification/Store_Access.thy ===== *)
theory Store_Access
  imports Job_Store
begin

text \<open>
  How a process of the engine reaches its tables, its Redis server and the queue of jobs
  (\<^verbatim>\<open>src/src/scraper_engine/storage/postgres_client.py\<close>: every call is one transaction;
  \<^verbatim>\<open>src/src/scraper_engine/orchestrator/job_queue.py\<close>): statements of the other processes may come
  before each of its own, every call may fail before or after it took effect.
\<close>

subsection \<open>Statements\<close>

text \<open>
  What the engine's processes do to the tenant's tables between two statements of one of them:
  the worker records a failure, persists a result, clears a dead letter and moves the job's status,
  the API inserts and cancels jobs, the reaper of stuck jobs reconciles them, a second reaper of dead
  letters counts a retry and sets a job back.
\<close>

datatype statement =
    StoreFailure dlq_failure | ClearDeadLetter string string
  | StartJob string | FinishJob string job_status | CancelJob string | ReconcileJob string
  | InsertJob string "string list" job_config "string option" "string option" | EnqueueFailed string
  | InsertResult string fetch_result "string option" "(string \<times> int) list option" | TouchJob string
  | MarkRetry int | RedriveJob string

fun execute :: "statement \<Rightarrow> tenant_db \<Rightarrow> tenant_db" where
  "execute (StoreFailure f) db = enqueue_failure f db"
| "execute (ClearDeadLetter j u) db = dlq_clear j u db"
| "execute (StartJob j) db = start_update j db"
| "execute (FinishJob j s) db = finish_update j s db"
| "execute (CancelJob j) db = snd (cancel_update j db)"
| "execute (ReconcileJob j) db = reconcile_update j db"
| "execute (InsertJob j us c w k) db = insert_job j us c w k db"
| "execute (EnqueueFailed j) db = enqueue_failed j db"
| "execute (InsertResult j r u t) db = insert_result j r u t db"
| "execute (TouchJob j) db = touch_job j db"
| "execute (MarkRetry i) db = mark_retry_attempt i db"
| "execute (RedriveJob j) db = snd (redrive_update j db)"

subsection \<open>A process at work\<close>

text \<open>Before each statement of a process: a pause, the others' statements, and what becomes of it.\<close>

type_synonym pg_event = "rat \<times> statement list \<times> fate"

text \<open>
  The surroundings of a process: the tables and what will happen to its statements, the Redis server
  and the network to it, the clock, the queue of jobs (what was put on it, and what becomes of the next
  calls), and the reaper's module variable with the last probe of the gateway.
\<close>

record rq_job =
  rq_id :: string
  rq_tenant :: string
  rq_timeout :: int

record 's store_world =
  rw_db :: tenant_db
  rw_pg :: "pg_event list"
  rw_redis :: 's
  rw_net :: "event list"
  rw_now :: rat
  rw_queue :: "rq_job list"
  rw_queue_fates :: "fate list"
  rw_probe :: "(rat \<times> bool) option"

type_synonym ('s, 'a) access = "'s store_world \<Rightarrow> 'a res \<times> 's store_world"

definition rreturn :: "'a \<Rightarrow> ('s, 'a) access" where
  "rreturn a w = (Inr a, w)"

definition rbind :: "('s, 'a) access \<Rightarrow> ('a \<Rightarrow> ('s, 'b) access) \<Rightarrow> ('s, 'b) access" where
  "rbind m f w = (case m w of (Inl e, w') \<Rightarrow> (Inl e, w') | (Inr a, w') \<Rightarrow> f a w')"

definition rcatch :: "('s, 'a) access \<Rightarrow> (exn \<Rightarrow> ('s, 'a) access) \<Rightarrow> ('s, 'a) access" where
  "rcatch m f w = (case m w of (Inl e, w') \<Rightarrow> f e w' | (Inr a, w') \<Rightarrow> (Inr a, w'))"

definition elapse :: "rat \<Rightarrow> 's store_world \<Rightarrow> 's store_world" where
  "elapse d w = w\<lparr>rw_now := rw_now w + d, rw_db := (rw_db w)\<lparr>td_now := td_now (rw_db w) + d\<rparr>\<rparr>"

definition next_pg :: "pg_event list \<Rightarrow> pg_event" where
  "next_pg es = (case es of [] \<Rightarrow> (0, [], Answered) | e # _ \<Rightarrow> e)"

definition others_act :: "'s store_world \<Rightarrow> 's store_world" where
  "others_act w = (case next_pg (rw_pg w) of (d, stmts, _) \<Rightarrow>
     let w1 = elapse d w in w1\<lparr>rw_pg := tl (rw_pg w), rw_db := fold execute stmts (rw_db w1)\<rparr>)"

definition pg :: "(tenant_db \<Rightarrow> 'a res \<times> tenant_db) \<Rightarrow> ('s, 'a) access" where
  "pg stmt w = (let w1 = others_act w in
     case snd (snd (next_pg (rw_pg w))) of
       Answered \<Rightarrow> (case stmt (rw_db w1) of (r, db) \<Rightarrow> (r, w1\<lparr>rw_db := db\<rparr>))
     | RequestLost e \<Rightarrow> (Inl e, w1)
     | ReplyLost e \<Rightarrow> (Inl e, w1\<lparr>rw_db := snd (stmt (rw_db w1))\<rparr>))"

definition on_redis :: "'s server \<Rightarrow> 'a prog \<Rightarrow> ('s, 'a) access" where
  "on_redis sv p w = (case run sv p (rw_net w) (rw_redis w) of
     (r, s) \<Rightarrow> (r, w\<lparr>rw_redis := s, rw_net := drop (trips sv p (rw_net w) (rw_redis w)) (rw_net w)\<rparr>))"

text \<open>A call on the queue may raise before or after the job was pushed.\<close>

definition enqueue_rq :: "rq_job \<Rightarrow> ('s, unit) access" where
  "enqueue_rq j w = (let w1 = w\<lparr>rw_queue_fates := tl (rw_queue_fates w)\<rparr> in
     case rw_queue_fates w of
       RequestLost e # _ \<Rightarrow> (Inl e, w1)
     | ReplyLost e # _ \<Rightarrow> (Inl e, w1\<lparr>rw_queue := rw_queue w @ [j]\<rparr>)
     | _ \<Rightarrow> (Inr (), w1\<lparr>rw_queue := rw_queue w @ [j]\<rparr>))"

text \<open>A process that nobody disturbs.\<close>

lemma pg_alone: "rw_pg w = [] \<Longrightarrow> pg stmt w = (fst (stmt (rw_db w)), w\<lparr>rw_db := snd (stmt (rw_db w))\<rparr>)"
  by (simp add: pg_def others_act_def next_pg_def elapse_def Let_def case_prod_beta')

lemma on_redis_frame [simp]:
  "rw_db (snd (on_redis sv p w)) = rw_db w" "rw_pg (snd (on_redis sv p w)) = rw_pg w"
  "rw_queue (snd (on_redis sv p w)) = rw_queue w" "rw_now (snd (on_redis sv p w)) = rw_now w"
  "rw_queue_fates (snd (on_redis sv p w)) = rw_queue_fates w"
  by (simp_all add: on_redis_def split: prod.split)

text \<open>Nothing but the queue is changed by a call on it.\<close>

lemma enqueue_rq_frame [simp]:
  "rw_db (snd (enqueue_rq j w)) = rw_db w" "rw_pg (snd (enqueue_rq j w)) = rw_pg w"
  by (simp_all add: enqueue_rq_def Let_def split: list.split fate.split)

lemma enqueue_rq_cases:
  obtains (pushed) "rw_queue (snd (enqueue_rq j w)) = rw_queue w @ [j]"
  | (lost) e where "rw_queue (snd (enqueue_rq j w)) = rw_queue w" "fst (enqueue_rq j w) = Inl e"
proof (cases "rw_queue_fates w")
  case Nil
  with pushed show ?thesis by (simp add: enqueue_rq_def Let_def)
next
  case (Cons f fs)
  with pushed lost show ?thesis by (cases f) (simp_all add: enqueue_rq_def Let_def)
qed

text \<open>What the other processes may do, as a property of their statements.\<close>

definition others_are :: "(statement \<Rightarrow> bool) \<Rightarrow> 's store_world \<Rightarrow> bool" where
  "others_are P w \<longleftrightarrow> list_all (\<lambda>(_, stmts, _). list_all P stmts) (rw_pg w)"

lemma others_act_queue [simp]: "rw_queue (others_act w) = rw_queue w"
  by (simp add: others_act_def elapse_def Let_def split: prod.split)

lemma others_are_later: "others_are P w \<Longrightarrow> others_are P (others_act w)"
  by (cases "rw_pg w") (simp_all add: others_act_def others_are_def elapse_def Let_def split: prod.split)

lemma others_act_keeps:
  assumes "others_are P w" "J (rw_db w)" "\<And>db t. J db \<Longrightarrow> J (db\<lparr>td_now := t\<rparr>)"
    and step: "\<And>s db. P s \<Longrightarrow> J db \<Longrightarrow> J (execute s db)"
  shows "J (rw_db (others_act w))"
proof -
  obtain d stmts f where e: "next_pg (rw_pg w) = (d, stmts, f)" by (cases "next_pg (rw_pg w)")
  have "list_all P stmts"
    using assms(1) e by (cases "rw_pg w") (auto simp: others_are_def next_pg_def)
  then have "J (fold execute stmts db)" if "J db" for db
    using that by (induction stmts arbitrary: db) (auto intro: step)
  with assms(2,3) show ?thesis by (simp add: others_act_def e elapse_def Let_def)
qed

lemma pg_others:
  "others_are P w \<Longrightarrow> others_are P (snd (pg stmt w))" "rw_queue (snd (pg stmt w)) = rw_queue w"
  using others_are_later [where w = w and P = P]
  by (auto simp: pg_def Let_def others_are_def case_prod_beta' split: fate.split)

lemma pg_cases:
  obtains (untouched) e where "fst (pg stmt w) = Inl e" "rw_db (snd (pg stmt w)) = rw_db (others_act w)"
  | (unheard) e where "fst (pg stmt w) = Inl e" "rw_db (snd (pg stmt w)) = snd (stmt (rw_db (others_act w)))"
  | (answered) "fst (pg stmt w) = fst (stmt (rw_db (others_act w)))" "rw_db (snd (pg stmt w)) = snd (stmt (rw_db (others_act w)))"
proof (cases "snd (snd (next_pg (rw_pg w)))")
  case Answered
  with answered show ?thesis by (simp add: pg_def Let_def case_prod_beta')
next
  case (RequestLost e)
  with untouched show ?thesis by (simp add: pg_def Let_def)
next
  case (ReplyLost e)
  with unheard show ?thesis by (simp add: pg_def Let_def)
qed

end
