(* ===== verification/Interfaces.thy ===== *)
theory Interfaces
  imports Prelude
begin

text \<open>
  The contracts several components share. \<open>bounded_counter\<close> is what the daily quota and the
  CAPTCHA budget promise (check and add in one step, never past the limit); \<open>lease_table\<close> what
  the politeness slots promise (leases with an expiry of their own, a cap on how many are live).
  The lemmas about arbitrary histories are proved here once, from the laws alone.
\<close>

subsection \<open>Counters that never pass a limit\<close>

fun reserve_all :: "('n \<Rightarrow> 's \<Rightarrow> bool \<times> 's) \<Rightarrow> 'n list \<Rightarrow> 's \<Rightarrow> bool list \<times> 's" where
  "reserve_all reserve [] s = ([], s)"
| "reserve_all reserve (c # cs) s =
     (case reserve c s of (ok, s') \<Rightarrow>
        case reserve_all reserve cs s' of (oks, s'') \<Rightarrow> (ok # oks, s''))"

text \<open>The total of the reservations that were granted.\<close>

definition granted_sum :: "bool list \<Rightarrow> 'n::comm_monoid_add list \<Rightarrow> 'n" where
  "granted_sum oks cs = sum_list (map (\<lambda>(ok, c). if ok then c else 0) (zip oks cs))"

locale bounded_counter =
  fixes invar :: "'s \<Rightarrow> bool" and usage :: "'s \<Rightarrow> 'n::linordered_idom" and limit :: 'n
    and reserve :: "'n \<Rightarrow> 's \<Rightarrow> bool \<times> 's"
  assumes invar_reserve: "invar s \<Longrightarrow> 0 \<le> c \<Longrightarrow> invar (snd (reserve c s))"
    and reserve_iff: "invar s \<Longrightarrow> 0 \<le> c \<Longrightarrow> fst (reserve c s) \<longleftrightarrow> usage s + c \<le> limit"
    and usage_reserve: "invar s \<Longrightarrow> 0 \<le> c \<Longrightarrow>
      usage (snd (reserve c s)) = usage s + (if fst (reserve c s) then c else 0)"
begin

lemma reserve_all_invar:
  "invar s \<Longrightarrow> \<forall>c \<in> set cs. 0 \<le> c \<Longrightarrow> invar (snd (reserve_all reserve cs s))"
proof (induction cs arbitrary: s)
  case (Cons c cs)
  then show ?case using invar_reserve [of s c] by (simp split: prod.splits) (metis snd_conv)
qed simp

lemma reserve_all_sum:
  "invar s \<Longrightarrow> \<forall>c \<in> set cs. 0 \<le> c \<Longrightarrow> usage (snd (reserve_all reserve cs s)) =
     usage s + granted_sum (fst (reserve_all reserve cs s)) cs"
proof (induction cs arbitrary: s)
  case (Cons c cs)
  obtain ok s' where r: "reserve c s = (ok, s')" by fastforce
  obtain oks s'' where rs: "reserve_all reserve cs s' = (oks, s'')" by fastforce
  have "invar s'" using invar_reserve [of s c] Cons.prems r by simp
  from Cons.IH [OF this] usage_reserve [of s c] Cons.prems show ?case
    by (simp add: r rs granted_sum_def algebra_simps)
qed (simp add: granted_sum_def)

lemma reserve_all_bounded:
  "invar s \<Longrightarrow> \<forall>c \<in> set cs. 0 \<le> c \<Longrightarrow> usage s \<le> limit \<Longrightarrow>
   usage (snd (reserve_all reserve cs s)) \<le> limit"
proof (induction cs arbitrary: s)
  case (Cons c cs)
  obtain ok s' where r: "reserve c s = (ok, s')" by fastforce
  have "invar s'" "usage s' \<le> limit"
    using invar_reserve [of s c] usage_reserve [of s c] reserve_iff [of s c] Cons.prems r
    by (auto split: if_splits)
  from Cons.IH [OF this(1) _ this(2)] Cons.prems(2) show ?case
    by (simp add: r split: prod.splits) (metis snd_conv)
qed simp

text \<open>A request is refused only when granting it would have passed the limit.\<close>

lemma reserve_all_refused:
  "invar s \<Longrightarrow> \<forall>c \<in> set cs. 0 \<le> c \<Longrightarrow> 0 \<le> c \<Longrightarrow>
   \<not> fst (reserve c (snd (reserve_all reserve cs s))) \<longleftrightarrow>
   limit < usage s + granted_sum (fst (reserve_all reserve cs s)) cs + c"
  using reserve_all_sum [of s cs] reserve_iff [OF reserve_all_invar] by (simp add: not_le)

end

subsection \<open>Leases\<close>

datatype lease_op = Acquire nat string | Refresh string | Release string | Pass nat

record 's lease_ops =
  lo_acquire :: "nat \<Rightarrow> string \<Rightarrow> 's \<Rightarrow> bool \<times> 's"
  lo_refresh :: "string \<Rightarrow> 's \<Rightarrow> bool \<times> 's"
  lo_release :: "string \<Rightarrow> 's \<Rightarrow> 's"
  lo_pass :: "nat \<Rightarrow> 's \<Rightarrow> 's"

fun lease_step :: "'s lease_ops \<Rightarrow> lease_op \<Rightarrow> 's \<Rightarrow> 's" where
  "lease_step L (Acquire c m) s = snd (lo_acquire L c m s)"
| "lease_step L (Refresh m) s = snd (lo_refresh L m s)"
| "lease_step L (Release m) s = lo_release L m s"
| "lease_step L (Pass d) s = lo_pass L d s"

definition lease_run :: "'s lease_ops \<Rightarrow> lease_op list \<Rightarrow> 's \<Rightarrow> 's" where
  "lease_run L ops s = fold (lease_step L) ops s"

text \<open>
  A history in which a holder with \<open>left\<close> milliseconds to go lets no more than that pass between
  two refreshes and does not release; what other holders do is free.
\<close>

fun kept_alive :: "int \<Rightarrow> string \<Rightarrow> int \<Rightarrow> lease_op list \<Rightarrow> bool" where
  "kept_alive ttl m left [] = True"
| "kept_alive ttl m left (Acquire c m' # ops) = (m' \<noteq> m \<and> kept_alive ttl m left ops)"
| "kept_alive ttl m left (Refresh m' # ops) = kept_alive ttl m (if m' = m then ttl else left) ops"
| "kept_alive ttl m left (Release m' # ops) = (m' \<noteq> m \<and> kept_alive ttl m left ops)"
| "kept_alive ttl m left (Pass d # ops) = (int d < left \<and> kept_alive ttl m (left - int d) ops)"

locale lease_table =
  fixes invar :: "'s \<Rightarrow> bool" and leases :: "'s \<Rightarrow> string \<Rightarrow> int option" and clock :: "'s \<Rightarrow> int"
    and ttl :: int
    and L :: "'s lease_ops"
  assumes finite_leases: "invar s \<Longrightarrow> finite (dom (leases s))"
    and lease_live: "invar s \<Longrightarrow> leases s m = Some t \<Longrightarrow> clock s < t"
    and invar_acquire: "invar s \<Longrightarrow> invar (snd (lo_acquire L c m s))"
    and invar_refresh: "invar s \<Longrightarrow> invar (snd (lo_refresh L m s))"
    and invar_release: "invar s \<Longrightarrow> invar (lo_release L m s)"
    and invar_pass: "invar s \<Longrightarrow> invar (lo_pass L d s)"
    and clock_ops: "invar s \<Longrightarrow> clock (snd (lo_acquire L c m s)) = clock s"
      "invar s \<Longrightarrow> clock (snd (lo_refresh L m s)) = clock s"
      "invar s \<Longrightarrow> clock (lo_release L m s) = clock s" "clock (lo_pass L d s) = clock s + int d"
    and acquire_iff: "invar s \<Longrightarrow> fst (lo_acquire L c m s) \<longleftrightarrow> card (dom (leases s)) < c"
    and leases_acquire: "invar s \<Longrightarrow> leases (snd (lo_acquire L c m s)) =
      (if fst (lo_acquire L c m s) then (leases s)(m \<mapsto> clock s + ttl) else leases s)"
    and refresh_iff: "invar s \<Longrightarrow> fst (lo_refresh L m s) \<longleftrightarrow> leases s m \<noteq> None"
    and leases_refresh: "invar s \<Longrightarrow> leases (snd (lo_refresh L m s)) =
      (if fst (lo_refresh L m s) then (leases s)(m \<mapsto> clock s + ttl) else leases s)"
    and leases_release: "invar s \<Longrightarrow> leases (lo_release L m s) = (leases s)(m := None)"
    and leases_pass: "invar s \<Longrightarrow> leases (lo_pass L d s) =
      (\<lambda>m. case leases s m of None \<Rightarrow> None | Some t \<Rightarrow> if clock s + int d < t then Some t else None)"
begin

lemma lease_step_invar: "invar s \<Longrightarrow> invar (lease_step L x s)"
  by (cases x) (simp_all add: invar_acquire invar_refresh invar_release invar_pass)

lemma lease_run_invar: "invar s \<Longrightarrow> invar (lease_run L ops s)"
  unfolding lease_run_def by (induction ops arbitrary: s) (simp_all add: lease_step_invar)

text \<open>No step makes more leases live than the cap of the acquisition it is, or than before it.\<close>

lemma lease_step_card:
  assumes "invar s" "card (dom (leases s)) \<le> c" "\<And>c' m. x = Acquire c' m \<Longrightarrow> c' \<le> c"
  shows "card (dom (leases (lease_step L x s))) \<le> c"
proof (cases x)
  case (Acquire c' m)
  show ?thesis
  proof (cases "fst (lo_acquire L c' m s)")
    case True
    with acquire_iff [OF assms(1)] assms(3) Acquire have "card (dom (leases s)) < c" by force
    with True Acquire finite_leases [OF assms(1)] show ?thesis
      by (simp add: leases_acquire [OF assms(1)] card_insert_if)
  next
    case False
    with Acquire assms show ?thesis by (simp add: leases_acquire)
  qed
next
  case (Refresh m)
  with assms show ?thesis
    using refresh_iff [OF assms(1), of m]
    by (cases "fst (lo_refresh L m s)") (auto simp: leases_refresh insert_absorb domI)
next
  case (Release m)
  with assms finite_leases [OF assms(1)] show ?thesis
    by (simp add: leases_release) (meson card_Diff1_le le_trans)
next
  case (Pass d)
  have "dom (leases (lo_pass L d s)) \<subseteq> dom (leases s)"
    using assms(1) by (auto simp: leases_pass split: option.splits if_splits)
  with Pass finite_leases [OF assms(1)] assms(2) show ?thesis
    by simp (meson card_mono le_trans)
qed

lemma lease_run_card:
  "invar s \<Longrightarrow> card (dom (leases s)) \<le> c \<Longrightarrow> (\<And>c' m. Acquire c' m \<in> set ops \<Longrightarrow> c' \<le> c) \<Longrightarrow>
   card (dom (leases (lease_run L ops s))) \<le> c"
  unfolding lease_run_def
proof (induction ops arbitrary: s)
  case (Cons x ops)
  have "card (dom (leases (lease_step L x s))) \<le> c"
    using Cons.prems by (intro lease_step_card) auto
  moreover have "invar (lease_step L x s)" using Cons.prems lease_step_invar by blast
  moreover have "c' \<le> c" if "Acquire c' m \<in> set ops" for c' m
    using Cons.prems(3) [of c' m] that by simp
  ultimately show ?case by (simp add: Cons.IH)
qed simp

text \<open>A holder that neither acquires nor refreshes again is gone after its expiry.\<close>

lemma lease_run_clock:
  "invar s \<Longrightarrow> clock s \<le> clock (lease_run L ops s)"
  unfolding lease_run_def
proof (induction ops arbitrary: s)
  case (Cons x ops)
  have "clock s \<le> clock (lease_step L x s)"
    using Cons.prems clock_ops by (cases x) auto
  with Cons lease_step_invar [of s x] show ?case by fastforce
qed simp

lemma lease_run_untouched:
  "invar s \<Longrightarrow> (\<And>c. Acquire c m \<notin> set ops) \<Longrightarrow> Refresh m \<notin> set ops \<Longrightarrow>
   leases (lease_run L ops s) m = Some t \<Longrightarrow> leases s m = Some t"
  unfolding lease_run_def
proof (induction ops arbitrary: s)
  case (Cons x ops)
  have "leases (lease_step L x s) m = Some t"
    using Cons lease_step_invar [of s x] by simp
  then show ?case
    using Cons.prems
    by (cases x) (auto simp: leases_acquire leases_refresh leases_release leases_pass
        split: if_splits option.splits)
qed simp

lemma lease_run_deadman:
  assumes "invar s" "\<And>c. Acquire c m \<notin> set ops" "Refresh m \<notin> set ops"
    "leases s m = Some t" "t \<le> clock (lease_run L ops s)"
  shows "leases (lease_run L ops s) m = None"
proof (rule ccontr)
  assume "leases (lease_run L ops s) m \<noteq> None"
  then obtain t' where t': "leases (lease_run L ops s) m = Some t'" by auto
  with lease_run_untouched [OF assms(1-3)] assms(4) have "t' = t" by auto
  with lease_live [OF lease_run_invar [OF assms(1)] t'] assms(5) show False by simp
qed

text \<open>A holder that refreshes in time keeps its lease, whatever the others do.\<close>

lemma lease_run_kept:
  "invar s \<Longrightarrow> leases s m = Some (clock s + left) \<Longrightarrow> kept_alive ttl m left ops \<Longrightarrow>
   leases (lease_run L ops s) m \<noteq> None"
  unfolding lease_run_def
proof (induction ops arbitrary: s left)
  case (Cons x ops)
  define s' where "s' = lease_step L x s"
  have inv: "invar s'" using Cons.prems(1) lease_step_invar by (simp add: s'_def)
  have "\<exists>left'. leases s' m = Some (clock s' + left') \<and> kept_alive ttl m left' ops"
  proof (cases x)
    case (Pass d)
    with Cons.prems show ?thesis
      by (intro exI [of _ "left - int d"]) (simp add: s'_def leases_pass clock_ops)
  qed (use Cons.prems in \<open>auto simp: s'_def leases_acquire leases_refresh leases_release clock_ops
        refresh_iff split: if_splits\<close>)
  with Cons.IH [OF inv] show ?case by (auto simp: s'_def)
qed simp

end

end
