(* ===== verification/Quota_Budget.thy ===== *)
theory Quota_Budget
  imports Tenant Interfaces
begin

text \<open>
  \<^verbatim>\<open>src/src/scraper_engine/core/quota.py\<close> (\<open>QuotaManager\<close>, the daily number of scrapes of a
  tenant) and the \<open>CapSolverBudget\<close> of \<^verbatim>\<open>src/src/scraper_engine/core/budget.py\<close> (the daily CAPTCHA
  spend). Both check and add in one Lua script, and both are instances of \<open>bounded_counter\<close>.

  The date text of \<open>_quota_key\<close> and the clock readings are arguments; the row the database
  returns for a tenant's credits is an argument of \<open>get_ceiling\<close>.
\<close>

subsection \<open>The daily quota\<close>

definition DEFAULT_DAILY_LIMIT :: int where
  "DEFAULT_DAILY_LIMIT = 10000"

text \<open>\<open>daily_limit or DEFAULT\<close>: a configured limit of 0 is the default too.\<close>

definition quota_limit :: "int option \<Rightarrow> int" where
  "quota_limit daily_limit =
     (case daily_limit of None \<Rightarrow> DEFAULT_DAILY_LIMIT | Some l \<Rightarrow> if l = 0 then DEFAULT_DAILY_LIMIT else l)"

definition quota_key :: "string \<Rightarrow> string \<Rightarrow> string" where
  "quota_key today tenant_id = ''quota:daily:'' @ today @ '':'' @ tenant_id"

text \<open>Microseconds into the UTC day; the next midnight is a day later at 00:00:00.\<close>

definition seconds_until_quota_reset :: "int \<Rightarrow> int" where
  "seconds_until_quota_reset us_of_day = (86400 * 1000000 - us_of_day) div 1000000"

definition quota_script :: "string \<Rightarrow> int \<Rightarrow> int \<Rightarrow> int \<Rightarrow> lua" where
  "quota_script key cap count ttl =
     LCall (GET key) (\<lambda>r. case lua_tonumber r of
       None \<Rightarrow> LRet RErr
     | Some current \<Rightarrow>
         if current + of_int count > of_int cap then LRet (RInteger (- 1))
         else LCall (INCRBY key count) (\<lambda>new_val.
           LCall (PEXPIRE key (ttl * 1000)) (\<lambda>_. LRet new_val)))"

definition check_and_increment :: "bool \<Rightarrow> int option \<Rightarrow> string \<Rightarrow> string \<Rightarrow> int \<Rightarrow> unit prog" where
  "check_and_increment started daily_limit today tenant_id count =
     andthen (rc_eval started (quota_script (quota_key today tenant_id) (quota_limit daily_limit) count (86400 * 2)))
       (\<lambda>result. if result = RInteger (- 1)
          then Raise (QuotaExceededError tenant_id (quota_limit daily_limit)) else Return ())"

definition current_usage :: "bool \<Rightarrow> string \<Rightarrow> string \<Rightarrow> int prog" where
  "current_usage started today tenant_id =
     andthen (rc_get started tenant_id (quota_key today tenant_id)) (\<lambda>raw.
       case raw of None \<Rightarrow> Return 0 | Some v \<Rightarrow> lift_res (py_int v) Return)"

definition quota_remaining :: "bool \<Rightarrow> int option \<Rightarrow> string \<Rightarrow> string \<Rightarrow> int prog" where
  "quota_remaining started daily_limit today tenant_id =
     andthen (current_usage started today tenant_id) (\<lambda>u. Return (max 0 (quota_limit daily_limit - u)))"

subsection \<open>The CAPTCHA budget\<close>

definition DEFAULT_DAILY_CEILING :: rat where
  "DEFAULT_DAILY_CEILING = 1"

definition CEILING_CACHE_TTL_SECONDS :: rat where
  "CEILING_CACHE_TTL_SECONDS = 300"

record cap_solver_budget =
  has_pg :: bool
  fixed_ceiling :: "rat option"
  ceiling_cache :: "(string \<times> (rat \<times> rat)) list"

definition spend_key :: "string \<Rightarrow> string" where
  "spend_key tenant_id = ''capsolver:daily_spend:'' @ tenant_id"

text \<open>
  \<open>rows\<close> is what the query on \<open>public.tenants\<close> returns: an exception, or the list of rows with
  the value of the column, \<open>None\<close> for NULL. \<open>now\<close> is \<open>time.monotonic()\<close>.
\<close>

definition get_ceiling ::
  "cap_solver_budget \<Rightarrow> rat option list res \<Rightarrow> string \<Rightarrow> rat \<Rightarrow> rat res \<times> cap_solver_budget" where
  "get_ceiling self rows tenant_id now =
     (case fixed_ceiling self of
        Some c \<Rightarrow> (Inr c, self)
      | None \<Rightarrow>
          if \<not> has_pg self then (Inr DEFAULT_DAILY_CEILING, self)
          else
            (let fetched = (case rows of
                 Inl e \<Rightarrow> (Inl e, self)
               | Inr rs \<Rightarrow>
                   let credits = (case rs of Some c # _ \<Rightarrow> c | _ \<Rightarrow> DEFAULT_DAILY_CEILING)
                   in (Inr credits, self\<lparr>ceiling_cache := alist_put tenant_id (credits, now) (ceiling_cache self)\<rparr>))
             in case map_of (ceiling_cache self) tenant_id of
                  Some (c, stamp) \<Rightarrow> if now - stamp < CEILING_CACHE_TTL_SECONDS then (Inr c, self) else fetched
                | None \<Rightarrow> fetched))"

definition reserve_script :: "string \<Rightarrow> rat \<Rightarrow> rat \<Rightarrow> int \<Rightarrow> lua" where
  "reserve_script key credits cost ttl =
     LCall (GET key) (\<lambda>r. case lua_tonumber r of
       None \<Rightarrow> LRet RErr
     | Some current \<Rightarrow>
         if current + cost > credits then LRet (RInteger 0)
         else LCall (INCRBYFLOAT key cost) (\<lambda>_.
           LCall (PEXPIRE key (ttl * 1000)) (\<lambda>_. LRet (RInteger 1))))"

definition reserve_cost :: "bool \<Rightarrow> rat \<Rightarrow> string \<Rightarrow> rat \<Rightarrow> bool prog" where
  "reserve_cost started credits tenant_id estimated_cost =
     andthen (rc_eval started (reserve_script (spend_key tenant_id) credits estimated_cost 86400))
       (\<lambda>result. Return (result \<noteq> RInteger 0))"

definition check_and_reserve ::
  "bool \<Rightarrow> cap_solver_budget \<Rightarrow> rat option list res \<Rightarrow> rat \<Rightarrow> string \<Rightarrow> rat \<Rightarrow> bool prog \<times> cap_solver_budget" where
  "check_and_reserve started self rows now tenant_id estimated_cost =
     (case get_ceiling self rows tenant_id now of
        (Inl e, self') \<Rightarrow> (Raise e, self')
      | (Inr credits, self') \<Rightarrow> (reserve_cost started credits tenant_id estimated_cost, self'))"

definition current_spend :: "bool \<Rightarrow> string \<Rightarrow> rat prog" where
  "current_spend started tenant_id =
     andthen (rc_get started tenant_id (spend_key tenant_id)) (\<lambda>raw.
       case raw of None \<Rightarrow> Return 0 | Some v \<Rightarrow> lift_res (py_float v) Return)"

definition budget_remaining ::
  "bool \<Rightarrow> cap_solver_budget \<Rightarrow> rat option list res \<Rightarrow> rat \<Rightarrow> string \<Rightarrow> rat prog \<times> cap_solver_budget" where
  "budget_remaining started self rows now tenant_id =
     (case get_ceiling self rows tenant_id now of
        (Inl e, self') \<Rightarrow> (Raise e, self')
      | (Inr credits, self') \<Rightarrow>
          (andthen (current_spend started tenant_id) (\<lambda>u. Return (max 0 (credits - u))), self'))"

subsection \<open>What the keyspace says\<close>

text \<open>The key of a counter holds nothing or a number (an integer for the quota).\<close>

definition int_counter :: "string \<Rightarrow> keyspace \<Rightarrow> bool" where
  "int_counter k K \<longleftrightarrow> (\<exists>v. str_at K k = Some v \<and> as_int v \<noteq> None)"

definition int_usage :: "string \<Rightarrow> keyspace \<Rightarrow> int" where
  "int_usage k K = (case str_at K k of Some v \<Rightarrow> (case as_int v of Some i \<Rightarrow> i | None \<Rightarrow> 0) | None \<Rightarrow> 0)"

definition num_counter :: "string \<Rightarrow> keyspace \<Rightarrow> bool" where
  "num_counter k K \<longleftrightarrow> (\<exists>v. str_at K k = Some v \<and> as_num v \<noteq> None)"

definition num_usage :: "string \<Rightarrow> keyspace \<Rightarrow> rat" where
  "num_usage k K = (case str_at K k of Some v \<Rightarrow> (case as_num v of Some i \<Rightarrow> i | None \<Rightarrow> 0) | None \<Rightarrow> 0)"

lemma lua_tonumber_GET:
  "str_at K k = Some v \<Longrightarrow> lua_tonumber (fst (redis_exec (GET k) K)) = as_num v"
  "str_at K k = Some v \<Longrightarrow> fst (redis_exec (GET k) K) \<noteq> RErr"
  "snd (redis_exec (GET k) K) = K"
  by (auto simp: lua_tonumber_def as_num_def split: option.splits)

lemma as_num_int: "as_int v = Some i \<Longrightarrow> as_num v = Some (of_int i)"
  by (auto simp: as_int_def as_num_def split: option.splits rstr.splits)

lemma run_quota_script:
  assumes "str_at K k = Some v" "as_int v = Some u"
  shows "run_lua redis_exec (quota_script k cap c ttl) K =
    (if u + c > cap then (RInteger (- 1), K)
     else (RInteger (u + c), bump k (ttl * 1000) (put_str k (RInt (u + c)) (deadline K k) K)))"
proof -
  have "(of_int u + of_int c > (of_int cap :: rat)) = (u + c > cap)"
    by (metis of_int_add of_int_less_iff)
  with lua_tonumber_GET(1,2) [OF assms(1)] lua_tonumber_GET(3) as_num_int [OF assms(2)] assms show ?thesis
    by (simp add: quota_script_def run_lua_call del: run_lua.simps(2) redis_exec.simps(1))
qed

lemma run_reserve_script:
  assumes "str_at K k = Some v" "as_num v = Some u"
  shows "run_lua redis_exec (reserve_script k cap c ttl) K =
    (if u + c > cap then (RInteger 0, K)
     else (RInteger 1, bump k (ttl * 1000) (put_str k (RNum (u + c)) (deadline K k) K)))"
  using lua_tonumber_GET(1,2) [OF assms(1)] lua_tonumber_GET(3) assms
  by (simp add: reserve_script_def run_lua_call del: run_lua.simps(2) redis_exec.simps(1))

text \<open>One check-and-add, as the answer the caller acts on and the next state.\<close>

definition quota_reserve :: "int option \<Rightarrow> string \<Rightarrow> string \<Rightarrow> int \<Rightarrow> keyspace \<Rightarrow> bool \<times> keyspace" where
  "quota_reserve daily_limit today t c K =
     (case run mem_server (check_and_increment True daily_limit today t c) [] K of
        (r, K') \<Rightarrow> (r = Inr (), K'))"

definition budget_reserve :: "rat \<Rightarrow> string \<Rightarrow> rat \<Rightarrow> keyspace \<Rightarrow> bool \<times> keyspace" where
  "budget_reserve credits t c K =
     (case run mem_server (reserve_cost True credits t c) [] K of (r, K') \<Rightarrow> (r = Inr True, K'))"

text \<open>A reservation of a non-negative count on a counter that is not negative.\<close>

definition quota_invar :: "string \<Rightarrow> keyspace \<Rightarrow> bool" where
  "quota_invar k K \<longleftrightarrow> int_counter k K \<and> 0 \<le> int_usage k K"

lemma run_check_and_increment:
  assumes "quota_invar (quota_key today t) K" "0 \<le> c"
  shows "run mem_server (check_and_increment True dl today t c) [] K =
    (if int_usage (quota_key today t) K + c > quota_limit dl
     then (Inl (QuotaExceededError t (quota_limit dl)), K)
     else (Inr (), bump (quota_key today t) (86400 * 2 * 1000)
        (put_str (quota_key today t) (RInt (int_usage (quota_key today t) K + c))
          (deadline K (quota_key today t)) K)))"
proof -
  obtain v u where v: "str_at K (quota_key today t) = Some v" "as_int v = Some u"
    using assms(1) by (auto simp: quota_invar_def int_counter_def)
  then have "int_usage (quota_key today t) K = u" "0 \<le> u"
    using assms(1) by (auto simp: quota_invar_def int_usage_def)
  with assms(2) show ?thesis
    by (simp add: check_and_increment_def run_simps run_quota_script [OF v] client_view_def)
qed

lemma run_reserve_cost:
  assumes "num_counter (spend_key t) K"
  shows "run mem_server (reserve_cost True credits t c) [] K =
    (if num_usage (spend_key t) K + c > credits then (Inr False, K)
     else (Inr True, bump (spend_key t) (86400 * 1000)
        (put_str (spend_key t) (RNum (num_usage (spend_key t) K + c)) (deadline K (spend_key t)) K)))"
proof -
  obtain v u where v: "str_at K (spend_key t) = Some v" "as_num v = Some u"
    using assms by (auto simp: num_counter_def)
  then have "num_usage (spend_key t) K = u" by (simp add: num_usage_def)
  then show ?thesis
    by (simp add: reserve_cost_def run_simps run_reserve_script [OF v] client_view_def)
qed

interpretation quota: bounded_counter "quota_invar (quota_key today t)" "int_usage (quota_key today t)"
  "quota_limit dl" "quota_reserve dl today t" for dl today t
proof (unfold_locales, goal_cases)
  case (1 s c)
  then show ?case
    by (auto simp: quota_reserve_def run_check_and_increment keyspace_simps int_usage_def quota_invar_def
        int_counter_def as_int_def split: if_splits)
next
  case (2 s c)
  then show ?case by (simp add: quota_reserve_def run_check_and_increment)
next
  case (3 s c)
  then show ?case
    by (simp add: quota_reserve_def run_check_and_increment)
      (simp add: int_usage_def keyspace_simps as_int_def)
qed

interpretation budget: bounded_counter "num_counter (spend_key t)" "num_usage (spend_key t)" credits
  "budget_reserve credits t" for t credits
proof (unfold_locales, goal_cases)
  case (1 s c)
  then show ?case
    by (auto simp: budget_reserve_def run_reserve_cost keyspace_simps num_counter_def as_num_def
        split: if_splits)
next
  case (2 s c)
  then show ?case by (simp add: budget_reserve_def run_reserve_cost)
next
  case (3 s c)
  then show ?case
    by (simp add: budget_reserve_def run_reserve_cost)
      (simp add: num_usage_def keyspace_simps as_num_def)
qed

subsection \<open>Concurrent workers\<close>

text \<open>
  A counter whose check-and-add is one script: a client's program \<open>P c\<close> is over after its single
  round trip, so any interleaving of clients is a sequence of reservations.
\<close>

definition granted_total :: "('a prog \<Rightarrow> bool) \<Rightarrow> 'n::comm_monoid_add list \<Rightarrow> 'a prog list \<Rightarrow> 'n" where
  "granted_total granted cs ps = (\<Sum>i < length cs. if granted (ps ! i) then cs ! i else 0)"

locale atomic_counter = bounded_counter invar usage cap reserve
  for invar :: "keyspace \<Rightarrow> bool" and usage :: "keyspace \<Rightarrow> 'n::linordered_idom" and cap
    and reserve :: "'n \<Rightarrow> keyspace \<Rightarrow> bool \<times> keyspace" +
  fixes P :: "'n \<Rightarrow> 'a prog" and granted :: "'a prog \<Rightarrow> bool"
  assumes waiting: "\<not> granted (P c)"
    and step_state: "invar K \<Longrightarrow> 0 \<le> c \<Longrightarrow> snd (client_step mem_server (P c) K) = snd (reserve c K)"
    and step_done: "invar K \<Longrightarrow> 0 \<le> c \<Longrightarrow> finished (fst (client_step mem_server (P c) K))"
    and step_granted: "invar K \<Longrightarrow> 0 \<le> c \<Longrightarrow>
      granted (fst (client_step mem_server (P c) K)) \<longleftrightarrow> fst (reserve c K)"
begin

lemma granted_total_update:
  assumes "i < length cs" "length ps = length cs" "\<not> granted (ps ! i)"
  shows "granted_total granted cs (ps[i := p]) = granted_total granted cs ps + (if granted p then cs ! i else 0)"
proof -
  have "granted_total granted cs (ps[i := p]) =
      (if granted p then cs ! i else 0) + (\<Sum>j \<in> {..<length cs} - {i}. if granted (ps ! j) then cs ! j else 0)"
    unfolding granted_total_def using assms by (subst sum.remove [of _ i]) auto
  moreover have "granted_total granted cs ps =
      (\<Sum>j \<in> {..<length cs} - {i}. if granted (ps ! j) then cs ! j else 0)"
    unfolding granted_total_def using assms by (subst sum.remove [of _ i]) auto
  ultimately show ?thesis by (simp add: add.commute)
qed

lemma interleave_counter:
  assumes "invar K" "usage K \<le> cap" "\<forall>c \<in> set cs. 0 \<le> c" "length ps = length cs"
    and "\<forall>i < length cs. ps ! i = P (cs ! i) \<or> finished (ps ! i)"
  shows "usage (snd (interleave mem_server is ps K)) =
      usage K - granted_total granted cs ps + granted_total granted cs (fst (interleave mem_server is ps K)) \<and>
    usage (snd (interleave mem_server is ps K)) \<le> cap"
  using assms
proof (induction "is" arbitrary: ps K)
  case (Cons i "is")
  show ?case
  proof (cases "i < length cs \<and> \<not> finished (ps ! i)")
    case False
    then have "interleave mem_server (i # is) ps K = interleave mem_server is ps K"
      using Cons.prems(4) by (cases "i < length cs") auto
    with Cons.IH [OF Cons.prems] show ?thesis by metis
  next
    case True
    define p K1 where "p = fst (client_step mem_server (ps ! i) K)"
      and "K1 = snd (client_step mem_server (ps ! i) K)"
    have step: "interleave mem_server (i # is) ps K = interleave mem_server is (ps[i := p]) K1"
      using True Cons.prems(4) by (simp add: p_def K1_def case_prod_beta)
    have c: "ps ! i = P (cs ! i)" "0 \<le> cs ! i" using True Cons.prems by auto
    have K1: "invar K1" "usage K1 = usage K + (if granted p then cs ! i else 0)" "usage K1 \<le> cap"
      using c Cons.prems(1,2) invar_reserve usage_reserve reserve_iff step_granted
      by (auto simp: p_def K1_def step_state)
    have "finished p" using c Cons.prems(1) by (simp add: p_def step_done)
    then have "\<forall>j < length cs. ps[i := p] ! j = P (cs ! j) \<or> finished (ps[i := p] ! j)"
      using True Cons.prems(4,5) by (auto simp: nth_list_update)
    from Cons.IH [OF K1(1) K1(3) Cons.prems(3) _ this] Cons.prems(4) K1(2)
      granted_total_update [of i cs ps p] True waiting [of "cs ! i"] c
    show ?thesis unfolding step by auto
  qed
qed simp

lemma interleave_counter_fresh:
  assumes "invar K" "usage K \<le> cap" "\<forall>c \<in> set cs. 0 \<le> c"
  shows "usage (snd (interleave mem_server is (map P cs) K)) =
      usage K + granted_total granted cs (fst (interleave mem_server is (map P cs) K)) \<and>
    usage (snd (interleave mem_server is (map P cs) K)) \<le> cap"
  using interleave_counter [OF assms, of "map P cs" "is"] by (simp add: granted_total_def waiting)

end

text \<open>What a client whose call went through ends as.\<close>

primrec went_through :: "unit prog \<Rightarrow> bool" where
  "went_through (Return a) = True"
| "went_through (Raise e) = False"
| "went_through (Cmd c k) = False"
| "went_through (Eval l k) = False"

primrec said_yes :: "bool prog \<Rightarrow> bool" where
  "said_yes (Return a) = a"
| "said_yes (Raise e) = False"
| "said_yes (Cmd c k) = False"
| "said_yes (Eval l k) = False"

lemma eval_script_waiting [simp]:
  "\<not> went_through (eval_script l f)" "\<not> said_yes (eval_script l g)"
  by (simp_all add: eval_script_def)

lemma andthen_rc_eval: "andthen (rc_eval True l) f = eval_script l f"
  by (simp add: rc_eval_def need_client_def andthen_eval_script)

lemma client_step_check:
  assumes "quota_invar (quota_key today t) K" "0 \<le> c"
  shows "client_step mem_server (check_and_increment True dl today t c) K =
    ((if fst (quota_reserve dl today t c K) then Return ()
      else Raise (QuotaExceededError t (quota_limit dl))), snd (quota_reserve dl today t c K))"
proof -
  obtain v u where v: "str_at K (quota_key today t) = Some v" "as_int v = Some u" "0 \<le> u"
    using assms(1) by (auto simp: quota_invar_def int_counter_def int_usage_def)
  with assms(2) show ?thesis
    by (simp add: quota_reserve_def check_and_increment_def andthen_rc_eval run_simps
        run_quota_script [OF v(1,2)])
qed

lemma client_step_reserve:
  assumes "num_counter (spend_key t) K"
  shows "client_step mem_server (reserve_cost True credits t c) K =
    (Return (fst (budget_reserve credits t c K)), snd (budget_reserve credits t c K))"
proof -
  obtain v u where v: "str_at K (spend_key t) = Some v" "as_num v = Some u"
    using assms(1) by (auto simp: num_counter_def)
  then show ?thesis
    by (simp add: budget_reserve_def reserve_cost_def andthen_rc_eval run_simps run_reserve_script [OF v])
qed

lemma waiting_progs:
  "\<not> went_through (check_and_increment True dl today t c)" "\<not> said_yes (reserve_cost True credits t x)"
  by (simp_all add: check_and_increment_def reserve_cost_def andthen_rc_eval)

interpretation quota_race: atomic_counter "quota_invar (quota_key today t)" "int_usage (quota_key today t)"
  "quota_limit dl" "quota_reserve dl today t" "check_and_increment True dl today t" went_through for dl today t
  by unfold_locales (simp_all add: client_step_check waiting_progs)

interpretation budget_race: atomic_counter "num_counter (spend_key t)" "num_usage (spend_key t)" credits
  "budget_reserve credits t" "reserve_cost True credits t" said_yes for t credits
  by unfold_locales (simp_all add: client_step_reserve waiting_progs)

subsection \<open>Properties\<close>

lemma fresh_counter:
  "quota_invar k empty_keyspace" "int_usage k empty_keyspace = 0"
  "num_counter k empty_keyspace" "num_usage k empty_keyspace = 0"
  by (simp_all add: quota_invar_def int_counter_def int_usage_def num_counter_def num_usage_def
      as_int_def as_num_def)

text \<open>
  \<^bold>\<open>C19\<close>. The quota holds under any race. However the calls of concurrent workers for one tenant
  and day are interleaved, on any server that behaves as Redis documents, the counter never
  passes the limit and is exactly what it was plus the counts of the calls that went through.
\<close>

theorem quota_race_free:
  assumes "redis_server sv view" "quota_invar (quota_key today t) (view s)"
    and "int_usage (quota_key today t) (view s) \<le> quota_limit dl" "\<forall>c \<in> set cs. 0 \<le> c"
    and "interleave sv sched (map (check_and_increment True dl today t) cs) s = (ps, s')"
  shows "int_usage (quota_key today t) (view s') =
      int_usage (quota_key today t) (view s) + granted_total went_through cs ps \<and>
    int_usage (quota_key today t) (view s') \<le> quota_limit dl"
  using quota_race.interleave_counter_fresh [OF assms(2-4), of sched] assms(5)
    redis_server.interleave_sim [OF assms(1), of sched "map (check_and_increment True dl today t) cs" s]
  by simp

theorem quota_race_free_witness:
  "\<exists>ps K'. interleave mem_server [1, 0, 2] (map (check_and_increment True (Some 10) ''2026-01-01'' ''acme'') [4, 5, 3])
      empty_keyspace = (ps, K') \<and> int_usage (quota_key ''2026-01-01'' ''acme'') K' = 9 \<and>
      granted_total went_through [4, 5, 3 :: int] ps = 9"
proof -
  obtain ps K' where r: "interleave mem_server [1, 0, 2]
      (map (check_and_increment True (Some 10) ''2026-01-01'' ''acme'') [4, 5, 3]) empty_keyspace = (ps, K')"
    by fastforce
  have "granted_total went_through [4, 5, 3] (fst (interleave mem_server [1, 0, 2]
      (map (check_and_increment True (Some 10) ''2026-01-01'' ''acme'') [4, 5, 3]) empty_keyspace)) = (9 :: int)"
    by (simp add: granted_total_def check_and_increment_def andthen_rc_eval client_step_eval_script
        quota_script_def run_lua_call lua_tonumber_def as_num_def as_int_def keyspace_simps quota_limit_def
        eval_nat_numeral del: run_lua.simps(2))
  with r quota_race_free [OF mem.redis_server_axioms fresh_counter(1) _ _ r] show ?thesis
    by (simp add: fresh_counter quota_limit_def)
qed

text \<open>
  The CAPTCHA spend holds under any race, in the same sense: whatever the interleaving
  of concurrent reservations against one ceiling, the spend never passes it and is exactly the
  former spend plus the reservations answered \<open>True\<close>.
\<close>

theorem budget_race_free:
  assumes "redis_server sv view" "num_counter (spend_key t) (view s)"
    and "num_usage (spend_key t) (view s) \<le> credits" "\<forall>c \<in> set cs. 0 \<le> c"
    and "interleave sv sched (map (reserve_cost True credits t) cs) s = (ps, s')"
  shows "num_usage (spend_key t) (view s') =
      num_usage (spend_key t) (view s) + granted_total said_yes cs ps \<and>
    num_usage (spend_key t) (view s') \<le> credits"
  using budget_race.interleave_counter_fresh [OF assms(2-4), of sched] assms(5)
    redis_server.interleave_sim [OF assms(1), of sched "map (reserve_cost True credits t) cs" s]
  by simp

theorem budget_race_free_witness:
  "\<exists>ps K'. interleave mem_server [0, 1] (map (reserve_cost True 1 ''acme'') [3 / 4, 1 / 2]) empty_keyspace = (ps, K') \<and>
      num_usage (spend_key ''acme'') K' = granted_total said_yes [3 / 4, 1 / 2] ps \<and>
      num_usage (spend_key ''acme'') K' \<le> 1"
proof -
  obtain ps K' where r: "interleave mem_server [0, 1]
      (map (reserve_cost True 1 ''acme'') [3 / 4, 1 / 2]) empty_keyspace = (ps, K')"
    by fastforce
  with budget_race_free [OF mem.redis_server_axioms fresh_counter(3) _ _ r] show ?thesis
    by (simp add: fresh_counter)
qed

text \<open>Reads through the tenant-scoped client go to another key than the script writes.\<close>

lemma reported_key_differs [simp]:
  "rc_prefix t (quota_key today t) \<noteq> quota_key today t" "rc_prefix t (spend_key t) \<noteq> spend_key t"
  by (auto simp: rc_prefix_def dest: arg_cong [where f = length])

text \<open>
  Reported usage misses every increment. \<open>current_usage\<close> reads through the tenant prefix,
  the script counts at the key without it: right after a call that went through (and counted),
  \<open>current_usage\<close> answers 0 and \<open>remaining\<close> the whole limit, as long as nothing else wrote the
  prefixed key.
\<close>

theorem quota_usage_blind:
  assumes "redis_server sv view" "quota_invar (quota_key today t) (view s)" "0 \<le> c"
    and "live (view s) (rc_prefix t (quota_key today t)) = None"
    and "int_usage (quota_key today t) (view s) + c \<le> quota_limit dl"
  shows "fst (run sv (andthen (check_and_increment True dl today t c) (\<lambda>_. current_usage True today t)) [] s) = Inr 0 \<and>
    fst (run sv (andthen (check_and_increment True dl today t c) (\<lambda>_. quota_remaining True dl today t)) [] s) =
      Inr (max 0 (quota_limit dl)) \<and>
    int_usage (quota_key today t) (view (snd (run sv (check_and_increment True dl today t c) [] s))) =
      int_usage (quota_key today t) (view s) + c"
proof -
  let ?k = "quota_key today t"
  define K where "K = bump ?k (86400 * 2 * 1000)
    (put_str ?k (RInt (int_usage ?k (view s) + c)) (deadline (view s) ?k) (view s))"
  have run: "run mem_server (check_and_increment True dl today t c) [] (view s) = (Inr (), K)"
    using run_check_and_increment [OF assms(2,3), of dl] assms(5) by (simp add: K_def)
  have "str_at K (rc_prefix t ?k) = Some None"
    using assms(4) by (simp add: K_def keyspace_simps) (simp add: str_at_def)
  moreover have "int_usage ?k K = int_usage ?k (view s) + c"
    by (simp add: K_def int_usage_def keyspace_simps as_int_def)
  ultimately show ?thesis
    using run unfolding redis_server.run_result [OF assms(1)] redis_server.run_state [OF assms(1)]
    by (simp add: run_simps current_usage_def quota_remaining_def)
qed

theorem quota_usage_blind_witness:
  "fst (run mem_server (andthen (check_and_increment True (Some 10) ''2026-01-01'' ''acme'' 7)
      (\<lambda>_. quota_remaining True (Some 10) ''2026-01-01'' ''acme'')) [] empty_keyspace) = Inr 10"
  using quota_usage_blind [where today = "''2026-01-01''" and t = "''acme''" and c = 7 and dl = "Some 10",
      OF mem.redis_server_axioms fresh_counter(1)]
  by (simp add: fresh_counter quota_limit_def)

subsection \<open>The budget's window\<close>

text \<open>A tenant that reserves, a while later again, and so on.\<close>

fun reserve_daily :: "rat \<Rightarrow> string \<Rightarrow> (nat \<times> rat) list \<Rightarrow> keyspace \<Rightarrow> keyspace" where
  "reserve_daily credits t [] K = K"
| "reserve_daily credits t ((d, c) # xs) K =
     reserve_daily credits t xs (snd (budget_reserve credits t c (ks_wait d K)))"

lemma str_at_wait:
  assumes "str_at K k = Some v" "deadline K k = Some x" "ks_now K + int d \<le> x"
  shows "str_at (ks_wait d K) k = Some v"
  using assms by (auto simp: str_at_def deadline_def live_def alive_def split: option.splits if_splits)

text \<open>
  The spend of a tenant that solves at least once a day never resets. Every reservation
  re-arms the key's 24 hours, so for reservations at most a day apart the spend is the sum of all
  of them, over any number of days, and a ceiling meant for a day is used up by the total.
\<close>

theorem budget_spend_never_resets:
  assumes "num_counter (spend_key t) K" "deadline K (spend_key t) = Some x" "ks_now K + 86400000 \<le> x"
    and "\<forall>(d, c) \<in> set xs. d \<le> 86400000 \<and> 0 \<le> c"
    and "num_usage (spend_key t) K + sum_list (map snd xs) \<le> credits"
  shows "num_usage (spend_key t) (reserve_daily credits t xs K) =
    num_usage (spend_key t) K + sum_list (map snd xs)"
  using assms
proof (induction xs arbitrary: K x)
  case (Cons p xs)
  obtain d c where p: "p = (d, c)" by (cases p)
  let ?k = "spend_key t" and ?K = "ks_wait d K"
  obtain v u where v: "str_at K ?k = Some v" "as_num v = Some u"
    using Cons.prems(1) by (auto simp: num_counter_def)
  have "str_at ?K ?k = Some v"
    using str_at_wait [OF v(1) Cons.prems(2), of d] Cons.prems(3,4) p by auto
  with v have now: "num_counter ?k ?K" "num_usage ?k ?K = u" "num_usage ?k K = u"
    by (simp_all add: num_counter_def num_usage_def)
  have nonneg: "0 \<le> sum_list (map snd xs)"
    using Cons.prems(4) by (intro sum_list_nonneg) auto
  then have "u + c \<le> credits" using Cons.prems(5) now p by simp
  then obtain K1 where K1: "snd (budget_reserve credits t c ?K) = K1"
    "K1 = bump ?k (86400 * 1000) (put_str ?k (RNum (u + c)) (deadline ?K ?k) ?K)"
    using run_reserve_cost [OF now(1), of credits c] now(2) by (simp add: budget_reserve_def)
  have K1': "str_at K1 ?k = Some (Some (RNum (u + c)))" "deadline K1 ?k = Some (ks_now K1 + 86400000)"
    by (simp_all add: K1(2) keyspace_simps)
  then have "num_counter ?k K1" "num_usage ?k K1 = u + c"
    by (simp_all add: num_counter_def num_usage_def as_num_def)
  with Cons.IH [of K1 "ks_now K1 + 86400000"] K1' Cons.prems(4,5) now p K1(1) show ?case by simp
qed simp

theorem budget_spend_never_resets_witness:
  "num_usage (spend_key ''acme'') (reserve_daily 5 ''acme'' [(86000000, 1), (86000000, 2), (86000000, 1)]
     (put_str (spend_key ''acme'') (RNum 1) (Some 86400000) empty_keyspace)) = 5"
proof -
  let ?K = "put_str (spend_key ''acme'') (RNum 1) (Some 86400000) empty_keyspace"
  have k: "num_counter (spend_key ''acme'') ?K" "num_usage (spend_key ''acme'') ?K = 1"
    "deadline ?K (spend_key ''acme'') = Some 86400000"
    by (simp_all add: num_counter_def num_usage_def as_num_def keyspace_simps deadline_def)
  show ?thesis
    using budget_spend_never_resets [OF k(1) k(3),
        of "[(86000000, 1), (86000000, 2), (86000000, 1)]" 5] k(2)
    by simp
qed

text \<open>
  How stale a ceiling can be. After a look-up that asked the database at \<open>t1\<close>, a look-up
  at \<open>t2\<close> answers with what the database said at \<open>t1\<close> for less than 300 seconds and with what it
  says now from then on; a missing row or a NULL ceiling is the default of 1.
\<close>

theorem ceiling_staleness:
  assumes "has_pg b" "fixed_ceiling b = None" "map_of (ceiling_cache b) t = None"
  shows "fst (get_ceiling (snd (get_ceiling b (Inr rows1) t t1)) (Inr rows2) t t2) =
    Inr (case if t2 - t1 < 300 then rows1 else rows2 of Some c # _ \<Rightarrow> c | _ \<Rightarrow> 1)"
  using assms
  by (auto simp: get_ceiling_def CEILING_CACHE_TTL_SECONDS_def DEFAULT_DAILY_CEILING_def Let_def
      split: list.splits option.splits)

theorem ceiling_staleness_witness:
  "fst (get_ceiling (snd (get_ceiling \<lparr>has_pg = True, fixed_ceiling = None, ceiling_cache = []\<rparr>
     (Inr [Some 5]) ''acme'' 100)) (Inr [Some 7]) ''acme'' 399) = Inr 5"
  using ceiling_staleness [where b = "\<lparr>has_pg = True, fixed_ceiling = None, ceiling_cache = []\<rparr>",
      of "''acme''" "[Some 5]" 100 "[Some 7]" 399]
  by simp

text \<open>The reset the client is told is the end of the current second's day, never past it.\<close>

lemma quota_reset_bounds:
  assumes "0 \<le> us" "us < 86400 * 1000000"
  shows "0 \<le> seconds_until_quota_reset us" "us + 1000000 * seconds_until_quota_reset us \<le> 86400 * 1000000"
    "86400 * 1000000 < us + 1000000 * (seconds_until_quota_reset us + 1)"
  using assms by (simp_all add: seconds_until_quota_reset_def)

end
