(* ===== verification/Paid_Gateway.thy ===== *)
theory Paid_Gateway
  imports Failure_Policy
begin

text \<open>
  \<^verbatim>\<open>src/src/scraper_engine/proxy/paid_gateway.py\<close>: the proxy record of the paid rotating gateway,
  built from the environment. The gateway chooses the exit address by the user name, so a new
  session label in the user name is what a rotation is.
\<close>

record gateway_env =
  ge_host :: "string option"
  ge_port :: "string option"
  ge_username :: "string option"
  ge_password :: "string option"

text \<open>\<open>new_session_id()\<close> for a draw of \<open>secrets.randbelow(9 * 10**17)\<close>.\<close>

definition new_session_id :: "nat \<Rightarrow> string" where
  "new_session_id draw = py_str_int (int (draw mod (9 * 10 ^ 17)) + 10 ^ 17)"

fun join :: "string \<Rightarrow> string list \<Rightarrow> string" where
  "join sep [] = []"
| "join sep [x] = x"
| "join sep (x # xs) = x @ sep @ join sep xs"

definition gateway_params :: "string option \<Rightarrow> string option \<Rightarrow> int option \<Rightarrow> string list" where
  "gateway_params country session_id asn =
     (if truthy_str country then [''cr.'' @ py_lower (py_strip (or_str country []))] else [])
     @ (case asn of None \<Rightarrow> [] | Some n \<Rightarrow> [''asn.'' @ py_str_int n])
     @ (if truthy_str session_id then [''sessid.'' @ or_str session_id []] else [])"

definition build_gateway_username :: "string \<Rightarrow> string option \<Rightarrow> string option \<Rightarrow> int option \<Rightarrow> string" where
  "build_gateway_username base_username country session_id asn =
     (let params = gateway_params country session_id asn
      in if params = [] then base_username else base_username @ ''__'' @ join '';'' params)"

text \<open>\<open>int(port_raw)\<close> on an environment text of digits; signs, blanks and underscores are not modelled.\<close>

definition build_gateway_proxy :: "gateway_env \<Rightarrow> string option \<Rightarrow> string option \<Rightarrow> int option \<Rightarrow> proxy option" where
  "build_gateway_proxy env country session_id asn =
     (if \<not> truthy_str (ge_host env) \<or> \<not> truthy_str (ge_port env) \<or> \<not> truthy_str (ge_username env)
         \<or> \<not> truthy_str (ge_password env) then None
      else case int_of_text (or_str (ge_port env) []) of Inl _ \<Rightarrow> None
        | Inr port \<Rightarrow> Some \<lparr>px_id = - 1, px_ip = or_str (ge_host env) [], px_port = port,
            px_protocol = P_HTTP, px_anonymity = ELITE, px_asn_class = RESIDENTIAL,
            px_reliability_score = 100,
            px_username = Some (build_gateway_username (or_str (ge_username env) []) country session_id asn),
            px_password = ge_password env, px_source = Paid_Gateway\<rparr>)"

text \<open>\<open>gateway_accepts_credentials\<close>: the answer of the probe request, \<open>None\<close> for an HTTP error.\<close>

definition gateway_accepts_credentials :: "gateway_env \<Rightarrow> string option \<Rightarrow> int option \<Rightarrow> nat \<Rightarrow> (proxy \<Rightarrow> int option) \<Rightarrow> bool" where
  "gateway_accepts_credentials env country asn draw probe =
     (case build_gateway_proxy env country (Some (new_session_id draw)) asn of
        None \<Rightarrow> False | Some p \<Rightarrow> probe p = Some 200)"

subsection \<open>Rotation\<close>

lemma join_snoc: "xs \<noteq> [] \<Longrightarrow> join sep (xs @ [x]) = join sep xs @ sep @ x"
  by (induction sep xs rule: join.induct) auto

lemma build_gateway_username_session:
  assumes "s \<noteq> []"
  shows "\<exists>p. \<forall>s'. s' \<noteq> [] \<longrightarrow> build_gateway_username b country (Some s') asn = p @ s'"
proof -
  define q where "q = (if truthy_str country then [''cr.'' @ py_lower (py_strip (or_str country []))] else [])
     @ (case asn of None \<Rightarrow> [] | Some n \<Rightarrow> [''asn.'' @ py_str_int n])"
  have "build_gateway_username b country (Some s') asn =
      (b @ ''__'' @ (if q = [] then [] else join '';'' q @ '';'') @ ''sessid.'') @ s'" if "s' \<noteq> []" for s'
  proof -
    have "gateway_params country (Some s') asn = q @ [''sessid.'' @ s']"
      using that by (simp add: gateway_params_def q_def truthy_str_def or_str_def)
    then show ?thesis
      by (cases "q = []") (simp_all add: build_gateway_username_def Let_def join_snoc)
  qed
  then show ?thesis by blast
qed

text \<open>
  Two attempts with different session labels present different exit identities on the same
  endpoint, and a gateway proxy is never parked for reuse.
\<close>

lemma rotation_changes_identity:
  assumes "build_gateway_proxy env country (Some s) asn = Some p"
    "build_gateway_proxy env country (Some s') asn = Some p'" "s \<noteq> []" "s' \<noteq> []"
  shows "proxy_key p = proxy_key p'" "identity_key p = identity_key p' \<longleftrightarrow> s = s'"
    "px_source p = Paid_Gateway" "\<not> proxy_reusable p"
proof -
  obtain pre where pre: "\<And>s'. s' \<noteq> [] \<Longrightarrow>
      build_gateway_username (or_str (ge_username env) []) country (Some s') asn = pre @ s'"
    using build_gateway_username_session [OF assms(3)] by blast
  have p: "px_ip p = px_ip p'" "px_port p = px_port p'" "px_username p = Some (pre @ s)"
    "px_username p' = Some (pre @ s')" "px_source p = Paid_Gateway"
    using assms pre by (auto simp: build_gateway_proxy_def split: if_splits sum.splits)
  from identity_key_sessions [OF p(1-4)]
  show "proxy_key p = proxy_key p'" "identity_key p = identity_key p' \<longleftrightarrow> s = s'" by simp_all
  from p(5) show "px_source p = Paid_Gateway" "\<not> proxy_reusable p" by (simp_all add: proxy_reusable_def)
qed

lemma new_session_id_inj:
  assumes "a < 9 * 10 ^ 17" "b < 9 * 10 ^ 17"
  shows "new_session_id a = new_session_id b \<longleftrightarrow> a = b"
  using assms by (simp add: new_session_id_def py_str_int_inj)

end
