(* ===== verification/Job_Routes.thy ===== *)
theory Job_Routes
  imports Store_Access Quota_Budget Paid_Gateway
begin

text \<open>
  The routes of \<^verbatim>\<open>src/src/scraper_engine/api/routes.py\<close> on jobs, dead letters and quotas, with the lookup of
  the caller's key (\<open>TenantResolver.resolve\<close> of \<^verbatim>\<open>src/src/scraper_engine/api/auth.py\<close>). Other processes may
  act between any two statements, and every call may fail. What they promise: a submission leaves no
  orphan, and the pages of the listings are the rows they should be.
\<close>

subsection \<open>Handlers\<close>

text \<open>An \<open>HTTPException\<close> is a value; an exception nobody handles is a 500.\<close>

datatype http_error = Http nat string

type_synonym ('s, 'a) handler = "('s, http_error + 'a) access"

definition http :: "nat \<Rightarrow> string \<Rightarrow> ('s, 'a) handler" where
  "http code detail = rreturn (Inl (Http code detail))"

definition throw :: "exn \<Rightarrow> ('s, 'a) access" where
  "throw e w = (Inl e, w)"

text \<open>
  What a request meets: the services the process has initialised, the request's key and the public tables
  of keys (key, tenant, revoked) and of tenants' limits, the verdicts of the SSRF guard, the date of the
  quota's key with the microseconds into that day, and the fresh UUID of the job.
\<close>

datatype service = Resolver | Guard | Postgres | Redis | Job_Queue

record api =
  ap_services :: "service list"
  ap_api_key :: string
  ap_keys :: "(string \<times> string \<times> bool) list"
  ap_limits :: "(string \<times> int option) list"
  ap_ssrf :: "string \<Rightarrow> unit res"
  ap_today :: string
  ap_us_of_day :: int
  ap_job_id :: string

definition needs :: "api \<Rightarrow> service list \<Rightarrow> ('s, 'a) handler \<Rightarrow> ('s, 'a) handler" where
  "needs self services k = (if set services \<subseteq> set (ap_services self) then k else http 503 ''Service not initialized'')"

definition resolve :: "api \<Rightarrow> tenant_db \<Rightarrow> string res \<times> tenant_db" where
  "resolve self db = (case find (\<lambda>(key, slug, revoked). key = ap_api_key self \<and> \<not> revoked) (ap_keys self) of
     None \<Rightarrow> Inl (AuthenticationError ''Invalid API key'') | Some (_, slug, _) \<Rightarrow> TenantId slug, db)"

definition resolve_tenant :: "api \<Rightarrow> (string \<Rightarrow> ('s, 'a) handler) \<Rightarrow> ('s, 'a) handler" where
  "resolve_tenant self k = needs self [Resolver] (\<lambda>w. case pg (resolve self) w of
     (Inl (AuthenticationError _), w') \<Rightarrow> http 401 ''Invalid API key'' w' | (Inl e, w') \<Rightarrow> (Inl e, w') | (Inr tenant, w') \<Rightarrow> k tenant w')"

subsection \<open>Submitting\<close>

definition SCRAPE_JOB_TIMEOUT_SECONDS :: int where "SCRAPE_JOB_TIMEOUT_SECONDS = 600"
definition CRAWL_JOB_TIMEOUT_SECONDS :: int where "CRAWL_JOB_TIMEOUT_SECONDS = 1800"
definition PER_URL_TIMEOUT_SECONDS :: int where "PER_URL_TIMEOUT_SECONDS = 180"

text \<open>The partition of the URLs: the accepted ones and the blocks, in order; any other exception propagates.\<close>

fun partition_urls :: "(string \<Rightarrow> unit res) \<Rightarrow> string list \<Rightarrow> (string list \<times> exn list) res" where
  "partition_urls ssrf [] = Inr ([], [])"
| "partition_urls ssrf (u # us) = (case ssrf u of
     Inl (SSRFBlockedError x h n) \<Rightarrow> (case partition_urls ssrf us of Inl e \<Rightarrow> Inl e
       | Inr (valid, blocked) \<Rightarrow> Inr (valid, SSRFBlockedError x h n # blocked))
   | Inl e \<Rightarrow> Inl e
   | Inr _ \<Rightarrow> (case partition_urls ssrf us of Inl e \<Rightarrow> Inl e | Inr (valid, blocked) \<Rightarrow> Inr (u # valid, blocked)))"

record submission =
  su_job_id :: string
  su_status :: job_status
  su_urls :: nat
  su_blocked :: "nat option"

text \<open>The webhook is checked after the URLs; an accepted request may repeat a live one.\<close>

definition check_webhook :: "api \<Rightarrow> string option \<Rightarrow> ('s, 'a) handler \<Rightarrow> ('s, 'a) handler" where
  "check_webhook self webhook k = (case webhook of None \<Rightarrow> k
     | Some u \<Rightarrow> (case ap_ssrf self u of Inl (SSRFBlockedError _ _ _) \<Rightarrow> http 403 ''webhook blocked'' | Inl e \<Rightarrow> throw e | Inr _ \<Rightarrow> k))"

definition repeat_of :: "string option \<Rightarrow> nat \<Rightarrow> ('s, submission) handler \<Rightarrow> ('s, submission) handler" where
  "repeat_of idempotency_key n k =
     (if idempotency_key = None \<or> idempotency_key = Some [] then k
      else rbind (pg (\<lambda>db. (Inr (live_idempotent (the idempotency_key) db), db))) (\<lambda>existing. case existing of
         Some r \<Rightarrow> rreturn (Inr \<lparr>su_job_id = sj_id r, su_status = sj_status r, su_urls = n, su_blocked = None\<rparr>)
       | None \<Rightarrow> k))"

definition daily_limit_of :: "api \<Rightarrow> string \<Rightarrow> int option" where
  "daily_limit_of self tenant = (case map_of (ap_limits self) tenant of None \<Rightarrow> None | Some l \<Rightarrow> l)"

definition charge_quota :: "'s server \<Rightarrow> api \<Rightarrow> string \<Rightarrow> nat \<Rightarrow> ('s, 'a) handler \<Rightarrow> ('s, 'a) handler" where
  "charge_quota sv self tenant n k =
     rbind (pg (\<lambda>db. (Inr (daily_limit_of self tenant), db))) (\<lambda>daily_limit w.
       case on_redis sv (check_and_increment True daily_limit (ap_today self) tenant (int n)) w of
         (Inl (QuotaExceededError _ _), w') \<Rightarrow> http 429 ''Daily quota exceeded'' w'
       | (Inl e, w') \<Rightarrow> (Inl e, w')
       | (Inr _, w') \<Rightarrow> k w')"

definition enqueue_job :: "string \<Rightarrow> string \<Rightarrow> int \<Rightarrow> ('s, 'a) handler \<Rightarrow> ('s, 'a) handler" where
  "enqueue_job tenant job_id timeout k w =
     (case enqueue_rq \<lparr>rq_id = job_id, rq_tenant = tenant, rq_timeout = timeout\<rparr> w of
        (Inr _, w') \<Rightarrow> k w'
      | (Inl _, w') \<Rightarrow> rbind (pg (\<lambda>db. (Inr (), enqueue_failed job_id db)))
          (\<lambda>_. http 503 ''Failed to enqueue job'') w')"

definition submit_scrape ::
  "'s server \<Rightarrow> api \<Rightarrow> scrape_request \<Rightarrow> string option \<Rightarrow> string option \<Rightarrow> ('s, submission) handler" where
  "submit_scrape sv self request webhook idempotency_key =
     resolve_tenant self (\<lambda>tenant. needs self [Guard, Postgres, Redis, Job_Queue]
       (case partition_urls (ap_ssrf self) (rq_urls request) of
       Inl e \<Rightarrow> throw e
     | Inr (valid, blocked) \<Rightarrow>
       if valid = [] then http 403 ''blocked''
       else check_webhook self webhook (repeat_of idempotency_key (length (rq_urls request))
         (charge_quota sv self tenant (length valid)
           (rbind (pg (\<lambda>db. (Inr (), insert_job (ap_job_id self) (rq_urls request) (ScrapeConfig (rq_overrides request)) webhook idempotency_key db))) (\<lambda>_.
            enqueue_job tenant (ap_job_id self) (max SCRAPE_JOB_TIMEOUT_SECONDS (int (length valid) * PER_URL_TIMEOUT_SECONDS))
              (rreturn (Inr \<lparr>su_job_id = ap_job_id self, su_status = PENDING, su_urls = length (rq_urls request),
                 su_blocked = Some (length blocked)\<rparr>))))))))"

text \<open>A crawl leaves its blocked seeds out, with a failed result for each.\<close>

fun blocked_result :: "(exn \<Rightarrow> string) \<Rightarrow> exn \<Rightarrow> fetch_result" where
  "blocked_result show_exn (SSRFBlockedError url h n) = failed_result url 0
     (if is_unresolvable (SSRFBlockedError url h n) then HOST_UNREACHABLE else SSRF_BLOCKED) (show_exn (SSRFBlockedError url h n))"
| "blocked_result show_exn e = failed_result [] 0 SSRF_BLOCKED (show_exn e)"

primrec store_blocked :: "string \<Rightarrow> (exn \<Rightarrow> string) \<Rightarrow> exn list \<Rightarrow> ('s, unit) access" where
  "store_blocked job_id show_exn [] = rreturn ()"
| "store_blocked job_id show_exn (e # es) =
     rbind (pg (\<lambda>db. (Inr (), insert_result job_id (blocked_result show_exn e) None None db))) (\<lambda>_. store_blocked job_id show_exn es)"

definition submit_crawl ::
  "'s server \<Rightarrow> api \<Rightarrow> (exn \<Rightarrow> string) \<Rightarrow> string \<Rightarrow> string list \<Rightarrow> string option \<Rightarrow> string option \<Rightarrow> ('s, submission) handler" where
  "submit_crawl sv self show_exn spider start_urls webhook idempotency_key =
     resolve_tenant self (\<lambda>tenant. needs self [Guard, Postgres, Redis, Job_Queue]
       (case partition_urls (ap_ssrf self) start_urls of
       Inl e \<Rightarrow> throw e
     | Inr (valid, blocked) \<Rightarrow>
       if valid = [] then http 403 ''blocked''
       else check_webhook self webhook (repeat_of idempotency_key (length start_urls)
         (charge_quota sv self tenant (length valid)
           (rbind (pg (\<lambda>db. (Inr (), insert_job (ap_job_id self) valid (CrawlConfig spider valid) webhook idempotency_key db))) (\<lambda>_.
            rbind (store_blocked (ap_job_id self) show_exn blocked) (\<lambda>_.
            enqueue_job tenant (ap_job_id self) CRAWL_JOB_TIMEOUT_SECONDS
              (rreturn (Inr \<lparr>su_job_id = ap_job_id self, su_status = PENDING, su_urls = length valid,
                 su_blocked = Some (length blocked)\<rparr>)))))))))"

subsection \<open>Cancelling and reading\<close>

text \<open>
  \<open>uuid.UUID(value)\<close>: prefixes, braces and hyphens aside, 32 hexadecimal digits (the underscores and
  blanks that \<open>int(_, 16)\<close> also takes are refused here).
\<close>

fun replaced :: "string \<Rightarrow> string \<Rightarrow> string" where
  "replaced p [] = []"
| "replaced p (c # cs) = (if p \<noteq> [] \<and> starts_with (c # cs) p then replaced p (drop (length p - 1) cs) else c # replaced p cs)"

definition strip_braces :: "string \<Rightarrow> string" where
  "strip_braces s = rev (dropWhile (\<lambda>c. c \<in> set ''{}'') (rev (dropWhile (\<lambda>c. c \<in> set ''{}'') s)))"

definition is_uuid :: "string \<Rightarrow> bool" where
  "is_uuid value = (let s = replaced ''-'' (strip_braces (replaced ''uuid:'' (replaced ''urn:'' value))) in
     length s = 32 \<and> list_all (\<lambda>c. c \<in> set ''0123456789abcdefABCDEF'') s)"

definition validate_uuid :: "string \<Rightarrow> ('s, 'a) handler \<Rightarrow> ('s, 'a) handler" where
  "validate_uuid value k = (if is_uuid value then k else http 422 ''not a valid UUID'')"

definition MAX_PAGE_LIMIT :: int where "MAX_PAGE_LIMIT = 500"

definition validate_pagination :: "int \<Rightarrow> int \<Rightarrow> ('s, 'a) handler \<Rightarrow> ('s, 'a) handler" where
  "validate_pagination limit offset k =
     (if \<not> (1 \<le> limit \<and> limit \<le> MAX_PAGE_LIMIT) then http 422 ''limit'' else if offset < 0 then http 422 ''offset'' else k)"

text \<open>
  The job is taken off the queue when it is still there; what \<open>fetch_job\<close> raises is not handled, what
  \<open>cancel\<close> raises is.
\<close>

definition cancel_rq :: "string \<Rightarrow> ('s, unit) access" where
  "cancel_rq job_id w = (let w1 = w\<lparr>rw_queue_fates := tl (rw_queue_fates w)\<rparr>;
       w2 = w1\<lparr>rw_queue_fates := tl (rw_queue_fates w1)\<rparr>;
       cancelled = w2\<lparr>rw_queue := filter (\<lambda>j. rq_id j \<noteq> job_id) (rw_queue w)\<rparr> in
     case rw_queue_fates w of
       RequestLost e # _ \<Rightarrow> (Inl e, w1)
     | ReplyLost e # _ \<Rightarrow> (Inl e, w1)
     | _ \<Rightarrow> if \<not> list_ex (\<lambda>j. rq_id j = job_id) (rw_queue w) then (Inr (), w1)
         else (case rw_queue_fates w1 of RequestLost _ # _ \<Rightarrow> (Inr (), w2) | _ \<Rightarrow> (Inr (), cancelled)))"

definition cancel_job :: "api \<Rightarrow> string \<Rightarrow> ('s, job_status) handler" where
  "cancel_job self job_id = validate_uuid job_id (resolve_tenant self (\<lambda>_. needs self [Postgres] (
     rbind (pg (\<lambda>db. case cancel_update job_id db of (row, db') \<Rightarrow> (Inr row, db'))) (\<lambda>row. case row of
       Some _ \<Rightarrow> rbind (if Job_Queue \<in> set (ap_services self) then cancel_rq job_id else rreturn ()) (\<lambda>_. rreturn (Inr CANCELLED))
     | None \<Rightarrow> rbind (pg (\<lambda>db. (Inr (job_row_of job_id db), db))) (\<lambda>found. case found of
         None \<Rightarrow> http 404 ''not found'' | Some _ \<Rightarrow> http 409 ''Job already in a terminal state'')))))"

record job_view =
  jo_status :: job_status
  jo_progress :: rat
  jo_results :: "(result_row \<times> diagnostics) list option"
  jo_error :: "string option"
  jo_partial_failure :: bool
  jo_queued_ms :: "int option"
  jo_runtime_ms :: "int option"

definition elapsed_ms :: "rat option \<Rightarrow> rat option \<Rightarrow> int option" where
  "elapsed_ms start finish = (case (start, finish) of (Some a, Some b) \<Rightarrow> Some (trunc_rat ((b - a) * 1000)) | _ \<Rightarrow> None)"

definition row_error :: "result_row \<Rightarrow> string list" where
  "row_error r = (if sr_success r then [] else case sr_error_message r of Some (c # cs) \<Rightarrow> [c # cs] | _ \<Rightarrow> [])"

definition view_job :: "job_row \<Rightarrow> nat \<Rightarrow> result_row list \<Rightarrow> job_view" where
  "view_job row completed results =
     (let errors = concat (map row_error results); total_urls = (if sj_urls row = [] then 1 else length (sj_urls row)) in
      \<lparr>jo_status = sj_status row,
       jo_progress = (if sj_status row \<in> set TERMINAL_STATUSES then 1 else min 1 (of_nat completed / of_nat total_urls)),
       jo_results = (if results = [] then None else Some (map (\<lambda>r. (r, split_timings_column (sr_timings r))) results)),
       jo_error = (if errors = [] then None else Some (join ''; '' errors)),
       jo_partial_failure = (errors \<noteq> [] \<and> list_ex sr_success results),
       jo_queued_ms = elapsed_ms (Some (sj_created row)) (sj_started row),
       jo_runtime_ms = elapsed_ms (sj_started row) (sj_finished row)\<rparr>)"

definition unknown_job :: job_view where
  "unknown_job = \<lparr>jo_status = PENDING, jo_progress = 0, jo_results = None, jo_error = None, jo_partial_failure = False,
     jo_queued_ms = None, jo_runtime_ms = None\<rparr>"

definition get_job :: "api \<Rightarrow> string \<Rightarrow> rat option \<Rightarrow> ('s, job_view) handler" where
  "get_job self job_id since = validate_uuid job_id (resolve_tenant self (\<lambda>_.
     if Postgres \<notin> set (ap_services self) then rreturn (Inr unknown_job)
     else rbind (pg (\<lambda>db. (Inr (job_row_of job_id db), db))) (\<lambda>found. case found of
       None \<Rightarrow> http 404 ''not found''
     | Some row \<Rightarrow>
       rbind (pg (\<lambda>db. (Inr (length (select_results job_id None db)), db))) (\<lambda>completed.
       rbind (pg (\<lambda>db. (Inr (select_results job_id since db), db))) (\<lambda>results.
         rreturn (Inr (view_job row completed results)))))))"

subsection \<open>Listings\<close>

fun job_status_value :: "job_status \<Rightarrow> string" where
  "job_status_value PENDING = ''PENDING''"
| "job_status_value PROCESSING = ''PROCESSING''"
| "job_status_value COMPLETED = ''COMPLETED''"
| "job_status_value FAILED = ''FAILED''"
| "job_status_value CANCELLED = ''CANCELLED''"
| "job_status_value DEAD_LETTER = ''DEAD_LETTER''"

definition job_status_of_value :: "string \<Rightarrow> job_status option" where
  "job_status_of_value s = find (\<lambda>x. job_status_value x = s) [PENDING, PROCESSING, COMPLETED, FAILED, CANCELLED, DEAD_LETTER]"

record job_summary =
  jy_job_id :: string
  jy_status :: job_status
  jy_url_count :: nat
  jy_created_at :: rat
  jy_updated_at :: rat

definition job_summary_of :: "job_row \<Rightarrow> job_summary" where
  "job_summary_of r = \<lparr>jy_job_id = sj_id r, jy_status = sj_status r, jy_url_count = length (sj_urls r),
     jy_created_at = sj_created r, jy_updated_at = sj_updated r\<rparr>"

definition select_page :: "job_status option \<Rightarrow> nat \<Rightarrow> nat \<Rightarrow> tenant_db \<Rightarrow> job_row list" where
  "select_page status limit offset db = take limit (drop offset (sort_key (\<lambda>r. - sj_created r)
     (filter (\<lambda>r. case status of None \<Rightarrow> True | Some s \<Rightarrow> sj_status r = s) (td_jobs db))))"

definition list_jobs :: "api \<Rightarrow> string option \<Rightarrow> int \<Rightarrow> int \<Rightarrow> ('s, job_summary list) handler" where
  "list_jobs self status limit offset = validate_pagination limit offset (
     let wanted = map_option job_status_of_value status in
     if wanted = Some None then http 422 ''Invalid status''
     else resolve_tenant self (\<lambda>_. if Postgres \<notin> set (ap_services self) then rreturn (Inr [])
       else rbind (pg (\<lambda>db. (Inr (select_page (Option.bind wanted id) (nat limit) (nat offset) db), db)))
         (\<lambda>rows. rreturn (Inr (map job_summary_of rows)))))"

record dead_letter_response =
  dr_job_id :: string
  dr_url :: string
  dr_failure_category :: failure_category
  dr_error_message :: string
  dr_level_attempted :: int
  dr_auto_retry_count :: int
  dr_enqueued_at :: rat
  dr_dead_at :: rat

definition dead_letter_view :: "dead_letter_entry \<Rightarrow> dead_letter_response" where
  "dead_letter_view e = \<lparr>dr_job_id = de_job_id e, dr_url = de_url e, dr_failure_category = de_category e,
     dr_error_message = de_error_message e, dr_level_attempted = de_level_attempted e,
     dr_auto_retry_count = de_auto_retry_count e, dr_enqueued_at = de_enqueued_at e, dr_dead_at = de_dead_at e\<rparr>"

definition get_job_dlq :: "api \<Rightarrow> string \<Rightarrow> ('s, dead_letter_response list) handler" where
  "get_job_dlq self job_id = validate_uuid job_id (resolve_tenant self (\<lambda>tenant.
     if Postgres \<notin> set (ap_services self) then rreturn (Inr [])
     else rbind (pg (\<lambda>db. (list_for_tenant tenant 100 0 (Some job_id) db, db))) (\<lambda>es. rreturn (Inr (map dead_letter_view es)))))"

definition list_dlq :: "api \<Rightarrow> int \<Rightarrow> int \<Rightarrow> ('s, dead_letter_response list) handler" where
  "list_dlq self limit offset = validate_pagination limit offset (resolve_tenant self (\<lambda>tenant.
     if Postgres \<notin> set (ap_services self) then rreturn (Inr [])
     else rbind (pg (\<lambda>db. (list_for_tenant tenant (nat limit) (nat offset) None db, db))) (\<lambda>es. rreturn (Inr (map dead_letter_view es)))))"

record quota_view =
  qv_tenant :: string
  qv_daily_limit :: int
  qv_used :: int
  qv_remaining :: int
  qv_resets_in_seconds :: int

definition get_quota :: "'s server \<Rightarrow> api \<Rightarrow> ('s, quota_view) handler" where
  "get_quota sv self = resolve_tenant self (\<lambda>tenant. needs self [Postgres, Redis] (
     rbind (pg (\<lambda>db. (Inr (daily_limit_of self tenant), db))) (\<lambda>daily_limit.
     rbind (on_redis sv (current_usage True (ap_today self) tenant)) (\<lambda>used.
     rbind (on_redis sv (quota_remaining True daily_limit (ap_today self) tenant)) (\<lambda>remaining.
       rreturn (Inr \<lparr>qv_tenant = tenant, qv_daily_limit = quota_limit daily_limit, qv_used = used, qv_remaining = remaining,
         qv_resets_in_seconds = seconds_until_quota_reset (ap_us_of_day self)\<rparr>))))))"

subsection \<open>A submission leaves no orphan\<close>

text \<open>Whether the next call on the queue pushes its job and raises all the same.\<close>

definition pushed_unheard :: "'s store_world \<Rightarrow> bool" where
  "pushed_unheard w \<longleftrightarrow> (case rw_queue_fates w of ReplyLost _ # _ \<Rightarrow> True | _ \<Rightarrow> False)"

definition consistent_submission ::
  "api \<Rightarrow> 's store_world \<Rightarrow> (http_error + submission) res \<times> 's store_world \<Rightarrow> bool" where
  "consistent_submission self w out \<longleftrightarrow> (case job_row_of (ap_job_id self) (rw_db (snd out)) of
     None \<Rightarrow> rw_queue (snd out) = rw_queue w \<and>
       (case fst out of Inr (Inr s) \<Rightarrow> job_row_of (su_job_id s) (rw_db (snd out)) \<noteq> None | _ \<Rightarrow> True)
   | Some row \<Rightarrow> (case fst out of
       Inr (Inr s) \<Rightarrow> su_job_id s = ap_job_id self \<and> sj_status row = PENDING \<and>
         map rq_id (rw_queue (snd out)) = map rq_id (rw_queue w) @ [ap_job_id self]
     | Inr (Inl (Http code _)) \<Rightarrow> code = 503 \<and> sj_status row = FAILED \<and>
         map rq_id (rw_queue (snd out)) = map rq_id (rw_queue w) @ (if pushed_unheard w then [ap_job_id self] else [])
     | Inl _ \<Rightarrow> False))"

lemma consistent_early:
  assumes "job_row_of (ap_job_id self) (rw_db w) = None" "rw_db (snd out) = rw_db w" "rw_queue (snd out) = rw_queue w"
    and "\<And>s. fst out = Inr (Inr s) \<Longrightarrow> job_row_of (su_job_id s) (rw_db w) \<noteq> None"
  shows "consistent_submission self w out"
  using assms by (auto simp: consistent_submission_def split: sum.split)

lemma consistent_http: "job_row_of (ap_job_id self) (rw_db w) = None \<Longrightarrow> consistent_submission self w (http c d w)"
  by (rule consistent_early) (simp_all add: http_def rreturn_def)

lemma consistent_raise: "job_row_of (ap_job_id self) (rw_db w) = None \<Longrightarrow> consistent_submission self w (throw e w)"
  by (rule consistent_early) (simp_all add: throw_def)

lemma consistent_needs:
  "job_row_of (ap_job_id self) (rw_db w) = None \<Longrightarrow> consistent_submission self w (k w) \<Longrightarrow>
   consistent_submission self w (needs self services k w)"
  by (simp add: needs_def consistent_http)

lemma job_row_of_inserted:
  "job_row_of j db = None \<Longrightarrow> job_row_of j (insert_job j urls c wh k db) =
     Some \<lparr>sj_id = j, sj_urls = urls, sj_config = c, sj_status = PENDING, sj_webhook = wh, sj_idempotency = k,
       sj_created = td_now db, sj_updated = td_now db, sj_started = None, sj_finished = None\<rparr>"
proof -
  have "find P rs = None \<Longrightarrow> find P (rs @ [r]) = (if P r then Some r else None)" for P and r :: job_row and rs
    by (induction rs) (auto split: if_splits)
  then show "job_row_of j db = None \<Longrightarrow> ?thesis" by (simp add: job_row_of_def insert_job_def)
qed

lemma consistent_enqueue:
  assumes "rw_pg w1 = []" "rw_queue w1 = rw_queue w" "rw_queue_fates w1 = rw_queue_fates w"
    and "job_row_of (ap_job_id self) (rw_db w1) = Some row" "sj_status row = PENDING"
    and "su_job_id s = ap_job_id self"
  shows "consistent_submission self w (enqueue_job tenant (ap_job_id self) t (rreturn (Inr s)) w1)"
proof (cases "enqueue_rq \<lparr>rq_id = ap_job_id self, rq_tenant = tenant, rq_timeout = t\<rparr> w1")
  case (Pair r w2)
  have w2: "rw_db w2 = rw_db w1" "rw_pg w2 = rw_pg w1" using enqueue_rq_frame [of _ w1] Pair by (metis snd_conv)+
  show ?thesis
  proof (cases r)
    case (Inr u)
    then have "rw_queue w2 = rw_queue w1 @ [\<lparr>rq_id = ap_job_id self, rq_tenant = tenant, rq_timeout = t\<rparr>]"
      using Pair by (auto simp: enqueue_rq_def Let_def split: list.splits fate.splits)
    with Inr Pair assms w2 show ?thesis by (simp add: enqueue_job_def rreturn_def consistent_submission_def)
  next
    case (Inl e)
    then have q: "map rq_id (rw_queue w2) = map rq_id (rw_queue w1) @ (if pushed_unheard w then [ap_job_id self] else [])"
      using Pair assms(3) by (auto simp: enqueue_rq_def pushed_unheard_def Let_def split: list.splits fate.splits)
    have "job_row_of (ap_job_id self) (enqueue_failed (ap_job_id self) (rw_db w1)) =
        Some (row\<lparr>sj_status := FAILED, sj_updated := td_now (rw_db w1)\<rparr>)"
    proof -
      have "sj_id row = ap_job_id self" using assms(4) by (auto simp: job_row_of_def find_Some_iff)
      then show ?thesis using assms(4) by (simp add: enqueue_failed_def job_row_of_update)
    qed
    with Inl Pair assms w2 q show ?thesis
      by (simp add: enqueue_job_def rbind_def pg_alone http_def rreturn_def consistent_submission_def)
  qed
qed

lemma consistent_charge:
  assumes "rw_pg w = []" "job_row_of (ap_job_id self) (rw_db w) = None"
    and "\<And>w1. rw_pg w1 = [] \<Longrightarrow> rw_queue w1 = rw_queue w \<Longrightarrow> rw_queue_fates w1 = rw_queue_fates w \<Longrightarrow>
      rw_db w1 = rw_db w \<Longrightarrow> consistent_submission self w (k w1)"
  shows "consistent_submission self w (charge_quota sv self tenant n k w)"
proof -
  let ?p = "check_and_increment True (daily_limit_of self tenant) (ap_today self) tenant (int n)"
  obtain r w1 where r: "on_redis sv ?p w = (r, w1)" by fastforce
  have w1: "rw_db w1 = rw_db w" "rw_pg w1 = rw_pg w" "rw_queue w1 = rw_queue w" "rw_queue_fates w1 = rw_queue_fates w"
    using on_redis_frame [of sv ?p w] r by simp_all
  have "consistent_submission self w (Inl e, w1)" "consistent_submission self w (http c d w1)" for e c d
    using assms(2) w1 by (auto intro!: consistent_early simp: http_def rreturn_def)
  with assms(3) [of w1] assms(1) w1 r show ?thesis
    by (auto simp: charge_quota_def rbind_def pg_alone split: sum.split exn.split)
qed

lemma consistent_repeat:
  assumes "rw_pg w = []" "job_row_of (ap_job_id self) (rw_db w) = None" "consistent_submission self w (k w)"
  shows "consistent_submission self w (repeat_of key n k w)"
proof (cases "key = None \<or> key = Some []")
  case True
  with assms(3) show ?thesis by (simp add: repeat_of_def)
next
  case False
  show ?thesis
  proof (cases "live_idempotent (the key) (rw_db w)")
    case None
    with False assms show ?thesis by (simp add: repeat_of_def rbind_def pg_alone)
  next
    case (Some r)
    have "r \<in> set (td_jobs (rw_db w))"
    proof -
      have "r \<in> set (sort_key (\<lambda>r. - sj_created r) (filter (\<lambda>r. sj_idempotency r = Some (the key)
          \<and> sj_status r \<notin> {FAILED, CANCELLED, DEAD_LETTER}) (td_jobs (rw_db w))))"
        using Some unfolding live_idempotent_def by (metis (no_types, lifting) list.case_eq_if list.set_sel(1) option.distinct(1) option.inject)
      then show ?thesis by simp
    qed
    then have "job_row_of (sj_id r) (rw_db w) \<noteq> None"
      by (auto simp: job_row_of_def find_None_iff)
    with False Some assms(1,2) show ?thesis
      by (intro consistent_early) (auto simp: repeat_of_def rbind_def pg_alone rreturn_def)
  qed
qed

lemma consistent_webhook:
  assumes "job_row_of (ap_job_id self) (rw_db w) = None" "consistent_submission self w (k w)"
  shows "consistent_submission self w (check_webhook self wh k w)"
  using assms by (auto simp: check_webhook_def consistent_http consistent_raise split: option.split sum.split exn.split)

lemma consistent_resolve:
  assumes "rw_pg w = []" "job_row_of (ap_job_id self) (rw_db w) = None" "\<And>t. consistent_submission self w (k t w)"
  shows "consistent_submission self w (resolve_tenant self k w)"
  unfolding resolve_tenant_def
proof (rule consistent_needs [OF assms(2)])
  have same: "w\<lparr>rw_db := snd (resolve self (rw_db w))\<rparr> = w" by (simp add: resolve_def)
  show "consistent_submission self w (case pg (resolve self) w of
      (Inl (AuthenticationError _), w') \<Rightarrow> http 401 ''Invalid API key'' w' | (Inl e, w') \<Rightarrow> (Inl e, w') | (Inr tenant, w') \<Rightarrow> k tenant w')"
    using assms consistent_raise [OF assms(2)]
    by (auto simp: pg_alone same consistent_http throw_def split: sum.split exn.split)
qed

lemma store_blocked_jobs:
  "rw_pg w = [] \<Longrightarrow> fst (store_blocked j f es w) = Inr () \<and> rw_pg (snd (store_blocked j f es w)) = [] \<and>
     rw_queue (snd (store_blocked j f es w)) = rw_queue w \<and> rw_queue_fates (snd (store_blocked j f es w)) = rw_queue_fates w \<and>
     td_jobs (rw_db (snd (store_blocked j f es w))) = td_jobs (rw_db w)"
proof (induction es arbitrary: w)
  case (Cons e es)
  let ?w = "w\<lparr>rw_db := insert_result j (blocked_result f e) None None (rw_db w)\<rparr>"
  from Cons.IH [of ?w] Cons.prems show ?case
    by (simp add: rbind_def pg_alone insert_result_def)
qed (simp add: rreturn_def)

lemma consistent_stored:
  assumes w1: "rw_pg w1 = []" "rw_queue w1 = rw_queue w" "rw_queue_fates w1 = rw_queue_fates w" "rw_db w1 = rw_db w" and new: "job_row_of (ap_job_id self) (rw_db w) = None"
    and s: "su_job_id s = ap_job_id self"
  shows "consistent_submission self w (rbind (pg (\<lambda>db. (Inr (), insert_job (ap_job_id self) us c webhook key db))) (\<lambda>_.
    rbind (store_blocked (ap_job_id self) show_exn es) (\<lambda>_. enqueue_job tenant (ap_job_id self) t (rreturn (Inr s)))) w1)"
proof -
  let ?j = "ap_job_id self"
  let ?w = "w1\<lparr>rw_db := insert_job ?j us c webhook key (rw_db w1)\<rparr>"
  obtain x w2 where st: "store_blocked ?j show_exn es ?w = (x, w2)" by fastforce
  have w2: "x = Inr ()" "rw_pg w2 = []" "rw_queue w2 = rw_queue w" "rw_queue_fates w2 = rw_queue_fates w" "td_jobs (rw_db w2) = td_jobs (insert_job ?j us c webhook key (rw_db w))"
    using store_blocked_jobs [of ?w ?j show_exn es] st w1 by simp_all
  then have "job_row_of ?j (rw_db w2) = job_row_of ?j (insert_job ?j us c webhook key (rw_db w))"
    by (simp add: job_row_of_def)
  then obtain row where "job_row_of ?j (rw_db w2) = Some row" "sj_status row = PENDING"
    using job_row_of_inserted [OF new, of us c webhook key] by simp
  then have "consistent_submission self w (enqueue_job tenant ?j t (rreturn (Inr s)) w2)"
    using w2 s by (intro consistent_enqueue [where row = row]) simp_all
  with w1(1) st w2(1) show ?thesis by (simp add: rbind_def pg_alone)
qed

lemma consistent_inserted:
  assumes w1: "rw_pg w1 = []" "rw_queue w1 = rw_queue w" "rw_queue_fates w1 = rw_queue_fates w" "rw_db w1 = rw_db w" and new: "job_row_of (ap_job_id self) (rw_db w) = None"
    and s: "su_job_id s = ap_job_id self"
  shows "consistent_submission self w (rbind (pg (\<lambda>db. (Inr (), insert_job (ap_job_id self) us c webhook key db))) (\<lambda>_.
    enqueue_job tenant (ap_job_id self) t (rreturn (Inr s))) w1)"
proof -
  obtain row where "job_row_of (ap_job_id self) (insert_job (ap_job_id self) us c webhook key (rw_db w)) = Some row" "sj_status row = PENDING"
    using job_row_of_inserted [OF new, of us c webhook key] by simp
  with w1 s have "consistent_submission self w (enqueue_job tenant (ap_job_id self) t (rreturn (Inr s))
      (w1\<lparr>rw_db := insert_job (ap_job_id self) us c webhook key (rw_db w)\<rparr>))"
    by (intro consistent_enqueue [where row = row]) simp_all
  with w1 show ?thesis by (simp add: rbind_def pg_alone)
qed

text \<open>
  \<^bold>\<open>C29\<close>: a submission never leaves a job that nobody will run. When every statement on the tables is
  answered and no other process comes between them, whatever Redis and the queue do, for scrapes and
  for crawls: either the job exists, is pending and on the queue and the caller gets its identifier; or
  it exists as failed and the caller gets a 503, and it is on the queue only if the call on the queue
  raised after its push; or it does not exist and nothing was queued, and an accepted answer then names
  a job that does exist.
\<close>

theorem submission_leaves_no_orphan:
  assumes "rw_pg w = []" and "job_row_of (ap_job_id self) (rw_db w) = None"
  shows "consistent_submission self w (submit_scrape sv self request webhook key w) \<and>
    consistent_submission self w (submit_crawl sv self show_exn spider urls webhook key w)"
proof
  show "consistent_submission self w (submit_scrape sv self request webhook key w)"
    unfolding submit_scrape_def
    using assms
    by (auto intro!: consistent_resolve consistent_needs consistent_http consistent_raise consistent_webhook consistent_repeat
        consistent_charge consistent_inserted split: sum.split)
  show "consistent_submission self w (submit_crawl sv self show_exn spider urls webhook key w)"
    unfolding submit_crawl_def
    using assms
    by (auto intro!: consistent_resolve consistent_needs consistent_http consistent_raise consistent_webhook consistent_repeat
        consistent_charge consistent_stored split: sum.split)
qed

end
