(* ===== verification/Job_Lifecycle.thy ===== *)
theory Job_Lifecycle
  imports Job_Routes
begin

text \<open>
  The life of a job outside the worker: the task \<open>run_scrape_job\<close> with the persistence of its results
  (\<^verbatim>\<open>src/src/scraper_engine/orchestrator/tasks.py\<close>), and the reaper of stuck jobs
  (\<^verbatim>\<open>src/src/scraper_engine/orchestrator/stuck_job_reaper.py\<close>).
\<close>

subsection \<open>Persisting a result\<close>

text \<open>
  \<open>_persist_one_result\<close>: a success clears the dead letter of its URL first; the page goes to the
  object store, whose answer (the snapshot's URL or an exception) is a parameter; then the row and
  the touch of the job. The hash of the content, a column derived from the page, is left out.
\<close>

definition persist_one_result ::
  "(fetch_result \<Rightarrow> string res) \<Rightarrow> bool \<Rightarrow> string \<Rightarrow> (string \<times> int) list option \<Rightarrow> fetch_result \<Rightarrow> ('s, fetch_result) access" where
  "persist_one_result snapshot has_dlq job_id timings result =
     rbind (if has_dlq \<and> fr_success result then pg (\<lambda>db. (Inr (), dlq_clear job_id (fr_url result) db)) else rreturn ()) (\<lambda>_.
     rbind (if truthy_str (fr_html result)
       then (\<lambda>w. case snapshot result of Inl e \<Rightarrow> (Inl e, w) | Inr u \<Rightarrow> (Inr (result\<lparr>fr_html_snapshot_url := Some u\<rparr>), w))
       else rreturn result) (\<lambda>stored.
     rbind (pg (\<lambda>db. (Inr (), insert_result job_id stored (fr_html_snapshot_url stored) timings db))) (\<lambda>_.
     rbind (pg (\<lambda>db. (Inr (), touch_job job_id db))) (\<lambda>_. rreturn stored))))"

primrec persist_results :: "(fetch_result \<Rightarrow> string res) \<Rightarrow> string \<Rightarrow> fetch_result list \<Rightarrow> ('s, unit) access" where
  "persist_results snapshot job_id [] = rreturn ()"
| "persist_results snapshot job_id (r # rs) =
     rbind (persist_one_result snapshot False job_id None r) (\<lambda>_. persist_results snapshot job_id rs)"

subsection \<open>Running a job\<close>

text \<open>
  The work itself (\<open>_run_scrape\<close> around \<open>Worker.process_job\<close>, and the spider of a crawl) and the dispatch
  of the webhook are parameters that may do anything to the process's surroundings and may raise.
\<close>

datatype event_type = JOB_COMPLETED | JOB_FAILED | JOB_PARTIAL_FAILURE | JOB_CANCELLED
  | PROXY_POOL_DEGRADED | PROXY_POOL_CRITICAL | PROXY_POOL_RECOVERED

definition job_webhook_event_type :: "job_status \<Rightarrow> bool \<Rightarrow> event_type" where
  "job_webhook_event_type status partial_failure =
     (if status = CANCELLED then JOB_CANCELLED
      else if status = COMPLETED then (if partial_failure then JOB_PARTIAL_FAILURE else JOB_COMPLETED)
      else JOB_FAILED)"

record 's job_parts =
  jp_scrape :: "scrape_request \<Rightarrow> 's store_world \<Rightarrow> job_status_response res \<times> 's store_world"
  jp_crawl :: "string \<Rightarrow> string list \<Rightarrow> 's store_world \<Rightarrow> fetch_result list res \<times> 's store_world"
  jp_snapshot :: "fetch_result \<Rightarrow> string res"
  jp_dispatch :: "string \<Rightarrow> event_type \<Rightarrow> job_status_response \<Rightarrow> 's store_world \<Rightarrow> unit res \<times> 's store_world"

definition notify :: "'s job_parts \<Rightarrow> string option \<Rightarrow> job_status_response \<Rightarrow> ('s, unit) access" where
  "notify parts webhook_url response =
     (if truthy_str webhook_url
      then jp_dispatch parts (or_str webhook_url []) (job_webhook_event_type (js_status response) (js_partial_failure response)) response
      else rreturn ())"

definition plain_response :: "string \<Rightarrow> job_status \<Rightarrow> fetch_result list \<Rightarrow> string option \<Rightarrow> job_status_response" where
  "plain_response job_id status results err = \<lparr>js_job_id = job_id, js_status = status,
     js_results = (if results = [] then None else Some results), js_error = err, js_partial_failure = False\<rparr>"

text \<open>\<open>ScrapeRequest(...)\<close> and \<open>ConfigOverrides(...)\<close> validate what was stored.\<close>

definition job_work :: "'s job_parts \<Rightarrow> job_row \<Rightarrow> ('s, job_status_response) access" where
  "job_work parts row = (case sj_config row of
     CrawlConfig spider urls \<Rightarrow> rbind (jp_crawl parts spider urls) (\<lambda>results.
       rbind (persist_results (jp_snapshot parts) (sj_id row) results) (\<lambda>_.
         rreturn (plain_response (sj_id row) COMPLETED results None)))
   | ScrapeConfig overrides \<Rightarrow>
       (if \<not> valid_overrides overrides then (\<lambda>w. (Inl ValueError, w))
        else case scrape_request_non_empty (sj_urls row) of Inl e \<Rightarrow> (\<lambda>w. (Inl e, w))
          | Inr urls \<Rightarrow> jp_scrape parts \<lparr>rq_urls = urls, rq_overrides = overrides\<rparr>))"

text \<open>The handler of \<open>except Exception\<close>: mark the job failed, tell the webhook if its URL is known, re-raise.\<close>

definition job_crashed :: "'s job_parts \<Rightarrow> string \<Rightarrow> string option \<Rightarrow> exn \<Rightarrow> ('s, 'a) access" where
  "job_crashed parts job_id webhook_url e =
     rbind (pg (\<lambda>db. (Inr (), finish_update job_id FAILED db))) (\<lambda>_.
     rbind (notify parts webhook_url (plain_response job_id FAILED [] (Some ''internal error''))) (\<lambda>_ w. (Inl e, w)))"

definition run_scrape_job :: "'s job_parts \<Rightarrow> string \<Rightarrow> ('s, unit) access" where
  "run_scrape_job parts job_id w =
     (case pg (\<lambda>db. (Inr (job_row_of job_id db), db)) w of
        (Inl e, w1) \<Rightarrow> job_crashed parts job_id None e w1
      | (Inr None, w1) \<Rightarrow> (Inr (), w1)
      | (Inr (Some row), w1) \<Rightarrow>
        if sj_status row = CANCELLED then (Inr (), w1)
        else rcatch
          (rbind (pg (\<lambda>db. (Inr (), start_update job_id db))) (\<lambda>_.
           rbind (job_work parts row) (\<lambda>response.
           rbind (pg (\<lambda>db. (Inr (), finish_update job_id (js_status response) db))) (\<lambda>_.
             notify parts (sj_webhook row) response))))
          (job_crashed parts job_id (sj_webhook row)) w1)"

subsection \<open>The reaper of stuck jobs\<close>

definition STALE_PROCESSING_GRACE_SECONDS :: rat where "STALE_PROCESSING_GRACE_SECONDS = 120"
definition STALE_PENDING_GRACE_SECONDS :: rat where "STALE_PENDING_GRACE_SECONDS = 300"
definition RQ_TERMINAL_STATUSES :: "string list" where
  "RQ_TERMINAL_STATUSES = [''failed'', ''finished'', ''stopped'', ''canceled'']"

text \<open>
  What the queue's own Redis keys say of a job, as rq writes them: the status in its hash, its place
  in the queue's list, its running executions, and the members of the three registries (bare
  identifiers, or with an execution's identifier behind a colon).
\<close>

record rq_view =
  rv_status :: "string \<Rightarrow> string option res"
  rv_queue :: "string list res"
  rv_executing :: "string \<Rightarrow> bool res"
  rv_registries :: "string list res list"

definition registered :: "string \<Rightarrow> string list \<Rightarrow> bool" where
  "registered job_id members \<longleftrightarrow> list_ex (\<lambda>m. m = job_id \<or> starts_with m (job_id @ '':'')) members"

primrec in_registries :: "string \<Rightarrow> string list res list \<Rightarrow> bool res" where
  "in_registries job_id [] = Inr False"
| "in_registries job_id (z # zs) = (case z of Inl e \<Rightarrow> Inl e
     | Inr members \<Rightarrow> if registered job_id members then Inr True else in_registries job_id zs)"

text \<open>Any error counts as reachable.\<close>

definition rq_job_is_reachable :: "rq_view \<Rightarrow> string \<Rightarrow> bool" where
  "rq_job_is_reachable v job_id =
     (case rv_queue v of Inl _ \<Rightarrow> True
      | Inr q \<Rightarrow> if job_id \<in> set q then True
        else case rv_executing v job_id of Inl _ \<Rightarrow> True
          | Inr x \<Rightarrow> if x then True
            else case in_registries job_id (rv_registries v) of Inl _ \<Rightarrow> True | Inr b \<Rightarrow> b)"

primrec reconcile_rows ::
  "(rat \<Rightarrow> rq_view) \<Rightarrow> 's job_parts \<Rightarrow> job_row list \<Rightarrow> nat \<times> nat \<Rightarrow> ('s, nat \<times> nat) access" where
  "reconcile_rows rq parts [] counts = rreturn counts"
| "reconcile_rows rq parts (row # rows) counts = (\<lambda>w.
     let v = rq (rw_now w) in
     case rv_status v (sj_id row) of
       Inl e \<Rightarrow> (Inl e, w)
     | Inr status \<Rightarrow>
       if (case status of None \<Rightarrow> False | Some s \<Rightarrow> s \<notin> set RQ_TERMINAL_STATUSES) \<and> rq_job_is_reachable v (sj_id row)
       then reconcile_rows rq parts rows (fst counts, snd counts + 1) w
       else rbind (pg (\<lambda>db. (Inr (), reconcile_update (sj_id row) db))) (\<lambda>_.
         rbind (rcatch (notify parts (sj_webhook row) (plain_response (sj_id row) FAILED [] (Some ''job exceeded its timeout'')))
           (\<lambda>_. rreturn ())) (\<lambda>_.
         reconcile_rows rq parts rows (fst counts + 1, snd counts))) w)"

definition reconcile_tenant :: "(rat \<Rightarrow> rq_view) \<Rightarrow> 's job_parts \<Rightarrow> ('s, nat \<times> nat) access" where
  "reconcile_tenant rq parts =
     rbind (pg (\<lambda>db. (Inr (stale_jobs STALE_PROCESSING_GRACE_SECONDS STALE_PENDING_GRACE_SECONDS db), db)))
       (\<lambda>rows. reconcile_rows rq parts rows (0, 0))"


end
