(* ===== verification/Gateway_Health.thy ===== *)
theory Gateway_Health
  imports Models
begin

text \<open>
  \<^verbatim>\<open>src/src/scraper_engine/proxy/gateway_health.py\<close>: the verdict, shared by all workers through
  one Redis key with a lifetime, that the paid gateway is refusing our credentials. The error
  text that goes into it is scrubbed of credentials; no method ever raises.
\<close>

subsection \<open>Programs that never raise\<close>

primrec never_raises :: "'a prog \<Rightarrow> bool" where
  "never_raises (Return a) = True"
| "never_raises (Raise e) = False"
| "never_raises (Cmd c k) = (\<forall>r. never_raises (k r))"
| "never_raises (Eval l k) = (\<forall>r. never_raises (k r))"

lemma never_raises_run: "never_raises p \<Longrightarrow> \<exists>a. fst (run sv p es s) = Inr a"
  by (induction p arbitrary: es s) (auto split: prod.splits)

lemma never_raises_catch:
  assumes "\<And>e. never_raises (h e)"
  shows "never_raises (catch p h)"
  using assms by (induction p) auto

text \<open>What a program may return, whatever the server answers.\<close>

primrec returns_only :: "('a \<Rightarrow> bool) \<Rightarrow> 'a prog \<Rightarrow> bool" where
  "returns_only Q (Return a) = Q a"
| "returns_only Q (Raise e) = True"
| "returns_only Q (Cmd c k) = (\<forall>r. returns_only Q (k r))"
| "returns_only Q (Eval l k) = (\<forall>r. returns_only Q (k r))"

lemma returns_only_run: "returns_only Q p \<Longrightarrow> fst (run sv p es s) = Inr a \<Longrightarrow> Q a"
proof (induction p arbitrary: es s)
  case (Cmd c k)
  then show ?case by (auto split: prod.splits) blast
next
  case (Eval l k)
  then show ?case by (auto split: prod.splits) blast
qed auto

lemma returns_only_catch: "returns_only Q p \<Longrightarrow> (\<And>e. returns_only Q (h e)) \<Longrightarrow> returns_only Q (catch p h)"
  by (induction p) auto

lemma returns_only_call: "(\<And>v. returns_only Q (k v)) \<Longrightarrow> returns_only Q (call c k)"
  by (auto simp: call_def split: sum.splits)

lemma returns_only_andthen: "(\<And>a. returns_only Q (f a)) \<Longrightarrow> returns_only Q (andthen p f)"
  by (induction p) auto

text \<open>One awaited command on the reference keyspace, no fault on the wire.\<close>

lemma run_bare_call [run_simps]:
  "run mem_server (call c k) [] K =
     (case client_view (fst (redis_exec c K)) of
        Inl e \<Rightarrow> (Inl e, snd (redis_exec c K)) | Inr v \<Rightarrow> run mem_server (k v) [] (snd (redis_exec c K)))"
  by (simp add: call_def transact_answered split: sum.splits)

lemma catch_call: "catch (call c k) h = Cmd c (\<lambda>r. case r of Inl e \<Rightarrow> h e | Inr v \<Rightarrow> catch (k v) h)"
  by (auto simp: call_def fun_eq_iff split: sum.splits)

lemma run_catch_call [run_simps]:
  "run mem_server (catch (call c k) h) [] K =
     (case client_view (fst (redis_exec c K)) of
        Inl e \<Rightarrow> run mem_server (h e) [] (snd (redis_exec c K))
      | Inr v \<Rightarrow> run mem_server (catch (k v) h) [] (snd (redis_exec c K)))"
  by (simp add: catch_call transact_answered split: sum.splits)

subsection \<open>The record\<close>

definition REFUSED_KEY :: string where
  "REFUSED_KEY = ''paid_gateway:refused''"

definition MAX_ERROR_CHARS :: nat where
  "MAX_ERROR_CHARS = 300"

record gateway_refusal =
  gw_since :: string
  gw_error :: string

text \<open>\<open>[^/@\s]\<close>, the characters of \<open>user:pass\<close> in a URL.\<close>

definition cred_char :: "char \<Rightarrow> bool" where
  "cred_char c \<longleftrightarrow> c \<noteq> CHR ''/'' \<and> c \<noteq> CHR ''@'' \<and> \<not> is_space c"

definition credentials_tag :: string where
  "credentials_tag = ''<credentials>''"

text \<open>\<open>_CREDENTIALS_IN_URL.sub("<credentials>@", error)\<close>, from left to right.\<close>

function scrub_urls :: "string \<Rightarrow> string" where
  "scrub_urls [] = []"
| "scrub_urls (c # cs) =
     (if starts_with (c # cs) ''://'' then
        let rest = drop 2 cs; cred = takeWhile cred_char rest; beyond = dropWhile cred_char rest
        in if cred \<noteq> [] \<and> beyond \<noteq> [] \<and> hd beyond = CHR ''@''
           then ''://'' @ credentials_tag @ ''@'' @ scrub_urls (tl beyond)
           else ''://'' @ scrub_urls rest
      else c # scrub_urls cs)"
  by pat_completeness auto

lemma length_scrub_rest: "length (dropWhile P (drop 2 cs)) - Suc 0 < Suc (length cs)"
proof -
  have "length (dropWhile P (drop 2 cs)) \<le> length (drop 2 cs)" by (rule length_dropWhile_le)
  then show ?thesis by simp
qed

termination scrub_urls
  by (relation "measure length") (auto simp: length_scrub_rest)

lemma scrub_urls_else: "\<not> starts_with (c # cs) ''://'' \<Longrightarrow> scrub_urls (c # cs) = c # scrub_urls cs"
  by (simp only: scrub_urls.simps if_False)

lemma scrub_urls_url: "scrub_urls (CHR '':'' # CHR ''/'' # CHR ''/'' # r) =
    (let cred = takeWhile cred_char r; beyond = dropWhile cred_char r
     in if cred \<noteq> [] \<and> beyond \<noteq> [] \<and> hd beyond = CHR ''@''
        then ''://'' @ credentials_tag @ ''@'' @ scrub_urls (tl beyond)
        else ''://'' @ scrub_urls r)"
  by (simp add: Let_def)

declare scrub_urls.simps(2) [simp del]

definition scrub :: "string \<Rightarrow> string" where
  "scrub error = take MAX_ERROR_CHARS (scrub_urls error)"

subsection \<open>Reading and writing the verdict\<close>

text \<open>\<open>json.loads\<close> of a stored text.\<close>

definition json_loads :: "rstr \<Rightarrow> json res" where
  "json_loads v = (case v of RJson j \<Rightarrow> Inr j | RInt i \<Rightarrow> Inr (JInt i) | RNum q \<Rightarrow> Inr (JNum q) | RText _ \<Rightarrow> Inl ValueError)"

text \<open>\<open>str(x)\<close> of a decoded value; \<open>other\<close> prints floats, lists and objects.\<close>

definition json_str :: "(json \<Rightarrow> string) \<Rightarrow> json \<Rightarrow> string" where
  "json_str other j = (case j of JStr s \<Rightarrow> s | JInt i \<Rightarrow> py_str_int i | JBool True \<Rightarrow> ''True''
     | JBool False \<Rightarrow> ''False'' | JNull \<Rightarrow> ''None'' | _ \<Rightarrow> other j)"

definition parse_refusal :: "(json \<Rightarrow> string) \<Rightarrow> rstr \<Rightarrow> gateway_refusal" where
  "parse_refusal other raw =
     (case json_loads raw of
        Inr (JObj fs) \<Rightarrow>
          (case (map_of fs ''since'', map_of fs ''error'') of
             (Some s, Some e) \<Rightarrow> \<lparr>gw_since = json_str other s, gw_error = json_str other e\<rparr>
           | _ \<Rightarrow> \<lparr>gw_since = ''unknown'', gw_error = ''unreadable refusal record''\<rparr>)
      | _ \<Rightarrow> \<lparr>gw_since = ''unknown'', gw_error = ''unreadable refusal record''\<rparr>)"

definition gateway_refusal_read :: "(json \<Rightarrow> string) \<Rightarrow> gateway_refusal option prog" where
  "gateway_refusal_read other =
     catch (call (GET REFUSED_KEY) (\<lambda>r. Return (case r of RBulk raw \<Rightarrow> Some (parse_refusal other raw) | _ \<Rightarrow> None)))
       (\<lambda>e. Return None)"

text \<open>\<open>now\<close> is the ISO text of the clock.\<close>

definition refusal_record :: "string \<Rightarrow> string \<Rightarrow> rstr" where
  "refusal_record now error = RJson (JObj [(''since'', JStr now), (''error'', JStr (scrub error))])"

definition mark_refused :: "int \<Rightarrow> string \<Rightarrow> string \<Rightarrow> unit prog" where
  "mark_refused ttl_seconds now error =
     catch (call (SET REFUSED_KEY (refusal_record now error) (Some (1000 * ttl_seconds)) True) (\<lambda>r. Return ()))
       (\<lambda>e. Return ())"

definition clear_refused :: "unit prog" where
  "clear_refused = catch (call (DEL REFUSED_KEY) (\<lambda>r. Return ())) (\<lambda>e. Return ())"

lemma gateway_health_never_raises:
  "never_raises (gateway_refusal_read other)" "never_raises (mark_refused ttl now error)"
  "never_raises clear_refused"
  unfolding gateway_refusal_read_def mark_refused_def clear_refused_def
  by (rule never_raises_catch, simp)+

subsection \<open>Nothing that looks like credentials is left\<close>

definition cred_free :: "string \<Rightarrow> bool" where
  "cred_free t \<longleftrightarrow> (\<forall>a u b. t = a @ ''://'' @ u @ ''@'' @ b \<longrightarrow> u \<noteq> [] \<longrightarrow> list_all cred_char u \<longrightarrow> u = credentials_tag)"

lemma takeWhile_cred:
  assumes "list_all cred_char u"
  shows "takeWhile cred_char (u @ CHR ''@'' # b) = u" "dropWhile cred_char (u @ CHR ''@'' # b) = CHR ''@'' # b"
  using assms by (induction u) (auto simp: cred_char_def)

lemma scrub_urls_head: "scrub_urls s = [] \<longleftrightarrow> s = []" "s \<noteq> [] \<Longrightarrow> hd (scrub_urls s) = hd s"
  by (cases s; auto simp: scrub_urls.simps(2) Let_def)+

text \<open>Up to the first slash nothing is replaced.\<close>

lemma scrub_urls_takeWhile:
  "takeWhile cred_char (scrub_urls s) = takeWhile cred_char s \<and>
   (dropWhile cred_char s = [] \<longleftrightarrow> dropWhile cred_char (scrub_urls s) = []) \<and>
   (dropWhile cred_char s \<noteq> [] \<longrightarrow> hd (dropWhile cred_char (scrub_urls s)) = hd (dropWhile cred_char s))"
proof (induction s)
  case (Cons c s)
  show ?case
  proof (cases "starts_with (c # s) ''://''")
    case True
    then obtain r where "c # s = ''://'' @ r" by (auto simp: starts_with_iff)
    then have "c = CHR '':''" "s = CHR ''/'' # CHR ''/'' # r" by simp_all
    then show ?thesis by (simp add: scrub_urls_url Let_def cred_char_def is_space_def)
  next
    case False
    show ?thesis unfolding scrub_urls_else [OF False] using Cons.IH by (cases "cred_char c") auto
  qed
qed simp

lemma cred_free_Cons:
  assumes "cred_free t"
    and "\<And>u b. c # t = ''://'' @ u @ ''@'' @ b \<Longrightarrow> u \<noteq> [] \<Longrightarrow> list_all cred_char u \<Longrightarrow> u = credentials_tag"
  shows "cred_free (c # t)"
  unfolding cred_free_def
proof (intro allI impI)
  fix a u b
  assume eq: "c # t = a @ ''://'' @ u @ ''@'' @ b" and u: "u \<noteq> []" "list_all cred_char u"
  show "u = credentials_tag"
  proof (cases a)
    case Nil
    with eq u assms(2) [of u b] show ?thesis by simp
  next
    case (Cons x a')
    with eq have "t = a' @ ''://'' @ u @ ''@'' @ b" by simp
    with assms(1) u show ?thesis unfolding cred_free_def by blast
  qed
qed

text \<open>A character that is no colon opens no URL.\<close>

lemma cred_free_not_colon: "cred_free t \<Longrightarrow> c \<noteq> CHR '':'' \<Longrightarrow> cred_free (c # t)"
  by (rule cred_free_Cons) simp_all

lemma cred_free_no_colons: "cred_free t \<Longrightarrow> CHR '':'' \<notin> set p \<Longrightarrow> cred_free (p @ t)"
  by (induction p) (auto intro: cred_free_not_colon)

lemma cred_free_scrub_urls: "cred_free (scrub_urls s)"
proof (induction s rule: scrub_urls.induct)
  case 1
  then show ?case by (simp add: cred_free_def)
next
  case (2 c cs)
  define rest where "rest = drop 2 cs"
  define cred where "cred = takeWhile cred_char rest"
  define beyond where "beyond = dropWhile cred_char rest"
  note split = rest_def cred_def beyond_def
  show ?case
  proof (cases "starts_with (c # cs) ''://''")
    case False
    have no: "False" if "c # scrub_urls cs = ''://'' @ u @ ''@'' @ b" for u b
    proof -
      from that have c: "c = CHR '':''" and s: "scrub_urls cs = ''//'' @ u @ ''@'' @ b" by simp_all
      then obtain cs' where cs: "cs = CHR ''/'' # cs'"
        using scrub_urls_head [of cs] by (cases cs) auto
      then have "scrub_urls cs' = ''/'' @ u @ ''@'' @ b" using s by (simp add: scrub_urls.simps(2))
      then obtain cs'' where "cs' = CHR ''/'' # cs''"
        using scrub_urls_head [of cs'] by (cases cs') auto
      with c cs False show False by simp
    qed
    then have "cred_free (c # scrub_urls cs)"
      using cred_free_Cons [of "scrub_urls cs" c] 2(3) [OF False] by blast
    then show ?thesis by (simp only: scrub_urls_else [OF False])
  next
    case True
    show ?thesis
    proof (cases "cred \<noteq> [] \<and> beyond \<noteq> [] \<and> hd beyond = CHR ''@''")
      case match: True
      then have eq: "scrub_urls (c # cs) = ''://'' @ credentials_tag @ ''@'' @ scrub_urls (tl beyond)"
        using True by (simp add: scrub_urls.simps(2) Let_def split)
      have ih: "cred_free (scrub_urls (tl beyond))"
        by (rule 2(1) [OF True rest_def cred_def beyond_def]) (use match in blast)
      then have tail: "cred_free (''//'' @ credentials_tag @ ''@'' @ scrub_urls (tl beyond))"
        using cred_free_no_colons [OF ih, of "''//'' @ credentials_tag @ ''@''"]
        by (simp add: credentials_tag_def)
      have "u = credentials_tag"
        if h: "CHR '':'' # ''//'' @ credentials_tag @ ''@'' @ scrub_urls (tl beyond) = ''://'' @ u @ ''@'' @ b"
          and u: "list_all cred_char u" for u b
      proof -
        have tag: "list_all cred_char credentials_tag"
          by (simp add: credentials_tag_def cred_char_def is_space_def)
        from h have "credentials_tag @ CHR ''@'' # scrub_urls (tl beyond) = u @ CHR ''@'' # b" by simp
        with takeWhile_cred(1) [OF tag] takeWhile_cred(1) [OF u] show ?thesis by metis
      qed
      with cred_free_Cons [OF tail, of "CHR '':''"] eq show ?thesis by (simp del: append_assoc)
    next
      case nomatch: False
      then have eq: "scrub_urls (c # cs) = ''://'' @ scrub_urls rest"
        using True by (auto simp: scrub_urls.simps(2) Let_def split)
      have ih: "cred_free (scrub_urls rest)"
        by (rule 2(2) [OF True rest_def cred_def beyond_def nomatch])
      have tail: "cred_free (''//'' @ scrub_urls rest)"
        using cred_free_no_colons [OF ih, of "''//''"] by simp
      have False
        if h: "CHR '':'' # ''//'' @ scrub_urls rest = ''://'' @ u @ ''@'' @ b"
          and u: "u \<noteq> []" "list_all cred_char u" for u b
      proof -
        from h have "scrub_urls rest = u @ CHR ''@'' # b" by simp
        with takeWhile_cred [OF u(2), of b] scrub_urls_takeWhile [of rest] nomatch u(1)
        show False by (auto simp: cred_def beyond_def)
      qed
      with cred_free_Cons [OF tail, of "CHR '':''"] eq show ?thesis by auto
    qed
  qed
qed

lemma cred_free_take: "cred_free t \<Longrightarrow> cred_free (take n t)"
  unfolding cred_free_def
  by (metis append.assoc append_take_drop_id)

text \<open>
  Whatever error text a refused login produced, what is stored for the health endpoint is at
  most 300 characters long and holds no user name and password in front of a host: between any
  \<open>://\<close> and a later \<open>@\<close> that only credential characters separate stands the placeholder.
\<close>

theorem gateway_error_scrubbed:
  "length (scrub error) \<le> 300 \<and>
   (\<forall>a u b. scrub error = a @ ''://'' @ u @ ''@'' @ b \<longrightarrow> u \<noteq> [] \<longrightarrow> list_all cred_char u \<longrightarrow> u = credentials_tag)"
  using cred_free_take [OF cred_free_scrub_urls, of 300 error] unfolding cred_free_def
  by (auto simp: scrub_def MAX_ERROR_CHARS_def)

theorem gateway_error_scrubbed_witness:
  "scrub ''GET http://bob:pw@gw:823 failed'' = ''GET http://<credentials>@gw:823 failed'' \<and>
   (\<exists>a u b. ''GET http://<credentials>@gw:823 failed'' = a @ ''://'' @ u @ ''@'' @ b \<and> u = credentials_tag)"
proof -
  have s: "scrub ''GET http://bob:pw@gw:823 failed'' = ''GET http://<credentials>@gw:823 failed''"
    by code_simp
  have e: "''GET http://<credentials>@gw:823 failed'' = ''GET http'' @ ''://'' @ ''<credentials>'' @ ''@'' @ ''gw:823 failed''"
    by simp
  have c: "list_all cred_char ''<credentials>''"
    by (simp add: cred_char_def is_space_def)
  have "scrub ''GET http://bob:pw@gw:823 failed'' = ''GET http'' @ ''://'' @ ''<credentials>'' @ ''@'' @ ''gw:823 failed''"
    using s e by (rule trans)
  then have "''<credentials>'' = credentials_tag"
    by (rule gateway_error_scrubbed [THEN conjunct2, rule_format]) (simp, rule c)
  with s e show ?thesis by metis
qed

subsection \<open>The life of a verdict\<close>

text \<open>
  The first refusal is the one that is kept: a later one neither moves its time nor its expiry,
  so the gateway is tested again one lifetime after the first refusal, however often it refused
  in between.
\<close>

lemma mark_refused_first:
  assumes "str_at K REFUSED_KEY = Some None" "live K REFUSED_KEY = None" "0 < ttl"
  shows "run mem_server (mark_refused ttl now error) [] K =
     (Inr (), put_str REFUSED_KEY (refusal_record now error) (Some (ks_now K + 1000 * ttl)) K)"
  using assms by (simp add: mark_refused_def run_simps del: redis_exec.simps) (simp add: run_simps)

lemma mark_refused_again:
  assumes "live K REFUSED_KEY = Some v" "0 < ttl"
  shows "run mem_server (mark_refused ttl now error) [] K = (Inr (), K)"
  using assms by (simp add: mark_refused_def run_simps)

end
