(* ===== verification/Webhook_Delivery.thy ===== *)
theory Webhook_Delivery
  imports Job_Lifecycle Pool_Health Gateway_Health
begin

text \<open>
  Notifications: the events and their rendering for a target
  (\<^verbatim>\<open>src/src/scraper_engine/orchestrator/webhook_events.py\<close>, \<^verbatim>\<open>orchestrator/slack_formatter.py\<close>), the
  delivery of one payload with its retries (\<^verbatim>\<open>orchestrator/webhook.py\<close>), and the events of a job
  (\<^verbatim>\<open>orchestrator/tasks.py\<close>) and of the proxy pool (\<^verbatim>\<open>proxy/harvester_daemon.py\<close>). The answers of a
  target are a function of the attempt; strings are the bytes of their UTF-8 text.
\<close>

subsection \<open>Events\<close>

fun event_type_value :: "event_type \<Rightarrow> string" where
  "event_type_value JOB_COMPLETED = ''job.completed''"
| "event_type_value JOB_FAILED = ''job.failed''"
| "event_type_value JOB_PARTIAL_FAILURE = ''job.partial_failure''"
| "event_type_value JOB_CANCELLED = ''job.cancelled''"
| "event_type_value PROXY_POOL_DEGRADED = ''proxy_pool.degraded''"
| "event_type_value PROXY_POOL_CRITICAL = ''proxy_pool.critical''"
| "event_type_value PROXY_POOL_RECOVERED = ''proxy_pool.recovered''"

definition event_types :: "event_type list" where
  "event_types = [JOB_COMPLETED, JOB_FAILED, JOB_PARTIAL_FAILURE, JOB_CANCELLED,
     PROXY_POOL_DEGRADED, PROXY_POOL_CRITICAL, PROXY_POOL_RECOVERED]"

text \<open>\<open>WebhookEventType(v)\<close> raises on a value no member has.\<close>

definition event_type_of_value :: "string \<Rightarrow> event_type res" where
  "event_type_of_value v = (case List.find (\<lambda>t. event_type_value t = v) event_types of
     Some t \<Rightarrow> Inr t | None \<Rightarrow> Inl ValueError)"

record webhook_event =
  we_type :: event_type
  we_tenant :: string
  we_job :: "string option"
  we_payload :: "(string \<times> json) list"
  we_created :: rat

lemma event_type_roundtrip [simp]: "event_type_of_value (event_type_value t) = Inr t"
  by (cases t) (simp_all add: event_type_of_value_def event_types_def)

subsection \<open>Rendering\<close>

fun SEVERITY_EMOJI :: "event_type \<Rightarrow> string" where
  "SEVERITY_EMOJI JOB_COMPLETED = '':white_check_mark:''"
| "SEVERITY_EMOJI JOB_FAILED = '':x:''"
| "SEVERITY_EMOJI JOB_PARTIAL_FAILURE = '':warning:''"
| "SEVERITY_EMOJI JOB_CANCELLED = '':no_entry_sign:''"
| "SEVERITY_EMOJI PROXY_POOL_DEGRADED = '':warning:''"
| "SEVERITY_EMOJI PROXY_POOL_CRITICAL = '':rotating_light:''"
| "SEVERITY_EMOJI PROXY_POOL_RECOVERED = '':white_check_mark:''"

definition is_slack_target :: "string \<Rightarrow> bool" where
  "is_slack_target url \<longleftrightarrow> contains url ''hooks.slack.com''"

text \<open>Truth of a decoded JSON value, and \<open>payload.get(key) or default\<close> in a formatted string.\<close>

fun json_truthy :: "json \<Rightarrow> bool" where
  "json_truthy JNull = False"
| "json_truthy (JBool b) = b"
| "json_truthy (JInt i) = (i \<noteq> 0)"
| "json_truthy (JNum q) = (q \<noteq> 0)"
| "json_truthy (JStr s) = (s \<noteq> [])"
| "json_truthy (JList xs) = (xs \<noteq> [])"
| "json_truthy (JObj fs) = (fs \<noteq> [])"

definition payload_get :: "(string \<times> json) list \<Rightarrow> string \<Rightarrow> json" where
  "payload_get payload k = (case map_of payload k of Some j \<Rightarrow> j | None \<Rightarrow> JNull)"

definition payload_or :: "(string \<times> json) list \<Rightarrow> string \<Rightarrow> string \<Rightarrow> json" where
  "payload_or payload k d = (let j = payload_get payload k in if json_truthy j then j else JStr d)"

text \<open>
  How the standard library prints what the formatter interpolates: floats, lists and objects, and
  the two texts of an instant (\<open>isoformat\<close> and pydantic's). A job identifier that is None prints as None.
\<close>

record printers =
  pr_json :: "json \<Rightarrow> string"
  pr_isoformat :: "rat \<Rightarrow> string"
  pr_dumped :: "rat \<Rightarrow> string"

definition em_dash :: string where "em_dash = [CHR 0xE2, CHR 0x80, CHR 0x94]"
definition middle_dot :: string where "middle_dot = [CHR 0xC2, CHR 0xB7]"

definition summary_line :: "printers \<Rightarrow> webhook_event \<Rightarrow> string" where
  "summary_line pr event =
     (let emoji = SEVERITY_EMOJI (we_type event); payload = we_payload event;
          str = json_str (pr_json pr);
          job = (case we_job event of Some j \<Rightarrow> j | None \<Rightarrow> ''None'');
          detail = ''job `'' @ job @ ''` for tenant `'' @ we_tenant event @ ''`'' in
      if we_type event \<in> {JOB_COMPLETED, JOB_FAILED, JOB_PARTIAL_FAILURE, JOB_CANCELLED} then
        if we_type event = JOB_PARTIAL_FAILURE then
          emoji @ '' Scrape '' @ detail @ '' completed with partial failures: '' @ str (payload_or payload ''error'' ''one or more URLs failed'')
        else if we_type event = JOB_FAILED then
          emoji @ '' Scrape '' @ detail @ '' failed: '' @ str (payload_or payload ''error'' ''unknown error'')
        else if we_type event = JOB_CANCELLED then emoji @ '' Scrape '' @ detail @ '' was cancelled''
        else emoji @ '' Scrape '' @ detail @ '' completed successfully''
      else
        let tier = str (payload_get payload ''tier''); n = str (payload_get payload ''validated_count'') in
        if we_type event = PROXY_POOL_RECOVERED then
          emoji @ '' Proxy pool tier '' @ tier @ '' recovered '' @ em_dash @ '' '' @ n @ '' validated proxies''
        else emoji @ '' Proxy pool tier '' @ tier @ '' is '' @
          (if we_type event = PROXY_POOL_CRITICAL then ''CRITICAL'' else ''DEGRADED'') @ '' '' @ em_dash @ '' only '' @ n @ '' validated proxies'')"

definition to_slack_payload :: "printers \<Rightarrow> webhook_event \<Rightarrow> (string \<times> json) list" where
  "to_slack_payload pr event =
     (let line = summary_line pr event in
      [(''text'', JStr line),
       (''blocks'', JList
         [JObj [(''type'', JStr ''section''), (''text'', JObj [(''type'', JStr ''mrkdwn''), (''text'', JStr line)])],
          JObj [(''type'', JStr ''context''), (''elements'', JList [JObj [(''type'', JStr ''mrkdwn''),
            (''text'', JStr (''event: `'' @ event_type_value (we_type event) @ ''` '' @ middle_dot @ '' '' @ pr_isoformat pr (we_created event)))]])]])])"

definition dump_event :: "printers \<Rightarrow> webhook_event \<Rightarrow> (string \<times> json) list" where
  "dump_event pr event =
     [(''event_type'', JStr (event_type_value (we_type event))), (''tenant_id'', JStr (we_tenant event)),
      (''job_id'', (case we_job event of Some j \<Rightarrow> JStr j | None \<Rightarrow> JNull)), (''payload'', JObj (we_payload event)),
      (''created_at'', JStr (pr_dumped pr (we_created event)))]"

definition render_for_target :: "printers \<Rightarrow> webhook_event \<Rightarrow> string \<Rightarrow> (string \<times> json) list" where
  "render_for_target pr event target_url =
     (if is_slack_target target_url then to_slack_payload pr event else dump_event pr event)"

text \<open>
  A target other than Slack receives the event, not the job's response that earlier versions sent:
  the response's own fields are one level down, and \<open>status\<close> and \<open>results\<close> are not where they were.
\<close>

lemma raw_target_shape:
  assumes "\<not> is_slack_target url"
  shows "map fst (render_for_target pr event url) = [''event_type'', ''tenant_id'', ''job_id'', ''payload'', ''created_at'']"
  using assms by (simp add: render_for_target_def dump_event_def)

subsection \<open>One delivery with its retries\<close>

record webhook_config =
  wc_max_retries :: int
  wc_timeout_seconds :: int
  wc_backoff_base_seconds :: rat
  wc_ops_webhook_url :: "string option"

definition webhook_defaults :: webhook_config where
  "webhook_defaults = \<lparr>wc_max_retries = 3, wc_timeout_seconds = 10, wc_backoff_base_seconds = 2, wc_ops_webhook_url = None\<rparr>"

text \<open>What becomes of a POST: a status, an \<open>httpx.HTTPError\<close>, or an exception of another kind.\<close>

datatype post_answer = Responded int | HttpError | PostRaised exn

datatype delivery_act = Post nat | Sleep rat

definition accepts :: "post_answer \<Rightarrow> bool" where
  "accepts a = (case a of Responded code \<Rightarrow> 200 \<le> code \<and> code < 300 | _ \<Rightarrow> False)"

text \<open>The loop of \<open>WebhookDispatcher.deliver\<close>: its \<open>continue\<close> goes past the pause.\<close>

primrec deliver_attempts :: "rat \<Rightarrow> int \<Rightarrow> (nat \<Rightarrow> post_answer) \<Rightarrow> nat list \<Rightarrow> bool res \<times> delivery_act list" where
  "deliver_attempts base retries target [] = (Inr False, [])"
| "deliver_attempts base retries target (attempt # rest) =
     (let (later, acts) = deliver_attempts base retries target rest in
      case target attempt of
        PostRaised e \<Rightarrow> (Inl e, [Post attempt])
      | HttpError \<Rightarrow> (later, Post attempt # acts)
      | Responded code \<Rightarrow>
          if 200 \<le> code \<and> code < 300 then (Inr True, [Post attempt])
          else (later, Post attempt # (if int attempt < retries - 1 then [Sleep (base ^ attempt)] else []) @ acts))"

definition deliver :: "webhook_config \<Rightarrow> (nat \<Rightarrow> post_answer) \<Rightarrow> int option \<Rightarrow> bool res \<times> delivery_act list" where
  "deliver cfg target retries_arg =
     (let retries = (case retries_arg of Some r \<Rightarrow> if r \<noteq> 0 then r else wc_max_retries cfg | None \<Rightarrow> wc_max_retries cfg) in
      deliver_attempts (wc_backoff_base_seconds cfg) retries target [0..<nat retries])"

definition posts_of :: "delivery_act list \<Rightarrow> nat" where
  "posts_of acts = length (filter (\<lambda>a. case a of Post _ \<Rightarrow> True | Sleep _ \<Rightarrow> False) acts)"

lemma deliver_attempts_true:
  "fst (deliver_attempts base retries target ks) = Inr True \<Longrightarrow> \<exists>k\<in>set ks. accepts (target k)"
  by (induction ks) (auto simp: accepts_def Let_def case_prod_beta' split: post_answer.splits if_splits)

lemma deliver_attempts_accepts:
  "\<lbrakk>k \<in> set ks; accepts (target k); \<forall>j\<in>set ks. \<forall>e. target j \<noteq> PostRaised e\<rbrakk>
     \<Longrightarrow> fst (deliver_attempts base retries target ks) = Inr True"
  by (induction ks) (auto simp: accepts_def Let_def case_prod_beta' split: post_answer.splits if_splits)

lemma deliver_attempts_posts:
  "posts_of (snd (deliver_attempts base retries target ks)) \<le> length ks"
  by (induction ks) (auto simp: posts_of_def Let_def case_prod_beta' split: post_answer.splits if_splits)

lemma deliver_attempts_returns:
  "\<forall>j\<in>set ks. \<forall>e. target j \<noteq> PostRaised e \<Longrightarrow> \<exists>b. fst (deliver_attempts base retries target ks) = Inr b"
  by (induction ks) (auto simp: Let_def case_prod_beta' split: post_answer.splits)

text \<open>With a target that only answers or refuses connections, delivery says exactly whether it accepted.\<close>

lemma deliver_reports_acceptance:
  assumes "\<And>k e. target k \<noteq> PostRaised e" "0 < wc_max_retries cfg"
  shows "fst (deliver cfg target None) = Inr (\<exists>k < nat (wc_max_retries cfg). accepts (target k))"
proof -
  let ?ks = "[0..<nat (wc_max_retries cfg)]"
  have ex: "(\<exists>k\<in>set ?ks. accepts (target k)) = (\<exists>k < nat (wc_max_retries cfg). accepts (target k))"
    by auto
  have "fst (deliver cfg target None) = fst (deliver_attempts (wc_backoff_base_seconds cfg) (wc_max_retries cfg) target ?ks)"
    by (simp add: deliver_def Let_def)
  moreover obtain b where b: "fst (deliver_attempts (wc_backoff_base_seconds cfg) (wc_max_retries cfg) target ?ks) = Inr b"
    using deliver_attempts_returns assms(1) by metis
  moreover have "b = (\<exists>k\<in>set ?ks. accepts (target k))"
  proof (cases b)
    case True
    then show ?thesis using deliver_attempts_true b by metis
  next
    case False
    then show ?thesis using deliver_attempts_accepts b assms(1) by (metis Inr_inject)
  qed
  ultimately show ?thesis using ex by simp
qed

lemma deliver_posts_bounded: "posts_of (snd (deliver cfg target None)) \<le> nat (wc_max_retries cfg)"
  using deliver_attempts_posts [of "wc_backoff_base_seconds cfg" "wc_max_retries cfg" target "[0..<nat (wc_max_retries cfg)]"]
  by (simp add: deliver_def Let_def)

text \<open>A target that refuses connections is tried again without any pause between the attempts.\<close>

lemma refused_connection_no_backoff:
  "snd (deliver webhook_defaults (\<lambda>_. HttpError) None) = [Post 0, Post 1, Post 2]"
  by (simp add: deliver_def webhook_defaults_def upt_rec numeral_2_eq_2 numeral_3_eq_3)

subsection \<open>The events of a job and of the proxy pool\<close>

text \<open>\<open>model_dump\<close> of a job's response is a parameter.\<close>

definition job_event :: "(job_status_response \<Rightarrow> (string \<times> json) list) \<Rightarrow> rat \<Rightarrow> string \<Rightarrow> job_status_response \<Rightarrow> webhook_event" where
  "job_event dump now tenant response =
     \<lparr>we_type = job_webhook_event_type (js_status response) (js_partial_failure response), we_tenant = tenant,
      we_job = Some (js_job_id response), we_payload = dump response, we_created = now\<rparr>"

fun TRANSITION_EVENT_TYPE :: "pool_health_state \<Rightarrow> string" where
  "TRANSITION_EVENT_TYPE CRITICAL = ''proxy_pool.critical''"
| "TRANSITION_EVENT_TYPE DEGRADED = ''proxy_pool.degraded''"
| "TRANSITION_EVENT_TYPE HEALTHY = ''proxy_pool.recovered''"

definition pool_event :: "rat \<Rightarrow> pool_transition \<Rightarrow> webhook_event res" where
  "pool_event now t = (case event_type_of_value (TRANSITION_EVENT_TYPE (pt_new t)) of
     Inl e \<Rightarrow> Inl e
   | Inr ty \<Rightarrow> Inr \<lparr>we_type = ty, we_tenant = ''system'', we_job = None,
       we_payload = [(''tier'', JInt (pt_tier t)), (''old_state'', JStr (pool_state_value (pt_old t))),
         (''new_state'', JStr (pool_state_value (pt_new t))), (''validated_count'', JInt (pt_count t))], we_created = now\<rparr>)"

lemma pool_event_total: "\<exists>ev. pool_event now t = Inr ev"
  by (cases "pt_new t") (simp_all add: pool_event_def event_type_of_value_def event_types_def)

end
