(* ===== verification/Webhook_Outbox.thy ===== *)
theory Webhook_Outbox
  imports Webhook_Delivery
begin

text \<open>
  The outbox of notifications: its table (\<^verbatim>\<open>src/src/scraper_engine/storage/webhook_outbox.py\<close>), the
  delivery a job makes itself (\<^verbatim>\<open>orchestrator/webhook_dispatch.py\<close>), the sweeper that delivers what is
  left (\<^verbatim>\<open>orchestrator/webhook_sweeper.py\<close>), and the notifications of the proxy pool
  (\<^verbatim>\<open>proxy/harvester_daemon.py\<close>). A delivery is a small machine of three phases, so that the
  deliveries of several processes can be interleaved; run to its end it is the code's function.
\<close>

subsection \<open>The table\<close>

datatype outbox_status = OUTBOX_PENDING | OUTBOX_DELIVERED | OUTBOX_DEAD

record outbox_row =
  ob_id :: string
  ob_job :: "string option"
  ob_event :: string
  ob_payload :: "(string \<times> json) list"
  ob_target :: string
  ob_status :: outbox_status
  ob_attempts :: int
  ob_next :: rat
  ob_created :: rat
  ob_delivered :: "rat option"

text \<open>The identifier of a new row is a fresh UUID, an argument.\<close>

definition outbox_enqueue :: "string \<Rightarrow> webhook_event \<Rightarrow> string \<Rightarrow> rat \<Rightarrow> outbox_row list \<Rightarrow> outbox_row list" where
  "outbox_enqueue ident event target_url now rows = rows @
     [\<lparr>ob_id = ident, ob_job = we_job event, ob_event = event_type_value (we_type event), ob_payload = we_payload event,
       ob_target = target_url, ob_status = OUTBOX_PENDING, ob_attempts = 0, ob_next = now, ob_created = now, ob_delivered = None\<rparr>]"

definition update_outbox :: "string \<Rightarrow> (outbox_row \<Rightarrow> outbox_row) \<Rightarrow> outbox_row list \<Rightarrow> outbox_row list" where
  "update_outbox entry_id f rows = map (\<lambda>r. if ob_id r = entry_id then f r else r) rows"

definition mark_delivered :: "string \<Rightarrow> rat \<Rightarrow> outbox_row list \<Rightarrow> outbox_row list" where
  "mark_delivered entry_id now = update_outbox entry_id (\<lambda>r.
     r\<lparr>ob_status := OUTBOX_DELIVERED, ob_delivered := Some now, ob_attempts := ob_attempts r + 1\<rparr>)"

definition mark_attempt_failed :: "string \<Rightarrow> rat \<Rightarrow> int \<Rightarrow> outbox_row list \<Rightarrow> outbox_row list" where
  "mark_attempt_failed entry_id next_attempt_at attempt_cap = update_outbox entry_id (\<lambda>r.
     r\<lparr>ob_attempts := ob_attempts r + 1, ob_next := next_attempt_at,
       ob_status := (if ob_attempts r + 1 \<ge> attempt_cap then OUTBOX_DEAD else OUTBOX_PENDING)\<rparr>)"

definition due :: "rat \<Rightarrow> outbox_row \<Rightarrow> bool" where
  "due now r \<longleftrightarrow> ob_status r = OUTBOX_PENDING \<and> ob_next r \<le> now"

definition list_pending :: "nat \<Rightarrow> rat \<Rightarrow> outbox_row list \<Rightarrow> outbox_row list" where
  "list_pending limit now rows = take limit (sort_key ob_next (filter (due now) rows))"

subsection \<open>A delivery, phase by phase\<close>

text \<open>
  A delivery a process has under way: the immediate one of the dispatcher, which posts, records the
  answer and, when anything raised, records a failure; and one of the sweeper, which works on the
  entry it has listed.
\<close>

datatype delivery = InlinePost string | InlineSettle string bool | InlineRecover string
  | SweepPost outbox_row | SweepSettle outbox_row bool

datatype delivery_outcome = DELIVERED | RETRYING | DEAD

datatype progress = Ends "delivery_outcome option res" | Goes delivery

text \<open>What happens around one phase: the target, the statement to Postgres, the counter in Redis.\<close>

record incident =
  in_target :: "nat \<Rightarrow> post_answer"
  in_store :: fate
  in_count :: "exn option"

definition at_store :: "fate \<Rightarrow> (outbox_row list \<Rightarrow> outbox_row list) \<Rightarrow> outbox_row list \<Rightarrow> exn option \<times> outbox_row list" where
  "at_store f stmt rows = (case f of Answered \<Rightarrow> (None, stmt rows) | RequestLost e \<Rightarrow> (Some e, rows) | ReplyLost e \<Rightarrow> (Some e, stmt rows))"

definition MAX_BACKOFF_SECONDS :: rat where "MAX_BACKOFF_SECONDS = 3600"
definition SWEEP_INTERVAL_SECONDS :: rat where "SWEEP_INTERVAL_SECONDS = 30"
definition SWEEP_BATCH_PER_TENANT :: nat where "SWEEP_BATCH_PER_TENANT = 50"

definition backoff_seconds :: "int \<Rightarrow> rat \<Rightarrow> rat" where
  "backoff_seconds attempts base = min (base * 2 ^ nat attempts) MAX_BACKOFF_SECONDS"

text \<open>\<open>_record_failure\<close>: the row, then the counter; \<open>Some e\<close> when one of them raised.\<close>

definition record_failure :: "incident \<Rightarrow> string \<Rightarrow> rat \<Rightarrow> int \<Rightarrow> outbox_row list \<Rightarrow> exn option \<times> outbox_row list" where
  "record_failure inc entry_id next_attempt_at attempt_cap rows =
     (case at_store (in_store inc) (mark_attempt_failed entry_id next_attempt_at attempt_cap) rows of
        (Some e, rows') \<Rightarrow> (Some e, rows') | (None, rows') \<Rightarrow> (in_count inc, rows'))"

fun delivery_step :: "webhook_config \<Rightarrow> rat \<Rightarrow> incident \<Rightarrow> delivery \<Rightarrow> outbox_row list \<Rightarrow> progress \<times> outbox_row list" where
  "delivery_step cfg now inc (InlinePost i) rows =
     (case fst (deliver cfg (in_target inc) None) of
        Inr answered \<Rightarrow> (Goes (InlineSettle i answered), rows) | Inl _ \<Rightarrow> (Goes (InlineRecover i), rows))"
| "delivery_step cfg now inc (InlineSettle i answered) rows =
     (case (if answered then at_store (in_store inc) (mark_delivered i now) rows
            else record_failure inc i (now + wc_backoff_base_seconds cfg) (wc_max_retries cfg) rows) of
        (None, rows') \<Rightarrow> (Ends (Inr None), rows') | (Some _, rows') \<Rightarrow> (Goes (InlineRecover i), rows'))"
| "delivery_step cfg now inc (InlineRecover i) rows =
     (case record_failure inc i (now + wc_backoff_base_seconds cfg) (wc_max_retries cfg) rows of
        (None, rows') \<Rightarrow> (Ends (Inr None), rows') | (Some e, rows') \<Rightarrow> (Ends (Inl e), rows'))"
| "delivery_step cfg now inc (SweepPost entry) rows =
     (case event_type_of_value (ob_event entry) of
        Inl e \<Rightarrow> (Ends (Inl e), rows)
      | Inr _ \<Rightarrow> (case fst (deliver cfg (in_target inc) None) of
          Inr answered \<Rightarrow> (Goes (SweepSettle entry answered), rows) | Inl _ \<Rightarrow> (Goes (SweepSettle entry False), rows)))"
| "delivery_step cfg now inc (SweepSettle entry answered) rows =
     (case (if answered then at_store (in_store inc) (mark_delivered (ob_id entry) now) rows
            else record_failure inc (ob_id entry) (now + backoff_seconds (ob_attempts entry) (wc_backoff_base_seconds cfg)) (wc_max_retries cfg) rows) of
        (Some e, rows') \<Rightarrow> (Ends (Inl e), rows')
      | (None, rows') \<Rightarrow> (Ends (Inr (Some (if answered then DELIVERED
           else if ob_attempts entry + 1 < wc_max_retries cfg then RETRYING else DEAD))), rows'))"

fun phases_left :: "delivery \<Rightarrow> nat" where
  "phases_left (InlinePost i) = 3"
| "phases_left (InlineSettle i b) = 2"
| "phases_left (InlineRecover i) = 1"
| "phases_left (SweepPost e) = 2"
| "phases_left (SweepSettle e b) = 1"

lemma phases_decrease: "fst (delivery_step cfg now inc d rows) = Goes d' \<Longrightarrow> phases_left d' < phases_left d"
  by (cases d) (auto split: sum.splits option.splits if_splits prod.splits)

text \<open>A delivery run to its end; \<open>around n\<close> is the time that passes before the phase with \<open>n\<close> left, and its incident.\<close>

function run_delivery :: "webhook_config \<Rightarrow> (nat \<Rightarrow> rat \<times> incident) \<Rightarrow> delivery \<Rightarrow> rat \<Rightarrow> outbox_row list
    \<Rightarrow> delivery_outcome option res \<times> rat \<times> outbox_row list" where
  "run_delivery cfg around d now rows =
     (let (pause, inc) = around (phases_left d); (p, rows') = delivery_step cfg (now + pause) inc d rows in
      case p of Ends r \<Rightarrow> (r, now + pause, rows') | Goes d' \<Rightarrow> run_delivery cfg around d' (now + pause) rows')"
  by pat_completeness auto
termination
  by (relation "measure (\<lambda>(cfg, around, d, now, rows). phases_left d)") (auto dest!: arg_cong [where f = fst] intro: phases_decrease [OF sym])

declare run_delivery.simps [simp del]

subsection \<open>The dispatcher, the sweeper and the pool's notifications\<close>

definition enqueue_and_deliver :: "webhook_config \<Rightarrow> fate \<Rightarrow> (nat \<Rightarrow> rat \<times> incident) \<Rightarrow> string \<Rightarrow> string \<Rightarrow> webhook_event
    \<Rightarrow> rat \<Rightarrow> outbox_row list \<Rightarrow> unit res \<times> rat \<times> outbox_row list" where
  "enqueue_and_deliver cfg f around ident webhook_url event now rows =
     (case at_store f (outbox_enqueue ident event webhook_url now) rows of
        (Some e, rows') \<Rightarrow> (Inl e, now, rows')
      | (None, rows') \<Rightarrow> (case run_delivery cfg around (InlinePost ident) now rows' of
          (Inl e, w) \<Rightarrow> (Inl e, w) | (Inr _, w) \<Rightarrow> (Inr (), w)))"

definition deliver_entry :: "webhook_config \<Rightarrow> (nat \<Rightarrow> rat \<times> incident) \<Rightarrow> outbox_row \<Rightarrow> rat \<Rightarrow> outbox_row list
    \<Rightarrow> delivery_outcome option res \<times> rat \<times> outbox_row list" where
  "deliver_entry cfg around entry = run_delivery cfg around (SweepPost entry)"

primrec sweep_entries :: "webhook_config \<Rightarrow> (outbox_row \<Rightarrow> nat \<Rightarrow> rat \<times> incident) \<Rightarrow> outbox_row list \<Rightarrow> rat \<Rightarrow> outbox_row list
    \<Rightarrow> (nat \<times> nat) res \<times> rat \<times> outbox_row list" where
  "sweep_entries cfg around [] now rows = (Inr (0, 0), now, rows)"
| "sweep_entries cfg around (entry # rest) now rows =
     (case deliver_entry cfg (around entry) entry now rows of
        (Inl e, now', rows') \<Rightarrow> (Inl e, now', rows')
      | (Inr outcome, now', rows') \<Rightarrow> (case sweep_entries cfg around rest now' rows' of
          (Inl e, w) \<Rightarrow> (Inl e, w)
        | (Inr (delivered_count, still_pending), w) \<Rightarrow>
            (Inr (if outcome = Some DELIVERED then delivered_count + 1 else delivered_count,
                  if outcome = Some RETRYING then still_pending + 1 else still_pending), w)))"

text \<open>What happens around the sweep of one tenant: the listing may fail.\<close>

record sweep_around =
  sa_listing :: "exn option"
  sa_entry :: "outbox_row \<Rightarrow> nat \<Rightarrow> rat \<times> incident"

definition sweep_tenant :: "webhook_config \<Rightarrow> sweep_around \<Rightarrow> rat \<Rightarrow> outbox_row list \<Rightarrow> (nat \<times> nat) res \<times> rat \<times> outbox_row list" where
  "sweep_tenant cfg around now rows = (case sa_listing around of
     Some e \<Rightarrow> (Inl e, now, rows)
   | None \<Rightarrow> sweep_entries cfg (sa_entry around) (list_pending SWEEP_BATCH_PER_TENANT now rows) now rows)"

text \<open>The loop over the tenants: the failure of one is logged and the next is swept.\<close>

primrec sweep_tenants :: "webhook_config \<Rightarrow> (string \<Rightarrow> sweep_around) \<Rightarrow> string list \<Rightarrow> rat \<Rightarrow> (string \<Rightarrow> outbox_row list)
    \<Rightarrow> (nat \<times> nat) \<times> rat \<times> (string \<Rightarrow> outbox_row list)" where
  "sweep_tenants cfg around [] now db = ((0, 0), now, db)"
| "sweep_tenants cfg around (tenant # rest) now db =
     (case sweep_tenant cfg (around tenant) now (db tenant) of (r, now', rows') \<Rightarrow>
      case sweep_tenants cfg around rest now' (db(tenant := rows')) of ((total_delivered, total_pending), w) \<Rightarrow>
      (case r of Inl _ \<Rightarrow> ((total_delivered, total_pending), w)
       | Inr (delivered, still_pending) \<Rightarrow> ((total_delivered + delivered, total_pending + still_pending), w)))"

text \<open>
  \<open>_sweep_cycle\<close>: the system tenant first, then every row of \<open>public.tenants\<close>; the listing of the tenants,
  the validation of an identifier and the gauge at the end are outside of any handler.
\<close>

definition sweep_cycle :: "webhook_config \<Rightarrow> (string \<Rightarrow> sweep_around) \<Rightarrow> string list res \<Rightarrow> exn option \<Rightarrow> rat \<Rightarrow> (string \<Rightarrow> outbox_row list)
    \<Rightarrow> (nat \<times> nat) res \<times> rat \<times> (string \<Rightarrow> outbox_row list)" where
  "sweep_cycle cfg around tenants gauge now db = (case tenants of
     Inl e \<Rightarrow> (Inl e, now, db)
   | Inr ids \<Rightarrow> (case sweep_tenants cfg around (''system'' # ids) now db of (totals, w) \<Rightarrow>
       (case gauge of Some e \<Rightarrow> Inl e | None \<Rightarrow> Inr totals, w)))"

text \<open>The loop of \<open>_pool_health_cycle\<close> over the transitions, each with its circumstances.\<close>

primrec notify_transitions :: "webhook_config \<Rightarrow> (pool_transition \<times> fate \<times> (nat \<Rightarrow> rat \<times> incident) \<times> string) list
    \<Rightarrow> rat \<Rightarrow> outbox_row list \<Rightarrow> unit res \<times> rat \<times> outbox_row list" where
  "notify_transitions cfg [] now rows = (Inr (), now, rows)"
| "notify_transitions cfg (x # xs) now rows = (case x of (t, f, around, ident) \<Rightarrow>
     if truthy_str (wc_ops_webhook_url cfg)
     then (case pool_event now t of
        Inl e \<Rightarrow> (Inl e, now, rows)
      | Inr event \<Rightarrow> (case enqueue_and_deliver cfg f around ident (or_str (wc_ops_webhook_url cfg) []) event now rows of
          (Inl e, w) \<Rightarrow> (Inl e, w) | (Inr (), now', rows') \<Rightarrow> notify_transitions cfg xs now' rows'))
     else notify_transitions cfg xs now rows)"

subsection \<open>Deliveries of all processes, interleaved\<close>

text \<open>The ghost component lists the entries whose target has accepted a POST, once for each.\<close>

record hooks =
  hk_rows :: "outbox_row list"
  hk_now :: rat
  hk_running :: "delivery list"
  hk_accepted :: "string list"

fun delivery_entry :: "delivery \<Rightarrow> string" where
  "delivery_entry (InlinePost i) = i"
| "delivery_entry (InlineSettle i b) = i"
| "delivery_entry (InlineRecover i) = i"
| "delivery_entry (SweepPost e) = ob_id e"
| "delivery_entry (SweepSettle e b) = ob_id e"

fun has_answer :: "delivery \<Rightarrow> bool" where
  "has_answer (InlineSettle i b) = b"
| "has_answer (SweepSettle e b) = b"
| "has_answer _ = False"

definition ids_of :: "outbox_row list \<Rightarrow> string set" where
  "ids_of rows = set (map ob_id rows)"

definition replace_at :: "nat \<Rightarrow> 'a list \<Rightarrow> 'a list \<Rightarrow> 'a list" where
  "replace_at i ys xs = take i xs @ ys @ drop (Suc i) xs"

text \<open>One phase of the delivery at position \<open>i\<close>; a target has accepted exactly when the phase ends with that answer.\<close>

definition advance :: "webhook_config \<Rightarrow> incident \<Rightarrow> nat \<Rightarrow> hooks \<Rightarrow> hooks" where
  "advance cfg inc i s = (let d = hk_running s ! i in
     case delivery_step cfg (hk_now s) inc d (hk_rows s) of
       (Ends _, rows') \<Rightarrow> s\<lparr>hk_rows := rows', hk_running := replace_at i [] (hk_running s)\<rparr>
     | (Goes d', rows') \<Rightarrow> s\<lparr>hk_rows := rows', hk_running := replace_at i [d'] (hk_running s),
         hk_accepted := (if has_answer d' then [delivery_entry d'] else []) @ hk_accepted s\<rparr>)"

inductive hook_step :: "webhook_config \<Rightarrow> hooks \<Rightarrow> hooks \<Rightarrow> bool" for cfg where
  notified: "ident \<notin> ids_of (hk_rows s) \<Longrightarrow> hook_step cfg s (s\<lparr>hk_rows := outbox_enqueue ident event url (hk_now s) (hk_rows s),
     hk_running := hk_running s @ [InlinePost ident]\<rparr>)"
| swept: "hook_step cfg s (s\<lparr>hk_running := hk_running s @ map SweepPost (list_pending SWEEP_BATCH_PER_TENANT (hk_now s) (hk_rows s))\<rparr>)"
| advanced: "i < length (hk_running s) \<Longrightarrow> hook_step cfg s (advance cfg inc i s)"
| crashed: "i < length (hk_running s) \<Longrightarrow> hook_step cfg s (s\<lparr>hk_running := replace_at i [] (hk_running s)\<rparr>)"
| elapsed: "0 \<le> d \<Longrightarrow> hook_step cfg s (s\<lparr>hk_now := hk_now s + d\<rparr>)"

inductive hooks_reach :: "webhook_config \<Rightarrow> hooks \<Rightarrow> bool" for cfg where
  fresh: "hooks_reach cfg \<lparr>hk_rows = [], hk_now = t, hk_running = [], hk_accepted = []\<rparr>"
| step: "\<lbrakk>hooks_reach cfg s; hook_step cfg s s'\<rbrakk> \<Longrightarrow> hooks_reach cfg s'"

subsection \<open>What the table says is true\<close>

definition row_true :: "webhook_config \<Rightarrow> string list \<Rightarrow> outbox_row \<Rightarrow> bool" where
  "row_true cfg accepted r = (case ob_status r of
     OUTBOX_DELIVERED \<Rightarrow> ob_id r \<in> set accepted
   | OUTBOX_DEAD \<Rightarrow> wc_max_retries cfg \<le> ob_attempts r
   | OUTBOX_PENDING \<Rightarrow> ob_attempts r = 0 \<or> ob_attempts r < wc_max_retries cfg)"

definition hooks_ok :: "webhook_config \<Rightarrow> hooks \<Rightarrow> bool" where
  "hooks_ok cfg s \<longleftrightarrow>
     (\<forall>d\<in>set (hk_running s). has_answer d \<longrightarrow> delivery_entry d \<in> set (hk_accepted s)) \<and>
     (\<forall>r\<in>set (hk_rows s). row_true cfg (hk_accepted s) r)"

lemma hooks_okD:
  assumes "hooks_ok cfg s"
  shows "d \<in> set (hk_running s) \<Longrightarrow> has_answer d \<Longrightarrow> delivery_entry d \<in> set (hk_accepted s)"
    and "r \<in> set (hk_rows s) \<Longrightarrow> row_true cfg (hk_accepted s) r"
  using assms by (auto simp: hooks_ok_def)

lemma row_true_more: "row_true cfg acc r \<Longrightarrow> set acc \<subseteq> set acc' \<Longrightarrow> row_true cfg acc' r"
  by (auto simp: row_true_def split: outbox_status.splits)

lemma set_replace_at: "set (replace_at i ys xs) \<subseteq> set ys \<union> set xs"
  by (auto simp: replace_at_def dest: in_set_takeD in_set_dropD)

text \<open>A statement at the store applies its update or nothing.\<close>

lemma at_store_cases: "snd (at_store f stmt rows) \<in> {rows, stmt rows}"
  by (cases f) (auto simp: at_store_def)

lemma record_failure_cases:
  "snd (record_failure inc i t m rows) \<in> {rows, mark_attempt_failed i t m rows}"
  using at_store_cases [of "in_store inc" "mark_attempt_failed i t m" rows]
  by (auto simp: record_failure_def split: prod.splits option.splits)

lemma failed_rows_true:
  assumes "\<forall>r\<in>set rows. row_true cfg acc r" "r \<in> set (mark_attempt_failed i t (wc_max_retries cfg) rows)"
  shows "row_true cfg acc r"
  using assms by (auto simp: mark_attempt_failed_def update_outbox_def row_true_def split: if_splits)

lemma delivered_rows_true:
  assumes "\<forall>r\<in>set rows. row_true cfg acc r" "i \<in> set acc" "r \<in> set (mark_delivered i t rows)"
  shows "row_true cfg acc r"
  using assms by (auto simp: mark_delivered_def update_outbox_def row_true_def split: if_splits)

text \<open>Which rows a phase can leave, and what it goes on to.\<close>

lemma delivery_step_rows:
  "snd (delivery_step cfg now inc d rows) = rows \<or>
   has_answer d \<and> snd (delivery_step cfg now inc d rows) = mark_delivered (delivery_entry d) now rows \<or>
   (\<exists>t. snd (delivery_step cfg now inc d rows) = mark_attempt_failed (delivery_entry d) t (wc_max_retries cfg) rows)"
proof (cases d)
  case (InlineSettle i b)
  then show ?thesis
    using at_store_cases [of "in_store inc" "mark_delivered i now" rows]
      record_failure_cases [of inc i "now + wc_backoff_base_seconds cfg" "wc_max_retries cfg" rows]
    by (cases b) (auto split: prod.splits option.splits)
next
  case (InlineRecover i)
  then show ?thesis
    using record_failure_cases [of inc i "now + wc_backoff_base_seconds cfg" "wc_max_retries cfg" rows]
    by (auto split: prod.splits option.splits)
next
  case (SweepSettle e b)
  then show ?thesis
    using at_store_cases [of "in_store inc" "mark_delivered (ob_id e) now" rows]
      record_failure_cases [of inc "ob_id e" "now + backoff_seconds (ob_attempts e) (wc_backoff_base_seconds cfg)" "wc_max_retries cfg" rows]
    by (cases b) (auto split: prod.splits option.splits)
qed (auto split: sum.splits)

lemma delivery_step_entry:
  "fst (delivery_step cfg now inc d rows) = Goes d' \<Longrightarrow> delivery_entry d' = delivery_entry d"
  by (cases d) (auto split: sum.splits option.splits if_splits prod.splits)

lemma advance_accepted: "set (hk_accepted s) \<subseteq> set (hk_accepted (advance cfg inc i s))"
  by (auto simp: advance_def Let_def split: prod.splits progress.splits)

lemma advance_rows: "hk_rows (advance cfg inc i s) = snd (delivery_step cfg (hk_now s) inc (hk_running s ! i) (hk_rows s))"
  by (auto simp: advance_def Let_def split: prod.splits progress.splits)

lemma advance_running:
  "d \<in> set (hk_running (advance cfg inc i s)) \<Longrightarrow>
     d \<in> set (hk_running s) \<or> (has_answer d \<longrightarrow> delivery_entry d \<in> set (hk_accepted (advance cfg inc i s)))"
  using set_replace_at by (fastforce simp: advance_def Let_def split: prod.splits progress.splits)

lemma hook_step_ok:
  assumes step: "hook_step cfg s s'" and ok: "hooks_ok cfg s"
  shows "hooks_ok cfg s'"
  using step
proof cases
  case (notified ident event url)
  then show ?thesis
    using ok by (auto simp: hooks_ok_def outbox_enqueue_def row_true_def)
next
  case swept
  then show ?thesis
    using ok by (auto simp: hooks_ok_def)
next
  case (advanced i inc)
  let ?d = "hk_running s ! i"
  have d: "?d \<in> set (hk_running s)"
    using advanced(2) by simp
  have rows: "\<forall>r\<in>set (hk_rows s). row_true cfg (hk_accepted s') r"
    using hooks_okD(2) [OF ok] row_true_more advance_accepted advanced(1) by metis
  have "row_true cfg (hk_accepted s') r" if "r \<in> set (hk_rows s')" for r
    using delivery_step_rows [of cfg "hk_now s" inc ?d "hk_rows s"]
  proof (elim disjE conjE exE)
    assume "snd (delivery_step cfg (hk_now s) inc ?d (hk_rows s)) = hk_rows s"
    then show ?thesis using that rows advanced(1) by (simp add: advance_rows)
  next
    assume a: "has_answer ?d" "snd (delivery_step cfg (hk_now s) inc ?d (hk_rows s)) = mark_delivered (delivery_entry ?d) (hk_now s) (hk_rows s)"
    have "delivery_entry ?d \<in> set (hk_accepted s')"
      using hooks_okD(1) [OF ok d a(1)] advance_accepted advanced(1) by blast
    then show ?thesis
      using delivered_rows_true [OF rows] that a(2) advanced(1) by (simp add: advance_rows)
  next
    fix t
    assume "snd (delivery_step cfg (hk_now s) inc ?d (hk_rows s)) = mark_attempt_failed (delivery_entry ?d) t (wc_max_retries cfg) (hk_rows s)"
    then show ?thesis
      using failed_rows_true [OF rows] that advanced(1) by (simp add: advance_rows)
  qed
  moreover have "delivery_entry d \<in> set (hk_accepted s')" if "d \<in> set (hk_running s')" "has_answer d" for d
    using advance_running hooks_okD(1) [OF ok] advance_accepted that advanced(1) by blast
  ultimately show ?thesis
    by (simp add: hooks_ok_def)
next
  case (crashed i)
  then show ?thesis
    using ok set_replace_at [of i "[]" "hk_running s"] by (auto simp: hooks_ok_def)
next
  case (elapsed d)
  then show ?thesis
    using ok by (simp add: hooks_ok_def)
qed

lemma hooks_reach_ok: "hooks_reach cfg s \<Longrightarrow> hooks_ok cfg s"
  by (induction rule: hooks_reach.induct) (simp_all add: hooks_ok_def [of cfg "\<lparr>hk_rows = [], hk_now = t, hk_running = [], hk_accepted = []\<rparr>" for t] hook_step_ok)

text \<open>No process ever removes an event or changes what it says.\<close>

definition told :: "outbox_row \<Rightarrow> string \<times> string option \<times> string \<times> (string \<times> json) list \<times> string" where
  "told r = (ob_id r, ob_job r, ob_event r, ob_payload r, ob_target r)"

lemma marks_keep_told [simp]:
  "map told (mark_delivered i t rows) = map told rows" "map told (mark_attempt_failed i t m rows) = map told rows"
  by (simp_all add: mark_delivered_def mark_attempt_failed_def update_outbox_def told_def)

lemma hook_step_keeps_events:
  assumes "hook_step cfg s s'"
  shows "\<exists>more. map told (hk_rows s') = map told (hk_rows s) @ more"
  using assms
proof cases
  case (advanced i inc)
  then show ?thesis
    using delivery_step_rows [of cfg "hk_now s" inc "hk_running s ! i" "hk_rows s"] by (auto simp: advance_rows)
qed (auto simp: outbox_enqueue_def)

subsection \<open>The table drains\<close>

text \<open>A sweep that nothing disturbs: the store and the counter answer; the targets may do anything.\<close>

definition calm :: "(nat \<Rightarrow> rat \<times> incident) \<Rightarrow> bool" where
  "calm around \<longleftrightarrow> (\<forall>n. 0 \<le> fst (around n) \<and> in_store (snd (around n)) = Answered \<and> in_count (snd (around n)) = None)"

text \<open>What a swept row becomes: delivered, or one attempt further and due again within the longest pause.\<close>

definition settled :: "webhook_config \<Rightarrow> rat \<Rightarrow> outbox_row \<Rightarrow> outbox_row \<Rightarrow> bool" where
  "settled cfg t r r' \<longleftrightarrow> ob_id r' = ob_id r \<and> ob_event r' = ob_event r \<and>
     (ob_status r' = OUTBOX_DELIVERED \<or>
      ob_attempts r' = ob_attempts r + 1 \<and> (ob_status r' = OUTBOX_PENDING \<longrightarrow> ob_attempts r' < wc_max_retries cfg)
        \<and> ob_next r' \<le> t + MAX_BACKOFF_SECONDS)"

lemma settled_later: "settled cfg t r r' \<Longrightarrow> t \<le> t' \<Longrightarrow> settled cfg t' r r'"
  by (auto simp: settled_def)

lemma backoff_bounded: "backoff_seconds a b \<le> MAX_BACKOFF_SECONDS"
  by (simp add: backoff_seconds_def)

lemma sweep_settles:
  assumes "calm around"
  shows "\<exists>oc t f. run_delivery cfg around (SweepSettle e b) now rows = (Inr oc, t, update_outbox (ob_id e) f rows)
    \<and> now \<le> t \<and> (\<forall>r. settled cfg t r (f r))"
proof -
  obtain d inc where a: "around 1 = (d, inc)" "0 \<le> d" "in_store inc = Answered" "in_count inc = None"
    using assms by (metis calm_def prod.collapse)
  show ?thesis
  proof (cases b)
    case True
    then have "run_delivery cfg around (SweepSettle e b) now rows
        = (Inr (Some DELIVERED), now + d, mark_delivered (ob_id e) (now + d) rows)"
      using a by (simp add: run_delivery.simps at_store_def)
    then show ?thesis
      using a(2) unfolding mark_delivered_def by (auto simp: settled_def)
  next
    case False
    then have "run_delivery cfg around (SweepSettle e b) now rows
        = (Inr (Some (if ob_attempts e + 1 < wc_max_retries cfg then RETRYING else DEAD)), now + d,
           mark_attempt_failed (ob_id e) (now + d + backoff_seconds (ob_attempts e) (wc_backoff_base_seconds cfg)) (wc_max_retries cfg) rows)"
      using a by (simp add: run_delivery.simps at_store_def record_failure_def)
    then show ?thesis
      using a(2) backoff_bounded unfolding mark_attempt_failed_def by (fastforce simp: settled_def)
  qed
qed

lemma deliver_entry_settles:
  assumes "calm around" "event_type_of_value (ob_event e) = Inr ty"
  shows "\<exists>oc t f. deliver_entry cfg around e now rows = (Inr oc, t, update_outbox (ob_id e) f rows)
    \<and> now \<le> t \<and> (\<forall>r. settled cfg t r (f r))"
proof -
  obtain d inc where a: "around 2 = (d, inc)" "0 \<le> d"
    using assms by (metis calm_def prod.collapse)
  obtain b where b: "fst (delivery_step cfg (now + d) inc (SweepPost e) rows) = Goes (SweepSettle e b)"
    using assms(2) by (cases "fst (deliver cfg (in_target inc) None)") auto
  have "snd (delivery_step cfg (now + d) inc (SweepPost e) rows) = rows"
    by (auto split: sum.splits)
  then have "deliver_entry cfg around e now rows = run_delivery cfg around (SweepSettle e b) (now + d) rows"
    unfolding deliver_entry_def by (subst run_delivery.simps) (simp add: a b case_prod_beta' del: delivery_step.simps)
  then show ?thesis
    using sweep_settles [OF assms(1), of cfg e b "now + d" rows] a(2) by fastforce
qed

lemma sweep_entries_settle:
  assumes "\<And>e. calm (around e)" "distinct (map ob_id es)" "\<forall>e\<in>set es. \<exists>ty. event_type_of_value (ob_event e) = Inr ty"
  shows "\<exists>n t g. sweep_entries cfg around es now rows = (Inr n, t, map g rows) \<and> now \<le> t \<and>
    (\<forall>r. if ob_id r \<in> ids_of es then settled cfg t r (g r) else g r = r)"
  using assms(2,3)
proof (induction es arbitrary: now rows)
  case Nil
  then show ?case by (auto simp: ids_of_def intro: exI [of _ id])
next
  case (Cons e es)
  obtain oc t f where f: "deliver_entry cfg (around e) e now rows = (Inr oc, t, update_outbox (ob_id e) f rows)"
    "now \<le> t" "\<And>r. settled cfg t r (f r)"
    using deliver_entry_settles [OF assms(1)] Cons.prems(2) by (metis list.set_intros(1))
  obtain n t' g where g: "sweep_entries cfg around es t (update_outbox (ob_id e) f rows) = (Inr n, t', map g (update_outbox (ob_id e) f rows))"
    "t \<le> t'" "\<And>r. if ob_id r \<in> ids_of es then settled cfg t' r (g r) else g r = r"
    using Cons.IH [of t "update_outbox (ob_id e) f rows"] Cons.prems by fastforce
  let ?h = "\<lambda>r. g (if ob_id r = ob_id e then f r else r)"
  have fresh: "ob_id e \<notin> ids_of es"
    using Cons.prems(1) by (simp add: ids_of_def)
  have h: "if ob_id r \<in> ids_of (e # es) then settled cfg t' r (?h r) else ?h r = r" for r
  proof (cases "ob_id r = ob_id e")
    case True
    then have "ob_id (f r) \<notin> ids_of es"
      using f(3) [of r] fresh by (simp add: settled_def)
    then show ?thesis
      using True g(3) [of "f r"] settled_later [OF f(3) [of r] g(2)] by (simp add: ids_of_def)
  next
    case False
    then show ?thesis
      using g(3) [of r] by (simp add: ids_of_def)
  qed
  have "sweep_entries cfg around (e # es) now rows
      = (Inr (if oc = Some DELIVERED then fst n + 1 else fst n, if oc = Some RETRYING then snd n + 1 else snd n), t', map ?h rows)"
    using f(1) g(1) by (simp add: update_outbox_def case_prod_beta' o_def)
  then show ?case
    using h f(2) g(2) by (meson order_trans)
qed

text \<open>The sweeper's rounds, \<open>gap\<close> apart.\<close>

primrec sweep_rounds :: "webhook_config \<Rightarrow> (nat \<Rightarrow> sweep_around) \<Rightarrow> rat \<Rightarrow> nat \<Rightarrow> rat \<Rightarrow> outbox_row list \<Rightarrow> rat \<times> outbox_row list" where
  "sweep_rounds cfg around gap 0 now rows = (now, rows)"
| "sweep_rounds cfg around gap (Suc n) now rows =
     (case sweep_rounds cfg around gap n now rows of (t, rows') \<Rightarrow> snd (sweep_tenant cfg (around n) (t + gap) rows'))"

definition pending_rows :: "outbox_row list \<Rightarrow> outbox_row list" where
  "pending_rows rows = filter (\<lambda>r. ob_status r = OUTBOX_PENDING) rows"

text \<open>
  How many rounds the longest pause spans, and the rounds a row can need: it comes up within the pause,
  and after each failed attempt within a pause again.
\<close>

definition rounds_per_pause :: "rat \<Rightarrow> nat" where
  "rounds_per_pause gap = nat \<lceil>MAX_BACKOFF_SECONDS / gap\<rceil>"

definition sweep_budget :: "webhook_config \<Rightarrow> rat \<Rightarrow> nat \<Rightarrow> rat \<Rightarrow> outbox_row \<Rightarrow> bool" where
  "sweep_budget cfg gap n t r \<longleftrightarrow>
     (let later = (max 1 (wc_max_retries cfg - ob_attempts r) - 1) * int (rounds_per_pause gap) in
      later + 1 \<le> int n \<and> ob_next r \<le> t + gap * of_int (int n - later))"

definition sweepable :: "webhook_config \<Rightarrow> rat \<Rightarrow> nat \<Rightarrow> rat \<Rightarrow> outbox_row list \<Rightarrow> bool" where
  "sweepable cfg gap n t rows \<longleftrightarrow> distinct (map ob_id rows) \<and> length (pending_rows rows) \<le> SWEEP_BATCH_PER_TENANT \<and>
     (\<forall>r\<in>set rows. (\<exists>ty. event_type_of_value (ob_event r) = Inr ty)) \<and>
     (\<forall>r\<in>set (pending_rows rows). sweep_budget cfg gap n t r)"

lemma rounds_per_pause_bounds:
  assumes "0 < gap"
  shows "1 \<le> rounds_per_pause gap" "MAX_BACKOFF_SECONDS \<le> gap * of_nat (rounds_per_pause gap)"
proof -
  have pos: "0 < MAX_BACKOFF_SECONDS / gap" using assms by (simp add: MAX_BACKOFF_SECONDS_def)
  then have "0 < \<lceil>MAX_BACKOFF_SECONDS / gap\<rceil>" by simp
  then show "1 \<le> rounds_per_pause gap" unfolding rounds_per_pause_def by linarith
  have "MAX_BACKOFF_SECONDS / gap \<le> of_nat (rounds_per_pause gap)" unfolding rounds_per_pause_def by (rule of_nat_ceiling)
  then show "MAX_BACKOFF_SECONDS \<le> gap * of_nat (rounds_per_pause gap)" using assms by (simp add: pos_divide_le_eq mult.commute)
qed

lemma budget_none: "\<not> sweep_budget cfg gap 0 t r"
proof -
  have "0 \<le> (max 1 (wc_max_retries cfg - ob_attempts r) - 1) * int (rounds_per_pause gap)" by simp
  then show ?thesis unfolding sweep_budget_def Let_def by linarith
qed

lemma budget_waits:
  assumes "0 < gap" "sweep_budget cfg gap (Suc n) t r" "t + gap < ob_next r" "t + gap \<le> t'"
  shows "sweep_budget cfg gap n t' r"
proof -
  define later where "later = (max 1 (wc_max_retries cfg - ob_attempts r) - 1) * int (rounds_per_pause gap)"
  define m where "m = int (Suc n) - later"
  have r: "ob_next r \<le> t + gap * of_int m" using assms(2) by (simp add: sweep_budget_def Let_def m_def later_def)
  then have "gap * 1 < gap * of_int m" using assms(3) by simp
  then have "1 < m" using assms(1) by (simp only: mult_less_cancel_left_pos of_int_1_less_iff)
  moreover have "ob_next r \<le> t' + gap * of_int (m - 1)" using r assms(4) by (simp add: algebra_simps)
  ultimately show ?thesis unfolding sweep_budget_def Let_def later_def [symmetric] m_def by (simp add: algebra_simps)
qed

lemma scaled_mono: "0 < (g :: rat) \<Longrightarrow> a \<le> b \<Longrightarrow> g * of_int a \<le> g * of_int b"
  by simp

lemma budget_failed:
  assumes "0 < gap" "sweep_budget cfg gap (Suc n) t r" "ob_attempts r' = ob_attempts r + 1" "ob_attempts r' < wc_max_retries cfg"
    and "ob_next r' \<le> t' + MAX_BACKOFF_SECONDS"
  shows "sweep_budget cfg gap n t' r'"
proof -
  note K = rounds_per_pause_bounds [OF assms(1)]
  define j where "j = wc_max_retries cfg - ob_attempts r'"
  have j: "1 \<le> j" using assms(4) by (simp add: j_def)
  have "max 1 (wc_max_retries cfg - ob_attempts r) - 1 = j" using j assms(3) by (simp add: j_def)
  then have n: "j * int (rounds_per_pause gap) \<le> int n" using assms(2) by (simp add: sweep_budget_def Let_def)
  then have room: "int (rounds_per_pause gap) \<le> int n - (j - 1) * int (rounds_per_pause gap)" by (simp add: algebra_simps)
  have "gap * of_nat (rounds_per_pause gap) = gap * of_int (int (rounds_per_pause gap))" by simp
  also have "\<dots> \<le> gap * of_int (int n - (j - 1) * int (rounds_per_pause gap))"
    using room by (rule scaled_mono [OF assms(1)])
  finally have "ob_next r' \<le> t' + gap * of_int (int n - (j - 1) * int (rounds_per_pause gap))"
    using K(2) assms(5) by linarith
  moreover have "max 1 (wc_max_retries cfg - ob_attempts r') - 1 = j - 1" using j by (simp add: j_def)
  ultimately show ?thesis using room K(1) unfolding sweep_budget_def Let_def by simp
qed

lemma list_pending_all:
  assumes "length (pending_rows rows) \<le> SWEEP_BATCH_PER_TENANT"
  shows "list_pending SWEEP_BATCH_PER_TENANT t rows = sort_key ob_next (filter (due t) rows)"
proof -
  have "filter (due t) rows = filter (\<lambda>r. ob_next r \<le> t) (pending_rows rows)"
    unfolding pending_rows_def filter_filter by (rule filter_cong) (auto simp: due_def)
  then have "length (filter (due t) rows) \<le> SWEEP_BATCH_PER_TENANT"
    using assms length_filter_le order_trans by metis
  then show ?thesis by (simp add: list_pending_def)
qed

lemma pending_map_le:
  assumes "\<And>r. r \<in> set rows \<Longrightarrow> ob_status (g r) = OUTBOX_PENDING \<Longrightarrow> ob_status r = OUTBOX_PENDING"
  shows "length (pending_rows (map g rows)) \<le> length (pending_rows rows)"
  using assms by (induction rows) (auto simp: pending_rows_def)

lemma sweep_round_progress:
  assumes gap: "0 < gap" and ok: "sweepable cfg gap (Suc n) t rows"
    and calm: "sa_listing around = None" "\<And>e. calm (sa_entry around e)"
  shows "\<exists>m t' rows'. sweep_tenant cfg around (t + gap) rows = (Inr m, t', rows') \<and> sweepable cfg gap n t' rows'"
proof -
  let ?es = "sort_key ob_next (filter (due (t + gap)) rows)"
  have es: "ids_of ?es = ob_id ` {r \<in> set rows. due (t + gap) r}"
    by (simp add: ids_of_def)
  have "distinct (map ob_id (filter (due (t + gap)) rows))"
    using ok by (simp add: sweepable_def distinct_map_filter)
  then have dist: "distinct (map ob_id ?es)"
    by (simp add: distinct_map)
  have "\<forall>e\<in>set ?es. \<exists>ty. event_type_of_value (ob_event e) = Inr ty"
    using ok by (auto simp: sweepable_def)
  then obtain m t' g where g: "sweep_entries cfg (sa_entry around) ?es (t + gap) rows = (Inr m, t', map g rows)"
    "t + gap \<le> t'" "\<And>r. if ob_id r \<in> ids_of ?es then settled cfg t' r (g r) else g r = r"
    using sweep_entries_settle [where around = "sa_entry around" and cfg = cfg and now = "t + gap" and rows = rows, OF calm(2) dist] by blast
  have inj: "inj_on ob_id (set rows)"
    using ok by (simp add: sweepable_def distinct_map)
  have listed: "ob_id r \<in> ids_of ?es \<longleftrightarrow> due (t + gap) r" if "r \<in> set rows" for r
    using that inj unfolding es by (auto simp: inj_on_def)
  have same: "ob_id (g r) = ob_id r \<and> ob_event (g r) = ob_event r" for r
    using g(3) [of r] by (auto simp: settled_def split: if_splits)
  have was: "ob_status r = OUTBOX_PENDING" if "r \<in> set rows" "ob_status (g r) = OUTBOX_PENDING" for r
    using g(3) [of r] listed [OF that(1)] that(2) by (auto simp: due_def split: if_splits)
  have "sweep_budget cfg gap n t' (g r)" if "r \<in> set rows" "ob_status (g r) = OUTBOX_PENDING" for r
  proof -
    have budget: "sweep_budget cfg gap (Suc n) t r"
      using ok that(1) was [OF that] by (simp add: sweepable_def pending_rows_def)
    show ?thesis
    proof (cases "due (t + gap) r")
      case True
      then have "settled cfg t' r (g r)" using g(3) [of r] listed [OF that(1)] by simp
      with that(2) show ?thesis by (intro budget_failed [OF gap budget]) (auto simp: settled_def)
    next
      case False
      then have "g r = r" "t + gap < ob_next r"
        using g(3) [of r] listed [OF that(1)] was [OF that] by (auto simp: due_def)
      then show ?thesis using budget_waits [OF gap budget _ g(2)] by simp
    qed
  qed
  then have "sweepable cfg gap n t' (map g rows)"
    using ok same pending_map_le [of rows g, OF was]
    by (auto simp: sweepable_def pending_rows_def o_def)
  moreover have "length (pending_rows rows) \<le> SWEEP_BATCH_PER_TENANT" using ok by (simp add: sweepable_def)
  ultimately show ?thesis
    using g(1) list_pending_all calm(1) by (auto simp: sweep_tenant_def)
qed

lemma sweep_rounds_sweepable:
  assumes "0 < gap" "sweepable cfg gap n now rows"
    and "\<And>i. sa_listing (around i) = None" "\<And>i e. calm (sa_entry (around i) e)"
  shows "i \<le> n \<Longrightarrow> sweepable cfg gap (n - i) (fst (sweep_rounds cfg around gap i now rows)) (snd (sweep_rounds cfg around gap i now rows))"
proof (induction i)
  case 0
  then show ?case using assms(2) by simp
next
  case (Suc i)
  obtain t rows' where r: "sweep_rounds cfg around gap i now rows = (t, rows')"
    by fastforce
  have "n - i = Suc (n - Suc i)" using Suc.prems by simp
  then have "sweepable cfg gap (Suc (n - Suc i)) t rows'" using Suc r by simp
  from sweep_round_progress [OF assms(1) this assms(3) [of i] assms(4) [of i]] obtain m t' rows''
    where "sweep_tenant cfg (around i) (t + gap) rows' = (Inr m, t', rows'')" "sweepable cfg gap (n - Suc i) t' rows''"
    by blast
  with r show ?case by simp
qed

text \<open>
  A table the sweeper can work off: the identifiers are different, no more rows wait than a listing
  takes, every type is known, and no row is put off by more than the longest pause.
\<close>

definition waiting_ok :: "rat \<Rightarrow> outbox_row list \<Rightarrow> bool" where
  "waiting_ok now rows \<longleftrightarrow> distinct (map ob_id rows) \<and> length (pending_rows rows) \<le> SWEEP_BATCH_PER_TENANT \<and>
     list_all (\<lambda>r. \<not> isl (event_type_of_value (ob_event r))) rows \<and>
     list_all (\<lambda>r. 0 \<le> ob_attempts r \<and> ob_next r \<le> now + MAX_BACKOFF_SECONDS) (pending_rows rows)"

lemma waiting_sweepable:
  assumes "0 < gap" "waiting_ok now rows" "max 1 (wc_max_retries cfg) * int (rounds_per_pause gap) \<le> int n"
  shows "sweepable cfg gap n now rows"
proof -
  let ?K = "int (rounds_per_pause gap)"
  note K = rounds_per_pause_bounds [OF assms(1)]
  have "sweep_budget cfg gap n now r" if r: "0 \<le> ob_attempts r" "ob_next r \<le> now + MAX_BACKOFF_SECONDS" for r
  proof -
    define j where "j = max 1 (wc_max_retries cfg - ob_attempts r)"
    have "j \<le> max 1 (wc_max_retries cfg)" using r(1) by (auto simp: j_def)
    then have "j * ?K \<le> max 1 (wc_max_retries cfg) * ?K" by (rule mult_right_mono) simp
    with assms(3) have room: "?K \<le> int n - (j - 1) * ?K" by (simp add: algebra_simps)
    have "gap * of_nat (rounds_per_pause gap) = gap * of_int ?K" by simp
    also have "\<dots> \<le> gap * of_int (int n - (j - 1) * ?K)"
      using room by (rule scaled_mono [OF assms(1)])
    finally have "ob_next r \<le> now + gap * of_int (int n - (j - 1) * ?K)" using K(2) r(2) by linarith
    with room K(1) show ?thesis unfolding sweep_budget_def Let_def j_def [symmetric] by simp
  qed
  then show ?thesis
    using assms(2) by (auto simp: waiting_ok_def sweepable_def list_all_iff isl_def) (meson sum.exhaust_sel isl_def)
qed

section \<open>Properties\<close>

text \<open>
  \<^bold>\<open>C24\<close>: in every state the processes can reach, whatever the targets answer and wherever a process
  fails, a notification is \<open>delivered\<close> only when its target has accepted it, \<open>dead\<close> only when its stored
  count of attempts has reached the configured number, and \<open>pending\<close> only while that count is below it
  (or none was made). The stored count is not the number of real attempts: the dispatcher can count one
  twice (\<open>attempt_counted_twice\<close>).
\<close>

theorem outbox_status_true:
  assumes "hooks_reach cfg s" "r \<in> set (hk_rows s)"
  shows "case ob_status r of
      OUTBOX_DELIVERED \<Rightarrow> ob_id r \<in> set (hk_accepted s)
    | OUTBOX_DEAD \<Rightarrow> wc_max_retries cfg \<le> ob_attempts r
    | OUTBOX_PENDING \<Rightarrow> ob_attempts r = 0 \<or> ob_attempts r < wc_max_retries cfg"
  using hooks_okD(2) [OF hooks_reach_ok [OF assms(1)] assms(2)] by (simp add: row_true_def)

text \<open>A session: one event, delivered by the dispatcher.\<close>

definition demo_event :: webhook_event where
  "demo_event = \<lparr>we_type = JOB_COMPLETED, we_tenant = ''acme'', we_job = Some ''j1'', we_payload = [], we_created = 0\<rparr>"

definition quietly :: "post_answer \<Rightarrow> incident" where
  "quietly a = \<lparr>in_target = \<lambda>_. a, in_store = Answered, in_count = None\<rparr>"

definition demo_told :: hooks where
  "demo_told = \<lparr>hk_rows = outbox_enqueue ''e1'' demo_event ''https://t'' 0 [], hk_now = 0, hk_running = [InlinePost ''e1''], hk_accepted = []\<rparr>"

lemma demo_told_reach: "hooks_reach cfg demo_told"
  using hooks_reach.step [OF hooks_reach.fresh [of cfg 0] hook_step.notified [where ident = "''e1''" and event = demo_event and url = "''https://t''"]]
  by (simp add: ids_of_def demo_told_def)

definition demo_sent :: hooks where
  "demo_sent = advance webhook_defaults (quietly (Responded 204)) 0 (advance webhook_defaults (quietly (Responded 204)) 0 demo_told)"

lemma demo_sent_eval: "demo_sent = \<lparr>hk_rows = mark_delivered ''e1'' 0 (hk_rows demo_told), hk_now = 0, hk_running = [], hk_accepted = [''e1'']\<rparr>"
  by code_simp

lemma demo_sent_reach: "hooks_reach webhook_defaults demo_sent"
  unfolding demo_sent_def
proof (rule hooks_reach.step)
  show "hooks_reach webhook_defaults (advance webhook_defaults (quietly (Responded 204)) 0 demo_told)"
    by (rule hooks_reach.step [OF demo_told_reach hook_step.advanced]) code_simp
  show "hook_step webhook_defaults (advance webhook_defaults (quietly (Responded 204)) 0 demo_told)
      (advance webhook_defaults (quietly (Responded 204)) 0 (advance webhook_defaults (quietly (Responded 204)) 0 demo_told))"
    by (rule hook_step.advanced) code_simp
qed

theorem outbox_status_true_witness:
  "hooks_reach webhook_defaults demo_sent \<and> (let r = hd (hk_rows demo_sent) in ob_status r = OUTBOX_DELIVERED \<and> ob_id r \<in> set (hk_accepted demo_sent))"
proof -
  have r: "hd (hk_rows demo_sent) \<in> set (hk_rows demo_sent)" "ob_status (hd (hk_rows demo_sent)) = OUTBOX_DELIVERED"
    by (simp_all add: demo_sent_eval demo_told_def outbox_enqueue_def mark_delivered_def update_outbox_def)
  show ?thesis
    using outbox_status_true [OF demo_sent_reach r(1)] r(2) demo_sent_reach by (simp add: Let_def)
qed

text \<open>
  \<^bold>\<open>C25\<close>: the outbox drains. With sweeps any \<open>gap > 0\<close> apart (30 s in the code), the statements and the
  counter of the sweeper succeeding, no delivery of another process in between, at most a batch of
  notifications waiting, all of known types and none put off by more than the longest pause: after the
  configured attempts times the number of rounds in that longest pause (\<open>3600 / gap\<close>, rounded up), every
  one is delivered or given up, whatever the targets answer.
\<close>

theorem outbox_drains:
  assumes "0 < gap" "waiting_ok now rows"
    and "\<And>i. sa_listing (around i) = None" "\<And>i e. calm (sa_entry (around i) e)"
    and "max 1 (wc_max_retries cfg) * int (rounds_per_pause gap) \<le> int n"
  shows "pending_rows (snd (sweep_rounds cfg around gap n now rows)) = []"
proof -
  have "sweepable cfg gap 0 (fst (sweep_rounds cfg around gap n now rows)) (snd (sweep_rounds cfg around gap n now rows))"
    using sweep_rounds_sweepable [OF assms(1) waiting_sweepable [OF assms(1,2,5)] assms(3,4), where i = n] by simp
  then have "\<forall>r\<in>set (pending_rows (snd (sweep_rounds cfg around gap n now rows))). False"
    using budget_none by (auto simp: sweepable_def)
  then show ?thesis by (metis list.set_intros(1) neq_Nil_conv)
qed

definition demo_failing :: sweep_around where
  "demo_failing = \<lparr>sa_listing = None, sa_entry = \<lambda>_ _. (1, quietly (Responded 500))\<rparr>"

theorem outbox_drains_witness:
  "pending_rows (hk_rows demo_told) \<noteq> [] \<and>
   pending_rows (snd (sweep_rounds webhook_defaults (\<lambda>_. demo_failing) SWEEP_INTERVAL_SECONDS 360 0 (hk_rows demo_told))) = []"
proof
  show "pending_rows (hk_rows demo_told) \<noteq> []"
    by (simp add: demo_told_def outbox_enqueue_def pending_rows_def)
  have ok: "waiting_ok 0 (hk_rows demo_told)"
    by (simp add: waiting_ok_def demo_told_def outbox_enqueue_def pending_rows_def SWEEP_BATCH_PER_TENANT_def
        event_type_roundtrip MAX_BACKOFF_SECONDS_def)
  have "rounds_per_pause SWEEP_INTERVAL_SECONDS = 120"
    by (simp add: rounds_per_pause_def MAX_BACKOFF_SECONDS_def SWEEP_INTERVAL_SECONDS_def)
  then show "pending_rows (snd (sweep_rounds webhook_defaults (\<lambda>_. demo_failing) SWEEP_INTERVAL_SECONDS 360 0 (hk_rows demo_told))) = []"
    by (intro outbox_drains [OF _ ok])
      (simp_all add: SWEEP_INTERVAL_SECONDS_def demo_failing_def calm_def quietly_def webhook_defaults_def)
qed

subsection \<open>What the outbox does not promise\<close>

text \<open>
  A new entry is due at once, so the sweeper can list it while its own process is posting it: the
  target receives it twice.
\<close>

definition demo_listed :: hooks where
  "demo_listed = demo_told\<lparr>hk_running := hk_running demo_told @ map SweepPost (list_pending SWEEP_BATCH_PER_TENANT (hk_now demo_told) (hk_rows demo_told))\<rparr>"

lemma demo_listed_reach: "hooks_reach cfg demo_listed"
  unfolding demo_listed_def by (rule hooks_reach.step [OF demo_told_reach hook_step.swept])

lemma delivered_twice: "\<exists>s. hooks_reach webhook_defaults s \<and> hk_accepted s = [''e1'', ''e1'']"
proof -
  let ?go = "\<lambda>i. advance webhook_defaults (quietly (Responded 200)) i"
  have "hooks_reach webhook_defaults (?go 0 demo_listed)"
    by (rule hooks_reach.step [OF demo_listed_reach hook_step.advanced]) code_simp
  then have "hooks_reach webhook_defaults (?go 1 (?go 0 demo_listed))"
    by (rule hooks_reach.step [OF _ hook_step.advanced]) code_simp
  moreover have "hk_accepted (?go 1 (?go 0 demo_listed)) = [''e1'', ''e1'']"
    by code_simp
  ultimately show ?thesis by blast
qed

text \<open>
  And a second delivery that fails takes the row back: a notification its target has accepted is
  pending again, with the instant of its delivery still set, and will be sent once more.
\<close>

lemma delivered_reopened:
  "\<exists>s r. hooks_reach webhook_defaults s \<and> r \<in> set (hk_rows s) \<and> ob_id r \<in> set (hk_accepted s)
     \<and> ob_status r = OUTBOX_PENDING \<and> ob_delivered r \<noteq> None"
proof -
  let ?ok = "advance webhook_defaults (quietly (Responded 200)) 0" and ?fail = "advance webhook_defaults (quietly (Responded 500)) 0"
  have "hooks_reach webhook_defaults (?ok demo_listed)"
    by (rule hooks_reach.step [OF demo_listed_reach hook_step.advanced]) code_simp
  then have "hooks_reach webhook_defaults (?ok (?ok demo_listed))"
    by (rule hooks_reach.step [OF _ hook_step.advanced]) code_simp
  then have "hooks_reach webhook_defaults (?fail (?ok (?ok demo_listed)))"
    by (rule hooks_reach.step [OF _ hook_step.advanced]) code_simp
  then have reach: "hooks_reach webhook_defaults (?fail (?fail (?ok (?ok demo_listed))))"
    by (rule hooks_reach.step [OF _ hook_step.advanced]) code_simp
  have "let s = ?fail (?fail (?ok (?ok demo_listed))); r = hd (hk_rows s) in
      hk_rows s \<noteq> [] \<and> ob_id r \<in> set (hk_accepted s) \<and> ob_status r = OUTBOX_PENDING \<and> ob_delivered r \<noteq> None"
    by code_simp
  then show ?thesis
    using reach by (metis hd_in_set)
qed

text \<open>When the counter in Redis fails, one failed attempt is recorded twice.\<close>

lemma attempt_counted_twice:
  "(case enqueue_and_deliver webhook_defaults Answered
      (\<lambda>_. (0, \<lparr>in_target = \<lambda>_. Responded 500, in_store = Answered, in_count = Some RedisConnectionError\<rparr>)) ''e1'' ''https://t'' demo_event 0 []
    of (r, _, rows) \<Rightarrow> (r, map ob_attempts rows)) = (Inl RedisConnectionError, [2])"
  by code_simp

text \<open>An entry whose type no member has stops its tenant's sweep before the entries behind it, in every round.\<close>

lemma unknown_type_blocks:
  assumes "event_type_of_value (ob_event e) = Inl ex"
  shows "sweep_entries cfg around (e # es) now rows = (Inl ex, now + fst (around e 2), rows)"
  using assms by (simp add: deliver_entry_def run_delivery.simps [of _ _ "SweepPost e"] case_prod_beta')

text \<open>
  A tier's new state is stored before its transition is told: when the outbox cannot take the first
  transition of a check, the transitions behind it are told to nobody, and no later check finds them.
\<close>

lemma transitions_lost:
  assumes "truthy_str (wc_ops_webhook_url cfg)"
  shows "notify_transitions cfg ((t, RequestLost ex, around, ident) # later) now rows = (Inl ex, now, rows)"
  using assms pool_event_total [of now t] by (auto simp: enqueue_and_deliver_def at_store_def)

end
