(* ===== verification/Level_Memory.thy ===== *)
theory Level_Memory
  imports Gateway_Health
begin

text \<open>
  \<^verbatim>\<open>src/src/scraper_engine/orchestrator/level_memory.py\<close>: what the engine remembers of a domain
  between jobs, in Redis: the level to start at, the pool and Botasaurus hints, the periodic
  re-probe, and the refusal of a whole site with the epoch of the gateway. Every method is a
  program that swallows the errors of Redis.
\<close>

subsection \<open>Configuration and keys\<close>

record escalation_config =
  level_memory_enabled :: bool
  level_memory_ttl_seconds :: int
  reprobe_every :: int
  site_refusal_ttl_seconds :: int

definition escalation_defaults :: escalation_config where
  "escalation_defaults = \<lparr>level_memory_enabled = True, level_memory_ttl_seconds = 86400,
     reprobe_every = 20, site_refusal_ttl_seconds = 1800\<rparr>"

record domain_plan =
  start_level :: int
  skip_pool :: bool
  skip_botasaurus :: bool

definition GATEWAY_EPOCH_KEY :: string where
  "GATEWAY_EPOCH_KEY = ''levelhint:gateway_epoch''"

definition hint_key :: "string \<Rightarrow> string \<Rightarrow> string" where
  "hint_key tenant_id domain = ''levelhint:'' @ tenant_id @ '':'' @ domain"

definition probe_key :: "string \<Rightarrow> string \<Rightarrow> string" where
  "probe_key tenant_id domain = ''levelhint:probe:'' @ tenant_id @ '':'' @ domain"

definition pool_block_key :: "string \<Rightarrow> string \<Rightarrow> string" where
  "pool_block_key tenant_id domain = ''levelhint:poolblock:'' @ tenant_id @ '':'' @ domain"

definition botasaurus_fails_key :: "string \<Rightarrow> string \<Rightarrow> string" where
  "botasaurus_fails_key tenant_id domain = ''levelhint:botafail:'' @ tenant_id @ '':'' @ domain"

definition site_refusal_key :: "string \<Rightarrow> string \<Rightarrow> string" where
  "site_refusal_key tenant_id site = ''levelhint:refused:'' @ tenant_id @ '':'' @ site"

subsection \<open>The plan for the next URL\<close>

definition neutral_plan :: "int list \<Rightarrow> domain_plan" where
  "neutral_plan levels = \<lparr>start_level = hd levels, skip_pool = False, skip_botasaurus = False\<rparr>"

definition clamp_hint :: "rstr option \<Rightarrow> int list \<Rightarrow> int" where
  "clamp_hint raw levels =
     (case raw of None \<Rightarrow> hd levels
      | Some v \<Rightarrow> (case py_int v of Inl _ \<Rightarrow> hd levels
          | Inr hint \<Rightarrow> min (max hint (hd levels)) (last levels)))"

definition bulk :: "reply \<Rightarrow> rstr option" where
  "bulk r = (case r of RBulk v \<Rightarrow> Some v | _ \<Rightarrow> None)"

definition is_reprobe :: "escalation_config \<Rightarrow> string \<Rightarrow> string \<Rightarrow> bool prog" where
  "is_reprobe cfg tenant_id domain =
     (if reprobe_every cfg \<le> 1 then Return False
      else call (INCRBY (probe_key tenant_id domain) 1) (\<lambda>r.
        let count = (case r of RInteger i \<Rightarrow> i | _ \<Rightarrow> 0) in
        if count = 1
        then call (PEXPIRE (probe_key tenant_id domain) (1000 * level_memory_ttl_seconds cfg))
               (\<lambda>_. Return (count mod reprobe_every cfg = 0))
        else Return (count mod reprobe_every cfg = 0)))"

definition plan :: "escalation_config \<Rightarrow> string \<Rightarrow> string \<Rightarrow> int list \<Rightarrow> domain_plan prog" where
  "plan cfg tenant_id domain levels =
     (if \<not> level_memory_enabled cfg then Return (neutral_plan levels)
      else catch (andthen (is_reprobe cfg tenant_id domain) (\<lambda>reprobe.
          if reprobe then Return (neutral_plan levels)
          else call (GET (hint_key tenant_id domain)) (\<lambda>raw.
               call (GET (pool_block_key tenant_id domain)) (\<lambda>pool_blocked.
               call (GET (botasaurus_fails_key tenant_id domain)) (\<lambda>bota_fails.
                 Return \<lparr>start_level = clamp_hint (bulk raw) levels,
                         skip_pool = (bulk pool_blocked \<noteq> None),
                         skip_botasaurus = (bulk bota_fails \<noteq> None)\<rparr>)))))
        (\<lambda>e. Return (neutral_plan levels)))"

definition plan_start_level :: "escalation_config \<Rightarrow> string \<Rightarrow> string \<Rightarrow> int list \<Rightarrow> int prog" where
  "plan_start_level cfg tenant_id domain levels =
     andthen (plan cfg tenant_id domain levels) (\<lambda>p. Return (start_level p))"

subsection \<open>What is remembered\<close>

definition quietly :: "command \<Rightarrow> unit prog" where
  "quietly c = catch (call c (\<lambda>_. Return ())) (\<lambda>e. Return ())"

definition mem_record_success :: "escalation_config \<Rightarrow> string \<Rightarrow> string \<Rightarrow> int \<Rightarrow> unit prog" where
  "mem_record_success cfg tenant_id domain level =
     (if \<not> level_memory_enabled cfg then Return ()
      else if level \<le> 1 then quietly (DEL (hint_key tenant_id domain))
      else quietly (SET (hint_key tenant_id domain) (RInt level) (Some (1000 * level_memory_ttl_seconds cfg)) False))"

definition set_flag :: "escalation_config \<Rightarrow> string \<Rightarrow> unit prog" where
  "set_flag cfg key =
     (if \<not> level_memory_enabled cfg then Return ()
      else quietly (SET key (RInt 1) (Some (1000 * level_memory_ttl_seconds cfg)) False))"

definition clear_flag :: "escalation_config \<Rightarrow> string \<Rightarrow> unit prog" where
  "clear_flag cfg key = (if \<not> level_memory_enabled cfg then Return () else quietly (DEL key))"

definition record_pool_blocked :: "escalation_config \<Rightarrow> string \<Rightarrow> string \<Rightarrow> unit prog" where
  "record_pool_blocked cfg tenant_id domain = set_flag cfg (pool_block_key tenant_id domain)"

definition record_pool_ok :: "escalation_config \<Rightarrow> string \<Rightarrow> string \<Rightarrow> unit prog" where
  "record_pool_ok cfg tenant_id domain = clear_flag cfg (pool_block_key tenant_id domain)"

definition record_botasaurus_failed :: "escalation_config \<Rightarrow> string \<Rightarrow> string \<Rightarrow> unit prog" where
  "record_botasaurus_failed cfg tenant_id domain = set_flag cfg (botasaurus_fails_key tenant_id domain)"

definition record_botasaurus_ok :: "escalation_config \<Rightarrow> string \<Rightarrow> string \<Rightarrow> unit prog" where
  "record_botasaurus_ok cfg tenant_id domain = clear_flag cfg (botasaurus_fails_key tenant_id domain)"

subsection \<open>Refusals of a site\<close>

definition site_refusal_on :: "escalation_config \<Rightarrow> bool" where
  "site_refusal_on cfg \<longleftrightarrow> level_memory_enabled cfg \<and> 0 < site_refusal_ttl_seconds cfg"

definition record_site_refused :: "escalation_config \<Rightarrow> string \<Rightarrow> string \<Rightarrow> (string \<times> json) list \<Rightarrow> unit prog" where
  "record_site_refused cfg tenant_id site flds =
     (if \<not> site_refusal_on cfg then Return ()
      else quietly (SET (site_refusal_key tenant_id site) (RJson (JObj flds))
             (Some (1000 * site_refusal_ttl_seconds cfg)) False))"

definition site_refusal :: "escalation_config \<Rightarrow> string \<Rightarrow> string \<Rightarrow> (string \<times> json) list option prog" where
  "site_refusal cfg tenant_id site =
     (if \<not> site_refusal_on cfg then Return None
      else catch (call (GET (site_refusal_key tenant_id site)) (\<lambda>r.
          case bulk r of None \<Rightarrow> Return None
          | Some raw \<Rightarrow> (case json_loads raw of Inl e \<Rightarrow> Raise e
              | Inr (JObj flds) \<Rightarrow> Return (Some flds) | Inr _ \<Rightarrow> Return None)))
        (\<lambda>e. Return None))"

text \<open>The epoch is compared and stored as text; \<open>RInt\<close> is the text of a counter.\<close>

definition epoch_text :: "rstr \<Rightarrow> string" where
  "epoch_text v = (case v of RInt i \<Rightarrow> py_str_int i | RText s \<Rightarrow> s | _ \<Rightarrow> ''?'')"

definition gateway_epoch :: "string prog" where
  "gateway_epoch =
     catch (call (GET GATEWAY_EPOCH_KEY) (\<lambda>r. Return (case bulk r of None \<Rightarrow> ''0'' | Some v \<Rightarrow> epoch_text v)))
       (\<lambda>e. Return ''?'')"

definition bump_gateway_epoch :: "escalation_config \<Rightarrow> unit prog" where
  "bump_gateway_epoch cfg = (if \<not> site_refusal_on cfg then Return () else quietly (INCRBY GATEWAY_EPOCH_KEY 1))"

definition clear_site_refusal :: "escalation_config \<Rightarrow> string \<Rightarrow> string \<Rightarrow> unit prog" where
  "clear_site_refusal cfg tenant_id site =
     (if \<not> site_refusal_on cfg then Return () else clear_flag cfg (site_refusal_key tenant_id site))"

subsection \<open>The memory never fails a job\<close>

lemma quietly_never_raises: "never_raises (quietly c)"
  unfolding quietly_def by (rule never_raises_catch) simp

lemma level_memory_never_raises:
  "never_raises (plan cfg t d ls)" "never_raises (mem_record_success cfg t d l)"
  "never_raises (record_pool_blocked cfg t d)" "never_raises (record_pool_ok cfg t d)"
  "never_raises (record_botasaurus_failed cfg t d)" "never_raises (record_botasaurus_ok cfg t d)"
  "never_raises (record_site_refused cfg t s fs)" "never_raises (site_refusal cfg t s)"
  "never_raises gateway_epoch" "never_raises (bump_gateway_epoch cfg)"
  "never_raises (clear_site_refusal cfg t s)"
  by (simp_all add: plan_def mem_record_success_def record_pool_blocked_def record_pool_ok_def set_flag_def
      clear_flag_def record_botasaurus_failed_def record_botasaurus_ok_def record_site_refused_def
      site_refusal_def gateway_epoch_def bump_gateway_epoch_def clear_site_refusal_def
      quietly_never_raises never_raises_catch)

lemma clamp_hint_in_range:
  assumes "levels \<noteq> []" "sorted levels"
  shows "hd levels \<le> clamp_hint raw levels \<and> clamp_hint raw levels \<le> last levels"
proof -
  have "hd levels \<le> last levels" using assms by (cases levels) auto
  then show ?thesis by (auto simp: clamp_hint_def split: option.splits sum.splits)
qed

text \<open>The plan's start lies within the caller's ladder, whatever was stored.\<close>

lemma plan_in_range:
  assumes "levels \<noteq> []" "sorted levels"
  shows "returns_only (\<lambda>p. hd levels \<le> start_level p \<and> start_level p \<le> last levels) (plan cfg t d levels)"
proof -
  have n: "hd levels \<le> start_level (neutral_plan levels) \<and> start_level (neutral_plan levels) \<le> last levels"
    using clamp_hint_in_range [OF assms, of None] by (simp add: neutral_plan_def clamp_hint_def)
  show ?thesis
    unfolding plan_def
    by (auto simp: n clamp_hint_in_range [OF assms]
        intro!: returns_only_catch returns_only_andthen returns_only_call)
qed

text \<open>
  The level memory can only move the start of a URL inside its own ladder: whatever the
  server answers, whatever happens on the wire and whatever text lies at the hint key, asking
  for a plan ends with a plan, never with an exception, and its start level lies between the
  first and the last level the caller allows.
\<close>

theorem plan_total_in_range:
  assumes "levels \<noteq> []" "sorted levels"
  shows "\<exists>p. fst (run sv (plan cfg t d levels) es s) = Inr p \<and>
    hd levels \<le> start_level p \<and> start_level p \<le> last levels"
  using never_raises_run [OF level_memory_never_raises(1)] returns_only_run [OF plan_in_range [OF assms]] by metis

theorem plan_total_in_range_witness:
  "\<exists>p. fst (run mem_server (plan escalation_defaults ''acme'' ''a.com'' [1, 2])
       [(0, RequestLost RedisTimeoutError)] (put_str (hint_key ''acme'' ''a.com'') (RInt 7) None empty_keyspace)) = Inr p \<and>
     1 \<le> start_level p \<and> start_level p \<le> 2"
  using plan_total_in_range [of "[1, 2]" mem_server escalation_defaults "''acme''" "''a.com''"
      "[(0, RequestLost RedisTimeoutError)]" "put_str (hint_key ''acme'' ''a.com'') (RInt 7) None empty_keyspace"]
  by simp

subsection \<open>Remembering and re-probing\<close>

text \<open>The keys of one domain are five different keys.\<close>

lemma level_keys_distinct:
  assumes "CHR '':'' \<notin> set t"
  shows "hint_key t d \<noteq> probe_key t d" "hint_key t d \<noteq> pool_block_key t d"
    "hint_key t d \<noteq> botasaurus_fails_key t d" "probe_key t d \<noteq> pool_block_key t d"
    "probe_key t d \<noteq> botasaurus_fails_key t d" "pool_block_key t d \<noteq> botasaurus_fails_key t d"
proof -
  have no: "t @ CHR '':'' # d \<noteq> p @ CHR '':'' # t @ CHR '':'' # d" for p
  proof
    assume "t @ CHR '':'' # d = p @ CHR '':'' # t @ CHR '':'' # d"
    then have "length (t @ CHR '':'' # d) = length (p @ CHR '':'' # t @ CHR '':'' # d)" by (rule arg_cong)
    then show False by simp
  qed
  show "hint_key t d \<noteq> probe_key t d" "hint_key t d \<noteq> pool_block_key t d" "hint_key t d \<noteq> botasaurus_fails_key t d"
    using no [of "''probe''"] no [of "''poolblock''"] no [of "''botafail''"]
    by (simp_all add: hint_key_def probe_key_def pool_block_key_def botasaurus_fails_key_def)
qed (simp_all add: probe_key_def pool_block_key_def botasaurus_fails_key_def)

lemma as_int_simps [simp]: "as_int None = Some 0" "as_int (Some (RInt i)) = Some i"
  by (simp_all add: as_int_def)

lemma live_wait:
  "live (ks_wait d K) k =
     (case live K k of None \<Rightarrow> None | Some e \<Rightarrow> if alive (ks_now K + int d) e then Some e else None)"
  by (auto simp: live_def alive_def split: option.splits)

lemma str_at_live:
  "live K k = None \<Longrightarrow> str_at K k = Some None"
  "live K k = Some \<lparr>e_val = VStr v, e_exp = x\<rparr> \<Longrightarrow> str_at K k = Some (Some v)"
  by (simp_all add: str_at_def)

text \<open>A stored integer with its expiry, and what a plan makes of the three hints.\<close>

definition stored :: "keyspace \<Rightarrow> string \<Rightarrow> int \<Rightarrow> int \<Rightarrow> bool" where
  "stored K k i x \<longleftrightarrow> live K k = Some \<lparr>e_val = VStr (RInt i), e_exp = Some x\<rparr>"

text \<open>One counted call: the counter goes up, and the first count arms its expiry.\<close>

lemma run_is_reprobe:
  assumes "2 \<le> reprobe_every cfg" "0 < level_memory_ttl_seconds cfg"
    and "stored K (probe_key t d) c x \<and> 0 < c \<or> live K (probe_key t d) = None \<and> c = 0"
  shows "\<exists>K'. run mem_server (andthen (is_reprobe cfg t d) f) [] K =
      run mem_server (f ((c + 1) mod reprobe_every cfg = 0)) [] K' \<and>
    ks_now K' = ks_now K \<and> (\<forall>k. k \<noteq> probe_key t d \<longrightarrow> live K' k = live K k) \<and>
    stored K' (probe_key t d) (c + 1) (if c = 0 then ks_now K + 1000 * level_memory_ttl_seconds cfg else x)"
proof -
  let ?k = "probe_key t d"
  let ?ttl = "1000 * level_memory_ttl_seconds cfg"
  have andthen_call: "andthen (call q h) f = call q (\<lambda>v. andthen (h v) f)" for q and h :: "reply \<Rightarrow> bool prog"
    by (auto simp: call_def fun_eq_iff split: sum.splits)
  define K1 where "K1 = put_str ?k (RInt (c + 1)) (deadline K ?k) K"
  have inc: "redis_exec (INCRBY ?k 1) K = (RInteger (c + 1), K1)"
    using assms(3) by (auto simp: K1_def stored_def str_at_live)
  show ?thesis
  proof (cases "c = 0")
    case True
    with assms(3) have none: "live K ?k = None" by simp
    define K2 where "K2 = bump ?k ?ttl K1"
    have live1: "live K1 ?k = Some \<lparr>e_val = VStr (RInt 1), e_exp = None\<rparr>"
      using none True by (simp add: K1_def live_put_str deadline_def)
    have "run mem_server (andthen (is_reprobe cfg t d) f) [] K =
        run mem_server (f (1 mod reprobe_every cfg = 0)) [] K2"
      using assms(1) True inc
      by (simp add: is_reprobe_def andthen_call run_simps Let_def K2_def del: redis_exec.simps)
        (simp add: run_simps)
    moreover have "\<forall>k. k \<noteq> ?k \<longrightarrow> live K2 k = live K k"
      using assms(2) by (simp add: K2_def live_bump K1_def live_put_str)
    moreover have "stored K2 ?k 1 (ks_now K + ?ttl)"
      using assms(2) live1 by (simp add: K2_def live_bump stored_def K1_def)
    moreover have "ks_now K2 = ks_now K" by (simp add: K2_def bump_def K1_def split: option.splits)
    ultimately show ?thesis using True by auto
  next
    case False
    with assms(3) have st: "stored K ?k c x" "0 < c" by auto
    then have dl: "deadline K ?k = Some x" by (simp add: stored_def deadline_def)
    have "run mem_server (andthen (is_reprobe cfg t d) f) [] K =
        run mem_server (f ((c + 1) mod reprobe_every cfg = 0)) [] K1"
      using assms(1) False inc
      by (simp add: is_reprobe_def andthen_call run_simps Let_def del: redis_exec.simps)
    moreover have "\<forall>k. k \<noteq> ?k \<longrightarrow> live K1 k = live K k" by (simp add: K1_def live_put_str)
    moreover have "ks_now K \<le> x" using st(1) by (auto simp: stored_def alive_def dest: live_alive)
    then have "stored K1 ?k (c + 1) x" by (simp add: stored_def K1_def live_put_str dl)
    ultimately show ?thesis using False by (auto simp: K1_def)
  qed
qed

lemma andthen_Return [simp]: "andthen p Return = p"
  by (induction p) (auto simp: fun_eq_iff)

lemma run_catch_andthen:
  "run sv p [] s = (Inr a, s') \<Longrightarrow> run sv (catch (andthen p f) h) [] s = run sv (catch (f a) h) [] s'"
  by (induction p arbitrary: s) (auto split: prod.splits)

text \<open>A plan with nothing stored but a level hint and the counter.\<close>

lemma run_plan:
  assumes cfg: "level_memory_enabled cfg" "2 \<le> reprobe_every cfg" "0 < level_memory_ttl_seconds cfg"
    and t: "CHR '':'' \<notin> set t"
    and probe: "stored K (probe_key t d) c x \<and> 0 < c \<or> live K (probe_key t d) = None \<and> c = 0"
    and hint: "stored K (hint_key t d) L y" and none: "live K (pool_block_key t d) = None"
      "live K (botasaurus_fails_key t d) = None"
    and levels: "hd levels \<le> L" "L \<le> last levels"
  shows "\<exists>K'. run mem_server (plan cfg t d levels) [] K =
      (Inr (if (c + 1) mod reprobe_every cfg = 0 then neutral_plan levels
            else \<lparr>start_level = L, skip_pool = False, skip_botasaurus = False\<rparr>), K') \<and>
    ks_now K' = ks_now K \<and> (\<forall>k. k \<noteq> probe_key t d \<longrightarrow> live K' k = live K k) \<and>
    stored K' (probe_key t d) (c + 1) (if c = 0 then ks_now K + 1000 * level_memory_ttl_seconds cfg else x)"
proof -
  from run_is_reprobe [OF cfg(2,3) probe, of Return] obtain K' where
    K': "run mem_server (is_reprobe cfg t d) [] K = (Inr ((c + 1) mod reprobe_every cfg = 0), K')"
      "ks_now K' = ks_now K" "\<forall>k. k \<noteq> probe_key t d \<longrightarrow> live K' k = live K k"
      "stored K' (probe_key t d) (c + 1) (if c = 0 then ks_now K + 1000 * level_memory_ttl_seconds cfg else x)"
    by auto
  note ne = level_keys_distinct [OF t, of d]
  have reads: "str_at K' (hint_key t d) = Some (Some (RInt L))" "str_at K' (pool_block_key t d) = Some None"
    "str_at K' (botasaurus_fails_key t d) = Some None"
    using K'(3) hint none ne by (auto simp: stored_def intro!: str_at_live)
  have "run mem_server (plan cfg t d levels) [] K =
      (Inr (if (c + 1) mod reprobe_every cfg = 0 then neutral_plan levels
            else \<lparr>start_level = L, skip_pool = False, skip_botasaurus = False\<rparr>), K')"
    using cfg(1) levels
    by (simp add: plan_def run_catch_andthen [OF K'(1)] run_simps reads bulk_def clamp_hint_def py_int_def)
  with K' show ?thesis by blast
qed

lemma run_record_hint:
  assumes "level_memory_enabled cfg" "0 < level_memory_ttl_seconds cfg" "1 < L"
  shows "\<exists>K'. run mem_server (mem_record_success cfg t d L) [] K = (Inr (), K') \<and> ks_now K' = ks_now K \<and>
    stored K' (hint_key t d) L (ks_now K + 1000 * level_memory_ttl_seconds cfg) \<and>
    (\<forall>k. k \<noteq> hint_key t d \<longrightarrow> live K' k = live K k)"
  using assms
  by (auto simp: mem_record_success_def quietly_def run_simps stored_def live_put_str
      intro!: exI [of _ "put_str (hint_key t d) (RInt L) (Some (ks_now K + 1000 * level_memory_ttl_seconds cfg)) K"])

text \<open>
  A crawl of one domain: every \<open>g\<close> milliseconds a URL is planned, and level \<open>L\<close> is what works.
\<close>

primrec crawl ::
  "escalation_config \<Rightarrow> string \<Rightarrow> string \<Rightarrow> int list \<Rightarrow> int \<Rightarrow> nat \<Rightarrow> nat \<Rightarrow> keyspace \<Rightarrow> (exn + domain_plan) list" where
  "crawl cfg t d levels L g 0 K = []"
| "crawl cfg t d levels L g (Suc n) K =
     (case run mem_server (plan cfg t d levels) [] (ks_wait g K) of
        (p, K1) \<Rightarrow> p # crawl cfg t d levels L g n (snd (run mem_server (mem_record_success cfg t d L) [] K1)))"

definition crawl_state :: "escalation_config \<Rightarrow> string \<Rightarrow> string \<Rightarrow> int \<Rightarrow> nat \<Rightarrow> keyspace \<Rightarrow> bool" where
  "crawl_state cfg t d L g K \<longleftrightarrow>
     (\<exists>c. 0 < c \<and> c < reprobe_every cfg \<and>
        stored K (probe_key t d) c (ks_now K - (c - 1) * int g + 1000 * level_memory_ttl_seconds cfg)) \<and>
     stored K (hint_key t d) L (ks_now K + 1000 * level_memory_ttl_seconds cfg) \<and>
     live K (pool_block_key t d) = None \<and> live K (botasaurus_fails_key t d) = None"

lemma crawl_step:
  assumes cfg: "level_memory_enabled cfg" "2 \<le> reprobe_every cfg" "0 < level_memory_ttl_seconds cfg"
    and t: "CHR '':'' \<notin> set t"
    and gap: "int g \<le> 1000 * level_memory_ttl_seconds cfg"
      "1000 * level_memory_ttl_seconds cfg < (reprobe_every cfg - 1) * int g"
    and levels: "hd levels \<le> L" "L \<le> last levels" "1 < L"
    and state: "crawl_state cfg t d L g K"
  shows "\<exists>K1 K2. run mem_server (plan cfg t d levels) [] (ks_wait g K) =
      (Inr \<lparr>start_level = L, skip_pool = False, skip_botasaurus = False\<rparr>, K1) \<and>
    run mem_server (mem_record_success cfg t d L) [] K1 = (Inr (), K2) \<and> crawl_state cfg t d L g K2"
proof -
  let ?ttl = "1000 * level_memory_ttl_seconds cfg"
  let ?W = "ks_wait g K"
  note ne = level_keys_distinct [OF t, of d]
  from state obtain c where c: "0 < c" "c < reprobe_every cfg"
      "stored K (probe_key t d) c (ks_now K - (c - 1) * int g + ?ttl)"
    and hint: "stored K (hint_key t d) L (ks_now K + ?ttl)"
    and none: "live K (pool_block_key t d) = None" "live K (botasaurus_fails_key t d) = None"
    by (auto simp: crawl_state_def)
  define c' where "c' = (if c * int g \<le> ?ttl then c else 0)"
  have hintW: "stored ?W (hint_key t d) L (ks_now K + ?ttl)"
    using hint gap(1) by (simp add: stored_def live_wait alive_def)
  have noneW: "live ?W (pool_block_key t d) = None" "live ?W (botasaurus_fails_key t d) = None"
    using none by (simp_all add: live_wait)
  have age: "ks_now K + int g \<le> ks_now K - (c - 1) * int g + ?ttl \<longleftrightarrow> c * int g \<le> ?ttl"
    by (simp add: algebra_simps)
  have probeW: "stored ?W (probe_key t d) c' (ks_now K - (c - 1) * int g + ?ttl) \<and> 0 < c' \<or>
      live ?W (probe_key t d) = None \<and> c' = 0"
    using c age by (simp add: c'_def stored_def live_wait alive_def)
  have small: "0 < c' + 1" "c' + 1 < reprobe_every cfg"
  proof -
    show "0 < c' + 1" using c by (simp add: c'_def)
    show "c' + 1 < reprobe_every cfg"
    proof (cases "c * int g \<le> ?ttl")
      case True
      with gap(2) have "c * int g < (reprobe_every cfg - 1) * int g" by linarith
      then have "c < reprobe_every cfg - 1" by (metis mult_less_cancel_right of_nat_0_le_iff not_less)
      with True show ?thesis by (simp add: c'_def)
    next
      case False
      with gap have "reprobe_every cfg \<noteq> 2" by auto
      with False cfg(2) show ?thesis by (simp add: c'_def)
    qed
  qed
  then have "(c' + 1) mod reprobe_every cfg \<noteq> 0" by simp
  with run_plan [OF cfg t probeW hintW noneW levels(1,2)] obtain K1 where
    K1: "run mem_server (plan cfg t d levels) [] ?W = (Inr \<lparr>start_level = L, skip_pool = False, skip_botasaurus = False\<rparr>, K1)"
      "ks_now K1 = ks_now ?W" "\<forall>k. k \<noteq> probe_key t d \<longrightarrow> live K1 k = live ?W k"
      "stored K1 (probe_key t d) (c' + 1) (if c' = 0 then ks_now ?W + ?ttl else ks_now K - (c - 1) * int g + ?ttl)"
    by auto
  from run_record_hint [OF cfg(1,3) levels(3), of t d K1] obtain K2 where
    K2: "run mem_server (mem_record_success cfg t d L) [] K1 = (Inr (), K2)" "ks_now K2 = ks_now K1"
      "stored K2 (hint_key t d) L (ks_now K1 + ?ttl)" "\<forall>k. k \<noteq> hint_key t d \<longrightarrow> live K2 k = live K1 k"
    by blast
  have "stored K2 (probe_key t d) (c' + 1) (ks_now K2 - c' * int g + ?ttl)"
    using K1(2,4) K2(2,4) ne c by (auto simp: stored_def c'_def algebra_simps split: if_splits)
  moreover have "live K2 (pool_block_key t d) = None" "live K2 (botasaurus_fails_key t d) = None"
    using K1(3) K2(4) ne noneW by metis+
  ultimately have "crawl_state cfg t d L g K2"
    using K2(2,3) small unfolding crawl_state_def by (auto intro!: exI [of _ "c' + 1"])
  with K1(1) K2(1) show ?thesis by blast
qed

lemma crawl_never_reprobes:
  assumes cfg: "level_memory_enabled cfg" "2 \<le> reprobe_every cfg" "0 < level_memory_ttl_seconds cfg"
    and t: "CHR '':'' \<notin> set t"
    and gap: "int g \<le> 1000 * level_memory_ttl_seconds cfg"
      "1000 * level_memory_ttl_seconds cfg < (reprobe_every cfg - 1) * int g"
    and levels: "hd levels \<le> L" "L \<le> last levels" "1 < L"
    and state: "crawl_state cfg t d L g K"
  shows "crawl cfg t d levels L g n K = replicate n (Inr \<lparr>start_level = L, skip_pool = False, skip_botasaurus = False\<rparr>)"
  using state
proof (induction n arbitrary: K)
  case (Suc n)
  from crawl_step [OF cfg t gap levels Suc.prems] obtain K1 K2 where
    "run mem_server (plan cfg t d levels) [] (ks_wait g K) =
       (Inr \<lparr>start_level = L, skip_pool = False, skip_botasaurus = False\<rparr>, K1)"
    "run mem_server (mem_record_success cfg t d L) [] K1 = (Inr (), K2)" "crawl_state cfg t d L g K2"
    by blast
  with Suc.IH show ?case by simp
qed simp

text \<open>The first URL of a fresh memory runs the full ladder and leaves a hint behind.\<close>

lemma crawl_state_first:
  assumes cfg: "level_memory_enabled cfg" "2 \<le> reprobe_every cfg" "0 < level_memory_ttl_seconds cfg"
    and t: "CHR '':'' \<notin> set t" and L: "1 < L"
    and fresh: "\<And>k. live K k = None"
  shows "\<exists>K1 K2. run mem_server (plan cfg t d levels) [] K = (Inr (neutral_plan levels), K1) \<and>
    run mem_server (mem_record_success cfg t d L) [] K1 = (Inr (), K2) \<and> crawl_state cfg t d L g K2"
proof -
  let ?ttl = "1000 * level_memory_ttl_seconds cfg"
  note ne = level_keys_distinct [OF t, of d]
  from run_is_reprobe [OF cfg(2,3), of K t d 0 _ Return] fresh obtain K1 where
    K1: "run mem_server (is_reprobe cfg t d) [] K = (Inr False, K1)" "ks_now K1 = ks_now K"
      "\<forall>k. k \<noteq> probe_key t d \<longrightarrow> live K1 k = None" "stored K1 (probe_key t d) 1 (ks_now K + ?ttl)"
    using cfg(2) by fastforce
  have "str_at K1 k = Some None" if "k \<noteq> probe_key t d" for k
    using K1(3) that by (intro str_at_live) simp
  then have reads: "str_at K1 (hint_key t d) = Some None" "str_at K1 (pool_block_key t d) = Some None"
    "str_at K1 (botasaurus_fails_key t d) = Some None"
    using ne by metis+
  have plan: "run mem_server (plan cfg t d levels) [] K = (Inr (neutral_plan levels), K1)"
    using cfg(1) by (simp add: plan_def run_catch_andthen [OF K1(1)] run_simps reads bulk_def clamp_hint_def
        neutral_plan_def)
  from run_record_hint [OF cfg(1,3) L, of t d K1] obtain K2 where
    K2: "run mem_server (mem_record_success cfg t d L) [] K1 = (Inr (), K2)" "ks_now K2 = ks_now K1"
      "stored K2 (hint_key t d) L (ks_now K1 + ?ttl)" "\<forall>k. k \<noteq> hint_key t d \<longrightarrow> live K2 k = live K1 k"
    by blast
  have "stored K2 (probe_key t d) 1 (ks_now K2 - (1 - 1) * int g + ?ttl)"
    using K1(2,4) K2(2,4) ne by (simp add: stored_def)
  moreover have "live K2 (pool_block_key t d) = None" "live K2 (botasaurus_fails_key t d) = None"
    using K1(3) K2(4) ne by metis+
  ultimately have "crawl_state cfg t d L g K2"
    using K2(2,3) cfg(2) unfolding crawl_state_def by (intro conjI exI [of _ 1]) auto
  with plan K2(1) show ?thesis by blast
qed

text \<open>
  A slow crawl never re-probes. The counter of the re-probe lapses one memory lifetime after
  its first count, while every success renews the level hint: when the URLs of a domain come
  at most a lifetime apart but fewer than \<open>reprobe_every\<close> of them fit into one lifetime, then
  after the first URL every later one starts at the remembered level, for ever.
\<close>

theorem slow_crawl_never_reprobes:
  assumes "level_memory_enabled cfg" "2 \<le> reprobe_every cfg" "0 < level_memory_ttl_seconds cfg"
    and "CHR '':'' \<notin> set t" "\<And>k. live K k = None"
    and "int g \<le> 1000 * level_memory_ttl_seconds cfg"
      "1000 * level_memory_ttl_seconds cfg < (reprobe_every cfg - 1) * int g"
    and "hd levels \<le> L" "L \<le> last levels" "1 < L"
  shows "\<exists>K1. run mem_server (plan cfg t d levels) [] K = (Inr (neutral_plan levels), K1) \<and>
    crawl cfg t d levels L g n (snd (run mem_server (mem_record_success cfg t d L) [] K1)) =
      replicate n (Inr \<lparr>start_level = L, skip_pool = False, skip_botasaurus = False\<rparr>)"
proof -
  from crawl_state_first [OF assms(1-4,10,5), of d levels g] obtain K1 K2 where
    "run mem_server (plan cfg t d levels) [] K = (Inr (neutral_plan levels), K1)"
    "run mem_server (mem_record_success cfg t d L) [] K1 = (Inr (), K2)" "crawl_state cfg t d L g K2"
    by blast
  with crawl_never_reprobes [OF assms(1-4,6-10), of d K2 n] show ?thesis by auto
qed

theorem slow_crawl_never_reprobes_witness:
  "\<exists>K1. run mem_server (plan escalation_defaults ''acme'' ''a.com'' [1, 2, 3]) [] empty_keyspace =
        (Inr (neutral_plan [1, 2, 3]), K1) \<and>
     crawl escalation_defaults ''acme'' ''a.com'' [1, 2, 3] 3 7200000 1000
       (snd (run mem_server (mem_record_success escalation_defaults ''acme'' ''a.com'' 3) [] K1)) =
       replicate 1000 (Inr \<lparr>start_level = 3, skip_pool = False, skip_botasaurus = False\<rparr>)"
  using slow_crawl_never_reprobes [of escalation_defaults "''acme''" empty_keyspace 7200000 "[1, 2, 3]" 3 "''a.com''" 1000]
  by (simp add: escalation_defaults_def)

end
