(* ===== verification/Worker_Base.thy ===== *)
theory Worker_Base
  imports Challenge_Detector Level_Memory Paid_Gateway
begin

text \<open>
  The frame of \<^verbatim>\<open>src/src/scraper_engine/orchestrator/worker.py\<close>: every interaction of the worker
  with another component, with the page fetchers or with the state its tasks share is one
  operation of \<open>wop\<close>, answered by the world; a worker program is a tree of such operations. On
  top of it sits the monad of one URL's task, whose local variables survive an exception (the
  handlers read them), and a calculus that proves a statement for every way the world may
  answer. The pure helpers and the tables of the module are here as well.

  Not modelled: the \<open>timings\<close> dictionary, metrics and log lines. Python's aliasing of result
  objects is made explicit: where the code mutates an object that another variable still
  refers to, both are updated.
\<close>

subsection \<open>Configuration\<close>

datatype dataimpulse_strategy = Free_Only | Paid_Only | Free_First

record dataimpulse_config =
  di_enabled :: bool
  di_strategy :: dataimpulse_strategy
  di_country :: string
  di_rotate_on_block_retries :: nat
  di_asn :: "int option"
  di_refused_ttl_seconds :: int

record request_limits =
  pl_default_concurrency :: int
  pl_default_delay_seconds :: rat
  pl_slot_wait_timeout_seconds :: rat
  pl_slot_retry_interval_seconds :: rat
  pl_max_request_concurrency :: int
  pl_min_request_delay_seconds :: rat
  pl_max_request_timeout_seconds :: int
  pl_max_concurrent_urls_per_job :: nat

record admission_config =
  ac_camoufox_weight :: rat
  ac_botasaurus_weight :: rat
  ac_per_url_admission_cap_seconds :: rat
  ac_deadline_margin_seconds :: rat

text \<open>
  A constructed \<open>Worker\<close>: its configuration and which optional collaborators it was given. The
  last three fields are code outside the repository: the host name of a URL (\<open>urllib\<close>), its
  registrable domain (\<open>tldextract\<close>) and the text of an exception.
\<close>

record worker =
  wk_limits :: request_limits
  wk_dataimpulse :: dataimpulse_config
  wk_escalation :: escalation_config
  wk_admission_cfg :: admission_config
  wk_l2_engine :: string
  wk_gateway_env :: gateway_env
  wk_has_pg :: bool
  wk_has_admission :: bool
  wk_has_extraction_engine :: bool
  wk_has_firecrawl :: bool
  wk_hostname :: "string \<Rightarrow> string option"
  wk_registrable :: "string \<Rightarrow> string"
  wk_exn_text :: "exn \<Rightarrow> string"

definition limits_defaults :: request_limits where
  "limits_defaults = \<lparr>pl_default_concurrency = 2, pl_default_delay_seconds = 5,
     pl_slot_wait_timeout_seconds = 300, pl_slot_retry_interval_seconds = 1,
     pl_max_request_concurrency = 10, pl_min_request_delay_seconds = 1 / 2,
     pl_max_request_timeout_seconds = 300, pl_max_concurrent_urls_per_job = 5\<rparr>"

definition dataimpulse_defaults :: dataimpulse_config where
  "dataimpulse_defaults = \<lparr>di_enabled = False, di_strategy = Free_Only, di_country = [],
     di_rotate_on_block_retries = 2, di_asn = None, di_refused_ttl_seconds = 600\<rparr>"

definition admission_defaults :: admission_config where
  "admission_defaults = \<lparr>ac_camoufox_weight = 1, ac_botasaurus_weight = 1,
     ac_per_url_admission_cap_seconds = 1800, ac_deadline_margin_seconds = 240\<rparr>"

text \<open>The gateway check of \<open>Worker.__init__\<close>.\<close>

definition worker_init :: "worker \<Rightarrow> worker res" where
  "worker_init self =
     (if di_enabled (wk_dataimpulse self) \<and> build_gateway_proxy (wk_gateway_env self) None None None = None
      then Inl (RuntimeError ''config.dataimpulse.enabled=true but the gateway environment is not set'')
      else Inr self)"

subsection \<open>Tables\<close>

definition LEVELS :: "int list" where
  "LEVELS = [1, 2, 3]"

definition PROXY_RETRYABLE_CATEGORIES :: "failure_category list" where
  "PROXY_RETRYABLE_CATEGORIES = [BROWSER_CRASH, NETWORK_TIMEOUT]"

definition SAME_LEVEL_PROXY_RETRIES :: nat where
  "SAME_LEVEL_PROXY_RETRIES = 1"

definition BLOCK_CATEGORIES :: "failure_category list" where
  "BLOCK_CATEGORIES = [DETECTION_BLOCK, RATE_LIMITED]"

definition NO_SITE_ANSWER_CATEGORIES :: "failure_category list" where
  "NO_SITE_ANSWER_CATEGORIES = [BROWSER_CRASH, NETWORK_TIMEOUT, PROXY_EXHAUSTED, PROXY_AUTH_FAILED]"

definition GATEWAY_ROTATE_CATEGORIES :: "failure_category list" where
  "GATEWAY_ROTATE_CATEGORIES = BLOCK_CATEGORIES"

definition NOT_FOUND_STATUSES :: "int list" where
  "NOT_FOUND_STATUSES = [404, 410]"

definition NOT_FOUND_MIN_BODY_CHARS :: nat where
  "NOT_FOUND_MIN_BODY_CHARS = 200"

definition REFUSAL_STATUSES :: "int list" where
  "REFUSAL_STATUSES = [401, 403, 405]"

definition PERMANENT_FAILURE_CATEGORIES :: "failure_category list" where
  "PERMANENT_FAILURE_CATEGORIES = [SSRF_BLOCKED, QUOTA_EXCEEDED, HOST_UNREACHABLE, NOT_FOUND]"

definition TRANSIENT_FAILURE_CATEGORIES :: "failure_category list" where
  "TRANSIENT_FAILURE_CATEGORIES =
     [PROXY_EXHAUSTED, CIRCUIT_OPEN, POLITENESS_TIMEOUT, CAPACITY_TIMEOUT, DEPENDENCY_UNAVAILABLE]"

definition DLQ_ELIGIBLE_CATEGORIES :: "failure_category list" where
  "DLQ_ELIGIBLE_CATEGORIES = PERMANENT_FAILURE_CATEGORIES @ TRANSIENT_FAILURE_CATEGORIES"

definition GATEWAY_REFUSED_MARKER :: string where
  "GATEWAY_REFUSED_MARKER = ''paid gateway is refusing our credentials''"

definition GATEWAY_REFUSED_MESSAGE :: string where
  "GATEWAY_REFUSED_MESSAGE = GATEWAY_REFUSED_MARKER @ '' (plan out of traffic or bad login) '' @ em_dash
     @ '' not attempted; top up or fix DATAIMPULSE_* and it is re-tested automatically''"

definition BLOCK_STATUS_MEANING :: "int \<Rightarrow> string option" where
  "BLOCK_STATUS_MEANING = map_of [(401, ''unauthorized''), (403, ''refused''),
     (404, ''not found, or a block shaped like one''), (405, ''method refused''),
     (410, ''gone, or a block shaped like it''), (429, ''rate limited'')]"

definition in_cats :: "failure_category option \<Rightarrow> failure_category list \<Rightarrow> bool" where
  "in_cats c cs = (case c of None \<Rightarrow> False | Some x \<Rightarrow> x \<in> set cs)"

lemma in_cats_simps [simp]: "\<not> in_cats None cs" "in_cats (Some c) cs \<longleftrightarrow> c \<in> set cs"
  by (simp_all add: in_cats_def)

text \<open>Every category is permanent, transient, or falls through to the next level.\<close>

lemma permanent_transient_disjoint: "set PERMANENT_FAILURE_CATEGORIES \<inter> set TRANSIENT_FAILURE_CATEGORIES = {}"
  by (simp add: PERMANENT_FAILURE_CATEGORIES_def TRANSIENT_FAILURE_CATEGORIES_def)

subsection \<open>Helpers on results\<close>

definition note_gateway_skipped :: "bool \<Rightarrow> fetch_result \<Rightarrow> fetch_result" where
  "note_gateway_skipped skipped r =
     (if \<not> skipped then r
      else let r1 = r\<lparr>fr_paid_gateway_skipped := Some True\<rparr>; message = or_str (fr_error_message r) []
        in if contains message GATEWAY_REFUSED_MARKER then r1
           else r1\<lparr>fr_error_message := Some (if message \<noteq> []
                  then message @ '' ('' @ GATEWAY_REFUSED_MESSAGE @ '')'' else GATEWAY_REFUSED_MESSAGE)\<rparr>)"

text \<open>The delay of a re-drive from now on, in seconds; \<open>None\<close> leaves the reaper free.\<close>

definition retry_not_before :: "fetch_result \<Rightarrow> int option" where
  "retry_not_before terminal =
     (if fr_failure_category terminal \<noteq> Some RATE_LIMITED \<or> fr_retry_after_seconds terminal = None
      then None else fr_retry_after_seconds terminal)"

definition block_what :: "string option \<Rightarrow> string res" where
  "block_what reason =
     (case reason of None \<Rightarrow> Inr ''blocked''
      | Some r \<Rightarrow>
        if starts_with r ''status:'' then
          (case int_of_text (removeprefix r ''status:'') of Inl e \<Rightarrow> Inl e
           | Inr status \<Rightarrow> Inr (case BLOCK_STATUS_MEANING status of
               Some meaning \<Rightarrow> ''HTTP '' @ py_str_int status @ '' ('' @ meaning @ '')''
             | None \<Rightarrow> ''HTTP '' @ py_str_int status))
        else if starts_with r ''signature:'' then
          Inr (''challenge page (signature '' @ [CHR 0x27] @ removeprefix r ''signature:'' @ [CHR 0x27] @ '')'')
        else if r = ''js_gated'' then Inr ''JavaScript-gated page (no content rendered)''
        else Inr (''blocked page ('' @ r @ '')''))"

definition block_reason_of :: "fetch_result \<Rightarrow> string option" where
  "block_reason_of r =
     (if truthy_str (fr_block_reason r) then fr_block_reason r
      else if or_int (fr_http_status r) 0 \<noteq> 0 then Some (status_reason (or_int (fr_http_status r) 0)) else None)"

definition route_of :: "fetch_result \<Rightarrow> string" where
  "route_of r = (case fr_proxy_source r of None \<Rightarrow> ''direct'' | Some s \<Rightarrow> source_value s)"

definition describe_block :: "fetch_result \<Rightarrow> fetch_result \<Rightarrow> fetch_result res" where
  "describe_block terminal lst =
     (let reason = block_reason_of lst; t1 = terminal\<lparr>fr_block_reason := reason\<rparr>
      in case block_what reason of Inl e \<Rightarrow> Inl e
        | Inr what \<Rightarrow>
          let summary = what @ '' at L'' @ py_str_int (fr_level_used lst) @ '' via '' @ route_of lst
          in Inr (t1\<lparr>fr_error_message := Some (if truthy_str (fr_error_message t1)
               then summary @ '' '' @ em_dash @ '' '' @ or_str (fr_error_message t1) [] else summary)\<rparr>))"

text \<open>
  A \<open>status:\<close> reason written by the engine is read back: the text of a non-negative status is
  a text \<open>int()\<close> accepts.
\<close>

lemma block_what_status:
  assumes "0 \<le> s"
  shows "\<exists>w. block_what (Some (status_reason s)) = Inr w"
proof -
  have "py_str_int s = digits_of (nat s)" using assms by (simp add: py_str_int_def)
  then have "int_of_text (removeprefix (status_reason s) ''status:'') = Inr s"
    using assms by (simp add: status_reason_def removeprefix_def int_of_text_digits_of)
  moreover have "starts_with (status_reason s) ''status:''" by (simp add: status_reason_def)
  ultimately show ?thesis by (simp add: block_what_def)
qed

definition html_of :: "fetch_result \<Rightarrow> string" where
  "html_of r = or_str (fr_html r) []"

definition status_of :: "fetch_result \<Rightarrow> int" where
  "status_of r = or_int (fr_http_status r) 200"

text \<open>The challenge verdict on a result as the worker asks for it.\<close>

definition page_challenge :: "fetch_result \<Rightarrow> string option" where
  "page_challenge r = challenge_reason (html_of r) (status_of r) False"

definition looks_blocked :: "fetch_result \<Rightarrow> bool" where
  "looks_blocked r =
     (if in_cats (fr_failure_category r) GATEWAY_ROTATE_CATEGORIES then True
      else fr_success r \<and> is_challenge_page (html_of r) (status_of r) False)"

definition is_final_not_found :: "fetch_result \<Rightarrow> bool" where
  "is_final_not_found r =
     (case fr_http_status r of None \<Rightarrow> False
      | Some s \<Rightarrow> s \<in> set NOT_FOUND_STATUSES
          \<and> NOT_FOUND_MIN_BODY_CHARS \<le> length (py_strip (html_of r))
          \<and> content_reason (html_of r) = None)"

text \<open>The last test before a page counts as content.\<close>

definition blocked_status :: "fetch_result \<Rightarrow> bool" where
  "blocked_status r = in_cats (classify_http_status (status_of r)) BLOCK_CATEGORIES"

definition still_looks_blocked :: "fetch_result \<Rightarrow> bool" where
  "still_looks_blocked r \<longleftrightarrow> fr_is_challenge_page r \<or> blocked_status r \<or> looks_javascript_gated (html_of r)"

subsection \<open>Helpers on requests\<close>

definition resolve_levels :: "config_overrides option \<Rightarrow> int list" where
  "resolve_levels ov =
     (case ov of None \<Rightarrow> LEVELS
      | Some o' \<Rightarrow>
        let low = or_int (co_min_level o') (hd LEVELS); high = or_int (co_max_level o') (last LEVELS)
        in filter (\<lambda>level. low \<le> level \<and> level \<le> high) LEVELS)"

definition resolve_politeness :: "worker \<Rightarrow> config_overrides option \<Rightarrow> int \<times> rat" where
  "resolve_politeness self ov =
     (let cfg = wk_limits self in
      case ov of None \<Rightarrow> (pl_default_concurrency cfg, pl_default_delay_seconds cfg)
      | Some o' \<Rightarrow>
        ((case co_politeness_concurrency o' of None \<Rightarrow> pl_default_concurrency cfg
          | Some c \<Rightarrow> min c (pl_max_request_concurrency cfg)),
         (case co_politeness_delay_seconds o' of None \<Rightarrow> pl_default_delay_seconds cfg
          | Some d \<Rightarrow> max d (pl_min_request_delay_seconds cfg))))"

definition clamp_timeout :: "worker \<Rightarrow> scrape_request \<Rightarrow> scrape_request" where
  "clamp_timeout self request =
     (case rq_overrides request of None \<Rightarrow> request
      | Some o' \<Rightarrow>
        let cap = pl_max_request_timeout_seconds (wk_limits self)
        in if co_timeout_seconds o' \<le> cap then request
           else request\<lparr>rq_overrides := Some (o'\<lparr>co_timeout_seconds := cap\<rparr>)\<rparr>)"

definition l2_tries_botasaurus :: "worker \<Rightarrow> bool" where
  "l2_tries_botasaurus self = contains (wk_l2_engine self) ''botasaurus''"

definition gateway_fallback_eligible :: "worker \<Rightarrow> bool" where
  "gateway_fallback_eligible self \<longleftrightarrow> di_enabled (wk_dataimpulse self) \<and> di_strategy (wk_dataimpulse self) = Free_First"

definition paid_route_is_pool_only :: "worker \<Rightarrow> bool" where
  "paid_route_is_pool_only self \<longleftrightarrow> \<not> di_enabled (wk_dataimpulse self) \<or> di_strategy (wk_dataimpulse self) = Free_Only"

definition paid_only :: "worker \<Rightarrow> bool" where
  "paid_only self \<longleftrightarrow> di_enabled (wk_dataimpulse self) \<and> di_strategy (wk_dataimpulse self) = Paid_Only"

definition extract_domain :: "worker \<Rightarrow> string \<Rightarrow> string" where
  "extract_domain self url = or_str (wk_hostname self url) ''unknown''"

lemma valid_or_int_level:
  "in_range 1 3 v \<Longrightarrow> v = None \<and> or_int v d = d \<or> (\<exists>x. v = Some x \<and> or_int v d = x \<and> 1 \<le> x \<and> x \<le> 3)"
  by (auto simp: in_range_def or_int_def split: option.splits)

text \<open>For overrides that passed validation the ladder is a non-empty interval of the levels.\<close>

lemma resolve_levels_valid:
  assumes "valid_overrides ov"
  shows "resolve_levels ov \<noteq> []" "sorted (resolve_levels ov)" "distinct (resolve_levels ov)"
    "set (resolve_levels ov) \<subseteq> {1, 2, 3}"
proof -
  have "\<exists>low high. resolve_levels ov = filter (\<lambda>l. low \<le> l \<and> l \<le> high) LEVELS \<and>
      1 \<le> low \<and> low \<le> high \<and> high \<le> 3"
  proof (cases ov)
    case None
    then show ?thesis by (intro exI [of _ 1] exI [of _ 3]) (simp add: resolve_levels_def LEVELS_def)
  next
    case (Some o')
    with assms have v: "in_range 1 3 (co_min_level o')" "in_range 1 3 (co_max_level o')"
      "\<forall>lo hi. co_min_level o' = Some lo \<longrightarrow> co_max_level o' = Some hi \<longrightarrow> lo \<le> hi"
      by (simp_all add: valid_overrides_iff)
    have "1 \<le> or_int (co_min_level o') 1 \<and> or_int (co_min_level o') 1 \<le> or_int (co_max_level o') 3 \<and>
        or_int (co_max_level o') 3 \<le> 3"
      using valid_or_int_level [OF v(1), of 1] valid_or_int_level [OF v(2), of 3] v(3) by auto
    with Some show ?thesis
      by (intro exI [of _ "or_int (co_min_level o') 1"] exI [of _ "or_int (co_max_level o') 3"])
        (simp add: resolve_levels_def LEVELS_def Let_def)
  qed
  then obtain low high where r: "resolve_levels ov = filter (\<lambda>l. low \<le> l \<and> l \<le> high) LEVELS"
    "1 \<le> low" "low \<le> high" "high \<le> 3" by blast
  then have "low \<in> set (resolve_levels ov)" by (auto simp: LEVELS_def)
  then show "resolve_levels ov \<noteq> []" by auto
  show "sorted (resolve_levels ov)" "distinct (resolve_levels ov)" "set (resolve_levels ov) \<subseteq> {1, 2, 3}"
    unfolding r(1) by (auto simp: LEVELS_def)
qed

text \<open>What the server-side clamps guarantee, whatever the caller asked for.\<close>

lemma resolve_politeness_clamped:
  assumes "pl_default_concurrency (wk_limits self) \<le> pl_max_request_concurrency (wk_limits self)"
    "pl_min_request_delay_seconds (wk_limits self) \<le> pl_default_delay_seconds (wk_limits self)"
  shows "fst (resolve_politeness self ov) \<le> pl_max_request_concurrency (wk_limits self)"
    "pl_min_request_delay_seconds (wk_limits self) \<le> snd (resolve_politeness self ov)"
  using assms by (auto simp: resolve_politeness_def Let_def split: option.splits)

lemma clamp_timeout_le:
  "rq_overrides (clamp_timeout self request) = Some o' \<Longrightarrow>
     co_timeout_seconds o' \<le> pl_max_request_timeout_seconds (wk_limits self)"
  by (auto simp: clamp_timeout_def Let_def split: option.splits if_splits)

end
