(* ===== verification/Worker_Monad.thy ===== *)
theory Worker_Monad
  imports Worker_Base
begin

text \<open>
  Worker programs: the operations of the worker on its surroundings, their answers, programs as
  trees over them, the run of a program in a world, the monad of one URL's task, and the
  calculus of preconditions used to prove statements about every run.
\<close>

subsection \<open>Operations and answers\<close>

text \<open>A host-capacity claim, as \<open>_render_claim\<close> makes it.\<close>

record claim_request =
  cr_tenant :: string
  cr_domain :: string
  cr_weight :: rat
  cr_concurrency :: int
  cr_delay_seconds :: rat
  cr_priority_ms :: int
  cr_wait_budget_seconds :: rat

record fetch_request =
  fq_level :: int
  fq_url :: string
  fq_tenant :: string
  fq_proxy :: "proxy option"
  fq_overrides :: "config_overrides option"
  fq_skip_botasaurus :: bool

record dlq_entry =
  dq_tenant :: string
  dq_job_id :: string
  dq_url :: string
  dq_category :: failure_category
  dq_message :: string
  dq_level :: int
  dq_retry_after :: "int option"

text \<open>A row of \<open>scrape_results\<close> as the cache query returns it.\<close>

record cached_row =
  ro_http_status :: "int option"
  ro_is_challenge_page :: bool
  ro_level_used :: int
  ro_proxy_used :: "string option"
  ro_markdown :: "string option"
  ro_json_data :: "json option"
  ro_html_snapshot_url :: "string option"

datatype wop =
    AllowRequest string
  | RecordSuccess string
  | RecordFailure string
  | GatewayRefused
  | MarkRefused string
  | ClearRefused
  | GetPlan string string "int list"
  | ReadSiteRefusal string string
  | ReadGatewayEpoch
  | BumpGatewayEpoch
  | RecordSiteRefused string string "(string \<times> json) list"
  | ClearSiteRefusal string string
  | RecordLevel string string int
  | RecordPoolBlocked string string
  | RecordPoolOk string string
  | RecordBotaFailed string string
  | RecordBotaOk string string
  | WaitIfNeeded string string rat
  | AcquireSlot string string int
  | ReleaseSlot string string string
  | Clock
  | WallClock
  | ClaimSeat claim_request
  | ReleaseSeat
  | NewSessionId
  | GetProxy string int string
  | MarkProxySuccess string string int
  | MarkProxyFailure string string int string
  | Fetch fetch_request
  | EngineExtract string json bool bool
  | SelectorExtract string "json option" string
  | FirecrawlMarkdown string string
  | LocalMarkdown string
  | ReadJobStatus string string
  | ReadSucceeded string string
  | ReadCachedRow string string
  | DlqEnqueue dlq_entry
  | OnResult fetch_result
  | ReadCancelledFlag
  | SetCancelledFlag
  | AppendError string
  | SetResult nat fetch_result

datatype wans =
    AUnit
  | ABool bool
  | APlan domain_plan
  | AFields "(string \<times> json) list option"
  | AText string
  | ATextOpt "string option"
  | ATime rat
  | AProxy proxy
  | AResult fetch_result
  | ARow "cached_row option"
  | AUrls "string list"
  | AJson "json option"

text \<open>
  An answer of the wrong shape reads as some answer of the right shape, so the answers a program
  can get are those of its type and nothing else.
\<close>

definition as_bool :: "wans \<Rightarrow> bool" where "as_bool a = (case a of ABool b \<Rightarrow> b | _ \<Rightarrow> False)"
definition as_plan :: "int list \<Rightarrow> wans \<Rightarrow> domain_plan" where
  "as_plan levels a = (case a of APlan p \<Rightarrow> p | _ \<Rightarrow> neutral_plan levels)"
definition as_fields :: "wans \<Rightarrow> (string \<times> json) list option" where "as_fields a = (case a of AFields f \<Rightarrow> f | _ \<Rightarrow> None)"
definition as_text :: "wans \<Rightarrow> string" where "as_text a = (case a of AText t \<Rightarrow> t | _ \<Rightarrow> [])"
definition as_text_opt :: "wans \<Rightarrow> string option" where "as_text_opt a = (case a of ATextOpt t \<Rightarrow> t | _ \<Rightarrow> None)"
definition as_time :: "wans \<Rightarrow> rat" where "as_time a = (case a of ATime t \<Rightarrow> t | _ \<Rightarrow> 0)"
definition as_row :: "wans \<Rightarrow> cached_row option" where "as_row a = (case a of ARow r \<Rightarrow> r | _ \<Rightarrow> None)"
definition as_urls :: "wans \<Rightarrow> string list" where "as_urls a = (case a of AUrls u \<Rightarrow> u | _ \<Rightarrow> [])"
definition as_json :: "wans \<Rightarrow> json option" where "as_json a = (case a of AJson j \<Rightarrow> j | _ \<Rightarrow> None)"
definition as_result :: "string \<Rightarrow> int \<Rightarrow> wans \<Rightarrow> fetch_result" where
  "as_result url level a = (case a of AResult r \<Rightarrow> r | _ \<Rightarrow> new_result url False level 0)"
definition as_proxy :: "wans \<Rightarrow> proxy" where
  "as_proxy a = (case a of AProxy p \<Rightarrow> p | _ \<Rightarrow> \<lparr>px_id = 0, px_ip = [], px_port = 0, px_protocol = P_HTTP,
     px_anonymity = TRANSPARENT, px_asn_class = ASN_UNKNOWN, px_reliability_score = 50, px_username = None,
     px_password = None, px_source = Pool\<rparr>)"

lemmas answer_defs = as_bool_def as_plan_def as_fields_def as_text_def as_text_opt_def as_time_def
  as_row_def as_urls_def as_json_def as_result_def as_proxy_def

text \<open>
  What the worker relies on. The operations of level memory and gateway health swallow their
  errors (lemmas \<open>level_memory_never_raises\<close>, \<open>gateway_health_never_raises\<close>), so does the exit of
  a capacity claim (\<open>claim_exit\<close>); reading a clock or drawing a session label and touching the
  variables the tasks share cannot fail. A plan starts inside the ladder
  (\<open>plan_in_range\<close>). The pool hands out pool proxies. Everything else may answer or raise anything.
\<close>

fun quiet :: "wop \<Rightarrow> bool" where
  "quiet GatewayRefused = True"
| "quiet (MarkRefused e) = True"
| "quiet ClearRefused = True"
| "quiet (GetPlan t d ls) = True"
| "quiet (ReadSiteRefusal t s) = True"
| "quiet ReadGatewayEpoch = True"
| "quiet BumpGatewayEpoch = True"
| "quiet (RecordSiteRefused t s fs) = True"
| "quiet (ClearSiteRefusal t s) = True"
| "quiet (RecordLevel t d l) = True"
| "quiet (RecordPoolBlocked t d) = True"
| "quiet (RecordPoolOk t d) = True"
| "quiet (RecordBotaFailed t d) = True"
| "quiet (RecordBotaOk t d) = True"
| "quiet Clock = True"
| "quiet WallClock = True"
| "quiet ReleaseSeat = True"
| "quiet NewSessionId = True"
| "quiet ReadCancelledFlag = True"
| "quiet SetCancelledFlag = True"
| "quiet (AppendError m) = True"
| "quiet (SetResult i r) = True"
| "quiet _ = False"

definition answers :: "wop \<Rightarrow> exn + wans \<Rightarrow> bool" where
  "answers oper r \<longleftrightarrow>
     (quiet oper \<longrightarrow> \<not> isl r) \<and>
     (\<forall>t d levels p. oper = GetPlan t d levels \<longrightarrow> r = Inr (APlan p) \<longrightarrow>
        hd levels \<le> start_level p \<and> start_level p \<le> last levels) \<and>
     (\<forall>t l d p. oper = GetProxy t l d \<longrightarrow> r = Inr (AProxy p) \<longrightarrow> px_source p = Pool) \<and>
     (oper = NewSessionId \<longrightarrow> (\<exists>s. r = Inr (AText s) \<and> s \<noteq> []))"

subsection \<open>Programs and their runs\<close>

datatype 'a wprog = WRet 'a | WDo wop "exn + wans \<Rightarrow> 'a wprog"

type_synonym 'w world = "wop \<Rightarrow> 'w \<Rightarrow> (exn + wans) \<times> 'w"
type_synonym trace = "(wop \<times> (exn + wans)) list"

primrec wbind :: "'a wprog \<Rightarrow> ('a \<Rightarrow> 'b wprog) \<Rightarrow> 'b wprog" where
  "wbind (WRet a) f = f a"
| "wbind (WDo oper k) f = WDo oper (\<lambda>r. wbind (k r) f)"

primrec wrun :: "'w world \<Rightarrow> 'a wprog \<Rightarrow> 'w \<Rightarrow> 'a \<times> trace \<times> 'w" where
  "wrun h (WRet a) w = (a, [], w)"
| "wrun h (WDo oper k) w =
     (case h oper w of (r, w1) \<Rightarrow> case wrun h (k r) w1 of (a, tr, w2) \<Rightarrow> (a, (oper, r) # tr, w2))"

text \<open>The interface between the worker and its surroundings.\<close>

locale worker_world =
  fixes world :: "wop \<Rightarrow> 'w \<Rightarrow> (exn + wans) \<times> 'w"
  assumes answered: "answers oper (fst (world oper w))"
begin

lemma trace_answered: "(oper, r) \<in> set (fst (snd (wrun world p w))) \<Longrightarrow> answers oper r"
proof (induction p arbitrary: w)
  case (WDo o' k)
  then show ?case using answered [of o' w] by (auto split: prod.splits) (metis fst_conv snd_conv rangeI)
qed simp

end

text \<open>
  The precondition of a program: \<open>ok\<close> must hold of every operation when it is issued, \<open>upd\<close>
  keeps a summary of what happened, and \<open>Q\<close> holds at the end.
\<close>

primrec wp :: "(wop \<Rightarrow> 'g \<Rightarrow> bool) \<Rightarrow> (wop \<Rightarrow> exn + wans \<Rightarrow> 'g \<Rightarrow> 'g) \<Rightarrow> ('a \<Rightarrow> 'g \<Rightarrow> bool) \<Rightarrow> 'a wprog \<Rightarrow> 'g \<Rightarrow> bool" where
  "wp ok upd Q (WRet a) g = Q a g"
| "wp ok upd Q (WDo oper k) g = (ok oper g \<and> (\<forall>r. answers oper r \<longrightarrow> wp ok upd Q (k r) (upd oper r g)))"

definition summary :: "(wop \<Rightarrow> exn + wans \<Rightarrow> 'g \<Rightarrow> 'g) \<Rightarrow> trace \<Rightarrow> 'g \<Rightarrow> 'g" where
  "summary upd tr g = fold (\<lambda>(oper, r). upd oper r) tr g"

lemma summary_simps [simp]:
  "summary upd [] g = g" "summary upd ((oper, r) # tr) g = summary upd tr (upd oper r g)"
  by (simp_all add: summary_def)

context worker_world
begin

lemma wp_sound:
  "wp ok upd Q p g \<Longrightarrow> wrun world p w = (a, tr, w') \<Longrightarrow> Q a (summary upd tr g)"
proof (induction p arbitrary: g w tr)
  case (WDo oper k)
  obtain r w1 where 1: "world oper w = (r, w1)" by fastforce
  obtain a2 tr2 w2 where 2: "wrun world (k r) w1 = (a2, tr2, w2)" by (metis prod_cases3)
  have "answers oper r" using answered [of oper w] 1 by simp
  with WDo.prems(1) have "wp ok upd Q (k r) (upd oper r g)" by simp
  moreover have "wrun world (k r) w1 = (a, tr2, w')" "tr = (oper, r) # tr2"
    using 1 2 WDo.prems(2) by auto
  ultimately show ?case using WDo.IH [OF rangeI] by auto
qed auto

lemma wp_guard_sound:
  "wp ok upd Q p g \<Longrightarrow> wrun world p w = (a, tr1 @ (oper, r) # tr2, w') \<Longrightarrow> ok oper (summary upd tr1 g)"
proof (induction p arbitrary: g w tr1)
  case (WDo o' k)
  obtain r' w1 where 1: "world o' w = (r', w1)" by fastforce
  obtain a2 tr3 w2 where 2: "wrun world (k r') w1 = (a2, tr3, w2)" by (metis prod_cases3)
  have ans: "answers o' r'" using answered [of o' w] 1 by simp
  show ?case
  proof (cases tr1)
    case Nil
    with WDo.prems 1 2 show ?thesis by auto
  next
    case (Cons x tr1')
    with WDo.prems(2) 1 2 have x: "x = (o', r')" "tr3 = tr1' @ (oper, r) # tr2" "a2 = a" "w2 = w'" by auto
    from WDo.prems(1) ans have "wp ok upd Q (k r') (upd o' r' g)" by simp
    from WDo.IH [OF _ this] 2 x Cons show ?thesis by auto
  qed
qed simp

end

lemma wp_bind: "wp ok upd Q (wbind p f) g = wp ok upd (\<lambda>a g. wp ok upd Q (f a) g) p g"
  by (induction p arbitrary: g) auto

lemma wp_mono:
  assumes "wp ok upd Q p g" "\<And>a g. Q a g \<Longrightarrow> Q' a g"
  shows "wp ok upd Q' p g"
  using assms(1) by (induction p arbitrary: g) (auto intro: assms(2))

lemma wp_guard_mono:
  assumes "wp ok upd Q p g" "\<And>oper g. ok oper g \<Longrightarrow> ok' oper g"
  shows "wp ok' upd Q p g"
  using assms(1) by (induction p arbitrary: g) (auto intro: assms(2))

lemma wp_conj:
  assumes "wp ok upd Q p g" "wp ok' upd Q' p g"
  shows "wp (\<lambda>oper g. ok oper g \<and> ok' oper g) upd (\<lambda>a g. Q a g \<and> Q' a g) p g"
  using assms by (induction p arbitrary: g) auto

lemma wp_weaken:
  assumes "wp ok upd Q p g" "\<And>oper g. ok oper g \<Longrightarrow> ok' oper g" "\<And>a g. Q a g \<Longrightarrow> Q' a g"
  shows "wp ok' upd Q' p g"
  using wp_guard_mono [OF wp_mono [OF assms(1)], of Q' ok'] assms(2,3) by blast

text \<open>Operations that leave the summary alone: it is enough to know which ones are issued.\<close>

lemma wp_frame:
  assumes "wp (\<lambda>oper _. P oper) (\<lambda>_ _ u. u) (\<lambda>a _. R a) p ()"
    and "\<And>oper r. P oper \<Longrightarrow> answers oper r \<Longrightarrow> upd oper r g = g"
    and "\<And>oper. P oper \<Longrightarrow> ok oper g" and "\<And>a. R a \<Longrightarrow> Q a g"
  shows "wp ok upd Q p g"
  using assms(1)
proof (induction p)
  case (WDo oper k)
  have "wp ok upd Q (k r) g" if "answers oper r" for r
    using WDo.prems that by (intro WDo.IH) auto
  then show ?case using WDo.prems assms(2,3) by auto
qed (simp add: assms(4))

subsection \<open>The task of one URL\<close>

text \<open>The local variables of \<open>_process_one_url\<close> that outlive a statement.\<close>

record url_state =
  us_escalations :: "escalation list"
  us_last_site_answer :: "fetch_result option"
  us_gateway_skipped :: bool
  us_last_level_result :: "fetch_result option"

definition url_start :: url_state where
  "url_start = \<lparr>us_escalations = [], us_last_site_answer = None, us_gateway_skipped = False, us_last_level_result = None\<rparr>"

type_synonym 'a um = "url_state \<Rightarrow> ((exn + 'a) \<times> url_state) wprog"

definition uret :: "'a \<Rightarrow> 'a um" where
  "uret a = (\<lambda>s. WRet (Inr a, s))"

definition uraise :: "exn \<Rightarrow> 'a um" where
  "uraise e = (\<lambda>s. WRet (Inl e, s))"

definition ubind :: "'a um \<Rightarrow> ('a \<Rightarrow> 'b um) \<Rightarrow> 'b um" where
  "ubind m f = (\<lambda>s. wbind (m s) (\<lambda>(r, s'). case r of Inl e \<Rightarrow> WRet (Inl e, s') | Inr a \<Rightarrow> f a s'))"

definition uthen :: "'a um \<Rightarrow> 'b um \<Rightarrow> 'b um" where
  "uthen m k = ubind m (\<lambda>_. k)"

text \<open>\<open>try: m except ...: h\<close>.\<close>

definition ucatch :: "'a um \<Rightarrow> (exn \<Rightarrow> 'a um) \<Rightarrow> 'a um" where
  "ucatch m h = (\<lambda>s. wbind (m s) (\<lambda>(r, s'). case r of Inl e \<Rightarrow> h e s' | Inr a \<Rightarrow> WRet (Inr a, s')))"

text \<open>\<open>try: m finally: f\<close>: an exception of the clean-up takes the place of the outcome.\<close>

definition ufinally :: "'a um \<Rightarrow> unit um \<Rightarrow> 'a um" where
  "ufinally m f = (\<lambda>s. wbind (m s) (\<lambda>(r, s'). wbind (f s') (\<lambda>(q, s''). case q of
      Inl e \<Rightarrow> WRet (Inl e, s'') | Inr _ \<Rightarrow> WRet (r, s''))))"

definition uget :: "url_state um" where
  "uget = (\<lambda>s. WRet (Inr s, s))"

definition umod :: "(url_state \<Rightarrow> url_state) \<Rightarrow> unit um" where
  "umod f = (\<lambda>s. WRet (Inr (), f s))"

definition udo :: "wop \<Rightarrow> wans um" where
  "udo oper = (\<lambda>s. WDo oper (\<lambda>r. WRet (r, s)))"

definition uact :: "wop \<Rightarrow> unit um" where
  "uact oper = (\<lambda>s. WDo oper (\<lambda>r. WRet (case r of Inl e \<Rightarrow> Inl e | Inr _ \<Rightarrow> Inr (), s)))"

definition ulift :: "'a res \<Rightarrow> 'a um" where
  "ulift r = (case r of Inl e \<Rightarrow> uraise e | Inr a \<Rightarrow> uret a)"

definition uwhen :: "bool \<Rightarrow> unit um \<Rightarrow> unit um" where
  "uwhen b m = (if b then m else uret ())"

text \<open>The calculus on this level.\<close>

definition up :: "(wop \<Rightarrow> 'g \<Rightarrow> bool) \<Rightarrow> (wop \<Rightarrow> exn + wans \<Rightarrow> 'g \<Rightarrow> 'g) \<Rightarrow> (exn + 'a \<Rightarrow> url_state \<Rightarrow> 'g \<Rightarrow> bool)
    \<Rightarrow> 'a um \<Rightarrow> url_state \<Rightarrow> 'g \<Rightarrow> bool" where
  "up ok upd Q m s g = wp ok upd (\<lambda>(r, s') g'. Q r s' g') (m s) g"

named_theorems up_rules \<open>the precondition of each construct\<close>

lemma up_ret [up_rules]: "up ok upd Q (uret a) s g = Q (Inr a) s g"
  and up_raise [up_rules]: "up ok upd Q (uraise e) s g = Q (Inl e) s g"
  and up_get [up_rules]: "up ok upd R uget s g = R (Inr s) s g"
  and up_mod [up_rules]: "up ok upd R' (umod f) s g = R' (Inr ()) (f s) g"
  by (simp_all add: up_def uret_def uraise_def uget_def umod_def)

lemma up_bind [up_rules]:
  "up ok upd Q (ubind m f) s g =
     up ok upd (\<lambda>r s' g'. case r of Inl e \<Rightarrow> Q (Inl e) s' g' | Inr a \<Rightarrow> up ok upd Q (f a) s' g') m s g"
  unfolding up_def ubind_def wp_bind
  by (rule arg_cong [of _ _ "\<lambda>Q. wp ok upd Q (m s) g"]) (auto simp: fun_eq_iff split: sum.splits)

lemma up_then [up_rules]:
  "up ok upd Q (uthen m k) s g =
     up ok upd (\<lambda>r s' g'. case r of Inl e \<Rightarrow> Q (Inl e) s' g' | Inr a \<Rightarrow> up ok upd Q k s' g') m s g"
  by (simp add: uthen_def up_bind)

lemma up_catch [up_rules]:
  "up ok upd Q (ucatch m h) s g =
     up ok upd (\<lambda>r s' g'. case r of Inl e \<Rightarrow> up ok upd Q (h e) s' g' | Inr a \<Rightarrow> Q (Inr a) s' g') m s g"
  unfolding up_def ucatch_def wp_bind
  by (rule arg_cong [of _ _ "\<lambda>Q. wp ok upd Q (m s) g"]) (auto simp: fun_eq_iff split: sum.splits)

lemma up_finally [up_rules]:
  "up ok upd Q (ufinally m f) s g =
     up ok upd (\<lambda>r s' g'. up ok upd (\<lambda>q s'' g''. case q of Inl e \<Rightarrow> Q (Inl e) s'' g'' | Inr _ \<Rightarrow> Q r s'' g'') f s' g') m s g"
  unfolding up_def ufinally_def wp_bind
  by (rule arg_cong [of _ _ "\<lambda>Q. wp ok upd Q (m s) g"])
    (auto simp: fun_eq_iff wp_bind split: sum.splits intro!: arg_cong [of _ _ "\<lambda>Q. wp ok upd Q _ _"])

lemma up_do [up_rules]:
  "up ok upd Q (udo oper) s g = (ok oper g \<and> (\<forall>r. answers oper r \<longrightarrow> Q r s (upd oper r g)))"
  by (simp add: up_def udo_def)

lemma up_act [up_rules]:
  "up ok upd Q (uact oper) s g =
     (ok oper g \<and> (\<forall>r. answers oper r \<longrightarrow> Q (case r of Inl e \<Rightarrow> Inl e | Inr _ \<Rightarrow> Inr ()) s (upd oper r g)))"
  by (simp add: up_def uact_def)

lemma up_lift [up_rules]:
  "up ok upd Q (ulift r) s g = Q r s g"
  by (cases r) (simp_all add: ulift_def up_ret up_raise)

lemma up_when [up_rules]:
  "up ok upd Q (uwhen b m) s g = (if b then up ok upd Q m s g else Q (Inr ()) s g)"
  by (simp add: uwhen_def up_ret)

lemma up_mono:
  assumes "up ok upd Q m s g" "\<And>r s g. Q r s g \<Longrightarrow> Q' r s g"
  shows "up ok upd Q' m s g"
  using assms(1) unfolding up_def by (rule wp_mono) (auto intro: assms(2))

text \<open>Which operations a task can issue and how it can end, whatever the answers.\<close>

definition issues :: "(wop \<Rightarrow> bool) \<Rightarrow> (exn + 'a \<Rightarrow> url_state \<Rightarrow> bool) \<Rightarrow> 'a um \<Rightarrow> url_state \<Rightarrow> bool" where
  "issues P R m s = up (\<lambda>oper _. P oper) (\<lambda>_ _ u. u) (\<lambda>r s' _. R r s') m s ()"

lemma up_frame:
  assumes "issues P R m s"
    and "\<And>oper r. P oper \<Longrightarrow> answers oper r \<Longrightarrow> upd oper r g = g"
    and "\<And>oper. P oper \<Longrightarrow> ok oper g" and "\<And>r s'. R r s' \<Longrightarrow> Q r s' g"
  shows "up ok upd Q m s g"
proof -
  have "(\<lambda>(r, s') (_ :: unit). R r s') = (\<lambda>a _. case a of (r, s') \<Rightarrow> R r s')" by auto
  with assms(1) have "wp (\<lambda>oper _. P oper) (\<lambda>_ _ u. u) (\<lambda>a _. case a of (r, s') \<Rightarrow> R r s') (m s) ()"
    unfolding issues_def up_def by metis
  then have "wp ok upd (\<lambda>a g. case a of (r, s') \<Rightarrow> Q r s' g) (m s) g"
    by (rule wp_frame) (auto intro: assms)
  then show ?thesis unfolding up_def by (rule wp_mono) auto
qed

lemma issues_mono:
  assumes "issues P R m s" "\<And>oper. P oper \<Longrightarrow> P' oper" "\<And>r s. R r s \<Longrightarrow> R' r s"
  shows "issues P' R' m s"
  using assms(1) unfolding issues_def
  by (rule up_frame [unfolded issues_def]) (auto intro: assms)

text \<open>An operation that may not raise only answers.\<close>

lemma answers_quiet: "quiet oper \<Longrightarrow> answers oper r \<Longrightarrow> \<exists>a. r = Inr a"
  by (cases r) (auto simp: answers_def)

subsection \<open>Which operations a task issues\<close>

definition only_ops :: "(wop \<Rightarrow> bool) \<Rightarrow> 'a um \<Rightarrow> bool" where
  "only_ops P m \<longleftrightarrow> (\<forall>s. issues P (\<lambda>_ _. True) m s)"

named_theorems only_rules

lemma only_basic [only_rules]:
  "only_ops P (uret a)" "only_ops P (uraise e)" "only_ops P uget" "only_ops P (umod f)" "only_ops P (ulift r)"
  by (auto simp: only_ops_def issues_def up_rules)

lemma only_do [only_rules]: "P oper \<Longrightarrow> only_ops P (udo oper)" "P oper \<Longrightarrow> only_ops P (uact oper)"
  by (auto simp: only_ops_def issues_def up_rules)

lemma only_bind [only_rules]: "only_ops P m \<Longrightarrow> (\<And>a. only_ops P (f a)) \<Longrightarrow> only_ops P (ubind m f)"
  unfolding only_ops_def issues_def up_bind by (auto intro: up_mono split: sum.splits)

lemma only_then [only_rules]: "only_ops P m \<Longrightarrow> only_ops P k \<Longrightarrow> only_ops P (uthen m k)"
  unfolding uthen_def by (rule only_bind)

lemma only_catch [only_rules]: "only_ops P m \<Longrightarrow> (\<And>e. only_ops P (h e)) \<Longrightarrow> only_ops P (ucatch m h)"
  unfolding only_ops_def issues_def up_catch by (auto intro: up_mono split: sum.splits)

lemma only_finally [only_rules]: "only_ops P m \<Longrightarrow> only_ops P f \<Longrightarrow> only_ops P (ufinally m f)"
proof -
  assume m: "only_ops P m" and f: "only_ops P f"
  have "up (\<lambda>oper _. P oper) (\<lambda>_ _ u. u) (\<lambda>q s g. case q of Inl e \<Rightarrow> True | Inr _ \<Rightarrow> True) f s ()" for s
    using f unfolding only_ops_def issues_def by (auto intro: up_mono split: sum.splits)
  then have inner: "up (\<lambda>oper _. P oper) (\<lambda>_ _ u. u) (\<lambda>q s g. case q of Inl e \<Rightarrow> True | Inr _ \<Rightarrow> True) f s g" for s and g :: unit
    by simp
  show "only_ops P (ufinally m f)"
    unfolding only_ops_def issues_def up_finally
    using m unfolding only_ops_def issues_def by (blast intro: up_mono inner)
qed

lemma only_when [only_rules]: "only_ops P m \<Longrightarrow> only_ops P (uwhen b m)"
  by (simp add: uwhen_def only_rules)

lemma only_cases [only_rules]:
  "only_ops P m \<Longrightarrow> only_ops P k \<Longrightarrow> only_ops P (if b then m else k)"
  "only_ops P m \<Longrightarrow> (\<And>a. only_ops P (f a)) \<Longrightarrow> only_ops P (case x of None \<Rightarrow> m | Some a \<Rightarrow> f a)"
  "(\<And>a b. only_ops P (g a b)) \<Longrightarrow> only_ops P (case y of (a, b) \<Rightarrow> g a b)"
  "(\<And>a. only_ops P (kl a)) \<Longrightarrow> (\<And>a. only_ops P (kr a)) \<Longrightarrow> only_ops P (case z of Inl a \<Rightarrow> kl a | Inr a \<Rightarrow> kr a)"
  by (auto split: option.split prod.split sum.split)

text \<open>A part all of whose operations leave the summary alone keeps every postcondition of its start.\<close>

lemma only_frame:
  assumes "only_ops P m" "\<And>oper r. P oper \<Longrightarrow> upd oper r g = g" "\<And>oper. P oper \<Longrightarrow> ok oper g" "\<And>r s'. Q r s' g"
  shows "up ok upd Q m s g"
  using assms unfolding only_ops_def by (intro up_frame [of P "\<lambda>_ _. True"]) auto

end
