(* ===== verification/Worker_Fetch.thy ===== *)
theory Worker_Fetch
  imports Worker_Monad
begin

text \<open>
  The lower half of \<^verbatim>\<open>src/src/scraper_engine/orchestrator/worker.py\<close>: \<open>_fetch_url\<close> sends one attempt
  at one level, \<open>_fetch_with_proxy\<close> is the lease-fetch-score cycle of the browser levels with its
  pool retry, its rotation of gateway sessions and its fall-back from a refused gateway, and
  \<open>_render_claim\<close> holds a seat of the host around each render.
\<close>

subsection \<open>One attempt's inputs\<close>

record render_admission =
  ra_tenant :: string
  ra_domain :: string
  ra_concurrency :: int
  ra_delay_seconds :: rat
  ra_priority_ms :: int
  ra_deadline :: rat

record fetch_call =
  fc_tenant :: string
  fc_url :: string
  fc_level :: int
  fc_overrides :: "config_overrides option"
  fc_force_gateway :: bool
  fc_gateway_only :: bool
  fc_skip_botasaurus :: bool
  fc_admission :: "render_admission option"
  fc_weight :: rat

text \<open>The loop variables of \<open>_fetch_with_proxy\<close>.\<close>

record fetch_state =
  fs_pool_retries_left :: nat
  fs_block_rotations_left :: nat
  fs_gateway_refused :: bool
  fs_gateway_bypassed :: bool

definition wait_budget :: "render_admission \<Rightarrow> rat \<Rightarrow> rat" where
  "wait_budget a now = max 0 (ra_deadline a - now)"

definition render_claim :: "worker \<Rightarrow> render_admission option \<Rightarrow> rat \<Rightarrow> 'a um \<Rightarrow> 'a um" where
  "render_claim self admission weight body =
     (case admission of None \<Rightarrow> body
      | Some a \<Rightarrow>
        if \<not> wk_has_admission self then body
        else ubind (udo Clock) (\<lambda>now.
             uthen (uact (ClaimSeat \<lparr>cr_tenant = ra_tenant a, cr_domain = ra_domain a, cr_weight = weight,
                 cr_concurrency = ra_concurrency a, cr_delay_seconds = ra_delay_seconds a,
                 cr_priority_ms = ra_priority_ms a, cr_wait_budget_seconds = wait_budget a (as_time now)\<rparr>))
               (ufinally body (uact ReleaseSeat))))"

definition new_gateway_proxy :: "worker \<Rightarrow> proxy option um" where
  "new_gateway_proxy self =
     ubind (udo NewSessionId) (\<lambda>a.
       uret (build_gateway_proxy (wk_gateway_env self)
         (if di_country (wk_dataimpulse self) = [] then None else Some (di_country (wk_dataimpulse self)))
         (Some (as_text a)) (di_asn (wk_dataimpulse self))))"

definition effective_strategy :: "worker \<Rightarrow> dataimpulse_strategy" where
  "effective_strategy self =
     (if di_enabled (wk_dataimpulse self) then di_strategy (wk_dataimpulse self) else Free_Only)"

subsection \<open>Leasing a proxy\<close>

definition gateway_lease :: "worker \<Rightarrow> string \<Rightarrow> proxy um" where
  "gateway_lease self who =
     ubind (new_gateway_proxy self) (\<lambda>p. case p of
       None \<Rightarrow> uraise (RuntimeError (who @ '' but gateway is not configured'')) | Some p \<Rightarrow> uret p)"

definition is_pool_exhausted :: "exn \<Rightarrow> bool" where
  "is_pool_exhausted e = (case e of ProxyPoolExhaustedError _ _ _ \<Rightarrow> True | _ \<Rightarrow> False)"

definition exhausted_pool_result :: "fetch_call \<Rightarrow> bool \<Rightarrow> bool \<Rightarrow> fetch_result" where
  "exhausted_pool_result c refused bypassed =
     (failed_result (fc_url c) (fc_level c) PROXY_EXHAUSTED
        (''Proxy pool exhausted'' @ (if refused then '' ('' @ GATEWAY_REFUSED_MESSAGE @ '')'' else [])))
       \<lparr>fr_paid_gateway_skipped := if bypassed then Some True else None\<rparr>"

text \<open>A lease with the updated loop variables, or the result that ends the call.\<close>

definition lease_for :: "worker \<Rightarrow> fetch_call \<Rightarrow> fetch_state \<Rightarrow> (fetch_result + proxy \<times> fetch_state) um" where
  "lease_for self c st =
     (let strategy = effective_strategy self in
      if fc_force_gateway c \<and> \<not> fs_gateway_refused st then
        ubind (gateway_lease self ''force_gateway=True'') (\<lambda>p. uret (Inr (p, st)))
      else if strategy = Paid_Only then
        ubind (gateway_lease self ''strategy=paid_only'') (\<lambda>p. uret (Inr (p, st)))
      else
        ubind (ucatch (ubind (udo (GetProxy (fc_tenant c) (fc_level c) (extract_domain self (fc_url c)))) (\<lambda>a. uret (Some (as_proxy a))))
                 (\<lambda>e. if is_pool_exhausted e then uret None else uraise e))
          (\<lambda>lease. case lease of
             Some p \<Rightarrow> uret (Inr (p, st))
           | None \<Rightarrow>
             ubind (if strategy = Free_First \<and> \<not> fs_gateway_refused st
                    then ubind (udo GatewayRefused) (\<lambda>a. uret (as_bool a)) else uret (fs_gateway_refused st))
               (\<lambda>refused.
                 let st1 = st\<lparr>fs_gateway_refused := refused,
                     fs_gateway_bypassed := fs_gateway_bypassed st \<or> (strategy = Free_First \<and> refused)\<rparr>
                 in if strategy = Free_First \<and> \<not> refused
                    then ubind (gateway_lease self ''strategy=free_first'') (\<lambda>p. uret (Inr (p, st1)))
                    else uret (Inl (exhausted_pool_result c refused (fs_gateway_bypassed st1))))))"

subsection \<open>One pass of the loop\<close>

datatype pass = Again fetch_state | Done fetch_result

text \<open>From the block test on: rotate, score the pool proxy, retry or return.\<close>

definition score_attempt :: "worker \<Rightarrow> fetch_call \<Rightarrow> fetch_state \<Rightarrow> proxy \<Rightarrow> fetch_result \<Rightarrow> pass um" where
  "score_attempt self c st p result =
     (if looks_blocked result \<and> px_source p = Paid_Gateway \<and> fs_block_rotations_left st > 0
      then uret (Again (st\<lparr>fs_block_rotations_left := fs_block_rotations_left st - 1\<rparr>))
      else if fr_success result
      then uthen (uwhen (px_source p = Pool) (uact (MarkProxySuccess (fc_tenant c) (px_ip p) (px_port p))))
             (uret (Done result))
      else uthen (uwhen (px_source p = Pool)
                 (uact (MarkProxyFailure (fc_tenant c) (px_ip p) (px_port p) (extract_domain self (fc_url c)))))
           (let retryable = in_cats (fr_failure_category result) PROXY_RETRYABLE_CATEGORIES
                  \<or> (fr_failure_category result = Some PROXY_AUTH_FAILED \<and> px_source p = Pool)
            in if retryable \<and> fs_pool_retries_left st > 0
               then uret (Again (st\<lparr>fs_pool_retries_left := fs_pool_retries_left st - 1\<rparr>))
               else uret (Done result)))"

definition fetch_leased :: "worker \<Rightarrow> fetch_call \<Rightarrow> fetch_state \<Rightarrow> proxy \<Rightarrow> pass um" where
  "fetch_leased self c st p =
     ubind (udo (Fetch \<lparr>fq_level = fc_level c, fq_url = fc_url c, fq_tenant = fc_tenant c, fq_proxy = Some p,
         fq_overrides = fc_overrides c, fq_skip_botasaurus = fc_skip_botasaurus c\<rparr>)) (\<lambda>a.
       let r0 = (as_result (fc_url c) (fc_level c) a)\<lparr>fr_proxy_source := Some (px_source p)\<rparr>;
           result = (if fs_gateway_bypassed st then r0\<lparr>fr_paid_gateway_skipped := Some True\<rparr> else r0)
       in if px_source p = Paid_Gateway \<and> fr_failure_category result = Some PROXY_AUTH_FAILED
          then uthen (uact (MarkRefused (or_str (fr_error_message result) ''proxy authentication failed'')))
                 (let st1 = st\<lparr>fs_gateway_refused := True\<rparr> in
                  if effective_strategy self = Free_First \<and> \<not> fc_gateway_only c then uret (Again st1)
                  else score_attempt self c st1 p result)
          else uthen (uwhen (px_source p = Paid_Gateway \<and> fr_success result)
                        (uthen (uact ClearRefused) (uact BumpGatewayEpoch)))
                 (score_attempt self c st p result))"

definition refused_login_result :: "fetch_call \<Rightarrow> fetch_result" where
  "refused_login_result c =
     (failed_result (fc_url c) (fc_level c) PROXY_AUTH_FAILED GATEWAY_REFUSED_MESSAGE)
       \<lparr>fr_proxy_source := Some Paid_Gateway, fr_paid_gateway_skipped := Some True\<rparr>"

definition fetch_pass :: "worker \<Rightarrow> fetch_call \<Rightarrow> fetch_state \<Rightarrow> pass um" where
  "fetch_pass self c st =
     (let strategy = effective_strategy self in
      ubind (if (fc_force_gateway c \<or> strategy = Paid_Only) \<and> \<not> fs_gateway_refused st
             then ubind (udo GatewayRefused) (\<lambda>a. uret (as_bool a)) else uret (fs_gateway_refused st))
        (\<lambda>refused.
          if refused \<and> (strategy = Paid_Only \<or> fc_gateway_only c) then uret (Done (refused_login_result c))
          else let st1 = st\<lparr>fs_gateway_refused := refused,
                   fs_gateway_bypassed := fs_gateway_bypassed st \<or> (fc_force_gateway c \<and> refused)\<rparr>
            in render_claim self (fc_admission c) (fc_weight c)
                 (ubind (lease_for self c st1) (\<lambda>l. case l of
                    Inl result \<Rightarrow> uret (Done result)
                  | Inr (p, st2) \<Rightarrow> fetch_leased self c st2 p))))"

subsection \<open>The loop\<close>

text \<open>
  \<open>while True\<close> with fuel. Every pass that goes round again has used up a pool retry, a rotation or
  the one discovery that the gateway refuses us (lemma \<open>fetch_pass_spec\<close>), so the fuel of
  \<open>fetch_with_proxy\<close> is never used up (lemma \<open>fetch_loop_spec\<close>).
\<close>

definition out_of_fuel :: exn where
  "out_of_fuel = OtherError ''out of fuel''"

primrec fetch_loop :: "nat \<Rightarrow> worker \<Rightarrow> fetch_call \<Rightarrow> fetch_state \<Rightarrow> fetch_result um" where
  "fetch_loop 0 self c st = uraise out_of_fuel"
| "fetch_loop (Suc n) self c st =
     ubind (fetch_pass self c st) (\<lambda>p. case p of Again st' \<Rightarrow> fetch_loop n self c st' | Done r \<Rightarrow> uret r)"

definition fetch_start :: "worker \<Rightarrow> fetch_state" where
  "fetch_start self = \<lparr>fs_pool_retries_left = SAME_LEVEL_PROXY_RETRIES,
     fs_block_rotations_left = (if di_enabled (wk_dataimpulse self) then di_rotate_on_block_retries (wk_dataimpulse self) else 0),
     fs_gateway_refused = False, fs_gateway_bypassed = False\<rparr>"

definition passes_left :: "fetch_state \<Rightarrow> nat" where
  "passes_left st = fs_pool_retries_left st + fs_block_rotations_left st + (if fs_gateway_refused st then 0 else 1)"

definition fetch_with_proxy :: "worker \<Rightarrow> fetch_call \<Rightarrow> fetch_result um" where
  "fetch_with_proxy self c = fetch_loop (Suc (passes_left (fetch_start self))) self c (fetch_start self)"

definition level2_weight :: "worker \<Rightarrow> bool \<Rightarrow> rat" where
  "level2_weight self skip_bota =
     (let weight = ac_camoufox_weight (wk_admission_cfg self) in
      if l2_tries_botasaurus self \<and> \<not> skip_bota
      then max weight (ac_botasaurus_weight (wk_admission_cfg self)) else weight)"

definition fetch_url ::
  "worker \<Rightarrow> string \<Rightarrow> string \<Rightarrow> int \<Rightarrow> config_overrides option \<Rightarrow> bool \<Rightarrow> bool \<Rightarrow> bool \<Rightarrow> render_admission option
     \<Rightarrow> fetch_result option um" where
  "fetch_url self tenant_id url level overrides force_gateway gateway_only skip_bota admission =
     (let c = \<lparr>fc_tenant = tenant_id, fc_url = url, fc_level = level, fc_overrides = overrides,
              fc_force_gateway = force_gateway, fc_gateway_only = gateway_only,
              fc_skip_botasaurus = skip_bota, fc_admission = admission,
              fc_weight = (if level = 2 then level2_weight self skip_bota
                           else ac_camoufox_weight (wk_admission_cfg self))\<rparr> in
      if level = 1 then
        ubind (udo (Fetch \<lparr>fq_level = 1, fq_url = url, fq_tenant = tenant_id, fq_proxy = None,
            fq_overrides = overrides, fq_skip_botasaurus = False\<rparr>)) (\<lambda>a. uret (Some (as_result url 1 a)))
      else if level = 2 \<or> level = 3 then
        if \<not> wk_has_pg self then uraise (PostgresClientMissingError level)
        else ubind (fetch_with_proxy self c) (\<lambda>r. uret (Some r))
      else uret None)"

subsection \<open>What a fetch may do\<close>

text \<open>
  The operations of one attempt: leasing, rendering, scoring and the gateway's own bookkeeping.
  Under \<open>paid_only\<close> the pool is never asked; unless a gateway attempt is forced, under
  \<open>free_only\<close> the gateway is never used; and every render is of the asked URL at the asked level.
\<close>

fun fetch_allowed :: "dataimpulse_strategy \<Rightarrow> bool \<Rightarrow> int \<Rightarrow> string \<Rightarrow> wop \<Rightarrow> bool" where
  "fetch_allowed strat force level url (Fetch q) =
     (fq_level q = level \<and> fq_url q = url \<and>
      (case fq_proxy q of None \<Rightarrow> level = 1
       | Some p \<Rightarrow> (px_source p = Pool \<longrightarrow> strat \<noteq> Paid_Only) \<and> (px_source p = Paid_Gateway \<longrightarrow> strat \<noteq> Free_Only \<or> force)))"
| "fetch_allowed strat force level url (GetProxy t l d) = (strat \<noteq> Paid_Only \<and> l = level)"
| "fetch_allowed strat force level url NewSessionId = (strat \<noteq> Free_Only \<or> force)"
| "fetch_allowed strat force level url GatewayRefused = (strat \<noteq> Free_Only \<or> force)"
| "fetch_allowed strat force level url (MarkRefused e) = (strat \<noteq> Free_Only \<or> force)"
| "fetch_allowed strat force level url ClearRefused = (strat \<noteq> Free_Only \<or> force)"
| "fetch_allowed strat force level url BumpGatewayEpoch = (strat \<noteq> Free_Only \<or> force)"
| "fetch_allowed strat force level url (MarkProxySuccess t i p) = (strat \<noteq> Paid_Only)"
| "fetch_allowed strat force level url (MarkProxyFailure t i p d) = (strat \<noteq> Paid_Only)"
| "fetch_allowed strat force level url Clock = True"
| "fetch_allowed strat force level url (ClaimSeat q) = True"
| "fetch_allowed strat force level url ReleaseSeat = True"
| "fetch_allowed strat force level url _ = False"

text \<open>Renders and seats: what a run of an attempt adds up to.\<close>

record fetch_tally =
  ft_renders :: nat
  ft_seats :: int
  ft_slots :: int
  ft_uncovered :: nat

definition covered :: "fetch_tally \<Rightarrow> bool" where
  "covered g \<longleftrightarrow> 0 < ft_slots g \<or> 0 < ft_seats g"

fun tally :: "wop \<Rightarrow> exn + wans \<Rightarrow> fetch_tally \<Rightarrow> fetch_tally" where
  "tally (Fetch q) r g = g\<lparr>ft_renders := Suc (ft_renders g), ft_uncovered := ft_uncovered g + (if covered g then 0 else 1)\<rparr>"
| "tally (ClaimSeat q) (Inr a) g = g\<lparr>ft_seats := ft_seats g + 1\<rparr>"
| "tally ReleaseSeat r g = g\<lparr>ft_seats := ft_seats g - 1\<rparr>"
| "tally (AcquireSlot d t n) (Inr a) g = g\<lparr>ft_slots := ft_slots g + (if as_text_opt a = None then 0 else 1)\<rparr>"
| "tally (ReleaseSlot d t i) r g = g\<lparr>ft_slots := ft_slots g - 1\<rparr>"
| "tally _ _ g = g"

text \<open>
  What an attempt leaves behind: as many seats and slots held as before, and, where \<open>C\<close> holds, no
  render that ran without a seat or a slot.
\<close>

definition keeps :: "bool \<Rightarrow> fetch_tally \<Rightarrow> fetch_tally \<Rightarrow> bool" where
  "keeps C g g' \<longleftrightarrow> ft_seats g' = ft_seats g \<and> ft_slots g' = ft_slots g \<and> (C \<longrightarrow> ft_uncovered g' = ft_uncovered g)"

lemma keeps_refl [simp]: "keeps C g g"
  by (simp add: keeps_def)

lemma keeps_trans: "keeps C g g' \<Longrightarrow> keeps C g' g'' \<Longrightarrow> keeps C g g''"
  by (auto simp: keeps_def)

text \<open>A seat is claimed around every render.\<close>

definition claims :: "worker \<Rightarrow> fetch_call \<Rightarrow> bool" where
  "claims self c \<longleftrightarrow> fc_admission c \<noteq> None \<and> wk_has_admission self"

definition covers :: "worker \<Rightarrow> fetch_call \<Rightarrow> fetch_tally \<Rightarrow> bool" where
  "covers self c g \<longleftrightarrow> covered g \<or> claims self c \<and> 0 \<le> ft_seats g"

lemma build_gateway_proxy_source: "build_gateway_proxy env co se asn = Some p \<Longrightarrow> px_source p = Paid_Gateway"
  by (auto simp: build_gateway_proxy_def split: if_splits sum.splits)

lemma as_proxy_pool: "answers (GetProxy t l d) (Inr a) \<Longrightarrow> px_source (as_proxy a) = Pool"
  by (cases a) (auto simp: answers_def as_proxy_def)

lemma answers_quiet_Inl [simp]: "quiet oper \<Longrightarrow> \<not> answers oper (Inl e)"
  by (simp add: answers_def)

abbreviation allowed :: "worker \<Rightarrow> fetch_call \<Rightarrow> wop \<Rightarrow> fetch_tally \<Rightarrow> bool" where
  "allowed self c oper g \<equiv> fetch_allowed (effective_strategy self) (fc_force_gateway c) (fc_level c) (fc_url c) oper"

text \<open>A leased proxy comes from a source the strategy allows; leasing renders nothing.\<close>

lemma lease_for_spec:
  assumes "\<And>p st'. px_source p = Pool \<longrightarrow> effective_strategy self \<noteq> Paid_Only \<Longrightarrow>
      px_source p = Paid_Gateway \<longrightarrow> (effective_strategy self \<noteq> Free_Only \<or> fc_force_gateway c) \<and> \<not> fs_gateway_refused st' \<or>
        effective_strategy self = Paid_Only \<Longrightarrow>
      passes_left st' \<le> passes_left st \<Longrightarrow> Q (Inr (Inr (p, st'))) s g"
    and "\<And>r. Q (Inr (Inl r)) s g" and "\<And>e. Q (Inl e) s g"
  shows "up (allowed self c) tally Q (lease_for self c st) s g"
  using assms(2,3)
  by (auto simp: lease_for_def gateway_lease_def new_gateway_proxy_def up_rules Let_def passes_left_def
      as_proxy_pool build_gateway_proxy_source
      split: sum.splits option.splits intro!: assms(1))

text \<open>Scoring goes round again only with less left to try, and renders nothing.\<close>

lemma score_attempt_spec:
  assumes "\<And>r. Q (Inr (Done r)) s g" and "\<And>e. Q (Inl e) s g"
    and "\<And>st'. passes_left st' < passes_left st \<Longrightarrow> Q (Inr (Again st')) s g"
    and "px_source p = Pool \<longrightarrow> effective_strategy self \<noteq> Paid_Only"
  shows "up (allowed self c) tally Q (score_attempt self c st p result) s g"
  using assms(1,2,4)
  by (auto simp: score_attempt_def up_rules Let_def passes_left_def split: sum.splits intro!: assms(3))

lemma fetch_leased_spec:
  assumes "\<And>r g'. ft_renders g' = Suc (ft_renders g) \<Longrightarrow> keeps (covered g) g g' \<Longrightarrow> Q (Inr (Done r)) s g'"
    and "\<And>e g'. ft_renders g' = Suc (ft_renders g) \<Longrightarrow> keeps (covered g) g g' \<Longrightarrow> Q (Inl e) s g'"
    and "\<And>st' g'. passes_left st' < passes_left st \<Longrightarrow> ft_renders g' = Suc (ft_renders g) \<Longrightarrow>
      keeps (covered g) g g' \<Longrightarrow> Q (Inr (Again st')) s g'"
    and src: "px_source p = Pool \<longrightarrow> effective_strategy self \<noteq> Paid_Only"
      "px_source p = Paid_Gateway \<longrightarrow> (effective_strategy self \<noteq> Free_Only \<or> fc_force_gateway c) \<and> \<not> fs_gateway_refused st \<or>
        effective_strategy self = Paid_Only"
  shows "up (allowed self c) tally Q (fetch_leased self c st p) s g"
proof -
  define g1 where "g1 = g\<lparr>ft_renders := Suc (ft_renders g), ft_uncovered := ft_uncovered g + (if covered g then 0 else 1)\<rparr>"
  have g1: "ft_renders g1 = Suc (ft_renders g)" "keeps (covered g) g g1" by (simp_all add: g1_def keeps_def)
  have score: "up (allowed self c) tally Q (score_attempt self c st' p r) s g1" if "passes_left st' \<le> passes_left st" for st' r
    using that by (intro score_attempt_spec assms(1-3) src g1) auto
  have go: "effective_strategy self \<noteq> Free_Only \<or> fc_force_gateway c" if "px_source p = Paid_Gateway"
    using src(2) that by auto
  show ?thesis
  proof (cases "px_source p")
    case Pool
    with score [of st] src show ?thesis
      by (auto simp: fetch_leased_def up_rules Let_def g1_def [symmetric] g1 split: sum.splits intro!: assms(2))
  next
    case Paid_Gateway
    have 1: "up (allowed self c) tally Q (score_attempt self c (st\<lparr>fs_gateway_refused := True\<rparr>) p r) s g1" for r
      by (rule score) (simp add: passes_left_def)
    have 2: "Q (Inr (Again (st\<lparr>fs_gateway_refused := True\<rparr>))) s g1" if "effective_strategy self = Free_First"
      using src(2) Paid_Gateway that by (intro assms(3) g1) (auto simp: passes_left_def)
    from go [OF Paid_Gateway] score [of st] Paid_Gateway 1 2 show ?thesis
      by (auto simp: fetch_leased_def up_rules Let_def g1_def [symmetric] g1 split: sum.splits intro!: assms(2))
  qed
qed

text \<open>The seat of a render is given back however the render ends.\<close>

lemma render_claim_spec:
  assumes plain: "adm = None \<or> \<not> wk_has_admission self \<Longrightarrow> up (allowed self c) tally Q body s g"
    and held: "adm \<noteq> None \<Longrightarrow> wk_has_admission self \<Longrightarrow> up (allowed self c) tally Q' body s (g\<lparr>ft_seats := ft_seats g + 1\<rparr>)"
    and exit: "\<And>r s' g'. Q' r s' g' \<Longrightarrow> Q r s' (g'\<lparr>ft_seats := ft_seats g' - 1\<rparr>)"
    and failed: "\<And>e. Q (Inl e) s g"
  shows "up (allowed self c) tally Q (render_claim self adm weight body) s g"
proof (cases "adm = None \<or> \<not> wk_has_admission self")
  case True
  then show ?thesis using plain by (auto simp: render_claim_def split: option.splits)
next
  case False
  then obtain a where a: "adm = Some a" "wk_has_admission self" by auto
  have "up (allowed self c) tally
      (\<lambda>r s' g'. up (allowed self c) tally (\<lambda>q s'' g''. case q of Inl e \<Rightarrow> Q (Inl e) s'' g'' | Inr _ \<Rightarrow> Q r s'' g'')
        (uact ReleaseSeat) s' g') body s (g\<lparr>ft_seats := ft_seats g + 1\<rparr>)"
    by (rule up_mono [OF held]) (use a in \<open>auto simp: up_rules split: sum.splits intro!: exit\<close>)
  then show ?thesis using a
    by (simp add: render_claim_def up_bind up_then up_finally up_do up_act failed split: sum.splits)
qed

text \<open>
  One pass: at most one render, the seat given back, and another pass only with less left.
\<close>

lemma fetch_pass_spec:
  assumes Q: "\<And>r s g'. ft_renders g' \<le> Suc (ft_renders g) \<Longrightarrow> keeps (covers self c g) g g' \<Longrightarrow>
      (\<forall>st'. r = Inr (Again st') \<longrightarrow> passes_left st' < passes_left st) \<Longrightarrow> Q r s g'"
  shows "up (allowed self c) tally Q (fetch_pass self c st) s g"
proof -
  define R where "R = (\<lambda>C (g0 :: fetch_tally) (r :: exn + pass) (s' :: url_state) (g' :: fetch_tally).
      ft_renders g' \<le> Suc (ft_renders g0) \<and> keeps C g0 g' \<and>
      (\<forall>st'. r = Inr (Again st') \<longrightarrow> passes_left st' < passes_left st))"
  have body: "up (allowed self c) tally (R (covered g0) g0) (ubind (lease_for self c st1) (\<lambda>l. case l of
        Inl result \<Rightarrow> uret (Done result) | Inr (p, st2) \<Rightarrow> fetch_leased self c st2 p)) s g0"
    if "passes_left st1 \<le> passes_left st" for st1 g0
    unfolding up_bind
  proof (rule lease_for_spec, goal_cases)
    case (1 p st')
    then show ?case using that
      by (simp, intro fetch_leased_spec) (auto simp: R_def)
  qed (simp_all add: R_def up_rules)
  let ?P = "R (covers self c g) g"
  have claim: "up (allowed self c) tally ?P (render_claim self (fc_admission c) (fc_weight c)
      (ubind (lease_for self c st1) (\<lambda>l. case l of
        Inl result \<Rightarrow> uret (Done result) | Inr (p, st2) \<Rightarrow> fetch_leased self c st2 p))) s g"
    if st1: "passes_left st1 \<le> passes_left st" for st1
  proof (rule render_claim_spec)
    assume "fc_admission c = None \<or> \<not> wk_has_admission self"
    then have "covers self c g = covered g" by (auto simp: covers_def claims_def)
    with body [OF st1] show "up (allowed self c) tally ?P (ubind (lease_for self c st1) (\<lambda>l. case l of
        Inl result \<Rightarrow> uret (Done result) | Inr (p, st2) \<Rightarrow> fetch_leased self c st2 p)) s g" by simp
  next
    show "up (allowed self c) tally (R (covered (g\<lparr>ft_seats := ft_seats g + 1\<rparr>)) (g\<lparr>ft_seats := ft_seats g + 1\<rparr>))
      (ubind (lease_for self c st1) (\<lambda>l. case l of
        Inl result \<Rightarrow> uret (Done result) | Inr (p, st2) \<Rightarrow> fetch_leased self c st2 p)) s (g\<lparr>ft_seats := ft_seats g + 1\<rparr>)"
      by (rule body [OF st1])
  qed (auto simp: R_def keeps_def covers_def covered_def)
  define k where "k = (\<lambda>refused. if refused \<and> (effective_strategy self = Paid_Only \<or> fc_gateway_only c)
      then uret (Done (refused_login_result c))
      else render_claim self (fc_admission c) (fc_weight c)
        (ubind (lease_for self c (st\<lparr>fs_gateway_refused := refused,
             fs_gateway_bypassed := fs_gateway_bypassed st \<or> (fc_force_gateway c \<and> refused)\<rparr>)) (\<lambda>l. case l of
          Inl result \<Rightarrow> uret (Done result) | Inr (p, st2) \<Rightarrow> fetch_leased self c st2 p)))"
  have k: "up (allowed self c) tally ?P (k refused) s g" if "fs_gateway_refused st \<longrightarrow> refused" for refused
  proof (cases "refused \<and> (effective_strategy self = Paid_Only \<or> fc_gateway_only c)")
    case True
    then show ?thesis by (simp add: k_def up_ret R_def)
  next
    case False
    then show ?thesis unfolding k_def using that
      by (simp only: if_False) (rule claim, simp add: passes_left_def)
  qed
  have fetch: "fetch_pass self c st = ubind (if (fc_force_gateway c \<or> effective_strategy self = Paid_Only) \<and> \<not> fs_gateway_refused st
      then ubind (udo GatewayRefused) (\<lambda>a. uret (as_bool a)) else uret (fs_gateway_refused st)) k"
    unfolding fetch_pass_def Let_def k_def ..
  have "up (allowed self c) tally ?P (fetch_pass self c st) s g"
    unfolding fetch up_bind using k [of True] k [of False] k
    by (cases "(fc_force_gateway c \<or> effective_strategy self = Paid_Only) \<and> \<not> fs_gateway_refused st")
      (auto simp: up_bind up_do up_ret split: sum.splits)
  then show ?thesis by (rule up_mono) (auto simp: R_def intro!: Q)
qed

lemma keeps_covers: "keeps C g g' \<Longrightarrow> covers self c g' = covers self c g"
  by (simp add: keeps_def covers_def covered_def)

text \<open>
  The whole loop, with enough fuel: the renders are bounded by what there was to try, no seat is
  kept, and the fuel is not what ends it.
\<close>

lemma fetch_loop_spec:
  assumes "passes_left st < n"
    and Q: "\<And>r s g'. ft_renders g' \<le> ft_renders g + Suc (passes_left st) \<Longrightarrow> keeps (covers self c g) g g' \<Longrightarrow> Q r s g'"
  shows "up (allowed self c) tally Q (fetch_loop n self c st) s g"
  using assms
proof (induction n arbitrary: st s g Q)
  case (Suc n)
  show ?case
    unfolding fetch_loop.simps up_bind
  proof (rule fetch_pass_spec, goal_cases)
    case (1 r s' g')
    show ?case
    proof (cases r)
      case (Inl e)
      then show ?thesis using 1 by (auto intro!: Suc.prems(2))
    next
      case (Inr p)
      show ?thesis
      proof (cases p)
        case (Again st')
        with 1 Inr have less: "passes_left st' < passes_left st" by simp
        have "up (allowed self c) tally Q (fetch_loop n self c st') s' g'"
        proof (rule Suc.IH)
          show "passes_left st' < n" using less Suc.prems(1) by simp
        next
          fix r s g''
          assume "ft_renders g'' \<le> ft_renders g' + Suc (passes_left st')" "keeps (covers self c g') g' g''"
          with 1 less keeps_covers [of "covers self c g" g g' self c] show "Q r s g''"
            by (intro Suc.prems(2)) (auto intro: keeps_trans)
        qed
        with Inr Again show ?thesis by simp
      next
        case (Done x)
        then show ?thesis using 1 Inr by (auto simp: up_ret intro!: Suc.prems(2))
      qed
    qed
  qed
qed simp

definition max_renders :: "worker \<Rightarrow> nat" where
  "max_renders self = 3 + (if di_enabled (wk_dataimpulse self) then di_rotate_on_block_retries (wk_dataimpulse self) else 0)"

lemma passes_left_start: "Suc (passes_left (fetch_start self)) = max_renders self"
  by (simp add: passes_left_def fetch_start_def max_renders_def SAME_LEVEL_PROXY_RETRIES_def)

text \<open>The fuel is enough: with more of it every run is the same.\<close>

context worker_world
begin

lemma wrun_bind:
  "wrun world (wbind p f) w =
     (case wrun world p w of (a, tr, w1) \<Rightarrow> case wrun world (f a) w1 of (b, tr', w2) \<Rightarrow> (b, tr @ tr', w2))"
  by (induction p arbitrary: w) (auto split: prod.splits)

lemma fetch_loop_fuel:
  "passes_left st < n \<Longrightarrow> wrun world (fetch_loop (n + k) self c st s) w = wrun world (fetch_loop n self c st s) w"
proof (induction n arbitrary: st s w)
  case (Suc n)
  obtain r s1 tr w1 where run: "wrun world (fetch_pass self c st s) w = ((r, s1), tr, w1)"
    by (metis prod.collapse)
  have "up (allowed self c) tally (\<lambda>r _ _. \<forall>st'. r = Inr (Again st') \<longrightarrow> passes_left st' < passes_left st)
      (fetch_pass self c st) s \<lparr>ft_renders = 0, ft_seats = 0, ft_slots = 0, ft_uncovered = 0\<rparr>"
    by (rule fetch_pass_spec) simp
  then have "\<forall>st'. r = Inr (Again st') \<longrightarrow> passes_left st' < passes_left st"
    unfolding up_def using wp_sound run by fastforce
  then have ih: "wrun world (fetch_loop (n + k) self c st' s1) w1 = wrun world (fetch_loop n self c st' s1) w1"
    if "r = Inr (Again st')" for st'
    using that Suc.prems by (intro Suc.IH) fastforce
  show ?case
    by (auto simp: ubind_def wrun_bind run ih split: sum.splits pass.splits)
qed simp

end

text \<open>The specification of \<open>_fetch_url\<close>, and with it of every attempt.\<close>

lemma fetch_with_proxy_spec:
  assumes "\<And>r s g'. ft_renders g' \<le> ft_renders g + max_renders self \<Longrightarrow> keeps (covers self c g) g g' \<Longrightarrow> Q r s g'"
  shows "up (allowed self c) tally Q (fetch_with_proxy self c) s g"
  unfolding fetch_with_proxy_def
  by (rule fetch_loop_spec, rule lessI) (simp only: passes_left_start assms)

lemma fetch_url_spec:
  assumes Q: "\<And>r s g'. ft_renders g' \<le> ft_renders g + (if level = 1 then 1 else max_renders self) \<Longrightarrow>
      keeps (covered g \<or> adm \<noteq> None \<and> wk_has_admission self \<and> level \<noteq> 1 \<and> 0 \<le> ft_seats g) g g' \<Longrightarrow> Q r s g'"
  shows "up (\<lambda>oper g. fetch_allowed (effective_strategy self) force level url oper) tally Q
    (fetch_url self t url level ov force only skip adm) s g"
proof (cases "(level = 2 \<or> level = 3) \<and> wk_has_pg self")
  case True
  define c where "c = \<lparr>fc_tenant = t, fc_url = url, fc_level = level, fc_overrides = ov,
              fc_force_gateway = force, fc_gateway_only = only,
              fc_skip_botasaurus = skip, fc_admission = adm,
              fc_weight = (if level = 2 then level2_weight self skip
                           else ac_camoufox_weight (wk_admission_cfg self))\<rparr>"
  have "up (allowed self c) tally (\<lambda>r s' g'. case r of Inl e \<Rightarrow> Q (Inl e) s' g' | Inr a \<Rightarrow> Q (Inr (Some a)) s' g')
      (fetch_with_proxy self c) s g"
    using True by (intro fetch_with_proxy_spec) (auto simp: covers_def claims_def c_def intro!: Q split: sum.splits)
  moreover have "fetch_url self t url level ov force only skip adm = ubind (fetch_with_proxy self c) (\<lambda>r. uret (Some r))"
    using True by (auto simp: fetch_url_def c_def Let_def)
  moreover have "fc_force_gateway c = force" "fc_level c = level" "fc_url c = url" by (simp_all add: c_def)
  ultimately show ?thesis
    by (simp only: up_bind up_ret)
next
  case False
  then show ?thesis
    by (auto simp: fetch_url_def Let_def up_rules keeps_def split: sum.splits intro!: Q)
qed

end
