(* ===== verification/Worker_Url.thy ===== *)
theory Worker_Url
  imports Worker_Fetch
begin

text \<open>
  The upper half of \<^verbatim>\<open>src/src/scraper_engine/orchestrator/worker.py\<close>: \<open>_process_one_url\<close>, the
  escalation of one URL through the levels, with every way it can end, and the exception
  handlers around it. The branches of the loop body are definitions of their own, composed as
  the code nests them.
\<close>

subsection \<open>The context of one URL\<close>

record url_ctx =
  ux_tenant :: string
  ux_job_id :: string
  ux_index :: nat
  ux_url :: string
  ux_domain :: string
  ux_site :: string
  ux_levels :: "int list"
  ux_url_levels :: "int list"
  ux_overrides :: "config_overrides option"
  ux_concurrency :: int
  ux_delay :: rat
  ux_admission :: "render_admission option"
  ux_gateway_first :: bool
  ux_skip_botasaurus :: bool
  ux_on_result :: bool

datatype lstep = Continue | Break

subsection \<open>Finishing a URL\<close>

definition finish :: "fetch_result \<Rightarrow> fetch_result um" where
  "finish r = ubind uget (\<lambda>s. uret (r\<lparr>fr_escalations :=
     (if us_escalations s = [] then None else Some (us_escalations s))\<rparr>))"

text \<open>\<open>results[index] = _finish(r)\<close>, then the callback if there is one.\<close>

definition store_result :: "nat \<Rightarrow> bool \<Rightarrow> fetch_result \<Rightarrow> unit um" where
  "store_result index on_result r =
     ubind (finish r) (\<lambda>r1. uthen (uact (SetResult index r1)) (uwhen on_result (uact (OnResult r1))))"

definition record_outcome :: "url_ctx \<Rightarrow> fetch_result \<Rightarrow> unit um" where
  "record_outcome ctx r = store_result (ux_index ctx) (ux_on_result ctx) r"

text \<open>
  The end of a failed URL, the same in every branch: the dead-letter entry, the job's error
  list, the result slot, the callback.
\<close>

definition conclude_failed ::
  "url_ctx \<Rightarrow> failure_category \<Rightarrow> string \<Rightarrow> int \<Rightarrow> int option \<Rightarrow> string \<Rightarrow> fetch_result \<Rightarrow> unit um" where
  "conclude_failed ctx category message level retry_after err r =
     uthen (uact (DlqEnqueue \<lparr>dq_tenant = ux_tenant ctx, dq_job_id = ux_job_id ctx, dq_url = ux_url ctx,
         dq_category = category, dq_message = message, dq_level = level, dq_retry_after = retry_after\<rparr>))
       (uthen (uact (AppendError err)) (record_outcome ctx r))"

definition reject :: "int \<Rightarrow> fetch_result \<Rightarrow> string \<Rightarrow> unit um" where
  "reject level result reason =
     umod (\<lambda>s. s\<lparr>us_last_site_answer := (if fr_http_status result \<noteq> None then Some result else us_last_site_answer s),
       us_escalations := us_escalations s @ [\<lparr>es_level = level, es_reason = reason,
         es_http_status = fr_http_status result, es_engine = fr_engine result, es_proxy_source = fr_proxy_source result\<rparr>]\<rparr>)"

definition rate_limit_base :: "string \<Rightarrow> int \<Rightarrow> fetch_result \<Rightarrow> failure_category \<Rightarrow> fetch_result \<Rightarrow> fetch_result" where
  "rate_limit_base url level failed category answer =
     (failed_result url level RATE_LIMITED
        (''later levels got no answer from the site: L'' @ py_str_int (fr_level_used failed) @ '' '' @ category_value category
          @ (if truthy_str (fr_error_message failed) then '': '' @ or_str (fr_error_message failed) [] else [])))
       \<lparr>fr_proxy_source := fr_proxy_source answer, fr_http_status := fr_http_status answer,
        fr_is_challenge_page := fr_is_challenge_page answer, fr_retry_after_seconds := fr_retry_after_seconds answer\<rparr>"

definition terminal_rate_limit :: "string \<Rightarrow> fetch_result option \<Rightarrow> fetch_result \<Rightarrow> int \<Rightarrow> fetch_result option res" where
  "terminal_rate_limit url last_answer failed level =
     (case (fr_failure_category failed, last_answer) of
        (Some category, Some answer) \<Rightarrow>
          if category \<notin> set NO_SITE_ANSWER_CATEGORIES then Inr None
          else if classify_http_status (or_int (fr_http_status answer) 0) \<noteq> Some RATE_LIMITED then Inr None
          else (case describe_block (rate_limit_base url level failed category answer) answer of
                  Inl e \<Rightarrow> Inl e | Inr t \<Rightarrow> Inr (Some t))
      | _ \<Rightarrow> Inr None)"

definition not_found_result :: "int \<Rightarrow> fetch_result \<Rightarrow> fetch_result" where
  "not_found_result level result =
     (let status = or_int (fr_http_status result) 0 in
      result\<lparr>fr_success := False, fr_is_challenge_page := False, fr_failure_category := Some NOT_FOUND,
        fr_block_reason := Some (status_reason status),
        fr_error_message := Some (''HTTP '' @ py_str_int status @ '' ('' @ (if status = 410 then ''gone'' else ''not found'')
          @ '') at L'' @ py_str_int level @ '' via '' @ route_of result @ '' '' @ em_dash
          @ '' the page is missing, not a bot check'')\<rparr>)"

definition conclude_not_found :: "url_ctx \<Rightarrow> int \<Rightarrow> fetch_result \<Rightarrow> unit um" where
  "conclude_not_found ctx level result =
     (let r = not_found_result level result; message = or_str (fr_error_message r) [] in
      uthen (reject level result (status_reason (or_int (fr_http_status result) 0)))
        (conclude_failed ctx NOT_FOUND message level None message r))"

subsection \<open>The gateway and the site memory\<close>

definition gateway_fallback_usable :: "worker \<Rightarrow> bool um" where
  "gateway_fallback_usable self =
     (if gateway_fallback_eligible self then ubind (udo GatewayRefused) (\<lambda>a. uret (\<not> as_bool a)) else uret False)"

text \<open>The result is passed on because a refusal is marked on it.\<close>

definition gateway_block_retry_usable :: "worker \<Rightarrow> fetch_result \<Rightarrow> (bool \<times> fetch_result) um" where
  "gateway_block_retry_usable self result =
     ubind (gateway_fallback_usable self) (\<lambda>u. uret (u, if u then result else result\<lparr>fr_paid_gateway_skipped := Some True\<rparr>))"

definition site_refusal_for :: "worker \<Rightarrow> string \<Rightarrow> string \<Rightarrow> (string \<times> json) list option um" where
  "site_refusal_for self tenant_id site =
     (if paid_only self then uret None
      else ubind (udo (ReadSiteRefusal tenant_id site)) (\<lambda>a. case as_fields a of
        None \<Rightarrow> uret None
      | Some refusal \<Rightarrow>
        if paid_route_is_pool_only self then uret (Some refusal)
        else ubind (udo ReadGatewayEpoch) (\<lambda>e.
          uret (if map_of refusal ''gateway_epoch'' = Some (JStr (as_text e)) then Some refusal else None))))"

definition json_opt_int :: "int option \<Rightarrow> json" where
  "json_opt_int v = (case v of None \<Rightarrow> JNull | Some i \<Rightarrow> JInt i)"

definition json_opt_str :: "string option \<Rightarrow> json" where
  "json_opt_str v = (case v of None \<Rightarrow> JNull | Some s \<Rightarrow> JStr s)"

definition refusal_fields :: "fetch_result \<Rightarrow> string \<Rightarrow> (string \<times> json) list" where
  "refusal_fields terminal epoch =
     [(''level'', JInt (fr_level_used terminal)), (''http_status'', json_opt_int (fr_http_status terminal)),
      (''block_reason'', json_opt_str (fr_block_reason terminal)), (''message'', json_opt_str (fr_error_message terminal)),
      (''proxy_source'', json_opt_str (map_option source_value (fr_proxy_source terminal))),
      (''paid_gateway_skipped'', JBool (truthy_bool (fr_paid_gateway_skipped terminal))),
      (''gateway_epoch'', JStr epoch)]"

definition definitive_refusal :: "fetch_result \<Rightarrow> bool" where
  "definitive_refusal terminal \<longleftrightarrow>
     (case fr_http_status terminal of None \<Rightarrow> False | Some s \<Rightarrow> s \<in> set REFUSAL_STATUSES)
     \<or> starts_with (or_str (fr_block_reason terminal) []) ''signature:'' \<or> fr_is_challenge_page terminal"

definition remember_site_refusal :: "worker \<Rightarrow> string \<Rightarrow> string \<Rightarrow> fetch_result \<Rightarrow> bool \<Rightarrow> unit um" where
  "remember_site_refusal self tenant_id site terminal skipped =
     (if paid_only self then uret ()
      else if \<not> definitive_refusal terminal \<or> \<not> (paid_route_is_pool_only self \<or> skipped) then uret ()
      else ubind (udo ReadGatewayEpoch) (\<lambda>e.
        uact (RecordSiteRefused tenant_id site (refusal_fields terminal (as_text e)))))"

text \<open>
  The result told to a URL of a refused site. Nothing in the repository writes a refusal of
  another shape than \<open>refusal_fields\<close>; one would fail the validation of \<open>FetchResult\<close>.
\<close>

definition validation_error :: exn where
  "validation_error = OtherError ''ValidationError''"

definition get_opt_int :: "(string \<times> json) list \<Rightarrow> string \<Rightarrow> int option res" where
  "get_opt_int fs k = (case map_of fs k of None \<Rightarrow> Inr None | Some JNull \<Rightarrow> Inr None | Some (JInt i) \<Rightarrow> Inr (Some i)
     | _ \<Rightarrow> Inl validation_error)"

definition get_opt_str :: "(string \<times> json) list \<Rightarrow> string \<Rightarrow> string option res" where
  "get_opt_str fs k = (case map_of fs k of None \<Rightarrow> Inr None | Some JNull \<Rightarrow> Inr None | Some (JStr s) \<Rightarrow> Inr (Some s)
     | _ \<Rightarrow> Inl validation_error)"

definition get_source :: "(string \<times> json) list \<Rightarrow> proxy_source option res" where
  "get_source fs = (case get_opt_str fs ''proxy_source'' of Inl e \<Rightarrow> Inl e | Inr None \<Rightarrow> Inr None
     | Inr (Some t) \<Rightarrow> if t = ''pool'' then Inr (Some Pool) else if t = ''paid_gateway'' then Inr (Some Paid_Gateway)
         else Inl validation_error)"

definition refused_result :: "string \<Rightarrow> string \<Rightarrow> int list \<Rightarrow> (string \<times> json) list \<Rightarrow> fetch_result res" where
  "refused_result url site levels refusal =
     (case (get_opt_int refusal ''level'', get_opt_int refusal ''http_status'', get_opt_str refusal ''block_reason'',
            get_opt_str refusal ''message'', get_source refusal) of
        (Inr lv, Inr st, Inr br, Inr msg, Inr src) \<Rightarrow>
          Inr ((failed_result url (or_int lv (last levels)) DETECTION_BLOCK
                 (site @ '' refused every level recently '' @ em_dash @ '' not retried: '' @ or_str msg ''blocked''))
               \<lparr>fr_http_status := st, fr_block_reason := br, fr_proxy_source := src,
                fr_paid_gateway_skipped := (if map_of refusal ''paid_gateway_skipped'' = Some (JBool True) then Some True else None),
                fr_site_refused_recently := Some True\<rparr>)
      | _ \<Rightarrow> Inl validation_error)"

definition conclude_site_refused :: "url_ctx \<Rightarrow> (string \<times> json) list \<Rightarrow> unit um" where
  "conclude_site_refused ctx refusal =
     ubind (ulift (refused_result (ux_url ctx) (ux_site ctx) (ux_levels ctx) refusal)) (\<lambda>r.
       uthen (reject (fr_level_used r) r ''site_refused_recently'')
         (conclude_failed ctx DETECTION_BLOCK (or_str (fr_error_message r) []) (fr_level_used r) None
            (or_str (fr_error_message r) []) r))"

subsection \<open>Open circuits and busy slots\<close>

definition conclude_circuit_open :: "worker \<Rightarrow> url_ctx \<Rightarrow> int \<Rightarrow> lstep um" where
  "conclude_circuit_open self ctx level =
     uthen (uwhen (gateway_fallback_eligible self) (umod (\<lambda>s. s\<lparr>us_gateway_skipped := True\<rparr>)))
       (ubind uget (\<lambda>s.
         let r = note_gateway_skipped (us_gateway_skipped s)
               (failed_result (ux_url ctx) level CIRCUIT_OPEN (''Circuit open for '' @ ux_domain ctx));
             message = or_str (fr_error_message r) []
         in uthen (conclude_failed ctx CIRCUIT_OPEN message level None message r) (uret Break)))"

text \<open>The timeout is printed by \<open>show_secs\<close> (the text of a float is not modelled).\<close>

definition slot_timeout_message :: "(rat \<Rightarrow> string) \<Rightarrow> worker \<Rightarrow> url_ctx \<Rightarrow> string" where
  "slot_timeout_message show_secs self ctx =
     ''No politeness slot for '' @ ux_domain ctx @ '' within '' @ show_secs (pl_slot_wait_timeout_seconds (wk_limits self)) @ ''s''"

definition conclude_no_slot :: "(rat \<Rightarrow> string) \<Rightarrow> worker \<Rightarrow> url_ctx \<Rightarrow> int \<Rightarrow> lstep um" where
  "conclude_no_slot show_secs self ctx level =
     (let message = slot_timeout_message show_secs self ctx in
      uthen (conclude_failed ctx POLITENESS_TIMEOUT message level None message
          (failed_result (ux_url ctx) level POLITENESS_TIMEOUT message)) (uret Break))"

subsection \<open>The second attempt through the gateway\<close>

definition retried_reason :: "fetch_result \<Rightarrow> string" where
  "retried_reason r =
     (case fr_failure_category r of
        Some c \<Rightarrow> if \<not> fr_success r then ''failure:'' @ category_value c else or_str (page_challenge r) ''blocked''
      | None \<Rightarrow> or_str (page_challenge r) ''blocked'')"

definition wants_gateway_retry :: "worker \<Rightarrow> int \<Rightarrow> fetch_result \<Rightarrow> bool" where
  "wants_gateway_retry self level r \<longleftrightarrow>
     level \<ge> 2 \<and> gateway_fallback_eligible self \<and> fr_proxy_source r \<noteq> Some Paid_Gateway
     \<and> (in_cats (fr_failure_category r) BLOCK_CATEGORIES
        \<or> (fr_success r \<and> is_challenge_page (html_of r) (status_of r) False))"

definition retry_refused :: "fetch_result option \<Rightarrow> bool" where
  "retry_refused r = (case r of None \<Rightarrow> False
     | Some g \<Rightarrow> fr_failure_category g = Some PROXY_AUTH_FAILED \<and> fr_proxy_source g = Some Paid_Gateway)"

text \<open>After the retry: which result stands, and what it teaches.\<close>

definition after_retry :: "url_ctx \<Rightarrow> int \<Rightarrow> fetch_result \<Rightarrow> fetch_result option \<Rightarrow> fetch_result um" where
  "after_retry ctx level result gateway_result =
     (if retry_refused gateway_result
      then uthen (umod (\<lambda>s. s\<lparr>us_gateway_skipped := True\<rparr>)) (uret result)
      else uthen (reject level result (retried_reason result))
        (case gateway_result of None \<Rightarrow> uret result
         | Some g \<Rightarrow>
           uthen (umod (\<lambda>s. s\<lparr>us_last_level_result := Some g\<rparr>))
             (uthen (uwhen (fr_proxy_source g = Some Paid_Gateway \<and> fr_success g \<and> \<not> looks_blocked g)
                 (uact (RecordPoolBlocked (ux_tenant ctx) (ux_domain ctx))))
               (uret g))))"

definition block_retry :: "worker \<Rightarrow> url_ctx \<Rightarrow> int \<Rightarrow> render_admission option \<Rightarrow> fetch_result \<Rightarrow> fetch_result um" where
  "block_retry self ctx level adm result =
     (if \<not> wants_gateway_retry self level result then uret result
      else ubind (gateway_block_retry_usable self result) (\<lambda>(usable, result1).
        uthen (umod (\<lambda>s. s\<lparr>us_last_level_result := Some result1\<rparr>))
          (if \<not> usable then uret result1
           else ubind (fetch_url self (ux_tenant ctx) (ux_url ctx) level (ux_overrides ctx) True True (ux_skip_botasaurus ctx) adm)
                  (after_retry ctx level result1))))"

subsection \<open>A page that may be content\<close>

definition json_truthy :: "json option \<Rightarrow> bool" where
  "json_truthy j = (case j of Some (JObj fs) \<Rightarrow> fs \<noteq> [] | Some JNull \<Rightarrow> False | None \<Rightarrow> False | Some _ \<Rightarrow> True)"

definition extract_and_convert :: "worker \<Rightarrow> url_ctx \<Rightarrow> fetch_result \<Rightarrow> fetch_result um" where
  "extract_and_convert self ctx result =
     (if \<not> truthy_str (fr_html result) then uret result
      else let html = html_of result;
               schema = (case ux_overrides ctx of None \<Rightarrow> None | Some o' \<Rightarrow> co_extraction_schema o');
               small = (case ux_overrides ctx of None \<Rightarrow> False | Some o' \<Rightarrow> co_enable_smallmodel o');
               llm = (case ux_overrides ctx of None \<Rightarrow> False | Some o' \<Rightarrow> co_enable_llm o')
        in ubind (if wk_has_extraction_engine self \<and> json_truthy schema
                  then ubind (udo (EngineExtract html (the schema) small llm)) (\<lambda>a. uret (as_json a)) else uret None)
          (\<lambda>extracted.
            ubind (case extracted of Some j \<Rightarrow> uret (Some j)
                   | None \<Rightarrow> ubind (udo (SelectorExtract html schema (ux_url ctx))) (\<lambda>a. uret (as_json a)))
              (\<lambda>ex. ubind (if wk_has_firecrawl self then udo (FirecrawlMarkdown html (ux_url ctx)) else udo (LocalMarkdown html))
                (\<lambda>m. uret (result\<lparr>fr_extracted := ex, fr_markdown := as_text_opt m\<rparr>)))))"

definition accept_content :: "worker \<Rightarrow> url_ctx \<Rightarrow> int \<Rightarrow> fetch_result \<Rightarrow> lstep um" where
  "accept_content self ctx level result =
     uthen (uact (RecordLevel (ux_tenant ctx) (ux_domain ctx) level))
     (uthen (uact (ClearSiteRefusal (ux_tenant ctx) (ux_site ctx)))
     (uthen (uwhen (fr_proxy_source result = Some Pool) (uact (RecordPoolOk (ux_tenant ctx) (ux_domain ctx))))
     (uthen (uwhen (level = 2 \<and> l2_tries_botasaurus self \<and> \<not> ux_skip_botasaurus ctx)
         (if fr_engine result = Some ''botasaurus'' then uact (RecordBotaOk (ux_tenant ctx) (ux_domain ctx))
          else if fr_engine result = Some ''camoufox'' then uact (RecordBotaFailed (ux_tenant ctx) (ux_domain ctx))
          else uret ()))
     (ubind (extract_and_convert self ctx result) (\<lambda>r. uthen (record_outcome ctx r) (uret Break))))))"

definition success_block_reason :: "fetch_result \<Rightarrow> string" where
  "success_block_reason r =
     or_str (page_challenge r) (if blocked_status r then status_reason (or_int (fr_http_status r) 0) else ''js_gated'')"

definition downgraded :: "fetch_result \<Rightarrow> fetch_result" where
  "downgraded r = r\<lparr>fr_success := False,
     fr_failure_category := Some (case classify_http_status (or_int (fr_http_status r) 0) of Some c \<Rightarrow> c | None \<Rightarrow> DETECTION_BLOCK),
     fr_block_reason := Some (success_block_reason r),
     fr_error_message := Some (or_str (fr_error_message r) ''still blocked/not-found after final level'')\<rparr>"

definition success_branch :: "worker \<Rightarrow> url_ctx \<Rightarrow> int \<Rightarrow> fetch_result \<Rightarrow> lstep um" where
  "success_branch self ctx level result =
     uthen (uact (RecordSuccess (ux_domain ctx)))
     (let r = result\<lparr>fr_is_challenge_page := is_challenge_page (html_of result) (status_of result) False\<rparr> in
      uthen (umod (\<lambda>s. s\<lparr>us_last_level_result := Some r\<rparr>))
      (if \<not> still_looks_blocked r then accept_content self ctx level r
       else uthen (reject level r (success_block_reason r))
        (if level < last (ux_url_levels ctx) then uret Continue
         else uthen (uact (RecordFailure (ux_domain ctx)))
          (uthen (umod (\<lambda>s. s\<lparr>us_last_level_result := Some (downgraded r),
              us_last_site_answer := (if fr_http_status r \<noteq> None then Some (downgraded r) else us_last_site_answer s)\<rparr>))
            (uret Continue)))))"

subsection \<open>A failed attempt\<close>

text \<open>The terminal failure: a rate limit met earlier is the URL's answer when later levels got none.\<close>

definition conclude_failure :: "url_ctx \<Rightarrow> int \<Rightarrow> fetch_result \<Rightarrow> failure_category \<Rightarrow> lstep um" where
  "conclude_failure ctx level result category =
     ubind uget (\<lambda>s.
       ubind (ulift (terminal_rate_limit (ux_url ctx) (us_last_site_answer s) result level)) (\<lambda>limited.
         let (r0, cat1) = (case limited of Some t \<Rightarrow> (t, RATE_LIMITED) | None \<Rightarrow> (result, category));
             r = note_gateway_skipped (us_gateway_skipped s) r0
         in uthen (conclude_failed ctx cat1 (or_str (fr_error_message r) []) level (retry_not_before r)
                (or_str (fr_error_message r) ''DLQ'') r) (uret Break)))"

definition failure_branch :: "worker \<Rightarrow> url_ctx \<Rightarrow> int \<Rightarrow> fetch_result \<Rightarrow> lstep um" where
  "failure_branch self ctx level result =
     (let category = fr_failure_category result;
          auth_failed = (category = Some PROXY_AUTH_FAILED);
          gateway_refused = (auth_failed \<and> fr_proxy_source result = Some Paid_Gateway) in
      uthen (uwhen (\<not> auth_failed) (uact (RecordFailure (ux_domain ctx))))
      (uthen (reject level result (case category of Some c \<Rightarrow> ''failure:'' @ category_value c | None \<Rightarrow> ''failure:unknown''))
      (case category of None \<Rightarrow> uret Continue
       | Some cat \<Rightarrow>
         if cat \<in> set DLQ_ELIGIBLE_CATEGORIES \<or> gateway_refused then conclude_failure ctx level result cat
         else uret Continue)))"

subsection \<open>One level\<close>

definition judge :: "worker \<Rightarrow> url_ctx \<Rightarrow> int \<Rightarrow> fetch_result \<Rightarrow> lstep um" where
  "judge self ctx level result =
     (if fr_success result then success_branch self ctx level result else failure_branch self ctx level result)"

definition note_skipped :: "fetch_result \<Rightarrow> unit um" where
  "note_skipped r = uwhen (truthy_bool (fr_paid_gateway_skipped r)) (umod (\<lambda>s. s\<lparr>us_gateway_skipped := True\<rparr>))"

definition after_fetch :: "worker \<Rightarrow> url_ctx \<Rightarrow> int \<Rightarrow> render_admission option \<Rightarrow> fetch_result option \<Rightarrow> lstep um" where
  "after_fetch self ctx level adm fetched =
     (case fetched of None \<Rightarrow> uret Continue
      | Some result \<Rightarrow>
        uthen (umod (\<lambda>s. s\<lparr>us_last_level_result := Some result\<rparr>))
        (uthen (note_skipped result)
        (if is_final_not_found result then uthen (conclude_not_found ctx level result) (uret Break)
         else ubind (block_retry self ctx level adm result) (\<lambda>r.
           uthen (note_skipped r) (judge self ctx level r)))))"

definition attempt_level :: "(rat \<Rightarrow> string) \<Rightarrow> worker \<Rightarrow> url_ctx \<Rightarrow> int \<Rightarrow> bool \<Rightarrow> lstep um" where
  "attempt_level show_secs self ctx level circuit_open =
     (let claims_per_render = (ux_admission ctx \<noteq> None \<and> level \<ge> 2);
          adm = (if claims_per_render then ux_admission ctx else None);
          fetch = fetch_url self (ux_tenant ctx) (ux_url ctx) level (ux_overrides ctx)
                    (circuit_open \<or> ux_gateway_first ctx) False (ux_skip_botasaurus ctx) adm in
      if claims_per_render then ubind fetch (after_fetch self ctx level adm)
      else uthen (uact (WaitIfNeeded (ux_domain ctx) (ux_tenant ctx) (ux_delay ctx)))
        (ubind (udo (AcquireSlot (ux_domain ctx) (ux_tenant ctx) (ux_concurrency ctx))) (\<lambda>a. case as_text_opt a of
          None \<Rightarrow> conclude_no_slot show_secs self ctx level
        | Some slot \<Rightarrow> ubind (ufinally fetch (uact (ReleaseSlot (ux_domain ctx) (ux_tenant ctx) slot)))
                           (after_fetch self ctx level adm))))"

definition level_step :: "(rat \<Rightarrow> string) \<Rightarrow> worker \<Rightarrow> url_ctx \<Rightarrow> int \<Rightarrow> lstep um" where
  "level_step show_secs self ctx level =
     ubind (udo (AllowRequest (ux_domain ctx))) (\<lambda>a.
       let circuit_open = \<not> as_bool a in
       ubind (if circuit_open then gateway_fallback_usable self else uret True) (\<lambda>usable.
         if circuit_open \<and> \<not> usable then conclude_circuit_open self ctx level
         else if circuit_open \<and> level = 1 then uret Continue
         else attempt_level show_secs self ctx level circuit_open))"

subsection \<open>All levels exhausted\<close>

definition exhausted_base :: "url_ctx \<Rightarrow> fetch_result option \<Rightarrow> fetch_result" where
  "exhausted_base ctx last_result =
     (let top = last (ux_url_levels ctx) in
      case last_result of
        None \<Rightarrow> failed_result (ux_url ctx) top PROXY_EXHAUSTED ''All fetch levels exhausted without a single attempt''
      | Some r \<Rightarrow> (failed_result (ux_url ctx) top (case fr_failure_category r of Some c \<Rightarrow> c | None \<Rightarrow> PROXY_EXHAUSTED)
            (or_str (fr_error_message r) ''All fetch levels exhausted''))
          \<lparr>fr_proxy_source := fr_proxy_source r, fr_http_status := fr_http_status r,
           fr_is_challenge_page := fr_is_challenge_page r, fr_retry_after_seconds := fr_retry_after_seconds r\<rparr>)"

definition exhausted_result :: "url_ctx \<Rightarrow> fetch_result option \<Rightarrow> fetch_result option \<Rightarrow> fetch_result res" where
  "exhausted_result ctx last_answer last_result =
     (let base = exhausted_base ctx last_result in
      case last_result of None \<Rightarrow> Inr base
      | Some r \<Rightarrow>
        if in_cats (fr_failure_category base) BLOCK_CATEGORIES then describe_block base r
        else (case terminal_rate_limit (ux_url ctx) last_answer r (last (ux_url_levels ctx)) of
                Inl e \<Rightarrow> Inl e | Inr (Some t) \<Rightarrow> Inr t | Inr None \<Rightarrow> Inr base))"

definition conclude_exhausted :: "worker \<Rightarrow> url_ctx \<Rightarrow> unit um" where
  "conclude_exhausted self ctx =
     ubind uget (\<lambda>s.
     ubind (ulift (exhausted_result ctx (us_last_site_answer s) (us_last_level_result s))) (\<lambda>r0.
       let r = note_gateway_skipped (us_gateway_skipped s) r0;
           category = (case fr_failure_category r of Some c \<Rightarrow> c | None \<Rightarrow> PROXY_EXHAUSTED);
           message = or_str (fr_error_message r) (or_str (fr_error_message (exhausted_base ctx (us_last_level_result s))) []);
           top = last (ux_url_levels ctx) in
       uthen (uwhen (category = DETECTION_BLOCK \<and> top = last LEVELS)
           (remember_site_refusal self (ux_tenant ctx) (ux_site ctx) r (us_gateway_skipped s)))
         (conclude_failed ctx category message top (retry_not_before r) message r)))"

primrec level_loop :: "(rat \<Rightarrow> string) \<Rightarrow> worker \<Rightarrow> url_ctx \<Rightarrow> int list \<Rightarrow> unit um" where
  "level_loop show_secs self ctx [] = conclude_exhausted self ctx"
| "level_loop show_secs self ctx (level # ls) =
     ubind (level_step show_secs self ctx level) (\<lambda>r. case r of
       Break \<Rightarrow> uret () | Continue \<Rightarrow> level_loop show_secs self ctx ls)"

subsection \<open>The exception handlers\<close>

definition conclude_crash :: "url_ctx \<Rightarrow> failure_category \<Rightarrow> string \<Rightarrow> unit um" where
  "conclude_crash ctx category message =
     (let top = last (ux_url_levels ctx) in
      conclude_failed ctx category message top None message (failed_result (ux_url ctx) top category message))"

definition handle_exception :: "worker \<Rightarrow> url_ctx \<Rightarrow> exn \<Rightarrow> unit um" where
  "handle_exception self ctx e =
     (case e of
        AdmissionCancelledError \<Rightarrow> uact SetCancelledFlag
      | AdmissionTimeoutError w \<Rightarrow> conclude_crash ctx CAPACITY_TIMEOUT (wk_exn_text self e)
      | AdmissionUnavailableError \<Rightarrow> conclude_crash ctx DEPENDENCY_UNAVAILABLE (wk_exn_text self e)
      | _ \<Rightarrow>
        let redis_down = (e = RedisConnectionError \<or> e = RedisTimeoutError);
            category = (if redis_down then DEPENDENCY_UNAVAILABLE else PARSE_ERROR)
        in uthen (uwhen (\<not> redis_down) (uact (RecordFailure (ux_domain ctx))))
             (conclude_crash ctx category (''Unexpected error processing URL: '' @ wk_exn_text self e)))"

subsection \<open>One URL of a job\<close>

record job =
  jb_tenant :: string
  jb_job_id :: string
  jb_urls :: "string list"
  jb_overrides :: "config_overrides option"
  jb_levels :: "int list"
  jb_concurrency :: int
  jb_delay :: rat
  jb_bypass_cache :: bool
  jb_on_result :: bool
  jb_already_done :: "string list"
  jb_deadline_cap :: "rat option"

definition is_cancelled :: "worker \<Rightarrow> string \<Rightarrow> string \<Rightarrow> bool um" where
  "is_cancelled self tenant_id job_id =
     (if \<not> wk_has_pg self then uret False
      else ubind (udo (ReadJobStatus tenant_id job_id)) (\<lambda>a. uret (as_text_opt a = Some ''CANCELLED'')))"

definition result_of_row :: "string \<Rightarrow> cached_row \<Rightarrow> fetch_result" where
  "result_of_row url row =
     (new_result url True (ro_level_used row) 0)
       \<lparr>fr_http_status := ro_http_status row, fr_is_challenge_page := ro_is_challenge_page row,
        fr_proxy_used := ro_proxy_used row, fr_markdown := ro_markdown row, fr_extracted := ro_json_data row,
        fr_html_snapshot_url := ro_html_snapshot_url row, fr_from_cache := True\<rparr>"

definition check_cache :: "worker \<Rightarrow> string \<Rightarrow> string \<Rightarrow> fetch_result option um" where
  "check_cache self tenant_id url =
     (if \<not> wk_has_pg self then uret None
      else ubind (udo (ReadCachedRow tenant_id url)) (\<lambda>a. uret (map_option (result_of_row url) (as_row a))))"

definition make_admission :: "worker \<Rightarrow> job \<Rightarrow> string \<Rightarrow> render_admission option um" where
  "make_admission self jb domain =
     (if \<not> wk_has_admission self then uret None
      else ubind (udo Clock) (\<lambda>now.
        let deadline0 = as_time now + ac_per_url_admission_cap_seconds (wk_admission_cfg self);
            url_deadline = (case jb_deadline_cap jb of None \<Rightarrow> deadline0 | Some d \<Rightarrow> min deadline0 d)
        in ubind (udo WallClock) (\<lambda>wall. uret (Some
          \<lparr>ra_tenant = jb_tenant jb, ra_domain = domain, ra_concurrency = jb_concurrency jb,
           ra_delay_seconds = jb_delay jb, ra_priority_ms = trunc_rat (as_time wall * 1000), ra_deadline = url_deadline\<rparr>))))"

text \<open>The part in front of \<open>try\<close>: what the loop over the levels goes by.\<close>

definition url_context ::
  "worker \<Rightarrow> job \<Rightarrow> nat \<Rightarrow> string \<Rightarrow> render_admission option \<Rightarrow> domain_plan \<Rightarrow> bool \<Rightarrow> url_ctx" where
  "url_context self jb index url adm pl gateway_first =
     (let domain = extract_domain self url in
      \<lparr>ux_tenant = jb_tenant jb, ux_job_id = jb_job_id jb, ux_index = index, ux_url = url,
       ux_domain = domain, ux_site = wk_registrable self domain, ux_levels = jb_levels jb,
       ux_url_levels = filter (\<lambda>level. start_level pl \<le> level) (jb_levels jb),
       ux_overrides = jb_overrides jb, ux_concurrency = jb_concurrency jb, ux_delay = jb_delay jb,
       ux_admission = adm, ux_gateway_first = gateway_first, ux_skip_botasaurus = skip_botasaurus pl,
       ux_on_result = jb_on_result jb\<rparr>)"

definition prepare_url :: "worker \<Rightarrow> job \<Rightarrow> nat \<Rightarrow> string \<Rightarrow> (url_ctx \<times> (string \<times> json) list option) um" where
  "prepare_url self jb index url =
     (let domain = extract_domain self url in
      ubind (make_admission self jb domain) (\<lambda>adm.
      ubind (site_refusal_for self (jb_tenant jb) (wk_registrable self domain)) (\<lambda>refusal.
      ubind (udo (GetPlan (jb_tenant jb) domain (jb_levels jb))) (\<lambda>a.
        let pl = as_plan (jb_levels jb) a in
        ubind (if skip_pool pl then gateway_fallback_usable self else uret False) (\<lambda>gateway_first.
          uthen (umod (\<lambda>s. s\<lparr>us_gateway_skipped := skip_pool pl \<and> gateway_fallback_eligible self \<and> \<not> gateway_first\<rparr>))
            (uret (url_context self jb index url adm pl gateway_first, refusal)))))))"

text \<open>The part inside \<open>try\<close>.\<close>

definition url_body :: "(rat \<Rightarrow> string) \<Rightarrow> worker \<Rightarrow> url_ctx \<Rightarrow> (string \<times> json) list option \<Rightarrow> unit um" where
  "url_body show_secs self ctx refusal =
     (case refusal of Some fs \<Rightarrow> conclude_site_refused ctx fs
      | None \<Rightarrow> level_loop show_secs self ctx (ux_url_levels ctx))"

definition url_pipeline :: "(rat \<Rightarrow> string) \<Rightarrow> worker \<Rightarrow> job \<Rightarrow> nat \<Rightarrow> string \<Rightarrow> unit um" where
  "url_pipeline show_secs self jb index url =
     ubind (prepare_url self jb index url) (\<lambda>(ctx, refusal).
       ucatch (url_body show_secs self ctx refusal) (handle_exception self ctx))"

text \<open>Past the cancellation checks: the cache, then the pipeline.\<close>

definition cached_or_fetched :: "(rat \<Rightarrow> string) \<Rightarrow> worker \<Rightarrow> job \<Rightarrow> nat \<Rightarrow> string \<Rightarrow> unit um" where
  "cached_or_fetched show_secs self jb index url =
     ubind (if jb_bypass_cache jb then uret None else check_cache self (jb_tenant jb) url) (\<lambda>cached.
       case cached of Some r \<Rightarrow> store_result index (jb_on_result jb) r
       | None \<Rightarrow> url_pipeline show_secs self jb index url)"

definition process_one_url :: "(rat \<Rightarrow> string) \<Rightarrow> worker \<Rightarrow> job \<Rightarrow> nat \<Rightarrow> string \<Rightarrow> unit um" where
  "process_one_url show_secs self jb index url =
     ubind (udo ReadCancelledFlag) (\<lambda>flag.
       if as_bool flag then uret ()
       else ubind (is_cancelled self (jb_tenant jb) (jb_job_id jb)) (\<lambda>cancelled.
         if cancelled then uact SetCancelledFlag
         else if url \<in> set (jb_already_done jb) then uret ()
         else cached_or_fetched show_secs self jb index url))"

subsection \<open>The part in front of the levels\<close>

text \<open>It cannot fail, and it leaves the loop a suffix of the job's ladder, not empty if that is not.\<close>

fun prepares :: "wop \<Rightarrow> bool" where
  "prepares Clock = True"
| "prepares WallClock = True"
| "prepares (ReadSiteRefusal t s) = True"
| "prepares ReadGatewayEpoch = True"
| "prepares (GetPlan t d ls) = True"
| "prepares GatewayRefused = True"
| "prepares _ = False"

definition prepared_for :: "worker \<Rightarrow> job \<Rightarrow> nat \<Rightarrow> string \<Rightarrow> url_ctx \<Rightarrow> bool" where
  "prepared_for self jb index url ctx \<longleftrightarrow>
     ux_index ctx = index \<and> ux_url ctx = url \<and> ux_on_result ctx = jb_on_result jb \<and>
     ux_tenant ctx = jb_tenant jb \<and> ux_job_id ctx = jb_job_id jb \<and> ux_levels ctx = jb_levels jb \<and>
     ux_domain ctx = extract_domain self url \<and> ux_site ctx = wk_registrable self (extract_domain self url) \<and>
     (ux_admission ctx \<noteq> None \<longleftrightarrow> wk_has_admission self) \<and>
     (\<forall>a. ux_admission ctx = Some a \<longrightarrow> ra_tenant a = jb_tenant jb \<and> ra_domain a = extract_domain self url) \<and>
     (\<exists>start. ux_url_levels ctx = filter (\<lambda>level. start \<le> level) (jb_levels jb) \<and>
        (jb_levels jb \<noteq> [] \<longrightarrow> hd (jb_levels jb) \<le> last (jb_levels jb) \<longrightarrow> start \<le> last (jb_levels jb)))"

lemma prepared_levels:
  assumes "prepared_for self jb index url ctx"
  shows "set (ux_url_levels ctx) \<subseteq> set (jb_levels jb)"
    and "jb_levels jb \<noteq> [] \<Longrightarrow> hd (jb_levels jb) \<le> last (jb_levels jb) \<Longrightarrow>
      ux_url_levels ctx \<noteq> [] \<and> last (ux_url_levels ctx) = last (jb_levels jb)"
proof -
  obtain start where s: "ux_url_levels ctx = filter (\<lambda>level. start \<le> level) (jb_levels jb)"
    "jb_levels jb \<noteq> [] \<longrightarrow> hd (jb_levels jb) \<le> last (jb_levels jb) \<longrightarrow> start \<le> last (jb_levels jb)"
    using assms unfolding prepared_for_def by blast
  then show "set (ux_url_levels ctx) \<subseteq> set (jb_levels jb)" by auto
  assume "jb_levels jb \<noteq> []" "hd (jb_levels jb) \<le> last (jb_levels jb)"
  with s show "ux_url_levels ctx \<noteq> [] \<and> last (ux_url_levels ctx) = last (jb_levels jb)"
    by (metis (mono_tags, lifting) filter_empty_conv last_filter_last last_in_set)
qed

lemma as_plan_start:
  "answers (GetPlan t d ls) (Inr a) \<Longrightarrow> hd ls \<le> last ls \<Longrightarrow> start_level (as_plan ls a) \<le> last ls"
  by (cases a) (auto simp: answers_def as_plan_def neutral_plan_def)

lemma prepare_steps:
  assumes "\<And>oper. prepares oper \<Longrightarrow> ok oper g" "\<And>oper r. prepares oper \<Longrightarrow> upd oper r g = g"
  shows make_admission_up: "(\<And>a. (a \<noteq> None \<longleftrightarrow> wk_has_admission self) \<Longrightarrow>
      (\<forall>x. a = Some x \<longrightarrow> ra_tenant x = jb_tenant jb \<and> ra_domain x = domain) \<Longrightarrow> Q (Inr a) s g) \<Longrightarrow>
      up ok upd Q (make_admission self jb domain) s g"
    and site_refusal_for_up: "(\<And>f. R (Inr f) s g) \<Longrightarrow> up ok upd R (site_refusal_for self t site) s g"
    and gateway_fallback_usable_up: "(\<And>b. B (Inr b) s g) \<Longrightarrow> up ok upd B (gateway_fallback_usable self) s g"
  using assms
  by (auto simp: make_admission_def site_refusal_for_def gateway_fallback_usable_def up_rules Let_def
      split: sum.splits option.splits)

lemma prepare_url_up:
  assumes ok: "\<And>oper. prepares oper \<Longrightarrow> ok oper g" "\<And>oper r. prepares oper \<Longrightarrow> upd oper r g = g"
    and Q: "\<And>ctx refusal s'. prepared_for self jb index url ctx \<Longrightarrow> Q (Inr (ctx, refusal)) s' g"
  shows "up ok upd Q (prepare_url self jb index url) s g"
proof -
  have fin: "up ok upd Q (uthen (umod f) (uret (url_context self jb index url adm (as_plan (jb_levels jb) a) gf, rf))) s' g"
    if "adm \<noteq> None \<longleftrightarrow> wk_has_admission self" "answers (GetPlan t d (jb_levels jb)) (Inr a)"
      "\<forall>x. adm = Some x \<longrightarrow> ra_tenant x = jb_tenant jb \<and> ra_domain x = extract_domain self url" for f adm a gf rf s' t d
    using that(1,3) as_plan_start [OF that(2)]
    by (auto simp: up_then up_mod up_ret prepared_for_def url_context_def Let_def
        intro!: Q exI [of _ "start_level (as_plan (jb_levels jb) a)"])
  show ?thesis
    unfolding prepare_url_def Let_def up_bind up_do using ok
    by (auto split: sum.splits simp: up_ret intro!: make_admission_up site_refusal_for_up gateway_fallback_usable_up fin)
qed

end
