(* ===== verification/Worker_Outcome.thy ===== *)
theory Worker_Outcome
  imports Worker_Url
begin

text \<open>
  What becomes of one URL: every run of \<open>_process_one_url\<close> leaves exactly one outcome behind,
  whatever the surroundings answer, and what is stored as a success is a page no check objects
  to. One walk through the branches proves both.
\<close>

subsection \<open>What a run leaves behind\<close>

record outcome =
  oc_sets :: "(nat \<times> fetch_result) list"
  oc_errs :: nat
  oc_dlq :: "dlq_entry list"
  oc_reported :: "fetch_result list"
  oc_broken :: bool
  oc_stopped :: bool

text \<open>
  \<open>oc_broken\<close>: the bookkeeping itself failed (the queue of dead letters, the callback that stores a
  result, the circuit's failure counter, or the database reads in front of the \<open>try\<close>).
  \<open>oc_stopped\<close>: the cancellation of the job was seen.
\<close>

fun jot :: "wop \<Rightarrow> exn + wans \<Rightarrow> outcome \<Rightarrow> outcome" where
  "jot (SetResult i r) a g = g\<lparr>oc_sets := oc_sets g @ [(i, r)]\<rparr>"
| "jot (AppendError m) a g = g\<lparr>oc_errs := Suc (oc_errs g)\<rparr>"
| "jot (DlqEnqueue e) (Inr a) g = g\<lparr>oc_dlq := oc_dlq g @ [e]\<rparr>"
| "jot (DlqEnqueue e) (Inl x) g = g\<lparr>oc_broken := True\<rparr>"
| "jot (OnResult r) (Inr a) g = g\<lparr>oc_reported := oc_reported g @ [r]\<rparr>"
| "jot (OnResult r) (Inl x) g = g\<lparr>oc_broken := True\<rparr>"
| "jot (RecordFailure d) (Inl x) g = g\<lparr>oc_broken := True\<rparr>"
| "jot (ReadJobStatus t j) (Inl x) g = g\<lparr>oc_broken := True\<rparr>"
| "jot (ReadCachedRow t u) (Inl x) g = g\<lparr>oc_broken := True\<rparr>"
| "jot ReadCancelledFlag (Inr a) g = g\<lparr>oc_stopped := oc_stopped g \<or> as_bool a\<rparr>"
| "jot SetCancelledFlag a g = g\<lparr>oc_stopped := True\<rparr>"
| "jot _ _ g = g"

definition outcome_start :: outcome where
  "outcome_start = \<lparr>oc_sets = [], oc_errs = 0, oc_dlq = [], oc_reported = [], oc_broken = False, oc_stopped = False\<rparr>"

definition fresh :: "outcome \<Rightarrow> bool" where
  "fresh g \<longleftrightarrow> oc_sets g = [] \<and> oc_errs g = 0 \<and> oc_dlq g = [] \<and> oc_reported g = []"

lemma fresh_updates [simp]:
  "fresh (g\<lparr>oc_stopped := b\<rparr>) = fresh g" "fresh (g\<lparr>oc_broken := b\<rparr>) = fresh g" "fresh outcome_start"
  by (simp_all add: fresh_def outcome_start_def)

definition settled :: "nat \<Rightarrow> bool \<Rightarrow> string \<Rightarrow> outcome \<Rightarrow> bool" where
  "settled i cb url g \<longleftrightarrow> (\<exists>x. oc_sets g = [(i, x)] \<and> oc_reported g = (if cb then [x] else []) \<and>
     (if fr_success x then oc_errs g = 0 \<and> oc_dlq g = []
      else oc_errs g = 1 \<and> (\<exists>e. oc_dlq g = [e] \<and> dq_url e = url \<and> fr_failure_category x = Some (dq_category e))))"

text \<open>Content: no challenge signature or status, no block status, no JavaScript shell.\<close>

definition is_content :: "fetch_result \<Rightarrow> bool" where
  "is_content r \<longleftrightarrow> \<not> is_challenge_page (html_of r) (status_of r) False \<and> \<not> blocked_status r
     \<and> \<not> looks_javascript_gated (html_of r)"

text \<open>A result read back from \<open>scrape_results\<close>.\<close>

definition from_row :: "fetch_result \<Rightarrow> bool" where
  "from_row r \<longleftrightarrow> (\<exists>u row e. r = (result_of_row u row)\<lparr>fr_escalations := e\<rparr>)"

lemma from_rowI [simp]: "from_row (result_of_row u row)"
  unfolding from_row_def by (intro exI [of _ u] exI [of _ row] exI [of _ "fr_escalations (result_of_row u row)"]) simp

lemma from_row_escalations [simp]: "from_row r \<Longrightarrow> from_row (r\<lparr>fr_escalations := e\<rparr>)"
proof -
  assume "from_row r"
  then obtain u row e0 where "r = (result_of_row u row)\<lparr>fr_escalations := e0\<rparr>" unfolding from_row_def by blast
  then have "r\<lparr>fr_escalations := e\<rparr> = (result_of_row u row)\<lparr>fr_escalations := e\<rparr>" by simp
  then show ?thesis unfolding from_row_def by blast
qed

lemma result_of_row_success [simp]: "fr_success (result_of_row u row)"
  by (simp add: result_of_row_def)

fun stores_content :: "wop \<Rightarrow> outcome \<Rightarrow> bool" where
  "stores_content (SetResult i r) g = (fr_success r \<longrightarrow> from_row r \<or> is_content r)"
| "stores_content _ g = True"

abbreviation walk :: "(exn + 'a \<Rightarrow> url_state \<Rightarrow> outcome \<Rightarrow> bool) \<Rightarrow> 'a um \<Rightarrow> url_state \<Rightarrow> outcome \<Rightarrow> bool" where
  "walk \<equiv> up stores_content jot"

subsection \<open>Results the engine builds\<close>

lemma note_gateway_skipped_keeps [simp]:
  "fr_success (note_gateway_skipped b r) = fr_success r"
  "fr_failure_category (note_gateway_skipped b r) = fr_failure_category r"
  by (simp_all add: note_gateway_skipped_def Let_def)

lemma describe_block_keeps:
  "describe_block t l = Inr r \<Longrightarrow> fr_success r = fr_success t \<and> fr_failure_category r = fr_failure_category t"
  by (auto simp: describe_block_def Let_def split: sum.splits)

lemma terminal_rate_limit_keeps:
  "terminal_rate_limit url la failed level = Inr (Some t) \<Longrightarrow> \<not> fr_success t \<and> fr_failure_category t = Some RATE_LIMITED"
  by (auto simp: terminal_rate_limit_def rate_limit_base_def split: option.splits if_splits sum.splits
      dest!: describe_block_keeps)

lemma exhausted_base_keeps: "\<not> fr_success (exhausted_base ctx lr)" "\<exists>c. fr_failure_category (exhausted_base ctx lr) = Some c"
  by (auto simp: exhausted_base_def Let_def split: option.splits)

lemma exhausted_result_keeps:
  "exhausted_result ctx la lr = Inr r \<Longrightarrow> \<not> fr_success r \<and> (\<exists>c. fr_failure_category r = Some c)"
  using exhausted_base_keeps [of ctx lr]
  by (auto simp: exhausted_result_def Let_def split: option.splits if_splits sum.splits
      dest!: describe_block_keeps terminal_rate_limit_keeps)

lemma not_found_result_keeps:
  "\<not> fr_success (not_found_result l r)" "fr_failure_category (not_found_result l r) = Some NOT_FOUND"
  by (simp_all add: not_found_result_def Let_def)

lemma refused_result_keeps:
  "refused_result url site ls fs = Inr r \<Longrightarrow> \<not> fr_success r \<and> fr_failure_category r = Some DETECTION_BLOCK"
  by (auto simp: refused_result_def split: sum.splits)

lemma html_of_updates [simp]:
  "html_of (r\<lparr>fr_escalations := x\<rparr>) = html_of r" "status_of (r\<lparr>fr_escalations := x\<rparr>) = status_of r"
  "html_of (r\<lparr>fr_is_challenge_page := b\<rparr>) = html_of r" "status_of (r\<lparr>fr_is_challenge_page := b\<rparr>) = status_of r"
  "html_of (r\<lparr>fr_extracted := y, fr_markdown := z\<rparr>) = html_of r"
  "status_of (r\<lparr>fr_extracted := y, fr_markdown := z\<rparr>) = status_of r"
  by (simp_all add: html_of_def status_of_def)

lemma blocked_status_updates [simp]:
  "blocked_status (r\<lparr>fr_is_challenge_page := b\<rparr>) = blocked_status r"
  "blocked_status (r\<lparr>fr_escalations := x\<rparr>) = blocked_status r"
  "blocked_status (r\<lparr>fr_extracted := y, fr_markdown := z\<rparr>) = blocked_status r"
  by (simp_all add: blocked_status_def)

lemma is_content_updates [simp]:
  "is_content (r\<lparr>fr_escalations := x\<rparr>) = is_content r"
  "is_content (r\<lparr>fr_extracted := y, fr_markdown := z\<rparr>) = is_content r"
  by (simp_all add: is_content_def)

text \<open>The centre of the success branch: what is not still blocked is content.\<close>

lemma not_blocked_is_content:
  assumes "\<not> still_looks_blocked (r\<lparr>fr_is_challenge_page := is_challenge_page (html_of r) (status_of r) False\<rparr>)"
  shows "is_content (r\<lparr>fr_is_challenge_page := is_challenge_page (html_of r) (status_of r) False\<rparr>)"
  using assms by (simp add: still_looks_blocked_def is_content_def)

subsection \<open>The walk\<close>

lemma store_result_walk:
  assumes "oc_broken g \<or> oc_sets g = [] \<and> oc_reported g = []"
    and "fr_success r \<longrightarrow> from_row r \<or> is_content r"
    and "\<And>x g'. fr_success x = fr_success r \<Longrightarrow> fr_failure_category x = fr_failure_category r \<Longrightarrow>
      oc_broken g' \<or> \<not> oc_broken g \<and> oc_sets g' = [(i, x)] \<and> oc_reported g' = (if cb then [x] else []) \<and>
        oc_errs g' = oc_errs g \<and> oc_dlq g' = oc_dlq g \<Longrightarrow> Q (Inr ()) s g'"
    and "\<And>e g'. oc_broken g' \<Longrightarrow> Q (Inl e) s g'"
  shows "walk Q (store_result i cb r) s g"
proof -
  define x where "x = r\<lparr>fr_escalations := if us_escalations s = [] then None else Some (us_escalations s)\<rparr>"
  have x: "fr_success x = fr_success r" "fr_failure_category x = fr_failure_category r"
    "fr_success x \<longrightarrow> from_row x \<or> is_content x"
    using assms(2) by (auto simp: x_def)
  define g1 where "g1 = g\<lparr>oc_sets := oc_sets g @ [(i, x)]\<rparr>"
  have done1: "Q (Inr ()) s g1" if "\<not> cb"
    using assms(1) that by (intro assms(3) [OF x(1,2)]) (auto simp: g1_def)
  have done2: "Q (Inr ()) s (g1\<lparr>oc_reported := oc_reported g1 @ [x]\<rparr>)" if "cb"
    using assms(1) that by (intro assms(3) [OF x(1,2)]) (auto simp: g1_def)
  have "walk Q (uthen (uact (SetResult i x)) (uwhen cb (uact (OnResult x)))) s g"
    unfolding up_then up_act up_when using x(3) done1 done2 assms(4)
    by (cases cb) (auto simp: g1_def [symmetric] split: sum.splits)
  then show ?thesis
    by (simp add: store_result_def finish_def up_bind up_get up_ret x_def)
qed

lemma conclude_failed_walk:
  assumes "oc_broken g \<or> fresh g" "\<not> fr_success r" "fr_failure_category r = Some category"
    and "\<And>g'. oc_broken g' \<or> settled (ux_index ctx) (ux_on_result ctx) (ux_url ctx) g' \<Longrightarrow> Q (Inr ()) s g'"
    and "\<And>e g'. oc_broken g' \<Longrightarrow> Q (Inl e) s g'"
  shows "walk Q (conclude_failed ctx category message level ra err r) s g"
proof -
  have st: "walk Q (record_outcome ctx r) s g1"
    if "oc_broken g1 \<or> oc_sets g1 = [] \<and> oc_reported g1 = [] \<and> oc_errs g1 = 1 \<and>
        (\<exists>e. oc_dlq g1 = [e] \<and> dq_url e = ux_url ctx \<and> dq_category e = category)" for g1
    unfolding record_outcome_def
  proof (rule store_result_walk)
    fix x and g' :: outcome
    assume "fr_success x = fr_success r" "fr_failure_category x = fr_failure_category r"
      "oc_broken g' \<or> \<not> oc_broken g1 \<and> oc_sets g' = [(ux_index ctx, x)] \<and>
        oc_reported g' = (if ux_on_result ctx then [x] else []) \<and> oc_errs g' = oc_errs g1 \<and> oc_dlq g' = oc_dlq g1"
    moreover from this have "settled (ux_index ctx) (ux_on_result ctx) (ux_url ctx) g'" if "\<not> oc_broken g'"
      unfolding settled_def using that \<open>oc_broken g1 \<or> _\<close> assms(2,3) by (intro exI [of _ x]) (simp, metis)
    ultimately show "Q (Inr ()) s g'" by (intro assms(4)) blast
  qed (use that assms(2,5) in auto)
  show ?thesis
    unfolding conclude_failed_def up_then up_act
    using assms(1,5)
    by (auto simp: fresh_def split: sum.splits intro!: st)
qed

text \<open>How a step of the ladder may leave things.\<close>

definition step_post :: "url_ctx \<Rightarrow> exn + lstep \<Rightarrow> outcome \<Rightarrow> bool" where
  "step_post ctx r g \<longleftrightarrow> oc_broken g \<or>
     (if r = Inr Break then settled (ux_index ctx) (ux_on_result ctx) (ux_url ctx) g else fresh g)"

definition end_post :: "url_ctx \<Rightarrow> exn + unit \<Rightarrow> outcome \<Rightarrow> bool" where
  "end_post ctx r g \<longleftrightarrow> oc_broken g \<or>
     (case r of Inr _ \<Rightarrow> settled (ux_index ctx) (ux_on_result ctx) (ux_url ctx) g | Inl _ \<Rightarrow> fresh g)"

lemma conclude_failed_break:
  assumes "oc_broken g \<or> fresh g" "\<not> fr_success r" "fr_failure_category r = Some category"
    and "\<And>r g'. step_post ctx r g' \<Longrightarrow> Q r s g'"
  shows "walk Q (uthen (conclude_failed ctx category message level ra err r) (uret Break)) s g"
  unfolding up_then
  by (rule conclude_failed_walk [OF assms(1-3)]) (auto simp: up_ret step_post_def intro!: assms(4))

lemma conclude_failed_end:
  assumes "oc_broken g \<or> fresh g" "\<not> fr_success r" "fr_failure_category r = Some category"
    and "\<And>r g'. end_post ctx r g' \<Longrightarrow> Q r s g'"
  shows "walk Q (conclude_failed ctx category message level ra err r) s g"
  by (rule conclude_failed_walk [OF assms(1-3)]) (auto simp: end_post_def intro!: assms(4))

text \<open>Attempts leave the outcome alone.\<close>

lemma wp_ghost:
  "wp (\<lambda>oper _. P oper) upd (\<lambda>a _. R a) p g \<longleftrightarrow> wp (\<lambda>oper _. P oper) upd' (\<lambda>a _. R a) p g'"
proof (induction p arbitrary: g g')
  case (WDo oper k)
  have "wp (\<lambda>oper _. P oper) upd (\<lambda>a _. R a) (k r) (upd oper r g) \<longleftrightarrow>
      wp (\<lambda>oper _. P oper) upd' (\<lambda>a _. R a) (k r) (upd' oper r g')" for r
    by (rule WDo.IH) simp
  then show ?case by simp
qed simp

lemma fetch_allowed_jot: "fetch_allowed st f l u oper \<Longrightarrow> jot oper a g = g"
  by (cases oper) auto

lemma fetch_url_issues:
  "issues (fetch_allowed (effective_strategy self) force level url) (\<lambda>_ _. True)
     (fetch_url self t url level ov force only skip adm) s"
proof -
  have "up (\<lambda>oper g. fetch_allowed (effective_strategy self) force level url oper) tally (\<lambda>_ _ _. True)
      (fetch_url self t url level ov force only skip adm) s \<lparr>ft_renders = 0, ft_seats = 0, ft_slots = 0, ft_uncovered = 0\<rparr>"
    by (rule fetch_url_spec) simp
  then show ?thesis
    unfolding issues_def up_def case_prod_beta' by (rule wp_ghost [THEN iffD1])
qed

lemma fetch_url_walk:
  assumes "\<And>r s'. Q r s' g"
  shows "walk Q (fetch_url self t url level ov force only skip adm) s g"
  by (rule up_frame [OF fetch_url_issues]) (auto simp: fetch_allowed_jot assms elim: fetch_allowed.elims)

text \<open>The branches, from the inside out. Each takes a state in which nothing is settled yet.\<close>

lemma conclude_circuit_open_walk:
  assumes "oc_broken g \<or> fresh g" and Q: "\<And>r s g'. step_post ctx r g' \<Longrightarrow> Q r s g'"
  shows "walk Q (conclude_circuit_open self ctx level) s g"
  unfolding conclude_circuit_open_def Let_def up_then [of _ _ _ "uwhen _ _"] up_when up_mod up_bind up_get
  using assms(1) by (auto simp: up_mod up_bind up_get intro!: conclude_failed_break Q)

lemma conclude_no_slot_walk:
  assumes "oc_broken g \<or> fresh g" and Q: "\<And>r s g'. step_post ctx r g' \<Longrightarrow> Q r s g'"
  shows "walk Q (conclude_no_slot show_secs self ctx level) s g"
  unfolding conclude_no_slot_def Let_def
  using assms(1) by (auto intro!: conclude_failed_break Q)

lemma conclude_not_found_walk:
  assumes "oc_broken g \<or> fresh g" and Q: "\<And>r s g'. step_post ctx r g' \<Longrightarrow> Q r s g'"
  shows "walk Q (uthen (conclude_not_found ctx level result) (uret Break)) s g"
proof -
  have "walk (\<lambda>r s' g'. case r of Inl e \<Rightarrow> Q (Inl e) s' g' | Inr a \<Rightarrow> walk Q (uret Break) s' g')
      (conclude_failed ctx NOT_FOUND m level None m (not_found_result level result)) s1 g" for m s1
    by (rule conclude_failed_break [OF assms(1) not_found_result_keeps, unfolded up_then]) (rule Q)
  then show ?thesis
    by (simp add: conclude_not_found_def Let_def up_then reject_def up_mod)
qed

lemma gateway_fallback_usable_walk:
  assumes "\<And>b. Q (Inr b) s g"
  shows "walk Q (gateway_fallback_usable self) s g"
  using assms by (auto simp: gateway_fallback_usable_def up_rules split: sum.splits)

lemma after_retry_walk:
  assumes "\<And>r s'. Q (Inr r) s' g"
  shows "walk Q (after_retry ctx level result gr) s g"
  using assms by (auto simp: after_retry_def reject_def up_rules split: sum.splits option.splits)

lemma block_retry_walk:
  assumes "\<And>r s'. Q r s' g"
  shows "walk Q (block_retry self ctx level adm result) s g"
proof -
  have "walk (\<lambda>r s' g'. case r of Inl e \<Rightarrow> Q (Inl e) s' g' | Inr a \<Rightarrow> walk Q (after_retry ctx level r1 a) s' g')
      (fetch_url self t u level ov True True sk adm) s1 g" for t u ov sk r1 s1
    by (rule fetch_url_walk) (auto intro!: after_retry_walk assms split: sum.splits)
  then show ?thesis
    unfolding block_retry_def gateway_block_retry_usable_def
    by (auto simp: up_bind up_ret up_then up_mod assms intro!: gateway_fallback_usable_walk)
qed

lemma extract_and_convert_walk:
  assumes "\<And>r'. fr_success r' = fr_success r \<Longrightarrow> is_content r' = is_content r \<Longrightarrow> Q (Inr r') s g"
    and "\<And>e. Q (Inl e) s g"
  shows "walk Q (extract_and_convert self ctx r) s g"
proof (cases "truthy_str (fr_html r)")
  case False
  then show ?thesis by (simp add: extract_and_convert_def up_ret assms(1))
next
  case True
  then show ?thesis
    by (auto simp: extract_and_convert_def Let_def up_rules assms(2) split: sum.splits option.splits intro!: assms(1))
qed

lemma record_success_walk:
  assumes "oc_broken g \<or> fresh g" "fr_success r" "is_content r"
    and Q: "\<And>r s g'. step_post ctx r g' \<Longrightarrow> Q r s g'"
  shows "walk Q (uthen (record_outcome ctx r) (uret Break)) s g"
  unfolding up_then record_outcome_def
  using assms(1-3)
  by (intro store_result_walk) (auto simp: up_ret step_post_def settled_def fresh_def intro!: Q)

lemma accept_content_walk:
  assumes "oc_broken g \<or> fresh g" "fr_success r" "is_content r"
    and Q: "\<And>r s g'. step_post ctx r g' \<Longrightarrow> Q r s g'"
  shows "walk Q (accept_content self ctx level r) s g"
proof -
  have "step_post ctx (Inl e) g" for e using assms(1) by (simp add: step_post_def)
  then have "walk Q (ubind (extract_and_convert self ctx r) (\<lambda>r. uthen (record_outcome ctx r) (uret Break))) s g"
    unfolding up_bind using assms(1-3)
    by (intro extract_and_convert_walk) (auto intro!: Q record_success_walk)
  then show ?thesis
    unfolding accept_content_def up_then up_act up_when
    by (auto simp: up_act up_ret split: sum.splits)
qed

lemma success_branch_walk:
  assumes "oc_broken g \<or> fresh g" "fr_success r"
    and Q: "\<And>r s g'. step_post ctx r g' \<Longrightarrow> Q r s g'"
  shows "walk Q (success_branch self ctx level r) s g"
proof -
  let ?r = "r\<lparr>fr_is_challenge_page := is_challenge_page (html_of r) (status_of r) False\<rparr>"
  have st: "step_post ctx (Inl e) g'" "step_post ctx (Inr Continue) g'" if "oc_broken g' \<or> fresh g'" for e g'
    using that by (simp_all add: step_post_def)
  have "walk Q (accept_content self ctx level ?r) s' g" if "\<not> still_looks_blocked ?r" for s'
    using not_blocked_is_content [OF that] assms by (intro accept_content_walk) auto
  then show ?thesis
    unfolding success_branch_def Let_def reject_def using assms(1)
    by (auto simp: up_rules fresh_def split: sum.splits intro!: Q st)
qed

lemma conclude_failure_walk:
  assumes "oc_broken g \<or> fresh g" "\<not> fr_success r" "fr_failure_category r = Some cat"
    and Q: "\<And>r s g'. step_post ctx r g' \<Longrightarrow> Q r s g'"
  shows "walk Q (conclude_failure ctx level r cat) s g"
  unfolding conclude_failure_def up_bind up_get up_lift using assms(1-3)
  by (auto simp: Let_def step_post_def dest: terminal_rate_limit_keeps split: sum.splits option.splits
      intro!: conclude_failed_break Q)

lemma failure_branch_walk:
  assumes "oc_broken g \<or> fresh g" "\<not> fr_success r"
    and Q: "\<And>r s g'. step_post ctx r g' \<Longrightarrow> Q r s g'"
  shows "walk Q (failure_branch self ctx level r) s g"
proof -
  have st: "step_post ctx (Inl e) g'" "step_post ctx (Inr Continue) g'" if "oc_broken g' \<or> fresh g'" for e g'
    using that by (simp_all add: step_post_def)
  show ?thesis
    unfolding failure_branch_def Let_def up_then up_when up_act reject_def up_mod
    using assms(1,2)
    by (auto split: sum.splits option.split simp: fresh_def up_ret intro!: Q st conclude_failure_walk)
qed

lemma note_skipped_walk:
  assumes "\<And>s'. walk Q k s' g"
  shows "walk Q (uthen (note_skipped r) k) s g"
  using assms by (simp add: note_skipped_def up_rules)

lemma after_fetch_walk:
  assumes "oc_broken g \<or> fresh g" and Q: "\<And>r s g'. step_post ctx r g' \<Longrightarrow> Q r s g'"
  shows "walk Q (after_fetch self ctx level adm fetched) s g"
proof (cases fetched)
  case None
  then show ?thesis using assms(1) by (auto simp: after_fetch_def up_ret step_post_def intro!: Q)
next
  case (Some result)
  have "walk Q (judge self ctx level r) s' g" for r s'
    using assms by (auto simp: judge_def intro!: success_branch_walk failure_branch_walk)
  then have "walk Q (ubind (block_retry self ctx level adm result) (\<lambda>r. uthen (note_skipped r) (judge self ctx level r))) s' g" for s'
    unfolding up_bind using assms(1)
    by (intro block_retry_walk) (auto simp: step_post_def split: sum.splits intro!: Q note_skipped_walk)
  then show ?thesis
    using assms unfolding after_fetch_def Some
    by (auto simp: up_then [of _ _ _ "umod _"] up_mod intro!: note_skipped_walk conclude_not_found_walk)
qed

lemma attempt_level_walk:
  assumes "oc_broken g \<or> fresh g" and Q: "\<And>r s g'. step_post ctx r g' \<Longrightarrow> Q r s g'"
  shows "walk Q (attempt_level show_secs self ctx level tripped) s g"
proof -
  have st: "step_post ctx (Inl e) g" for e using assms(1) by (simp add: step_post_def)
  have go: "walk Q (ubind (fetch_url self t u level ov force only sk adm) (after_fetch self ctx level adm)) s' g"
    for t u ov force only sk adm s'
    unfolding up_bind using assms by (intro fetch_url_walk) (auto split: sum.splits intro!: after_fetch_walk Q st)
  have held: "walk Q (ubind (ufinally (fetch_url self t u level ov force only sk adm) (uact (ReleaseSlot d t' slot)))
      (after_fetch self ctx level adm)) s' g" for t u ov force only sk adm d t' slot s'
    unfolding up_bind up_finally using assms
    by (intro fetch_url_walk) (auto simp: up_act split: sum.splits intro!: after_fetch_walk Q st)
  show ?thesis
    unfolding attempt_level_def Let_def using assms
    by (auto simp: go up_then [of _ _ _ "uact _"] up_act up_bind [of _ _ _ "udo _"] up_do
        split: sum.splits option.splits intro!: held conclude_no_slot_walk Q st)
qed

lemma level_step_walk:
  assumes "oc_broken g \<or> fresh g" and Q: "\<And>r s g'. step_post ctx r g' \<Longrightarrow> Q r s g'"
  shows "walk Q (level_step show_secs self ctx level) s g"
proof -
  have st: "step_post ctx (Inl e) g" "step_post ctx (Inr Continue) g" for e using assms(1) by (simp_all add: step_post_def)
  have ends: "walk Q (conclude_circuit_open self ctx lv) s' g"
    "walk Q (attempt_level show_secs self ctx lv tripped) s' g" for lv tripped s'
    using assms by (auto intro!: conclude_circuit_open_walk attempt_level_walk)
  show ?thesis
    unfolding level_step_def Let_def up_bind up_do
    by (auto simp: up_ret ends split: sum.splits intro!: gateway_fallback_usable_walk Q st)
qed

lemma conclude_exhausted_walk:
  assumes "oc_broken g \<or> fresh g" and Q: "\<And>r s g'. end_post ctx r g' \<Longrightarrow> Q r s g'"
  shows "walk Q (conclude_exhausted self ctx) s g"
proof -
  have st: "end_post ctx (Inl e) g" for e using assms(1) by (simp add: end_post_def)
  have "walk Q (uthen (uwhen b (remember_site_refusal self t si r sk)) (conclude_failed ctx c m top ra m r)) s g"
    if "\<not> fr_success r" "fr_failure_category r = Some c" for b t si r sk c m top ra
    using assms that
    by (auto simp: remember_site_refusal_def up_rules split: sum.splits intro!: conclude_failed_end)
  then show ?thesis
    unfolding conclude_exhausted_def up_bind up_get up_lift Let_def
    by (auto dest: exhausted_result_keeps split: sum.splits option.splits intro!: Q st)
qed

lemma level_loop_walk:
  assumes "oc_broken g \<or> fresh g" and Q: "\<And>r s g'. end_post ctx r g' \<Longrightarrow> Q r s g'"
  shows "walk Q (level_loop show_secs self ctx levels) s g"
  using assms(1)
proof (induction levels arbitrary: s g)
  case Nil
  then show ?case by (simp add: conclude_exhausted_walk Q)
next
  case (Cons level levels)
  show ?case
    unfolding level_loop.simps up_bind
    by (rule level_step_walk [OF Cons.prems])
      (auto simp: step_post_def end_post_def up_ret split: sum.splits lstep.splits if_splits intro!: Cons.IH Q)
qed

text \<open>
  The handlers run in whatever state the body left. An exception of the bookkeeping itself is
  already marked as such; every other one meets a URL that has no outcome yet.
\<close>

definition url_post :: "url_ctx \<Rightarrow> exn + unit \<Rightarrow> outcome \<Rightarrow> bool" where
  "url_post ctx r g \<longleftrightarrow> oc_broken g \<or>
     \<not> isl r \<and> (settled (ux_index ctx) (ux_on_result ctx) (ux_url ctx) g \<or> fresh g \<and> oc_stopped g)"

lemma conclude_crash_walk:
  assumes "oc_broken g \<or> fresh g" and Q: "\<And>r s g'. url_post ctx r g' \<Longrightarrow> Q r s g'"
  shows "walk Q (conclude_crash ctx category message) s g"
  unfolding conclude_crash_def Let_def
  by (rule conclude_failed_walk [OF assms(1)]) (auto simp: url_post_def intro!: Q)

lemma handle_exception_walk:
  assumes "oc_broken g \<or> fresh g" and Q: "\<And>r s g'. url_post ctx r g' \<Longrightarrow> Q r s g'"
  shows "walk Q (handle_exception self ctx e) s g"
proof -
  have other: "walk Q (uthen (uwhen b (uact (RecordFailure d))) (conclude_crash ctx c m)) s g" for b d c m
    using assms by (auto simp: up_rules url_post_def fresh_def split: sum.splits intro!: conclude_crash_walk Q)
  show ?thesis
    unfolding handle_exception_def Let_def using assms(1)
    by (auto split: exn.split sum.splits simp: other up_act url_post_def fresh_def intro!: conclude_crash_walk Q)
qed

lemma url_body_walk:
  assumes "oc_broken g \<or> fresh g" and Q: "\<And>r s g'. end_post ctx r g' \<Longrightarrow> Q r s g'"
  shows "walk Q (url_body show_secs self ctx refusal) s g"
proof (cases refusal)
  case None
  then show ?thesis using assms by (auto simp: url_body_def intro!: level_loop_walk)
next
  case (Some fs)
  then show ?thesis
    using assms(1)
    by (auto simp: url_body_def conclude_site_refused_def reject_def up_bind up_lift up_then [of _ _ _ "umod _"] up_mod end_post_def
        dest: refused_result_keeps split: sum.splits intro!: conclude_failed_end Q)
qed

definition task_post :: "job \<Rightarrow> nat \<Rightarrow> string \<Rightarrow> exn + unit \<Rightarrow> outcome \<Rightarrow> bool" where
  "task_post jb index url r g \<longleftrightarrow> oc_broken g \<or>
     \<not> isl r \<and> (settled index (jb_on_result jb) url g \<or> fresh g \<and> (oc_stopped g \<or> url \<in> set (jb_already_done jb)))"

lemma url_pipeline_walk:
  assumes "fresh g" and Q: "\<And>r s g'. task_post jb index url r g' \<Longrightarrow> Q r s g'"
  shows "walk Q (url_pipeline show_secs self jb index url) s g"
proof -
  have body: "walk Q (ucatch (url_body show_secs self ctx refusal) (handle_exception self ctx)) s' g"
    if "ux_index ctx = index" "ux_on_result ctx = jb_on_result jb" "ux_url ctx = url" for ctx refusal s'
    unfolding up_catch using assms(1) that
    by (intro url_body_walk) (auto simp: end_post_def url_post_def task_post_def split: sum.splits
        intro!: handle_exception_walk Q)
  show ?thesis
    unfolding url_pipeline_def up_bind
    by (rule prepare_url_up) (auto simp: prepared_for_def elim: prepares.elims intro!: body)
qed

lemma cached_or_fetched_walk:
  assumes "fresh g" and Q: "\<And>r s g'. task_post jb index url r g' \<Longrightarrow> Q r s g'"
  shows "walk Q (cached_or_fetched show_secs self jb index url) s g"
proof -
  have "walk Q (store_result index (jb_on_result jb) (result_of_row url row)) s' g" for row s'
    using assms(1) by (intro store_result_walk)
      (auto simp: task_post_def settled_def fresh_def intro!: Q)
  then show ?thesis
    using assms
    by (auto simp: cached_or_fetched_def check_cache_def up_bind up_ret up_do task_post_def split: sum.splits option.splits
        intro!: url_pipeline_walk Q)
qed

lemma process_one_url_walk:
  assumes "fresh g" and Q: "\<And>r s g'. task_post jb index url r g' \<Longrightarrow> Q r s g'"
  shows "walk Q (process_one_url show_secs self jb index url) s g"
  unfolding process_one_url_def is_cancelled_def
  using assms(1)
  by (auto simp: up_bind up_do up_ret up_act task_post_def split: sum.splits intro!: cached_or_fetched_walk Q)

subsection \<open>A world to run in\<close>

text \<open>
  A site whose plain HTTP answer is a 403 and whose page loads in a browser through a pool proxy;
  nothing else goes wrong.
\<close>

definition demo_worker :: worker where
  "demo_worker = \<lparr>wk_limits = limits_defaults, wk_dataimpulse = dataimpulse_defaults, wk_escalation = escalation_defaults,
     wk_admission_cfg = admission_defaults, wk_l2_engine = ''camoufox'',
     wk_gateway_env = \<lparr>ge_host = None, ge_port = None, ge_username = None, ge_password = None\<rparr>,
     wk_has_pg = True, wk_has_admission = False, wk_has_extraction_engine = False, wk_has_firecrawl = False,
     wk_hostname = (\<lambda>_. Some ''shop.example''), wk_registrable = (\<lambda>d. d), wk_exn_text = (\<lambda>_. ''error'')\<rparr>"

definition demo_job :: job where
  "demo_job = \<lparr>jb_tenant = ''acme'', jb_job_id = ''j1'', jb_urls = [''https://shop.example/1''], jb_overrides = None,
     jb_levels = LEVELS, jb_concurrency = 2, jb_delay = 5, jb_bypass_cache = False, jb_on_result = True,
     jb_already_done = [], jb_deadline_cap = None\<rparr>"

definition demo_page :: "int \<Rightarrow> fetch_result" where
  "demo_page level = (if level = 1
     then (failed_result ''https://shop.example/1'' 1 DETECTION_BLOCK ''HTTP 403'')\<lparr>fr_http_status := Some 403\<rparr>
     else (new_result ''https://shop.example/1'' True level 900)\<lparr>fr_http_status := Some 200, fr_html := Some ''<p>a product</p>''\<rparr>)"

fun demo_world :: "unit world" where
  "demo_world (AllowRequest d) w = (Inr (ABool True), w)"
| "demo_world (AcquireSlot d t n) w = (Inr (ATextOpt (Some ''slot-1'')), w)"
| "demo_world (Fetch q) w = (Inr (AResult (demo_page (fq_level q))), w)"
| "demo_world NewSessionId w = (Inr (AText ''session''), w)"
| "demo_world oper w = (Inr AUnit, w)"

lemma demo_world: "worker_world demo_world"
proof
  fix oper w show "answers oper (fst (demo_world oper w))"
    by (cases oper) (auto simp: answers_def)
qed

definition demo_run :: "((exn + unit) \<times> url_state) \<times> trace \<times> unit" where
  "demo_run = wrun demo_world (process_one_url (\<lambda>_. ''300'') demo_worker demo_job 0 ''https://shop.example/1'' url_start) ()"

lemma demo_unbroken: "\<not> oc_broken (summary jot (fst (snd demo_run)) outcome_start)"
  by code_simp

lemma demo_stored: "oc_sets (summary jot (fst (snd demo_run)) outcome_start) =
    [(0, (demo_page 2)\<lparr>fr_proxy_source := Some Pool, fr_escalations := Some [\<lparr>es_level = 1, es_reason = ''failure:detection_block'',
       es_http_status = Some 403, es_engine = None, es_proxy_source = None\<rparr>]\<rparr>)]"
  by code_simp

lemma demo_run_eq:
  "wrun demo_world (process_one_url (\<lambda>_. ''300'') demo_worker demo_job 0 ''https://shop.example/1'' url_start) () =
     ((fst (fst demo_run), snd (fst demo_run)), fst (snd demo_run), ())"
  unfolding demo_run_def [symmetric] by (simp add: prod_eq_iff)

subsection \<open>The outcome of a URL\<close>

text \<open>
  \<^bold>\<open>C1\<close>: unless the bookkeeping itself fails (the queue of dead letters, the result callback, the
  circuit's failure counter or the two database reads in front), processing a URL never raises,
  whatever the fetchers, proxies, Redis or the host's admission do, and it leaves exactly one
  outcome: one result in the URL's own slot, reported once to the callback if there is one, and
  for a failure one dead letter of the same category for this URL and one error of the job.
  Nothing at all is left only when the job's cancellation was seen or the job already has the URL.
\<close>

theorem one_terminal_outcome:
  assumes "worker_world h"
    and "wrun h (process_one_url show_secs self jb index url url_start) w = ((r, s), tr, w')"
    and "\<not> oc_broken (summary jot tr outcome_start)"
  shows "r = Inr () \<and> (settled index (jb_on_result jb) url (summary jot tr outcome_start) \<or>
    fresh (summary jot tr outcome_start) \<and>
      (oc_stopped (summary jot tr outcome_start) \<or> url \<in> set (jb_already_done jb)))"
proof -
  have "walk (\<lambda>r _. task_post jb index url r) (process_one_url show_secs self jb index url) url_start outcome_start"
    by (rule process_one_url_walk) simp_all
  then have "task_post jb index url r (summary jot tr outcome_start)"
    unfolding up_def using worker_world.wp_sound [OF assms(1) _ assms(2)] by fastforce
  with assms(3) show ?thesis by (cases r) (auto simp: task_post_def)
qed

theorem one_terminal_outcome_witness:
  "settled 0 True ''https://shop.example/1'' (summary jot (fst (snd demo_run)) outcome_start)"
  using one_terminal_outcome [OF demo_world demo_run_eq demo_unbroken] demo_stored
  by (auto simp: fresh_def demo_job_def)

text \<open>
  \<^bold>\<open>C2\<close>: what is stored as a success is a row of the result cache or a page no check objects to: no
  challenge signature, no block status, no gateway error page and no JavaScript shell, at whatever
  level and through whatever route it came.
\<close>

theorem stored_success_is_content:
  assumes "worker_world h"
    and "wrun h (process_one_url show_secs self jb index url url_start) w = ((r, s), tr, w')"
    and "(SetResult i x, a) \<in> set tr" and "fr_success x"
  shows "from_row x \<or> is_content x"
proof -
  obtain tr1 tr2 where tr: "tr = tr1 @ (SetResult i x, a) # tr2" using split_list [OF assms(3)] by blast
  have "walk (\<lambda>_ _ _. True) (process_one_url show_secs self jb index url) url_start outcome_start"
    by (rule process_one_url_walk) simp_all
  then have "stores_content (SetResult i x) (summary jot tr1 outcome_start)"
    unfolding up_def using worker_world.wp_guard_sound [OF assms(1)] assms(2) tr by fastforce
  with assms(4) show ?thesis by simp
qed

lemma summary_sets: "(i, x) \<in> set (oc_sets (summary jot tr g)) \<Longrightarrow> (i, x) \<in> set (oc_sets g) \<or> (\<exists>a. (SetResult i x, a) \<in> set tr)"
proof (induction tr arbitrary: g)
  case (Cons e tr)
  obtain oper a where e: "e = (oper, a)" by fastforce
  have "(i, x) \<in> set (oc_sets (jot oper a g)) \<Longrightarrow> (i, x) \<in> set (oc_sets g) \<or> oper = SetResult i x"
    by (cases "(oper, a, g)" rule: jot.cases) auto
  with Cons e show ?case by auto
qed simp

theorem stored_success_is_content_witness:
  "\<exists>x. x \<in> snd ` set (oc_sets (summary jot (fst (snd demo_run)) outcome_start)) \<and> fr_success x \<and> (from_row x \<or> is_content x)"
proof -
  obtain x where x: "(0, x) \<in> set (oc_sets (summary jot (fst (snd demo_run)) outcome_start))" "fr_success x"
    unfolding demo_stored by (auto simp: demo_page_def)
  then obtain a where "(SetResult 0 x, a) \<in> set (fst (snd demo_run))"
    using summary_sets by (fastforce simp: outcome_start_def)
  from stored_success_is_content [OF demo_world demo_run_eq this x(2)] x show ?thesis by force
qed

end
