(* ===== verification/Worker_Resources.thy ===== *)
theory Worker_Resources
  imports Worker_Outcome
begin

text \<open>
  What one URL costs and whom it blames: the renders of a URL are bounded, every seat and slot it
  takes is given back, and its domain's circuit is never charged for a failure of the engine's own
  Redis or of the host's capacity.
\<close>

subsection \<open>Renders, seats and slots\<close>

fun plain :: "wop \<Rightarrow> bool" where
  "plain (Fetch q) = False"
| "plain (ClaimSeat q) = False"
| "plain ReleaseSeat = False"
| "plain (AcquireSlot d t n) = False"
| "plain (ReleaseSlot d t i) = False"
| "plain _ = True"

lemma plain_tally: "plain oper \<Longrightarrow> tally oper a g = g"
  by (cases oper) auto

abbreviation count :: "(exn + 'a \<Rightarrow> url_state \<Rightarrow> fetch_tally \<Rightarrow> bool) \<Rightarrow> 'a um \<Rightarrow> url_state \<Rightarrow> fetch_tally \<Rightarrow> bool" where
  "count \<equiv> up (\<lambda>_ _. True) tally"

text \<open>A part that only keeps books leaves the tally alone.\<close>

abbreviation bookkeeping :: "'a um \<Rightarrow> bool" where
  "bookkeeping \<equiv> only_ops plain"

named_theorems books
lemmas only_books [books] = only_rules

lemma bookkeeping_count:
  assumes "bookkeeping m" "\<And>r s'. Q r s' g"
  shows "count Q m s g"
  using assms by (intro only_frame [of plain]) (auto simp: plain_tally)

lemma books_finish [books]: "bookkeeping (finish r)" "bookkeeping (reject l r t)" "bookkeeping (note_skipped r)"
  unfolding finish_def reject_def note_skipped_def by (intro books)+

lemma books_record [books]: "bookkeeping (store_result i cb r)" "bookkeeping (record_outcome ctx r)"
  unfolding record_outcome_def store_result_def by (intro books; simp)+

lemma books_conclude [books]: "bookkeeping (conclude_failed ctx c m l ra err r)"
  unfolding conclude_failed_def by (intro books; simp)

lemma books_gateway [books]: "bookkeeping (gateway_fallback_usable self)" "bookkeeping (gateway_block_retry_usable self r)"
  unfolding gateway_block_retry_usable_def gateway_fallback_usable_def by (intro books; simp)+

lemma books_ends [books]:
  "bookkeeping (conclude_not_found ctx l r)" "bookkeeping (conclude_circuit_open self ctx l)"
  "bookkeeping (conclude_no_slot show_secs self ctx l)" "bookkeeping (conclude_site_refused ctx fs)"
  "bookkeeping (conclude_failure ctx l r cat)" "bookkeeping (conclude_crash ctx cat m)"
  unfolding conclude_not_found_def conclude_circuit_open_def conclude_no_slot_def conclude_site_refused_def
    conclude_failure_def conclude_crash_def Let_def
  by (intro books)+

lemma books_exhausted [books]: "bookkeeping (remember_site_refusal self t si r sk)" "bookkeeping (conclude_exhausted self ctx)"
  unfolding conclude_exhausted_def remember_site_refusal_def Let_def by (intro books; simp)+

lemma books_handler [books]: "bookkeeping (handle_exception self ctx e)"
  unfolding handle_exception_def Let_def by (cases e; simp; (intro books)?; simp?)

lemma books_after_retry [books]: "bookkeeping (after_retry ctx l r gr)"
  unfolding after_retry_def by (intro books; simp)

lemma books_extract [books]: "bookkeeping (extract_and_convert self ctx r)"
  unfolding extract_and_convert_def Let_def by (intro books; simp)

lemma books_judge [books]: "bookkeeping (judge self ctx l r)"
  unfolding judge_def success_branch_def failure_branch_def accept_content_def Let_def by (intro books; simp)

text \<open>
  The attempts. \<open>guarded\<close>: every render runs under a slot or a seat. It fails to hold only where
  the host's admission is off and the gateway retry of a blocked page is on: that retry runs
  after the slot was released.
\<close>

definition guarded :: "worker \<Rightarrow> url_ctx \<Rightarrow> fetch_tally \<Rightarrow> bool" where
  "guarded self ctx g \<longleftrightarrow> (if ux_admission ctx = None then \<not> gateway_fallback_eligible self else wk_has_admission self)
     \<and> 0 \<le> ft_seats g \<and> 0 \<le> ft_slots g"

definition cost :: "worker \<Rightarrow> int \<Rightarrow> nat" where
  "cost self level = (if level = 1 then 1 else max_renders self)"

definition retry_cost :: "worker \<Rightarrow> int \<Rightarrow> nat" where
  "retry_cost self level = (if level < 2 then 0 else max_renders self)"

lemma fetch_url_count:
  assumes "\<And>r s g'. ft_renders g' \<le> ft_renders g + cost self level \<Longrightarrow>
      keeps (covered g \<or> adm \<noteq> None \<and> wk_has_admission self \<and> level \<noteq> 1 \<and> 0 \<le> ft_seats g) g g' \<Longrightarrow> Q r s g'"
  shows "count Q (fetch_url self t url level ov force only skip adm) s g"
  using fetch_url_spec [of g level self adm Q force url t ov only skip s] assms
  unfolding up_def cost_def by (auto intro: wp_guard_mono)

lemma block_retry_count:
  assumes Q: "\<And>r s g'. ft_renders g' \<le> ft_renders g + retry_cost self level \<Longrightarrow>
      keeps (level < 2 \<or> \<not> gateway_fallback_eligible self \<or> adm \<noteq> None \<and> wk_has_admission self \<and> 0 \<le> ft_seats g) g g' \<Longrightarrow> Q r s g'"
  shows "count Q (block_retry self ctx level adm result) s g"
proof (cases "wants_gateway_retry self level result")
  case False
  then show ?thesis by (auto simp: block_retry_def up_ret intro!: Q)
next
  case True
  then have lv: "level \<noteq> 1" "\<not> level < 2" "gateway_fallback_eligible self" by (auto simp: wants_gateway_retry_def)
  have same: "Q r s' g" for r s' by (auto intro!: Q)
  have fetch: "count Q (ubind (fetch_url self t u level ov True True sk adm) (after_retry ctx level r1)) s1 g" for t u ov sk r1 s1
    unfolding up_bind using lv
    by (intro fetch_url_count)
      (auto split: sum.splits intro!: bookkeeping_count books Q simp: cost_def retry_cost_def keeps_def)
  show ?thesis
    using True
    by (simp add: block_retry_def up_bind [of _ _ _ "gateway_block_retry_usable _ _"], intro bookkeeping_count [OF books_gateway(2)])
      (auto simp: up_then up_mod up_ret same fetch split: sum.splits)
qed

lemma after_fetch_count:
  assumes Q: "\<And>r s g'. ft_renders g' \<le> ft_renders g + retry_cost self level \<Longrightarrow>
      keeps (level < 2 \<or> \<not> gateway_fallback_eligible self \<or> adm \<noteq> None \<and> wk_has_admission self \<and> 0 \<le> ft_seats g) g g' \<Longrightarrow> Q r s g'"
  shows "count Q (after_fetch self ctx level adm fetched) s g"
proof -
  have same: "Q r s' g" for r s' by (auto intro!: Q)
  have retry: "count Q (ubind (block_retry self ctx level adm result) (\<lambda>r. uthen (note_skipped r) (judge self ctx level r))) s' g" for result s'
    unfolding up_bind by (rule block_retry_count) (auto split: sum.splits intro!: bookkeeping_count books Q)
  have missing: "count Q (uthen (conclude_not_found ctx level result) (uret Break)) s' g" for result s'
    by (intro bookkeeping_count books same)
  have skipped: "count Q (uthen (note_skipped r) k) s' g" if "\<And>s'. count Q k s' g" for r and k :: "lstep um" and s'
    using that by (simp add: note_skipped_def up_rules)
  show ?thesis
    unfolding after_fetch_def
    by (auto simp: up_ret same retry missing skipped up_then [of _ _ _ "umod _"] up_mod split: option.splits)
qed

lemma attempt_level_count:
  assumes Q: "\<And>r s g'. ft_renders g' \<le> ft_renders g + cost self level + retry_cost self level \<Longrightarrow>
      keeps (guarded self ctx g) g g' \<Longrightarrow> Q r s g'"
  shows "count Q (attempt_level show_secs self ctx level tripped) s g"
proof -
  have same: "Q r s' g" for r s' by (auto intro!: Q)
  have direct: "count Q (ubind (fetch_url self t u level ov force only sk (ux_admission ctx)) (after_fetch self ctx level (ux_admission ctx))) s' g"
    if "ux_admission ctx \<noteq> None" "2 \<le> level" for t u ov force only sk s'
    unfolding up_bind using that
    by (intro fetch_url_count) (auto split: sum.splits intro!: after_fetch_count Q simp: keeps_def guarded_def covered_def)
  have held: "count Q (ubind (ufinally (fetch_url self t u level ov force only sk None) (uact (ReleaseSlot d t' slot)))
      (after_fetch self ctx level None)) s' (g\<lparr>ft_slots := ft_slots g + 1\<rparr>)"
    if "ux_admission ctx = None \<or> level < 2" for t u ov force only sk d t' slot s'
    unfolding up_bind up_finally up_act using that
    by (intro fetch_url_count)
      (auto split: sum.splits intro!: after_fetch_count Q simp: keeps_def guarded_def covered_def)
  show ?thesis
    unfolding attempt_level_def Let_def
    by (auto simp: direct held up_then [of _ _ _ "uact _"] up_act up_bind [of _ _ _ "udo _"] up_do same
        split: sum.splits option.splits intro!: bookkeeping_count books)
qed

lemma level_step_count:
  assumes Q: "\<And>r s g'. ft_renders g' \<le> ft_renders g + cost self level + retry_cost self level \<Longrightarrow>
      keeps (guarded self ctx g) g g' \<Longrightarrow> Q r s g'"
  shows "count Q (level_step show_secs self ctx level) s g"
proof -
  have same: "Q r s' g" for r s' by (auto intro!: Q)
  have opened: "count Q (conclude_circuit_open self ctx lv) s' g" for lv s'
    by (intro bookkeeping_count books same)
  have attempt: "count Q (attempt_level show_secs self ctx level tripped) s' g" for tripped s'
    by (intro attempt_level_count Q)
  have body: "count Q (ubind (if tripped then gateway_fallback_usable self else uret True) (\<lambda>usable.
         if tripped \<and> \<not> usable then conclude_circuit_open self ctx level
         else if tripped \<and> level = 1 then uret Continue
         else attempt_level show_secs self ctx level tripped)) s' g" for tripped s'
    unfolding up_bind
    by (intro bookkeeping_count books)
      (auto simp: opened attempt same up_ret split: sum.splits)
  show ?thesis
    unfolding level_step_def Let_def up_bind [of _ _ _ "udo _"] up_do
  proof (intro conjI allI impI TrueI)
    fix r
    show "case r of Inl e \<Rightarrow> Q (Inl e) s (tally (AllowRequest (ux_domain ctx)) r g) | Inr a \<Rightarrow> count Q
        (ubind (if \<not> as_bool a then gateway_fallback_usable self else uret True) (\<lambda>usable.
           if \<not> as_bool a \<and> \<not> usable then conclude_circuit_open self ctx level
           else if \<not> as_bool a \<and> level = 1 then uret Continue
           else attempt_level show_secs self ctx level (\<not> as_bool a))) s (tally (AllowRequest (ux_domain ctx)) r g)"
      using same body by (cases r) (simp_all only: sum.case tally.simps)
  qed
qed

definition ladder_cost :: "worker \<Rightarrow> int list \<Rightarrow> nat" where
  "ladder_cost self levels = (\<Sum>level\<leftarrow>levels. cost self level + retry_cost self level)"

lemma guarded_keeps: "keeps C g g' \<Longrightarrow> guarded self ctx g' = guarded self ctx g"
  by (simp add: guarded_def keeps_def)

lemma level_loop_count:
  assumes "\<And>r s g'. ft_renders g' \<le> ft_renders g + ladder_cost self levels \<Longrightarrow> keeps (guarded self ctx g) g g' \<Longrightarrow> Q r s g'"
  shows "count Q (level_loop show_secs self ctx levels) s g"
  using assms
proof (induction levels arbitrary: s g)
  case Nil
  then show ?case by (auto simp: intro!: bookkeeping_count books)
next
  case (Cons level levels)
  have fin: "Q r s' g'" if "ft_renders g' \<le> ft_renders g + cost self level + retry_cost self level" "keeps (guarded self ctx g) g g'" for r s' g'
    using that by (intro Cons.prems) (auto simp: ladder_cost_def)
  have go: "count Q (level_loop show_secs self ctx levels) s' g'"
    if 1: "ft_renders g' \<le> ft_renders g + cost self level + retry_cost self level" "keeps (guarded self ctx g) g g'" for s' g'
  proof (rule Cons.IH)
    fix r s g2
    assume "ft_renders g2 \<le> ft_renders g' + ladder_cost self levels" "keeps (guarded self ctx g') g' g2"
    with 1 show "Q r s g2"
      by (intro Cons.prems) (auto simp: ladder_cost_def guarded_keeps [OF 1(2)] intro: keeps_trans)
  qed
  show ?case
    unfolding level_loop.simps up_bind
    by (rule level_step_count) (auto simp: up_ret split: sum.splits lstep.splits intro!: go fin)
qed

lemma url_pipeline_count:
  assumes "0 \<le> ft_seats g" "0 \<le> ft_slots g"
    and Q: "\<And>r s g'. ft_renders g' \<le> ft_renders g + ladder_cost self (jb_levels jb) \<Longrightarrow>
      keeps (wk_has_admission self \<or> \<not> gateway_fallback_eligible self) g g' \<Longrightarrow> Q r s g'"
  shows "count Q (url_pipeline show_secs self jb index url) s g"
proof -
  have sub: "ladder_cost self (filter P ls) \<le> ladder_cost self ls" for P ls
    by (induction ls) (auto simp: ladder_cost_def)
  have body: "count Q (ucatch (url_body show_secs self ctx refusal) (handle_exception self ctx)) s' g"
    if pr: "prepared_for self jb index url ctx" for ctx refusal s'
  proof -
    have fin: "Q r s'' g'" if "ft_renders g' \<le> ft_renders g + ladder_cost self (ux_url_levels ctx)" "keeps (guarded self ctx g) g g'" for r s'' g'
    proof (rule Q)
      have "ladder_cost self (ux_url_levels ctx) \<le> ladder_cost self (jb_levels jb)"
        using pr sub by (auto simp: prepared_for_def)
      with that(1) show "ft_renders g' \<le> ft_renders g + ladder_cost self (jb_levels jb)" by simp
      show "keeps (wk_has_admission self \<or> \<not> gateway_fallback_eligible self) g g'"
        using that(2) pr assms(1,2) by (auto simp: keeps_def guarded_def prepared_for_def split: if_splits)
    qed
    have handled: "count Q (handle_exception self ctx e) s'' g'"
      if "ft_renders g' \<le> ft_renders g + ladder_cost self (ux_url_levels ctx)" "keeps (guarded self ctx g) g g'" for e s'' g'
      using that by (intro bookkeeping_count books fin)
    show ?thesis
      unfolding up_catch url_body_def
      by (auto split: option.splits sum.splits intro!: level_loop_count handled fin)
        (intro bookkeeping_count books; auto split: sum.splits intro!: handled fin)
  qed
  show ?thesis
    unfolding url_pipeline_def up_bind
    by (rule prepare_url_up) (auto intro!: body elim: prepares.elims)
qed

lemma process_one_url_count:
  assumes "0 \<le> ft_seats g" "0 \<le> ft_slots g"
    and Q: "\<And>r s g'. ft_renders g' \<le> ft_renders g + ladder_cost self (jb_levels jb) \<Longrightarrow>
      keeps (wk_has_admission self \<or> \<not> gateway_fallback_eligible self) g g' \<Longrightarrow> Q r s g'"
  shows "count Q (process_one_url show_secs self jb index url) s g"
proof -
  have same: "Q r s' g" for r s' by (auto intro!: Q)
  have pipe: "count Q (url_pipeline show_secs self jb index url) s' g" for s'
    using assms by (rule url_pipeline_count)
  have stored: "count Q (store_result i cb r) s' g" for i cb r s'
    by (intro bookkeeping_count books same)
  have "count Q (cached_or_fetched show_secs self jb index url) s' g" for s'
    by (auto simp: cached_or_fetched_def check_cache_def up_bind up_ret up_do same pipe stored split: sum.splits option.splits)
  then show ?thesis
    by (auto simp: process_one_url_def is_cancelled_def up_bind up_do up_ret up_act same split: sum.splits)
qed

text \<open>
  \<^bold>\<open>C8\<close>: the cost of one URL. Whatever the site, the proxies, the gateway and Redis do, a URL costs at
  most one plain request and, at each of the two browser levels, the renders of the first attempt
  and of one gateway retry (\<open>max_renders\<close> each: the first, one pool retry, the rotations of the
  gateway session, one return to the pool); every slot and every seat it took is given back; and
  no render runs without one, if the host's admission is on or the gateway is not a fallback.
\<close>

theorem url_cost_bounded:
  assumes "worker_world h" and "jb_levels jb = resolve_levels ov"
    and "wrun h (process_one_url show_secs self jb index url url_start) w = (r, tr, w')"
  shows "let g = summary tally tr \<lparr>ft_renders = 0, ft_seats = 0, ft_slots = 0, ft_uncovered = 0\<rparr> in
    ft_renders g \<le> 1 + 4 * max_renders self \<and> ft_seats g = 0 \<and> ft_slots g = 0 \<and>
    (wk_has_admission self \<or> \<not> gateway_fallback_eligible self \<longrightarrow> ft_uncovered g = 0)"
proof -
  let ?g = "\<lparr>ft_renders = 0, ft_seats = 0, ft_slots = 0, ft_uncovered = 0\<rparr>"
  have sub: "ladder_cost self (filter P ls) \<le> ladder_cost self ls" for P ls
    by (induction ls) (auto simp: ladder_cost_def)
  have "ladder_cost self LEVELS = 1 + 4 * max_renders self"
    by (simp add: ladder_cost_def LEVELS_def cost_def retry_cost_def)
  then have lad: "ladder_cost self (resolve_levels ov) \<le> 1 + 4 * max_renders self"
    using sub [of _ LEVELS] by (auto simp: resolve_levels_def Let_def split: option.split)
  have "count (\<lambda>_ _ g'. ft_renders g' \<le> 1 + 4 * max_renders self \<and>
      keeps (wk_has_admission self \<or> \<not> gateway_fallback_eligible self) ?g g') (process_one_url show_secs self jb index url) url_start ?g"
    by (rule process_one_url_count) (use lad assms(2) in auto)
  then have "ft_renders (summary tally tr ?g) \<le> 1 + 4 * max_renders self \<and>
      keeps (wk_has_admission self \<or> \<not> gateway_fallback_eligible self) ?g (summary tally tr ?g)"
    unfolding up_def using worker_world.wp_sound [OF assms(1) _ assms(3)] by fastforce
  then show ?thesis by (simp add: keeps_def Let_def)
qed

theorem url_cost_bounded_witness:
  "let g = summary tally (fst (snd demo_run)) \<lparr>ft_renders = 0, ft_seats = 0, ft_slots = 0, ft_uncovered = 0\<rparr> in
    ft_renders g \<le> 13 \<and> ft_seats g = 0 \<and> ft_slots g = 0 \<and> ft_uncovered g = 0"
proof -
  have "jb_levels demo_job = resolve_levels None" by (simp add: demo_job_def resolve_levels_def)
  moreover have "max_renders demo_worker = 3" "\<not> gateway_fallback_eligible demo_worker" by code_simp+
  ultimately show ?thesis
    using url_cost_bounded [OF demo_world _ demo_run_eq, of None] by (simp add: Let_def)
qed

subsection \<open>Whom a failure is charged to\<close>

text \<open>The engine's own failures: the host's admission and its Redis.\<close>

fun own_failure :: "exn \<Rightarrow> bool" where
  "own_failure AdmissionUnavailableError = True"
| "own_failure (AdmissionTimeoutError w) = True"
| "own_failure AdmissionCancelledError = True"
| "own_failure RedisConnectionError = True"
| "own_failure RedisTimeoutError = True"
| "own_failure _ = False"

text \<open>The summary: was the last failure of an operation the engine's own?\<close>

fun blame :: "wop \<Rightarrow> exn + wans \<Rightarrow> bool \<Rightarrow> bool" where
  "blame oper (Inl e) g = own_failure e"
| "blame oper (Inr a) g = g"

fun charges :: "wop \<Rightarrow> bool" where
  "charges (RecordFailure d) = True"
| "charges _ = False"

definition fair :: "wop \<Rightarrow> bool \<Rightarrow> bool" where
  "fair oper ours \<longleftrightarrow> charges oper \<longrightarrow> \<not> ours"

fun innocent :: "exn + 'a \<Rightarrow> bool \<Rightarrow> bool" where
  "innocent (Inl e) ours = (ours \<longrightarrow> own_failure e)"
| "innocent (Inr a) ours = (\<not> ours)"

definition clean :: "'a um \<Rightarrow> bool" where
  "clean m \<longleftrightarrow> (\<forall>s. up fair blame (\<lambda>r _. innocent r) m s False)"

named_theorems cleans

lemma clean_rules [cleans]:
  "clean (uret a)" "clean (uraise e)" "clean uget" "clean (umod f)" "clean (ulift r)" "clean (udo oper)" "clean (uact oper)"
  by (auto simp: clean_def fair_def up_rules split: sum.splits) (metis innocent.simps sum.exhaust blame.simps)+

lemma clean_bind [cleans]:
  assumes "clean m" "\<And>a. clean (f a)"
  shows "clean (ubind m f)"
proof -
  have "case r of Inl e \<Rightarrow> innocent (Inl e) g | Inr a \<Rightarrow> up fair blame (\<lambda>r _. innocent r) (f a) s g"
    if "innocent r g" for r s g
    using that assms(2) by (cases r) (auto simp: clean_def)
  then show ?thesis
    using assms(1) unfolding clean_def up_bind by (blast intro: up_mono)
qed

lemma clean_then [cleans]: "clean m \<Longrightarrow> clean k \<Longrightarrow> clean (uthen m k)"
  unfolding uthen_def by (rule clean_bind)

lemma clean_when [cleans]: "clean m \<Longrightarrow> clean (uwhen b m)"
  by (simp add: uwhen_def cleans)

lemma clean_if [cleans]: "clean m \<Longrightarrow> clean k \<Longrightarrow> clean (if b then m else k)"
  by simp

lemma clean_cases [cleans]:
  "clean m \<Longrightarrow> (\<And>a. clean (k a)) \<Longrightarrow> clean (case x of None \<Rightarrow> m | Some a \<Rightarrow> k a)"
  "(\<And>a b. clean (k2 a b)) \<Longrightarrow> clean (case y of (a, b) \<Rightarrow> k2 a b)"
  "(\<And>a. clean (kl a)) \<Longrightarrow> (\<And>a. clean (kr a)) \<Longrightarrow> clean (case z of Inl a \<Rightarrow> kl a | Inr a \<Rightarrow> kr a)"
  by (auto split: option.split prod.split sum.split)

lemma clean_finally [cleans]:
  assumes "clean m" "\<not> charges oper"
  shows "clean (ufinally m (uact oper))"
proof -
  have "up fair blame (\<lambda>q s'' g''. case q of Inl e \<Rightarrow> innocent (Inl e) g'' | Inr _ \<Rightarrow> innocent r g'') (uact oper) s g"
    if "innocent r g" for r :: "exn + 'a" and s g
    using that assms(2) by (auto simp: up_act fair_def split: sum.splits)
  then show ?thesis
    using assms(1) unfolding clean_def up_finally by (blast intro: up_mono)
qed

lemma clean_catch:
  assumes "clean m" "\<And>e. own_failure e \<Longrightarrow> h e = uraise e" "\<And>e. clean (h e)"
  shows "clean (ucatch m h)"
proof -
  have "case r of Inl e \<Rightarrow> up fair blame (\<lambda>r _. innocent r) (h e) s g | Inr a \<Rightarrow> innocent (Inr a) g"
    if "innocent r g" for r s g
    using that assms(2,3) by (cases r; cases g) (auto simp: clean_def up_raise)
  then show ?thesis
    using assms(1) unfolding clean_def up_catch by (blast intro: up_mono)
qed

lemma clean_lease [cleans]: "clean (lease_for self c st)"
proof -
  have "clean (ucatch (ubind (udo (GetProxy t l d)) (\<lambda>a. uret (Some (as_proxy a)))) (\<lambda>e. if is_pool_exhausted e then uret None else uraise e))"
    for t l d
    by (intro clean_catch) (auto simp: is_pool_exhausted_def intro!: cleans split: exn.split)
  then show ?thesis
    unfolding lease_for_def gateway_lease_def new_gateway_proxy_def Let_def by (intro cleans)
qed

lemma clean_pass [cleans]: "clean (fetch_pass self c st)"
  unfolding fetch_pass_def render_claim_def fetch_leased_def score_attempt_def Let_def by (intro cleans; simp)

lemma clean_loop [cleans]: "clean (fetch_loop n self c st)"
proof (induction n arbitrary: st)
  case (Suc n)
  have "clean (case p of Again st' \<Rightarrow> fetch_loop n self c st' | Done r \<Rightarrow> uret r)" for p
    using Suc.IH by (auto intro: cleans split: pass.split)
  then show ?case by (simp add: cleans)
qed (simp add: cleans)

lemma clean_fetch [cleans]: "clean (fetch_url self t url level ov force only sk adm)"
  unfolding fetch_url_def fetch_with_proxy_def Let_def by (intro cleans)

lemma clean_books [cleans]:
  "clean (finish r)" "clean (reject l r t)" "clean (note_skipped r)" "clean (store_result i cb r)" "clean (record_outcome ctx r)"
  "clean (conclude_failed ctx c m l ra err r)" "clean (gateway_fallback_usable self)" "clean (gateway_block_retry_usable self r)"
  unfolding conclude_failed_def record_outcome_def store_result_def finish_def reject_def note_skipped_def
    gateway_block_retry_usable_def gateway_fallback_usable_def
  by (intro cleans)+

lemma clean_ends [cleans]:
  "clean (conclude_not_found ctx l r)" "clean (conclude_circuit_open self ctx l)"
  "clean (conclude_no_slot show_secs self ctx l)" "clean (conclude_site_refused ctx fs)"
  "clean (conclude_failure ctx l r cat)" "clean (remember_site_refusal self t si r sk)" "clean (conclude_exhausted self ctx)"
  unfolding conclude_not_found_def conclude_circuit_open_def conclude_no_slot_def conclude_site_refused_def
    conclude_failure_def conclude_exhausted_def remember_site_refusal_def Let_def
  by (intro cleans)+

lemma clean_judge [cleans]: "clean (judge self ctx l r)"
  unfolding judge_def success_branch_def failure_branch_def accept_content_def extract_and_convert_def Let_def
  by (intro cleans)

lemma clean_attempt [cleans]: "clean (attempt_level show_secs self ctx level tripped)"
  unfolding attempt_level_def after_fetch_def block_retry_def after_retry_def Let_def
  by (intro cleans; simp)

lemma clean_level_loop [cleans]: "clean (level_loop show_secs self ctx levels)"
proof (induction levels)
  case (Cons level levels)
  then have "clean (case r of Break \<Rightarrow> uret () | Continue \<Rightarrow> level_loop show_secs self ctx levels)" for r
    by (auto intro: cleans split: lstep.split)
  moreover have "clean (level_step show_secs self ctx level)"
    unfolding level_step_def Let_def by (intro cleans)
  ultimately show ?case by (simp add: cleans)
qed (simp add: cleans)

lemma clean_body: "clean (url_body show_secs self ctx refusal)"
  unfolding url_body_def by (intro cleans)

lemma chargeless_fair:
  assumes "issues (\<lambda>oper. \<not> charges oper) (\<lambda>_ _. True) m s"
  shows "up fair blame (\<lambda>_ _ _. True) m s g"
proof -
  have "wp (\<lambda>oper _. \<not> charges oper) (\<lambda>_ _ u. u) (\<lambda>(r, s') _. True) (m s) ()"
    using assms unfolding issues_def up_def by simp
  then have "wp (\<lambda>oper _. \<not> charges oper) blame (\<lambda>_ _. True) (m s) g"
    unfolding case_prod_beta' by (rule wp_ghost [THEN iffD1])
  then show ?thesis unfolding up_def case_prod_beta' by (rule wp_guard_mono) (simp add: fair_def)
qed

lemma conclude_failed_fair: "up fair blame (\<lambda>_ _ _. True) (conclude_failed ctx c m l ra err r) s g"
  by (rule chargeless_fair)
    (auto simp: issues_def conclude_failed_def record_outcome_def store_result_def finish_def up_rules split: sum.splits)

lemma handle_exception_fair:
  assumes "g \<longrightarrow> own_failure e"
  shows "up fair blame (\<lambda>_ _ _. True) (handle_exception self ctx e) s g"
  using assms
  by (cases e) (auto simp: handle_exception_def conclude_crash_def Let_def up_then up_when up_act fair_def
      intro!: conclude_failed_fair split: sum.splits)

lemma process_one_url_fair:
  "up fair blame (\<lambda>_ _ _. True) (process_one_url show_secs self jb index url) s False"
proof -
  have guarded: "up fair blame (\<lambda>_ _ _. True) (ucatch (url_body show_secs self ctx refusal) (handle_exception self ctx)) s' False"
    for ctx refusal s'
  proof -
    have "case r of Inl e \<Rightarrow> up fair blame (\<lambda>_ _ _. True) (handle_exception self ctx e) s g | Inr a \<Rightarrow> True"
      if "innocent r g" for r :: "exn + unit" and s g
      using that by (cases r) (auto intro: handle_exception_fair)
    then show ?thesis
      using clean_body [of show_secs self ctx refusal] unfolding clean_def up_catch by (blast intro: up_mono)
  qed
  have prep: "clean (prepare_url self jb index url)"
    unfolding prepare_url_def make_admission_def site_refusal_for_def Let_def by (intro cleans)
  have pipe: "up fair blame (\<lambda>_ _ _. True) (url_pipeline show_secs self jb index url) s' False" for s'
  proof -
    have "case r of Inl e \<Rightarrow> True | Inr a \<Rightarrow> up fair blame (\<lambda>_ _ _. True)
        (case a of (ctx, refusal) \<Rightarrow> ucatch (url_body show_secs self ctx refusal) (handle_exception self ctx)) s g"
      if "innocent r g" for r s g
      using that by (cases r) (auto intro: guarded split: prod.split)
    then show ?thesis
      using prep unfolding clean_def url_pipeline_def up_bind by (blast intro: up_mono)
  qed
  have stored: "up fair blame (\<lambda>_ _ _. True) (store_result i cb r) s' g" for i cb r s' g
    by (rule chargeless_fair) (auto simp: issues_def store_result_def finish_def up_rules split: sum.splits)
  have "up fair blame (\<lambda>_ _ _. True) (cached_or_fetched show_secs self jb index url) s' False" for s'
    by (auto simp: cached_or_fetched_def check_cache_def up_bind up_ret up_do fair_def pipe stored split: sum.splits option.splits)
  then show ?thesis
    by (auto simp: process_one_url_def is_cancelled_def up_bind up_do up_ret up_act fair_def split: sum.splits)
qed

text \<open>
  \<^bold>\<open>C9\<close>: the engine never charges its own trouble to the target. After a failure of the host's
  admission or of the engine's Redis, wherever on the path of the URL it happened and whatever it
  interrupted, the URL is concluded without a failure on its domain's circuit.
\<close>

theorem own_failures_not_charged:
  assumes "worker_world h"
    and "wrun h (process_one_url show_secs self jb index url url_start) w = (r, tr1 @ (RecordFailure d, a) # tr2, w')"
  shows "\<not> summary blame tr1 False"
proof -
  have "fair (RecordFailure d) (summary blame tr1 False)"
    using worker_world.wp_guard_sound [OF assms(1) process_one_url_fair [unfolded up_def] assms(2)] .
  then show ?thesis by (simp add: fair_def)
qed

lemma demo_charged: "(RecordFailure ''shop.example'', Inr AUnit) \<in> set (fst (snd demo_run))"
  by code_simp

theorem own_failures_not_charged_witness:
  "\<exists>tr1 tr2. fst (snd demo_run) = tr1 @ (RecordFailure ''shop.example'', Inr AUnit) # tr2 \<and> \<not> summary blame tr1 False"
proof -
  obtain tr1 tr2 where tr: "fst (snd demo_run) = tr1 @ (RecordFailure ''shop.example'', Inr AUnit) # tr2"
    using split_list [OF demo_charged] by blast
  from own_failures_not_charged [OF demo_world demo_run_eq [unfolded tr]] tr show ?thesis by blast
qed

subsection \<open>A render without a slot\<close>

text \<open>
  Where the host's admission is off and the paid gateway is a fallback, the gateway retry of a page
  that blocked the pool is rendered after the website's slot was given back.
\<close>

definition fallback_worker :: worker where
  "fallback_worker = demo_worker\<lparr>
     wk_dataimpulse := dataimpulse_defaults\<lparr>di_enabled := True, di_strategy := Free_First\<rparr>,
     wk_gateway_env := \<lparr>ge_host = Some ''gw.example'', ge_port = Some ''823'', ge_username = Some ''u'', ge_password = Some ''p''\<rparr>\<rparr>"

definition walled_page :: "fetch_request \<Rightarrow> fetch_result" where
  "walled_page q = (if map_option px_source (fq_proxy q) = Some Paid_Gateway
     then (new_result (fq_url q) True (fq_level q) 900)\<lparr>fr_http_status := Some 200, fr_html := Some ''<p>a product</p>''\<rparr>
     else (failed_result (fq_url q) (fq_level q) DETECTION_BLOCK ''HTTP 403'')\<lparr>fr_http_status := Some 403\<rparr>)"

fun walled_world :: "unit world" where
  "walled_world (Fetch q) w = (Inr (AResult (walled_page q)), w)"
| "walled_world oper w = demo_world oper w"

lemma walled_world: "worker_world walled_world"
proof
  fix oper w show "answers oper (fst (walled_world oper w))"
    by (cases oper) (auto simp: answers_def)
qed

lemma gateway_retry_uncovered:
  "ft_uncovered (summary tally (fst (snd (wrun walled_world
      (process_one_url (\<lambda>_. ''300'') fallback_worker demo_job 0 ''https://shop.example/1'' url_start) ())))
    \<lparr>ft_renders = 0, ft_seats = 0, ft_slots = 0, ft_uncovered = 0\<rparr>) = 1"
  by code_simp

end
