(* ===== verification/Politeness.thy ===== *)
theory Politeness
  imports Redis_Service Interfaces
begin

text \<open>
  \<^verbatim>\<open>src/src/scraper_engine/orchestrator/politeness.py\<close>: at most so many concurrent fetches per
  tenant and domain (slots with an expiry of their own in one sorted set), and a minimum delay
  between fetches (an atomic reservation of the next instant). The slots are an instance of
  \<open>lease_table\<close>; the lemmas on the key's own expiry are the reason they are.
\<close>

subsection \<open>Lua helpers\<close>

definition lua_now_ms :: "reply \<Rightarrow> int option" where
  "lua_now_ms r = (case r of RStrings [RInt s, RInt us] \<Rightarrow> Some (s * 1000 + us div 1000) | _ \<Rightarrow> None)"

definition with_now_ms :: "(int \<Rightarrow> lua) \<Rightarrow> lua" where
  "with_now_ms k = LCall TIME (\<lambda>t. case lua_now_ms t of None \<Rightarrow> LRet RErr | Some now_ms \<Rightarrow> k now_ms)"

definition extend_ttl :: "string \<Rightarrow> int \<Rightarrow> lua \<Rightarrow> lua" where
  "extend_ttl k ms rest =
     LCall (PTTL k) (\<lambda>r. if (case r of RInteger t \<Rightarrow> t < ms | _ \<Rightarrow> False)
       then LCall (PEXPIRE k ms) (\<lambda>_. rest) else rest)"

text \<open>\<open>tostring\<close> of a number, and the integer a script's number becomes in the reply.\<close>

definition lua_tostring :: "rat \<Rightarrow> rstr" where
  "lua_tostring q = (if of_int \<lfloor>q\<rfloor> = q then RInt \<lfloor>q\<rfloor> else RNum q)"

definition lua_reply :: "rat \<Rightarrow> reply" where
  "lua_reply q = RInteger (if q < 0 then \<lceil>q\<rceil> else \<lfloor>q\<rfloor>)"

subsection \<open>The scripts\<close>

definition ACQUIRE_SLOT_LUA :: "string \<Rightarrow> string \<Rightarrow> int \<Rightarrow> int \<Rightarrow> lua" where
  "ACQUIRE_SLOT_LUA key worker_id max_concurrent ttl_s =
     with_now_ms (\<lambda>now_ms. let ttl_ms = ttl_s * 1000 in
       LCall (ZREMRANGE_upto key now_ms) (\<lambda>_.
       LCall (ZCARD key) (\<lambda>n.
         if (case n of RInteger i \<Rightarrow> i < max_concurrent | _ \<Rightarrow> False)
         then LCall (ZADD key ZPlain (now_ms + ttl_ms) worker_id) (\<lambda>_.
           extend_ttl key ttl_ms (LRet (RInteger 1)))
         else LRet (RInteger 0))))"

definition RELEASE_SLOT_LUA :: "string \<Rightarrow> string \<Rightarrow> lua" where
  "RELEASE_SLOT_LUA key worker_id = LCall (ZREM key worker_id) (\<lambda>_. LRet (RInteger 1))"

definition REFRESH_SLOT_LUA :: "string \<Rightarrow> string \<Rightarrow> int \<Rightarrow> lua" where
  "REFRESH_SLOT_LUA key worker_id ttl_s =
     with_now_ms (\<lambda>now_ms. let ttl_ms = ttl_s * 1000 in
       LCall (ZSCORE key worker_id) (\<lambda>r. case lua_tonumber r of
         None \<Rightarrow> LRet RErr
       | Some expires_at \<Rightarrow>
           if expires_at > of_int now_ms
           then LCall (ZADD key ZXX (now_ms + ttl_ms) worker_id) (\<lambda>_.
             extend_ttl key ttl_ms (LRet (RInteger 1)))
           else LRet (RInteger 0)))"

definition ACTIVE_SLOTS_LUA :: "string \<Rightarrow> lua" where
  "ACTIVE_SLOTS_LUA key = with_now_ms (\<lambda>now_ms. LCall (ZCOUNT_above key now_ms) LRet)"

definition RESERVE_DELAY_LUA :: "string \<Rightarrow> int \<Rightarrow> int \<Rightarrow> lua" where
  "RESERVE_DELAY_LUA key delay_ms ttl =
     with_now_ms (\<lambda>now_ms.
       LCall (GET key) (\<lambda>r. case lua_tonumber r of
         None \<Rightarrow> LRet RErr
       | Some stored \<Rightarrow>
           let next_at = (if stored < of_int now_ms then of_int now_ms else stored) in
           LCall (SET key (lua_tostring (next_at + of_int delay_ms)) (Some (ttl * 1000)) False) (\<lambda>_.
             LRet (lua_reply (next_at - of_int now_ms)))))"

subsection \<open>The controller\<close>

record politeness_config =
  pc_concurrency :: int
  pc_delay :: rat
  pc_slot_ttl :: int

definition politeness_defaults :: politeness_config where
  "politeness_defaults = \<lparr>pc_concurrency = 2, pc_delay = 5, pc_slot_ttl = 120\<rparr>"

definition slot_key :: "string \<Rightarrow> string \<Rightarrow> string" where
  "slot_key domain tenant_id = ''politeness:turns:'' @ tenant_id @ '':'' @ domain"

definition delay_key :: "string \<Rightarrow> string \<Rightarrow> string" where
  "delay_key domain tenant_id = ''politeness:last:'' @ tenant_id @ '':'' @ domain"

text \<open>\<open>bool(result)\<close> of an integer reply.\<close>

definition py_true :: "reply \<Rightarrow> bool" where
  "py_true r \<longleftrightarrow> r \<noteq> RInteger 0 \<and> r \<noteq> RNil"

text \<open>The random \<open>worker_id\<close> is an argument.\<close>

definition acquire_slot ::
  "politeness_config \<Rightarrow> string \<Rightarrow> string \<Rightarrow> int option \<Rightarrow> string \<Rightarrow> string option prog" where
  "acquire_slot self domain tenant_id concurrency worker_id =
     eval_script (ACQUIRE_SLOT_LUA (slot_key domain tenant_id) worker_id
         (case concurrency of None \<Rightarrow> pc_concurrency self | Some c \<Rightarrow> c) (pc_slot_ttl self))
       (\<lambda>result. Return (if py_true result then Some worker_id else None))"

definition release_slot :: "string \<Rightarrow> string \<Rightarrow> string \<Rightarrow> unit prog" where
  "release_slot domain tenant_id worker_id =
     eval_script (RELEASE_SLOT_LUA (slot_key domain tenant_id) worker_id) (\<lambda>_. Return ())"

definition refresh_slot :: "politeness_config \<Rightarrow> string \<Rightarrow> string \<Rightarrow> string \<Rightarrow> bool prog" where
  "refresh_slot self domain tenant_id worker_id =
     eval_script (REFRESH_SLOT_LUA (slot_key domain tenant_id) worker_id (pc_slot_ttl self))
       (\<lambda>result. Return (py_true result))"

definition active_slots :: "string \<Rightarrow> string \<Rightarrow> int prog" where
  "active_slots domain tenant_id =
     eval_script (ACTIVE_SLOTS_LUA (slot_key domain tenant_id))
       (\<lambda>r. case r of RInteger i \<Rightarrow> Return i | _ \<Rightarrow> Raise ValueError)"

text \<open>
  \<open>held_slot\<close>: the beat every third of the TTL (at least a second) swallows every exception; the
  slot is released when the block ends. A block is given by how many beats fit into it.
\<close>

definition beat_interval :: "politeness_config \<Rightarrow> rat" where
  "beat_interval self = max 1 (of_int (pc_slot_ttl self) / 3)"

definition slot_beat :: "politeness_config \<Rightarrow> string \<Rightarrow> string \<Rightarrow> string \<Rightarrow> bool prog" where
  "slot_beat self domain tenant_id worker_id =
     catch (refresh_slot self domain tenant_id worker_id) (\<lambda>_. Return False)"

primrec held_slot :: "politeness_config \<Rightarrow> string \<Rightarrow> string \<Rightarrow> string \<Rightarrow> nat \<Rightarrow> unit prog" where
  "held_slot self domain tenant_id worker_id 0 = release_slot domain tenant_id worker_id"
| "held_slot self domain tenant_id worker_id (Suc n) =
     andthen (slot_beat self domain tenant_id worker_id) (\<lambda>_. held_slot self domain tenant_id worker_id n)"

text \<open>The result is the number of milliseconds the caller sleeps before it fetches.\<close>

definition delay_ttl_seconds :: "int \<Rightarrow> int" where
  "delay_ttl_seconds delay_ms = max 60 (delay_ms div 1000 * 4)"

definition wait_if_needed :: "politeness_config \<Rightarrow> string \<Rightarrow> string \<Rightarrow> rat option \<Rightarrow> int prog" where
  "wait_if_needed self domain tenant_id delay_seconds =
     (let delay = (case delay_seconds of None \<Rightarrow> pc_delay self | Some d \<Rightarrow> d);
          delay_ms = (if delay < 0 then \<lceil>delay * 1000\<rceil> else \<lfloor>delay * 1000\<rfloor>) in
      if delay_ms \<le> 0 then Return 0
      else eval_script (RESERVE_DELAY_LUA (delay_key domain tenant_id) delay_ms (delay_ttl_seconds delay_ms))
        (\<lambda>r. case r of
           RInteger wait_ms \<Rightarrow> Return (if wait_ms \<le> 0 then 0 else wait_ms)
         | _ \<Rightarrow> Raise ValueError))"

subsection \<open>The scripts on the keyspace\<close>

lemma micros_to_millis:
  fixes us :: int
  shows "us div 1000000 * 1000 + us mod 1000000 div 1000 = us div 1000"
proof -
  have hi: "us div 1000000 = us div 1000 div 1000"
    using zdiv_zmult2_eq [of 1000 us 1000] by simp
  have "us mod 1000000 = us mod 1000 + 1000 * (us div 1000 mod 1000)"
    using zmod_zmult2_eq [of 1000 us 1000] by simp
  then have "us mod 1000000 div 1000 = us div 1000 mod 1000"
    by (simp only: div_mult_self2) simp
  with hi show ?thesis by (simp only: div_mult_mod_eq)
qed

lemma run_with_now_ms [run_simps]:
  "run_lua redis_exec (with_now_ms k) K = run_lua redis_exec (k (ks_now K)) K"
  by (simp add: with_now_ms_def lua_now_ms_def micros_to_millis ks_now_def)

text \<open>What \<open>extend_ttl\<close> leaves: the later of the two expiries, for a key that has one.\<close>

definition ttl_extended :: "string \<Rightarrow> int \<Rightarrow> keyspace \<Rightarrow> keyspace" where
  "ttl_extended k ms K =
     (case deadline K k of
        Some x \<Rightarrow> if x - ks_now K < ms then bump k ms K else K
      | None \<Rightarrow> bump k ms K)"

lemma PTTL_reply:
  "0 < ms \<Longrightarrow> redis_exec (PTTL k) K = (RInteger (if live K k = None then - 2
     else case deadline K k of None \<Rightarrow> - 1 | Some x \<Rightarrow> x - ks_now K), K)"
  by (auto simp: deadline_def split: option.splits)

lemma run_extend_ttl [run_simps]:
  assumes "0 < ms"
  shows "run_lua redis_exec (extend_ttl k ms rest) K = run_lua redis_exec rest (ttl_extended k ms K)"
proof (cases "live K k")
  case None
  then have "deadline K k = None" "bump k ms K = K" by (simp_all add: deadline_def bump_def)
  with assms show ?thesis
    by (simp add: extend_ttl_def ttl_extended_def run_lua_call PTTL_reply [OF assms]
        del: redis_exec.simps(7) run_lua.simps(2))
next
  case (Some e)
  with assms show ?thesis
    by (simp add: extend_ttl_def ttl_extended_def run_lua_call PTTL_reply [OF assms]
        del: redis_exec.simps(7) run_lua.simps(2) split: option.splits)
qed

lemma at_ttl_extended [keyspace_simps]:
  assumes "0 < ms"
  shows "str_at (ttl_extended k ms K) k' = str_at K k'" "zset_at (ttl_extended k ms K) k' = zset_at K k'"
    "hash_at (ttl_extended k ms K) k' = hash_at K k'" "ks_now (ttl_extended k ms K) = ks_now K"
    "deadline (ttl_extended k ms K) k = (if live K k = None then None else
       Some (case deadline K k of None \<Rightarrow> ks_now K + ms | Some x \<Rightarrow> max x (ks_now K + ms)))"
    "k' \<noteq> k \<Longrightarrow> deadline (ttl_extended k ms K) k' = deadline K k'"
  using assms deadline_future [of K k]
  by (auto simp: ttl_extended_def keyspace_simps split: option.splits) (auto simp: deadline_def split: option.splits)

subsection \<open>The slots as leases\<close>

text \<open>The clock is past the epoch, and the key outlives every member: the deadline of the key covers all scores.\<close>

definition slot_invar :: "string \<Rightarrow> keyspace \<Rightarrow> bool" where
  "slot_invar k K \<longleftrightarrow> 0 \<le> ks_now K \<and>
     (case zset_at K k of None \<Rightarrow> False
      | Some z \<Rightarrow> distinct (map fst z) \<and>
          (z = [] \<or> (case deadline K k of None \<Rightarrow> False | Some x \<Rightarrow> \<forall>(m, t) \<in> set z. t \<le> x)))"

definition slot_leases :: "string \<Rightarrow> keyspace \<Rightarrow> string \<Rightarrow> int option" where
  "slot_leases k K m =
     (case zset_at K k of None \<Rightarrow> None
      | Some z \<Rightarrow> (case map_of z m of None \<Rightarrow> None | Some t \<Rightarrow> if ks_now K < t then Some t else None))"

lemma slot_invar_now: "slot_invar k K \<Longrightarrow> 0 \<le> ks_now K"
  by (simp add: slot_invar_def)

lemma slot_invarE:
  assumes "slot_invar k K"
  obtains z where "zset_at K k = Some z" "distinct (map fst z)"
    "z \<noteq> [] \<longrightarrow> (\<exists>x. deadline K k = Some x \<and> (\<forall>(m, t) \<in> set z. t \<le> x))"
  using assms by (auto simp: slot_invar_def split: option.splits)

lemma deadline_put_zset [keyspace_simps]:
  "deadline (put_zset k z K) k = (if z = [] then None else deadline K k)"
  by (simp add: deadline_def [of "put_zset k z K"] live_put_zset)

abbreviation unexpired :: "int \<Rightarrow> (string \<times> int) list \<Rightarrow> (string \<times> int) list" where
  "unexpired now z \<equiv> filter (\<lambda>(m, t). now < t) z"

lemma slot_leases_eq:
  assumes "zset_at K k = Some z" "distinct (map fst z)"
  shows "slot_leases k K = map_of (unexpired (ks_now K) z)"
  using assms by (auto simp: slot_leases_def map_of_filter_distinct fun_eq_iff split: option.splits)

lemma dom_slot_leases:
  assumes "zset_at K k = Some z" "distinct (map fst z)"
  shows "dom (slot_leases k K) = fst ` set (unexpired (ks_now K) z)"
    "card (dom (slot_leases k K)) = length (unexpired (ks_now K) z)"
proof -
  show dom: "dom (slot_leases k K) = fst ` set (unexpired (ks_now K) z)"
    by (simp add: slot_leases_eq [OF assms] dom_map_of_conv_image_fst)
  have "distinct (map fst (unexpired (ks_now K) z))"
    using assms(2) by (rule distinct_map_fst_filter)
  then show "card (dom (slot_leases k K)) = length (unexpired (ks_now K) z)"
    unfolding dom by (metis distinct_card length_map set_map)
qed

definition after_purge :: "string \<Rightarrow> keyspace \<Rightarrow> keyspace" where
  "after_purge k K = (case zset_at K k of None \<Rightarrow> K | Some z \<Rightarrow> put_zset k (unexpired (ks_now K) z) K)"

lemma after_purge:
  assumes "slot_invar k K"
  shows "slot_invar k (after_purge k K)" "slot_leases k (after_purge k K) = slot_leases k K"
    "ks_now (after_purge k K) = ks_now K"
    "\<exists>z. zset_at (after_purge k K) k = Some z \<and> distinct (map fst z) \<and> int (length z) = int (card (dom (slot_leases k K))) \<and>
      (\<forall>(m, t) \<in> set z. ks_now K < t)"
proof -
  obtain z where z: "zset_at K k = Some z" "distinct (map fst z)"
    "z \<noteq> [] \<longrightarrow> (\<exists>x. deadline K k = Some x \<and> (\<forall>(m, t) \<in> set z. t \<le> x))"
    using assms by (rule slot_invarE)
  let ?z = "unexpired (ks_now K) z"
  have d: "distinct (map fst ?z)" using z(2) by (rule distinct_map_fst_filter)
  have p: "after_purge k K = put_zset k ?z K" by (simp add: after_purge_def z)
  show now: "ks_now (after_purge k K) = ks_now K" by (simp add: p)
  have at: "zset_at (after_purge k K) k = Some ?z" by (simp add: p keyspace_simps)
  then show "\<exists>z. zset_at (after_purge k K) k = Some z \<and> distinct (map fst z) \<and> int (length z) = int (card (dom (slot_leases k K))) \<and>
      (\<forall>(m, t) \<in> set z. ks_now K < t)"
    using d dom_slot_leases(2) [OF z(1,2)] by auto
  show "slot_leases k (after_purge k K) = slot_leases k K"
    using slot_leases_eq [OF at d] slot_leases_eq [OF z(1,2)] now by simp
  show "slot_invar k (after_purge k K)"
    using at d z(3) slot_invar_now [OF assms] by (auto simp: slot_invar_def p keyspace_simps split: option.splits)
qed

text \<open>Adding a member, or moving its score, together with the key's expiry.\<close>

lemma slot_put:
  fixes m :: string
  assumes inv: "slot_invar k K" and ms: "0 < ms"
    and z: "zset_at K k = Some z"
  defines "K' \<equiv> ttl_extended k ms (put_zset k (alist_put m (ks_now K + ms) z) K)"
  shows "slot_invar k K'" "slot_leases k K' = (slot_leases k K)(m \<mapsto> ks_now K + ms)" "ks_now K' = ks_now K"
proof -
  let ?z = "alist_put m (ks_now K + ms) z"
  have d: "distinct (map fst z)" and x: "z \<noteq> [] \<longrightarrow> (\<exists>x. deadline K k = Some x \<and> (\<forall>(m, t) \<in> set z. t \<le> x))"
    using slot_invarE [OF inv] z by auto
  show now: "ks_now K' = ks_now K" using ms by (simp add: K'_def keyspace_simps)
  have at: "zset_at K' k = Some ?z" using ms by (simp add: K'_def keyspace_simps)
  show "slot_leases k K' = (slot_leases k K)(m \<mapsto> ks_now K + ms)"
    using ms at z now by (auto simp: slot_leases_def fun_eq_iff split: option.splits)
  have in_z: "(m', t) \<in> set ?z \<Longrightarrow> t = ks_now K + ms \<or> (m', t) \<in> set z" for m' t
    by (auto simp: alist_put_def split: if_splits)
  have dl: "\<exists>x. deadline K' k = Some x \<and> (\<forall>(m, t) \<in> set ?z. t \<le> x)"
  proof (cases "z = []")
    case True
    then show ?thesis
      using ms by (auto simp: K'_def keyspace_simps alist_put_def split: option.splits)
  next
    case False
    with x obtain y where y: "deadline K k = Some y" "\<forall>(m, t) \<in> set z. t \<le> y" by auto
    then have "deadline K' k = Some (max y (ks_now K + ms))"
      using ms by (simp add: K'_def keyspace_simps)
    with y in_z show ?thesis by (fastforce simp: max_def)
  qed
  show "slot_invar k K'"
    using at d dl now slot_invar_now [OF inv] by (auto simp: slot_invar_def)
qed

lemma slot_del:
  fixes m :: string
  assumes inv: "slot_invar k K" and z: "zset_at K k = Some z"
  defines "K' \<equiv> put_zset k (alist_del m z) K"
  shows "slot_invar k K'" "slot_leases k K' = (slot_leases k K)(m := None)" "ks_now K' = ks_now K"
proof -
  have d: "distinct (map fst z)" and x: "z \<noteq> [] \<longrightarrow> (\<exists>x. deadline K k = Some x \<and> (\<forall>(m, t) \<in> set z. t \<le> x))"
    using slot_invarE [OF inv] z by auto
  have at: "zset_at K' k = Some (alist_del m z)" by (simp add: K'_def keyspace_simps)
  show "ks_now K' = ks_now K" by (simp add: K'_def)
  show "slot_leases k K' = (slot_leases k K)(m := None)"
    using at z by (auto simp: slot_leases_def fun_eq_iff K'_def split: option.splits)
  have "set (alist_del m z) \<subseteq> set z" by (auto simp: alist_del_def)
  with at d x slot_invar_now [OF inv] show "slot_invar k K'"
    by (cases "z = []") (auto simp: slot_invar_def K'_def keyspace_simps alist_del_def distinct_map_fst_filter)
qed

text \<open>Time only removes: what has expired, member by member.\<close>

lemma slot_wait:
  assumes inv: "slot_invar k K"
  shows "slot_invar k (ks_wait d K)"
    "slot_leases k (ks_wait d K) = (\<lambda>m. case slot_leases k K m of None \<Rightarrow> None
       | Some t \<Rightarrow> if ks_now K + int d < t then Some t else None)"
proof -
  obtain z where z: "zset_at K k = Some z" "distinct (map fst z)"
    "z \<noteq> [] \<longrightarrow> (\<exists>x. deadline K k = Some x \<and> (\<forall>(m, t) \<in> set z. t \<le> x))"
    using inv by (rule slot_invarE)
  have "slot_invar k (ks_wait d K) \<and> slot_leases k (ks_wait d K) =
    (\<lambda>m. case slot_leases k K m of None \<Rightarrow> None | Some t \<Rightarrow> if ks_now K + int d < t then Some t else None)"
  proof (cases "z = []")
    case True
    then have "zset_at (ks_wait d K) k = Some []"
      using z(1) by (auto simp: zset_at_def live_def alive_def split: option.splits if_splits rvalue.splits)
    with True z slot_invar_now [OF inv] show ?thesis by (auto simp: slot_invar_def slot_leases_def fun_eq_iff)
  next
    case False
    then obtain x where x: "deadline K k = Some x" "\<forall>(m, t) \<in> set z. t \<le> x" using z(3) by auto
    have live: "live (ks_wait d K) k = (if ks_now K + int d \<le> x then live K k else None)"
      using x(1) by (auto simp: deadline_def live_def alive_def split: option.splits if_splits)
    show ?thesis
    proof (cases "ks_now K + int d \<le> x")
      case True
      with live have "zset_at (ks_wait d K) k = Some z" "deadline (ks_wait d K) k = Some x"
        using z(1) x(1) by (simp_all add: zset_at_def deadline_def)
      with z x slot_invar_now [OF inv] show ?thesis
        by (auto simp: slot_invar_def slot_leases_def fun_eq_iff split: option.splits)
    next
      case False
      with live have "zset_at (ks_wait d K) k = Some []" by (simp add: zset_at_def)
      moreover have "\<not> ks_now K + int d < t" if "map_of z m = Some t" for m t
        using that x(2) False by (auto dest!: map_of_SomeD)
      ultimately show ?thesis
        using z(1) slot_invar_now [OF inv] by (auto simp: slot_invar_def slot_leases_def fun_eq_iff split: option.splits)
    qed
  qed
  then show "slot_invar k (ks_wait d K)"
    "slot_leases k (ks_wait d K) = (\<lambda>m. case slot_leases k K m of None \<Rightarrow> None
       | Some t \<Rightarrow> if ks_now K + int d < t then Some t else None)"
    by auto
qed

subsection \<open>The methods\<close>

lemma run_ACQUIRE_SLOT:
  assumes inv: "slot_invar k K" and ttl: "0 < ttl"
  shows "\<exists>K'. run_lua redis_exec (ACQUIRE_SLOT_LUA k m c ttl) K =
      (RInteger (if int (card (dom (slot_leases k K))) < c then 1 else 0), K') \<and> slot_invar k K' \<and>
    slot_leases k K' = (if int (card (dom (slot_leases k K))) < c
      then (slot_leases k K)(m \<mapsto> ks_now K + ttl * 1000) else slot_leases k K) \<and> ks_now K' = ks_now K"
proof -
  obtain z0 where z0: "zset_at K k = Some z0" using inv by (rule slot_invarE)
  obtain z where z: "zset_at (after_purge k K) k = Some z" "int (length z) = int (card (dom (slot_leases k K)))"
    using after_purge(4) [OF inv] by auto
  let ?c = "int (card (dom (slot_leases k K)))"
  have purge: "put_zset k (unexpired (ks_now K) z0) K = after_purge k K"
    by (simp add: after_purge_def z0)
  note put = slot_put [OF after_purge(1) [OF inv], of "ttl * 1000" z m]
  show ?thesis
  proof (cases "?c < c")
    case True
    with ttl z have "run_lua redis_exec (ACQUIRE_SLOT_LUA k m c ttl) K =
        (RInteger 1, ttl_extended k (ttl * 1000)
          (put_zset k (alist_put m (ks_now K + ttl * 1000) z) (after_purge k K)))"
      by (simp add: ACQUIRE_SLOT_LUA_def Let_def run_simps z0 purge zadd_def del: run_lua.simps(2))
    with put True ttl z after_purge [OF inv] show ?thesis by simp
  next
    case False
    with ttl z have "run_lua redis_exec (ACQUIRE_SLOT_LUA k m c ttl) K = (RInteger 0, after_purge k K)"
      by (simp add: ACQUIRE_SLOT_LUA_def Let_def run_simps z0 purge del: run_lua.simps(2))
    with False after_purge [OF inv] show ?thesis by simp
  qed
qed

lemma run_REFRESH_SLOT:
  assumes inv: "slot_invar k K" and ttl: "0 < ttl"
  shows "\<exists>K'. run_lua redis_exec (REFRESH_SLOT_LUA k m ttl) K =
      (RInteger (if slot_leases k K m \<noteq> None then 1 else 0), K') \<and> slot_invar k K' \<and>
    slot_leases k K' = (if slot_leases k K m \<noteq> None
      then (slot_leases k K)(m \<mapsto> ks_now K + ttl * 1000) else slot_leases k K) \<and> ks_now K' = ks_now K"
proof -
  obtain z where z: "zset_at K k = Some z" using inv by (rule slot_invarE)
  have now: "0 \<le> ks_now K" using inv by (simp add: slot_invar_def)
  note put = slot_put [OF inv _ z, of "ttl * 1000" m]
  show ?thesis
  proof (cases "map_of z m")
    case None
    with now inv z show ?thesis
      by (simp add: REFRESH_SLOT_LUA_def Let_def run_simps slot_leases_def lua_tonumber_def del: run_lua.simps(2))
  next
    case (Some t)
    with inv z put ttl show ?thesis
      by (simp add: REFRESH_SLOT_LUA_def Let_def run_simps slot_leases_def [of _ _ m] lua_tonumber_def as_num_def
          zadd_def del: run_lua.simps(2))
  qed
qed

lemma run_RELEASE_SLOT:
  assumes inv: "slot_invar k K"
  shows "\<exists>K'. run_lua redis_exec (RELEASE_SLOT_LUA k m) K = (RInteger 1, K') \<and> slot_invar k K' \<and>
    slot_leases k K' = (slot_leases k K)(m := None) \<and> ks_now K' = ks_now K"
proof -
  obtain z where z: "zset_at K k = Some z" using inv by (rule slot_invarE)
  with slot_del [OF inv z, of m] show ?thesis
    by (simp add: RELEASE_SLOT_LUA_def run_simps del: run_lua.simps(2))
qed

lemma run_ACTIVE_SLOTS:
  assumes inv: "slot_invar k K"
  shows "run_lua redis_exec (ACTIVE_SLOTS_LUA k) K = (RInteger (int (card (dom (slot_leases k K)))), K)"
proof -
  obtain z where z: "zset_at K k = Some z" "distinct (map fst z)" using inv by (rule slot_invarE)
  with dom_slot_leases(2) [OF z] show ?thesis
    by (simp add: ACTIVE_SLOTS_LUA_def run_simps del: run_lua.simps(2))
qed

text \<open>The calls of the worker and the passing of time, on any server.\<close>

definition slot_ops :: "'s server \<Rightarrow> politeness_config \<Rightarrow> string \<Rightarrow> string \<Rightarrow> 's lease_ops" where
  "slot_ops sv cfg d t = \<lparr>
     lo_acquire = (\<lambda>c m s. case run sv (acquire_slot cfg d t (Some (int c)) m) [] s of (r, s') \<Rightarrow> (r = Inr (Some m), s')),
     lo_refresh = (\<lambda>m s. case run sv (refresh_slot cfg d t m) [] s of (r, s') \<Rightarrow> (r = Inr True, s')),
     lo_release = (\<lambda>m s. snd (run sv (release_slot d t m) [] s)),
     lo_pass = srv_wait sv\<rparr>"

lemma run_acquire_slot:
  assumes "slot_invar (slot_key d t) K" "0 < pc_slot_ttl cfg"
  shows "\<exists>K'. run mem_server (acquire_slot cfg d t (Some c) m) [] K =
      (Inr (if int (card (dom (slot_leases (slot_key d t) K))) < c then Some m else None), K') \<and>
    slot_invar (slot_key d t) K' \<and> ks_now K' = ks_now K \<and>
    slot_leases (slot_key d t) K' = (if int (card (dom (slot_leases (slot_key d t) K))) < c
      then (slot_leases (slot_key d t) K)(m \<mapsto> ks_now K + pc_slot_ttl cfg * 1000) else slot_leases (slot_key d t) K)"
proof -
  from run_ACQUIRE_SLOT [OF assms, of m c] obtain K' where
    "run_lua redis_exec (ACQUIRE_SLOT_LUA (slot_key d t) m c (pc_slot_ttl cfg)) K =
      (RInteger (if int (card (dom (slot_leases (slot_key d t) K))) < c then 1 else 0), K')"
    "slot_invar (slot_key d t) K'" "ks_now K' = ks_now K"
    "slot_leases (slot_key d t) K' = (if int (card (dom (slot_leases (slot_key d t) K))) < c
      then (slot_leases (slot_key d t) K)(m \<mapsto> ks_now K + pc_slot_ttl cfg * 1000) else slot_leases (slot_key d t) K)"
    by blast
  then show ?thesis by (simp add: acquire_slot_def run_simps py_true_def)
qed

lemma run_refresh_slot:
  assumes "slot_invar (slot_key d t) K" "0 < pc_slot_ttl cfg"
  shows "\<exists>K'. run mem_server (refresh_slot cfg d t m) [] K =
      (Inr (slot_leases (slot_key d t) K m \<noteq> None), K') \<and>
    slot_invar (slot_key d t) K' \<and> ks_now K' = ks_now K \<and>
    slot_leases (slot_key d t) K' = (if slot_leases (slot_key d t) K m \<noteq> None
      then (slot_leases (slot_key d t) K)(m \<mapsto> ks_now K + pc_slot_ttl cfg * 1000) else slot_leases (slot_key d t) K)"
proof -
  from run_REFRESH_SLOT [OF assms, of m] obtain K' where
    "run_lua redis_exec (REFRESH_SLOT_LUA (slot_key d t) m (pc_slot_ttl cfg)) K =
      (RInteger (if slot_leases (slot_key d t) K m \<noteq> None then 1 else 0), K')"
    "slot_invar (slot_key d t) K'" "ks_now K' = ks_now K"
    "slot_leases (slot_key d t) K' = (if slot_leases (slot_key d t) K m \<noteq> None
      then (slot_leases (slot_key d t) K)(m \<mapsto> ks_now K + pc_slot_ttl cfg * 1000) else slot_leases (slot_key d t) K)"
    by blast
  then show ?thesis by (simp add: refresh_slot_def run_simps py_true_def)
qed

lemma run_release_slot:
  assumes "slot_invar (slot_key d t) K"
  shows "\<exists>K'. run mem_server (release_slot d t m) [] K = (Inr (), K') \<and>
    slot_invar (slot_key d t) K' \<and> ks_now K' = ks_now K \<and>
    slot_leases (slot_key d t) K' = (slot_leases (slot_key d t) K)(m := None)"
  using run_RELEASE_SLOT [OF assms, of m] by (auto simp: release_slot_def run_simps)

theorem slots_lease_table:
  assumes sv: "redis_server sv view" and ttl: "0 < pc_slot_ttl cfg"
  shows "lease_table (\<lambda>s. slot_invar (slot_key d t) (view s)) (\<lambda>s. slot_leases (slot_key d t) (view s))
    (\<lambda>s. ks_now (view s)) (pc_slot_ttl cfg * 1000) (slot_ops sv cfg d t)"
proof -
  let ?k = "slot_key d t"
  note sim = redis_server.run_result [OF sv] redis_server.run_state [OF sv]
  have acq: "fst (lo_acquire (slot_ops sv cfg d t) c m s) \<longleftrightarrow> card (dom (slot_leases ?k (view s))) < c"
    "slot_invar ?k (view (snd (lo_acquire (slot_ops sv cfg d t) c m s)))"
    "ks_now (view (snd (lo_acquire (slot_ops sv cfg d t) c m s))) = ks_now (view s)"
    "slot_leases ?k (view (snd (lo_acquire (slot_ops sv cfg d t) c m s))) =
      (if card (dom (slot_leases ?k (view s))) < c
       then (slot_leases ?k (view s))(m \<mapsto> ks_now (view s) + pc_slot_ttl cfg * 1000) else slot_leases ?k (view s))"
    if "slot_invar ?k (view s)" for c m s
    using run_acquire_slot [OF that ttl, of "int c" m]
      sim [of "acquire_slot cfg d t (Some (int c)) m" "[]" s]
    by (auto simp: slot_ops_def case_prod_beta split: if_splits)
  have ref: "fst (lo_refresh (slot_ops sv cfg d t) m s) \<longleftrightarrow> slot_leases ?k (view s) m \<noteq> None"
    "slot_invar ?k (view (snd (lo_refresh (slot_ops sv cfg d t) m s)))"
    "ks_now (view (snd (lo_refresh (slot_ops sv cfg d t) m s))) = ks_now (view s)"
    "slot_leases ?k (view (snd (lo_refresh (slot_ops sv cfg d t) m s))) =
      (if slot_leases ?k (view s) m \<noteq> None
       then (slot_leases ?k (view s))(m \<mapsto> ks_now (view s) + pc_slot_ttl cfg * 1000) else slot_leases ?k (view s))"
    if "slot_invar ?k (view s)" for m s
    using run_refresh_slot [OF that ttl, of m] sim [of "refresh_slot cfg d t m" "[]" s]
    by (auto simp: slot_ops_def case_prod_beta)
  have rel: "slot_invar ?k (view (lo_release (slot_ops sv cfg d t) m s))"
    "ks_now (view (lo_release (slot_ops sv cfg d t) m s)) = ks_now (view s)"
    "slot_leases ?k (view (lo_release (slot_ops sv cfg d t) m s)) = (slot_leases ?k (view s))(m := None)"
    if "slot_invar ?k (view s)" for m s
    using run_release_slot [OF that, of m] sim(2) [of "release_slot d t m" "[]" s]
    by (auto simp: slot_ops_def)
  have pass: "view (lo_pass (slot_ops sv cfg d t) n s) = ks_wait n (view s)" for n s
    by (simp add: slot_ops_def redis_server.wait_state [OF sv])
  show ?thesis
  proof (unfold_locales, goal_cases)
    case (1 s)
    then obtain z where "zset_at (view s) ?k = Some z" "distinct (map fst z)" by (rule slot_invarE)
    from dom_slot_leases(1) [OF this] show ?case by simp
  next
    case (2 s m t)
    then show ?case by (auto simp: slot_leases_def split: option.splits if_splits)
  qed (auto simp: acq ref rel pass slot_wait)
qed

interpretation slots: lease_table "slot_invar (slot_key d t)" "slot_leases (slot_key d t)" ks_now
  "pc_slot_ttl politeness_defaults * 1000" "slot_ops mem_server politeness_defaults d t" for d t
  using slots_lease_table [OF mem.redis_server_axioms, of politeness_defaults d t]
  by (simp add: politeness_defaults_def)

subsection \<open>Properties of the slots\<close>

lemma fresh_slots: "slot_invar k empty_keyspace" "slot_leases k empty_keyspace = (\<lambda>_. None)"
  by (simp_all add: slot_invar_def slot_leases_def fun_eq_iff)

text \<open>
  \<^bold>\<open>C17\<close>. Politeness holds for every history. Whatever calls workers make in whatever order, with
  whatever pauses, on any server that behaves as Redis documents, the live slots of a tenant on a
  domain never outnumber the highest cap any of the acquisitions asked for.
\<close>

theorem slots_never_exceed:
  assumes "redis_server sv view" "0 < pc_slot_ttl cfg" "slot_invar (slot_key d t) (view s)"
    and "card (dom (slot_leases (slot_key d t) (view s))) \<le> c"
    and "\<And>c' m. Acquire c' m \<in> set ops \<Longrightarrow> c' \<le> c"
  shows "card (dom (slot_leases (slot_key d t) (view (lease_run (slot_ops sv cfg d t) ops s)))) \<le> c"
  using lease_table.lease_run_card [OF slots_lease_table [OF assms(1,2)], OF assms(3-5)] .

theorem slots_never_exceed_witness:
  "card (dom (slot_leases (slot_key ''a.com'' ''acme'') (lease_run (slot_ops mem_server politeness_defaults ''a.com'' ''acme'')
     [Acquire 2 ''w1'', Pass 5, Acquire 2 ''w2'', Acquire 1 ''w3'', Pass 119990, Acquire 2 ''w4''] empty_keyspace))) \<le> 2"
  by (rule slots_never_exceed [where view = "\<lambda>K. K", OF mem.redis_server_axioms])
    (auto simp: politeness_defaults_def fresh_slots)

text \<open>
  The deadman's switch. A slot whose holder neither refreshes nor acquires again is gone
  once its own expiry has passed, however busy the domain is kept by other workers.
\<close>

theorem slot_deadman:
  assumes "redis_server sv view" "0 < pc_slot_ttl cfg" "slot_invar (slot_key d t) (view s)"
    and "slot_leases (slot_key d t) (view s) m = Some x"
    and "\<And>c. Acquire c m \<notin> set ops" "Refresh m \<notin> set ops"
    and "x \<le> ks_now (view (lease_run (slot_ops sv cfg d t) ops s))"
  shows "slot_leases (slot_key d t) (view (lease_run (slot_ops sv cfg d t) ops s)) m = None"
  using lease_table.lease_run_deadman [OF slots_lease_table [OF assms(1,2)], OF assms(3,5,6,4,7)] .

lemma pass_clock:
  assumes "redis_server sv view"
  shows "ks_now (view (lease_step (slot_ops sv cfg d t) (Pass n) s)) = ks_now (view s) + int n"
  by (simp add: slot_ops_def redis_server.wait_state [OF assms])

lemma one_slot:
  "\<exists>K. slot_invar (slot_key d t) K \<and> ks_now K = 0 \<and> slot_leases (slot_key d t) K = [m \<mapsto> 120000] \<and>
    K = snd (run mem_server (acquire_slot politeness_defaults d t None m) [] empty_keyspace)"
  using run_acquire_slot [OF fresh_slots(1), of politeness_defaults d t 2 m]
  by (auto simp: politeness_defaults_def fresh_slots acquire_slot_def)

theorem slot_deadman_witness:
  "\<exists>K. slot_leases (slot_key ''a.com'' ''acme'') K ''w1'' = Some 120000 \<and>
    slot_leases (slot_key ''a.com'' ''acme'') (lease_run (slot_ops mem_server politeness_defaults ''a.com'' ''acme'')
      [Pass 120000] K) ''w1'' = None"
proof -
  obtain K where K: "slot_invar (slot_key ''a.com'' ''acme'') K" "ks_now K = 0"
    "slot_leases (slot_key ''a.com'' ''acme'') K = [''w1'' \<mapsto> 120000]"
    using one_slot by blast
  have "slot_leases (slot_key ''a.com'' ''acme'') (lease_run (slot_ops mem_server politeness_defaults ''a.com'' ''acme'')
      [Pass 120000] K) ''w1'' = None"
    by (rule slot_deadman [where view = "\<lambda>K. K" and x = 120000, OF mem.redis_server_axioms])
      (simp_all add: politeness_defaults_def K lease_run_def slot_ops_def)
  with K(3) show ?thesis by (intro exI [of _ K]) simp
qed

text \<open>The beats of \<open>held_slot\<close>: a refresh per interval, or none when it was lost or failed.\<close>

fun beats :: "nat \<Rightarrow> string \<Rightarrow> bool list \<Rightarrow> lease_op list" where
  "beats iv m [] = []"
| "beats iv m (ok # oks) = Pass iv # (if ok then [Refresh m] else []) @ beats iv m oks"

fun no_double_miss :: "bool list \<Rightarrow> bool" where
  "no_double_miss (False # False # oks) = False"
| "no_double_miss (ok # oks) = no_double_miss oks"
| "no_double_miss [] = True"

lemma beats_kept:
  assumes "0 < iv" "no_double_miss oks"
  shows "kept_alive (3 * int iv) m (3 * int iv) (beats iv m oks)"
    "oks = [] \<or> hd oks \<Longrightarrow> kept_alive (3 * int iv) m (2 * int iv) (beats iv m oks)"
  using assms(2) by (induction oks rule: no_double_miss.induct) (use assms(1) in auto)

text \<open>
  What the heartbeat guarantees. With beats every third of the TTL, a holder none of whose
  two consecutive refreshes are lost still holds its slot after any number of beats; after two
  consecutive losses the third refresh comes at the instant the slot expires and finds it gone.
\<close>

theorem slot_heartbeat:
  assumes "redis_server sv view" "0 < iv" "pc_slot_ttl cfg * 1000 = 3 * int iv"
    and "slot_invar (slot_key d t) (view s)"
    and "slot_leases (slot_key d t) (view s) m = Some (ks_now (view s) + 3 * int iv)"
  shows "(no_double_miss oks \<longrightarrow>
      slot_leases (slot_key d t) (view (lease_run (slot_ops sv cfg d t) (beats iv m oks) s)) m \<noteq> None) \<and>
    slot_leases (slot_key d t) (view (lease_run (slot_ops sv cfg d t) (beats iv m [False, False, True]) s)) m = None"
proof -
  have ttl: "0 < pc_slot_ttl cfg" using assms(2,3) by linarith
  note lt = slots_lease_table [OF assms(1) ttl, of d t]
  have kept: "slot_leases (slot_key d t) (view (lease_run (slot_ops sv cfg d t) (beats iv m oks) s)) m \<noteq> None"
    if "no_double_miss oks"
    using lease_table.lease_run_kept [OF lt assms(4,5)] beats_kept(1) [OF assms(2) that] by (simp add: assms(3))
  define s3 where "s3 = lease_run (slot_ops sv cfg d t) [Pass iv, Pass iv, Pass iv] s"
  have inv: "slot_invar (slot_key d t) (view s3)"
    using lease_table.lease_run_invar [OF lt assms(4)] by (simp add: s3_def)
  have gone: "slot_leases (slot_key d t) (view s3) m = None"
    unfolding s3_def
    by (rule slot_deadman [OF assms(1) ttl assms(4,5)]) (simp_all add: lease_run_def pass_clock [OF assms(1), simplified])
  have run: "lease_run (slot_ops sv cfg d t) (beats iv m [False, False, True]) s =
      snd (lo_refresh (slot_ops sv cfg d t) m s3)"
    by (simp add: s3_def lease_run_def)
  have "slot_leases (slot_key d t) (view (lease_run (slot_ops sv cfg d t) (beats iv m [False, False, True]) s)) m = None"
    unfolding run
    using lease_table.leases_refresh [OF lt inv, of m] lease_table.refresh_iff [OF lt inv, of m] gone
    by simp
  with kept show ?thesis by blast
qed

theorem slot_heartbeat_witness:
  "\<exists>K. slot_leases (slot_key ''a.com'' ''acme'') (lease_run (slot_ops mem_server politeness_defaults ''a.com'' ''acme'')
      (beats 40000 ''w1'' [True, False, True, True, False]) K) ''w1'' \<noteq> None \<and>
    slot_leases (slot_key ''a.com'' ''acme'') (lease_run (slot_ops mem_server politeness_defaults ''a.com'' ''acme'')
      (beats 40000 ''w1'' [False, False, True]) K) ''w1'' = None"
proof -
  obtain K where K: "slot_invar (slot_key ''a.com'' ''acme'') K" "ks_now K = 0"
    "slot_leases (slot_key ''a.com'' ''acme'') K = [''w1'' \<mapsto> 120000]"
    using one_slot by blast
  note hb = slot_heartbeat [where view = "\<lambda>K. K" and iv = 40000 and cfg = politeness_defaults and s = K and m = "''w1''",
      OF mem.redis_server_axioms _ _ K(1)]
  show ?thesis
    using hb [of "[True, False, True, True, False]"] K(2,3)
    by (intro exI [of _ K]) (simp add: politeness_defaults_def del: beats.simps)
qed

subsection \<open>Reserved instants\<close>

text \<open>
  Workers that reserve one after the other, each so long after the one before: the instant each
  is told to fetch at, and how long it was told to wait.
\<close>

fun reserve_instants :: "'s server \<Rightarrow> ('s \<Rightarrow> int) \<Rightarrow> int prog \<Rightarrow> nat list \<Rightarrow> 's \<Rightarrow> (int \<times> int) list" where
  "reserve_instants sv clk p [] s = []"
| "reserve_instants sv clk p (d # ds) s =
     (let s1 = srv_wait sv d s in
      case run sv p [] s1 of
        (Inr w, s2) \<Rightarrow> (clk s1 + w, w) # reserve_instants sv clk p ds s2
      | (Inl e, s2) \<Rightarrow> [])"

abbreviation reservation :: "politeness_config \<Rightarrow> string \<Rightarrow> string \<Rightarrow> int \<Rightarrow> int prog" where
  "reservation cfg d t delay_ms \<equiv> wait_if_needed cfg d t (Some (of_int delay_ms / 1000))"

lemma reserve_instants_sim:
  assumes "redis_server sv view"
  shows "reserve_instants sv (\<lambda>s. ks_now (view s)) p ds s = reserve_instants mem_server ks_now p ds (view s)"
proof (induction ds arbitrary: s)
  case (Cons d ds)
  obtain r s2 where r: "run sv p [] (srv_wait sv d s) = (r, s2)" by fastforce
  with redis_server.run_sim [OF assms, of p "[]" "srv_wait sv d s"]
  have "run mem_server p [] (ks_wait d (view s)) = (r, view s2)"
    by (metis fst_conv prod.collapse redis_server.wait_state [OF assms] snd_conv)
  with r Cons show ?case
    by (auto simp: Let_def redis_server.wait_state [OF assms] split: sum.splits)
qed simp

lemma delay_ttl_pos: "60 \<le> delay_ttl_seconds D"
  by (simp add: delay_ttl_seconds_def)

lemma run_reservation:
  assumes "0 < D" "0 \<le> ks_now K" "str_at K (delay_key d t) = Some (map_option RInt v)"
  defines "nx \<equiv> (case v of None \<Rightarrow> ks_now K | Some n \<Rightarrow> max n (ks_now K))"
  shows "run mem_server (reservation cfg d t D) [] K =
    (Inr (nx - ks_now K), put_str (delay_key d t) (RInt (nx + D)) (Some (ks_now K + delay_ttl_seconds D * 1000)) K)"
proof -
  have nx: "ks_now K \<le> nx" by (auto simp: nx_def split: option.splits)
  have stored: "(if v' < of_int (ks_now K) then of_int (ks_now K) else v') = (of_int nx :: rat)"
    if "v' = (case v of None \<Rightarrow> 0 | Some n \<Rightarrow> of_int n)" for v'
    using assms(2) that by (auto simp: nx_def max_def split: option.splits)
  have get: "fst (redis_exec (GET (delay_key d t)) K) \<noteq> RErr"
    "lua_tonumber (fst (redis_exec (GET (delay_key d t)) K)) = Some (case v of None \<Rightarrow> 0 | Some n \<Rightarrow> of_int n)"
    "snd (redis_exec (GET (delay_key d t)) K) = K"
    using assms(3) by (auto simp: lua_tonumber_def as_num_def split: option.splits)
  have int: "of_int nx + of_int D = (of_int (nx + D) :: rat)" "of_int nx - of_int (ks_now K) = (of_int (nx - ks_now K) :: rat)"
    by simp_all
  have "run_lua redis_exec (RESERVE_DELAY_LUA (delay_key d t) D (delay_ttl_seconds D)) K =
      (RInteger (nx - ks_now K), put_str (delay_key d t) (RInt (nx + D)) (Some (ks_now K + delay_ttl_seconds D * 1000)) K)"
    using nx delay_ttl_pos [of D]
    by (simp add: RESERVE_DELAY_LUA_def run_simps get stored [OF refl] int Let_def lua_tostring_def lua_reply_def
        del: run_lua.simps(2) redis_exec.simps(1) of_int_add of_int_diff)
  with assms(1) nx show ?thesis by (simp add: wait_if_needed_def run_simps)
qed







lemma reserve_burst:
  assumes "0 < D" "0 \<le> ks_now K" "str_at K (delay_key d t) = Some (map_option RInt v)"
    and "v = None \<and> j = 0 \<or> v = Some (ks_now K + int j * D)"
    and "j = 0 \<or> deadline K (delay_key d t) = Some (ks_now K + delay_ttl_seconds D * 1000)"
    and "delay_ttl_seconds D * 1000 < int p" "0 < j + n"
  shows "reserve_instants mem_server ks_now (reservation cfg d t D) (replicate n 0 @ [p]) K =
    map (\<lambda>i. (ks_now K + int (i + j) * D, int (i + j) * D)) [0..<n] @ [(ks_now K + int p, 0)]"
  using assms(2-)
proof (induction n arbitrary: K v j)
  case 0
  then have "str_at (ks_wait p K) (delay_key d t) = Some (map_option RInt None)"
    by (auto simp: str_at_def deadline_def live_def alive_def split: option.splits)
  from run_reservation [OF assms(1) _ this] 0(1) show ?case by (simp add: Let_def)
next
  case (Suc n)
  let ?k = "delay_key d t" and ?ttl = "delay_ttl_seconds D * 1000"
  define K' where "K' = put_str ?k (RInt (ks_now K + int (Suc j) * D)) (Some (ks_now K + ?ttl)) K"
  have "(case v of None \<Rightarrow> ks_now K | Some n \<Rightarrow> max n (ks_now K)) = ks_now K + int j * D"
    using Suc.prems(3) assms(1) by auto
  with run_reservation [OF assms(1) Suc.prems(1,2), of cfg]
  have run: "run mem_server (reservation cfg d t D) [] K = (Inr (int j * D), K')"
    by (simp add: K'_def algebra_simps)
  have K': "ks_now K' = ks_now K" "str_at K' ?k = Some (map_option RInt (Some (ks_now K + int (Suc j) * D)))"
    "deadline K' ?k = Some (ks_now K + ?ttl)"
    using delay_ttl_pos [of D] by (simp_all add: K'_def keyspace_simps deadline_def)
  have "reserve_instants mem_server ks_now (reservation cfg d t D) (replicate n 0 @ [p]) K' =
      map (\<lambda>i. (ks_now K + int (i + Suc j) * D, int (i + Suc j) * D)) [0..<n] @ [(ks_now K + int p, 0)]"
    using Suc.IH [of K' "Some (ks_now K + int (Suc j) * D)" "Suc j"] K' Suc.prems(1,5) by simp
  then show ?case using run by (simp add: Let_def map_upt_Suc algebra_simps del: upt_Suc)
qed

text \<open>
  A long burst outlives its key. After \<open>n\<close> simultaneous reservations the instants run
  \<open>n - 1\<close> delays into the future but the key expires \<open>max(60, 4 * delay)\<close> seconds after the last of
  them, so a worker that comes later than that is sent at once: with the default delay of 5
  seconds, after a burst of 14 one that arrives 60.001 seconds later fetches 4.999 seconds before
  an instant already handed out (the comment says the TTL outlives one full reservation queue).
\<close>

theorem delay_queue_overrun:
  assumes "redis_server sv view" "0 < D" "0 \<le> ks_now (view s)" "0 < n"
    and "str_at (view s) (delay_key d t) = Some None" "delay_ttl_seconds D * 1000 < int p"
  shows "reserve_instants sv (\<lambda>s. ks_now (view s)) (reservation cfg d t D) (replicate n 0 @ [p]) s =
    map (\<lambda>i. (ks_now (view s) + int i * D, int i * D)) [0..<n] @ [(ks_now (view s) + int p, 0)]"
  unfolding reserve_instants_sim [OF assms(1)]
  using reserve_burst [OF assms(2,3), of d t None 0 p n cfg] assms(4-6) by simp

theorem delay_queue_overrun_witness:
  "last (butlast (map fst (reserve_instants mem_server ks_now (reservation politeness_defaults ''a.com'' ''acme'' 5000)
     (replicate 14 0 @ [60001]) empty_keyspace))) = 65000 \<and>
   last (map fst (reserve_instants mem_server ks_now (reservation politeness_defaults ''a.com'' ''acme'' 5000)
     (replicate 14 0 @ [60001]) empty_keyspace)) = 60001"
  using delay_queue_overrun [where view = "\<lambda>K. K" and D = 5000 and s = empty_keyspace and n = 14 and p = 60001,
      OF mem.redis_server_axioms, of "''a.com''" "''acme''" politeness_defaults]
  by (simp add: delay_ttl_seconds_def last_map del: reserve_instants.simps)


end
