(* ===== verification/Host_Capacity.thy ===== *)
theory Host_Capacity
  imports Politeness
begin

text \<open>
  \<^verbatim>\<open>src/src/scraper_engine/orchestrator/host_capacity.py\<close>: one browser budget per host. The claim
  script grants a seat, the website's politeness slot and its delay together or not at all; the
  other scripts renew, release and report. The waiting loop, the lease bracket and the keeper of
  parked browsers' seats are client programs over them.

  \<open>claim_walk\<close> is the script's own loop; \<open>admit\<close> is the same decision as a pure function of what
  the script read, the abstract scheduler the properties are about. The refinement between the
  two is in \<^verbatim>\<open>Host_Capacity_Refinement\<close>.
\<close>

subsection \<open>Configuration (\<^verbatim>\<open>config/schema.py\<close>)\<close>

record host_capacity_config =
  hc_min_units :: rat
  hc_max_units :: "rat option"
  hc_default_units :: "rat option"
  hc_idle_grace_seconds :: rat
  hc_idle_seat_seconds :: rat
  hc_tenant_share :: rat
  hc_lease_ttl_seconds :: int
  hc_renew_interval_seconds :: int
  hc_max_hold_seconds :: int
  hc_waiter_ttl_seconds :: int
  hc_poll_min_seconds :: rat
  hc_poll_max_seconds :: rat
  hc_cancel_check_interval_seconds :: rat
  hc_controller_interval_seconds :: int
  hc_cpu_pressure_low :: rat
  hc_cpu_pressure_high :: rat
  hc_raise_step_fraction :: rat
  hc_mem_available_floor_mb :: int
  hc_browser_memory_mb :: int
  hc_min_browser_memory_mb :: int
  hc_raise_dwell_seconds :: int
  hc_cut_dwell_seconds :: int
  hc_cut_factor :: rat
  hc_target_ttl_seconds :: int

definition host_capacity_defaults :: host_capacity_config where
  "host_capacity_defaults = \<lparr>
     hc_min_units = 1, hc_max_units = None, hc_default_units = None,
     hc_idle_grace_seconds = 2, hc_idle_seat_seconds = 45, hc_tenant_share = 6 / 10,
     hc_lease_ttl_seconds = 90, hc_renew_interval_seconds = 20, hc_max_hold_seconds = 900,
     hc_waiter_ttl_seconds = 10, hc_poll_min_seconds = 1 / 2, hc_poll_max_seconds = 1,
     hc_cancel_check_interval_seconds = 10, hc_controller_interval_seconds = 5,
     hc_cpu_pressure_low = 40, hc_cpu_pressure_high = 90, hc_raise_step_fraction = 1 / 4,
     hc_mem_available_floor_mb = 1536, hc_browser_memory_mb = 1200, hc_min_browser_memory_mb = 400,
     hc_raise_dwell_seconds = 10, hc_cut_dwell_seconds = 15, hc_cut_factor = 7 / 10,
     hc_target_ttl_seconds = 120\<rparr>"

subsection \<open>Keys and waiter data\<close>

definition HOST_KEY_TTL_MS :: int where
  "HOST_KEY_TTL_MS = 3600000"

definition WAIT_BUCKETS_MS :: "int list" where
  "WAIT_BUCKETS_MS = [1000, 5000, 30000, 120000, 600000]"

definition wait_bucket :: "int \<Rightarrow> string" where
  "wait_bucket wait_ms =
     (case dropWhile (\<lambda>edge. edge < wait_ms) WAIT_BUCKETS_MS of
        edge # _ \<Rightarrow> py_str_int edge | [] \<Rightarrow> ''inf'')"

record host_keys =
  hk_seats :: string
  hk_seat_weight :: string
  hk_seat_tenant :: string
  hk_waiters :: string
  hk_waiter_exp :: string
  hk_waiter_info :: string
  hk_target :: string
  hk_stats :: string
  hk_browser_rss :: string

definition host_keys_of :: "string \<Rightarrow> host_keys" where
  "host_keys_of host_id = (let prefix = ''hc:'' @ host_id in \<lparr>
     hk_seats = prefix @ '':seats'', hk_seat_weight = prefix @ '':seat_weight'',
     hk_seat_tenant = prefix @ '':seat_tenant'', hk_waiters = prefix @ '':waiters'',
     hk_waiter_exp = prefix @ '':waiter_exp'', hk_waiter_info = prefix @ '':waiter_info'',
     hk_target = prefix @ '':target'', hk_stats = prefix @ '':stats'',
     hk_browser_rss = prefix @ '':browser_rss''\<rparr>)"

record waiter_info =
  wi_tenant :: string
  wi_slot_key :: string
  wi_delay_key :: string
  wi_cap :: int
  wi_delay_ms :: int
  wi_weight :: rat

text \<open>\<open>json.dumps\<close> in the worker, \<open>cjson.decode\<close> in the script.\<close>

definition info_dumps :: "waiter_info \<Rightarrow> rstr" where
  "info_dumps i = RJson (JObj [(''tenant'', JStr (wi_tenant i)), (''slot_key'', JStr (wi_slot_key i)),
     (''delay_key'', JStr (wi_delay_key i)), (''cap'', JInt (wi_cap i)),
     (''delay_ms'', JInt (wi_delay_ms i)), (''weight'', JNum (wi_weight i))])"

definition info_decode :: "rstr \<Rightarrow> waiter_info option" where
  "info_decode raw = (case raw of
     RJson (JObj fs) \<Rightarrow>
       (case (map_of fs ''tenant'', map_of fs ''slot_key'', map_of fs ''delay_key'',
              map_of fs ''cap'', map_of fs ''delay_ms'', map_of fs ''weight'') of
          (Some (JStr t), Some (JStr sk), Some (JStr dk), Some (JInt c), Some (JInt d), Some (JNum w)) \<Rightarrow>
            Some \<lparr>wi_tenant = t, wi_slot_key = sk, wi_delay_key = dk, wi_cap = c, wi_delay_ms = d, wi_weight = w\<rparr>
        | _ \<Rightarrow> None)
   | _ \<Rightarrow> None)"

lemma info_decode_dumps [simp]: "info_decode (info_dumps i) = Some i"
  by (simp add: info_decode_def info_dumps_def)

subsection \<open>The claim script\<close>

record claim_args =
  ca_me :: string
  ca_prio :: int
  ca_info :: rstr
  ca_lease :: string
  ca_lease_ttl :: int
  ca_waiter_ttl :: int
  ca_default_target :: rat
  ca_share :: rat
  ca_keep :: int
  ca_wait_ms :: int
  ca_wait_bucket :: string

definition reply_members :: "reply \<Rightarrow> string list" where
  "reply_members r = (case r of RMembers xs \<Rightarrow> xs | _ \<Rightarrow> [])"

definition reply_pairs :: "reply \<Rightarrow> (string \<times> rstr) list" where
  "reply_pairs r = (case r of RPairs xs \<Rightarrow> xs | _ \<Rightarrow> [])"

text \<open>Dropping lapsed seats and waiters.\<close>

primrec drop_seats :: "host_keys \<Rightarrow> string list \<Rightarrow> lua \<Rightarrow> lua" where
  "drop_seats ks [] k = k"
| "drop_seats ks (l # ls) k =
     LCall (ZREM (hk_seats ks) l) (\<lambda>_. LCall (HDEL (hk_seat_weight ks) l) (\<lambda>_.
       LCall (HDEL (hk_seat_tenant ks) l) (\<lambda>_. drop_seats ks ls k)))"

primrec drop_waiters :: "host_keys \<Rightarrow> string list \<Rightarrow> lua \<Rightarrow> lua" where
  "drop_waiters ks [] k = k"
| "drop_waiters ks (w # ws) k =
     LCall (ZREM (hk_waiter_exp ks) w) (\<lambda>_. LCall (ZREM (hk_waiters ks) w) (\<lambda>_.
       LCall (HDEL (hk_waiter_info ks) w) (\<lambda>_. drop_waiters ks ws k)))"

text \<open>Adding up the held seats, in all and per tenant.\<close>

type_synonym tenant_use = "rstr \<Rightarrow> rat"

definition tu_add :: "rstr \<Rightarrow> rat \<Rightarrow> tenant_use \<Rightarrow> tenant_use" where
  "tu_add tn w tu = tu(tn := tu tn + w)"

primrec sum_held ::
  "host_keys \<Rightarrow> (string \<times> rstr) list \<Rightarrow> rat \<Rightarrow> tenant_use \<Rightarrow> (rat \<Rightarrow> tenant_use \<Rightarrow> lua) \<Rightarrow> lua" where
  "sum_held ks [] in_use tu k = k in_use tu"
| "sum_held ks (h # held) in_use tu k =
     (case as_num (Some (snd h)) of
        None \<Rightarrow> LRet RErr
      | Some w \<Rightarrow> LCall (HGET (hk_seat_tenant ks) (fst h)) (\<lambda>r.
          let tn = (case r of RBulk v \<Rightarrow> v | _ \<Rightarrow> RText []) in
          sum_held ks held (in_use + w) (tu_add tn w tu) k))"

text \<open>The waiters in line that have their data stored.\<close>

primrec read_infos ::
  "host_keys \<Rightarrow> string list \<Rightarrow> (string \<times> waiter_info) list \<Rightarrow> ((string \<times> waiter_info) list \<Rightarrow> lua) \<Rightarrow> lua" where
  "read_infos ks [] infos k = k infos"
| "read_infos ks (w # line) infos k =
     LCall (HGET (hk_waiter_info ks) w) (\<lambda>r. case r of
       RBulk raw \<Rightarrow> (case info_decode raw of
           None \<Rightarrow> LRet RErr | Some i \<Rightarrow> read_infos ks line (infos @ [(w, i)]) k)
     | _ \<Rightarrow> read_infos ks line infos k)"

definition n_tenants :: "(string \<times> waiter_info) list \<Rightarrow> nat" where
  "n_tenants infos = card (set (map (\<lambda>(w, i). wi_tenant i) infos))"

definition share_cap :: "rat \<Rightarrow> rat \<Rightarrow> rat" where
  "share_cap target share = max 1 (of_int \<lceil>target * share\<rceil>)"

text \<open>The memo tables of the loop: live slots of a website and its next allowed instant.\<close>

definition lua_slots :: "int \<Rightarrow> string \<Rightarrow> (string \<times> int) list \<Rightarrow> (int \<Rightarrow> (string \<times> int) list \<Rightarrow> lua) \<Rightarrow> lua" where
  "lua_slots now k slot_count cont =
     (case map_of slot_count k of
        Some n \<Rightarrow> cont n slot_count
      | None \<Rightarrow> LCall (ZCOUNT_above k now) (\<lambda>r. case r of
          RInteger n \<Rightarrow> cont n (alist_put k n slot_count) | _ \<Rightarrow> LRet RErr))"

definition lua_nxt :: "string \<Rightarrow> (string \<times> rat) list \<Rightarrow> (rat \<Rightarrow> (string \<times> rat) list \<Rightarrow> lua) \<Rightarrow> lua" where
  "lua_nxt k next_at cont =
     (case map_of next_at k of
        Some x \<Rightarrow> cont x next_at
      | None \<Rightarrow> LCall (GET k) (\<lambda>r.
          let x = (case lua_tonumber r of Some q \<Rightarrow> q | None \<Rightarrow> 0) in
          cont x (alist_put k x next_at)))"

record claim_ctx =
  cc_now :: int
  cc_target :: rat
  cc_share_cap :: rat
  cc_tenants :: nat
  cc_in_use :: rat
  cc_line :: nat

text \<open>Room in the budget, and within the tenant's share while another tenant waits.\<close>

definition fits :: "claim_ctx \<Rightarrow> rat \<Rightarrow> tenant_use \<Rightarrow> waiter_info \<Rightarrow> bool" where
  "fits c sim_use tu i \<longleftrightarrow>
     \<not> (0 < sim_use \<and> cc_target c < sim_use + wi_weight i) \<and>
     \<not> (1 < cc_tenants c \<and> 0 < tu (RText (wi_tenant i)) \<and>
        cc_share_cap c < tu (RText (wi_tenant i)) + wi_weight i)"

definition refusal :: "claim_ctx \<Rightarrow> reply" where
  "refusal c = RStrings [RInt 0, lua_tostring (cc_in_use c), lua_tostring (cc_target c), RInt (int (cc_line c))]"

primrec extend_all :: "string list \<Rightarrow> int \<Rightarrow> lua \<Rightarrow> lua" where
  "extend_all [] ms k = k"
| "extend_all (key # keys) ms k = extend_ttl key ms (extend_all keys ms k)"

definition grant_seat :: "host_keys \<Rightarrow> claim_args \<Rightarrow> claim_ctx \<Rightarrow> waiter_info \<Rightarrow> lua" where
  "grant_seat ks a c i =
     (let now = cc_now c; finish =
        LCall (ZREM (hk_waiters ks) (ca_me a)) (\<lambda>_.
        LCall (ZREM (hk_waiter_exp ks) (ca_me a)) (\<lambda>_.
        LCall (HDEL (hk_waiter_info ks) (ca_me a)) (\<lambda>_.
        LCall (HINCRBY (hk_stats ks) ''granted'' 1) (\<lambda>_.
        LCall (HINCRBY (hk_stats ks) ''wait_ms_sum'' (ca_wait_ms a)) (\<lambda>_.
        LCall (HINCRBY (hk_stats ks) (''wait_le_'' @ ca_wait_bucket a) 1) (\<lambda>_.
        extend_all [hk_seats ks, hk_seat_weight ks, hk_seat_tenant ks, hk_waiters ks, hk_waiter_exp ks,
            hk_waiter_info ks, hk_stats ks] (ca_keep a)
          (LRet (RStrings [RInt 1, lua_tostring (cc_in_use c + wi_weight i), lua_tostring (cc_target c),
             RInt (int (cc_line c) - 1)]))))))))
      in
      LCall (ZADD (hk_seats ks) ZPlain (now + ca_lease_ttl a) (ca_lease a)) (\<lambda>_.
      LCall (HSET (hk_seat_weight ks) (ca_lease a) (lua_tostring (wi_weight i))) (\<lambda>_.
      LCall (HSET (hk_seat_tenant ks) (ca_lease a) (RText (wi_tenant i))) (\<lambda>_.
      LCall (ZADD (wi_slot_key i) ZPlain (now + ca_lease_ttl a) (ca_lease a)) (\<lambda>_.
      extend_ttl (wi_slot_key i) (ca_lease_ttl a)
        (if 0 < wi_delay_ms i
         then LCall (SET (wi_delay_key i) (RInt (now + wi_delay_ms i))
             (Some (max 60000 (wi_delay_ms i * 4))) False) (\<lambda>_. finish)
         else finish))))))"

text \<open>The walk along the line: older waiters that could claim now are charged before the caller.\<close>

primrec claim_walk ::
  "host_keys \<Rightarrow> claim_args \<Rightarrow> claim_ctx \<Rightarrow> (string \<times> waiter_info) list \<Rightarrow> rat \<Rightarrow> tenant_use \<Rightarrow>
   (string \<times> int) list \<Rightarrow> (string \<times> rat) list \<Rightarrow> lua" where
  "claim_walk ks a c [] sim_use tu slot_count next_at =
     extend_all [hk_waiters ks, hk_waiter_exp ks, hk_waiter_info ks] (ca_keep a) (LRet (refusal c))"
| "claim_walk ks a c (x # line) sim_use tu slot_count next_at =
     (let i = snd x in
      lua_slots (cc_now c) (wi_slot_key i) slot_count (\<lambda>n slot_count'.
        let decide = (\<lambda>free next_at'.
          let ok = free \<and> fits c sim_use tu i in
          if fst x = ca_me a then (if \<not> ok then LRet (refusal c) else grant_seat ks a c i)
          else if ok then
            claim_walk ks a c line (sim_use + wi_weight i) (tu_add (RText (wi_tenant i)) (wi_weight i) tu)
              (alist_put (wi_slot_key i) (n + 1) slot_count')
              (if 0 < wi_delay_ms i
               then alist_put (wi_delay_key i) (of_int (cc_now c + wi_delay_ms i)) next_at' else next_at')
          else claim_walk ks a c line sim_use tu slot_count' next_at')
        in if n < wi_cap i
           then lua_nxt (wi_delay_key i) next_at (\<lambda>x next_at'. decide (x \<le> of_int (cc_now c)) next_at')
           else decide False next_at))"

definition CLAIM_LUA :: "host_keys \<Rightarrow> claim_args \<Rightarrow> lua" where
  "CLAIM_LUA ks a = with_now_ms (\<lambda>now.
     LCall (ZRANGE_upto (hk_seats ks) now) (\<lambda>dead. drop_seats ks (reply_members dead)
     (LCall (ZRANGE_upto (hk_waiter_exp ks) now) (\<lambda>gone. drop_waiters ks (reply_members gone)
     (LCall (ZADD (hk_waiters ks) ZNX (ca_prio a) (ca_me a)) (\<lambda>_.
      LCall (ZADD (hk_waiter_exp ks) ZPlain (now + ca_waiter_ttl a) (ca_me a)) (\<lambda>_.
      LCall (HSET (hk_waiter_info ks) (ca_me a) (ca_info a)) (\<lambda>_.
      LCall (HGETALL (hk_seat_weight ks)) (\<lambda>held. sum_held ks (reply_pairs held) 0 (\<lambda>_. 0) (\<lambda>in_use tu.
      LCall (GET (hk_target ks)) (\<lambda>raw.
        let target = (case raw of RBulk v \<Rightarrow> (case as_num (Some v) of Some q \<Rightarrow> q | None \<Rightarrow> ca_default_target a)
                      | _ \<Rightarrow> ca_default_target a) in
      LCall (ZRANGE (hk_waiters ks)) (\<lambda>ln. let line = reply_members ln in
      read_infos ks line [] (\<lambda>infos.
        claim_walk ks a \<lparr>cc_now = now, cc_target = target, cc_share_cap = share_cap target (ca_share a),
            cc_tenants = n_tenants infos, cc_in_use = in_use, cc_line = length line\<rparr>
          infos in_use tu [] [])))))))))))))"

subsection \<open>The other scripts\<close>

definition RENEW_LUA :: "string \<Rightarrow> string \<Rightarrow> string \<Rightarrow> int \<Rightarrow> int \<Rightarrow> lua" where
  "RENEW_LUA seats turn_key lease ttl keep = with_now_ms (\<lambda>now.
     LCall (ZSCORE seats lease) (\<lambda>r. case lua_tonumber r of
       None \<Rightarrow> LRet RErr
     | Some expires_at \<Rightarrow>
         if expires_at \<le> of_int now then LRet (RInteger 0)
         else LCall (ZADD seats ZXX (now + ttl) lease) (\<lambda>_. extend_ttl seats keep
           (LCall (ZSCORE turn_key lease) (\<lambda>s.
              if s = RNil then LRet (RInteger 1)
              else LCall (ZADD turn_key ZXX (now + ttl) lease) (\<lambda>_.
                extend_ttl turn_key ttl (LRet (RInteger 1))))))))"

definition RELEASE_LUA :: "host_keys \<Rightarrow> string \<Rightarrow> string \<Rightarrow> lua" where
  "RELEASE_LUA ks turn_key lease =
     LCall (ZREM (hk_seats ks) lease) (\<lambda>_. LCall (HDEL (hk_seat_weight ks) lease) (\<lambda>_.
     LCall (HDEL (hk_seat_tenant ks) lease) (\<lambda>_. LCall (ZREM turn_key lease) (\<lambda>_. LRet (RInteger 1)))))"

definition HC_RELEASE_SLOT_LUA :: "string \<Rightarrow> string \<Rightarrow> lua" where
  "HC_RELEASE_SLOT_LUA turn_key lease = LCall (ZREM turn_key lease) (\<lambda>_. LRet (RInteger 1))"

definition LEAVE_LUA :: "host_keys \<Rightarrow> string \<Rightarrow> lua" where
  "LEAVE_LUA ks waiter =
     LCall (ZREM (hk_waiters ks) waiter) (\<lambda>_. LCall (ZREM (hk_waiter_exp ks) waiter) (\<lambda>_.
     LCall (HDEL (hk_waiter_info ks) waiter) (\<lambda>_. LRet (RInteger 1))))"

primrec sum_weights :: "host_keys \<Rightarrow> string list \<Rightarrow> rat \<Rightarrow> (rat \<Rightarrow> lua) \<Rightarrow> lua" where
  "sum_weights ks [] in_use k = k in_use"
| "sum_weights ks (l # ls) in_use k =
     LCall (HGET (hk_seat_weight ks) l) (\<lambda>r.
       sum_weights ks ls (in_use + (case lua_tonumber r of Some w \<Rightarrow> w | None \<Rightarrow> 0)) k)"

definition STATUS_LUA :: "host_keys \<Rightarrow> rat \<Rightarrow> lua" where
  "STATUS_LUA ks default_target = with_now_ms (\<lambda>now.
     LCall (ZRANGE_above (hk_seats ks) now) (\<lambda>ls. sum_weights ks (reply_members ls) 0 (\<lambda>in_use.
     LCall (ZCOUNT_above (hk_waiter_exp ks) now) (\<lambda>n.
     LCall (GET (hk_target ks)) (\<lambda>raw.
       let target = (case raw of RBulk v \<Rightarrow> (case as_num (Some v) of Some q \<Rightarrow> q | None \<Rightarrow> default_target)
                     | _ \<Rightarrow> default_target);
           waiting = (case n of RInteger i \<Rightarrow> i | _ \<Rightarrow> 0) in
       LRet (RStrings [lua_tostring in_use, RInt waiting, lua_tostring target]))))))"

subsection \<open>The admission client\<close>

text \<open>\<open>_eval\<close>: any failure of the call is an \<open>AdmissionUnavailableError\<close>.\<close>

definition hc_eval :: "lua \<Rightarrow> (reply \<Rightarrow> 'a prog) \<Rightarrow> 'a prog" where
  "hc_eval script k = Eval script (\<lambda>r. case r of Inl e \<Rightarrow> Raise AdmissionUnavailableError | Inr v \<Rightarrow> k v)"

text \<open>
  \<open>reply[i]\<close>: an array has an item or raises \<open>IndexError\<close>; \<open>None\<close> and an integer cannot be indexed. A script of
  the program returns no text (\<open>claim_reply_shape\<close> for the one whose reply is indexed in a loop); the model
  raises for one.
\<close>

definition reply_item :: "reply \<Rightarrow> nat \<Rightarrow> rstr res" where
  "reply_item r i = (case r of
     RStrings xs \<Rightarrow> if i < length xs then Inr (xs ! i) else Inl IndexError
   | RMembers ms \<Rightarrow> if i < length ms then Inr (RText (ms ! i)) else Inl IndexError
   | RPairs fvs \<Rightarrow> (case concat (map (\<lambda>(f, v). [RText f, v]) fvs) of xs \<Rightarrow> if i < length xs then Inr (xs ! i) else Inl IndexError)
   | _ \<Rightarrow> Inl (OtherError ''TypeError''))"

record host_admission =
  ha_keys :: host_keys
  ha_cfg :: host_capacity_config
  ha_default_target :: rat

text \<open>\<open>cpu_count or os.cpu_count() or 1\<close>, \<open>default_units or float(cpus)\<close>.\<close>

definition host_admission_init :: "string \<Rightarrow> host_capacity_config \<Rightarrow> int option \<Rightarrow> int option \<Rightarrow> host_admission" where
  "host_admission_init host_id cfg cpu_count os_cpu_count =
     (let truthy = (\<lambda>c. case c of Some n \<Rightarrow> if n = 0 then None else Some n | None \<Rightarrow> None);
          cpus = (case truthy cpu_count of Some n \<Rightarrow> n
                  | None \<Rightarrow> (case truthy os_cpu_count of Some n \<Rightarrow> n | None \<Rightarrow> (1::int)));
          units = (case hc_default_units cfg of Some u \<Rightarrow> if u = 0 then None else Some u | None \<Rightarrow> None)
      in \<lparr>ha_keys = host_keys_of host_id, ha_cfg = cfg,
          ha_default_target = (case units of Some u \<Rightarrow> u | None \<Rightarrow> of_int cpus)\<rparr>)"

record grant =
  g_lease_id :: string
  g_wait_ms :: int
  g_in_use :: rat
  g_target :: rat

text \<open>
  What one turn of the waiting loop reads: the clock before the call, the clock after it, and the
  answer of \<open>is_cancelled\<close>, or what it raises, in case it is asked.
\<close>

record poll =
  pl_before :: rat
  pl_after :: rat
  pl_cancelled :: "bool res"

definition trunc_int :: "rat \<Rightarrow> int" where
  "trunc_int q = (if q < 0 then \<lceil>q\<rceil> else \<lfloor>q\<rfloor>)"

text \<open>The waiting data of a claim: \<open>cap\<close> is at least 1, a negative delay is none.\<close>

definition claim_info :: "string \<Rightarrow> string \<Rightarrow> rat \<Rightarrow> int \<Rightarrow> rat \<Rightarrow> waiter_info" where
  "claim_info tenant_id domain weight concurrency delay_seconds =
     \<lparr>wi_tenant = tenant_id, wi_slot_key = slot_key domain tenant_id, wi_delay_key = delay_key domain tenant_id,
      wi_cap = max 1 concurrency, wi_delay_ms = max 0 (trunc_int (delay_seconds * 1000)), wi_weight = weight\<rparr>"

definition claim_args_of ::
  "host_admission \<Rightarrow> waiter_info \<Rightarrow> string \<Rightarrow> string \<Rightarrow> int \<Rightarrow> int \<Rightarrow> claim_args" where
  "claim_args_of self info waiter_id lease_id priority_ms waited_ms =
     \<lparr>ca_me = waiter_id, ca_prio = priority_ms, ca_info = info_dumps info, ca_lease = lease_id,
      ca_lease_ttl = hc_lease_ttl_seconds (ha_cfg self) * 1000,
      ca_waiter_ttl = hc_waiter_ttl_seconds (ha_cfg self) * 1000,
      ca_default_target = ha_default_target self, ca_share = hc_tenant_share (ha_cfg self),
      ca_keep = HOST_KEY_TTL_MS, ca_wait_ms = waited_ms, ca_wait_bucket = wait_bucket waited_ms\<rparr>"

text \<open>Leaving the line on every exit without a grant, best effort, then re-raising.\<close>

definition leave_line :: "host_admission \<Rightarrow> string \<Rightarrow> exn \<Rightarrow> 'a prog" where
  "leave_line self waiter_id e = Eval (LEAVE_LUA (ha_keys self) waiter_id) (\<lambda>_. Raise e)"

definition count_timeout :: "host_admission \<Rightarrow> 'a prog \<Rightarrow> 'a prog" where
  "count_timeout self k = Cmd (HINCRBY (hk_stats (ha_keys self)) ''timeouts'' 1) (\<lambda>_. k)"

definition granted_claim :: "string \<Rightarrow> int \<Rightarrow> reply \<Rightarrow> grant res" where
  "granted_claim lease_id waited_ms v =
     (case reply_item v 1 of Inl e \<Rightarrow> Inl e | Inr u \<Rightarrow>
      case py_float u of Inl e \<Rightarrow> Inl e | Inr in_use \<Rightarrow>
      case reply_item v 2 of Inl e \<Rightarrow> Inl e | Inr t \<Rightarrow>
      case py_float t of Inl e \<Rightarrow> Inl e | Inr target \<Rightarrow>
        Inr \<lparr>g_lease_id = lease_id, g_wait_ms = waited_ms, g_in_use = in_use, g_target = target\<rparr>)"

text \<open>
  \<open>None\<close> is a loop still waiting when the listed readings are used up. \<open>started\<close> and \<open>until\<close> (its deadline)
  are those of the enclosing call. A cancellation of the task itself is not modelled.
\<close>

primrec wait_for_grant ::
  "host_admission \<Rightarrow> waiter_info \<Rightarrow> string \<Rightarrow> string \<Rightarrow> int \<Rightarrow> bool \<Rightarrow> rat \<Rightarrow> rat \<Rightarrow> poll list \<Rightarrow> rat \<Rightarrow> grant option prog" where
  "wait_for_grant self info waiter_id lease_id priority_ms asks started until [] next_cancel_check = Return None"
| "wait_for_grant self info waiter_id lease_id priority_ms asks started until (p # ps) next_cancel_check =
     (let waited_ms = trunc_int ((pl_before p - started) * 1000); now = pl_after p in
      Eval (CLAIM_LUA (ha_keys self) (claim_args_of self info waiter_id lease_id priority_ms waited_ms)) (\<lambda>r.
        case r of
          Inl _ \<Rightarrow> leave_line self waiter_id AdmissionUnavailableError
        | Inr v \<Rightarrow>
          (case reply_item v 0 of
             Inl e \<Rightarrow> leave_line self waiter_id e
           | Inr g \<Rightarrow>
            if g = RInt 1 then
              (case granted_claim lease_id waited_ms v of
                 Inl e \<Rightarrow> leave_line self waiter_id e
               | Inr grant \<Rightarrow> Return (Some grant))
            else if until \<le> now then
              count_timeout self (leave_line self waiter_id (AdmissionTimeoutError (trunc_int ((now - started) * 1000))))
            else if asks \<and> next_cancel_check \<le> now then
              (case pl_cancelled p of
                 Inl e \<Rightarrow> leave_line self waiter_id e
               | Inr cancelled \<Rightarrow>
                   if cancelled then leave_line self waiter_id AdmissionCancelledError
                   else wait_for_grant self info waiter_id lease_id priority_ms asks started until ps
                     (now + hc_cancel_check_interval_seconds (ha_cfg self)))
            else wait_for_grant self info waiter_id lease_id priority_ms asks started until ps next_cancel_check)))"

text \<open>The two halves of the \<open>claim\<close> block: taking the claim and giving it back.\<close>

definition claim_enter ::
  "host_admission \<Rightarrow> bool \<Rightarrow> string \<Rightarrow> string \<Rightarrow> rat \<Rightarrow> int \<Rightarrow> rat \<Rightarrow> int \<Rightarrow> rat \<Rightarrow> bool \<Rightarrow>
   string \<Rightarrow> string \<Rightarrow> rat \<Rightarrow> poll list \<Rightarrow> grant option prog" where
  "claim_enter self claim_held tenant_id domain weight concurrency delay_seconds priority_ms wait_budget_seconds asks
     waiter_id lease_id started polls =
     (if claim_held then Raise NestedClaimError
      else wait_for_grant self (claim_info tenant_id domain weight concurrency delay_seconds) waiter_id lease_id
        priority_ms asks started (started + max 0 wait_budget_seconds) polls
        (started + hc_cancel_check_interval_seconds (ha_cfg self)))"

definition claim_exit :: "host_admission \<Rightarrow> bool \<Rightarrow> string \<Rightarrow> string \<Rightarrow> unit prog" where
  "claim_exit self retained turn_key lease_id =
     Eval (if retained then HC_RELEASE_SLOT_LUA turn_key lease_id else RELEASE_LUA (ha_keys self) turn_key lease_id)
       (\<lambda>_. Return ())"

definition renew_lease :: "host_admission \<Rightarrow> string \<Rightarrow> string \<Rightarrow> bool prog" where
  "renew_lease self lease_id turn_key =
     hc_eval (RENEW_LUA (hk_seats (ha_keys self)) turn_key lease_id
         (hc_lease_ttl_seconds (ha_cfg self) * 1000) HOST_KEY_TTL_MS)
       (\<lambda>kept. Return (py_true kept))"

definition release_seat :: "host_admission \<Rightarrow> string \<Rightarrow> string \<Rightarrow> unit prog" where
  "release_seat self lease_id turn_key =
     hc_eval (RELEASE_LUA (ha_keys self) turn_key lease_id) (\<lambda>_. Return ())"

text \<open>The renewing task, over the clock readings of its wake-ups; the result says why it stopped.\<close>

datatype renew_end = StillRenewing | Overheld | LeaseLost

primrec renew_loop :: "host_admission \<Rightarrow> string \<Rightarrow> string \<Rightarrow> rat \<Rightarrow> rat list \<Rightarrow> renew_end prog" where
  "renew_loop self lease_id turn_key started [] = Return StillRenewing"
| "renew_loop self lease_id turn_key started (now # ts) =
     (if of_int (hc_max_hold_seconds (ha_cfg self)) \<le> now - started then Return Overheld
      else andthen (catch (andthen (renew_lease self lease_id turn_key) (\<lambda>kept. Return (Some kept)))
          (\<lambda>_. Return None))
        (\<lambda>r. case r of
           None \<Rightarrow> renew_loop self lease_id turn_key started ts
         | Some kept \<Rightarrow> if kept then renew_loop self lease_id turn_key started ts else Return LeaseLost))"

record capacity_snapshot =
  cs_in_use :: rat
  cs_waiters :: int
  cs_target :: rat

definition snapshot :: "host_admission \<Rightarrow> capacity_snapshot prog" where
  "snapshot self = hc_eval (STATUS_LUA (ha_keys self) (ha_default_target self)) (\<lambda>r.
     lift_res (reply_item r 0) (\<lambda>u. lift_res (py_float u) (\<lambda>in_use.
     lift_res (reply_item r 1) (\<lambda>w. lift_res (py_int w) (\<lambda>n.
     lift_res (reply_item r 2) (\<lambda>t. lift_res (py_float t) (\<lambda>target.
       Return \<lparr>cs_in_use = in_use, cs_waiters = n, cs_target = target\<rparr>)))))))"


subsection \<open>What a browser weighs\<close>

record browser_memory_sample =
  bm_count :: int
  bm_mean_mb :: rat

definition report_payload :: "browser_memory_sample \<Rightarrow> rat \<Rightarrow> rstr" where
  "report_payload sample now = RJson (JObj [(''count'', JInt (bm_count sample)), (''mean_mb'', JNum (bm_mean_mb sample)),
     (''at'', JNum now)])"

definition report_browser_memory :: "host_admission \<Rightarrow> string \<Rightarrow> browser_memory_sample \<Rightarrow> rat \<Rightarrow> unit prog" where
  "report_browser_memory self reporter_id sample now =
     catch (call (HSET (hk_browser_rss (ha_keys self)) reporter_id (report_payload sample now)) (\<lambda>_.
       call (PEXPIRE (hk_browser_rss (ha_keys self)) HOST_KEY_TTL_MS) (\<lambda>_. Return ())))
       (\<lambda>_. Return ())"

definition json_num :: "json \<Rightarrow> rat option" where
  "json_num j = (case j of JInt i \<Rightarrow> Some (of_int i) | JNum q \<Rightarrow> Some q | _ \<Rightarrow> None)"

definition parse_report :: "rstr \<Rightarrow> (rat \<times> int \<times> rat) option" where
  "parse_report v = (case v of
     RJson (JObj fs) \<Rightarrow>
       (case (Option.bind (map_of fs ''at'') json_num, Option.bind (map_of fs ''count'') json_num,
              Option.bind (map_of fs ''mean_mb'') json_num) of
          (Some t, Some c, Some m) \<Rightarrow> Some (t, trunc_int c, m) | _ \<Rightarrow> None)
   | _ \<Rightarrow> None)"

text \<open>The sum over the fresh reports, and the fields to delete.\<close>

fun fold_reports :: "rat \<Rightarrow> rat \<Rightarrow> (string \<times> rstr) list \<Rightarrow> rat \<times> int \<times> string list" where
  "fold_reports now fresh [] = (0, 0, [])"
| "fold_reports now fresh ((name, v) # rs) =
     (case fold_reports now fresh rs of (sum_mb, browsers, stale) \<Rightarrow>
        (case parse_report v of
          None \<Rightarrow> (sum_mb, browsers, name # stale)
        | Some (t, count, mean_mb) \<Rightarrow>
            if fresh < now - t then (sum_mb, browsers, name # stale)
            else (sum_mb + mean_mb * of_int count, browsers + count, stale)))"

definition clamp_browser_mb :: "host_capacity_config \<Rightarrow> rat \<Rightarrow> int \<Rightarrow> rat" where
  "clamp_browser_mb cfg sum_mb browsers =
     (if browsers < 2 then of_int (hc_browser_memory_mb cfg)
      else min (max (sum_mb / of_int browsers) (of_int (hc_min_browser_memory_mb cfg)))
        (of_int (hc_browser_memory_mb cfg)))"

definition browser_memory_mb :: "host_admission \<Rightarrow> rat \<Rightarrow> rat \<Rightarrow> rat prog" where
  "browser_memory_mb self fresh_seconds now =
     call (HGETALL (hk_browser_rss (ha_keys self))) (\<lambda>r.
       case fold_reports now fresh_seconds (reply_pairs r) of (sum_mb, browsers, stale) \<Rightarrow>
         (let result = Return (clamp_browser_mb (ha_cfg self) sum_mb browsers) in
         if stale = [] then result
         else call (HDELS (hk_browser_rss (ha_keys self)) stale) (\<lambda>_. result)))"

subsection \<open>The shape of a claim's reply\<close>

text \<open>
  Whatever its commands answer, the claim script ends in an error or returns an array whose first item
  is 0 or 1 and whose second and third read as numbers.
\<close>

primrec lua_returns :: "(reply \<Rightarrow> bool) \<Rightarrow> lua \<Rightarrow> bool" where
  "lua_returns P (LRet r) = P r"
| "lua_returns P (LCall c k) = (\<forall>r. lua_returns P (k r))"

definition claim_reply :: "reply \<Rightarrow> bool" where
  "claim_reply r \<longleftrightarrow> r = RErr \<or> (case r of
     RStrings (g # u # t # _) \<Rightarrow> g \<in> {RInt 0, RInt 1} \<and> \<not> isl (py_float u) \<and> \<not> isl (py_float t) | _ \<Rightarrow> False)"

lemma run_lua_returns: "lua_returns P l \<Longrightarrow> P RErr \<Longrightarrow> P (fst (run_lua ex l s))"
  by (induction l arbitrary: s) (auto split: prod.split)

lemma py_float_tostring [simp]: "\<not> isl (py_float (lua_tostring q))"
  by (simp add: py_float_def lua_tostring_def)

lemma claim_reply_RErr [simp]: "claim_reply RErr"
  by (simp add: claim_reply_def)

lemma returns_extend_ttl [simp]: "lua_returns P (extend_ttl k ms l) \<longleftrightarrow> lua_returns P l"
  by (simp add: extend_ttl_def split: reply.splits)

lemma returns_extend_all [simp]: "lua_returns P (extend_all ks ms l) \<longleftrightarrow> lua_returns P l"
  by (induction ks) simp_all

lemma returns_drop_seats [simp]: "lua_returns P (drop_seats ks ls l) \<longleftrightarrow> lua_returns P l"
  by (induction ls) simp_all

lemma returns_drop_waiters [simp]: "lua_returns P (drop_waiters ks ws l) \<longleftrightarrow> lua_returns P l"
  by (induction ws) simp_all

lemma returns_with_now_ms: "P RErr \<Longrightarrow> (\<And>n. lua_returns P (k n)) \<Longrightarrow> lua_returns P (with_now_ms k)"
  by (simp add: with_now_ms_def split: option.split)

lemma returns_sum_held:
  "P RErr \<Longrightarrow> (\<And>u tu. lua_returns P (k u tu)) \<Longrightarrow> lua_returns P (sum_held ks held in_use tu k)"
  by (induction held arbitrary: in_use tu) (simp_all add: Let_def split: option.split)

lemma returns_read_infos:
  "P RErr \<Longrightarrow> (\<And>is. lua_returns P (k is)) \<Longrightarrow> lua_returns P (read_infos ks line infos k)"
  by (induction line arbitrary: infos) (simp_all split: reply.split option.split)

lemma returns_grant_seat: "lua_returns claim_reply (grant_seat ks a c i)"
  by (simp add: grant_seat_def Let_def claim_reply_def)

lemma returns_refusal [simp]: "claim_reply (refusal c)"
  by (simp add: refusal_def claim_reply_def)

lemma returns_claim_walk: "lua_returns claim_reply (claim_walk ks a c line sim_use tu sc na)"
proof (induction line arbitrary: sim_use tu sc na)
  case (Cons x line)
  then show ?case
    by (auto simp: Let_def lua_slots_def lua_nxt_def returns_grant_seat simp del: extend_all.simps
        split: option.split reply.split)
qed simp

lemma claim_reply_shape: "claim_reply (fst (run_lua ex (CLAIM_LUA ks a) s))"
  unfolding CLAIM_LUA_def
  by (rule run_lua_returns [where P = claim_reply])
    (auto intro!: returns_with_now_ms returns_sum_held returns_read_infos returns_claim_walk simp: Let_def)

subsection \<open>The wait ends\<close>

text \<open>How a wait can end, over the readings it made: a grant, or an error.\<close>

definition wait_over :: "rat \<Rightarrow> rat \<Rightarrow> poll list \<Rightarrow> grant option res \<Rightarrow> bool" where
  "wait_over started until polls r = (case r of
     Inr g \<Rightarrow> g \<noteq> None
   | Inl e \<Rightarrow> e \<in> {AdmissionUnavailableError, AdmissionCancelledError} \<or> Inl e \<in> pl_cancelled ` set polls \<or>
       (case e of AdmissionTimeoutError waited_ms \<Rightarrow> trunc_int ((until - started) * 1000) \<le> waited_ms | _ \<Rightarrow> False))"

lemma wait_over_simps [simp]:
  "\<not> wait_over started until ps (Inr None)" "wait_over started until ps (Inr (Some g))"
  "wait_over started until ps (Inl AdmissionUnavailableError)" "wait_over started until ps (Inl AdmissionCancelledError)"
  "trunc_int ((until - started) * 1000) \<le> n \<Longrightarrow> wait_over started until ps (Inl (AdmissionTimeoutError n))"
  by (simp_all add: wait_over_def)

lemma wait_over_asked: "pl_cancelled p = Inl e \<Longrightarrow> wait_over started until (p # ps) (Inl e)"
  by (simp add: wait_over_def)

lemma wait_over_later: "wait_over started until ps r \<Longrightarrow> wait_over started until (p # ps) r"
  by (auto simp: wait_over_def split: sum.splits)

lemma trunc_int_mono:
  assumes "x \<le> y"
  shows "trunc_int x \<le> trunc_int y"
proof (cases "x < 0 \<and> \<not> y < 0")
  case True
  then have "\<lceil>x\<rceil> \<le> 0" "0 \<le> \<lfloor>y\<rfloor>" by linarith+
  then have "\<lceil>x\<rceil> \<le> \<lfloor>y\<rfloor>" by (rule order_trans)
  with True show ?thesis by (simp add: trunc_int_def)
next
  case False
  with assms ceiling_mono [OF assms] floor_mono [OF assms] show ?thesis by (auto simp: trunc_int_def)
qed

lemma claim_reply_read:
  assumes "claim_reply v" "v \<noteq> RErr"
  obtains g where "reply_item v 0 = Inr g" "\<not> isl (granted_claim l n v)"
  using assms
  by (auto simp: claim_reply_def reply_item_def granted_claim_def isl_def split: reply.splits list.splits sum.splits)

lemma wait_for_grant_over:
  assumes "\<exists>p \<in> set polls. until \<le> pl_after p"
  shows "wait_over started until polls (fst (run sv (wait_for_grant self info w l prio asks started until polls ncc) es s))"
  using assms
proof (induction polls arbitrary: ncc es s)
  case (Cons p ps)
  let ?f = "run_lua (srv_exec sv) (CLAIM_LUA (ha_keys self)
      (claim_args_of self info w l prio (trunc_int ((pl_before p - started) * 1000))))"
  obtain r s1 where r: "transact sv ?f (next_event es) s = (r, s1)" by fastforce
  have shape: "claim_reply v \<and> v \<noteq> RErr" if "r = Inr v" for v
    using r that claim_reply_shape [of "srv_exec sv"]
    by (auto simp: transact_def client_view_def Let_def split: fate.splits prod.splits if_splits) (metis fst_conv)+
  have leave: "fst (run sv (leave_line self w e :: grant option prog) es' s') = Inl e" for e es' s'
    by (simp add: leave_line_def split: prod.splits)
  have timeout: "fst (run sv (count_timeout self (leave_line self w e :: grant option prog)) es' s') = Inl e" for e es' s'
    by (simp add: count_timeout_def leave split: prod.splits)
  have late: "trunc_int ((until - started) * 1000) \<le> trunc_int ((pl_after p - started) * 1000)" if "until \<le> pl_after p"
    using that by (intro trunc_int_mono) simp
  have ih: "wait_over started until (p # ps) (fst (run sv (wait_for_grant self info w l prio asks started until ps ncc') es' s'))"
    if "\<not> until \<le> pl_after p" for ncc' es' s'
    using Cons.prems that by (intro wait_over_later Cons.IH) auto
  show ?case
  proof (cases r)
    case (Inl e)
    with r show ?thesis by (simp add: Let_def leave)
  next
    case (Inr v)
    from shape [OF this] obtain g grant where g: "reply_item v 0 = Inr g"
      "granted_claim l (trunc_int ((pl_before p - started) * 1000)) v = Inr grant"
      by (auto elim!: claim_reply_read [where l = l and n = "trunc_int ((pl_before p - started) * 1000)"] simp: isl_def)
        (metis sum.exhaust)
    show ?thesis
      using r Inr g late ih by (auto simp: Let_def leave timeout wait_over_asked split: sum.split)
  qed
qed simp

text \<open>
  \<^bold>\<open>C36\<close>. A wait for capacity always ends. On any server that runs the claim script, whatever its
  commands answer and the network loses, once one of the clock readings of the loop reaches the
  deadline the call has ended: with a grant, with one of the admission errors (a timeout reporting at
  least the whole wait budget), or with what \<open>is_cancelled\<close> raised when it was asked. No other error
  is possible: the reply's items can always be read. The task itself not being cancelled.
\<close>

theorem wait_for_grant_ends:
  assumes "\<exists>p \<in> set polls. until \<le> pl_after p"
  shows "wait_over started until polls (fst (run sv (wait_for_grant self info w l prio asks started until polls ncc) es s))"
  by (rule wait_for_grant_over [OF assms])

theorem wait_for_grant_ends_witness:
  "wait_over 0 30 [\<lparr>pl_before = 0, pl_after = 1, pl_cancelled = Inl RedisTimeoutError\<rparr>, \<lparr>pl_before = 29, pl_after = 31, pl_cancelled = Inr False\<rparr>]
   (fst (run mem_server (wait_for_grant (host_admission_init ''h1'' host_capacity_defaults (Some 4) None)
     (claim_info ''acme'' ''a.com'' 1 2 5) ''w1'' ''l1'' 0 True 0 30
     [\<lparr>pl_before = 0, pl_after = 1, pl_cancelled = Inl RedisTimeoutError\<rparr>, \<lparr>pl_before = 29, pl_after = 31, pl_cancelled = Inr False\<rparr>] 10)
     [(0, RequestLost RedisTimeoutError)] empty_keyspace))"
  by (rule wait_for_grant_ends) simp

end
