(* ===== verification/Circuit_Breaker.thy ===== *)
theory Circuit_Breaker
  imports Redis_Service
begin

text \<open>
  \<^verbatim>\<open>src/src/scraper_engine/orchestrator/circuit_breaker.py\<close>: the three-state circuit breaker per
  domain, kept in five Redis keys. Every method is a client program (several round trips, not a
  script); \<open>now\<close> is the client's \<open>time.time()\<close>.

  The abstract breaker (\<open>breaker\<close>, \<open>spec_*\<close>) is what the methods promise about one domain; the
  refinement lemmas say the Redis programs implement it, the frame lemma that one domain's
  breaker is not touched by another's, and the last lemmas what the multi-round-trip protocol
  does not guarantee (lost updates, an interrupted trip).
\<close>

subsection \<open>The class\<close>

datatype circuit_state = CLOSED | OPEN | HALF_OPEN

record cb_config =
  failure_threshold :: rat
  attempt_threshold :: int
  cooldown_seconds :: int
  max_cooldown_seconds :: int
  failure_streak_ttl_seconds :: int

definition TRIP_COUNT_DECAY_MULTIPLIER :: int where
  "TRIP_COUNT_DECAY_MULTIPLIER = 3"

definition cb_defaults :: cb_config where
  "cb_defaults = \<lparr>failure_threshold = 95 / 100, attempt_threshold = 20, cooldown_seconds = 600,
     max_cooldown_seconds = 3600, failure_streak_ttl_seconds = 600\<rparr>"

fun state_value :: "circuit_state \<Rightarrow> string" where
  "state_value CLOSED = ''closed''"
| "state_value OPEN = ''open''"
| "state_value HALF_OPEN = ''half_open''"

text \<open>\<open>CircuitState(raw)\<close>: a value that names no state raises \<open>ValueError\<close>.\<close>

definition parse_state :: "rstr \<Rightarrow> circuit_state res" where
  "parse_state v =
     (if v = RText ''closed'' then Inr CLOSED else if v = RText ''open'' then Inr OPEN
      else if v = RText ''half_open'' then Inr HALF_OPEN else Inl ValueError)"

definition cb_key :: "string \<Rightarrow> string \<Rightarrow> string" where
  "cb_key domain suffix = ''cb:'' @ domain @ '':'' @ suffix"

definition trips_metric :: string where
  "trips_metric = ''metrics:circuit_breaker_trips_total''"

definition cb_get :: "string \<Rightarrow> rstr option prog" where
  "cb_get key = call (GET key) (\<lambda>r. case r of
     RBulk v \<Rightarrow> Return (if py_truthy v then Some v else None) | _ \<Rightarrow> Return None)"

definition cb_set :: "string \<Rightarrow> rstr \<Rightarrow> int option \<Rightarrow> unit prog" where
  "cb_set key value ttl_seconds =
     call (SET key value (map_option (\<lambda>s. s * 1000) ttl_seconds) False) (\<lambda>_. Return ())"

definition cb_state :: "string \<Rightarrow> circuit_state prog" where
  "cb_state domain = andthen (cb_get (cb_key domain ''state'')) (\<lambda>raw.
     case raw of None \<Rightarrow> Return CLOSED | Some v \<Rightarrow> lift_res (parse_state v) Return)"

definition allow_request :: "string \<Rightarrow> rat \<Rightarrow> bool prog" where
  "allow_request domain now = andthen (cb_state domain) (\<lambda>current.
     if current = CLOSED then Return True
     else if current = OPEN then
       andthen (cb_get (cb_key domain ''cooldown_until'')) (\<lambda>raw.
         case raw of
           None \<Rightarrow> Return False
         | Some v \<Rightarrow> lift_res (py_float v) (\<lambda>cooldown_until.
             if now < cooldown_until then Return False
             else andthen (cb_set (cb_key domain ''state'') (RText (state_value HALF_OPEN)) None)
               (\<lambda>_. Return True)))
     else Return True)"

definition reset_window :: "string \<Rightarrow> unit prog" where
  "reset_window domain =
     andthen (cb_set (cb_key domain ''failure_window_attempts'') (RInt 0) None) (\<lambda>_.
       cb_set (cb_key domain ''failure_window_failures'') (RInt 0) None)"

definition int_or_zero :: "rstr option \<Rightarrow> int res" where
  "int_or_zero raw = (case raw of None \<Rightarrow> Inr 0 | Some v \<Rightarrow> py_int v)"

definition record_attempt :: "cb_config \<Rightarrow> string \<Rightarrow> bool \<Rightarrow> (int \<times> int) prog" where
  "record_attempt cfg domain failed =
     andthen (cb_get (cb_key domain ''failure_window_attempts'')) (\<lambda>attempts_raw.
     andthen (cb_get (cb_key domain ''failure_window_failures'')) (\<lambda>failures_raw.
     lift_res (int_or_zero attempts_raw) (\<lambda>a. lift_res (int_or_zero failures_raw) (\<lambda>f.
       let attempts = a + 1; failures = f + (if failed then 1 else 0);
           ttl = Some (failure_streak_ttl_seconds cfg) in
       andthen (cb_set (cb_key domain ''failure_window_attempts'') (RInt attempts) ttl) (\<lambda>_.
       andthen (cb_set (cb_key domain ''failure_window_failures'') (RInt failures) ttl) (\<lambda>_.
         Return (attempts, failures)))))))"

definition open_circuit :: "cb_config \<Rightarrow> string \<Rightarrow> rat \<Rightarrow> unit prog" where
  "open_circuit cfg domain now =
     andthen (cb_get (cb_key domain ''trip_count'')) (\<lambda>trip_raw.
     lift_res (int_or_zero trip_raw) (\<lambda>t.
       let trip_count = t + 1 in
       andthen (cb_set (cb_key domain ''trip_count'') (RInt trip_count)
         (Some (max_cooldown_seconds cfg * TRIP_COUNT_DECAY_MULTIPLIER))) (\<lambda>_.
       call (INCRBY trips_metric 1) (\<lambda>_.
       let cooldown = min (cooldown_seconds cfg * 2 ^ nat (trip_count - 1)) (max_cooldown_seconds cfg);
           cooldown_until = now + of_int cooldown in
       andthen (cb_set (cb_key domain ''state'') (RText (state_value OPEN)) None) (\<lambda>_.
       andthen (cb_set (cb_key domain ''cooldown_until'') (RNum cooldown_until) None) (\<lambda>_.
         reset_window domain))))))"

definition cb_record_success :: "cb_config \<Rightarrow> string \<Rightarrow> unit prog" where
  "cb_record_success cfg domain = andthen (cb_state domain) (\<lambda>current.
     if current = HALF_OPEN then
       andthen (cb_set (cb_key domain ''state'') (RText (state_value CLOSED)) None) (\<lambda>_.
         reset_window domain)
     else andthen (record_attempt cfg domain False) (\<lambda>(attempts, _).
       if attempt_threshold cfg \<le> attempts then reset_window domain else Return ()))"

definition cb_record_failure :: "cb_config \<Rightarrow> string \<Rightarrow> rat \<Rightarrow> unit prog" where
  "cb_record_failure cfg domain now = andthen (cb_state domain) (\<lambda>current.
     if current = HALF_OPEN then open_circuit cfg domain now
     else andthen (record_attempt cfg domain True) (\<lambda>(attempts, failures).
       if attempt_threshold cfg \<le> attempts then
         (if failure_threshold cfg \<le> of_int failures / of_int attempts
          then open_circuit cfg domain now else reset_window domain)
       else Return ()))"

subsection \<open>The abstract breaker of one domain\<close>

record breaker =
  b_state :: circuit_state
  b_attempts :: int
  b_failures :: int
  b_trips :: int
  b_until :: "rat option"

definition spec_open :: "cb_config \<Rightarrow> rat \<Rightarrow> breaker \<Rightarrow> breaker" where
  "spec_open cfg now b =
     b\<lparr>b_state := OPEN, b_trips := b_trips b + 1,
       b_until := Some (now + of_int (min (cooldown_seconds cfg * 2 ^ nat (b_trips b))
         (max_cooldown_seconds cfg))), b_attempts := 0, b_failures := 0\<rparr>"

definition spec_allow :: "rat \<Rightarrow> breaker \<Rightarrow> bool \<times> breaker" where
  "spec_allow now b =
     (case (b_state b, b_until b) of
        (OPEN, Some t) \<Rightarrow> if now < t then (False, b) else (True, b\<lparr>b_state := HALF_OPEN\<rparr>)
      | (OPEN, None) \<Rightarrow> (False, b)
      | _ \<Rightarrow> (True, b))"

definition spec_success :: "cb_config \<Rightarrow> breaker \<Rightarrow> breaker" where
  "spec_success cfg b =
     (if b_state b = HALF_OPEN then b\<lparr>b_state := CLOSED, b_attempts := 0, b_failures := 0\<rparr>
      else if attempt_threshold cfg \<le> b_attempts b + 1 then b\<lparr>b_attempts := 0, b_failures := 0\<rparr>
      else b\<lparr>b_attempts := b_attempts b + 1\<rparr>)"

definition spec_failure :: "cb_config \<Rightarrow> rat \<Rightarrow> breaker \<Rightarrow> breaker" where
  "spec_failure cfg now b =
     (if b_state b = HALF_OPEN then spec_open cfg now b
      else if attempt_threshold cfg \<le> b_attempts b + 1 then
        (if failure_threshold cfg \<le> of_int (b_failures b + 1) / of_int (b_attempts b + 1)
         then spec_open cfg now b else b\<lparr>b_attempts := 0, b_failures := 0\<rparr>)
      else b\<lparr>b_attempts := b_attempts b + 1, b_failures := b_failures b + 1\<rparr>)"


subsection \<open>What the keyspace says about one domain\<close>

definition counter_at :: "keyspace \<Rightarrow> string \<Rightarrow> int option" where
  "counter_at K k = (case str_at K k of Some v \<Rightarrow> (case int_or_zero v of Inl _ \<Rightarrow> None | Inr i \<Rightarrow> Some i)
     | None \<Rightarrow> None)"

definition breaker_rel :: "string \<Rightarrow> keyspace \<Rightarrow> breaker \<Rightarrow> bool" where
  "breaker_rel d K b \<longleftrightarrow>
     str_at K (cb_key d ''state'') \<in>
       insert (Some (Some (RText (state_value (b_state b))))) (if b_state b = CLOSED then {Some None} else {}) \<and>
     counter_at K (cb_key d ''failure_window_attempts'') = Some (b_attempts b) \<and>
     counter_at K (cb_key d ''failure_window_failures'') = Some (b_failures b) \<and>
     counter_at K (cb_key d ''trip_count'') = Some (b_trips b) \<and>
     str_at K (cb_key d ''cooldown_until'') = Some (map_option RNum (b_until b)) \<and>
     counter_at K trips_metric \<noteq> None"

definition cb_config_ok :: "cb_config \<Rightarrow> bool" where
  "cb_config_ok cfg \<longleftrightarrow> 0 < failure_streak_ttl_seconds cfg \<and> 0 < max_cooldown_seconds cfg"

lemma cb_key_eq [simp]: "cb_key d s = cb_key d s' \<longleftrightarrow> s = s'"
  by (simp add: cb_key_def)

lemma cb_key_metric [simp]: "cb_key d s \<noteq> trips_metric" "trips_metric \<noteq> cb_key d s"
  by (simp_all add: cb_key_def trips_metric_def)

lemma counter_at_put_str [keyspace_simps]:
  "counter_at (put_str k v t K) k' =
     (if k' = k then (if (case t of None \<Rightarrow> True | Some x \<Rightarrow> ks_now K \<le> x)
        then (case py_int v of Inl _ \<Rightarrow> None | Inr i \<Rightarrow> Some i) else Some 0)
      else counter_at K k')"
  by (auto simp: counter_at_def str_at_put_str int_or_zero_def split: option.splits)

lemma counter_at_SomeE:
  assumes "counter_at K k = Some i"
  obtains v where "str_at K k = Some v" "int_or_zero v = Inr i" "v \<noteq> Some (RText [])"
  using assms
  by (auto simp: counter_at_def int_or_zero_def py_int_def split: option.splits sum.splits rstr.splits)

lemma run_cb_get [run_simps]:
  "str_at K k = Some v \<Longrightarrow> v \<noteq> Some (RText []) \<Longrightarrow> run mem_server (cb_get k) [] K = (Inr v, K)"
  by (auto simp: cb_get_def run_simps py_truthy_def split: option.splits)

lemma run_cb_set [run_simps]:
  "run mem_server (cb_set k v None) [] K = (Inr (), put_str k v None K)"
  "0 < s \<Longrightarrow> run mem_server (cb_set k v (Some s)) [] K =
     (Inr (), put_str k v (Some (ks_now K + s * 1000)) K)"
  by (simp_all add: cb_set_def run_simps)

lemma run_cb_state:
  "breaker_rel d K b \<Longrightarrow> run mem_server (cb_state d) [] K = (Inr (b_state b), K)"
  unfolding breaker_rel_def cb_state_def
  by (cases "b_state b") (auto simp: run_simps parse_state_def lift_res_def)

lemma run_reset_window:
  "run mem_server (reset_window d) [] K =
     (Inr (), put_str (cb_key d ''failure_window_failures'') (RInt 0) None
        (put_str (cb_key d ''failure_window_attempts'') (RInt 0) None K))"
  by (simp add: reset_window_def run_simps)

lemma breaker_rel_reset_window:
  "breaker_rel d K b \<Longrightarrow>
   breaker_rel d (snd (run mem_server (reset_window d) [] K)) (b\<lparr>b_attempts := 0, b_failures := 0\<rparr>)"
  by (simp add: run_reset_window breaker_rel_def keyspace_simps py_int_def)

lemma run_record_attempt:
  assumes rel: "breaker_rel d K b" and cfg: "cb_config_ok cfg"
  shows "\<exists>K'. run mem_server (record_attempt cfg d failed) [] K =
      (Inr (b_attempts b + 1, b_failures b + (if failed then 1 else 0)), K') \<and>
    breaker_rel d K' (b\<lparr>b_attempts := b_attempts b + 1,
      b_failures := b_failures b + (if failed then 1 else 0)\<rparr>)"
proof -
  obtain va where va: "str_at K (cb_key d ''failure_window_attempts'') = Some va"
    "int_or_zero va = Inr (b_attempts b)" "va \<noteq> Some (RText [])"
    using rel by (auto simp: breaker_rel_def elim: counter_at_SomeE)
  obtain vf where vf: "str_at K (cb_key d ''failure_window_failures'') = Some vf"
    "int_or_zero vf = Inr (b_failures b)" "vf \<noteq> Some (RText [])"
    using rel by (auto simp: breaker_rel_def elim: counter_at_SomeE)
  show ?thesis
    using rel cfg va vf
    by (auto simp: record_attempt_def run_simps lift_res_def Let_def cb_config_ok_def
        breaker_rel_def keyspace_simps py_int_def)
qed

lemma run_open_circuit:
  assumes rel: "breaker_rel d K b" and cfg: "cb_config_ok cfg"
  shows "\<exists>K'. run mem_server (open_circuit cfg d now) [] K = (Inr (), K') \<and>
    breaker_rel d K' (spec_open cfg now b)"
proof -
  obtain vt where vt: "str_at K (cb_key d ''trip_count'') = Some vt"
    "int_or_zero vt = Inr (b_trips b)" "vt \<noteq> Some (RText [])"
    using rel by (auto simp: breaker_rel_def elim: counter_at_SomeE)
  obtain n where n: "counter_at K trips_metric = Some n"
    using rel by (auto simp: breaker_rel_def)
  then obtain vm where vm: "str_at K trips_metric = Some vm" "as_int vm = Some n"
    by (elim counter_at_SomeE)
      (auto simp: int_or_zero_def as_int_def py_int_def split: option.splits rstr.splits)
  define K1 where "K1 = put_str (cb_key d ''trip_count'') (RInt (b_trips b + 1))
    (Some (ks_now K + max_cooldown_seconds cfg * TRIP_COUNT_DECAY_MULTIPLIER * 1000)) K"
  define K2 where "K2 = put_str trips_metric (RInt (n + 1)) (deadline K1 trips_metric) K1"
  have ttl: "0 < max_cooldown_seconds cfg * TRIP_COUNT_DECAY_MULTIPLIER"
    using cfg by (simp add: cb_config_ok_def TRIP_COUNT_DECAY_MULTIPLIER_def)
  have met: "counter_at K2 trips_metric \<noteq> None"
    by (simp add: K2_def keyspace_simps py_int_def)
  have sel: "ks_now K2 = ks_now K"
    "k \<noteq> trips_metric \<Longrightarrow> str_at K2 k = str_at K1 k"
    "k \<noteq> trips_metric \<Longrightarrow> counter_at K2 k = counter_at K1 k" for k
    by (simp_all add: K2_def K1_def keyspace_simps)
  have trip: "counter_at K1 (cb_key d ''trip_count'') = Some (b_trips b + 1)"
    using ttl by (simp add: K1_def keyspace_simps py_int_def)
  have "run mem_server (open_circuit cfg d now) [] K =
    (Inr (), snd (run mem_server (reset_window d) []
      (put_str (cb_key d ''cooldown_until'') (RNum (the (b_until (spec_open cfg now b)))) None
        (put_str (cb_key d ''state'') (RText (state_value OPEN)) None K2))))"
    using vt ttl
    by (simp add: open_circuit_def run_simps lift_res_def Let_def keyspace_simps vm K2_def K1_def
        spec_open_def run_reset_window)
  moreover have "breaker_rel d (put_str (cb_key d ''cooldown_until'')
      (RNum (the (b_until (spec_open cfg now b)))) None
      (put_str (cb_key d ''state'') (RText (state_value OPEN)) None K2))
    (b\<lparr>b_state := OPEN, b_trips := b_trips b + 1, b_until := b_until (spec_open cfg now b)\<rparr>)"
    using rel met trip
    by (auto simp: breaker_rel_def keyspace_simps sel K1_def spec_open_def)
  from breaker_rel_reset_window [OF this] have "breaker_rel d (snd (run mem_server (reset_window d) []
      (put_str (cb_key d ''cooldown_until'') (RNum (the (b_until (spec_open cfg now b)))) None
        (put_str (cb_key d ''state'') (RText (state_value OPEN)) None K2)))) (spec_open cfg now b)"
    by (simp add: spec_open_def)
  ultimately show ?thesis by blast
qed


subsection \<open>Refinement\<close>

lemma allow_request_refines:
  assumes "breaker_rel d K b"
  shows "\<exists>K'. run mem_server (allow_request d now) [] K = (Inr (fst (spec_allow now b)), K') \<and>
    breaker_rel d K' (snd (spec_allow now b))"
proof (cases "b_state b = OPEN")
  case True
  have get: "str_at K (cb_key d ''cooldown_until'') = Some (map_option RNum (b_until b))"
    using assms by (simp add: breaker_rel_def)
  show ?thesis
  proof (cases "b_until b")
    case None
    with True assms get show ?thesis
      by (simp add: allow_request_def run_simps run_cb_state [OF assms] spec_allow_def)
  next
    case (Some t)
    with True assms get show ?thesis
      by (auto simp: allow_request_def run_simps run_cb_state [OF assms] spec_allow_def lift_res_def
          py_float_def breaker_rel_def keyspace_simps)
  qed
next
  case False
  with assms show ?thesis
    by (cases "b_state b") (auto simp: allow_request_def run_simps run_cb_state [OF assms] spec_allow_def)
qed

lemma cb_record_success_refines:
  assumes rel: "breaker_rel d K b" and cfg: "cb_config_ok cfg"
  shows "\<exists>K'. run mem_server (cb_record_success cfg d) [] K = (Inr (), K') \<and>
    breaker_rel d K' (spec_success cfg b)"
proof (cases "b_state b = HALF_OPEN")
  case True
  have "breaker_rel d (put_str (cb_key d ''state'') (RText (state_value CLOSED)) None K) (b\<lparr>b_state := CLOSED\<rparr>)"
    using rel by (simp add: breaker_rel_def keyspace_simps)
  from breaker_rel_reset_window [OF this] True show ?thesis
    by (simp add: cb_record_success_def run_simps run_cb_state [OF rel] run_reset_window spec_success_def)
next
  case False
  from run_record_attempt [OF rel cfg, of False] obtain K' where
    K': "run mem_server (record_attempt cfg d False) [] K = (Inr (b_attempts b + 1, b_failures b), K')"
      "breaker_rel d K' (b\<lparr>b_attempts := b_attempts b + 1\<rparr>)"
    by auto
  from breaker_rel_reset_window [OF K'(2)] False K' show ?thesis
    by (simp add: cb_record_success_def run_simps run_cb_state [OF rel] run_reset_window spec_success_def)
qed

lemma cb_record_failure_refines:
  assumes rel: "breaker_rel d K b" and cfg: "cb_config_ok cfg"
  shows "\<exists>K'. run mem_server (cb_record_failure cfg d now) [] K = (Inr (), K') \<and>
    breaker_rel d K' (spec_failure cfg now b)"
proof (cases "b_state b = HALF_OPEN")
  case True
  with run_open_circuit [OF rel cfg, of now] show ?thesis
    by (auto simp: cb_record_failure_def run_simps run_cb_state [OF rel] spec_failure_def)
next
  case False
  define b1 where "b1 = b\<lparr>b_attempts := b_attempts b + 1, b_failures := b_failures b + 1\<rparr>"
  from run_record_attempt [OF rel cfg, of True] obtain K1 where
    K1: "run mem_server (record_attempt cfg d True) [] K = (Inr (b_attempts b + 1, b_failures b + 1), K1)"
      "breaker_rel d K1 b1"
    by (auto simp: b1_def)
  have open_eq: "spec_open cfg now b1 = spec_open cfg now b"
    by (simp add: spec_open_def b1_def)
  note opened = run_open_circuit [OF K1(2) cfg, of now, unfolded open_eq]
  from breaker_rel_reset_window [OF K1(2)] opened False K1 show ?thesis
    by (auto simp: cb_record_failure_def run_simps run_cb_state [OF rel] run_reset_window
        spec_failure_def b1_def)
qed


subsection \<open>Histories\<close>

text \<open>The worker's calls on one domain, in the order it makes them.\<close>

datatype cb_op = Allow rat | Success | Failure rat

fun cb_op_prog :: "cb_config \<Rightarrow> string \<Rightarrow> cb_op \<Rightarrow> bool prog" where
  "cb_op_prog cfg d (Allow now) = allow_request d now"
| "cb_op_prog cfg d Success = andthen (cb_record_success cfg d) (\<lambda>_. Return True)"
| "cb_op_prog cfg d (Failure now) = andthen (cb_record_failure cfg d now) (\<lambda>_. Return True)"

fun spec_op :: "cb_config \<Rightarrow> cb_op \<Rightarrow> breaker \<Rightarrow> bool \<times> breaker" where
  "spec_op cfg (Allow now) b = spec_allow now b"
| "spec_op cfg Success b = (True, spec_success cfg b)"
| "spec_op cfg (Failure now) b = (True, spec_failure cfg now b)"

fun cb_session :: "cb_config \<Rightarrow> string \<Rightarrow> cb_op list \<Rightarrow> bool list prog" where
  "cb_session cfg d [] = Return []"
| "cb_session cfg d (x # xs) =
     andthen (cb_op_prog cfg d x) (\<lambda>a. andthen (cb_session cfg d xs) (\<lambda>as. Return (a # as)))"

fun spec_session :: "cb_config \<Rightarrow> cb_op list \<Rightarrow> breaker \<Rightarrow> bool list \<times> breaker" where
  "spec_session cfg [] b = ([], b)"
| "spec_session cfg (x # xs) b =
     (case spec_op cfg x b of (a, b') \<Rightarrow> case spec_session cfg xs b' of (as, b'') \<Rightarrow> (a # as, b''))"

lemma cb_op_refines:
  assumes "breaker_rel d K b" "cb_config_ok cfg"
  shows "\<exists>K'. run mem_server (cb_op_prog cfg d x) [] K = (Inr (fst (spec_op cfg x b)), K') \<and>
    breaker_rel d K' (snd (spec_op cfg x b))"
proof (cases x)
  case (Allow now)
  with allow_request_refines [OF assms(1)] show ?thesis by simp
next
  case Success
  with cb_record_success_refines [OF assms] show ?thesis by (auto simp: run_simps)
next
  case (Failure now)
  with cb_record_failure_refines [OF assms, of now] show ?thesis by (auto simp: run_simps)
qed

lemma cb_session_refines:
  assumes "breaker_rel d K b" "cb_config_ok cfg"
  shows "\<exists>K'. run mem_server (cb_session cfg d xs) [] K = (Inr (fst (spec_session cfg xs b)), K') \<and>
    breaker_rel d K' (snd (spec_session cfg xs b))"
  using assms(1)
proof (induction xs arbitrary: K b)
  case (Cons x xs)
  obtain K1 where K1: "run mem_server (cb_op_prog cfg d x) [] K = (Inr (fst (spec_op cfg x b)), K1)"
    "breaker_rel d K1 (snd (spec_op cfg x b))"
    using cb_op_refines [OF Cons.prems assms(2)] by blast
  from Cons.IH [OF K1(2)] K1(1) show ?case
    by (auto simp: run_simps split: prod.splits)
qed simp

subsection \<open>Histories with passing time\<close>

text \<open>
  The counters of the window expire \<open>failure_streak_ttl_seconds\<close> after the last attempt and the count
  of trips \<open>max_cooldown_seconds * TRIP_COUNT_DECAY_MULTIPLIER\<close> after the last trip; the state and
  \<open>cooldown_until\<close> never expire. The timed breaker adds the server's clock, in milliseconds, and the
  last instant of the window and of the trip count. The clock of the clients that the operations
  carry (\<open>time.time()\<close>) is another one and independent of it.
\<close>

record timed_breaker =
  tb_breaker :: breaker
  tb_now :: int
  tb_window :: "int option"
  tb_decay :: "int option"

definition passed :: "int \<Rightarrow> int option \<Rightarrow> bool" where
  "passed now limit = (case limit of None \<Rightarrow> False | Some t \<Rightarrow> t < now)"

definition spec_pass :: "nat \<Rightarrow> timed_breaker \<Rightarrow> timed_breaker" where
  "spec_pass ms tb =
     (let now = tb_now tb + int ms; b = tb_breaker tb; w = passed now (tb_window tb); t = passed now (tb_decay tb) in
      \<lparr>tb_breaker = b\<lparr>b_attempts := if w then 0 else b_attempts b, b_failures := if w then 0 else b_failures b,
         b_trips := if t then 0 else b_trips b\<rparr>,
       tb_now = now, tb_window = if w then None else tb_window tb, tb_decay = if t then None else tb_decay tb\<rparr>)"

definition window_expiry :: "cb_config \<Rightarrow> timed_breaker \<Rightarrow> int option" where
  "window_expiry cfg tb =
     (if b_state (tb_breaker tb) = HALF_OPEN \<or> attempt_threshold cfg \<le> b_attempts (tb_breaker tb) + 1 then None
      else Some (tb_now tb + failure_streak_ttl_seconds cfg * 1000))"

definition decay_expiry :: "cb_config \<Rightarrow> timed_breaker \<Rightarrow> int option" where
  "decay_expiry cfg tb = Some (tb_now tb + max_cooldown_seconds cfg * TRIP_COUNT_DECAY_MULTIPLIER * 1000)"

fun timed_op :: "cb_config \<Rightarrow> cb_op \<Rightarrow> timed_breaker \<Rightarrow> bool \<times> timed_breaker" where
  "timed_op cfg (Allow now) tb =
     (fst (spec_allow now (tb_breaker tb)), tb\<lparr>tb_breaker := snd (spec_allow now (tb_breaker tb))\<rparr>)"
| "timed_op cfg Success tb =
     (True, tb\<lparr>tb_breaker := spec_success cfg (tb_breaker tb), tb_window := window_expiry cfg tb\<rparr>)"
| "timed_op cfg (Failure now) tb =
     (let b = spec_failure cfg now (tb_breaker tb) in
      (True, tb\<lparr>tb_breaker := b, tb_window := window_expiry cfg tb,
         tb_decay := if b_trips b = b_trips (tb_breaker tb) then tb_decay tb else decay_expiry cfg tb\<rparr>))"

fun timed_spec :: "cb_config \<Rightarrow> (nat \<times> cb_op) list \<Rightarrow> timed_breaker \<Rightarrow> bool list \<times> timed_breaker" where
  "timed_spec cfg [] tb = ([], tb)"
| "timed_spec cfg ((ms, x) # xs) tb =
     (case timed_op cfg x (spec_pass ms tb) of (a, tb') \<Rightarrow>
      case timed_spec cfg xs tb' of (as, tb'') \<Rightarrow> (a # as, tb''))"

text \<open>The calls on a server, each after a pause of so many milliseconds.\<close>

fun timed_session :: "'s server \<Rightarrow> cb_config \<Rightarrow> string \<Rightarrow> (nat \<times> cb_op) list \<Rightarrow> 's \<Rightarrow> (exn + bool list) \<times> 's" where
  "timed_session sv cfg d [] s = (Inr [], s)"
| "timed_session sv cfg d ((ms, x) # xs) s =
     (case run sv (cb_op_prog cfg d x) [] (srv_wait sv ms s) of
        (Inl e, s') \<Rightarrow> (Inl e, s')
      | (Inr a, s') \<Rightarrow>
          (case timed_session sv cfg d xs s' of
             (Inl e, s'') \<Rightarrow> (Inl e, s'')
           | (Inr as, s'') \<Rightarrow> (Inr (a # as), s'')))"

definition timed_rel :: "string \<Rightarrow> keyspace \<Rightarrow> timed_breaker \<Rightarrow> bool" where
  "timed_rel d K tb \<longleftrightarrow>
     breaker_rel d K (tb_breaker tb) \<and> ks_now K = tb_now tb \<and>
     deadline K (cb_key d ''failure_window_attempts'') = tb_window tb \<and>
     deadline K (cb_key d ''failure_window_failures'') = tb_window tb \<and>
     deadline K (cb_key d ''trip_count'') = tb_decay tb \<and>
     deadline K (cb_key d ''state'') = None \<and> deadline K (cb_key d ''cooldown_until'') = None \<and>
     deadline K trips_metric = None"

lemma deadline_put_str [keyspace_simps]:
  "deadline (put_str k v t K) k' =
     (if k' = k then (if (case t of None \<Rightarrow> True | Some x \<Rightarrow> ks_now K \<le> x) then t else None) else deadline K k')"
  by (auto simp: deadline_def live_put_str alive_def split: option.splits)

lemma live_ks_wait:
  "live (ks_wait ms K) k = (if passed (ks_now K + int ms) (deadline K k) then None else live K k)"
  by (auto simp: live_def deadline_def passed_def alive_def split: option.splits)

lemma str_at_ks_wait:
  "str_at (ks_wait ms K) k = (if passed (ks_now K + int ms) (deadline K k) then Some None else str_at K k)"
  by (simp add: str_at_def live_ks_wait)

lemma counter_at_ks_wait:
  "counter_at (ks_wait ms K) k = (if passed (ks_now K + int ms) (deadline K k) then Some 0 else counter_at K k)"
  by (simp add: counter_at_def str_at_ks_wait int_or_zero_def)

lemma deadline_ks_wait:
  "deadline (ks_wait ms K) k = (if passed (ks_now K + int ms) (deadline K k) then None else deadline K k)"
  unfolding deadline_def [of "ks_wait ms K"] by (simp add: live_ks_wait deadline_def)

lemma passed_None [simp]: "\<not> passed now None"
  by (simp add: passed_def)

lemma timed_rel_pass:
  assumes "timed_rel d K tb"
  shows "timed_rel d (ks_wait ms K) (spec_pass ms tb)"
  using assms
  by (simp add: timed_rel_def breaker_rel_def spec_pass_def Let_def str_at_ks_wait counter_at_ks_wait deadline_ks_wait)

text \<open>What the operations do to the expiries.\<close>

definition cb_window_keys :: "string \<Rightarrow> string set" where
  "cb_window_keys d = {cb_key d ''failure_window_attempts'', cb_key d ''failure_window_failures''}"

lemma reset_window_deadline:
  "deadline (snd (run mem_server (reset_window d) [] K)) k = (if k \<in> cb_window_keys d then None else deadline K k)"
  "ks_now (snd (run mem_server (reset_window d) [] K)) = ks_now K"
  by (simp_all add: run_reset_window keyspace_simps cb_window_keys_def)

lemma record_attempt_deadline:
  assumes rel: "breaker_rel d K b" and cfg: "cb_config_ok cfg"
    and run: "run mem_server (record_attempt cfg d failed) [] K = (r, K')"
  shows "deadline K' k = (if k \<in> cb_window_keys d then Some (ks_now K + failure_streak_ttl_seconds cfg * 1000)
      else deadline K k)" and "ks_now K' = ks_now K"
proof -
  obtain va where va: "str_at K (cb_key d ''failure_window_attempts'') = Some va"
    "int_or_zero va = Inr (b_attempts b)" "va \<noteq> Some (RText [])"
    using rel by (auto simp: breaker_rel_def elim: counter_at_SomeE)
  obtain vf where vf: "str_at K (cb_key d ''failure_window_failures'') = Some vf"
    "int_or_zero vf = Inr (b_failures b)" "vf \<noteq> Some (RText [])"
    using rel by (auto simp: breaker_rel_def elim: counter_at_SomeE)
  let ?t = "Some (ks_now K + failure_streak_ttl_seconds cfg * 1000)"
  have K': "K' = put_str (cb_key d ''failure_window_failures'') (RInt (b_failures b + (if failed then 1 else 0))) ?t
      (put_str (cb_key d ''failure_window_attempts'') (RInt (b_attempts b + 1)) ?t K)"
    using run cfg va vf by (simp add: record_attempt_def run_simps lift_res_def Let_def cb_config_ok_def keyspace_simps)
  show "deadline K' k = (if k \<in> cb_window_keys d then ?t else deadline K k)" "ks_now K' = ks_now K"
    using cfg unfolding K' by (auto simp: keyspace_simps cb_window_keys_def cb_config_ok_def)
qed

lemma open_circuit_deadline:
  assumes rel: "breaker_rel d K b" and cfg: "cb_config_ok cfg"
    and run: "run mem_server (open_circuit cfg d now) [] K = (r, K')"
  shows "deadline K' k = (if k = cb_key d ''trip_count''
      then Some (ks_now K + max_cooldown_seconds cfg * TRIP_COUNT_DECAY_MULTIPLIER * 1000)
      else if k \<in> cb_window_keys d \<or> k \<in> {cb_key d ''state'', cb_key d ''cooldown_until''} then None
      else deadline K k)" and "ks_now K' = ks_now K"
proof -
  obtain vt where vt: "str_at K (cb_key d ''trip_count'') = Some vt"
    "int_or_zero vt = Inr (b_trips b)" "vt \<noteq> Some (RText [])"
    using rel by (auto simp: breaker_rel_def elim: counter_at_SomeE)
  obtain n where n: "counter_at K trips_metric = Some n" using rel by (auto simp: breaker_rel_def)
  then obtain vm where vm: "str_at K trips_metric = Some vm" "as_int vm = Some n"
    by (elim counter_at_SomeE)
      (auto simp: int_or_zero_def as_int_def py_int_def split: option.splits rstr.splits)
  have ttl: "0 < max_cooldown_seconds cfg * TRIP_COUNT_DECAY_MULTIPLIER"
    using cfg by (simp add: cb_config_ok_def TRIP_COUNT_DECAY_MULTIPLIER_def)
  define K1 where "K1 = put_str (cb_key d ''trip_count'') (RInt (b_trips b + 1))
    (Some (ks_now K + max_cooldown_seconds cfg * TRIP_COUNT_DECAY_MULTIPLIER * 1000)) K"
  define K2 where "K2 = put_str trips_metric (RInt (n + 1)) (deadline K1 trips_metric) K1"
  let ?K3 = "put_str (cb_key d ''cooldown_until'') (RNum (the (b_until (spec_open cfg now b)))) None
        (put_str (cb_key d ''state'') (RText (state_value OPEN)) None K2)"
  have K': "K' = snd (run mem_server (reset_window d) [] ?K3)"
    using run vt ttl
    by (simp add: open_circuit_def run_simps lift_res_def Let_def keyspace_simps vm K2_def K1_def
        spec_open_def run_reset_window)
  have K1: "deadline K1 k = (if k = cb_key d ''trip_count''
      then Some (ks_now K + max_cooldown_seconds cfg * TRIP_COUNT_DECAY_MULTIPLIER * 1000) else deadline K k)"
    "ks_now K1 = ks_now K" for k
    using ttl by (simp_all add: K1_def keyspace_simps)
  have K2: "deadline K2 k = deadline K1 k" "ks_now K2 = ks_now K1" for k
    by (simp_all add: K2_def keyspace_simps)
  have K3: "deadline ?K3 k = (if k \<in> {cb_key d ''state'', cb_key d ''cooldown_until''} then None else deadline K2 k)"
    "ks_now ?K3 = ks_now K2" for k
    by (simp_all add: keyspace_simps)
  have no_trip: "cb_key d ''trip_count'' \<notin> cb_window_keys d" by (simp add: cb_window_keys_def)
  show "deadline K' k = (if k = cb_key d ''trip_count''
      then Some (ks_now K + max_cooldown_seconds cfg * TRIP_COUNT_DECAY_MULTIPLIER * 1000)
      else if k \<in> cb_window_keys d \<or> k \<in> {cb_key d ''state'', cb_key d ''cooldown_until''} then None
      else deadline K k)"
    unfolding K' reset_window_deadline K3 K2 K1 using no_trip by auto
  show "ks_now K' = ks_now K" unfolding K' reset_window_deadline K3 K2 K1 ..
qed

lemma timed_relI:
  assumes "breaker_rel d K b" "ks_now K = now"
    and "\<And>k. k \<in> cb_window_keys d \<Longrightarrow> deadline K k = w" "deadline K (cb_key d ''trip_count'') = t"
    and "\<And>k. k \<in> {cb_key d ''state'', cb_key d ''cooldown_until'', trips_metric} \<Longrightarrow> deadline K k = None"
  shows "timed_rel d K \<lparr>tb_breaker = b, tb_now = now, tb_window = w, tb_decay = t\<rparr>"
  using assms by (simp add: timed_rel_def cb_window_keys_def)

lemma timed_relD:
  assumes "timed_rel d K tb"
  shows "breaker_rel d K (tb_breaker tb)" "ks_now K = tb_now tb"
    "k \<in> cb_window_keys d \<Longrightarrow> deadline K k = tb_window tb" "deadline K (cb_key d ''trip_count'') = tb_decay tb"
    "k \<in> {cb_key d ''state'', cb_key d ''cooldown_until'', trips_metric} \<Longrightarrow> deadline K k = None"
  using assms by (auto simp: timed_rel_def cb_window_keys_def)

lemma cb_keys_apart [simp]:
  "cb_key d ''trip_count'' \<notin> cb_window_keys d" "cb_key d ''state'' \<notin> cb_window_keys d"
  "cb_key d ''cooldown_until'' \<notin> cb_window_keys d" "trips_metric \<notin> cb_window_keys d"
  by (simp_all add: cb_window_keys_def)

text \<open>The state an operation leaves, beside what \<open>cb_op_refines\<close> says of it.\<close>

lemma allow_request_timed:
  assumes "timed_rel d K tb"
  shows "\<exists>K'. run mem_server (allow_request d now) [] K = (Inr (fst (spec_allow now (tb_breaker tb))), K') \<and>
    timed_rel d K' (snd (timed_op cfg (Allow now) tb))"
proof -
  note rel = timed_relD [OF assms]
  obtain K' where K': "run mem_server (allow_request d now) [] K = (Inr (fst (spec_allow now (tb_breaker tb))), K')"
    "breaker_rel d K' (snd (spec_allow now (tb_breaker tb)))"
    using allow_request_refines [OF rel(1)] by blast
  have get: "str_at K (cb_key d ''cooldown_until'') = Some (map_option RNum (b_until (tb_breaker tb)))"
    using rel(1) by (simp add: breaker_rel_def)
  have "K' = K \<or> K' = put_str (cb_key d ''state'') (RText (state_value HALF_OPEN)) None K"
    using K'(1) get
    by (cases "b_until (tb_breaker tb)")
      (auto simp: allow_request_def run_simps run_cb_state [OF rel(1)] lift_res_def py_float_def split: if_splits)
  then have "deadline K' k = deadline K k" "ks_now K' = ks_now K" if "k \<noteq> cb_key d ''state'' \<or> deadline K k = None" for k
    using that by (auto simp: keyspace_simps)
  with K' rel show ?thesis by (auto intro!: timed_relI [where w = "tb_window tb", simplified] simp: timed_rel_def cb_window_keys_def)
qed

lemma cb_record_success_timed:
  assumes "timed_rel d K tb" and cfg: "cb_config_ok cfg"
  shows "\<exists>K'. run mem_server (cb_record_success cfg d) [] K = (Inr (), K') \<and>
    timed_rel d K' (snd (timed_op cfg Success tb))"
proof -
  note rel = timed_relD [OF assms(1)]
  let ?b = "tb_breaker tb"
  obtain K' where K': "run mem_server (cb_record_success cfg d) [] K = (Inr (), K')"
    "breaker_rel d K' (spec_success cfg ?b)"
    using cb_record_success_refines [OF rel(1) cfg] by blast
  have "deadline K' k = (if k \<in> cb_window_keys d then window_expiry cfg tb else deadline K k) \<and> ks_now K' = ks_now K"
    if "k \<noteq> cb_key d ''state'' \<or> deadline K k = None" for k
  proof (cases "b_state ?b = HALF_OPEN")
    case True
    then have "K' = snd (run mem_server (reset_window d) [] (put_str (cb_key d ''state'') (RText (state_value CLOSED)) None K))"
      using K'(1) by (simp add: cb_record_success_def run_simps run_cb_state [OF rel(1)] run_reset_window)
    with True that show ?thesis by (auto simp: reset_window_deadline keyspace_simps window_expiry_def)
  next
    case False
    from run_record_attempt [OF rel(1) cfg, of False] obtain K1 where
      K1: "run mem_server (record_attempt cfg d False) [] K = (Inr (b_attempts ?b + 1, b_failures ?b), K1)"
      by auto
    then have "K' = (if attempt_threshold cfg \<le> b_attempts ?b + 1 then snd (run mem_server (reset_window d) [] K1) else K1)"
      using False K'(1) by (simp add: cb_record_success_def run_simps run_cb_state [OF rel(1)] run_reset_window split: if_splits)
    with False record_attempt_deadline [OF rel(1) cfg K1] rel(2) show ?thesis
      by (simp add: reset_window_deadline window_expiry_def)
  qed
  with K' rel show ?thesis
    by (auto intro!: timed_relI [where w = "window_expiry cfg tb" and now = "tb_now tb" and t = "tb_decay tb", simplified]
        simp: timed_rel_def cb_window_keys_def)
qed

lemma spec_open_trips: "b_trips (spec_open cfg now b) = b_trips b + 1"
  by (simp add: spec_open_def)

lemma cb_record_failure_timed:
  assumes "timed_rel d K tb" and cfg: "cb_config_ok cfg"
  shows "\<exists>K'. run mem_server (cb_record_failure cfg d now) [] K = (Inr (), K') \<and>
    timed_rel d K' (snd (timed_op cfg (Failure now) tb))"
proof -
  note rel = timed_relD [OF assms(1)]
  let ?b = "tb_breaker tb" and ?b' = "spec_failure cfg now (tb_breaker tb)"
  let ?decay = "if b_trips ?b' = b_trips ?b then tb_decay tb else decay_expiry cfg tb"
  obtain K' where K': "run mem_server (cb_record_failure cfg d now) [] K = (Inr (), K')" "breaker_rel d K' ?b'"
    using cb_record_failure_refines [OF rel(1) cfg] by blast
  have "deadline K' k = (if k = cb_key d ''trip_count'' then ?decay
      else if k \<in> cb_window_keys d then window_expiry cfg tb else deadline K k) \<and> ks_now K' = ks_now K"
    if k: "k \<notin> {cb_key d ''state'', cb_key d ''cooldown_until''} \<or> deadline K k = None" for k
  proof (cases "b_state ?b = HALF_OPEN")
    case True
    then have "run mem_server (open_circuit cfg d now) [] K = (Inr (), K')" and b': "?b' = spec_open cfg now ?b"
      using K'(1) by (simp_all add: cb_record_failure_def run_simps run_cb_state [OF rel(1)] spec_failure_def)
    from open_circuit_deadline [OF rel(1) cfg this(1)] True k rel(2) show ?thesis
      by (auto simp: window_expiry_def decay_expiry_def b' spec_open_trips)
  next
    case False
    from run_record_attempt [OF rel(1) cfg, of True] obtain K1 where
      K1: "run mem_server (record_attempt cfg d True) [] K = (Inr (b_attempts ?b + 1, b_failures ?b + 1), K1)"
        "breaker_rel d K1 (?b\<lparr>b_attempts := b_attempts ?b + 1, b_failures := b_failures ?b + 1\<rparr>)"
      by auto
    note d1 = record_attempt_deadline [OF rel(1) cfg K1(1)]
    have run: "run mem_server (cb_record_failure cfg d now) [] K =
        (if attempt_threshold cfg \<le> b_attempts ?b + 1 then
          (if failure_threshold cfg \<le> of_int (b_failures ?b + 1) / of_int (b_attempts ?b + 1)
           then run mem_server (open_circuit cfg d now) [] K1 else run mem_server (reset_window d) [] K1)
         else (Inr (), K1))"
      using False by (simp add: cb_record_failure_def run_simps run_cb_state [OF rel(1)] K1(1))
    consider "\<not> attempt_threshold cfg \<le> b_attempts ?b + 1"
      | "attempt_threshold cfg \<le> b_attempts ?b + 1"
        "failure_threshold cfg \<le> of_int (b_failures ?b + 1) / of_int (b_attempts ?b + 1)"
      | "attempt_threshold cfg \<le> b_attempts ?b + 1"
        "\<not> failure_threshold cfg \<le> of_int (b_failures ?b + 1) / of_int (b_attempts ?b + 1)" by blast
    then show ?thesis
    proof cases
      case 1
      with run K'(1) have "K' = K1" by simp
      with 1 False d1 rel(2,4) show ?thesis by (simp add: window_expiry_def spec_failure_def)
    next
      case 2
      with run K'(1) have r: "run mem_server (open_circuit cfg d now) [] K1 = (Inr (), K')" by simp
      have b': "?b' = spec_open cfg now ?b" using 2 False by (simp add: spec_failure_def)
      from open_circuit_deadline [OF K1(2) cfg r] 2 d1 k rel(2) show ?thesis
        by (auto simp: window_expiry_def decay_expiry_def b' spec_open_trips)
    next
      case 3
      with run K'(1) have "run mem_server (reset_window d) [] K1 = (Inr (), K')" by simp
      then have "K' = snd (run mem_server (reset_window d) [] K1)" by (metis snd_conv)
      with 3 False d1 rel(2,4) show ?thesis by (simp add: reset_window_deadline window_expiry_def spec_failure_def)
    qed
  qed
  note dl = this
  have "timed_rel d K' \<lparr>tb_breaker = ?b', tb_now = tb_now tb, tb_window = window_expiry cfg tb, tb_decay = ?decay\<rparr>"
  proof (rule timed_relI [OF K'(2)])
    show "ks_now K' = tb_now tb" using dl [of trips_metric] rel(2) by simp
    show "deadline K' k = window_expiry cfg tb" if "k \<in> cb_window_keys d" for k
    proof -
      have "k \<notin> {cb_key d ''state'', cb_key d ''cooldown_until'', cb_key d ''trip_count''}" using that cb_keys_apart by blast
      with dl [of k] that show ?thesis by simp
    qed
    show "deadline K' (cb_key d ''trip_count'') = ?decay" using dl [of "cb_key d ''trip_count''"] by simp
    show "deadline K' k = None" if "k \<in> {cb_key d ''state'', cb_key d ''cooldown_until'', trips_metric}" for k
      using dl [of k] rel(5) [OF that] that by auto
  qed
  with K'(1) show ?thesis by (simp add: Let_def timed_rel_def)
qed

lemma cb_op_timed:
  assumes "timed_rel d K tb" "cb_config_ok cfg"
  shows "\<exists>K'. run mem_server (cb_op_prog cfg d x) [] K = (Inr (fst (timed_op cfg x tb)), K') \<and>
    timed_rel d K' (snd (timed_op cfg x tb))"
proof (cases x)
  case (Allow now)
  with allow_request_timed [OF assms(1), of now cfg] show ?thesis by simp
next
  case Success
  with cb_record_success_timed [OF assms] show ?thesis by (auto simp: run_simps)
next
  case (Failure now)
  with cb_record_failure_timed [OF assms, of now] show ?thesis by (auto simp: run_simps Let_def)
qed

text \<open>The abstract breaker: what trips it, and for how long.\<close>

lemma spec_failure_opens_iff:
  assumes "b_state b = CLOSED"
  shows "b_state (spec_failure cfg now b) = OPEN \<longleftrightarrow>
    attempt_threshold cfg \<le> b_attempts b + 1 \<and>
    failure_threshold cfg \<le> of_int (b_failures b + 1) / of_int (b_attempts b + 1)"
  using assms by (auto simp: spec_failure_def spec_open_def)

lemma spec_open_until:
  "b_until (spec_failure cfg now b) = Some t \<Longrightarrow> b_until b \<noteq> Some t \<Longrightarrow>
     t = now + of_int (min (cooldown_seconds cfg * 2 ^ nat (b_trips b)) (max_cooldown_seconds cfg))"
  by (auto simp: spec_failure_def spec_open_def split: if_splits)

subsection \<open>Footprint\<close>

definition cb_suffixes :: "string set" where
  "cb_suffixes = {''state'', ''cooldown_until'', ''failure_window_attempts'',
     ''failure_window_failures'', ''trip_count''}"

definition cb_keys :: "string \<Rightarrow> string set" where
  "cb_keys d = insert trips_metric (cb_key d ` cb_suffixes)"

lemma cb_keys_mem [simp]:
  "trips_metric \<in> cb_keys d" "cb_key d ''state'' \<in> cb_keys d" "cb_key d ''cooldown_until'' \<in> cb_keys d"
  "cb_key d ''failure_window_attempts'' \<in> cb_keys d" "cb_key d ''failure_window_failures'' \<in> cb_keys d"
  "cb_key d ''trip_count'' \<in> cb_keys d"
  by (simp_all add: cb_keys_def cb_suffixes_def)

lemma cb_suffix_no_colon: "s \<in> cb_suffixes \<Longrightarrow> CHR '':'' \<notin> set s"
  by (auto simp: cb_suffixes_def)

lemma cb_key_domain:
  assumes "cb_key d s = cb_key d' s'" "s \<in> cb_suffixes" "s' \<in> cb_suffixes"
  shows "d = d'"
  using assms last_field_unique(1) [of d "CHR '':''" s d' s'] cb_suffix_no_colon
  by (simp add: cb_key_def)

lemma cb_keys_disjoint:
  assumes "d \<noteq> d'" "k \<in> cb_keys d'" "k \<noteq> trips_metric"
  shows "k \<notin> cb_keys d"
proof
  assume "k \<in> cb_keys d"
  with assms(2,3) obtain s s' where "k = cb_key d s" "s \<in> cb_suffixes" "k = cb_key d' s'" "s' \<in> cb_suffixes"
    unfolding cb_keys_def by blast
  with cb_key_domain [of d s d' s'] assms(1) show False by simp
qed

lemma within_cb_get [simp]: "prog_within Q (cb_get k) \<longleftrightarrow> k \<in> Q"
  by (auto simp: cb_get_def split: reply.splits)

lemma within_cb_set [simp]: "prog_within Q (cb_set k v t) \<longleftrightarrow> k \<in> Q"
  by (simp add: cb_set_def)

lemma within_cb_state [simp]: "prog_within (cb_keys d) (cb_state d)"
  unfolding cb_state_def
  by (rule prog_within_andthen) (auto split: option.splits)

lemma within_reset_window [simp]: "prog_within (cb_keys d) (reset_window d)"
  by (simp add: reset_window_def)

lemma within_record_attempt [simp]: "prog_within (cb_keys d) (record_attempt cfg d failed)"
  by (simp add: record_attempt_def Let_def)

lemma within_open_circuit [simp]: "prog_within (cb_keys d) (open_circuit cfg d now)"
  by (simp add: open_circuit_def Let_def)

lemma within_allow_request [simp]: "prog_within (cb_keys d) (allow_request d now)"
  unfolding allow_request_def by (auto intro!: prog_within_andthen split: option.splits)

lemma within_cb_record_success [simp]: "prog_within (cb_keys d) (cb_record_success cfg d)"
  unfolding cb_record_success_def by (auto intro!: prog_within_andthen)

lemma within_cb_record_failure [simp]: "prog_within (cb_keys d) (cb_record_failure cfg d now)"
  unfolding cb_record_failure_def by (auto intro!: prog_within_andthen)

lemma within_cb_op: "prog_within (cb_keys d) (cb_op_prog cfg d x)"
  by (cases x) (auto intro!: prog_within_andthen)


subsection \<open>Properties\<close>

text \<open>
  \<^bold>\<open>C15\<close>. The circuit breaker implements the abstract three-state breaker. On any server that
  behaves as Redis documents, and with every round trip answered, a whole history of
  \<open>allow_request\<close>, \<open>record_success\<close> and \<open>record_failure\<close> calls of one client on a domain, with pauses of any
  length between the calls (a call itself taking less than the server's millisecond), returns what
  the abstract breaker answers, raises nothing, and leaves the five keys and their expiries
  representing the abstract state: the window's counts restart when \<open>failure_streak_ttl_seconds\<close>
  have passed since its last attempt, the trip count when three times \<open>max_cooldown_seconds\<close> have passed
  since the last trip, the state and \<open>cooldown_until\<close> never expire.
\<close>

theorem breaker_session_refines:
  assumes "redis_server sv view" "timed_rel d (view s) tb" "cb_config_ok cfg"
  shows "fst (timed_session sv cfg d xs s) = Inr (fst (timed_spec cfg xs tb)) \<and>
    timed_rel d (view (snd (timed_session sv cfg d xs s))) (snd (timed_spec cfg xs tb))"
  using assms(2)
proof (induction xs arbitrary: s tb)
  case (Cons p xs)
  obtain ms x where p: "p = (ms, x)" by fastforce
  have wait: "view (srv_wait sv ms s) = ks_wait ms (view s)" by (rule redis_server.wait_state [OF assms(1)])
  obtain K' where K': "run mem_server (cb_op_prog cfg d x) [] (ks_wait ms (view s)) =
      (Inr (fst (timed_op cfg x (spec_pass ms tb))), K')"
    "timed_rel d K' (snd (timed_op cfg x (spec_pass ms tb)))"
    using cb_op_timed [OF timed_rel_pass [OF Cons.prems] assms(3)] by blast
  obtain s' where s': "run sv (cb_op_prog cfg d x) [] (srv_wait sv ms s) =
      (Inr (fst (timed_op cfg x (spec_pass ms tb))), s')" "view s' = K'"
    using redis_server.run_sim [OF assms(1), of "cb_op_prog cfg d x" "[]" "srv_wait sv ms s"] K'(1)
    unfolding wait by (metis fst_conv prod.collapse snd_conv)
  obtain r s'' where r: "timed_session sv cfg d xs s' = (r, s'')" by fastforce
  have "r = Inr (fst (timed_spec cfg xs (snd (timed_op cfg x (spec_pass ms tb))))) \<and>
      timed_rel d (view s'') (snd (timed_spec cfg xs (snd (timed_op cfg x (spec_pass ms tb)))))"
    using Cons.IH [of s'] K'(2) unfolding s'(2) r by simp
  with r s'(1) show ?case by (simp add: p case_prod_beta)
qed simp

definition fresh_breaker :: breaker where
  "fresh_breaker = \<lparr>b_state = CLOSED, b_attempts = 0, b_failures = 0, b_trips = 0, b_until = None\<rparr>"

lemma fresh_breaker_rel: "breaker_rel d empty_keyspace fresh_breaker"
  by (simp add: breaker_rel_def fresh_breaker_def counter_at_def int_or_zero_def)

definition eager_config :: cb_config where
  "eager_config = cb_defaults\<lparr>attempt_threshold := 1\<rparr>"

lemma config_ok_examples [simp]: "cb_config_ok cb_defaults" "cb_config_ok eager_config"
  by (simp_all add: cb_config_ok_def cb_defaults_def eager_config_def)

lemmas breaker_eval = spec_allow_def spec_success_def spec_failure_def spec_open_def fresh_breaker_def
  eager_config_def cb_defaults_def

definition fresh_timed :: timed_breaker where
  "fresh_timed = \<lparr>tb_breaker = fresh_breaker, tb_now = 0, tb_window = None, tb_decay = None\<rparr>"

lemma fresh_timed_rel: "timed_rel d empty_keyspace fresh_timed"
  using fresh_breaker_rel [of d] by (simp add: timed_rel_def fresh_timed_def)

definition pair_config :: cb_config where
  "pair_config = cb_defaults\<lparr>attempt_threshold := 2\<rparr>"

lemma pair_config_ok [simp]: "cb_config_ok pair_config"
  by (simp add: cb_config_ok_def cb_defaults_def pair_config_def)

text \<open>
  Two failures within the window trip the breaker, two failures 600.001 s apart do not; a second trip
  within three hours of the first doubles the cooldown, one after them does not.
\<close>

theorem breaker_session_refines_witness:
  "fst (timed_session mem_server pair_config ''a.com''
      [(0, Failure 0), (600000, Failure 600), (0, Allow 601)] empty_keyspace) = Inr [True, True, False] \<and>
   fst (timed_session mem_server pair_config ''a.com''
      [(0, Failure 0), (600001, Failure 600), (0, Allow 601)] empty_keyspace) = Inr [True, True, True] \<and>
   fst (timed_session mem_server eager_config ''a.com''
      [(0, Failure 0), (10800000, Allow 10800), (0, Failure 10800), (0, Allow 11400)] empty_keyspace) = Inr [True, True, True, False] \<and>
   fst (timed_session mem_server eager_config ''a.com''
      [(0, Failure 0), (10800001, Allow 10800), (0, Failure 10800), (0, Allow 11400)] empty_keyspace) = Inr [True, True, True, True]"
proof -
  note timed_eval = fresh_timed_def fresh_breaker_def pair_config_def eager_config_def cb_defaults_def spec_pass_def passed_def
    window_expiry_def decay_expiry_def TRIP_COUNT_DECAY_MULTIPLIER_def Let_def spec_allow_def spec_failure_def spec_open_def
  have refines: "fst (timed_session mem_server cfg ''a.com'' xs empty_keyspace) = Inr (fst (timed_spec cfg xs fresh_timed))"
    if "cb_config_ok cfg" for cfg xs
    using breaker_session_refines [where d = "''a.com''" and xs = xs, OF mem.redis_server_axioms fresh_timed_rel that] by simp
  let ?tb = "\<lambda>st n u now t. \<lparr>tb_breaker = \<lparr>b_state = st, b_attempts = 0, b_failures = 0, b_trips = n, b_until = Some u\<rparr>,
    tb_now = now, tb_window = None, tb_decay = t\<rparr>"
  have first: "timed_op eager_config (Failure 0) (spec_pass 0 fresh_timed) = (True, ?tb OPEN 1 600 0 (Some 10800000))"
    by (simp add: timed_eval)
  have soon: "timed_op eager_config (Allow 10800) (spec_pass 10800000 (?tb OPEN 1 600 0 (Some 10800000))) =
      (True, ?tb HALF_OPEN 1 600 10800000 (Some 10800000))"
    "timed_op eager_config (Failure 10800) (spec_pass 0 (?tb HALF_OPEN 1 600 10800000 (Some 10800000))) =
      (True, ?tb OPEN 2 12000 10800000 (Some 21600000))"
    "timed_op eager_config (Allow 11400) (spec_pass 0 (?tb OPEN 2 12000 10800000 (Some 21600000))) =
      (False, ?tb OPEN 2 12000 10800000 (Some 21600000))"
    by (simp_all add: timed_eval)
  have late: "timed_op eager_config (Allow 10800) (spec_pass 10800001 (?tb OPEN 1 600 0 (Some 10800000))) =
      (True, ?tb HALF_OPEN 0 600 10800001 None)"
    "timed_op eager_config (Failure 10800) (spec_pass 0 (?tb HALF_OPEN 0 600 10800001 None)) =
      (True, ?tb OPEN 1 11400 10800001 (Some 21600001))"
    "timed_op eager_config (Allow 11400) (spec_pass 0 (?tb OPEN 1 11400 10800001 (Some 21600001))) =
      (True, ?tb HALF_OPEN 1 11400 10800001 (Some 21600001))"
    by (simp_all add: timed_eval)
  have "fst (timed_spec pair_config [(0, Failure 0), (600000, Failure 600), (0, Allow 601)] fresh_timed) = [True, True, False]"
    "fst (timed_spec pair_config [(0, Failure 0), (600001, Failure 600), (0, Allow 601)] fresh_timed) = [True, True, True]"
    by (simp_all add: timed_eval)
  then show ?thesis
    unfolding refines [OF pair_config_ok] refines [OF config_ok_examples(2)] timed_spec.simps first soon late prod.case by simp
qed

text \<open>
  \<^bold>\<open>C16\<close>. What trips a closed circuit. After one \<open>record_failure\<close> on a closed breaker the stored
  state is \<open>open\<close> exactly when at least \<open>attempt_threshold\<close> attempts have been sampled and the
  share of failures among them is at least \<open>failure_threshold\<close>; one success in the sample counts
  against tripping.
\<close>

theorem breaker_trip_rule:
  assumes "redis_server sv view" "breaker_rel d (view s) b" "cb_config_ok cfg" "b_state b = CLOSED"
  shows "str_at (view (snd (run sv (cb_record_failure cfg d now) [] s))) (cb_key d ''state'')
      = Some (Some (RText ''open'')) \<longleftrightarrow>
    attempt_threshold cfg \<le> b_attempts b + 1 \<and>
    failure_threshold cfg \<le> of_int (b_failures b + 1) / of_int (b_attempts b + 1)"
proof -
  let ?K = "view (snd (run sv (cb_record_failure cfg d now) [] s))"
  have "breaker_rel d ?K (spec_failure cfg now b)"
    using cb_record_failure_refines [OF assms(2,3), of now] redis_server.run_state [OF assms(1)]
    by (metis snd_conv)
  then have "str_at ?K (cb_key d ''state'') = Some (Some (RText ''open'')) \<longleftrightarrow>
      b_state (spec_failure cfg now b) = OPEN"
    by (cases "b_state (spec_failure cfg now b)") (auto simp: breaker_rel_def)
  with spec_failure_opens_iff [OF assms(4)] show ?thesis by simp
qed

theorem breaker_trip_rule_witness:
  "str_at (snd (run mem_server (cb_record_failure eager_config ''a.com'' 5) [] empty_keyspace))
    (cb_key ''a.com'' ''state'') = Some (Some (RText ''open''))"
proof -
  have "b_state fresh_breaker = CLOSED" by (simp add: fresh_breaker_def)
  from breaker_trip_rule [where d = "''a.com''" and now = 5,
    OF mem.redis_server_axioms fresh_breaker_rel config_ok_examples(2) this]
  show ?thesis by (simp add: breaker_eval)
qed

text \<open>
  \<^bold>\<open>C35\<close>. The cooldown: a failure that trips the breaker closes the door for exactly
  \<open>min (cooldown_seconds * 2 ^ trips) max_cooldown_seconds\<close> seconds (doubling per earlier trip,
  capped): a request strictly before that instant is refused, one from it on is let through, so
  a tripped domain is probed again at the latest \<open>max_cooldown_seconds\<close> after the trip.
\<close>

theorem breaker_cooldown:
  assumes "redis_server sv view" "breaker_rel d (view s) b" "cb_config_ok cfg"
    and "b_state b \<noteq> OPEN" "b_state (spec_failure cfg now b) = OPEN"
  shows "fst (run sv (cb_session cfg d [Failure now, Allow t]) [] s) =
    Inr [True, now + of_int (min (cooldown_seconds cfg * 2 ^ nat (b_trips b)) (max_cooldown_seconds cfg)) \<le> t]"
proof -
  have "spec_failure cfg now b = spec_open cfg now b"
    using assms(4,5) by (auto simp: spec_failure_def split: if_splits)
  then have "spec_session cfg [Failure now, Allow t] b = ([True, fst (spec_allow t (spec_open cfg now b))],
      snd (spec_allow t (spec_open cfg now b)))"
    by (simp split: prod.splits)
  with cb_session_refines [OF assms(2,3), of "[Failure now, Allow t]"] redis_server.run_result [OF assms(1)]
  have "fst (run sv (cb_session cfg d [Failure now, Allow t]) [] s) =
      Inr [True, fst (spec_allow t (spec_open cfg now b))]"
    by (metis fst_conv)
  then show ?thesis
    by (auto simp: spec_allow_def spec_open_def)
qed

theorem breaker_cooldown_witness:
  "fst (run mem_server (cb_session eager_config ''a.com'' [Failure 10, Allow 609]) [] empty_keyspace) =
     Inr [True, False] \<and>
   fst (run mem_server (cb_session eager_config ''a.com'' [Failure 10, Allow 610]) [] empty_keyspace) =
     Inr [True, True]"
  using breaker_cooldown [where d = "''a.com''" and now = 10 and t = 609,
      OF mem.redis_server_axioms fresh_breaker_rel config_ok_examples(2)]
    breaker_cooldown [where d = "''a.com''" and now = 10 and t = 610,
      OF mem.redis_server_axioms fresh_breaker_rel config_ok_examples(2)]
  by (simp add: breaker_eval)

text \<open>
  Isolation of domains. Whatever the network does to its round trips (delays, lost
  requests, lost replies), no breaker operation on one domain changes anything stored for
  another domain; only the global trip metric is shared.
\<close>

theorem breaker_domain_isolation:
  assumes "redis_server sv view" "d \<noteq> d'" "k \<in> cb_keys d'" "k \<noteq> trips_metric"
  shows "ks_db (view (snd (run sv (cb_op_prog cfg d x) es s))) k = ks_db (view s) k"
  using run_frame [OF within_cb_op, of k d cfg x es "view s"] cb_keys_disjoint [OF assms(2-4)]
    redis_server.run_state [OF assms(1), of "cb_op_prog cfg d x" es s] by simp

theorem breaker_domain_isolation_witness:
  "ks_db (snd (run mem_server (cb_op_prog cb_defaults ''a.com'' (Failure 1)) [(7, ReplyLost RedisTimeoutError)]
     empty_keyspace)) (cb_key ''b.com'' ''state'') = ks_db empty_keyspace (cb_key ''b.com'' ''state'')"
  by (rule breaker_domain_isolation [where d = "''a.com''" and d' = "''b.com''",
      OF mem.redis_server_axioms]) simp_all


subsection \<open>What several round trips do not guarantee\<close>

text \<open>Fetching and writing are separate round trips; two clients can read the same count.\<close>

lemmas cb_unroll = cb_get_def cb_set_def cb_state_def record_attempt_def cb_record_failure_def
  open_circuit_def reset_window_def allow_request_def unroll_simps Let_def

lemma client_step_cb_get [run_simps]:
  "str_at K k = Some v \<Longrightarrow> v \<noteq> Some (RText []) \<Longrightarrow>
   client_step mem_server (andthen (cb_get k) f) K = (f v, K)"
  by (auto simp: cb_get_def unroll_simps run_simps py_truthy_def split: option.splits)

lemma client_step_cb_set [run_simps]:
  "0 < s \<Longrightarrow> client_step mem_server (andthen (cb_set k v (Some s)) f) K =
     (f (), put_str k v (Some (ks_now K + s * 1000)) K)"
  by (simp add: cb_set_def unroll_simps run_simps)

definition alternate :: "nat list" where
  "alternate = [0, 1, 0, 1, 0, 1, 0, 1, 0, 1]"

text \<open>
  The sampling window is not updated atomically. Two clients that record a failure for
  one closed domain below the threshold, their round trips alternating, both finish without an
  error, and the window has grown by one attempt and one failure instead of two
  (\<^verbatim>\<open>orchestrator/worker.py\<close> says the breaker is Redis-atomic per domain).
\<close>

theorem breaker_lost_update:
  assumes "breaker_rel d K b" "cb_config_ok cfg" "b_state b = CLOSED"
    and "b_attempts b + 1 < attempt_threshold cfg"
  shows "\<exists>K'. interleave mem_server alternate
      [cb_record_failure cfg d now, cb_record_failure cfg d now] K = ([Return (), Return ()], K') \<and>
    counter_at K' (cb_key d ''failure_window_attempts'') = Some (b_attempts b + 1) \<and>
    counter_at K' (cb_key d ''failure_window_failures'') = Some (b_failures b + 1)"
proof -
  obtain vs where vs: "str_at K (cb_key d ''state'') = Some vs" "vs \<noteq> Some (RText [])"
    "(case vs of None \<Rightarrow> Inr CLOSED | Some v \<Rightarrow> parse_state v) = Inr CLOSED"
    using assms(1,3) by (auto simp: breaker_rel_def parse_state_def)
  obtain va where va: "str_at K (cb_key d ''failure_window_attempts'') = Some va"
    "int_or_zero va = Inr (b_attempts b)" "va \<noteq> Some (RText [])"
    using assms(1) by (auto simp: breaker_rel_def elim: counter_at_SomeE)
  obtain vf where vf: "str_at K (cb_key d ''failure_window_failures'') = Some vf"
    "int_or_zero vf = Inr (b_failures b)" "vf \<noteq> Some (RText [])"
    using assms(1) by (auto simp: breaker_rel_def elim: counter_at_SomeE)
  have state: "andthen (case vs of None \<Rightarrow> Return CLOSED | Some v \<Rightarrow> lift_res (parse_state v) Return) f = f CLOSED"
    for f :: "circuit_state \<Rightarrow> unit prog"
    using vs(3) by (auto simp: lift_res_def split: option.splits)
  show ?thesis
    using assms(2,4) vs(1,2) va vf
    by (simp add: alternate_def cb_record_failure_def cb_state_def record_attempt_def unroll_simps
        run_simps state lift_res_def Let_def cb_config_ok_def keyspace_simps py_int_def)
qed

theorem breaker_lost_update_witness:
  "\<exists>K'. interleave mem_server alternate
      [cb_record_failure cb_defaults ''a.com'' 0, cb_record_failure cb_defaults ''a.com'' 0] empty_keyspace
      = ([Return (), Return ()], K') \<and>
    counter_at K' (cb_key ''a.com'' ''failure_window_attempts'') = Some 1 \<and>
    counter_at K' (cb_key ''a.com'' ''failure_window_failures'') = Some 1"
  using breaker_lost_update [where d = "''a.com''" and now = 0,
      OF fresh_breaker_rel config_ok_examples(1)]
  by (simp add: breaker_eval)

lemma run_answered [run_simps]:
  "str_at K k = Some w \<Longrightarrow> w \<noteq> Some (RText []) \<Longrightarrow>
   run mem_server (andthen (cb_get k) g) ((0, Answered) # es) K = run mem_server (g w) es K"
  "run mem_server (andthen (cb_set k v None) f) ((0, Answered) # es) K =
     run mem_server (f ()) es (put_str k v None K)"
  "0 < s \<Longrightarrow> run mem_server (andthen (cb_set k v (Some s)) f) ((0, Answered) # es) K =
     run mem_server (f ()) es (put_str k v (Some (ks_now K + s * 1000)) K)"
  "run mem_server (andthen (cb_set k v t) f) ((0, RequestLost e) # es) K = (Inl e, K)"
  by (auto simp: cb_get_def cb_set_def unroll_simps run_simps py_truthy_def transact_def Let_def
      split: option.splits)

lemma spec_session_stuck:
  "b_state b = OPEN \<Longrightarrow> b_until b = None \<Longrightarrow>
   spec_session cfg (map Allow ts) b = (replicate (length ts) False, b)"
  by (induction ts) (auto simp: spec_allow_def)

lemma run_interrupted_open:
  assumes rel: "breaker_rel d K b" and cfg: "cb_config_ok cfg"
    and run: "run mem_server (open_circuit cfg d now)
      (replicate 4 (0, Answered) @ [(0, RequestLost e)]) K = (r, K')"
  shows "r = Inl e \<and> breaker_rel d K' (b\<lparr>b_state := OPEN, b_trips := b_trips b + 1\<rparr>)"
proof -
  obtain vt where vt: "str_at K (cb_key d ''trip_count'') = Some vt"
    "int_or_zero vt = Inr (b_trips b)" "vt \<noteq> Some (RText [])"
    using rel by (auto simp: breaker_rel_def elim: counter_at_SomeE)
  obtain n where "counter_at K trips_metric = Some n" using rel by (auto simp: breaker_rel_def)
  then obtain vm where vm: "str_at K trips_metric = Some vm" "as_int vm = Some n"
    by (elim counter_at_SomeE)
      (auto simp: int_or_zero_def as_int_def py_int_def split: option.splits rstr.splits)
  have ttl: "0 < max_cooldown_seconds cfg * TRIP_COUNT_DECAY_MULTIPLIER"
    using cfg by (simp add: cb_config_ok_def TRIP_COUNT_DECAY_MULTIPLIER_def)
  have ev: "replicate 4 (0::nat, Answered) = [(0, Answered), (0, Answered), (0, Answered), (0, Answered)]"
    by (simp add: eval_nat_numeral)
  show ?thesis
    using run vt ttl rel unfolding ev
    by (auto simp: open_circuit_def run_simps lift_res_def Let_def keyspace_simps vm breaker_rel_def py_int_def)
qed

text \<open>
  An interrupted first trip never heals. If the client loses the request that should
  store \<open>cooldown_until\<close>, after \<open>state\<close> was set to \<open>open\<close>, \<open>record_failure\<close> raises, and from then
  on every \<open>allow_request\<close> of the domain, at whatever time, is refused: no key involved has an
  expiry and only a later \<open>record_failure\<close> that trips again would write the missing one.
\<close>

theorem breaker_interrupted_trip_sticks:
  assumes "breaker_rel d K b" "cb_config_ok cfg" "b_state b = CLOSED" "b_until b = None"
    and "attempt_threshold cfg \<le> b_attempts b + 1"
    and "failure_threshold cfg \<le> of_int (b_failures b + 1) / of_int (b_attempts b + 1)"
    and "run mem_server (cb_record_failure cfg d now)
      (replicate 9 (0, Answered) @ [(0, RequestLost e)]) K = (r, K')"
  shows "r = Inl e \<and>
    fst (run mem_server (cb_session cfg d (map Allow ts)) [] K') = Inr (replicate (length ts) False)"
proof -
  obtain vs where vs: "str_at K (cb_key d ''state'') = Some vs" "vs \<noteq> Some (RText [])"
    "(case vs of None \<Rightarrow> Inr CLOSED | Some v \<Rightarrow> parse_state v) = Inr CLOSED"
    using assms(1,3) by (auto simp: breaker_rel_def parse_state_def)
  obtain va where va: "str_at K (cb_key d ''failure_window_attempts'') = Some va"
    "int_or_zero va = Inr (b_attempts b)" "va \<noteq> Some (RText [])"
    using assms(1) by (auto simp: breaker_rel_def elim: counter_at_SomeE)
  obtain vf where vf: "str_at K (cb_key d ''failure_window_failures'') = Some vf"
    "int_or_zero vf = Inr (b_failures b)" "vf \<noteq> Some (RText [])"
    using assms(1) by (auto simp: breaker_rel_def elim: counter_at_SomeE)
  have state: "andthen (case vs of None \<Rightarrow> Return CLOSED | Some v \<Rightarrow> lift_res (parse_state v) Return) f = f CLOSED"
    for f :: "circuit_state \<Rightarrow> unit prog"
    using vs(3) by (auto simp: lift_res_def split: option.splits)
  have ev: "replicate 9 (0::nat, Answered) @ [(0, RequestLost e)] =
      [(0, Answered), (0, Answered), (0, Answered), (0, Answered), (0, Answered)] @
      replicate 4 (0, Answered) @ [(0, RequestLost e)]"
    by (simp add: eval_nat_numeral)
  define K1 where "K1 = snd (run mem_server (record_attempt cfg d True) [] K)"
  obtain rel1: "breaker_rel d K1 (b\<lparr>b_attempts := b_attempts b + 1, b_failures := b_failures b + 1\<rparr>)"
    using run_record_attempt [OF assms(1,2), of True] by (auto simp: K1_def)
  have "run mem_server (cb_record_failure cfg d now) (replicate 9 (0, Answered) @ [(0, RequestLost e)]) K =
      run mem_server (open_circuit cfg d now) (replicate 4 (0, Answered) @ [(0, RequestLost e)]) K1"
    using assms(2,5,6) vs(1,2) va vf unfolding ev
    by (simp add: cb_record_failure_def cb_state_def record_attempt_def unroll_simps run_simps state
        lift_res_def Let_def cb_config_ok_def keyspace_simps K1_def)
  with run_interrupted_open [OF rel1 assms(2)] assms(7)
  have "r = Inl e" and "breaker_rel d K' (b\<lparr>b_attempts := b_attempts b + 1, b_failures := b_failures b + 1,
      b_state := OPEN, b_trips := b_trips b + 1\<rparr>)"
    by auto
  with cb_session_refines [OF this(2) assms(2), of "map Allow ts"] assms(4) show ?thesis
    by (auto simp: spec_session_stuck)
qed

theorem breaker_interrupted_trip_sticks_witness:
  "\<exists>K'. run mem_server (cb_record_failure eager_config ''a.com'' 0)
      (replicate 9 (0, Answered) @ [(0, RequestLost RedisConnectionError)]) empty_keyspace
      = (Inl RedisConnectionError, K') \<and>
    fst (run mem_server (cb_session eager_config ''a.com'' (map Allow [100, 10000, 10000000])) [] K') =
      Inr [False, False, False]"
proof -
  obtain r K' where run: "run mem_server (cb_record_failure eager_config ''a.com'' 0)
      (replicate 9 (0, Answered) @ [(0, RequestLost RedisConnectionError)]) empty_keyspace = (r, K')"
    by fastforce
  have "r = Inl RedisConnectionError \<and> fst (run mem_server
      (cb_session eager_config ''a.com'' (map Allow [100, 10000, 10000000])) [] K') =
      Inr (replicate (length [100, 10000, 10000000 :: rat]) False)"
    by (rule breaker_interrupted_trip_sticks [OF fresh_breaker_rel config_ok_examples(2) _ _ _ _ run])
      (simp_all add: breaker_eval)
  with run show ?thesis by (simp add: eval_nat_numeral del: cb_session.simps)
qed

end
