(* ===== verification/Worker_Scope.thy ===== *)
theory Worker_Scope
  imports Worker_Outcome
begin

text \<open>
  What a URL's task can reach: the resources of its own tenant, job, page, domain and site, at
  levels of the job's ladder, and its own slot in the list of results.
\<close>

fun in_scope :: "worker \<Rightarrow> job \<Rightarrow> nat \<Rightarrow> string \<Rightarrow> wop \<Rightarrow> bool" where
  "in_scope self jb i url (AllowRequest d) = (d = extract_domain self url)"
| "in_scope self jb i url (RecordSuccess d) = (d = extract_domain self url)"
| "in_scope self jb i url (RecordFailure d) = (d = extract_domain self url)"
| "in_scope self jb i url (GetPlan t d ls) = (t = jb_tenant jb \<and> d = extract_domain self url \<and> ls = jb_levels jb)"
| "in_scope self jb i url (ReadSiteRefusal t s) = (t = jb_tenant jb \<and> s = wk_registrable self (extract_domain self url))"
| "in_scope self jb i url (RecordSiteRefused t s fs) = (t = jb_tenant jb \<and> s = wk_registrable self (extract_domain self url))"
| "in_scope self jb i url (ClearSiteRefusal t s) = (t = jb_tenant jb \<and> s = wk_registrable self (extract_domain self url))"
| "in_scope self jb i url (RecordLevel t d l) = (t = jb_tenant jb \<and> d = extract_domain self url \<and> l \<in> set (jb_levels jb))"
| "in_scope self jb i url (RecordPoolBlocked t d) = (t = jb_tenant jb \<and> d = extract_domain self url)"
| "in_scope self jb i url (RecordPoolOk t d) = (t = jb_tenant jb \<and> d = extract_domain self url)"
| "in_scope self jb i url (RecordBotaFailed t d) = (t = jb_tenant jb \<and> d = extract_domain self url)"
| "in_scope self jb i url (RecordBotaOk t d) = (t = jb_tenant jb \<and> d = extract_domain self url)"
| "in_scope self jb i url (WaitIfNeeded d t s) = (t = jb_tenant jb \<and> d = extract_domain self url)"
| "in_scope self jb i url (AcquireSlot d t n) = (t = jb_tenant jb \<and> d = extract_domain self url)"
| "in_scope self jb i url (ReleaseSlot d t sl) = (t = jb_tenant jb \<and> d = extract_domain self url)"
| "in_scope self jb i url (ClaimSeat q) = (cr_tenant q = jb_tenant jb \<and> cr_domain q = extract_domain self url)"
| "in_scope self jb i url (GetProxy t l d) = (t = jb_tenant jb \<and> l \<in> set (jb_levels jb) \<and> d = extract_domain self url)"
| "in_scope self jb i url (MarkProxySuccess t ip p) = (t = jb_tenant jb)"
| "in_scope self jb i url (MarkProxyFailure t ip p d) = (t = jb_tenant jb \<and> d = extract_domain self url)"
| "in_scope self jb i url (Fetch q) = (fq_tenant q = jb_tenant jb \<and> fq_url q = url \<and> fq_level q \<in> set (jb_levels jb))"
| "in_scope self jb i url (ReadJobStatus t j) = (t = jb_tenant jb \<and> j = jb_job_id jb)"
| "in_scope self jb i url (ReadSucceeded t j) = False"
| "in_scope self jb i url (ReadCachedRow t u) = (t = jb_tenant jb \<and> u = url)"
| "in_scope self jb i url (DlqEnqueue e) = (dq_tenant e = jb_tenant jb \<and> dq_job_id e = jb_job_id jb \<and> dq_url e = url)"
| "in_scope self jb i url (SetResult j r) = (j = i)"
| "in_scope self jb i url _ = True"

text \<open>A context of the task, and a call of the browser levels made for it.\<close>

definition own_ctx :: "worker \<Rightarrow> job \<Rightarrow> nat \<Rightarrow> string \<Rightarrow> url_ctx \<Rightarrow> bool" where
  "own_ctx self jb i url ctx \<longleftrightarrow> ux_index ctx = i \<and> ux_url ctx = url \<and> ux_tenant ctx = jb_tenant jb \<and>
     ux_job_id ctx = jb_job_id jb \<and> ux_domain ctx = extract_domain self url \<and>
     ux_site ctx = wk_registrable self (extract_domain self url) \<and>
     (\<forall>a. ux_admission ctx = Some a \<longrightarrow> ra_tenant a = jb_tenant jb \<and> ra_domain a = extract_domain self url)"

definition own_call :: "worker \<Rightarrow> job \<Rightarrow> string \<Rightarrow> fetch_call \<Rightarrow> bool" where
  "own_call self jb url c \<longleftrightarrow> fc_tenant c = jb_tenant jb \<and> fc_url c = url \<and> fc_level c \<in> set (jb_levels jb) \<and>
     (\<forall>a. fc_admission c = Some a \<longrightarrow> ra_tenant a = jb_tenant jb \<and> ra_domain a = extract_domain self url)"

named_theorems scoped

lemma own_ctxD:
  "own_ctx self jb i url ctx \<Longrightarrow> ux_index ctx = i"
  "own_ctx self jb i url ctx \<Longrightarrow> ux_url ctx = url"
  "own_ctx self jb i url ctx \<Longrightarrow> ux_tenant ctx = jb_tenant jb"
  "own_ctx self jb i url ctx \<Longrightarrow> ux_job_id ctx = jb_job_id jb"
  "own_ctx self jb i url ctx \<Longrightarrow> ux_domain ctx = extract_domain self url"
  "own_ctx self jb i url ctx \<Longrightarrow> ux_site ctx = wk_registrable self (extract_domain self url)"
  by (simp_all add: own_ctx_def)

lemma scope_lease:
  assumes "own_call self jb url c"
  shows "only_ops (in_scope self jb i url) (lease_for self c st)"
  unfolding lease_for_def gateway_lease_def new_gateway_proxy_def Let_def
  by (intro only_rules) (use assms in \<open>auto simp: own_call_def\<close>)

lemma scope_pass:
  assumes "own_call self jb url c"
  shows "only_ops (in_scope self jb i url) (fetch_pass self c st)"
proof -
  have "only_ops (in_scope self jb i url) (fetch_leased self c st p)" for st p
    unfolding fetch_leased_def score_attempt_def Let_def
    by (intro only_rules) (use assms in \<open>auto simp: own_call_def\<close>)
  then have body: "only_ops (in_scope self jb i url) (ubind (lease_for self c st) (\<lambda>l. case l of
      Inl result \<Rightarrow> uret (Done result) | Inr (p, st2) \<Rightarrow> fetch_leased self c st2 p))" for st
    using scope_lease [OF assms] by (intro only_rules)
  have claimed: "only_ops (in_scope self jb i url) (render_claim self (fc_admission c) w m)"
    if "only_ops (in_scope self jb i url) m" for w and m :: "'x um"
    using that assms by (auto simp: render_claim_def own_call_def intro!: only_rules split: option.split)
  show ?thesis
    unfolding fetch_pass_def Let_def by (intro only_rules claimed body) simp_all
qed

lemma scope_loop:
  assumes "own_call self jb url c"
  shows "only_ops (in_scope self jb i url) (fetch_loop n self c st)"
proof (induction n arbitrary: st)
  case (Suc n)
  have "only_ops (in_scope self jb i url) (case p of Again st' \<Rightarrow> fetch_loop n self c st' | Done r \<Rightarrow> uret r)" for p
    using Suc.IH by (auto intro: only_rules split: pass.split)
  then show ?case using scope_pass [OF assms] by (simp add: only_rules)
qed (simp add: only_rules)

lemma scope_with_proxy:
  "own_call self jb url c \<Longrightarrow> only_ops (in_scope self jb i url) (fetch_with_proxy self c)"
  unfolding fetch_with_proxy_def by (rule scope_loop)

lemma scope_fetch:
  assumes "own_ctx self jb i url ctx" "level \<in> set (jb_levels jb)" "adm = None \<or> adm = ux_admission ctx"
  shows "only_ops (in_scope self jb i url)
    (fetch_url self (ux_tenant ctx) (ux_url ctx) level ov force only sk adm)"
  unfolding fetch_url_def Let_def using assms
  by (auto intro!: only_rules scope_with_proxy simp: own_call_def own_ctx_def)

lemma scope_books [scoped]:
  "only_ops (in_scope self jb i url) (reject l r t)" "only_ops (in_scope self jb i url) (note_skipped r)"
  "only_ops (in_scope self jb i url) (gateway_fallback_usable self)"
  "only_ops (in_scope self jb i url) (gateway_block_retry_usable self r)"
  "only_ops (in_scope self jb i url) (store_result i cb r)"
  unfolding store_result_def finish_def reject_def note_skipped_def gateway_block_retry_usable_def gateway_fallback_usable_def
  by (intro only_rules; simp)+

lemma scope_conclude:
  assumes "own_ctx self jb i url ctx"
  shows "only_ops (in_scope self jb i url) (record_outcome ctx r)"
    and "only_ops (in_scope self jb i url) (conclude_failed ctx c m l ra err r)"
  unfolding conclude_failed_def record_outcome_def
  using assms scope_books(5) [of self jb i url "ux_on_result ctx" r]
  by (auto intro!: only_rules simp: own_ctx_def)

lemma scope_ends:
  assumes "own_ctx self jb i url ctx"
  shows "only_ops (in_scope self jb i url) (conclude_not_found ctx l r)"
    "only_ops (in_scope self jb i url) (conclude_circuit_open self ctx l)"
    "only_ops (in_scope self jb i url) (conclude_no_slot show_secs self ctx l)"
    "only_ops (in_scope self jb i url) (conclude_site_refused ctx fs)"
    "only_ops (in_scope self jb i url) (conclude_failure ctx l r cat)"
    "only_ops (in_scope self jb i url) (conclude_crash ctx cat m)"
    "only_ops (in_scope self jb i url) (conclude_exhausted self ctx)"
  unfolding conclude_not_found_def conclude_circuit_open_def conclude_no_slot_def conclude_site_refused_def
    conclude_failure_def conclude_crash_def conclude_exhausted_def remember_site_refusal_def Let_def
  by (intro only_rules scoped scope_conclude [OF assms]; simp add: own_ctxD [OF assms])+

lemma scope_handler:
  assumes "own_ctx self jb i url ctx"
  shows "only_ops (in_scope self jb i url) (handle_exception self ctx e)"
  unfolding handle_exception_def Let_def
  by (cases e) (auto intro!: only_rules scope_ends [OF assms] simp: own_ctxD [OF assms])

lemma scope_judge:
  assumes "own_ctx self jb i url ctx" "level \<in> set (jb_levels jb)"
  shows "only_ops (in_scope self jb i url) (judge self ctx level r)"
  unfolding judge_def success_branch_def failure_branch_def accept_content_def extract_and_convert_def Let_def
  by (intro only_rules scoped scope_conclude [OF assms(1)] scope_ends [OF assms(1)];
      simp add: own_ctxD [OF assms(1)] assms(2))

lemma scope_after_fetch:
  assumes "own_ctx self jb i url ctx" "level \<in> set (jb_levels jb)" "adm = None \<or> adm = ux_admission ctx"
  shows "only_ops (in_scope self jb i url) (after_fetch self ctx level adm fetched)"
  unfolding after_fetch_def block_retry_def after_retry_def Let_def
  by (intro only_rules scoped scope_ends [OF assms(1)] scope_judge [OF assms(1,2)] scope_fetch [OF assms];
      simp add: own_ctxD [OF assms(1)])

lemma scope_level_step:
  assumes "own_ctx self jb i url ctx" "level \<in> set (jb_levels jb)"
  shows "only_ops (in_scope self jb i url) (level_step show_secs self ctx level)"
  unfolding level_step_def attempt_level_def Let_def
  by (intro only_rules scoped scope_ends [OF assms(1)] scope_fetch [OF assms] scope_after_fetch [OF assms])
    (simp_all add: own_ctxD [OF assms(1)])

lemma scope_level_loop:
  assumes "own_ctx self jb i url ctx"
  shows "set levels \<subseteq> set (jb_levels jb) \<Longrightarrow> only_ops (in_scope self jb i url) (level_loop show_secs self ctx levels)"
proof (induction levels)
  case Nil
  then show ?case by (simp add: scope_ends [OF assms])
next
  case (Cons level levels)
  then have "only_ops (in_scope self jb i url) (case r of Break \<Rightarrow> uret () | Continue \<Rightarrow> level_loop show_secs self ctx levels)" for r
    by (auto intro: only_rules split: lstep.split)
  with Cons.prems show ?case by (simp add: only_rules scope_level_step [OF assms])
qed

lemma prepare_url_scope: "only_ops (in_scope self jb i url) (prepare_url self jb i url)"
  unfolding prepare_url_def make_admission_def site_refusal_for_def Let_def
  by (intro only_rules scoped; simp)

lemma scope_pipeline: "only_ops (in_scope self jb i url) (url_pipeline show_secs self jb i url)"
proof -
  have body: "only_ops (in_scope self jb i url) (ucatch (url_body show_secs self ctx refusal) (handle_exception self ctx))"
    if "prepared_for self jb i url ctx" for ctx refusal
  proof -
    have own: "own_ctx self jb i url ctx" using that by (auto simp: prepared_for_def own_ctx_def)
    show ?thesis
      unfolding url_body_def
      by (intro only_rules scope_handler [OF own] scope_ends [OF own] scope_level_loop [OF own] prepared_levels(1) [OF that])
  qed
  have prep: "up (\<lambda>oper _. in_scope self jb i url oper) (\<lambda>_ _ u. u) (\<lambda>r s' _. case r of Inl e \<Rightarrow> True
      | Inr (ctx, refusal) \<Rightarrow> prepared_for self jb i url ctx) (prepare_url self jb i url) s ()" for s
  proof -
    have a: "up (\<lambda>_ _. True) (\<lambda>_ _ u. u) (\<lambda>r s' _. case r of Inl e \<Rightarrow> True
      | Inr (ctx, refusal) \<Rightarrow> prepared_for self jb i url ctx) (prepare_url self jb i url) s ()"
      by (rule prepare_url_up) auto
    have b: "up (\<lambda>oper _. in_scope self jb i url oper) (\<lambda>_ _ u. u) (\<lambda>_ _ _. True) (prepare_url self jb i url) s ()"
      using prepare_url_scope unfolding only_ops_def issues_def by blast
    show ?thesis using wp_conj [OF a [unfolded up_def] b [unfolded up_def]]
      unfolding up_def by (rule wp_weaken) (auto split: prod.splits sum.splits)
  qed
  have rest: "case r of Inl e \<Rightarrow> True | Inr a \<Rightarrow> up (\<lambda>oper _. in_scope self jb i url oper) (\<lambda>_ _ u. u) (\<lambda>_ _ _. True)
      (case a of (ctx, refusal) \<Rightarrow> ucatch (url_body show_secs self ctx refusal) (handle_exception self ctx)) s g"
    if "case r of Inl e \<Rightarrow> True | Inr (ctx, refusal) \<Rightarrow> prepared_for self jb i url ctx" for r s and g :: unit
    using that body by (auto simp: only_ops_def issues_def split: sum.splits prod.splits)
  show ?thesis
    unfolding only_ops_def issues_def url_pipeline_def up_bind
  proof
    fix s show "up (\<lambda>oper _. in_scope self jb i url oper) (\<lambda>_ _ u. u)
        (\<lambda>r s' g'. case r of Inl e \<Rightarrow> True | Inr a \<Rightarrow> up (\<lambda>oper _. in_scope self jb i url oper) (\<lambda>_ _ u. u) (\<lambda>_ _ _. True)
          (case a of (ctx, refusal) \<Rightarrow> ucatch (url_body show_secs self ctx refusal) (handle_exception self ctx)) s' g')
        (prepare_url self jb i url) s ()"
      by (rule up_mono [OF prep]) (rule rest)
  qed
qed

lemma scope_url: "only_ops (in_scope self jb i url) (process_one_url show_secs self jb i url)"
  unfolding process_one_url_def cached_or_fetched_def check_cache_def is_cancelled_def
  by (intro only_rules scoped scope_pipeline; simp)

text \<open>
  \<^bold>\<open>C10\<close>: a URL's task touches nothing but its own. Every operation it issues, on every path, names
  its own tenant, job and page, its page's domain and site, a level of the job's ladder, and its
  own slot of the results: no other tenant's memory, politeness slots, seats, proxies, dead
  letters or cached pages, and no other URL's result.
\<close>

theorem task_stays_in_scope:
  assumes "worker_world h"
    and "wrun h (process_one_url show_secs self jb i url url_start) w = (r, tr, w')"
    and "(oper, a) \<in> set tr"
  shows "in_scope self jb i url oper"
proof -
  obtain tr1 tr2 where tr: "tr = tr1 @ (oper, a) # tr2" using split_list [OF assms(3)] by blast
  have "up (\<lambda>oper _. in_scope self jb i url oper) (\<lambda>_ _ u. u) (\<lambda>_ _ _. True) (process_one_url show_secs self jb i url) url_start ()"
    using scope_url unfolding only_ops_def issues_def by blast
  from worker_world.wp_guard_sound [OF assms(1) this [unfolded up_def], of w r tr1 oper a tr2 w'] assms(2) tr
  show ?thesis by simp
qed

theorem task_stays_in_scope_witness:
  "list_all (\<lambda>(oper, a). in_scope demo_worker demo_job 0 ''https://shop.example/1'' oper) (fst (snd demo_run))
    \<and> length (fst (snd demo_run)) > 10"
proof
  show "list_all (\<lambda>(oper, a). in_scope demo_worker demo_job 0 ''https://shop.example/1'' oper) (fst (snd demo_run))"
    using task_stays_in_scope [OF demo_world demo_run_eq] by (auto simp: list_all_iff)
  show "length (fst (snd demo_run)) > 10" by code_simp
qed

end
