(* ===== verification/Worker_Job.thy ===== *)
theory Worker_Job
  imports Worker_Scope "HOL-Library.Multiset"
begin

text \<open>
  \<open>Worker.process_job\<close> of \<^verbatim>\<open>src/src/scraper_engine/orchestrator/worker.py\<close>: one task per URL,
  dispatched under a semaphore, all of them interleaved at every operation and sharing the list of
  results, the list of errors and the cancellation flag; then the job's status.
\<close>

subsection \<open>What the tasks share\<close>

record job_vars =
  jv_results :: "fetch_result option list"
  jv_errors :: "string list"
  jv_cancelled :: bool

fun shared :: "wop \<Rightarrow> job_vars \<Rightarrow> (wans \<times> job_vars) option" where
  "shared ReadCancelledFlag v = Some (ABool (jv_cancelled v), v)"
| "shared SetCancelledFlag v = Some (AUnit, v\<lparr>jv_cancelled := True\<rparr>)"
| "shared (AppendError m) v = Some (AUnit, v\<lparr>jv_errors := jv_errors v @ [m]\<rparr>)"
| "shared (SetResult i r) v = Some (AUnit, v\<lparr>jv_results := (jv_results v)[i := Some r]\<rparr>)"
| "shared _ v = None"

text \<open>An operation on the shared variables is performed on them, every other one by the world.\<close>

definition perform :: "'w world \<Rightarrow> wop \<Rightarrow> job_vars \<Rightarrow> 'w \<Rightarrow> (exn + wans) \<times> job_vars \<times> 'w" where
  "perform h oper v w = (case shared oper v of Some (a, v') \<Rightarrow> (Inr a, v', w)
     | None \<Rightarrow> (case h oper w of (r, w') \<Rightarrow> (r, v, w')))"

subsection \<open>Tasks under the semaphore\<close>

type_synonym url_task = "((exn + unit) \<times> url_state) wprog"

text \<open>
  \<open>jr_waiting\<close>: the tasks queued at the semaphore, in order; \<open>jr_running\<close>: those holding a permit;
  \<open>jr_ended\<close>: how the others ended, in order; \<open>jr_log\<close>: every operation with its task and answer.
\<close>

record 'w job_run =
  jr_waiting :: "nat list"
  jr_running :: "(nat \<times> url_task) list"
  jr_ended :: "(nat \<times> (exn + unit)) list"
  jr_vars :: job_vars
  jr_world :: 'w
  jr_log :: "(nat \<times> wop \<times> (exn + wans)) list"

inductive job_step :: "nat \<Rightarrow> 'w world \<Rightarrow> (nat \<Rightarrow> url_task) \<Rightarrow> 'w job_run \<Rightarrow> 'w job_run \<Rightarrow> bool"
  for limit h prog where
  enter: "jr_waiting st = i # is \<Longrightarrow> length (jr_running st) < limit \<Longrightarrow>
    job_step limit h prog st (st\<lparr>jr_waiting := is, jr_running := jr_running st @ [(i, prog i)]\<rparr>)"
| act: "jr_running st = xs @ (i, WDo oper k) # ys \<Longrightarrow> perform h oper (jr_vars st) (jr_world st) = (r, v, w) \<Longrightarrow>
    job_step limit h prog st (st\<lparr>jr_running := xs @ (i, k r) # ys, jr_vars := v, jr_world := w,
      jr_log := jr_log st @ [(i, oper, r)]\<rparr>)"
| leave: "jr_running st = xs @ (i, WRet (r, s)) # ys \<Longrightarrow>
    job_step limit h prog st (st\<lparr>jr_running := xs @ ys, jr_ended := jr_ended st @ [(i, r)]\<rparr>)"

inductive job_reaches :: "nat \<Rightarrow> 'w world \<Rightarrow> (nat \<Rightarrow> url_task) \<Rightarrow> 'w job_run \<Rightarrow> 'w job_run \<Rightarrow> bool"
  for limit h prog st where
  start: "job_reaches limit h prog st st"
| further: "job_reaches limit h prog st st1 \<Longrightarrow> job_step limit h prog st1 st2 \<Longrightarrow> job_reaches limit h prog st st2"

inductive_cases job_stepE: "job_step limit h prog st st'"

text \<open>A scheduler: each choice picks a running task to go on, or else lets the next one in.\<close>

definition schedule_step :: "nat \<Rightarrow> 'w world \<Rightarrow> (nat \<Rightarrow> url_task) \<Rightarrow> nat \<Rightarrow> 'w job_run \<Rightarrow> 'w job_run" where
  "schedule_step limit h prog n st =
     (if n < length (jr_running st) then
        (case jr_running st ! n of (i, p) \<Rightarrow>
          (case p of
             WRet (r, s) \<Rightarrow> st\<lparr>jr_running := take n (jr_running st) @ drop (Suc n) (jr_running st),
                 jr_ended := jr_ended st @ [(i, r)]\<rparr>
           | WDo oper k \<Rightarrow> (case perform h oper (jr_vars st) (jr_world st) of (r, v, w) \<Rightarrow>
               st\<lparr>jr_running := take n (jr_running st) @ (i, k r) # drop (Suc n) (jr_running st), jr_vars := v,
                  jr_world := w, jr_log := jr_log st @ [(i, oper, r)]\<rparr>)))
      else (case jr_waiting st of [] \<Rightarrow> st
        | i # is \<Rightarrow> if length (jr_running st) < limit
            then st\<lparr>jr_waiting := is, jr_running := jr_running st @ [(i, prog i)]\<rparr> else st))"

definition run_schedule :: "nat \<Rightarrow> 'w world \<Rightarrow> (nat \<Rightarrow> url_task) \<Rightarrow> nat list \<Rightarrow> 'w job_run \<Rightarrow> 'w job_run" where
  "run_schedule limit h prog ns st = fold (schedule_step limit h prog) ns st"

lemma schedule_step_sound:
  "schedule_step limit h prog n st = st \<or> job_step limit h prog st (schedule_step limit h prog n st)"
proof (cases "n < length (jr_running st)")
  case True
  then have at: "jr_running st = take n (jr_running st) @ jr_running st ! n # drop (Suc n) (jr_running st)"
    by (rule id_take_nth_drop)
  obtain i p where ip: "jr_running st ! n = (i, p)" by fastforce
  note at = at [unfolded ip]
  show ?thesis
  proof (cases p)
    case (WRet x)
    obtain r s where x: "x = (r, s)" by fastforce
    with True ip WRet job_step.leave [of st _ i r s, OF at [unfolded WRet x]] show ?thesis
      by (simp add: schedule_step_def)
  next
    case (WDo oper k)
    obtain r v w where p: "perform h oper (jr_vars st) (jr_world st) = (r, v, w)" by (metis prod_cases3)
    with True ip WDo job_step.act [of st _ i oper k, OF at [unfolded WDo] p] show ?thesis
      by (simp add: schedule_step_def)
  qed
next
  case False
  then show ?thesis
    by (auto simp: schedule_step_def intro: job_step.enter split: list.split)
qed

lemma run_schedule_reaches: "job_reaches limit h prog st (run_schedule limit h prog ns st)"
proof (induction ns rule: rev_induct)
  case (snoc n ns)
  then show ?case
    using schedule_step_sound [of limit h prog n "run_schedule limit h prog ns st"]
    by (auto simp: run_schedule_def intro: job_reaches.further)
qed (simp add: run_schedule_def job_reaches.start)

subsection \<open>The job\<close>

definition succeeded_urls :: "worker \<Rightarrow> string \<Rightarrow> string \<Rightarrow> string list um" where
  "succeeded_urls self tenant_id job_id =
     (if \<not> wk_has_pg self then uret [] else ubind (udo (ReadSucceeded tenant_id job_id)) (\<lambda>a. uret (as_urls a)))"

definition make_job :: "worker \<Rightarrow> string \<Rightarrow> string \<Rightarrow> scrape_request \<Rightarrow> bool \<Rightarrow> rat option \<Rightarrow> string list \<Rightarrow> job" where
  "make_job self tenant_id job_id request0 on_result deadline0 already_done =
     (let request = clamp_timeout self request0; ov = rq_overrides request in
      \<lparr>jb_tenant = tenant_id, jb_job_id = job_id, jb_urls = rq_urls request, jb_overrides = ov,
       jb_levels = resolve_levels ov, jb_concurrency = fst (resolve_politeness self ov),
       jb_delay = snd (resolve_politeness self ov),
       jb_bypass_cache = (case ov of None \<Rightarrow> False | Some o' \<Rightarrow> co_bypass_cache o'), jb_on_result = on_result,
       jb_already_done = already_done,
       jb_deadline_cap = map_option (\<lambda>d. d - ac_deadline_margin_seconds (wk_admission_cfg self)) deadline0\<rparr>)"

definition url_task_of :: "(rat \<Rightarrow> string) \<Rightarrow> worker \<Rightarrow> job \<Rightarrow> nat \<Rightarrow> url_task" where
  "url_task_of show_secs self jb i = process_one_url show_secs self jb i (jb_urls jb ! i) url_start"

definition job_start :: "job \<Rightarrow> 'w \<Rightarrow> 'w job_run" where
  "job_start jb w = \<lparr>jr_waiting = [0..<length (jb_urls jb)], jr_running = [], jr_ended = [],
     jr_vars = \<lparr>jv_results = replicate (length (jb_urls jb)) None, jv_errors = [], jv_cancelled = False\<rparr>,
     jr_world = w, jr_log = []\<rparr>"

text \<open>\<open>asyncio.gather\<close>: the first exception of a task at once, or the end of all of them.\<close>

definition gathered :: "'w job_run \<Rightarrow> (exn + unit) option" where
  "gathered st = (case filter (\<lambda>(i, r). isl r) (jr_ended st) of
     (i, r) # _ \<Rightarrow> Some r
   | [] \<Rightarrow> if jr_waiting st = [] \<and> jr_running st = [] then Some (Inr ()) else None)"

definition job_response :: "job \<Rightarrow> job_vars \<Rightarrow> job_status_response" where
  "job_response jb v =
     (let final_results = [r. Some r \<leftarrow> jv_results v]; any_success = list_ex fr_success final_results; errors = jv_errors v in
      \<lparr>js_job_id = jb_job_id jb,
       js_status = (if jv_cancelled v then CANCELLED else if errors = [] then COMPLETED
                    else if \<not> any_success then FAILED else COMPLETED),
       js_results = (if final_results = [] then None else Some final_results),
       js_error = (if errors = [] then None else Some (join ''; '' errors)),
       js_partial_failure = (errors \<noteq> [] \<and> any_success)\<rparr>)"

definition process_job ::
  "(rat \<Rightarrow> string) \<Rightarrow> worker \<Rightarrow> 'w world \<Rightarrow> string \<Rightarrow> string \<Rightarrow> scrape_request \<Rightarrow> bool \<Rightarrow> rat option \<Rightarrow> nat list \<Rightarrow> 'w
     \<Rightarrow> (exn + job_status_response) option" where
  "process_job show_secs self h tenant_id job_id request on_result deadline0 sched w =
     (case wrun h (succeeded_urls self tenant_id job_id url_start) w of
        ((Inl e, _), _, _) \<Rightarrow> Some (Inl e)
      | ((Inr already, _), _, w1) \<Rightarrow>
        let jb = make_job self tenant_id job_id request on_result deadline0 already;
            st = run_schedule (pl_max_concurrent_urls_per_job (wk_limits self)) h (url_task_of show_secs self jb) sched (job_start jb w1)
        in (case gathered st of None \<Rightarrow> None
          | Some (Inl e) \<Rightarrow> Some (Inl e)
          | Some (Inr _) \<Rightarrow> Some (Inr (job_response jb (jr_vars st)))))"

subsection \<open>Permits\<close>

definition permits_ok :: "nat \<Rightarrow> nat \<Rightarrow> 'w job_run \<Rightarrow> bool" where
  "permits_ok limit n st \<longleftrightarrow> length (jr_running st) \<le> limit \<and>
     distinct (jr_waiting st @ map fst (jr_running st) @ map fst (jr_ended st)) \<and>
     set (jr_waiting st @ map fst (jr_running st) @ map fst (jr_ended st)) = {0..<n}"

lemma permits_ok_start: "permits_ok limit (length (jb_urls jb)) (job_start jb w)"
  by (simp add: permits_ok_def job_start_def)

lemma permits_ok_step:
  assumes "job_step limit h prog st st'" "permits_ok limit n st"
  shows "permits_ok limit n st'"
  using assms by (cases rule: job_step.cases) (auto simp: permits_ok_def)

lemma permits_ok_reaches:
  assumes "job_reaches limit h prog (job_start jb w) st"
  shows "permits_ok limit (length (jb_urls jb)) st"
  using assms by (induction rule: job_reaches.induct) (auto intro: permits_ok_start permits_ok_step)

subsection \<open>Each task's outcome in the shared variables\<close>

definition own_log :: "'w job_run \<Rightarrow> nat \<Rightarrow> trace" where
  "own_log st i = map snd (filter (\<lambda>e. fst e = i) (jr_log st))"

definition task_outcome :: "'w job_run \<Rightarrow> nat \<Rightarrow> outcome" where
  "task_outcome st i = summary jot (own_log st i) outcome_start"

text \<open>The latest result a task stored.\<close>

definition stored_result :: "outcome \<Rightarrow> fetch_result option" where
  "stored_result g = (case rev (oc_sets g) of [] \<Rightarrow> None | (j, x) # _ \<Rightarrow> Some x)"

definition task_guard :: "worker \<Rightarrow> job \<Rightarrow> nat \<Rightarrow> wop \<Rightarrow> outcome \<Rightarrow> bool" where
  "task_guard self jb i oper g \<longleftrightarrow> stores_content oper g \<and> in_scope self jb i (jb_urls jb ! i) oper"

definition task_walks :: "worker \<Rightarrow> job \<Rightarrow> nat \<Rightarrow> url_task \<Rightarrow> outcome \<Rightarrow> bool" where
  "task_walks self jb i p g \<longleftrightarrow> wp (task_guard self jb i) jot (\<lambda>(r, s) g. task_post jb i (jb_urls jb ! i) r g) p g"

lemma url_task_walks: "task_walks self jb i (url_task_of show_secs self jb i) outcome_start"
proof -
  let ?url = "jb_urls jb ! i"
  have a: "wp stores_content jot (\<lambda>(r, s) g. task_post jb i ?url r g) (url_task_of show_secs self jb i) outcome_start"
    using process_one_url_walk [of outcome_start jb i ?url "\<lambda>r _. task_post jb i ?url r" show_secs self url_start]
    by (simp add: up_def url_task_of_def)
  have "wp (\<lambda>oper _. in_scope self jb i ?url oper) (\<lambda>_ _ u. u) (\<lambda>_ _. True) (url_task_of show_secs self jb i) ()"
    using scope_url [of self jb i ?url show_secs]
    by (auto simp: only_ops_def issues_def up_def url_task_of_def case_prod_beta')
  then have b: "wp (\<lambda>oper _. in_scope self jb i ?url oper) jot (\<lambda>_ _. True) (url_task_of show_secs self jb i) outcome_start"
    by (rule wp_ghost [THEN iffD1])
  from wp_conj [OF a b] show ?thesis
    unfolding task_walks_def by (rule wp_weaken) (auto simp: task_guard_def)
qed

lemma perform_effect:
  assumes "perform h oper v w = (r, v', w')"
  shows "jv_results v' = (case oper of SetResult j x \<Rightarrow> (jv_results v)[j := Some x] | _ \<Rightarrow> jv_results v)"
    and "length (jv_errors v') = length (jv_errors v) + (case oper of AppendError m \<Rightarrow> 1 | _ \<Rightarrow> 0)"
    and "jv_cancelled v' = (jv_cancelled v \<or> oper = SetCancelledFlag)"
    and "oper = ReadCancelledFlag \<Longrightarrow> r = Inr (ABool (jv_cancelled v))"
  using assms by (cases oper; auto simp: perform_def split: prod.splits)+

lemma jot_effect:
  "oc_sets (jot oper r g) = (case oper of SetResult j x \<Rightarrow> oc_sets g @ [(j, x)] | _ \<Rightarrow> oc_sets g)"
  "oc_errs (jot oper r g) = oc_errs g + (case oper of AppendError m \<Rightarrow> 1 | _ \<Rightarrow> 0)"
  "oper \<noteq> ReadCancelledFlag \<Longrightarrow> oc_stopped (jot oper r g) = (oc_stopped g \<or> oper = SetCancelledFlag)"
  "oc_stopped (jot ReadCancelledFlag (Inr a) g) = (oc_stopped g \<or> as_bool a)"
  by (cases "(oper, r, g)" rule: jot.cases; simp)+

definition job_inv :: "worker \<Rightarrow> job \<Rightarrow> 'w job_run \<Rightarrow> bool" where
  "job_inv self jb st \<longleftrightarrow>
     (\<forall>(i, p) \<in> set (jr_running st). task_walks self jb i p (task_outcome st i)) \<and>
     (\<forall>(i, r) \<in> set (jr_ended st). task_post jb i (jb_urls jb ! i) r (task_outcome st i)) \<and>
     (\<forall>i \<in> set (jr_waiting st). task_outcome st i = outcome_start) \<and>
     length (jv_results (jr_vars st)) = length (jb_urls jb) \<and>
     (\<forall>i < length (jb_urls jb). jv_results (jr_vars st) ! i = stored_result (task_outcome st i)) \<and>
     length (jv_errors (jr_vars st)) = (\<Sum>i < length (jb_urls jb). oc_errs (task_outcome st i)) \<and>
     (jv_cancelled (jr_vars st) \<longleftrightarrow> (\<exists>i < length (jb_urls jb). oc_stopped (task_outcome st i)))"

lemma job_inv_running: "job_inv self jb st \<Longrightarrow> (i, p) \<in> set (jr_running st) \<Longrightarrow> task_walks self jb i p (task_outcome st i)"
  by (auto simp: job_inv_def)

lemma task_outcome_log:
  "task_outcome (st\<lparr>jr_running := x, jr_vars := v, jr_world := w, jr_log := jr_log st @ [(i, oper, r)]\<rparr>) j =
     (if j = i then jot oper r (task_outcome st i) else task_outcome st j)"
  by (simp add: task_outcome_def own_log_def summary_def)

lemma task_outcome_other [simp]:
  "task_outcome (st\<lparr>jr_waiting := a, jr_running := b\<rparr>) j = task_outcome st j"
  "task_outcome (st\<lparr>jr_running := b, jr_ended := c\<rparr>) j = task_outcome st j"
  by (simp_all add: task_outcome_def own_log_def)

lemma job_inv_leave:
  assumes "job_inv self jb st" "jr_running st = xs @ (i, p) # ys" "task_post jb i (jb_urls jb ! i) r (task_outcome st i)"
  shows "job_inv self jb (st\<lparr>jr_running := xs @ ys, jr_ended := jr_ended st @ [(i, r)]\<rparr>)"
proof -
  have "\<forall>(j, q) \<in> set (xs @ ys). task_walks self jb j q (task_outcome st j)"
    using job_inv_running [OF assms(1)] assms(2) by auto
  moreover have "\<forall>(j, q) \<in> set (jr_ended st @ [(i, r)]). task_post jb j (jb_urls jb ! j) q (task_outcome st j)"
    using assms(1,3) unfolding job_inv_def by auto
  ultimately show ?thesis using assms(1) unfolding job_inv_def by simp
qed

lemma stored_result_jot:
  "in_scope self jb i url oper \<Longrightarrow>
   stored_result (jot oper r g) = (case oper of SetResult j x \<Rightarrow> Some x | _ \<Rightarrow> stored_result g)"
  by (simp add: stored_result_def jot_effect(1) split: wop.split)

lemma job_inv_start: "job_inv self jb (job_start jb w)"
  by (auto simp: job_inv_def job_start_def task_outcome_def own_log_def outcome_start_def stored_result_def)

context worker_world
begin

lemma perform_answered: "perform world oper v w = (r, v', w') \<Longrightarrow> answers oper r"
  using answered [of oper w]
  by (cases oper) (auto simp: perform_def answers_def split: prod.splits)

lemma task_walks_Do:
  assumes "task_walks self jb i (WDo oper k) g" "perform world oper v w = (r, v', w')"
  shows "task_walks self jb i (k r) (jot oper r g)" "in_scope self jb i (jb_urls jb ! i) oper"
  using assms(1) perform_answered [OF assms(2)] by (auto simp: task_walks_def task_guard_def)

lemma job_inv_act:
  assumes inv: "job_inv self jb st" and ok: "permits_ok limit (length (jb_urls jb)) st"
    and run: "jr_running st = xs @ (i, WDo oper k) # ys"
    and perf: "perform world oper (jr_vars st) (jr_world st) = (r, v, w)"
  shows "job_inv self jb (st\<lparr>jr_running := xs @ (i, k r) # ys, jr_vars := v, jr_world := w,
      jr_log := jr_log st @ [(i, oper, r)]\<rparr>)" (is "job_inv self jb ?st")
proof -
  let ?n = "length (jb_urls jb)" and ?g = "task_outcome st i"
  have i: "i < ?n" using ok run by (auto simp: permits_ok_def)
  have dist: "\<forall>(j, p) \<in> set (xs @ ys). j \<noteq> i" "\<forall>(j, p) \<in> set (jr_ended st). j \<noteq> i" "i \<notin> set (jr_waiting st)"
    using ok run by (auto simp: permits_ok_def image_iff)
  have walks: "task_walks self jb i (WDo oper k) ?g" using inv run by (auto simp: job_inv_def)
  note next_walks = task_walks_Do [OF walks perf]
  note eff = perform_effect [OF perf]
  have outcome: "task_outcome ?st j = (if j = i then jot oper r ?g else task_outcome st j)" for j
    by (rule task_outcome_log)
  have res: "jv_results v ! j = stored_result (task_outcome ?st j)" if "j < ?n" for j
    using that inv next_walks(2) i unfolding outcome eff(1)
    by (auto simp: job_inv_def stored_result_jot [OF next_walks(2)] split: wop.split)
  have errs: "length (jv_errors v) = (\<Sum>j < ?n. oc_errs (task_outcome ?st j))"
  proof -
    have "(\<Sum>j < ?n. oc_errs (task_outcome ?st j)) =
        (\<Sum>j < ?n. oc_errs (task_outcome st j) + (if j = i then case oper of AppendError m \<Rightarrow> 1 | _ \<Rightarrow> 0 else 0))"
      unfolding outcome by (rule sum.cong) (auto simp: jot_effect(2))
    also have "\<dots> = (\<Sum>j < ?n. oc_errs (task_outcome st j)) + (case oper of AppendError m \<Rightarrow> 1 | _ \<Rightarrow> 0)"
      using i by (simp add: sum.distrib)
    finally show ?thesis using inv eff(2) by (simp add: job_inv_def)
  qed
  have stop: "jv_cancelled v \<longleftrightarrow> (\<exists>j < ?n. oc_stopped (task_outcome ?st j))"
  proof -
    have old: "jv_cancelled (jr_vars st) \<longleftrightarrow> (\<exists>j < ?n. oc_stopped (task_outcome st j))" using inv by (simp add: job_inv_def)
    have "oc_stopped (jot oper r ?g) \<longleftrightarrow> oc_stopped ?g \<or> oper = SetCancelledFlag \<or> oper = ReadCancelledFlag \<and> jv_cancelled (jr_vars st)"
      using eff(4) jot_effect(3) [of oper r ?g] jot_effect(4) [of _ ?g]
      by (cases "oper = ReadCancelledFlag") (auto simp: as_bool_def)
    then have "oc_stopped (task_outcome ?st j) \<longleftrightarrow> oc_stopped (task_outcome st j) \<or>
        j = i \<and> (oper = SetCancelledFlag \<or> oper = ReadCancelledFlag \<and> jv_cancelled (jr_vars st))" for j
      by (simp add: outcome)
    with old eff(3) i show ?thesis by auto
  qed
  have running: "\<forall>(j, p) \<in> set (xs @ (i, k r) # ys). task_walks self jb j p (task_outcome ?st j)"
    using inv run dist(1) next_walks(1) unfolding job_inv_def outcome by fastforce
  have ended: "\<forall>(j, q) \<in> set (jr_ended st). task_post jb j (jb_urls jb ! j) q (task_outcome ?st j)"
    using inv dist(2) unfolding job_inv_def outcome by fastforce
  have waiting: "\<forall>j \<in> set (jr_waiting st). task_outcome ?st j = outcome_start"
    using inv dist(3) unfolding job_inv_def outcome by auto
  have len: "length (jv_results v) = ?n"
    using inv unfolding eff(1) by (auto simp: job_inv_def split: wop.split)
  show ?thesis
    unfolding job_inv_def using running ended waiting len res errs stop by simp
qed

lemma job_inv_step:
  assumes step: "job_step limit world (url_task_of show_secs self jb) st st'"
    and inv: "job_inv self jb st" and ok: "permits_ok limit (length (jb_urls jb)) st"
  shows "job_inv self jb st'"
  using step
proof (cases rule: job_step.cases)
  case (enter i "is")
  then show ?thesis using inv url_task_walks by (auto simp: job_inv_def)
next
  case (act xs i oper k ys r v w)
  then show ?thesis using job_inv_act [OF inv ok act(2,3)] by simp
next
  case (leave xs i r s ys)
  have "task_walks self jb i (WRet (r, s)) (task_outcome st i)" by (rule job_inv_running [OF inv]) (simp add: leave(2))
  then have "task_post jb i (jb_urls jb ! i) r (task_outcome st i)" by (simp add: task_walks_def)
  then show ?thesis unfolding leave(1) using job_inv_leave [OF inv leave(2)] by simp
qed

lemma job_inv_reaches:
  assumes "job_reaches limit world (url_task_of show_secs self jb) (job_start jb w) st"
  shows "job_inv self jb st"
  using assms
proof (induction rule: job_reaches.induct)
  case (further st1 st2)
  show ?case by (rule job_inv_step [OF further(2) further(3) permits_ok_reaches [OF further(1)]])
qed (rule job_inv_start)

end

subsection \<open>The job's status\<close>

text \<open>The status as it should be read off the results.\<close>

definition status_of_results :: "bool \<Rightarrow> fetch_result list \<Rightarrow> job_status \<times> bool" where
  "status_of_results cancelled rs =
     (if cancelled then CANCELLED
      else if rs \<noteq> [] \<and> list_all (\<lambda>r. \<not> fr_success r) rs then FAILED else COMPLETED,
      list_ex fr_success rs \<and> list_ex (\<lambda>r. \<not> fr_success r) rs)"

definition final_results :: "job_vars \<Rightarrow> fetch_result list" where
  "final_results v = [r. Some r \<leftarrow> jv_results v]"

lemma set_final_results: "set (final_results v) = {r. Some r \<in> set (jv_results v)}"
  by (auto simp: final_results_def split: option.splits)

lemma gathered_all:
  assumes "gathered st = Some (Inr ())"
  shows "jr_waiting st = [] \<and> jr_running st = []"
proof (cases "filter (\<lambda>(i, r). isl r) (jr_ended st)")
  case Nil
  with assms show ?thesis by (simp add: gathered_def split: if_splits)
next
  case (Cons e es)
  obtain i r where e: "e = (i, r)" by fastforce
  from Cons have "e \<in> set (filter (\<lambda>(i, r). isl r) (jr_ended st))" by simp
  with e have "isl r" by simp
  with assms Cons e show ?thesis by (simp add: gathered_def)
qed

definition unbroken :: "job \<Rightarrow> 'w job_run \<Rightarrow> bool" where
  "unbroken jb st \<longleftrightarrow> (\<forall>i < length (jb_urls jb). \<not> oc_broken (task_outcome st i))"

lemma settled_stored:
  "settled i cb url g \<Longrightarrow> \<exists>x. stored_result g = Some x \<and> oc_errs g = (if fr_success x then 0 else 1)"
  by (auto simp: settled_def stored_result_def split: if_splits)

lemma fresh_stored: "fresh g \<Longrightarrow> stored_result g = None \<and> oc_errs g = 0"
  by (simp add: fresh_def stored_result_def)

lemma job_ended:
  assumes "job_inv self jb st" "permits_ok limit (length (jb_urls jb)) st" "gathered st = Some (Inr ())" "unbroken jb st"
    and "i < length (jb_urls jb)"
  shows "(\<exists>x. jv_results (jr_vars st) ! i = Some x \<and> oc_errs (task_outcome st i) = (if fr_success x then 0 else 1)) \<or>
    jv_results (jr_vars st) ! i = None \<and> oc_errs (task_outcome st i) = 0 \<and>
      (jv_cancelled (jr_vars st) \<or> jb_urls jb ! i \<in> set (jb_already_done jb))"
proof -
  have "jr_waiting st = []" "jr_running st = []"
    using gathered_all [OF assms(3)] by simp_all
  with assms(2,5) have "i \<in> fst ` set (jr_ended st)" by (simp add: permits_ok_def)
  then obtain r where r: "(i, r) \<in> set (jr_ended st)" by auto
  with assms(1) have post: "task_post jb i (jb_urls jb ! i) r (task_outcome st i)" by (auto simp: job_inv_def)
  moreover have "\<not> oc_broken (task_outcome st i)" using assms(4,5) by (simp add: unbroken_def)
  moreover have "jv_results (jr_vars st) ! i = stored_result (task_outcome st i)" using assms(1,5) by (simp add: job_inv_def)
  moreover have "oc_stopped (task_outcome st i) \<Longrightarrow> jv_cancelled (jr_vars st)" using assms(1,5) by (auto simp: job_inv_def)
  ultimately show ?thesis
    unfolding task_post_def using settled_stored fresh_stored by metis
qed

lemma errors_iff_failed:
  assumes "job_inv self jb st" "permits_ok limit (length (jb_urls jb)) st" "gathered st = Some (Inr ())" "unbroken jb st"
  shows "jv_errors (jr_vars st) = [] \<longleftrightarrow> list_all fr_success (final_results (jr_vars st))"
proof -
  let ?n = "length (jb_urls jb)"
  have len: "length (jv_results (jr_vars st)) = ?n" using assms(1) by (simp add: job_inv_def)
  have "length (jv_errors (jr_vars st)) = (\<Sum>i < ?n. oc_errs (task_outcome st i))"
    using assms(1) by (simp add: job_inv_def)
  then have "jv_errors (jr_vars st) = [] \<longleftrightarrow> (\<forall>i < ?n. oc_errs (task_outcome st i) = 0)"
    by (auto simp flip: length_0_conv)
  also have "\<dots> \<longleftrightarrow> (\<forall>i < ?n. \<forall>x. jv_results (jr_vars st) ! i = Some x \<longrightarrow> fr_success x)"
  proof -
    have "oc_errs (task_outcome st i) = 0 \<longleftrightarrow> (\<forall>x. jv_results (jr_vars st) ! i = Some x \<longrightarrow> fr_success x)"
      if "i < ?n" for i
      using job_ended [OF assms that] by (elim disjE exE conjE) (simp_all split: if_splits)
    then show ?thesis by blast
  qed
  also have "\<dots> \<longleftrightarrow> list_all fr_success (final_results (jr_vars st))"
    unfolding list_all_iff set_final_results in_set_conv_nth len by auto
  finally show ?thesis .
qed

text \<open>
  \<^bold>\<open>C6\<close>: under every interleaving of a job's tasks, the status that \<open>process_job\<close> computes from its
  separately kept list of errors is the one its results call for: \<open>CANCELLED\<close> if the cancellation
  was seen, \<open>FAILED\<close> if there are results and none succeeded, else \<open>COMPLETED\<close>, with
  \<open>partial_failure\<close> exactly if some results succeeded and some failed; the bookkeeping of no URL
  having failed.
\<close>

theorem job_status_matches_results:
  assumes "worker_world h"
    and "job_reaches limit h (url_task_of show_secs self jb) (job_start jb w) st"
    and "gathered st = Some (Inr ())" and "unbroken jb st"
  shows "(js_status (job_response jb (jr_vars st)), js_partial_failure (job_response jb (jr_vars st)))
    = status_of_results (jv_cancelled (jr_vars st)) (final_results (jr_vars st))"
proof -
  note inv = worker_world.job_inv_reaches [OF assms(1,2)] permits_ok_reaches [OF assms(2)]
  have "jv_errors (jr_vars st) = [] \<longleftrightarrow> list_all fr_success (final_results (jr_vars st))"
    by (rule errors_iff_failed [OF inv assms(3,4)])
  then show ?thesis
    by (auto simp: job_response_def status_of_results_def final_results_def [symmetric] Let_def
        list_all_iff list_ex_iff)
qed

text \<open>
  \<^bold>\<open>C7\<close>: no URL of a job is lost. When all tasks have ended and no bookkeeping failed, no task has
  raised and each URL of the request has its result in the slot of its position, unless the job
  was cancelled or already had it.
\<close>

theorem job_loses_no_url:
  assumes "worker_world h"
    and "job_reaches limit h (url_task_of show_secs self jb) (job_start jb w) st"
    and "jr_waiting st = []" and "jr_running st = []" and "unbroken jb st"
  shows "gathered st = Some (Inr ()) \<and> length (jv_results (jr_vars st)) = length (jb_urls jb) \<and>
    (jv_cancelled (jr_vars st) \<or>
     list_all (\<lambda>i. jv_results (jr_vars st) ! i \<noteq> None \<or> jb_urls jb ! i \<in> set (jb_already_done jb)) [0..<length (jb_urls jb)])"
proof -
  note inv = worker_world.job_inv_reaches [OF assms(1,2)] permits_ok_reaches [OF assms(2)]
  have no_exn: "\<not> isl r" if "(i, r) \<in> set (jr_ended st)" for i r
  proof -
    have "i \<in> fst ` set (jr_ended st)" using that by force
    then have "i < length (jb_urls jb)" using inv(2) assms(3,4) by (simp add: permits_ok_def)
    then have "\<not> oc_broken (task_outcome st i)" using assms(5) by (simp add: unbroken_def)
    moreover have "task_post jb i (jb_urls jb ! i) r (task_outcome st i)" using inv(1) that by (auto simp: job_inv_def)
    ultimately show ?thesis by (simp add: task_post_def)
  qed
  have "filter (\<lambda>(i, r). isl r) (jr_ended st) = []" using no_exn unfolding filter_empty_conv by blast
  then have g: "gathered st = Some (Inr ())" using assms(3,4) by (simp add: gathered_def)
  have len: "length (jv_results (jr_vars st)) = length (jb_urls jb)" using inv(1) by (simp add: job_inv_def)
  have "list_all (\<lambda>i. jv_results (jr_vars st) ! i \<noteq> None \<or> jb_urls jb ! i \<in> set (jb_already_done jb)) [0..<length (jb_urls jb)]"
    if "\<not> jv_cancelled (jr_vars st)"
    unfolding list_all_iff
  proof
    fix i assume "i \<in> set [0..<length (jb_urls jb)]"
    then have "i < length (jb_urls jb)" by simp
    from job_ended [OF inv g assms(5) this] that
    show "jv_results (jr_vars st) ! i \<noteq> None \<or> jb_urls jb ! i \<in> set (jb_already_done jb)" by auto
  qed
  with g len show ?thesis by blast
qed

subsection \<open>Every job ends\<close>

text \<open>A task goes from a program to what the answer of the world leaves of it.\<close>

definition continuation_of :: "('a wprog \<times> 'a wprog) set" where
  "continuation_of = {(k r, WDo oper k) | oper k r. True}"

lemma wf_continuation_of: "wf (continuation_of :: ('a wprog \<times> 'a wprog) set)"
proof (rule wfUNIVI)
  fix P :: "'a wprog \<Rightarrow> bool" and p
  assume "\<forall>p. (\<forall>q. (q, p) \<in> continuation_of \<longrightarrow> P q) \<longrightarrow> P p"
  then have step: "P p" if "\<And>q. (q, p) \<in> continuation_of \<Longrightarrow> P q" for p using that by blast
  show "P p"
  proof (induction p)
    case (WRet a)
    show ?case by (rule step) (simp add: continuation_of_def)
  next
    case (WDo oper k)
    show ?case by (rule step) (use WDo in \<open>auto simp: continuation_of_def\<close>)
  qed
qed

definition job_order :: "('w job_run \<times> 'w job_run) set" where
  "job_order = inv_image (less_than <*lex*> mult continuation_of)
     (\<lambda>st. (length (jr_waiting st), mset (map snd (jr_running st))))"

lemma wf_job_order: "wf job_order"
  unfolding job_order_def by (intro wf_inv_image wf_lex_prod wf_less_than wf_mult wf_continuation_of)

lemma mult_single: "(M + K, add_mset x M) \<in> mult r" if "\<forall>k \<in># K. (k, x) \<in> r"
  using that unfolding mult_def mult1_def by blast

lemma job_step_order:
  assumes "job_step limit h prog st st'"
  shows "(st', st) \<in> job_order"
  using assms
proof (cases rule: job_step.cases)
  case (act xs i oper k ys r v w)
  have "(mset (map snd (xs @ ys)) + {#k r#}, add_mset (WDo oper k) (mset (map snd (xs @ ys)))) \<in> mult continuation_of"
    by (rule mult_single) (auto simp: continuation_of_def)
  with act show ?thesis by (simp add: job_order_def)
next
  case (leave xs i r s ys)
  have "(mset (map snd (xs @ ys)) + {#}, add_mset (WRet (r, s)) (mset (map snd (xs @ ys)))) \<in> mult continuation_of"
    by (rule mult_single) simp
  with leave show ?thesis by (simp add: job_order_def)
qed (simp add: job_order_def)

lemma job_step_possible:
  assumes "0 < limit" "jr_waiting st \<noteq> [] \<or> jr_running st \<noteq> []"
  shows "\<exists>st'. job_step limit h prog st st'"
proof (cases "jr_running st")
  case Nil
  with assms obtain i "is" where "jr_waiting st = i # is" by (cases "jr_waiting st") auto
  from job_step.enter [OF this] Nil assms(1) show ?thesis by auto
next
  case (Cons ip ys)
  obtain i p where ip: "ip = (i, p)" by fastforce
  show ?thesis
  proof (cases p)
    case (WRet x)
    with Cons ip show ?thesis using job_step.leave [of st "[]" i "fst x" "snd x" ys] by auto
  next
    case (WDo oper k)
    obtain r v w where "perform h oper (jr_vars st) (jr_world st) = (r, v, w)" by (metis prod_cases3)
    with Cons ip WDo show ?thesis using job_step.act [of st "[]" i oper k ys h r v w limit prog] by auto
  qed
qed

lemma job_steps_end:
  assumes "0 < limit"
  shows "\<exists>st'. job_reaches limit h prog st st' \<and> jr_waiting st' = [] \<and> jr_running st' = []"
proof -
  have "\<forall>st0. job_reaches limit h prog st0 st \<longrightarrow> (\<exists>st'. job_reaches limit h prog st0 st' \<and> jr_waiting st' = [] \<and> jr_running st' = [])"
  proof (induction st rule: wf_induct_rule [OF wf_job_order])
    case (1 st)
    show ?case
    proof (cases "jr_waiting st = [] \<and> jr_running st = []")
      case False
      then obtain st' where "job_step limit h prog st st'" using job_step_possible [OF assms] by blast
      then show ?thesis using 1 job_step_order job_reaches.further by metis
    qed blast
  qed
  then show ?thesis using job_reaches.start by blast
qed

text \<open>
  a job always ends if its semaphore admits at least one task. No schedule of the tasks, and
  no behaviour of the world, can keep a job going forever; as long as a task waits or runs,
  one of them can go on; so no deadlock among the tasks is possible.
\<close>

theorem job_terminates:
  assumes "0 < limit"
  shows "wf {(st', st). job_step limit h prog st st'} \<and>
    (jr_waiting st \<noteq> [] \<or> jr_running st \<noteq> [] \<longleftrightarrow> (\<exists>st'. job_step limit h prog st st'))"
proof -
  have "{(st', st). job_step limit h prog st st'} \<subseteq> job_order" using job_step_order by blast
  then have "wf {(st', st). job_step limit h prog st st'}" using wf_subset wf_job_order by blast
  moreover have "jr_waiting st \<noteq> [] \<or> jr_running st \<noteq> []" if "job_step limit h prog st st'" for st'
    using that by (cases rule: job_step.cases) auto
  ultimately show ?thesis using job_step_possible [OF assms] by blast
qed

text \<open>With a limit of 0, which the configuration accepts, no task ever starts.\<close>

lemma job_stuck_without_permits:
  "job_reaches 0 h prog (job_start jb w) st \<Longrightarrow> st = job_start jb w"
proof (induction rule: job_reaches.induct)
  case (further st1 st2)
  from further(2) show ?case unfolding further(3) by (cases rule: job_step.cases) (auto simp: job_start_def)
qed simp

subsection \<open>A job to run\<close>

text \<open>The site of \<open>demo_world\<close>, with a second page that does not exist.\<close>

definition two_pages :: job where
  "two_pages = demo_job\<lparr>jb_urls := [''https://shop.example/1'', ''https://shop.example/2'']\<rparr>"

fun two_world :: "unit world" where
  "two_world (Fetch q) w =
     (if fq_url q = ''https://shop.example/2''
      then (Inr (AResult ((failed_result (fq_url q) (fq_level q) PARSE_ERROR ''HTTP 404'')\<lparr>fr_http_status := Some 404\<rparr>)), w)
      else demo_world (Fetch q) w)"
| "two_world oper w = demo_world oper w"

lemma two_world: "worker_world two_world"
proof
  fix oper w show "answers oper (fst (two_world oper w))"
    by (cases oper) (auto simp: answers_def)
qed

text \<open>The schedule that runs the tasks one after the other.\<close>

definition performs :: "'w world \<Rightarrow> (job_vars \<times> 'w) world" where
  "performs h oper vw = (case perform h oper (fst vw) (snd vw) of (r, v, w) \<Rightarrow> (r, (v, w)))"

definition task_run :: "'w world \<Rightarrow> (nat \<Rightarrow> url_task) \<Rightarrow> 'w job_run \<Rightarrow> 'w job_run" where
  "task_run h prog st = (case jr_waiting st of [] \<Rightarrow> st
     | i # is \<Rightarrow> (case wrun (performs h) (prog i) (jr_vars st, jr_world st) of (rs, tr, vw) \<Rightarrow>
         st\<lparr>jr_waiting := is, jr_running := [], jr_ended := jr_ended st @ [(i, fst rs)], jr_vars := fst vw, jr_world := snd vw,
            jr_log := jr_log st @ map (Pair i) tr\<rparr>))"

lemma task_runs:
  "job_reaches limit h prog st0 st \<Longrightarrow> jr_running st = [(i, p)] \<Longrightarrow>
   wrun (performs h) p (jr_vars st, jr_world st) = (rs, tr, vw) \<Longrightarrow>
   job_reaches limit h prog st0 (st\<lparr>jr_running := [], jr_ended := jr_ended st @ [(i, fst rs)], jr_vars := fst vw,
     jr_world := snd vw, jr_log := jr_log st @ map (Pair i) tr\<rparr>)"
proof (induction p arbitrary: st tr)
  case (WRet x)
  from job_reaches.further [OF WRet(1) job_step.leave [of st "[]" i "fst x" "snd x" "[]"]] WRet(2)
  have "job_reaches limit h prog st0 (st\<lparr>jr_running := [], jr_ended := jr_ended st @ [(i, fst x)]\<rparr>)" by simp
  then show ?case using WRet(3) by (cases st) auto
next
  case (WDo oper k)
  obtain r v w where p: "perform h oper (jr_vars st) (jr_world st) = (r, v, w)" by (metis prod_cases3)
  let ?st = "st\<lparr>jr_running := [(i, k r)], jr_vars := v, jr_world := w, jr_log := jr_log st @ [(i, oper, r)]\<rparr>"
  have reach: "job_reaches limit h prog st0 ?st"
    using job_reaches.further [OF WDo.prems(1) job_step.act [of st "[]" i oper k "[]" h r v w limit prog]] WDo.prems(2) p by simp
  obtain tr' where tr: "wrun (performs h) (k r) (v, w) = (rs, tr', vw)" "tr = (oper, r) # tr'"
    using WDo.prems(3) p by (cases "wrun (performs h) (k r) (v, w)") (auto simp: performs_def [of h oper])
  show ?case using WDo.IH [OF rangeI reach] tr by simp
qed

lemma task_run_reaches:
  assumes "job_reaches limit h prog st0 st" "jr_running st = []" "0 < limit"
  shows "job_reaches limit h prog st0 (task_run h prog st) \<and> jr_running (task_run h prog st) = []"
proof (cases "jr_waiting st")
  case (Cons i "is")
  let ?st = "st\<lparr>jr_waiting := is, jr_running := [(i, prog i)]\<rparr>"
  have reach: "job_reaches limit h prog st0 ?st"
    using job_reaches.further [OF assms(1) job_step.enter [OF Cons]] assms(2,3) by simp
  obtain rs tr vw where "wrun (performs h) (prog i) (jr_vars st, jr_world st) = (rs, tr, vw)" by (metis prod_cases3)
  with task_runs [OF reach, of i "prog i" rs tr vw] Cons assms(2) show ?thesis
    by (simp add: task_run_def)
qed (use assms in \<open>simp add: task_run_def\<close>)

definition two_prog :: "nat \<Rightarrow> url_task" where
  "two_prog = url_task_of (\<lambda>_. ''300'') demo_worker two_pages"

definition one_ended :: "unit job_run" where "one_ended = task_run two_world two_prog (job_start two_pages ())"
definition two_ended :: "unit job_run" where "two_ended = task_run two_world two_prog one_ended"

lemma two_ended_reached: "job_reaches 5 two_world (url_task_of (\<lambda>_. ''300'') demo_worker two_pages) (job_start two_pages ()) two_ended"
proof -
  have one: "job_reaches 5 two_world two_prog (job_start two_pages ()) one_ended \<and> jr_running one_ended = []"
    unfolding one_ended_def by (rule task_run_reaches [OF job_reaches.start]) (simp_all add: job_start_def)
  have "job_reaches 5 two_world two_prog (job_start two_pages ()) two_ended"
    unfolding two_ended_def using task_run_reaches [of 5 two_world two_prog _ one_ended] one by simp
  then show ?thesis unfolding two_prog_def .
qed

text \<open>What the run left, read off its last state in one evaluation.\<close>

definition job_facts :: "'w job_run \<Rightarrow> bool \<times> bool \<times> (exn + unit) list \<times> bool option list \<times> string list \<times> bool \<times> bool list" where
  "job_facts st = (jr_waiting st = [], map fst (jr_running st) = [], map snd (jr_ended st),
     map (map_option fr_success) (jv_results (jr_vars st)), jv_errors (jr_vars st), jv_cancelled (jr_vars st),
     map (\<lambda>i. oc_broken (task_outcome st i)) [0, 1])"

lemma two_ended_facts: "job_facts two_ended =
    (True, True, [Inr (), Inr ()], [Some True, Some False], [''HTTP 404''], False, [False, False])"
  by code_simp

lemma two_ended_vars:
  "jr_waiting two_ended = []" "jr_running two_ended = []" "map snd (jr_ended two_ended) = [Inr (), Inr ()]"
  "map (map_option fr_success) (jv_results (jr_vars two_ended)) = [Some True, Some False]"
  "jv_cancelled (jr_vars two_ended) = False"
  using two_ended_facts by (simp_all add: job_facts_def)

lemma two_ended_gathered: "gathered two_ended = Some (Inr ())"
  using two_ended_vars(1-3) by (auto simp: gathered_def map_eq_Cons_conv)

lemma two_ended_results: "map fr_success (final_results (jr_vars two_ended)) = [True, False]"
  using two_ended_vars(4) by (auto simp: final_results_def map_eq_Cons_conv)

lemma two_ended_unbroken: "unbroken two_pages two_ended"
proof -
  have "length (jb_urls two_pages) = 2" by (simp add: two_pages_def)
  then show ?thesis
    using two_ended_facts unfolding unbroken_def by (simp add: job_facts_def less_2_cases_iff)
qed

lemma job_status_matches_results_witness:
  "(js_status (job_response two_pages (jr_vars two_ended)), js_partial_failure (job_response two_pages (jr_vars two_ended)))
     = (COMPLETED, True)"
proof -
  show ?thesis
    unfolding job_status_matches_results [OF two_world two_ended_reached two_ended_gathered two_ended_unbroken]
    using two_ended_results by (auto simp: status_of_results_def two_ended_vars map_eq_Cons_conv)
qed

lemma job_loses_no_url_witness:
  "gathered two_ended = Some (Inr ()) \<and> jv_results (jr_vars two_ended) ! 0 \<noteq> None \<and> jv_results (jr_vars two_ended) ! 1 \<noteq> None"
  using job_loses_no_url [OF two_world two_ended_reached _ _ two_ended_unbroken] two_ended_vars
  by (simp add: two_pages_def demo_job_def)

lemma job_terminates_witness:
  "\<exists>st'. job_step 5 two_world two_prog (job_start two_pages ()) st'"
  using job_terminates [where limit = 5 and h = two_world and prog = two_prog and st = "job_start two_pages ()"] by (simp add: job_start_def two_pages_def)

end
