(* ===== verification/Worker_Engine.thy ===== *)
theory Worker_Engine
  imports Job_Lifecycle Gateway_Health Host_Capacity Circuit_Breaker Worker_Job
begin

text \<open>
  The worker in its engine: each operation a URL's task issues is carried out by the model of the component
  that the task's collaborators are (\<^verbatim>\<open>src/src/scraper_engine/orchestrator/tasks.py\<close>, \<open>_run_scrape\<close>, puts
  them together): circuit breaker, politeness slots, host admission, level memory and gateway health on
  Redis, the queue of dead letters, the result cache and the persistence of results on the tenant's
  tables. The page fetchers, the proxy manager and the extractors are a parameter. The laws the worker relies
  on hold in it, and what a URL leaves behind is what its task decided.
\<close>

subsection \<open>The state and the parameters\<close>

text \<open>
  \<open>en_seat\<close>: the slot key and the lease of the capacity claim the task holds (a context variable there).
  \<open>en_draws\<close>: the random numbers of UUIDs and session labels still to be drawn.
\<close>

record ('s, 'o) engine =
  en_store :: "'s store_world"
  en_vars :: job_vars
  en_seat :: "(string \<times> string) option"
  en_draws :: "nat list"
  en_outside :: 'o

text \<open>
  \<open>ev_outside\<close>: fetchers, proxy manager, extractors. \<open>ev_snapshot\<close>: the object store. \<open>ev_pause\<close> and
  \<open>ev_cancelled\<close>: the random pauses of the wait for capacity, and what the cancellation check answers or raises at a time.
  \<open>ev_retained\<close>: whether a pool parked the browser that a lease paid for. \<open>ev_iso\<close>, \<open>ev_str\<close>: the text of a
  time and of a JSON value.
\<close>

record 'o env =
  ev_worker :: worker
  ev_breaker :: cb_config
  ev_politeness :: politeness_config
  ev_host :: host_admission
  ev_job_id :: string
  ev_outside :: "wop \<Rightarrow> 'o \<Rightarrow> (exn + wans) \<times> 'o"
  ev_snapshot :: "fetch_result \<Rightarrow> string res"
  ev_pause :: "nat \<Rightarrow> rat"
  ev_cancelled :: "rat \<Rightarrow> bool res"
  ev_retained :: "string \<Rightarrow> bool"
  ev_iso :: "rat \<Rightarrow> string"
  ev_str :: "json \<Rightarrow> string"

definition through :: "('s, 'a) access \<Rightarrow> ('a \<Rightarrow> wans) \<Rightarrow> ('s, 'o) engine \<Rightarrow> (exn + wans) \<times> ('s, 'o) engine" where
  "through m f e = (case m (en_store e) of (r, w) \<Rightarrow> (map_sum id f r, e\<lparr>en_store := w\<rparr>))"

definition unit_answer :: "'a \<Rightarrow> wans" where "unit_answer x = AUnit"

text \<open>Sleeping: the clocks of the process and of the server move on.\<close>

definition asleep :: "'s server \<Rightarrow> rat \<Rightarrow> 's store_world \<Rightarrow> 's store_world" where
  "asleep sv seconds w = (elapse (max 0 seconds) w)\<lparr>rw_redis := srv_wait sv (nat \<lfloor>max 0 seconds * 1000\<rfloor>) (rw_redis w)\<rparr>"

definition drawn :: "('s, 'o) engine \<Rightarrow> nat" where
  "drawn e = (case en_draws e of [] \<Rightarrow> 0 | d # _ \<Rightarrow> d)"

definition next_draw :: "('s, 'o) engine \<Rightarrow> ('s, 'o) engine" where
  "next_draw e = e\<lparr>en_draws := tl (en_draws e)\<rparr>"

subsection \<open>Waiting for a slot and for a seat\<close>

text \<open>
  \<open>_acquire_politeness_slot\<close>: each try draws a new holder's name; \<open>None\<close> is a loop still trying when the
  given number of tries is used up.
\<close>

primrec slot_loop ::
  "'s server \<Rightarrow> politeness_config \<Rightarrow> rat \<Rightarrow> string \<Rightarrow> string \<Rightarrow> int \<Rightarrow> nat \<Rightarrow> rat \<Rightarrow> nat \<Rightarrow> ('s, string option option) access" where
  "slot_loop sv cfg interval domain tenant concurrency draw until 0 = rreturn None"
| "slot_loop sv cfg interval domain tenant concurrency draw until (Suc n) =
     rbind (on_redis sv (acquire_slot cfg domain tenant (Some concurrency) (py_str_int (int (draw + n))))) (\<lambda>slot w.
       if slot \<noteq> None then (Inr (Some slot), w)
       else if until \<le> rw_now w then (Inr (Some None), w)
       else slot_loop sv cfg interval domain tenant concurrency draw until n (asleep sv interval w))"

definition slot_tries :: "request_limits \<Rightarrow> nat" where
  "slot_tries cfg = nat \<lceil>pl_slot_wait_timeout_seconds cfg / pl_slot_retry_interval_seconds cfg\<rceil> + 1"

definition acquire_politeness_slot ::
  "'s server \<Rightarrow> request_limits \<Rightarrow> politeness_config \<Rightarrow> string \<Rightarrow> string \<Rightarrow> int \<Rightarrow> nat \<Rightarrow> ('s, string option) access" where
  "acquire_politeness_slot sv limits cfg domain tenant concurrency draw w =
     (case slot_loop sv cfg (pl_slot_retry_interval_seconds limits) domain tenant concurrency draw
         (rw_now w + pl_slot_wait_timeout_seconds limits) (slot_tries limits) w of
        (Inl e, w') \<Rightarrow> (Inl e, w') | (Inr (Some r), w') \<Rightarrow> (Inr r, w') | (Inr None, w') \<Rightarrow> (Inr None, w'))"

text \<open>
  The readings of the clock while a claim waits: the pause is drawn between the two bounds of the
  configuration and never reaches past the deadline.
\<close>

fun readings :: "host_capacity_config \<Rightarrow> (nat \<Rightarrow> rat) \<Rightarrow> (rat \<Rightarrow> bool res) \<Rightarrow> rat \<Rightarrow> nat \<Rightarrow> rat \<Rightarrow> poll list" where
  "readings cfg pause cancelled until 0 now = []"
| "readings cfg pause cancelled until (Suc n) now = \<lparr>pl_before = now, pl_after = now, pl_cancelled = cancelled now\<rparr> #
     readings cfg pause cancelled until n
       (now + min (max (hc_poll_min_seconds cfg) (min (hc_poll_max_seconds cfg) (pause n))) (max 0 (until - now)))"

definition reading_count :: "host_capacity_config \<Rightarrow> rat \<Rightarrow> nat" where
  "reading_count cfg budget = nat \<lceil>max 0 budget / hc_poll_min_seconds cfg\<rceil> + 1"

text \<open>How long the wait took, by its own account.\<close>

definition waited :: "grant option res \<Rightarrow> rat" where
  "waited r = (case r of Inr (Some g) \<Rightarrow> of_int (g_wait_ms g) / 1000 | Inl (AdmissionTimeoutError ms) \<Rightarrow> of_int ms / 1000 | _ \<Rightarrow> 0)"

definition claim_seat ::
  "'s server \<Rightarrow> 'o env \<Rightarrow> claim_request \<Rightarrow> bool \<Rightarrow> nat \<Rightarrow> ('s, grant option) access" where
  "claim_seat sv ev q held draw w =
     (let self = ev_host ev; budget = cr_wait_budget_seconds q;
          polls = readings (ha_cfg self) (ev_pause ev) (ev_cancelled ev) (rw_now w + max 0 budget)
            (reading_count (ha_cfg self) budget) (rw_now w) in
      case on_redis sv (claim_enter self held (cr_tenant q) (cr_domain q) (cr_weight q) (cr_concurrency q) (cr_delay_seconds q)
          (cr_priority_ms q) budget True (py_str_int (int draw)) (py_str_int (int draw + 1)) (rw_now w) polls) w of
        (r, w') \<Rightarrow> (r, asleep sv (waited r) w'))"

subsection \<open>The operations\<close>

text \<open>The proxy manager builds its proxies from rows of the pool's table.\<close>

definition from_pool :: "exn + wans \<Rightarrow> exn + wans" where
  "from_pool r = (case r of Inr (AProxy p) \<Rightarrow> Inr (AProxy (p\<lparr>px_source := Pool\<rparr>)) | _ \<Rightarrow> r)"

definition outside_op :: "'o env \<Rightarrow> wop \<Rightarrow> ('s, 'o) engine \<Rightarrow> (exn + wans) \<times> ('s, 'o) engine" where
  "outside_op ev oper e = (case ev_outside ev oper (en_outside e) of (r, o') \<Rightarrow> (r, e\<lparr>en_outside := o'\<rparr>))"

definition row_answer :: "result_row \<Rightarrow> cached_row" where
  "row_answer r = \<lparr>ro_http_status = sr_http_status r, ro_is_challenge_page = sr_is_challenge_page r, ro_level_used = sr_level_used r,
     ro_proxy_used = sr_proxy_used r, ro_markdown = sr_markdown r, ro_json_data = sr_json_data r,
     ro_html_snapshot_url = sr_html_snapshot_url r\<rparr>"

text \<open>\<open>plan\<close> is asked for ladders that are ascending and not empty only (\<open>resolve_levels_valid\<close>).\<close>

definition plan_op :: "'s server \<Rightarrow> 'o env \<Rightarrow> string \<Rightarrow> string \<Rightarrow> int list \<Rightarrow> ('s, 'o) engine \<Rightarrow> (exn + wans) \<times> ('s, 'o) engine" where
  "plan_op sv ev tenant domain levels e =
     (if levels \<noteq> [] \<and> sorted levels
      then through (on_redis sv (plan (wk_escalation (ev_worker ev)) tenant domain levels)) APlan e else (Inr AUnit, e))"

definition seat_op :: "'s server \<Rightarrow> 'o env \<Rightarrow> claim_request \<Rightarrow> ('s, 'o) engine \<Rightarrow> (exn + wans) \<times> ('s, 'o) engine" where
  "seat_op sv ev q e =
     (case claim_seat sv ev q (en_seat e \<noteq> None) (drawn e) (en_store e) of
        (Inl x, w) \<Rightarrow> (Inl x, next_draw (e\<lparr>en_store := w\<rparr>))
      | (Inr None, w) \<Rightarrow> (Inl (AdmissionTimeoutError 0), next_draw (e\<lparr>en_store := w\<rparr>))
      | (Inr (Some g), w) \<Rightarrow> (Inr AUnit, next_draw (e\<lparr>en_store := w,
          en_seat := Some (slot_key (cr_domain q) (cr_tenant q), g_lease_id g)\<rparr>)))"

definition give_seat_back :: "'s server \<Rightarrow> 'o env \<Rightarrow> ('s, 'o) engine \<Rightarrow> (exn + wans) \<times> ('s, 'o) engine" where
  "give_seat_back sv ev e =
     (case en_seat e of None \<Rightarrow> (Inr AUnit, e)
      | Some (turn_key, lease_id) \<Rightarrow>
          through (on_redis sv (claim_exit (ev_host ev) (ev_retained ev lease_id) turn_key lease_id)) unit_answer (e\<lparr>en_seat := None\<rparr>))"

definition persist_op :: "'o env \<Rightarrow> fetch_result \<Rightarrow> ('s, fetch_result) access" where
  "persist_op ev r = persist_one_result (ev_snapshot ev) True (ev_job_id ev) None r"

definition dlq_op :: "dlq_entry \<Rightarrow> ('s, unit) access" where
  "dlq_op d w = pg (\<lambda>db. (Inr (), dlq_enqueue (rw_now w) (dq_job_id d) (dq_url d) (dq_category d) (dq_message d) (dq_level d)
     (map_option (\<lambda>s. rw_now w + of_int s) (dq_retry_after d)) db)) w"

fun engine_op :: "'s server \<Rightarrow> 'o env \<Rightarrow> wop \<Rightarrow> ('s, 'o) engine \<Rightarrow> (exn + wans) \<times> ('s, 'o) engine" where
  "engine_op sv ev (AllowRequest d) e = through (\<lambda>w. on_redis sv (allow_request d (rw_now w)) w) ABool e"
| "engine_op sv ev (RecordSuccess d) e = through (on_redis sv (cb_record_success (ev_breaker ev) d)) unit_answer e"
| "engine_op sv ev (RecordFailure d) e = through (\<lambda>w. on_redis sv (cb_record_failure (ev_breaker ev) d (rw_now w)) w) unit_answer e"
| "engine_op sv ev GatewayRefused e = through (on_redis sv (gateway_refusal_read (ev_str ev))) (\<lambda>r. ABool (r \<noteq> None)) e"
| "engine_op sv ev (MarkRefused m) e =
     through (\<lambda>w. on_redis sv (mark_refused (di_refused_ttl_seconds (wk_dataimpulse (ev_worker ev))) (ev_iso ev (rw_now w)) m) w) unit_answer e"
| "engine_op sv ev ClearRefused e = through (on_redis sv clear_refused) unit_answer e"
| "engine_op sv ev (GetPlan t d ls) e = plan_op sv ev t d ls e"
| "engine_op sv ev (ReadSiteRefusal t s) e = through (on_redis sv (site_refusal (wk_escalation (ev_worker ev)) t s)) AFields e"
| "engine_op sv ev ReadGatewayEpoch e = through (on_redis sv gateway_epoch) AText e"
| "engine_op sv ev BumpGatewayEpoch e = through (on_redis sv (bump_gateway_epoch (wk_escalation (ev_worker ev)))) unit_answer e"
| "engine_op sv ev (RecordSiteRefused t s fs) e = through (on_redis sv (record_site_refused (wk_escalation (ev_worker ev)) t s fs)) unit_answer e"
| "engine_op sv ev (ClearSiteRefusal t s) e = through (on_redis sv (clear_site_refusal (wk_escalation (ev_worker ev)) t s)) unit_answer e"
| "engine_op sv ev (RecordLevel t d l) e = through (on_redis sv (mem_record_success (wk_escalation (ev_worker ev)) t d l)) unit_answer e"
| "engine_op sv ev (RecordPoolBlocked t d) e = through (on_redis sv (record_pool_blocked (wk_escalation (ev_worker ev)) t d)) unit_answer e"
| "engine_op sv ev (RecordPoolOk t d) e = through (on_redis sv (record_pool_ok (wk_escalation (ev_worker ev)) t d)) unit_answer e"
| "engine_op sv ev (RecordBotaFailed t d) e = through (on_redis sv (record_botasaurus_failed (wk_escalation (ev_worker ev)) t d)) unit_answer e"
| "engine_op sv ev (RecordBotaOk t d) e = through (on_redis sv (record_botasaurus_ok (wk_escalation (ev_worker ev)) t d)) unit_answer e"
| "engine_op sv ev (WaitIfNeeded d t delay) e =
     through (rbind (on_redis sv (wait_if_needed (ev_politeness ev) d t (Some delay))) (\<lambda>ms w. (Inr (), asleep sv (of_int ms / 1000) w))) unit_answer e"
| "engine_op sv ev (AcquireSlot d t n) e =
     through (acquire_politeness_slot sv (wk_limits (ev_worker ev)) (ev_politeness ev) d t n (drawn e)) ATextOpt (next_draw e)"
| "engine_op sv ev (ReleaseSlot d t i) e = through (on_redis sv (release_slot d t i)) unit_answer e"
| "engine_op sv ev Clock e = (Inr (ATime (rw_now (en_store e))), e)"
| "engine_op sv ev WallClock e = (Inr (ATime (rw_now (en_store e))), e)"
| "engine_op sv ev (ClaimSeat q) e = seat_op sv ev q e"
| "engine_op sv ev ReleaseSeat e = give_seat_back sv ev e"
| "engine_op sv ev NewSessionId e = (Inr (AText (new_session_id (drawn e))), next_draw e)"
| "engine_op sv ev (GetProxy t l d) e = (case outside_op ev (GetProxy t l d) e of (r, e') \<Rightarrow> (from_pool r, e'))"
| "engine_op sv ev (ReadJobStatus t j) e =
     through (pg (\<lambda>db. (Inr (map_option (\<lambda>r. job_status_value (sj_status r)) (job_row_of j db)), db))) ATextOpt e"
| "engine_op sv ev (ReadSucceeded t j) e = through (pg (\<lambda>db. (Inr (select_succeeded j db), db))) AUrls e"
| "engine_op sv ev (ReadCachedRow t u) e = through (pg (\<lambda>db. (Inr (map_option row_answer (select_cached u db)), db))) ARow e"
| "engine_op sv ev (DlqEnqueue d) e = through (dlq_op d) unit_answer e"
| "engine_op sv ev (OnResult r) e = through (persist_op ev r) unit_answer e"
| "engine_op sv ev oper e = outside_op ev oper e"

definition engine_world :: "'s server \<Rightarrow> 'o env \<Rightarrow> ('s, 'o) engine world" where
  "engine_world sv ev oper e = (case shared oper (en_vars e) of
     Some (a, v) \<Rightarrow> (Inr a, e\<lparr>en_vars := v\<rparr>) | None \<Rightarrow> engine_op sv ev oper e)"

subsection \<open>The waits end\<close>

lemma asleep_frame [simp]:
  "rw_now (asleep sv s w) = rw_now w + max 0 s" "rw_pg (asleep sv s w) = rw_pg w"
  "td_dlq (rw_db (asleep sv s w)) = td_dlq (rw_db w)" "td_jobs (rw_db (asleep sv s w)) = td_jobs (rw_db w)"
  "td_results (rw_db (asleep sv s w)) = td_results (rw_db w)" "td_next_id (rw_db (asleep sv s w)) = td_next_id (rw_db w)"
  by (simp_all add: asleep_def elapse_def)

lemma slot_loop_ends:
  assumes "0 < interval"
  shows "until - rw_now w \<le> of_nat n * interval \<Longrightarrow> fst (slot_loop sv cfg interval d t c draw until (Suc n) w) \<noteq> Inr None"
proof (induction n arbitrary: w)
  case 0
  obtain r w1 where r: "on_redis sv (acquire_slot cfg d t (Some c) (py_str_int (int (draw + 0)))) w = (r, w1)" by fastforce
  have "rw_now w1 = rw_now w" using on_redis_frame(4) [of sv _ w] r by (metis snd_conv)
  with 0 r show ?case by (cases r) (auto simp: rbind_def)
next
  case (Suc n)
  obtain r w1 where r: "on_redis sv (acquire_slot cfg d t (Some c) (py_str_int (int (draw + Suc n)))) w = (r, w1)" by fastforce
  have "rw_now w1 = rw_now w" using on_redis_frame(4) [of sv _ w] r by (metis snd_conv)
  then have "fst (slot_loop sv cfg interval d t c draw until (Suc n) (asleep sv interval w1)) \<noteq> Inr None"
    using Suc.prems assms by (intro Suc.IH) (simp add: algebra_simps)
  with r show ?case
    by (subst slot_loop.simps(2), cases r) (auto simp add: rbind_def simp del: slot_loop.simps)
qed

lemma slot_wait_ends:
  assumes "0 < pl_slot_retry_interval_seconds limits"
  shows "fst (slot_loop sv cfg (pl_slot_retry_interval_seconds limits) d t c draw
    (rw_now w + pl_slot_wait_timeout_seconds limits) (slot_tries limits) w) \<noteq> Inr None"
proof -
  let ?q = "pl_slot_wait_timeout_seconds limits / pl_slot_retry_interval_seconds limits"
  have "?q \<le> of_nat (nat \<lceil>?q\<rceil>)" by (rule of_nat_ceiling)
  then have "pl_slot_wait_timeout_seconds limits \<le> of_nat (nat \<lceil>?q\<rceil>) * pl_slot_retry_interval_seconds limits"
    using assms by (simp only: pos_divide_le_eq)
  then show ?thesis unfolding slot_tries_def Suc_eq_plus1 [symmetric]
    by (intro slot_loop_ends [OF assms]) simp
qed

lemma readings_reach:
  assumes "0 < hc_poll_min_seconds cfg" "until - now \<le> of_nat n * hc_poll_min_seconds cfg"
  shows "\<exists>p \<in> set (readings cfg pause cancelled until (Suc n) now). until \<le> pl_after p"
  using assms(2)
proof (induction n arbitrary: now)
  case (Suc n)
  define step where "step = min (max (hc_poll_min_seconds cfg) (min (hc_poll_max_seconds cfg) (pause (Suc n)))) (max 0 (until - now))"
  have "until - (now + step) \<le> of_nat n * hc_poll_min_seconds cfg"
  proof (cases "hc_poll_min_seconds cfg \<le> step")
    case True
    with Suc.prems show ?thesis by (simp add: algebra_simps)
  next
    case False
    then have "until - (now + step) \<le> 0" by (simp add: step_def)
    also have "\<dots> \<le> of_nat n * hc_poll_min_seconds cfg" using assms(1) by simp
    finally show ?thesis .
  qed
  from Suc.IH [OF this] show ?case by (auto simp: step_def)
qed simp

lemma claim_seat_ends:
  assumes "0 < hc_poll_min_seconds (ha_cfg (ev_host ev))"
  shows "fst (claim_seat sv ev q held draw w) \<noteq> Inr None"
proof -
  let ?cfg = "ha_cfg (ev_host ev)" and ?b = "max 0 (cr_wait_budget_seconds q)"
  let ?polls = "readings ?cfg (ev_pause ev) (ev_cancelled ev) (rw_now w + ?b) (reading_count ?cfg (cr_wait_budget_seconds q)) (rw_now w)"
  have "?b \<le> of_nat (nat \<lceil>?b / hc_poll_min_seconds ?cfg\<rceil>) * hc_poll_min_seconds ?cfg"
    using of_nat_ceiling [of "?b / hc_poll_min_seconds ?cfg"] assms by (simp only: pos_divide_le_eq)
  then have "\<exists>p \<in> set ?polls. rw_now w + ?b \<le> pl_after p"
    unfolding reading_count_def Suc_eq_plus1 [symmetric] by (intro readings_reach [OF assms]) simp
  note ends = wait_for_grant_over [OF this]
  have run: "fst (claim_seat sv ev q held draw w) = fst (run sv (claim_enter (ev_host ev) held (cr_tenant q) (cr_domain q) (cr_weight q)
      (cr_concurrency q) (cr_delay_seconds q) (cr_priority_ms q) (cr_wait_budget_seconds q) True (py_str_int (int draw))
      (py_str_int (int draw + 1)) (rw_now w) ?polls) (rw_net w) (rw_redis w))"
    by (simp add: claim_seat_def Let_def on_redis_def split: prod.split)
  show ?thesis
  proof (cases held)
    case False
    have nn: "r \<noteq> Inr None" if "wait_over s u ps r" for s u ps and r :: "grant option res" using that by (auto simp: wait_over_def)
    show ?thesis unfolding run claim_enter_def if_not_P [OF False] by (rule nn [OF ends])
  next
    case True
    show ?thesis unfolding run claim_enter_def if_P [OF True] by simp
  qed
qed

subsection \<open>The laws of the worker's world\<close>

lemma fst_through: "fst (through m f e) = map_sum id f (fst (m (en_store e)))"
  by (simp add: through_def split: prod.split)

lemma isl_map_sum [simp]: "isl (map_sum id f r) = isl r"
  by (cases r) simp_all

lemma on_redis_never_raises: "never_raises p \<Longrightarrow> \<not> isl (fst (on_redis sv p w))"
  using never_raises_run [of p sv "rw_net w" "rw_redis w"] by (auto simp: on_redis_def split: prod.split)

lemmas engine_never_raises = level_memory_never_raises gateway_health_never_raises

lemma engine_quiet:
  assumes "quiet oper"
  shows "\<not> isl (fst (engine_world sv ev oper e))"
  using assms by (cases oper)
    (auto simp: engine_world_def fst_through plan_op_def give_seat_back_def claim_exit_def on_redis_never_raises
      engine_never_raises split: option.split prod.split)

lemma plan_op_in_range:
  assumes "fst (plan_op sv ev t d ls e) = Inr (APlan p)"
  shows "hd ls \<le> start_level p \<and> start_level p \<le> last ls"
proof -
  from assms have ls: "ls \<noteq> []" "sorted ls" by (auto simp: plan_op_def split: if_splits)
  with assms have "fst (run sv (plan (wk_escalation (ev_worker ev)) t d ls) (rw_net (en_store e)) (rw_redis (en_store e))) = Inr p"
    by (cases "fst (on_redis sv (plan (wk_escalation (ev_worker ev)) t d ls) (en_store e))")
      (auto simp: plan_op_def fst_through on_redis_def split: prod.splits)
  from returns_only_run [OF plan_in_range [OF ls] this] show ?thesis .
qed

interpretation engine: worker_world "engine_world sv ev" for sv :: "'s server" and ev :: "'o env"
proof
  fix oper and e :: "('s, 'o) engine"
  show "answers oper (fst (engine_world sv ev oper e))"
    unfolding answers_def
  proof (intro conjI allI impI)
    show "\<not> isl (fst (engine_world sv ev oper e))" if "quiet oper" by (rule engine_quiet [OF that])
    show "hd ls \<le> start_level p" "start_level p \<le> last ls"
      if "oper = GetPlan t d ls" "fst (engine_world sv ev oper e) = Inr (APlan p)" for t d ls p
      using plan_op_in_range [of sv ev t d ls e p] that by (simp_all add: engine_world_def)
    show "px_source p = Pool" if "oper = GetProxy t l d" "fst (engine_world sv ev oper e) = Inr (AProxy p)" for t l d p
      using that by (auto simp: engine_world_def from_pool_def split: prod.splits sum.splits wans.splits)
    show "\<exists>s. fst (engine_world sv ev oper e) = Inr (AText s) \<and> s \<noteq> []" if "oper = NewSessionId"
      using that by (simp add: engine_world_def new_session_id_def py_str_int_def)
  qed
qed

end
