(* ===== verification/Worker_Record.thy ===== *)
theory Worker_Record
  imports Worker_Engine Worker_Outcome
begin

text \<open>
  What a URL leaves behind in the engine: each operation of the worker refines an entry in a book of results
  and dead letters, so the outcome its task decided is what the tables hold.
\<close>

subsection \<open>What a task leaves in the tables\<close>

text \<open>
  The tables as the outside sees them: the dead letter of each job and URL, and the results in the order
  they were written.
\<close>

type_synonym record_book = "(string \<times> string \<Rightarrow> string option) \<times> (string \<times> string \<times> bool \<times> failure_category option) list"

definition letters :: "tenant_db \<Rightarrow> string \<times> string \<Rightarrow> string option" where
  "letters db = map_of (map (\<lambda>r. ((dl_job r, dl_url r), dl_category r)) (td_dlq db))"

definition book :: "tenant_db \<Rightarrow> record_book" where
  "book db = (letters db, map (\<lambda>r. (sr_job r, sr_url r, sr_success r, sr_failure_category r)) (td_results db))"

text \<open>What an operation and its answer mean for them.\<close>

fun entered :: "string \<Rightarrow> wop \<Rightarrow> exn + wans \<Rightarrow> record_book \<Rightarrow> record_book" where
  "entered j (DlqEnqueue d) (Inr a) (ls, rs) = (ls((dq_job_id d, dq_url d) \<mapsto> category_value (dq_category d)), rs)"
| "entered j (OnResult x) (Inr a) (ls, rs) =
     (if fr_success x then ls((j, fr_url x) := None) else ls, rs @ [(j, fr_url x, fr_success x, fr_failure_category x)])"
| "entered j oper r b = b"

lemma letters_enqueue: "letters (dlq_enqueue now j u c m l nb db) = (letters db)((j, u) \<mapsto> category_value c)"
proof (cases "list_ex (dlq_at j u) (td_dlq db)")
  case True
  have "map_of (map (\<lambda>r. ((dl_job r, dl_url r), dl_category r)) (map (\<lambda>r. if dlq_at j u r then f r else r) rs)) =
      (map_of (map (\<lambda>r. ((dl_job r, dl_url r), dl_category r)) rs))((j, u) := (if list_ex (dlq_at j u) rs then Some c' else None))"
    if "\<And>r. dl_job (f r) = dl_job r \<and> dl_url (f r) = dl_url r \<and> dl_category (f r) = c'" for f c' and rs :: "dlq_row list"
    using that by (induction rs) (auto simp: dlq_at_def fun_eq_iff)
  from this [of _ "category_value c"] True show ?thesis
    by (simp add: letters_def dlq_enqueue_def Let_def)
next
  case False
  then have "map_of (map (\<lambda>r. ((dl_job r, dl_url r), dl_category r)) (td_dlq db)) (j, u) = None"
    by (auto simp: map_of_eq_None_iff list_ex_iff dlq_at_def)
  with False show ?thesis
    by (auto simp: letters_def dlq_enqueue_def Let_def map_add_def fun_eq_iff split: option.split)
qed

lemma letters_clear: "letters (dlq_clear j u db) = (letters db)((j, u) := None)"
proof -
  have "map_of (map (\<lambda>r. ((dl_job r, dl_url r), dl_category r)) (filter (\<lambda>r. \<not> dlq_at j u r) rs)) =
      (map_of (map (\<lambda>r. ((dl_job r, dl_url r), dl_category r)) rs))((j, u) := None)" for rs
    by (induction rs) (auto simp: dlq_at_def fun_eq_iff)
  then show ?thesis by (simp add: letters_def dlq_clear_def)
qed

lemma letters_dlq: "td_dlq db' = td_dlq db \<Longrightarrow> letters db' = letters db"
  by (simp add: letters_def)

lemma book_enqueue: "book (dlq_enqueue now j u c m l nb db) = ((letters db)((j, u) \<mapsto> category_value c), snd (book db))"
  by (simp add: book_def letters_enqueue) (simp add: dlq_enqueue_def Let_def)

lemma book_clear: "book (dlq_clear j u db) = ((letters db)((j, u) := None), snd (book db))"
  by (simp add: book_def letters_clear) (simp add: dlq_clear_def)

lemma book_insert: "book (insert_result j r s t db) = (letters db, snd (book db) @ [(j, fr_url r, fr_success r, fr_failure_category r)])"
  by (simp add: book_def letters_def insert_result_def)

lemma book_frame: "td_dlq db' = td_dlq db \<Longrightarrow> td_results db' = td_results db \<Longrightarrow> book db' = book db"
  by (simp add: book_def letters_def)

lemma book_touch: "book (touch_job j db) = book db"
  by (rule book_frame) (simp_all add: touch_job_def update_jobs_def)

lemma book_pair: "book db = (letters db, snd (book db))"
  by (simp add: book_def)

lemma persist_book:
  assumes "rw_pg w = []" "persist_one_result sn True j t x w = (Inr y, w')"
  shows "rw_pg w' = [] \<and> book (rw_db w') = entered j (OnResult x) (Inr AUnit) (book (rw_db w))"
proof -
  define db1 where "db1 = (if fr_success x then dlq_clear j (fr_url x) (rw_db w) else rw_db w)"
  from assms obtain u where
    w': "w' = w\<lparr>rw_db := touch_job j (insert_result j (if truthy_str (fr_html x) then x\<lparr>fr_html_snapshot_url := Some u\<rparr> else x)
        (fr_html_snapshot_url (if truthy_str (fr_html x) then x\<lparr>fr_html_snapshot_url := Some u\<rparr> else x)) t db1)\<rparr>"
    by (cases "sn x") (auto simp: persist_one_result_def rbind_def rreturn_def pg_alone db1_def split: if_splits)
  have "book db1 = (if fr_success x then (letters (rw_db w))((j, fr_url x) := None) else letters (rw_db w), snd (book (rw_db w)))"
    unfolding db1_def by (cases "fr_success x") (simp_all add: book_clear book_pair [symmetric])
  then have "letters db1 = (if fr_success x then (letters (rw_db w))((j, fr_url x) := None) else letters (rw_db w))"
    "snd (book db1) = snd (book (rw_db w))"
    unfolding book_def by simp_all
  then have "book (rw_db w') = entered j (OnResult x) (Inr AUnit) (letters (rw_db w), snd (book (rw_db w)))"
    unfolding w' by (simp add: book_touch book_insert)
  with assms(1) show ?thesis unfolding book_pair [symmetric] by (simp add: w')
qed

definition keeps_book :: "('s, 'a) access \<Rightarrow> bool" where
  "keeps_book m \<longleftrightarrow> (\<forall>w. rw_pg w = [] \<longrightarrow> rw_pg (snd (m w)) = [] \<and> book (rw_db (snd (m w))) = book (rw_db w))"

lemma keeps_book_redis: "keeps_book (on_redis sv p)"
  by (simp add: keeps_book_def)

lemma keeps_book_redis_at: "keeps_book (\<lambda>w. on_redis sv (p w) w)"
  by (simp add: keeps_book_def)

lemma keeps_book_read: "keeps_book (pg (\<lambda>db. (f db, db)))"
  by (simp add: keeps_book_def pg_alone)

lemma keeps_book_asleep: "keeps_book m \<Longrightarrow> rw_pg w = [] \<Longrightarrow> rw_pg (snd (m (asleep sv s w))) = [] \<and> book (rw_db (snd (m (asleep sv s w)))) = book (rw_db w)"
  using book_frame [of "rw_db (asleep sv s w)" "rw_db w"] by (simp add: keeps_book_def)

lemma keeps_bookD: "keeps_book m \<Longrightarrow> m w = (r, w1) \<Longrightarrow> rw_pg w = [] \<Longrightarrow> rw_pg w1 = [] \<and> book (rw_db w1) = book (rw_db w)"
  by (metis keeps_book_def snd_conv)

lemma keeps_bookI: "(\<And>w r w1. m w = (r, w1) \<Longrightarrow> rw_pg w = [] \<Longrightarrow> rw_pg w1 = [] \<and> book (rw_db w1) = book (rw_db w)) \<Longrightarrow> keeps_book m"
  unfolding keeps_book_def by (metis prod.collapse)

lemma keeps_book_bind:
  assumes "keeps_book m" "\<And>a. keeps_book (f a)"
  shows "keeps_book (rbind m f)"
proof (rule keeps_bookI)
  fix w r w2
  assume run: "rbind m f w = (r, w2)" and w: "rw_pg w = []"
  obtain x w1 where m: "m w = (x, w1)" by fastforce
  note w1 = keeps_bookD [OF assms(1) m w]
  show "rw_pg w2 = [] \<and> book (rw_db w2) = book (rw_db w)"
  proof (cases x)
    case (Inl e)
    with run m w1 show ?thesis by (simp add: rbind_def)
  next
    case (Inr a)
    with run m have "f a w1 = (r, w2)" by (simp add: rbind_def)
    from keeps_bookD [OF assms(2) this] w1 show ?thesis by simp
  qed
qed

lemma keeps_book_slot_loop: "keeps_book (slot_loop sv cfg i d t c draw until n)"
proof (induction n)
  case 0
  show ?case by (simp add: keeps_book_def rreturn_def)
next
  case (Suc n)
  have "keeps_book (\<lambda>w. if slot \<noteq> None then (Inr (Some slot), w) else if until \<le> rw_now w then (Inr (Some None), w)
      else slot_loop sv cfg i d t c draw until n (asleep sv i w))" for slot
    using keeps_book_asleep [OF Suc.IH] by (auto simp: keeps_book_def)
  then show ?case by (simp add: keeps_book_bind keeps_book_redis)
qed

lemma keeps_book_slot: "keeps_book (acquire_politeness_slot sv l cfg d t c draw)"
proof (rule keeps_bookI)
  fix w :: "'a store_world" and r w2
  let ?m = "slot_loop sv cfg (pl_slot_retry_interval_seconds l) d t c draw (rw_now w + pl_slot_wait_timeout_seconds l) (slot_tries l)"
  assume run: "acquire_politeness_slot sv l cfg d t c draw w = (r, w2)" and w: "rw_pg w = []"
  obtain x where "?m w = (x, w2)"
    using run unfolding acquire_politeness_slot_def by (auto split: prod.splits sum.splits option.splits)
  from keeps_bookD [OF keeps_book_slot_loop this w] show "rw_pg w2 = [] \<and> book (rw_db w2) = book (rw_db w)" .
qed

lemma book_asleep: "book (rw_db (asleep sv s w)) = book (rw_db w)"
  by (rule book_frame) simp_all

lemma keeps_book_wait: "keeps_book (rbind (on_redis sv p) (\<lambda>ms w. (Inr (), asleep sv (f ms) w)))"
  by (rule keeps_book_bind [OF keeps_book_redis]) (simp add: keeps_book_def book_asleep)

lemma keeps_book_claim: "keeps_book (claim_seat sv ev q held draw)"
  by (rule keeps_bookI) (auto simp: claim_seat_def Let_def book_asleep dest: keeps_bookD [OF keeps_book_redis] split: prod.splits)

lemma through_book:
  assumes "keeps_book m" "rw_pg (en_store e) = []"
  shows "rw_pg (en_store (snd (through m f e))) = [] \<and> book (rw_db (en_store (snd (through m f e)))) = book (rw_db (en_store e))"
proof -
  obtain r w where "m (en_store e) = (r, w)" by fastforce
  with keeps_bookD [OF assms(1) this assms(2)] show ?thesis by (simp add: through_def)
qed

lemmas keeps_book_rules = keeps_book_redis keeps_book_redis_at keeps_book_read keeps_book_slot keeps_book_wait

lemma engine_book_other:
  assumes "rw_pg (en_store e) = []" "\<And>d. oper \<noteq> DlqEnqueue d" "\<And>x. oper \<noteq> OnResult x"
  shows "rw_pg (en_store (snd (engine_op sv ev oper e))) = [] \<and>
    book (rw_db (en_store (snd (engine_op sv ev oper e)))) = book (rw_db (en_store e))"
proof -
  have plain: "\<not> (\<exists>d. oper = DlqEnqueue d)" "\<not> (\<exists>x. oper = OnResult x)" using assms(2,3) by simp_all
  have outside: "en_store (snd (outside_op ev oper e)) = en_store e" for oper
    by (simp add: outside_op_def split: prod.split)
  have seat: "rw_pg (en_store (snd (seat_op sv ev q e))) = [] \<and> book (rw_db (en_store (snd (seat_op sv ev q e)))) = book (rw_db (en_store e))" for q
  proof -
    obtain r w where c: "claim_seat sv ev q (en_seat e \<noteq> None) (drawn e) (en_store e) = (r, w)" by fastforce
    from keeps_bookD [OF keeps_book_claim this assms(1)] c show ?thesis
      by (auto simp: seat_op_def next_draw_def split: sum.split option.split)
  qed
  have given: "rw_pg (en_store (snd (give_seat_back sv ev e))) = [] \<and> book (rw_db (en_store (snd (give_seat_back sv ev e)))) = book (rw_db (en_store e))"
    using assms(1) by (simp add: give_seat_back_def through_book keeps_book_redis split: option.split prod.split)
  show ?thesis
    using assms(1) plain seat given through_book [OF keeps_book_slot, of "next_draw e"]
    by (cases oper) (simp_all add: through_book keeps_book_rules plan_op_def outside next_draw_def case_prod_beta')
qed

lemma engine_book:
  assumes "rw_pg (en_store e) = []" "engine_world sv ev oper e = (r, e')" "\<And>x. oper = OnResult x \<Longrightarrow> \<not> isl r"
  shows "rw_pg (en_store e') = [] \<and> book (rw_db (en_store e')) = entered (ev_job_id ev) oper r (book (rw_db (en_store e)))"
proof (cases "shared oper (en_vars e)")
  case (Some av)
  with assms(1,2) show ?thesis by (cases oper) (auto simp: engine_world_def)
next
  case None
  with assms(2) have run: "engine_op sv ev oper e = (r, e')" by (simp add: engine_world_def)
  consider (letter) d where "oper = DlqEnqueue d" | (result) x where "oper = OnResult x"
    | (other) "\<And>d. oper \<noteq> DlqEnqueue d" "\<And>x. oper \<noteq> OnResult x" by blast
  then show ?thesis
  proof cases
    case letter
    have "entered j (DlqEnqueue d) (Inr AUnit) b = ((fst b)((dq_job_id d, dq_url d) \<mapsto> category_value (dq_category d)), snd b)" for j b
      by (cases b) simp
    moreover have "fst (book db) = letters db" for db by (simp add: book_def)
    moreover have "r = Inr AUnit" "rw_pg (en_store e') = []"
      "rw_db (en_store e') = dlq_enqueue (rw_now (en_store e)) (dq_job_id d) (dq_url d) (dq_category d) (dq_message d) (dq_level d)
        (map_option (\<lambda>s. rw_now (en_store e) + of_int s) (dq_retry_after d)) (rw_db (en_store e))"
      using run letter assms(1) by (auto simp: through_def dlq_op_def pg_alone unit_answer_def)
    ultimately show ?thesis by (simp add: letter book_enqueue)
  next
    case result
    obtain y w where p: "persist_op ev x (en_store e) = (y, w)" by fastforce
    with run result have r: "r = map_sum id unit_answer y" "e' = e\<lparr>en_store := w\<rparr>" by (simp_all add: through_def)
    with assms(3) [OF result] obtain z where "y = Inr z" by (cases y) simp_all
    with p r result persist_book [OF assms(1)] show ?thesis by (auto simp: persist_op_def unit_answer_def)
  next
    case other
    moreover from this have "entered (ev_job_id ev) oper r b = b" for b by (cases oper; cases b) simp_all
    ultimately show ?thesis using engine_book_other [OF assms(1) other, of sv ev] run by simp
  qed
qed

text \<open>The whole run of a task, operation by operation.\<close>

definition entries :: "string \<Rightarrow> trace \<Rightarrow> record_book \<Rightarrow> record_book" where
  "entries j tr b = fold (\<lambda>(oper, r). entered j oper r) tr b"

lemma entries_simps [simp]: "entries j [] b = b" "entries j ((oper, r) # tr) b = entries j tr (entered j oper r b)"
  by (simp_all add: entries_def)

lemma run_book:
  assumes "rw_pg (en_store e) = []" "wrun (engine_world sv ev) p e = (a, tr, e')" "\<And>x r. (OnResult x, r) \<in> set tr \<Longrightarrow> \<not> isl r"
  shows "rw_pg (en_store e') = [] \<and> book (rw_db (en_store e')) = entries (ev_job_id ev) tr (book (rw_db (en_store e)))"
  using assms
proof (induction p arbitrary: e tr)
  case (WDo oper k)
  obtain r e1 where 1: "engine_world sv ev oper e = (r, e1)" by fastforce
  obtain a2 tr2 e2 where 2: "wrun (engine_world sv ev) (k r) e1 = (a2, tr2, e2)" by (metis prod_cases3)
  from 1 2 WDo.prems(2) have tr: "tr = (oper, r) # tr2" "a2 = a" "e2 = e'" by auto
  have "\<not> isl r" if "oper = OnResult x" for x using WDo.prems(3) [of x r] tr that by simp
  then have e1: "rw_pg (en_store e1) = [] \<and> book (rw_db (en_store e1)) = entered (ev_job_id ev) oper r (book (rw_db (en_store e)))"
    by (intro engine_book [OF WDo.prems(1) 1]) simp
  have "rw_pg (en_store e') = [] \<and> book (rw_db (en_store e')) = entries (ev_job_id ev) tr2 (book (rw_db (en_store e1)))"
    using WDo.IH [OF rangeI, of e1 r tr2] e1 2 tr WDo.prems(3) by auto
  with e1 tr show ?case by simp
qed simp

lemma jot_broken: "oc_broken g \<Longrightarrow> oc_broken (jot oper r g)"
  by (cases "(oper, r, g)" rule: jot.cases) simp_all

lemma summary_append [simp]: "summary upd (tr @ [(oper, r)]) g = upd oper r (summary upd tr g)"
  by (simp add: summary_def)

lemma entries_append [simp]: "entries j (tr @ [(oper, r)]) b = entered j oper r (entries j tr b)"
  by (simp add: entries_def)

lemma reported_answered:
  "\<not> oc_broken (summary jot tr g) \<Longrightarrow> (OnResult x, r) \<in> set tr \<Longrightarrow> \<not> isl r"
proof (induction tr rule: rev_induct)
  case (snoc p tr)
  obtain oper r' where p: "p = (oper, r')" by fastforce
  with snoc.prems(1) have "\<not> oc_broken (summary jot tr g)" by (auto dest: jot_broken)
  with snoc p show ?case by (cases r') auto
qed simp

lemma entries_results:
  "\<not> oc_broken (summary jot tr g) \<Longrightarrow> oc_reported g = [] \<Longrightarrow>
   snd (entries j tr b) = snd b @ map (\<lambda>x. (j, fr_url x, fr_success x, fr_failure_category x)) (oc_reported (summary jot tr g))"
proof (induction tr rule: rev_induct)
  case (snoc p tr)
  obtain oper r where p: "p = (oper, r)" by fastforce
  with snoc.prems(1) have "\<not> oc_broken (summary jot tr g)" by (auto dest: jot_broken)
  with snoc p show ?case
    by (cases "(oper, r, summary jot tr g)" rule: jot.cases; cases "entries j tr b"; cases r) auto
qed simp

definition letter_of :: "dlq_entry \<Rightarrow> (string \<times> string \<Rightarrow> string option) \<Rightarrow> string \<times> string \<Rightarrow> string option" where
  "letter_of d ls = ls((dq_job_id d, dq_url d) \<mapsto> category_value (dq_category d))"

lemma entries_failed:
  "\<not> oc_broken (summary jot tr g) \<Longrightarrow> oc_dlq g = [] \<Longrightarrow> \<forall>x \<in> set (oc_reported (summary jot tr g)). \<not> fr_success x \<Longrightarrow>
   fst (entries j tr b) = fold letter_of (oc_dlq (summary jot tr g)) (fst b)"
proof (induction tr rule: rev_induct)
  case (snoc p tr)
  obtain oper r where p: "p = (oper, r)" by fastforce
  with snoc.prems(1) have ok: "\<not> oc_broken (summary jot tr g)" by (auto dest: jot_broken)
  have "\<forall>x \<in> set (oc_reported (summary jot tr g)). \<not> fr_success x"
    using snoc.prems(3) p by (cases "(oper, r, summary jot tr g)" rule: jot.cases) auto
  with snoc.IH [OF ok snoc.prems(2)] snoc.prems p show ?case
    by (cases "(oper, r, summary jot tr g)" rule: jot.cases; cases "entries j tr b"; cases r) (auto simp: letter_of_def)
qed simp

lemma entries_succeeded:
  "\<not> oc_broken (summary jot tr g) \<Longrightarrow> oc_reported g = [] \<Longrightarrow> oc_dlq (summary jot tr g) = [] \<Longrightarrow>
   fst (entries j tr b) = fold (\<lambda>x ls. if fr_success x then ls((j, fr_url x) := None) else ls) (oc_reported (summary jot tr g)) (fst b)"
proof (induction tr rule: rev_induct)
  case (snoc p tr)
  obtain oper r where p: "p = (oper, r)" by fastforce
  with snoc.prems(1) have ok: "\<not> oc_broken (summary jot tr g)" by (auto dest: jot_broken)
  have "oc_dlq (summary jot tr g) = []"
    using snoc.prems(3) p by (cases "(oper, r, summary jot tr g)" rule: jot.cases) auto
  with snoc.IH [OF ok snoc.prems(2)] snoc.prems p show ?case
    by (cases "(oper, r, summary jot tr g)" rule: jot.cases; cases "entries j tr b"; cases r) auto
qed simp

text \<open>
  The row of results and the dead letter that a result \<open>x\<close> of a URL leaves: the row carries the URL, the
  success and the failure category of \<open>x\<close>, the letter of a failed \<open>x\<close> the same category.
\<close>

definition recorded :: "string \<Rightarrow> string \<Rightarrow> fetch_result \<Rightarrow> tenant_db \<Rightarrow> tenant_db \<Rightarrow> bool" where
  "recorded j url x db db' \<longleftrightarrow>
     snd (book db') = snd (book db) @ [(j, fr_url x, fr_success x, fr_failure_category x)] \<and>
     letters db' = (if fr_success x then (letters db)((j, fr_url x) := None)
       else (letters db)((j, url) := map_option category_value (fr_failure_category x)))"

text \<open>
  \<^bold>\<open>C5\<close>: what a URL leaves in the tables. In the engine built from the models of the components, for a
  job with the result callback and an own connection whose statements are all answered, when no
  bookkeeping call raised: one run of a URL's task adds exactly one row of results, the row of the one
  result \<open>x\<close> the run put into the URL's slot; if \<open>x\<close> failed, the dead letter of this job and URL now has the
  category \<open>x\<close> and its row have, and no other letter changed; if \<open>x\<close> succeeded, the letter of its page is
  gone and no other changed. When the job's cancellation was seen or the job had the URL already, it
  may instead leave the tables as they were.
\<close>

theorem url_outcome_stored:
  fixes e :: "('s, 'o) engine"
  assumes "rw_pg (en_store e) = []" "ev_job_id ev = jb_job_id jb" "jb_on_result jb"
    and "wrun (engine_world sv ev) (process_one_url show_secs self jb i url url_start) e = (r, tr, e')"
    and "\<not> oc_broken (summary jot tr outcome_start)"
  shows "(\<exists>x. oc_sets (summary jot tr outcome_start) = [(i, x)] \<and>
        recorded (jb_job_id jb) url x (rw_db (en_store e)) (rw_db (en_store e'))) \<or>
    book (rw_db (en_store e')) = book (rw_db (en_store e)) \<and>
      (oc_stopped (summary jot tr outcome_start) \<or> url \<in> set (jb_already_done jb))"
proof -
  let ?g = "summary jot tr outcome_start" and ?b = "book (rw_db (en_store e))"
  have start: "oc_reported outcome_start = []" "oc_dlq outcome_start = []" by (simp_all add: outcome_start_def)
  obtain a s where r: "r = (a, s)" by fastforce
  have "walk (\<lambda>r _. task_post jb i url r) (process_one_url show_secs self jb i url) url_start outcome_start"
    by (rule process_one_url_walk) simp_all
  then have "task_post jb i url a ?g"
    unfolding up_def using engine.wp_sound [OF _ assms(4)] r by fastforce
  then have post: "settled i True url ?g \<or> fresh ?g \<and> (oc_stopped ?g \<or> url \<in> set (jb_already_done jb))"
    using assms(3,5) by (auto simp: task_post_def)
  have b: "book (rw_db (en_store e')) = entries (jb_job_id jb) tr ?b"
    using run_book [OF assms(1,4)] reported_answered [OF assms(5)] assms(2) by metis
  have mine: "dq_job_id d = jb_job_id jb" if "d \<in> set (oc_dlq ?g)" for d
  proof -
    have "d \<in> set (oc_dlq (summary jot tr' outcome_start)) \<Longrightarrow> \<exists>x. (DlqEnqueue d, x) \<in> set tr'" for tr'
    proof (induction tr' rule: rev_induct)
      case (snoc p tr')
      obtain oper r where p: "p = (oper, r)" by fastforce
      with snoc show ?case by (cases "(oper, r, summary jot tr' outcome_start)" rule: jot.cases) auto
    qed (simp add: outcome_start_def)
    from this [OF that] obtain x where "(DlqEnqueue d, x) \<in> set tr" ..
    then obtain tr1 tr2 where tr: "tr = tr1 @ (DlqEnqueue d, x) # tr2" by (meson split_list)
    have "up (\<lambda>oper _. in_scope self jb i url oper) (\<lambda>_ _ u. u) (\<lambda>_ _ _. True) (process_one_url show_secs self jb i url) url_start ()"
      using scope_url unfolding only_ops_def issues_def by blast
    from engine.wp_guard_sound [OF this [unfolded up_def], of sv ev e r tr1 _ x tr2 e'] assms(4) tr
    show ?thesis by fastforce
  qed
  from post show ?thesis
  proof
    assume "settled i True url ?g"
    then obtain x where x: "oc_reported ?g = [x]" and slot: "oc_sets ?g = [(i, x)]" and
      out: "if fr_success x then oc_dlq ?g = [] else \<exists>d. oc_dlq ?g = [d] \<and> dq_url d = url \<and> fr_failure_category x = Some (dq_category d)"
      unfolding settled_def by (auto split: if_splits)
    have res: "snd (book (rw_db (en_store e'))) = snd ?b @ [(jb_job_id jb, fr_url x, fr_success x, fr_failure_category x)]"
      using entries_results [OF assms(5) start(1), of "jb_job_id jb" ?b] b x by simp
    show ?thesis
    proof (cases "fr_success x")
      case True
      with out have none: "oc_dlq ?g = []" by simp
      have "fst (entries (jb_job_id jb) tr ?b) = (fst ?b)((jb_job_id jb, fr_url x) := None)"
        using entries_succeeded [OF assms(5) start(1) none, of "jb_job_id jb" ?b] x True by simp
      then have "letters (rw_db (en_store e')) = (letters (rw_db (en_store e)))((jb_job_id jb, fr_url x) := None)"
        unfolding b [symmetric] by (simp add: book_def)
      with res True have "recorded (jb_job_id jb) url x (rw_db (en_store e)) (rw_db (en_store e'))" by (simp add: recorded_def)
      with slot show ?thesis by blast
    next
      case False
      with out obtain d where d: "oc_dlq ?g = [d]" "dq_url d = url" "fr_failure_category x = Some (dq_category d)" by auto
      have "fst (entries (jb_job_id jb) tr ?b) = letter_of d (fst ?b)"
        using entries_failed [OF assms(5) start(2), of "jb_job_id jb" ?b] False x d(1) by simp
      then have "letters (rw_db (en_store e')) = (letters (rw_db (en_store e)))((jb_job_id jb, url) := map_option category_value (fr_failure_category x))"
        unfolding b [symmetric] letter_of_def using mine [of d] d by (simp add: book_def)
      with res False have "recorded (jb_job_id jb) url x (rw_db (en_store e)) (rw_db (en_store e'))" by (simp add: recorded_def)
      with slot show ?thesis by blast
    qed
  next
    assume fr: "fresh ?g \<and> (oc_stopped ?g \<or> url \<in> set (jb_already_done jb))"
    then have "oc_reported ?g = []" "oc_dlq ?g = []" by (simp_all add: fresh_def)
    with entries_results [OF assms(5) start(1), of "jb_job_id jb" ?b] entries_succeeded [OF assms(5) start(1), of "jb_job_id jb" ?b]
    have "entries (jb_job_id jb) tr ?b = ?b" by (simp add: prod_eq_iff)
    with fr b show ?thesis by simp
  qed
qed

subsection \<open>A run of the engine\<close>

text \<open>
  An engine on an empty Redis server, for a job whose URL has a dead letter of an earlier run. The page
  answers 403 to plain HTTP and loads in a browser; the first proxy of the pool is handed out as stored.
\<close>

fun shop_outside :: "wop \<Rightarrow> unit \<Rightarrow> (exn + wans) \<times> unit" where
  "shop_outside (Fetch q) o' = (Inr (AResult (demo_page (fq_level q))), o')"
| "shop_outside oper o' = (Inr AUnit, o')"

definition demo_env :: "unit env" where
  "demo_env = \<lparr>ev_worker = demo_worker, ev_breaker = cb_defaults, ev_politeness = politeness_defaults,
     ev_host = host_admission_init ''h'' host_capacity_defaults (Some 4) None, ev_job_id = ''j1'', ev_outside = shop_outside,
     ev_snapshot = (\<lambda>r. Inr ''s3://page''), ev_pause = (\<lambda>_. 1), ev_cancelled = (\<lambda>_. Inr False), ev_retained = (\<lambda>_. False),
     ev_iso = (\<lambda>_. ''now''), ev_str = (\<lambda>_. [])\<rparr>"

definition demo_engine :: "(keyspace, unit) engine" where
  "demo_engine = \<lparr>en_store = \<lparr>rw_db = dlq_enqueue 0 ''j1'' ''https://shop.example/1'' PROXY_EXHAUSTED ''none left'' 2 None
       (insert_job ''j1'' [''https://shop.example/1''] (ScrapeConfig None) None None
         \<lparr>td_dlq = [], td_next_id = 1, td_jobs = [], td_results = [], td_now = 0\<rparr>),
       rw_pg = [], rw_redis = empty_keyspace, rw_net = [], rw_now = 100, rw_queue = [], rw_queue_fates = [], rw_probe = None\<rparr>,
     en_vars = \<lparr>jv_results = [None], jv_errors = [], jv_cancelled = False\<rparr>, en_seat = None, en_draws = [], en_outside = ()\<rparr>"

definition demo_engine_run :: "((exn + unit) \<times> url_state) \<times> trace \<times> (keyspace, unit) engine" where
  "demo_engine_run = wrun (engine_world mem_server demo_env)
     (process_one_url (\<lambda>_. ''300'') demo_worker demo_job 0 ''https://shop.example/1'' url_start) demo_engine"

definition engine_facts :: "((exn + unit) \<times> url_state) \<times> trace \<times> (keyspace, unit) engine \<Rightarrow>
    bool \<times> bool \<times> (string \<times> string \<times> bool \<times> failure_category option) list \<times> nat" where
  "engine_facts whole = (oc_broken (summary jot (fst (snd whole)) outcome_start), oc_stopped (summary jot (fst (snd whole)) outcome_start),
     snd (book (rw_db (en_store (snd (snd whole))))), length (td_dlq (rw_db (en_store (snd (snd whole))))))"

lemma demo_engine_facts: "engine_facts demo_engine_run = (False, False, [(''j1'', ''https://shop.example/1'', True, None)], 0)"
  by code_simp

theorem url_outcome_stored_witness:
  "letters (rw_db (en_store (snd (snd demo_engine_run)))) (''j1'', ''https://shop.example/1'') = None \<and>
   letters (rw_db (en_store demo_engine)) (''j1'', ''https://shop.example/1'') = Some ''proxy_exhausted''"
proof
  show before: "letters (rw_db (en_store demo_engine)) (''j1'', ''https://shop.example/1'') = Some ''proxy_exhausted''"
    by (simp add: demo_engine_def letters_enqueue)
  have facts: "\<not> oc_broken (summary jot (fst (snd demo_engine_run)) outcome_start)"
    "\<not> oc_stopped (summary jot (fst (snd demo_engine_run)) outcome_start)"
    "snd (book (rw_db (en_store (snd (snd demo_engine_run))))) = [(''j1'', ''https://shop.example/1'', True, None)]"
    using demo_engine_facts by (simp_all add: engine_facts_def)
  have "rw_pg (en_store demo_engine) = []" "ev_job_id demo_env = jb_job_id demo_job" "jb_on_result demo_job" "jb_already_done demo_job = []"
    "jb_job_id demo_job = ''j1''" "snd (book (rw_db (en_store demo_engine))) = []"
    by (simp_all add: demo_engine_def demo_env_def demo_job_def book_def dlq_enqueue_def insert_job_def)
  with url_outcome_stored [of demo_engine demo_env demo_job mem_server "\<lambda>_. ''300''" demo_worker 0 "''https://shop.example/1''"
      "fst demo_engine_run" "fst (snd demo_engine_run)" "snd (snd demo_engine_run)"] facts
  obtain x where "recorded ''j1'' ''https://shop.example/1'' x (rw_db (en_store demo_engine)) (rw_db (en_store (snd (snd demo_engine_run))))"
    unfolding demo_engine_run_def [symmetric] by auto
  with facts(3) show "letters (rw_db (en_store (snd (snd demo_engine_run)))) (''j1'', ''https://shop.example/1'') = None"
    using \<open>snd (book (rw_db (en_store demo_engine))) = []\<close> unfolding recorded_def by (auto split: if_splits)
qed

end
