(* ===== verification/Dlq_Reaper.thy ===== *)
theory Dlq_Reaper
  imports Store_Access Pool_Health Circuit_Breaker Politeness Host_Capacity Paid_Gateway Worker_Base Tenant
begin

text \<open>
  \<^verbatim>\<open>src/src/scraper_engine/proxy/dlq_reaper.py\<close>: the daemon that re-drives dead letters once what
  failed them has cleared. It composes the pool health, the circuit breaker, the host's admission,
  the politeness controller and the paid gateway (each the model of its own theory, run on one
  Redis server) with the tenant's tables and the queue of jobs.
\<close>

subsection \<open>Tables of the module\<close>

definition REAPER_JOB_TIMEOUT_SECONDS :: int where "REAPER_JOB_TIMEOUT_SECONDS = 600"
definition REAPER_PER_URL_TIMEOUT_SECONDS :: int where "REAPER_PER_URL_TIMEOUT_SECONDS = 180"
definition CONTENTION_BACKOFF_BASE_SECONDS :: rat where "CONTENTION_BACKOFF_BASE_SECONDS = 60"
definition GATEWAY_PROBE_TTL_SECONDS :: rat where "GATEWAY_PROBE_TTL_SECONDS = 120"

definition TRANSIENT_CATEGORIES :: "failure_category list" where
  "TRANSIENT_CATEGORIES = [PROXY_EXHAUSTED, failure_category.CIRCUIT_OPEN, BROWSER_CRASH, NETWORK_TIMEOUT,
     POLITENESS_TIMEOUT, CAPACITY_TIMEOUT, DEPENDENCY_UNAVAILABLE, PROXY_AUTH_FAILED, RATE_LIMITED]"

definition CONTENTION_CATEGORIES :: "failure_category list" where
  "CONTENTION_CATEGORIES = [POLITENESS_TIMEOUT, CAPACITY_TIMEOUT, DEPENDENCY_UNAVAILABLE, RATE_LIMITED]"

record dlq_reaper_config =
  rc_interval_seconds :: int
  rc_max_auto_retries :: int
  rc_batch_size_per_tenant :: nat

definition dlq_reaper_defaults :: dlq_reaper_config where
  "dlq_reaper_defaults = \<lparr>rc_interval_seconds = 60, rc_max_auto_retries = 3, rc_batch_size_per_tenant = 20\<rparr>"

subsection \<open>Eligibility\<close>

text \<open>
  Settings, and the parameters outside the sources: \<open>urlparse(url).hostname\<close> and the answer of the
  probe request through the gateway at a time.
\<close>

record reaper =
  ra_cfg :: dlq_reaper_config
  ra_tiers :: proxy_tier_config
  ra_dataimpulse :: dataimpulse_config
  ra_gateway_env :: gateway_env
  ra_host :: host_admission
  ra_hostname :: "string \<Rightarrow> string option"
  ra_draw :: nat
  ra_probe_answer :: "rat \<Rightarrow> proxy \<Rightarrow> int option"

definition reap_domain :: "reaper \<Rightarrow> string \<Rightarrow> string" where
  "reap_domain self url = or_str (ra_hostname self url) ''unknown''"

definition gateway_ok :: "reaper \<Rightarrow> ('s, bool) access" where
  "gateway_ok self w =
     (let fresh_answer = (let cfg = ra_dataimpulse self;
            ok = gateway_accepts_credentials (ra_gateway_env self)
              (if di_country cfg = [] then None else Some (di_country cfg)) (di_asn cfg) (ra_draw self)
              (ra_probe_answer self (rw_now w))
          in (Inr ok, w\<lparr>rw_probe := Some (rw_now w, ok)\<rparr>))
      in case rw_probe w of
           Some (t, ok) \<Rightarrow> if rw_now w - t < GATEWAY_PROBE_TTL_SECONDS then (Inr ok, w) else fresh_answer
         | None \<Rightarrow> fresh_answer)"

definition backoff_elapsed :: "dead_letter_entry \<Rightarrow> rat \<Rightarrow> bool" where
  "backoff_elapsed entry now \<longleftrightarrow>
     de_dead_at entry + CONTENTION_BACKOFF_BASE_SECONDS * 2 ^ nat (de_auto_retry_count entry) \<le> now"

definition checked_tier :: "proxy_tier_config \<Rightarrow> int \<Rightarrow> int" where
  "checked_tier tiers level =
     (if level = 3 \<and> tc_allow_tier2_fallback_for_tier3 tiers then 2
      else if level = 2 \<and> tc_allow_tier1_fallback_for_tier2 tiers then 1 else level)"

definition is_eligible :: "'s server \<Rightarrow> reaper \<Rightarrow> dead_letter_entry \<Rightarrow> ('s, bool) access" where
  "is_eligible sv self entry w =
     (let c = de_category entry; di = ra_dataimpulse self in
      if c = PROXY_AUTH_FAILED \<and> di_enabled di \<and> di_strategy di = Paid_Only then gateway_ok self w
      else if c \<in> {PROXY_EXHAUSTED, BROWSER_CRASH, NETWORK_TIMEOUT, PROXY_AUTH_FAILED} then
        on_redis sv (andthen (pool_current_state (checked_tier (ra_tiers self) (de_level_attempted entry)))
          (\<lambda>s. Return (s = HEALTHY))) w
      else if c = failure_category.CIRCUIT_OPEN then
        on_redis sv (andthen (cb_state (reap_domain self (de_url entry))) (\<lambda>s. Return (s = CLOSED))) w
      else if c \<in> set CONTENTION_CATEGORIES \<and> \<not> backoff_elapsed entry (rw_now w) then (Inr False, w)
      else if c = CAPACITY_TIMEOUT then
        on_redis sv (andthen (snapshot (ra_host self))
          (\<lambda>snap. Return (cs_waiters snap = 0 \<and> cs_in_use snap < cs_target snap))) w
      else if c = DEPENDENCY_UNAVAILABLE then (Inr True, w)
      else if c = RATE_LIMITED then
        (if (case de_retry_not_before entry of None \<Rightarrow> False | Some t \<Rightarrow> rw_now w < t) then (Inr False, w)
         else on_redis sv (andthen (cb_state (reap_domain self (de_url entry))) (\<lambda>s. Return (s \<noteq> circuit_state.OPEN))) w)
      else if c = POLITENESS_TIMEOUT then
        on_redis sv (andthen (active_slots (reap_domain self (de_url entry)) (de_tenant_id entry)) (\<lambda>n. Return (n = 0))) w
      else (Inr False, w))"

subsection \<open>Re-driving\<close>

definition redrive_timeout :: "nat option \<Rightarrow> int" where
  "redrive_timeout url_count =
     max REAPER_JOB_TIMEOUT_SECONDS (int (case url_count of None \<Rightarrow> 1 | Some 0 \<Rightarrow> 1 | Some n \<Rightarrow> n) * REAPER_PER_URL_TIMEOUT_SECONDS)"

definition retry_entry :: "string \<Rightarrow> dead_letter_entry \<Rightarrow> ('s, unit) access" where
  "retry_entry tenant entry =
     rbind (pg (\<lambda>db. (Inr (), mark_retry_attempt (de_id entry) db))) (\<lambda>_.
     rbind (pg (\<lambda>db. case redrive_update (de_job_id entry) db of (row, db') \<Rightarrow> (Inr row, db'))) (\<lambda>row.
       case row of None \<Rightarrow> rreturn ()
       | Some url_count \<Rightarrow> enqueue_rq \<lparr>rq_id = de_job_id entry, rq_tenant = tenant, rq_timeout = redrive_timeout url_count\<rparr>))"

primrec reap_candidates :: "'s server \<Rightarrow> reaper \<Rightarrow> string \<Rightarrow> dead_letter_entry list \<Rightarrow> nat \<Rightarrow> ('s, nat) access" where
  "reap_candidates sv self tenant [] retried = rreturn retried"
| "reap_candidates sv self tenant (e # es) retried =
     rbind (is_eligible sv self e) (\<lambda>ok.
       if ok then rbind (retry_entry tenant e) (\<lambda>_. reap_candidates sv self tenant es (retried + 1))
       else reap_candidates sv self tenant es retried)"

primrec reap_categories :: "'s server \<Rightarrow> reaper \<Rightarrow> string \<Rightarrow> failure_category list \<Rightarrow> nat \<Rightarrow> ('s, nat) access" where
  "reap_categories sv self tenant [] retried = rreturn retried"
| "reap_categories sv self tenant (c # cs) retried =
     rbind (pg (\<lambda>db. (list_retryable tenant [c] (rc_max_auto_retries (ra_cfg self)) (rc_batch_size_per_tenant (ra_cfg self)) db, db)))
       (\<lambda>candidates. rbind (reap_candidates sv self tenant candidates retried) (reap_categories sv self tenant cs))"

definition reap_tenant :: "'s server \<Rightarrow> reaper \<Rightarrow> string \<Rightarrow> ('s, nat) access" where
  "reap_tenant sv self tenant = reap_categories sv self tenant TRANSIENT_CATEGORIES 0"

text \<open>
  \<open>_reap_cycle\<close>: every tenant with its own tables; an exception of one does not stop the others. A
  listed identifier that is no tenant identifier would.
\<close>

primrec reap_tenants ::
  "'s server \<Rightarrow> reaper \<Rightarrow> (string \<times> tenant_db \<times> pg_event list) list \<Rightarrow> nat \<Rightarrow> 's store_world \<Rightarrow>
     nat res \<times> (string \<times> tenant_db) list \<times> 's store_world" where
  "reap_tenants sv self [] n w = (Inr n, [], w)"
| "reap_tenants sv self (t # ts) n w = (case t of (name, db, script) \<Rightarrow>
     case TenantId name of
       Inl e \<Rightarrow> (Inl e, map (\<lambda>(m, d, _). (m, d)) (t # ts), w)
     | Inr tenant \<Rightarrow> (case reap_tenant sv self tenant (w\<lparr>rw_db := db, rw_pg := script\<rparr>) of (r, w1) \<Rightarrow>
         case reap_tenants sv self ts (case r of Inl _ \<Rightarrow> n | Inr k \<Rightarrow> n + k) w1 of
           (n', dbs, w2) \<Rightarrow> (n', (name, rw_db w1) # dbs, w2)))"

text \<open>Eligibility is read only.\<close>

lemma gateway_ok_frame [simp]:
  "rw_db (snd (gateway_ok self w)) = rw_db w" "rw_pg (snd (gateway_ok self w)) = rw_pg w"
  "rw_queue (snd (gateway_ok self w)) = rw_queue w"
  by (auto simp: gateway_ok_def Let_def split: option.split)

lemma is_eligible_frame [simp]:
  "rw_db (snd (is_eligible sv self e w)) = rw_db w" "rw_pg (snd (is_eligible sv self e w)) = rw_pg w"
  "rw_queue (snd (is_eligible sv self e w)) = rw_queue w"
  by (simp_all add: is_eligible_def Let_def)

lemma snd_rbind: "snd (rbind m f w) = (case fst (m w) of Inl e \<Rightarrow> snd (m w) | Inr a \<Rightarrow> snd (f a (snd (m w))))"
  by (simp add: rbind_def split: prod.split sum.split)

subsection \<open>Invariants of a reap\<close>

text \<open>
  What has to hold of a relation between the dead letters still to be looked at and the world, so that
  a whole reap keeps it: it does not depend on Redis and the clock, letters may be skipped, the query
  establishes it for the letters it lists, and a retry keeps it for the rest.
\<close>

abbreviation "select_letters" :: "reaper \<Rightarrow> string \<Rightarrow> failure_category \<Rightarrow> ('s, dead_letter_entry list) access" where
  "select_letters self tenant c \<equiv>
     pg (\<lambda>db. (list_retryable tenant [c] (rc_max_auto_retries (ra_cfg self)) (rc_batch_size_per_tenant (ra_cfg self)) db, db))"

locale reap_invariant =
  fixes self :: reaper and tenant :: string and I :: "dead_letter_entry list \<Rightarrow> 's store_world \<Rightarrow> bool"
  assumes frame: "I es w \<Longrightarrow> rw_db w' = rw_db w \<Longrightarrow> rw_pg w' = rw_pg w \<Longrightarrow> rw_queue w' = rw_queue w \<Longrightarrow> I es w'"
    and skip: "I (e # es) w \<Longrightarrow> I es w"
    and select: "I [] w \<Longrightarrow> I (case fst (select_letters self tenant c w) of Inl _ \<Rightarrow> [] | Inr es \<Rightarrow> es) (snd (select_letters self tenant c w))"
    and retry: "I (e # es) w \<Longrightarrow> I es (snd (retry_entry tenant e w))"
begin

lemma stop: "I es w \<Longrightarrow> I [] w"
  by (induction es) (auto intro: skip)

lemma eligible: "I es w \<Longrightarrow> I es (snd (is_eligible sv self e w))"
  by (erule frame) simp_all

lemma candidates: "I es w \<Longrightarrow> I [] (snd (reap_candidates sv self tenant es n w))"
proof (induction es arbitrary: n w)
  case Nil
  then show ?case by (simp add: rreturn_def)
next
  case (Cons e es)
  note looked = eligible [OF Cons.prems, of sv e]
  show ?case
    using Cons.IH [OF skip [OF looked]] Cons.IH [OF retry [OF looked]] stop [OF looked] stop [OF retry [OF looked]]
    by (auto simp: snd_rbind split: sum.split)
qed

lemma categories: "I [] w \<Longrightarrow> I [] (snd (reap_categories sv self tenant cs n w))"
proof (induction cs arbitrary: n w)
  case Nil
  then show ?case by (simp add: rreturn_def)
next
  case (Cons c cs)
  from select [OF Cons.prems, of c] show ?case
    by (cases "fst (select_letters self tenant c w)") (auto simp: snd_rbind intro!: Cons.IH candidates split: sum.split)
qed

lemma reap_keeps: "I [] w \<Longrightarrow> I [] (snd (reap_tenant sv self tenant w))"
  unfolding reap_tenant_def by (rule categories)

end

text \<open>The steps of a retry.\<close>

abbreviation "count_retry" :: "dead_letter_entry \<Rightarrow> ('s, unit) access" where
  "count_retry e \<equiv> pg (\<lambda>db. (Inr (), mark_retry_attempt (de_id e) db))"

abbreviation "set_back" :: "dead_letter_entry \<Rightarrow> ('s, nat option option) access" where
  "set_back e \<equiv> pg (\<lambda>db. case redrive_update (de_job_id e) db of (row, db') \<Rightarrow> (Inr row, db'))"

lemma retry_entry_cases:
  obtains (uncounted) x where "fst (count_retry e w) = Inl x" "snd (retry_entry tenant e w) = snd (count_retry e w)"
  | (unqueued) "fst (count_retry e w) = Inr ()" "snd (retry_entry tenant e w) = snd (set_back e (snd (count_retry e w)))"
  | (queued) n t where "fst (count_retry e w) = Inr ()" "fst (set_back e (snd (count_retry e w))) = Inr (Some n)"
      "snd (retry_entry tenant e w) =
         snd (enqueue_rq \<lparr>rq_id = de_job_id e, rq_tenant = tenant, rq_timeout = t\<rparr> (snd (set_back e (snd (count_retry e w)))))"
proof (cases "fst (count_retry e w)")
  case (Inl x)
  with uncounted show ?thesis by (simp add: retry_entry_def snd_rbind)
next
  case (Inr u)
  show ?thesis
  proof (cases "fst (set_back e (snd (count_retry e w)))")
    case (Inl x)
    with Inr unqueued show ?thesis by (simp add: retry_entry_def snd_rbind)
  next
    case (Inr row)
    with \<open>fst (count_retry e w) = Inr u\<close> unqueued queued show ?thesis
      by (cases row) (simp_all add: retry_entry_def snd_rbind rreturn_def)
  qed
qed

lemma redrive_update_dlq:
  "td_dlq (snd (redrive_update j db)) = td_dlq db \<and> td_next_id (snd (redrive_update j db)) = td_next_id db"
  by (simp add: redrive_update_def update_job_where_def update_jobs_def Let_def)

subsection \<open>The cap on automatic retries\<close>

text \<open>No second reaper of dead letters is at work on the tenant's tables; no dead letter is cleared.\<close>

fun sole_reaper :: "statement \<Rightarrow> bool" where
  "sole_reaper (MarkRetry i) = False"
| "sole_reaper _ = True"

fun keeps_letters :: "statement \<Rightarrow> bool" where
  "keeps_letters (ClearDeadLetter j u) = False"
| "keeps_letters _ = True"

lemma execute_dlq_unchanged:
  "td_dlq (execute s db) = td_dlq db \<and> td_next_id (execute s db) = td_next_id db
   \<or> (\<exists>f. s = StoreFailure f) \<or> (\<exists>j u. s = ClearDeadLetter j u) \<or> (\<exists>i. s = MarkRetry i)"
  by (cases s) (simp_all add: start_update_def finish_update_def cancel_update_def reconcile_update_def insert_job_def
      enqueue_failed_def insert_result_def touch_job_def update_jobs_def update_job_where_def redrive_update_dlq Let_def)

definition ledger_inv :: "int \<Rightarrow> int list \<Rightarrow> tenant_db \<Rightarrow> bool" where
  "ledger_inv cap ids db \<longleftrightarrow> dlq_ok db \<and> capped dlq_count cap db \<and> (\<forall>i \<in> set ids. spare dlq_count id_used cap db i)"

lemma ledger_inv_same:
  "ledger_inv cap ids db \<Longrightarrow> td_dlq db' = td_dlq db \<Longrightarrow> td_next_id db' = td_next_id db \<Longrightarrow> ledger_inv cap ids db'"
  by (simp add: ledger_inv_def dlq_ok_def capped_def spare_def dlq_count_def id_used_def)

lemma ledger_inv_weaken: "ledger_inv cap ids db \<Longrightarrow> set ids' \<subseteq> set ids \<Longrightarrow> ledger_inv cap ids' db"
  by (auto simp: ledger_inv_def)

lemma ledger_inv_execute:
  assumes "sole_reaper s" "0 \<le> cap \<and> ledger_inv cap ids db"
  shows "0 \<le> cap \<and> ledger_inv cap ids (execute s db)"
proof -
  have "ledger_inv cap ids (execute s db)"
    using execute_dlq_unchanged [of s db]
  proof (elim disjE conjE exE)
    assume "td_dlq (execute s db) = td_dlq db" "td_next_id (execute s db) = td_next_id db"
    with assms(2) show ?thesis by (blast intro: ledger_inv_same)
  next
    fix f assume "s = StoreFailure f"
    with assms show ?thesis
      by (simp add: ledger_inv_def ledger.good_kept ledger.capped_fail ledger.spare_fail)
  next
    fix j u assume s: "s = ClearDeadLetter j u"
    from assms(2) have "dlq_ok db" by (simp add: ledger_inv_def)
    with assms(2) ledger.good_kept(2) [of db "(j, u)"] ledger.capped_forget [of db cap "(j, u)"]
      ledger.spare_forget [of db cap _ "(j, u)"] s
    show ?thesis by (simp add: ledger_inv_def)
  qed (use assms(1) in simp)
  with assms(2) show ?thesis by simp
qed

lemma ledger_inv_mark:
  assumes "ledger_inv cap (i # ids) db" "i \<notin> set ids"
  shows "ledger_inv cap ids (mark_retry_attempt i db)"
  using assms unfolding ledger_inv_def
  by (auto intro!: ledger.good_kept ledger.capped_attempt ledger.spare_attempt)

definition capped_reap :: "reaper \<Rightarrow> dead_letter_entry list \<Rightarrow> 's store_world \<Rightarrow> bool" where
  "capped_reap self es w \<longleftrightarrow> others_are sole_reaper w \<and> distinct (map de_id es) \<and>
     0 \<le> rc_max_auto_retries (ra_cfg self) \<and> ledger_inv (rc_max_auto_retries (ra_cfg self)) (map de_id es) (rw_db w)"

lemma capped_reap_others:
  assumes "capped_reap self es w"
  shows "0 \<le> rc_max_auto_retries (ra_cfg self) \<and> ledger_inv (rc_max_auto_retries (ra_cfg self)) (map de_id es) (rw_db (others_act w))"
proof (rule others_act_keeps [where P = sole_reaper])
  fix s db
  assume "sole_reaper s" "0 \<le> rc_max_auto_retries (ra_cfg self) \<and> ledger_inv (rc_max_auto_retries (ra_cfg self)) (map de_id es) db"
  then show "0 \<le> rc_max_auto_retries (ra_cfg self) \<and>
      ledger_inv (rc_max_auto_retries (ra_cfg self)) (map de_id es) (execute s db)"
    by (rule ledger_inv_execute)
qed (use assms in \<open>auto simp: capped_reap_def elim: ledger_inv_same\<close>)

lemma capped_reap_pg:
  assumes "capped_reap self es w" "set es' \<subseteq> set es" "distinct (map de_id es')"
    and "\<And>db. ledger_inv (rc_max_auto_retries (ra_cfg self)) (map de_id es) db \<Longrightarrow>
      ledger_inv (rc_max_auto_retries (ra_cfg self)) (map de_id es') (snd (stmt db))"
  shows "capped_reap self es' (snd (pg stmt w))"
proof -
  note others = capped_reap_others [OF assms(1)]
  have "ledger_inv (rc_max_auto_retries (ra_cfg self)) (map de_id es') (rw_db (others_act w))"
    using others ledger_inv_weaken [of _ "map de_id es" _ "map de_id es'"] assms(2) by auto
  with others assms(4) have "ledger_inv (rc_max_auto_retries (ra_cfg self)) (map de_id es') (rw_db (snd (pg stmt w)))"
    by (cases rule: pg_cases [of stmt w]) simp_all
  with others assms(1,3) pg_others(1) [of sole_reaper w stmt] show ?thesis by (simp add: capped_reap_def)
qed

lemma to_entries_ids:
  "to_entries tenant rs = Inr es \<Longrightarrow> map de_id es = map dl_id rs \<and> map de_auto_retry_count es = map dl_retries rs
    \<and> map de_job_id es = map dl_job rs \<and> map de_url es = map dl_url rs \<and> map (category_value \<circ> de_category) es = map dl_category rs"
proof (induction rs arbitrary: es)
  case (Cons r rs)
  then show ?case
    by (auto simp: to_entry_def category_of_value_def filter_eq_Cons_iff split: sum.splits list.splits)
qed simp

lemma dlq_count_row: "dlq_ok db \<Longrightarrow> r \<in> set (td_dlq db) \<Longrightarrow> dlq_count db (dl_id r) = Some (dl_retries r)"
  by (auto simp: dlq_ok_def dlq_count_def o_def intro!: map_of_is_SomeI)

lemma list_retryable_spare:
  assumes "list_retryable tenant cs cap limit db = Inr es" "dlq_ok db"
  shows "\<forall>i \<in> set (map de_id es). spare dlq_count id_used cap db i" "distinct (map de_id es)"
proof -
  let ?rs = "take limit (sort_key dl_dead (filter (retry_candidate cs cap) (td_dlq db)))"
  have ids: "map de_id es = map dl_id ?rs" using to_entries_ids assms(1) unfolding list_retryable_def by blast
  have rows: "r \<in> set (td_dlq db) \<and> dl_retries r < cap" if "r \<in> set ?rs" for r
    using in_set_takeD [OF that] by (simp add: retry_candidate_def)
  show "\<forall>i \<in> set (map de_id es). spare dlq_count id_used cap db i"
  proof
    fix i assume "i \<in> set (map de_id es)"
    then obtain r where r: "r \<in> set ?rs" "i = dl_id r" unfolding ids by auto
    from rows [OF r(1)] dlq_count_row [OF assms(2)] assms(2) r(2)
    show "spare dlq_count id_used cap db i" by (auto simp: spare_def id_used_def dlq_ok_def list_all_iff)
  qed
  have "distinct (map dl_id (filter P (td_dlq db)))" for P
    using assms(2) unfolding dlq_ok_def by (simp add: distinct_map_filter)
  then have "distinct (map dl_id (sort_key dl_dead (filter (retry_candidate cs cap) (td_dlq db))))"
    by (simp add: distinct_map)
  then show "distinct (map de_id es)" unfolding ids take_map [symmetric] by (rule distinct_take)
qed

lemma select_letters_answer:
  "fst (select_letters self tenant c w) = Inr es \<Longrightarrow> list_retryable tenant [c] (rc_max_auto_retries (ra_cfg self))
     (rc_batch_size_per_tenant (ra_cfg self)) (rw_db (snd (select_letters self tenant c w))) = Inr es"
  by (simp add: pg_def Let_def split: fate.splits)

lemma capped_reap_letters:
  assumes "capped_reap self [] w" "list_retryable tenant [c] (rc_max_auto_retries (ra_cfg self)) n (rw_db w) = Inr es"
  shows "capped_reap self es w"
  using assms(1) list_retryable_spare [OF assms(2)] by (simp add: capped_reap_def ledger_inv_def)

lemma capped_reap_frame:
  "capped_reap self es w \<Longrightarrow> rw_db w' = rw_db w \<Longrightarrow> rw_pg w' = rw_pg w \<Longrightarrow> capped_reap self es w'"
  by (simp add: capped_reap_def others_are_def)

lemma capped_reap_mark: "capped_reap self (e # es) w \<Longrightarrow> capped_reap self es (snd (count_retry e w))"
  by (rule capped_reap_pg [of self "e # es"]) (auto simp: capped_reap_def intro: ledger_inv_mark)

lemma capped_reap_set_back: "capped_reap self es w \<Longrightarrow> capped_reap self es (snd (set_back e w))"
  by (rule capped_reap_pg [of self es])
    (auto simp: capped_reap_def case_prod_beta' redrive_update_dlq elim: ledger_inv_same)

interpretation capped: reap_invariant self tenant "capped_reap self" for self tenant
proof
  fix es :: "dead_letter_entry list" and e and c and w w' :: "'a store_world"
  show "capped_reap self es w \<Longrightarrow> rw_db w' = rw_db w \<Longrightarrow> rw_pg w' = rw_pg w \<Longrightarrow> rw_queue w' = rw_queue w \<Longrightarrow> capped_reap self es w'"
    by (rule capped_reap_frame)
  show "capped_reap self (e # es) w \<Longrightarrow> capped_reap self es w"
    by (auto simp: capped_reap_def elim: ledger_inv_weaken)
  show "capped_reap self (case fst (select_letters self tenant c w) of Inl _ \<Rightarrow> [] | Inr es \<Rightarrow> es) (snd (select_letters self tenant c w))"
    if "capped_reap self [] w"
  proof -
    have kept: "capped_reap self [] (snd (select_letters self tenant c w))"
      by (rule capped_reap_pg [OF that]) simp_all
    then show ?thesis
      by (auto intro: capped_reap_letters select_letters_answer split: sum.split)
  qed
  show "capped_reap self es (snd (retry_entry tenant e w))" if "capped_reap self (e # es) w"
  proof -
    note marked = capped_reap_mark [OF that]
    note set = capped_reap_set_back [OF marked, of e]
    show ?thesis
      by (cases rule: retry_entry_cases [of e w tenant]) (simp_all add: marked set capped_reap_frame [OF set])
  qed
qed

text \<open>Every retry is paid for: what is put on the queue for a job was counted on one of its letters.\<close>

definition attempts_spent :: "string \<Rightarrow> tenant_db \<Rightarrow> int" where
  "attempts_spent j db = sum_list (map (\<lambda>r. if dl_job r = j then dl_retries r else 0) (td_dlq db))"

definition letter_kept :: "tenant_db \<Rightarrow> dead_letter_entry \<Rightarrow> bool" where
  "letter_kept db e \<longleftrightarrow> (de_id e, de_job_id e) \<in> (\<lambda>r. (dl_id r, dl_job r)) ` set (td_dlq db)"

definition ledger_grows :: "tenant_db \<Rightarrow> tenant_db \<Rightarrow> bool" where
  "ledger_grows db db' \<longleftrightarrow> (\<forall>j. attempts_spent j db \<le> attempts_spent j db') \<and> (\<forall>e. letter_kept db e \<longrightarrow> letter_kept db' e)"

lemma ledger_grows_trans: "ledger_grows db db' \<Longrightarrow> ledger_grows db' db'' \<Longrightarrow> ledger_grows db db''"
  unfolding ledger_grows_def by (meson order_trans)

lemma ledger_grows_same: "td_dlq db' = td_dlq db \<Longrightarrow> ledger_grows db db'"
  by (simp add: ledger_grows_def attempts_spent_def letter_kept_def)

lemma ledger_grows_rows:
  assumes "td_dlq db' = map g (td_dlq db) @ new"
    and "\<And>r. dl_id (g r) = dl_id r \<and> dl_job (g r) = dl_job r \<and> dl_retries r \<le> dl_retries (g r)"
    and "\<And>r. r \<in> set new \<Longrightarrow> 0 \<le> dl_retries r"
  shows "ledger_grows db db'"
proof -
  have "0 \<le> sum_list (map (\<lambda>r. if dl_job r = j then dl_retries r else 0) new)" for j
    using assms(3) by (intro sum_list_nonneg) auto
  moreover have "sum_list (map (\<lambda>r. if dl_job r = j then dl_retries r else 0) rs) \<le>
      sum_list (map (\<lambda>r. if dl_job (g r) = j then dl_retries (g r) else 0) rs)" for rs j
    by (rule sum_list_mono) (use assms(2) in auto)
  ultimately have "attempts_spent j db \<le> attempts_spent j db'" for j
    by (simp add: attempts_spent_def assms(1) o_def add_increasing2)
  moreover have "letter_kept db' e" if "letter_kept db e" for e
  proof -
    from that obtain r where "r \<in> set (td_dlq db)" "de_id e = dl_id r" "de_job_id e = dl_job r"
      by (auto simp: letter_kept_def)
    with assms(2) [of r] show ?thesis
      unfolding letter_kept_def assms(1) by (intro image_eqI [of _ _ "g r"]) auto
  qed
  ultimately show ?thesis by (simp add: ledger_grows_def)
qed

lemma ledger_grows_execute:
  assumes "sole_reaper s \<and> keeps_letters s"
  shows "ledger_grows db (execute s db)"
  using execute_dlq_unchanged [of s db]
proof (elim disjE conjE exE)
  fix f assume s: "s = StoreFailure f"
  show ?thesis
  proof (cases "list_ex (dlq_at (df_job f) (df_url f)) (td_dlq db)")
    case True
    then show ?thesis
      unfolding s
      by (intro ledger_grows_rows [where new = "[]" and g = "\<lambda>r. if dlq_at (df_job f) (df_url f) r
          then r\<lparr>dl_category := category_value (df_category f), dl_error := df_error f, dl_level := df_level f,
            dl_dead := df_now f, dl_not_before := df_not_before f\<rparr> else r"])
        (simp_all add: enqueue_failure_def dlq_enqueue_def Let_def)
  next
    case False
    then show ?thesis
      unfolding s by (intro ledger_grows_rows [where g = "\<lambda>r. r"]) (auto simp: enqueue_failure_def dlq_enqueue_def Let_def)
  qed
qed (use assms ledger_grows_same in auto)

lemma ledger_grows_mark: "ledger_grows db (mark_retry_attempt i db)"
  by (rule ledger_grows_rows [where g = "\<lambda>r. if dl_id r = i then r\<lparr>dl_retries := dl_retries r + 1\<rparr> else r" and new = "[]"])
    (simp_all add: mark_retry_attempt_def)

lemma mark_is_spent:
  assumes "letter_kept db e"
  shows "attempts_spent (de_job_id e) db + 1 \<le> attempts_spent (de_job_id e) (mark_retry_attempt (de_id e) db)"
proof -
  let ?g = "\<lambda>r. if dl_id r = de_id e then r\<lparr>dl_retries := dl_retries r + 1\<rparr> else r"
  let ?f = "\<lambda>r. if dl_job r = de_job_id e then dl_retries r else 0"
  have "sum_list (map ?f rs) + 1 \<le> sum_list (map (\<lambda>r. ?f (?g r)) rs)"
    if "(de_id e, de_job_id e) \<in> (\<lambda>r. (dl_id r, dl_job r)) ` set rs" for rs
    using that
  proof (induction rs)
    case (Cons r rs)
    have "sum_list (map ?f rs) \<le> sum_list (map (\<lambda>r. ?f (?g r)) rs)"
      by (rule sum_list_mono) auto
    with Cons show ?case by (cases "(dl_id r, dl_job r) = (de_id e, de_job_id e)") auto
  qed simp
  with assms show ?thesis by (simp add: attempts_spent_def mark_retry_attempt_def letter_kept_def o_def)
qed

abbreviation "lone_reaper" :: "statement \<Rightarrow> bool" where
  "lone_reaper s \<equiv> sole_reaper s \<and> keeps_letters s"

lemma ledger_grows_others: "others_are lone_reaper w \<Longrightarrow> ledger_grows (rw_db w) (rw_db (others_act w))"
proof (erule others_act_keeps)
  show "ledger_grows (rw_db w) (rw_db w)" by (simp add: ledger_grows_same)
  show "ledger_grows (rw_db w) (db\<lparr>td_now := t\<rparr>)" if "ledger_grows (rw_db w) db" for db t
    using that by (rule ledger_grows_trans) (simp add: ledger_grows_same)
  show "ledger_grows (rw_db w) (execute s db)" if "lone_reaper s" "ledger_grows (rw_db w) db" for s db
    using that(2) by (rule ledger_grows_trans) (rule ledger_grows_execute [OF that(1)])
qed

lemma ledger_grows_pg:
  assumes "others_are lone_reaper w" "\<And>db. ledger_grows db (snd (stmt db))"
  shows "ledger_grows (rw_db w) (rw_db (snd (pg stmt w)))"
  using ledger_grows_others [OF assms(1)] assms(2) ledger_grows_trans
  by (cases rule: pg_cases [of stmt w]) auto

definition paid_reap :: "string \<Rightarrow> int \<Rightarrow> dead_letter_entry list \<Rightarrow> 's store_world \<Rightarrow> bool" where
  "paid_reap j b es w \<longleftrightarrow> others_are lone_reaper w \<and> list_all (letter_kept (rw_db w)) es \<and>
     b \<le> attempts_spent j (rw_db w) - int (count_list (map rq_id (rw_queue w)) j)"

lemma paid_reap_grows:
  assumes "paid_reap j b (e # es) w" "others_are lone_reaper w'" "ledger_grows (rw_db w) (rw_db w')" "rw_queue w' = rw_queue w"
  shows "paid_reap j b es w'"
proof -
  have "list_all (letter_kept (rw_db w')) es"
    using assms(1,3) by (simp add: paid_reap_def ledger_grows_def list_all_iff)
  moreover have "attempts_spent j (rw_db w) \<le> attempts_spent j (rw_db w')" using assms(3) by (simp add: ledger_grows_def)
  ultimately show ?thesis using assms(1,2,4) by (simp add: paid_reap_def)
qed

lemma retryable_letters: "list_retryable tenant cs cap limit db = Inr es \<Longrightarrow> list_all (letter_kept db) es"
proof -
  assume "list_retryable tenant cs cap limit db = Inr es"
  then have "to_entries tenant (take limit (sort_key dl_dead (filter (retry_candidate cs cap) (td_dlq db)))) = Inr es"
    by (simp add: list_retryable_def)
  moreover have "to_entries tenant rs = Inr es \<Longrightarrow> set rs \<subseteq> set (td_dlq db) \<Longrightarrow> list_all (letter_kept db) es" for rs
    by (induction rs arbitrary: es)
      (auto simp: to_entry_def letter_kept_def split: sum.splits)
  moreover have "set (take limit (sort_key dl_dead (filter (retry_candidate cs cap) (td_dlq db)))) \<subseteq> set (td_dlq db)"
    using set_take_subset by fastforce
  ultimately show ?thesis by blast
qed

lemma paid_reap_retry:
  assumes "paid_reap j b (e # es) w"
  shows "paid_reap j b es (snd (retry_entry tenant e w))"
proof -
  let ?m = "snd (count_retry e w)"
  let ?s = "snd (set_back e ?m)"
  from assms have alone: "others_are lone_reaper w" and kept: "letter_kept (rw_db w) e" by (simp_all add: paid_reap_def)
  note alone_m = pg_others(1) [OF alone, of "\<lambda>db. (Inr (), mark_retry_attempt (de_id e) db)"]
  note alone_s = pg_others(1) [OF alone_m, of "\<lambda>db. case redrive_update (de_job_id e) db of (row, db') \<Rightarrow> (Inr row, db')"]
  have grown_m: "ledger_grows (rw_db w) (rw_db ?m)"
    by (rule ledger_grows_pg [OF alone]) (simp add: ledger_grows_mark)
  have "ledger_grows (rw_db ?m) (rw_db ?s)"
    by (rule ledger_grows_pg [OF alone_m]) (simp add: case_prod_beta' redrive_update_dlq ledger_grows_same)
  note grown_s = this ledger_grows_trans [OF grown_m this]
  show ?thesis
  proof (cases rule: retry_entry_cases [of e w tenant])
    case uncounted
    with paid_reap_grows [OF assms alone_m grown_m] show ?thesis by (simp add: pg_others)
  next
    case unqueued
    with paid_reap_grows [OF assms alone_s grown_s(2)] show ?thesis by (simp add: pg_others)
  next
    case (queued n t)
    have "rw_db ?m = mark_retry_attempt (de_id e) (rw_db (others_act w))"
      using queued(1) by (cases rule: pg_cases [of "\<lambda>db. (Inr (), mark_retry_attempt (de_id e) db)" w]) simp_all
    moreover have "letter_kept (rw_db (others_act w)) e"
      and "attempts_spent (de_job_id e) (rw_db w) \<le> attempts_spent (de_job_id e) (rw_db (others_act w))"
      using ledger_grows_others [OF alone] kept by (simp_all add: ledger_grows_def)
    ultimately have "attempts_spent (de_job_id e) (rw_db w) + 1 \<le> attempts_spent (de_job_id e) (rw_db ?m)"
      using mark_is_spent by fastforce
    with grown_s(1) have "attempts_spent (de_job_id e) (rw_db w) + 1 \<le> attempts_spent (de_job_id e) (rw_db ?s)"
      unfolding ledger_grows_def by (meson order_trans)
    moreover have "paid_reap j b es ?s"
      using paid_reap_grows [OF assms alone_s grown_s(2)] by (simp add: pg_others)
    ultimately show ?thesis
      unfolding queued(3) using assms
      by (cases rule: enqueue_rq_cases [of "\<lparr>rq_id = de_job_id e, rq_tenant = tenant, rq_timeout = t\<rparr>" ?s])
        (auto simp: paid_reap_def others_are_def pg_others)
  qed
qed

interpretation paid: reap_invariant self tenant "paid_reap j b" for self tenant j b
proof
  fix es :: "dead_letter_entry list" and e and c and w w' :: "'a store_world"
  show "paid_reap j b es w \<Longrightarrow> rw_db w' = rw_db w \<Longrightarrow> rw_pg w' = rw_pg w \<Longrightarrow> rw_queue w' = rw_queue w \<Longrightarrow> paid_reap j b es w'"
    by (simp add: paid_reap_def others_are_def)
  show "paid_reap j b (e # es) w \<Longrightarrow> paid_reap j b es w"
    by (simp add: paid_reap_def)
  show "paid_reap j b (case fst (select_letters self tenant c w) of Inl _ \<Rightarrow> [] | Inr es \<Rightarrow> es) (snd (select_letters self tenant c w))"
    if paid: "paid_reap j b [] w"
  proof -
    have alone: "others_are lone_reaper w" using paid by (simp add: paid_reap_def)
    have "attempts_spent j (rw_db w) \<le> attempts_spent j (rw_db (snd (select_letters self tenant c w)))"
      using ledger_grows_pg [OF alone, of "\<lambda>db. (list_retryable tenant [c] (rc_max_auto_retries (ra_cfg self))
        (rc_batch_size_per_tenant (ra_cfg self)) db, db)"] by (simp add: ledger_grows_same ledger_grows_def)
    with paid pg_others(1) [OF alone] retryable_letters [OF select_letters_answer [where self = self and tenant = tenant and c = c and w = w]] show ?thesis
      by (auto simp: paid_reap_def pg_others split: sum.split)
  qed
  show "paid_reap j b (e # es) w \<Longrightarrow> paid_reap j b es (snd (retry_entry tenant e w))" by (rule paid_reap_retry)
qed

text \<open>
  \<^bold>\<open>C26\<close>: with one reaper of dead letters at work on a tenant, no dead letter's retries are ever
  counted beyond the configured number, whatever the workers and the API do to the tenant's tables
  between any two statements of the reaper (failing a URL again, or clearing and failing it again),
  whatever Redis and the network do, and wherever the reaper itself fails in the middle. And every
  re-drive is counted: as long as no worker clears a dead letter meanwhile, a reap puts a job on the
  queue at most as often as the counts of the job's dead letters rise. So no dead letter sets a job
  going again more often than configured.
\<close>

theorem dlq_retry_cap:
  assumes "0 \<le> rc_max_auto_retries (ra_cfg self)" and "dlq_ok (rw_db w)"
    and "capped dlq_count (rc_max_auto_retries (ra_cfg self)) (rw_db w)" and "others_are sole_reaper w"
  shows "capped dlq_count (rc_max_auto_retries (ra_cfg self)) (rw_db (snd (reap_tenant sv self tenant w))) \<and>
    (others_are keeps_letters w \<longrightarrow> (\<forall>j.
       int (count_list (map rq_id (rw_queue (snd (reap_tenant sv self tenant w)))) j) - int (count_list (map rq_id (rw_queue w)) j)
       \<le> attempts_spent j (rw_db (snd (reap_tenant sv self tenant w))) - attempts_spent j (rw_db w)))"
proof -
  have "capped_reap self [] w" using assms by (simp add: capped_reap_def ledger_inv_def)
  from capped.reap_keeps [OF this, of sv tenant]
  have "capped dlq_count (rc_max_auto_retries (ra_cfg self)) (rw_db (snd (reap_tenant sv self tenant w)))"
    by (simp add: capped_reap_def ledger_inv_def)
  moreover have "paid_reap j (attempts_spent j (rw_db w) - int (count_list (map rq_id (rw_queue w)) j)) [] (snd (reap_tenant sv self tenant w))"
    if "others_are keeps_letters w" for j
    by (rule paid.reap_keeps) (use that assms(4) in \<open>auto simp: paid_reap_def others_are_def list_all_iff\<close>)
  ultimately show ?thesis by (simp add: paid_reap_def algebra_simps)
qed

subsection \<open>One re-drive per job\<close>

definition in_progress :: "tenant_db \<Rightarrow> string \<Rightarrow> bool" where
  "in_progress db j \<longleftrightarrow> (case job_row_of j db of None \<Rightarrow> False | Some r \<Rightarrow> sj_status r \<in> {PENDING, PROCESSING, CANCELLED})"

definition job_over :: "tenant_db \<Rightarrow> string \<Rightarrow> bool" where
  "job_over db j \<longleftrightarrow> (case job_row_of j db of None \<Rightarrow> False | Some r \<Rightarrow> sj_status r \<notin> {PENDING, PROCESSING, CANCELLED})"

text \<open>Statements after which a job is not over that was not over before.\<close>

fun ends_no_job :: "statement \<Rightarrow> bool" where
  "ends_no_job (FinishJob j s) = False"
| "ends_no_job (ReconcileJob j) = False"
| "ends_no_job (EnqueueFailed j) = False"
| "ends_no_job _ = True"

lemma job_row_of_jobs: "td_jobs db' = td_jobs db \<Longrightarrow> job_row_of j db' = job_row_of j db"
  by (simp add: job_row_of_def)

lemma in_progress_jobs: "in_progress db j \<Longrightarrow> td_jobs db' = td_jobs db \<Longrightarrow> in_progress db' j"
  using job_row_of_jobs [of db' db j] by (simp add: in_progress_def)

text \<open>A step that ends no job: jobs in progress stay so, and no further job is over.\<close>

definition advances :: "tenant_db \<Rightarrow> tenant_db \<Rightarrow> bool" where
  "advances db db' \<longleftrightarrow> (\<forall>j. in_progress db j \<longrightarrow> in_progress db' j) \<and> (\<forall>j. job_over db' j \<longrightarrow> job_over db j)"

lemma advances_trans: "advances db db' \<Longrightarrow> advances db' db'' \<Longrightarrow> advances db db''"
  by (simp add: advances_def)

lemma advances_jobs: "td_jobs db' = td_jobs db \<Longrightarrow> advances db db'"
  using job_row_of_jobs [of db' db] by (simp add: advances_def in_progress_def job_over_def)

lemma advances_update:
  assumes "\<And>r. sj_id (f r) = sj_id r" "\<And>r. sj_status (f r) = sj_status r \<or> sj_status (f r) \<in> {PENDING, PROCESSING, CANCELLED}"
  shows "advances db (update_jobs P f db)"
proof -
  have row: "job_row_of j (update_jobs P f db) = map_option (\<lambda>r. if P r then f r else r) (job_row_of j db)" for j
    by (rule job_row_of_update) (rule assms(1))
  have "in_progress db j \<longrightarrow> in_progress (update_jobs P f db) j" for j
  proof (cases "job_row_of j db")
    case (Some r)
    with assms(2) [of r] show ?thesis by (auto simp: in_progress_def row)
  qed (simp add: in_progress_def)
  moreover have "job_over (update_jobs P f db) j \<longrightarrow> job_over db j" for j
  proof (cases "job_row_of j db")
    case (Some r)
    with assms(2) [of r] show ?thesis by (auto simp: job_over_def row)
  qed (simp add: job_over_def row)
  ultimately show ?thesis by (simp add: advances_def)
qed

lemma advances_redrive: "advances db (snd (redrive_update i db))"
  by (simp add: redrive_update_def update_job_where_def Let_def advances_update)

lemma find_append: "find P (xs @ ys) = (case find P xs of None \<Rightarrow> find P ys | Some x \<Rightarrow> Some x)"
  by (induction xs) auto

lemma advances_execute:
  assumes "ends_no_job s"
  shows "advances db (execute s db)"
proof (cases s)
  case (StoreFailure f)
  then show ?thesis by (simp add: advances_jobs enqueue_failure_def dlq_enqueue_def Let_def)
next
  case (InsertJob a b c d e)
  then show ?thesis
    by (auto simp: advances_def in_progress_def job_over_def job_row_of_def insert_job_def find_append split: option.splits if_splits)
next
  case (CancelJob i)
  then show ?thesis by (simp add: cancel_update_def update_job_where_def Let_def advances_update)
next
  case (MarkRetry i)
  then show ?thesis by (simp add: advances_jobs mark_retry_attempt_def)
qed (use assms in \<open>simp_all add: start_update_def touch_job_def dlq_clear_def insert_result_def advances_jobs advances_update advances_redrive\<close>)

lemma advances_others: "others_are ends_no_job w \<Longrightarrow> advances (rw_db w) (rw_db (others_act w))"
proof (erule others_act_keeps)
  show "advances (rw_db w) (rw_db w)" by (simp add: advances_jobs)
  show "advances (rw_db w) (db\<lparr>td_now := t\<rparr>)" if "advances (rw_db w) db" for db t
    using that by (rule advances_trans) (simp add: advances_jobs)
  show "advances (rw_db w) (execute s db)" if "ends_no_job s" "advances (rw_db w) db" for s db
    using that(2) by (rule advances_trans) (rule advances_execute [OF that(1)])
qed

lemma redrive_update_row:
  "job_row_of j (snd (redrive_update i db)) = map_option (\<lambda>r. if sj_id r = i \<and> sj_status r \<notin> {PENDING, PROCESSING, CANCELLED}
     then r\<lparr>sj_status := PENDING, sj_updated := td_now db\<rparr> else r) (job_row_of j db)"
  unfolding redrive_update_def update_job_where_def Let_def by (simp add: job_row_of_update del: insert_iff)

lemma redrive_update_over:
  assumes "fst (redrive_update i db) = Some n"
  shows "job_over db i \<and> in_progress (snd (redrive_update i db)) i"
proof -
  from assms obtain r where r: "job_row_of i db = Some r" "sj_status r \<notin> {PENDING, PROCESSING, CANCELLED}"
    by (auto simp: redrive_update_def update_job_where_def Let_def split: option.splits if_splits)
  then have "sj_id r = i" by (auto simp: job_row_of_def find_Some_iff)
  with r show ?thesis by (simp add: in_progress_def job_over_def redrive_update_row)
qed

lemma over_not_in_progress: "job_over db j \<Longrightarrow> \<not> in_progress db j"
  by (simp add: job_over_def in_progress_def split: option.splits)

definition redriven_once :: "tenant_db \<Rightarrow> rq_job list \<Rightarrow> 's store_world \<Rightarrow> bool" where
  "redriven_once db q w \<longleftrightarrow> others_are ends_no_job w \<and> (\<forall>j. job_over (rw_db w) j \<longrightarrow> job_over db j) \<and>
     (\<exists>new. rw_queue w = q @ new \<and> distinct (map rq_id new) \<and>
        (\<forall>j \<in> set (map rq_id new). job_over db j \<and> in_progress (rw_db w) j))"

lemma redriven_once_keeps:
  assumes "redriven_once db q w" "others_are ends_no_job w'" "rw_queue w' = rw_queue w" "advances (rw_db w) (rw_db w')"
  shows "redriven_once db q w'"
  using assms unfolding redriven_once_def advances_def by auto

lemma redriven_once_pg:
  assumes "redriven_once db q w" "\<And>db. advances db (snd (stmt db))"
  shows "redriven_once db q (snd (pg stmt w))"
proof (rule redriven_once_keeps [OF assms(1)])
  have alone: "others_are ends_no_job w" using assms(1) by (simp add: redriven_once_def)
  then show "others_are ends_no_job (snd (pg stmt w))" by (rule pg_others)
  show "rw_queue (snd (pg stmt w)) = rw_queue w" by (rule pg_others)
  show "advances (rw_db w) (rw_db (snd (pg stmt w)))"
    using advances_others [OF alone] assms(2) advances_trans by (cases rule: pg_cases [of stmt w]) auto
qed

lemma redriven_once_retry:
  assumes "redriven_once db q w"
  shows "redriven_once db q (snd (retry_entry tenant e w))"
proof -
  let ?stmt = "\<lambda>db. case redrive_update (de_job_id e) db of (row, db') \<Rightarrow> (Inr row, db')"
  let ?m = "snd (count_retry e w)"
  let ?s = "snd (set_back e ?m)"
  have marked: "redriven_once db q ?m"
    by (rule redriven_once_pg [OF assms]) (simp add: advances_jobs mark_retry_attempt_def)
  have set: "redriven_once db q ?s"
    by (rule redriven_once_pg [OF marked]) (simp add: case_prod_beta' advances_redrive)
  show ?thesis
  proof (cases rule: retry_entry_cases [of e w tenant])
    case (queued n t)
    let ?db = "rw_db (others_act ?m)"
    have "fst (redrive_update (de_job_id e) ?db) = Some n" and s: "rw_db ?s = snd (redrive_update (de_job_id e) ?db)"
      using queued(2) by (cases rule: pg_cases [of ?stmt ?m]; simp add: case_prod_beta')+
    with redrive_update_over have over: "job_over ?db (de_job_id e)" "in_progress (rw_db ?s) (de_job_id e)" by auto
    have "others_are ends_no_job ?m" using marked by (simp add: redriven_once_def)
    then have before: "redriven_once db q (others_act ?m)"
      by (intro redriven_once_keeps [OF marked] others_are_later advances_others) simp_all
    with over(1) have taken: "job_over db (de_job_id e)" by (simp add: redriven_once_def)
    from before obtain new where new: "rw_queue ?m = q @ new" "distinct (map rq_id new)"
      "\<forall>j \<in> set (map rq_id new). job_over db j \<and> in_progress ?db j" by (auto simp: redriven_once_def)
    with over_not_in_progress [OF over(1)] have "de_job_id e \<notin> set (map rq_id new)" by blast
    moreover have "in_progress (rw_db ?s) j" if "in_progress ?db j" for j
      using advances_redrive that by (simp add: s advances_def)
    ultimately have "redriven_once db q (w'\<lparr>rw_queue := rw_queue ?s @ [j]\<rparr>)"
      if "rq_id j = de_job_id e" "rw_db w' = rw_db ?s" "rw_pg w' = rw_pg ?s" for j and w' :: "'a store_world"
      using set new taken over(2) that by (auto simp: redriven_once_def others_are_def pg_others)
    from this [of "\<lparr>rq_id = de_job_id e, rq_tenant = tenant, rq_timeout = t\<rparr>"] set queued(3) show ?thesis
      by (auto simp: enqueue_rq_def Let_def redriven_once_def others_are_def split: list.split fate.split)
  qed (simp_all add: marked set)
qed

interpretation once: reap_invariant self tenant "\<lambda>_. redriven_once db q" for self tenant db q
proof
  fix e c and w w' :: "'a store_world"
  show "redriven_once db q w \<Longrightarrow> rw_db w' = rw_db w \<Longrightarrow> rw_pg w' = rw_pg w \<Longrightarrow> rw_queue w' = rw_queue w \<Longrightarrow> redriven_once db q w'"
    by (simp add: redriven_once_def others_are_def)
  show "redriven_once db q w \<Longrightarrow> redriven_once db q (snd (select_letters self tenant c w))"
    by (erule redriven_once_pg) (simp add: advances_jobs)
  show "redriven_once db q w \<Longrightarrow> redriven_once db q (snd (retry_entry tenant e w))" by (rule redriven_once_retry)
qed

text \<open>
  \<^bold>\<open>C27\<close>: as long as no other process ends a job meanwhile, a reap leaves what is on the queue and
  puts no job on it twice, however many dead letters of the job are eligible: every job it puts there
  was over when the reap began, and is pending, processing or cancelled when the reap has ended.
\<close>

theorem one_redrive_per_job:
  assumes "others_are ends_no_job w"
  shows "\<exists>new. rw_queue (snd (reap_tenant sv self tenant w)) = rw_queue w @ new \<and> distinct (map rq_id new) \<and>
    list_all (\<lambda>j. job_over (rw_db w) j \<and> in_progress (rw_db (snd (reap_tenant sv self tenant w))) j) (map rq_id new)"
proof -
  have "redriven_once (rw_db w) (rw_queue w) w" using assms by (simp add: redriven_once_def)
  from once.reap_keeps [OF this, of sv self tenant] show ?thesis by (auto simp: redriven_once_def list_all_iff)
qed

subsection \<open>A circuit nobody asks\<close>

lemma ks_db_put_str: "ks_db (put_str k v t K) k' = (if k' = k then Some \<lparr>e_val = VStr v, e_exp = t\<rparr> else ks_db K k')"
  by (simp add: put_str_def put_def)

definition kept_open :: "string \<Rightarrow> keyspace \<Rightarrow> bool" where
  "kept_open d K \<longleftrightarrow> ks_db K (cb_key d ''state'') = Some \<lparr>e_val = VStr (RText ''open''), e_exp = None\<rparr>"

lemma kept_open_wait: "kept_open d K \<Longrightarrow> kept_open d (ks_wait n K)"
  by (simp add: kept_open_def)

lemma kept_open_state:
  assumes "kept_open d K"
  shows "run mem_server (cb_state d) [] K = (Inr OPEN, K)"
proof -
  have "str_at K (cb_key d ''state'') = Some (Some (RText ''open''))"
    using assms by (simp add: kept_open_def str_at_def live_def alive_def)
  then show ?thesis by (simp add: cb_state_def run_simps parse_state_def lift_res_def)
qed

lemma open_circuit_kept_open:
  assumes rel: "breaker_rel d K b" and cfg: "cb_config_ok cfg"
  shows "kept_open d (snd (run mem_server (open_circuit cfg d now) [] K))"
proof -
  obtain vt where vt: "str_at K (cb_key d ''trip_count'') = Some vt"
    "int_or_zero vt = Inr (b_trips b)" "vt \<noteq> Some (RText [])"
    using rel by (auto simp: breaker_rel_def elim: counter_at_SomeE)
  obtain n where n: "counter_at K trips_metric = Some n"
    using rel by (auto simp: breaker_rel_def)
  then obtain vm where vm: "str_at K trips_metric = Some vm" "as_int vm = Some n"
    by (elim counter_at_SomeE)
      (auto simp: int_or_zero_def as_int_def py_int_def split: option.splits rstr.splits)
  have ttl: "0 < max_cooldown_seconds cfg * TRIP_COUNT_DECAY_MULTIPLIER"
    using cfg by (simp add: cb_config_ok_def TRIP_COUNT_DECAY_MULTIPLIER_def)
  show ?thesis
    using vt ttl
    by (simp add: open_circuit_def run_simps lift_res_def Let_def keyspace_simps vm run_reset_window kept_open_def ks_db_put_str)
qed

lemma tripping_failure_kept_open:
  assumes rel: "breaker_rel d K b" and cfg: "cb_config_ok cfg"
    and "b_state b \<noteq> OPEN" "b_state (spec_failure cfg now b) = OPEN"
  shows "kept_open d (snd (run mem_server (cb_record_failure cfg d now) [] K))"
proof (cases "b_state b = HALF_OPEN")
  case True
  with open_circuit_kept_open [OF rel cfg, of now] show ?thesis
    by (simp add: cb_record_failure_def run_simps run_cb_state [OF rel])
next
  case False
  define b1 where "b1 = b\<lparr>b_attempts := b_attempts b + 1, b_failures := b_failures b + 1\<rparr>"
  from run_record_attempt [OF rel cfg, of True] obtain K1 where
    K1: "run mem_server (record_attempt cfg d True) [] K = (Inr (b_attempts b + 1, b_failures b + 1), K1)"
      "breaker_rel d K1 b1"
    by (auto simp: b1_def)
  have "attempt_threshold cfg \<le> b_attempts b + 1 \<and> failure_threshold cfg \<le> of_int (b_failures b + 1) / of_int (b_attempts b + 1)"
    using assms(3,4) False spec_failure_opens_iff [of b cfg now] by (cases "b_state b") auto
  with open_circuit_kept_open [OF K1(2) cfg, of now] K1 False show ?thesis
    by (simp add: cb_record_failure_def run_simps run_cb_state [OF rel])
qed

text \<open>
  \<^bold>\<open>C28\<close>: once a failure has opened a domain's circuit, no dead letter that waits for it is re-driven
  on its own, however much time passes: requests would be let through again when the cooldown is
  over, but the stored state only changes when one is made.
\<close>

theorem open_circuit_never_retried:
  assumes "breaker_rel d K b" "cb_config_ok cfg" "b_state b \<noteq> OPEN" "b_state (spec_failure cfg now b) = OPEN"
    and "de_category e \<in> {failure_category.CIRCUIT_OPEN, RATE_LIMITED}" "reap_domain self (de_url e) = d"
    and "rw_redis w = ks_wait n (snd (run mem_server (cb_record_failure cfg d now) [] K))" "rw_net w = []"
  shows "fst (is_eligible mem_server self e w) = Inr False \<and> rw_redis (snd (is_eligible mem_server self e w)) = rw_redis w"
proof -
  have "kept_open d (rw_redis w)"
    unfolding assms(7) by (rule kept_open_wait [OF tripping_failure_kept_open [OF assms(1-4)]])
  note state = kept_open_state [OF this]
  have read: "on_redis mem_server (andthen (cb_state d) (\<lambda>s. Return (f s))) w = (Inr (f OPEN), w)" for f :: "circuit_state \<Rightarrow> bool"
    using assms(8) state by (simp add: on_redis_def run_simps)
  show ?thesis
    using assms(5) read [of "\<lambda>s. s = CLOSED"] read [of "\<lambda>s. s \<noteq> OPEN"]
    by (auto simp: is_eligible_def Let_def assms(6))
qed

subsection \<open>A backlog in front of the batch\<close>

text \<open>
  Each category is read with its own limit, oldest first. While the circuits of the oldest
  \<open>batch_size_per_tenant\<close> dead letters stay open, a pass over \<open>CIRCUIT_OPEN\<close> changes nothing: an
  entry behind them is not even looked at, whether it is eligible or not.
\<close>

lemma backlog_blocks_category:
  assumes "rw_pg w = []" "rw_net w = []"
    and "list_retryable tenant [failure_category.CIRCUIT_OPEN] (rc_max_auto_retries (ra_cfg self))
      (rc_batch_size_per_tenant (ra_cfg self)) (rw_db w) = Inr es"
    and "\<forall>e \<in> set es. kept_open (reap_domain self (de_url e)) (rw_redis w) \<and> de_category e = failure_category.CIRCUIT_OPEN"
  shows "reap_categories mem_server self tenant [failure_category.CIRCUIT_OPEN] n w = (Inr n, w)"
proof -
  have refused: "is_eligible mem_server self e w = (Inr False, w)" if "e \<in> set es" for e
    using assms(2,4) that kept_open_state by (simp add: is_eligible_def Let_def on_redis_def run_simps)
  have "reap_candidates mem_server self tenant xs n w = (Inr n, w)" if "set xs \<subseteq> set es" for xs
    using that by (induction xs) (simp_all add: rreturn_def rbind_def refused)
  moreover have "pg (\<lambda>db. (list_retryable tenant [failure_category.CIRCUIT_OPEN] (rc_max_auto_retries (ra_cfg self))
      (rc_batch_size_per_tenant (ra_cfg self)) db, db)) w = (Inr es, w)"
    using assms(1,3) by (simp add: pg_def others_act_def next_pg_def elapse_def Let_def)
  ultimately show ?thesis by (simp add: rbind_def rreturn_def)
qed

subsection \<open>An attempt spent on nothing\<close>

text \<open>
  The count is raised before the job is looked at: while a job waits in the queue, runs, or is
  cancelled, its eligible dead letters lose an attempt in every cycle and nothing is enqueued.
\<close>

lemma attempt_spent_on_active_job:
  assumes "rw_pg w = []" "in_progress (rw_db w) (de_job_id e)"
  shows "fst (retry_entry tenant e w) = Inr () \<and> rw_queue (snd (retry_entry tenant e w)) = rw_queue w \<and>
    td_dlq (rw_db (snd (retry_entry tenant e w))) = td_dlq (mark_retry_attempt (de_id e) (rw_db w))"
proof -
  let ?db = "mark_retry_attempt (de_id e) (rw_db w)"
  have "in_progress ?db (de_job_id e)"
    by (rule in_progress_jobs [OF assms(2)]) (simp add: mark_retry_attempt_def)
  then have "fst (redrive_update (de_job_id e) ?db) = None"
    using redrive_update_over over_not_in_progress by (cases "fst (redrive_update (de_job_id e) ?db)") auto
  with assms(1) redrive_update_dlq show ?thesis
    by (simp add: retry_entry_def rbind_def rreturn_def pg_alone case_prod_beta')
qed

subsection \<open>A tenant to reap\<close>

text \<open>
  Two dead letters of one finished job, both of a page that ran out of proxies; the pool is healthy
  again. Between the reaper's statements a worker of another job fails a URL.
\<close>

definition demo_reaper :: reaper where
  "demo_reaper = \<lparr>ra_cfg = dlq_reaper_defaults, ra_tiers = proxy_tier_defaults, ra_dataimpulse = dataimpulse_defaults,
     ra_gateway_env = \<lparr>ge_host = None, ge_port = None, ge_username = None, ge_password = None\<rparr>,
     ra_host = host_admission_init ''h'' host_capacity_defaults (Some 4) None, ra_hostname = (\<lambda>_. Some ''shop.example''),
     ra_draw = 1, ra_probe_answer = (\<lambda>_ _. None)\<rparr>"

definition demo_failure :: "string \<Rightarrow> string \<Rightarrow> dlq_failure" where
  "demo_failure j u = \<lparr>df_now = 50, df_job = j, df_url = u, df_category = PROXY_EXHAUSTED, df_error = ''no proxy'', df_level = 2, df_not_before = None\<rparr>"

definition demo_db :: tenant_db where
  "demo_db = finish_update ''j1'' COMPLETED (enqueue_failure (demo_failure ''j1'' ''u2'') (enqueue_failure (demo_failure ''j1'' ''u1'')
     (insert_job ''j1'' [''u1'', ''u2'', ''u3''] (ScrapeConfig None) None None
       \<lparr>td_dlq = [], td_next_id = 1, td_jobs = [], td_results = [], td_now = 40\<rparr>)))"

definition demo_reap :: "keyspace store_world" where
  "demo_reap = \<lparr>rw_db = demo_db, rw_pg = [(1, [], Answered), (1, [StoreFailure (demo_failure ''j2'' ''v'')], Answered)],
     rw_redis = empty_keyspace, rw_net = [], rw_now = 100, rw_queue = [], rw_queue_fates = [], rw_probe = None\<rparr>"

lemma demo_reaped:
  "map (\<lambda>r. (dl_url r, dl_retries r)) (td_dlq (rw_db (snd (reap_tenant mem_server demo_reaper ''acme'' demo_reap)))) =
     [(''u1'', 1), (''u2'', 1), (''v'', 0)] \<and>
   rw_queue (snd (reap_tenant mem_server demo_reaper ''acme'' demo_reap)) = [\<lparr>rq_id = ''j1'', rq_tenant = ''acme'', rq_timeout = 600\<rparr>]"
  by code_simp

lemma demo_db_rows: "map (\<lambda>r. (dl_id r, dl_job r, dl_url r, dl_category r, dl_retries r)) (td_dlq demo_db) =
    [(1, ''j1'', ''u1'', ''proxy_exhausted'', 0), (2, ''j1'', ''u2'', ''proxy_exhausted'', 0)] \<and> td_next_id demo_db = 3"
  by code_simp

lemma demo_db_ok: "dlq_ok demo_db"
  using demo_db_rows by (auto simp: dlq_ok_def map_eq_Cons_conv all_categories_def)

lemma demo_reap_others: "others_are sole_reaper demo_reap \<and> others_are keeps_letters demo_reap \<and> others_are ends_no_job demo_reap"
  by (simp add: demo_reap_def others_are_def)

theorem dlq_retry_cap_witness:
  "capped dlq_count 3 (rw_db (snd (reap_tenant mem_server demo_reaper ''acme'' demo_reap))) \<and>
   attempts_spent ''j1'' demo_db + 1 \<le> attempts_spent ''j1'' (rw_db (snd (reap_tenant mem_server demo_reaper ''acme'' demo_reap)))"
proof -
  have cap: "rc_max_auto_retries (ra_cfg demo_reaper) = 3" by (simp add: demo_reaper_def dlq_reaper_defaults_def)
  have "capped dlq_count 3 demo_db"
    using demo_db_rows by (auto simp: capped_def dlq_count_def map_eq_Cons_conv split: if_splits)
  moreover have "rw_db demo_reap = demo_db" "rw_queue demo_reap = []" by (simp_all add: demo_reap_def)
  moreover note demo_reaped demo_reap_others demo_db_ok
  ultimately have "capped dlq_count 3 (rw_db (snd (reap_tenant mem_server demo_reaper ''acme'' demo_reap)))"
    and counted: "\<And>j. int (count_list (map rq_id (rw_queue (snd (reap_tenant mem_server demo_reaper ''acme'' demo_reap)))) j) - 0
      \<le> attempts_spent j (rw_db (snd (reap_tenant mem_server demo_reaper ''acme'' demo_reap))) - attempts_spent j demo_db"
    using dlq_retry_cap [of demo_reaper demo_reap mem_server "''acme''"] by (simp_all add: cap)
  moreover from counted [of "''j1''"] demo_reaped
  have "attempts_spent ''j1'' demo_db + 1 \<le> attempts_spent ''j1'' (rw_db (snd (reap_tenant mem_server demo_reaper ''acme'' demo_reap)))"
    by simp
  ultimately show ?thesis by simp
qed

theorem one_redrive_per_job_witness:
  "job_over demo_db ''j1'' \<and> in_progress (rw_db (snd (reap_tenant mem_server demo_reaper ''acme'' demo_reap))) ''j1''"
proof -
  have "rw_db demo_reap = demo_db" "rw_queue demo_reap = []" by (simp_all add: demo_reap_def)
  with one_redrive_per_job [of demo_reap mem_server demo_reaper "''acme''"] demo_reap_others demo_reaped
  show ?thesis by (auto simp: list_all_iff)
qed

definition refused_entry :: dead_letter_entry where
  "refused_entry = \<lparr>de_id = 1, de_job_id = ''j1'', de_tenant_id = ''acme'', de_url = ''u1'', de_category = failure_category.CIRCUIT_OPEN,
     de_error_message = [], de_level_attempted = 1, de_auto_retry_count = 0, de_enqueued_at = 0, de_dead_at = 0, de_retry_not_before = None\<rparr>"

definition a_year_later :: "keyspace store_world" where
  "a_year_later = demo_reap\<lparr>rw_redis := ks_wait (365 * 86400000)
     (snd (run mem_server (cb_record_failure eager_config ''shop.example'' 10) [] empty_keyspace)), rw_now := 365 * 86400\<rparr>"

theorem open_circuit_never_retried_witness:
  "fst (is_eligible mem_server demo_reaper refused_entry a_year_later) = Inr False"
  using open_circuit_never_retried [where b = fresh_breaker and d = "''shop.example''" and now = 10 and e = refused_entry
      and self = demo_reaper and w = a_year_later and n = "365 * 86400000", OF fresh_breaker_rel config_ok_examples(2)]
  by (simp add: breaker_eval refused_entry_def a_year_later_def demo_reaper_def demo_reap_def reap_domain_def or_str_def)

end
