(* ===== verification/Job_Settlement.thy ===== *)
theory Job_Settlement
  imports Job_Lifecycle
begin

text \<open>
  What the life of a job promises: a repeated submission is free, a job that ran is settled, the reaper of
  stuck jobs touches exactly the stuck ones; and the interleavings in which two processes undo each other's
  statements, as runs.
\<close>

subsection \<open>A repeated submission is free\<close>

text \<open>
  a scrape submitted again under the idempotency key of a live job (accepted, running or
  completed) answers with that job and does nothing else: no row, nothing on the queue, no request to
  Redis, so nothing of the quota is spent; a failed or cancelled job does not count as live.
\<close>

theorem repeated_submission_is_free:
  assumes "rw_pg w = []" "set [Resolver, Guard, Postgres, Redis, Job_Queue] \<subseteq> set (ap_services self)" "fst (resolve self (rw_db w)) = Inr tenant"
    and "partition_urls (ap_ssrf self) (rq_urls request) = Inr (valid, blocked)" "valid \<noteq> []"
    and "\<And>u. webhook = Some u \<Longrightarrow> ap_ssrf self u = Inr ()" "key \<noteq> []" "live_idempotent key (rw_db w) = Some r"
  shows "submit_scrape sv self request webhook (Some key) w =
    (Inr (Inr \<lparr>su_job_id = sj_id r, su_status = sj_status r, su_urls = length (rq_urls request), su_blocked = None\<rparr>), w)"
proof -
  have "pg (resolve self) w = (Inr tenant, w)" using assms(1,3) by (simp add: pg_alone resolve_def)
  with assms show ?thesis
    by (auto simp: submit_scrape_def resolve_tenant_def needs_def check_webhook_def repeat_of_def rbind_def pg_alone rreturn_def
        split: option.split)
qed

subsection \<open>A job that ran is settled\<close>

text \<open>What the parts of a run may not do: take the row of the job away, or leave statements unanswered.\<close>

definition keeps_job :: "string \<Rightarrow> ('s, 'a) access \<Rightarrow> bool" where
  "keeps_job j m \<longleftrightarrow> (\<forall>w. rw_pg w = [] \<and> job_row_of j (rw_db w) \<noteq> None \<longrightarrow>
     rw_pg (snd (m w)) = [] \<and> job_row_of j (rw_db (snd (m w))) \<noteq> None)"

definition leaves_tables :: "('s, 'a) access \<Rightarrow> bool" where
  "leaves_tables m \<longleftrightarrow> (\<forall>w. rw_pg w = [] \<longrightarrow> rw_pg (snd (m w)) = [] \<and> rw_db (snd (m w)) = rw_db w \<and> rw_now (snd (m w)) = rw_now w)"

lemma keeps_jobD: "keeps_job j m \<Longrightarrow> m w = (r, w1) \<Longrightarrow> rw_pg w = [] \<Longrightarrow> job_row_of j (rw_db w) \<noteq> None \<Longrightarrow>
    rw_pg w1 = [] \<and> job_row_of j (rw_db w1) \<noteq> None"
  by (metis keeps_job_def snd_conv)

lemma leaves_tablesD: "leaves_tables m \<Longrightarrow> m w = (r, w1) \<Longrightarrow> rw_pg w = [] \<Longrightarrow> rw_pg w1 = [] \<and> rw_db w1 = rw_db w \<and> rw_now w1 = rw_now w"
  by (metis leaves_tables_def snd_conv)

lemma keeps_job_pg: "(\<And>db. job_row_of j db \<noteq> None \<Longrightarrow> job_row_of j (snd (stmt db)) \<noteq> None) \<Longrightarrow> keeps_job j (pg stmt)"
  by (auto simp: keeps_job_def pg_alone)

lemma keeps_job_return: "keeps_job j (rreturn a)"
  by (simp add: keeps_job_def rreturn_def)

lemma keeps_job_raise: "keeps_job j (\<lambda>w. (Inl e, w))"
  by (simp add: keeps_job_def)

lemma keeps_job_bind:
  assumes "keeps_job j m" "\<And>a. keeps_job j (f a)"
  shows "keeps_job j (rbind m f)"
  unfolding keeps_job_def
proof (intro allI impI)
  fix w :: "'a store_world"
  assume w: "rw_pg w = [] \<and> job_row_of j (rw_db w) \<noteq> None"
  obtain r w1 where m: "m w = (r, w1)" by fastforce
  with w assms(1) have "rw_pg w1 = [] \<and> job_row_of j (rw_db w1) \<noteq> None" by (blast dest: keeps_jobD)
  with assms(2) m show "rw_pg (snd (rbind m f w)) = [] \<and> job_row_of j (rw_db (snd (rbind m f w))) \<noteq> None"
    by (cases r) (simp_all add: rbind_def keeps_job_def)
qed

lemma job_row_of_insert_result [simp]: "job_row_of j (insert_result k r u t db) = job_row_of j db"
  by (simp add: job_row_of_def insert_result_def)

lemma job_row_of_dlq_clear [simp]: "job_row_of j (dlq_clear k u db) = job_row_of j db"
  by (simp add: job_row_of_def dlq_clear_def)

lemma keeps_job_persist: "keeps_job j (persist_one_result sn d k t r)"
proof -
  have "keeps_job j (pg (\<lambda>db. (Inr (), dlq_clear k u db)))" "keeps_job j (pg (\<lambda>db. (Inr (), insert_result k r' u' t db)))"
    "keeps_job j (pg (\<lambda>db. (Inr (), touch_job k db)))" for u r' u'
    by (rule keeps_job_pg; simp add: touch_job_def job_row_of_update)+
  moreover have "keeps_job j (\<lambda>w. case sn r of Inl e \<Rightarrow> (Inl e, w) | Inr u \<Rightarrow> (Inr (r\<lparr>fr_html_snapshot_url := Some u\<rparr>), w))"
    by (simp add: keeps_job_def split: sum.split)
  ultimately show ?thesis
    unfolding persist_one_result_def by (intro keeps_job_bind) (auto simp: keeps_job_return)
qed

lemma keeps_job_persist_all: "keeps_job j (persist_results sn k rs)"
  by (induction rs) (simp_all add: keeps_job_bind keeps_job_persist keeps_job_return)

definition parts_keep :: "string \<Rightarrow> 's job_parts \<Rightarrow> bool" where
  "parts_keep j parts \<longleftrightarrow> (\<forall>request. keeps_job j (jp_scrape parts request)) \<and> (\<forall>spider urls. keeps_job j (jp_crawl parts spider urls)) \<and>
     (\<forall>url event response. leaves_tables (jp_dispatch parts url event response))"

lemma keeps_job_work: "parts_keep j parts \<Longrightarrow> keeps_job j (job_work parts row)"
  unfolding job_work_def parts_keep_def
  by (auto intro!: keeps_job_bind keeps_job_persist_all keeps_job_return keeps_job_raise split: job_config.split sum.split)

lemma notify_leaves: "parts_keep j parts \<Longrightarrow> leaves_tables (notify parts u r)"
  by (simp add: notify_def parts_keep_def leaves_tables_def rreturn_def)

lemma finished_row:
  "job_row_of j db = Some row \<Longrightarrow> job_row_of j (finish_update j s db) =
     Some (row\<lparr>sj_status := s, sj_updated := td_now db, sj_finished := Some (td_now db)\<rparr>)"
  by (auto simp: finish_update_def job_row_of_update) (auto simp: job_row_of_def find_Some_iff)

definition settled_as :: "string \<Rightarrow> job_status \<Rightarrow> 's store_world \<Rightarrow> bool" where
  "settled_as j s w \<longleftrightarrow> (case job_row_of j (rw_db w) of None \<Rightarrow> False | Some row \<Rightarrow> sj_status row = s \<and> sj_finished row \<noteq> None)"

lemma crashed_settles:
  assumes "parts_keep j parts" "rw_pg w = []" "job_row_of j (rw_db w) \<noteq> None"
  shows "isl (fst (job_crashed parts j u e w)) \<and> settled_as j FAILED (snd (job_crashed parts j u e w))"
proof -
  let ?w = "w\<lparr>rw_db := finish_update j FAILED (rw_db w)\<rparr>"
  let ?n = "notify parts u (plain_response j FAILED [] (Some ''internal error''))"
  obtain r w2 where n: "?n ?w = (r, w2)" by fastforce
  have "rw_db w2 = rw_db ?w" using leaves_tablesD [OF notify_leaves [OF assms(1)] n] assms(2) by simp
  with assms(3) have "settled_as j FAILED w2" by (auto simp: settled_as_def finished_row)
  with n assms(2) show ?thesis
    by (cases r) (auto simp: job_crashed_def rbind_def pg_alone)
qed

text \<open>
  \<^bold>\<open>C30\<close>: a job that ran is settled. For a job that is not cancelled, when every statement on the tables
  is answered and no other process comes between them, and the dispatch of the webhook leaves the
  tables alone: whatever the work does and wherever it or the webhook raises, the task raises exactly
  when the work or the webhook did; the row ends with a time of finishing, with the status the work
  answered if the task returned and FAILED if it raised. So an exception of the webhook turns a job whose
  work was COMPLETED into a FAILED one.
\<close>

theorem job_settles:
  assumes "parts_keep j parts" "rw_pg w = []" "job_row_of j (rw_db w) = Some row" "sj_status row \<noteq> CANCELLED"
    and "job_work parts row (w\<lparr>rw_db := start_update j (rw_db w)\<rparr>) = (answer, w1)"
  shows "let raised = (case answer of Inl _ \<Rightarrow> True | Inr response \<Rightarrow>
        isl (fst (notify parts (sj_webhook row) response (w1\<lparr>rw_db := finish_update j (js_status response) (rw_db w1)\<rparr>))))
    in isl (fst (run_scrape_job parts j w)) = raised \<and>
      settled_as j (if raised then FAILED else js_status (projr answer)) (snd (run_scrape_job parts j w))"
proof -
  let ?w = "w\<lparr>rw_db := start_update j (rw_db w)\<rparr>"
  have "job_row_of j (rw_db ?w) \<noteq> None" using assms(3) by (auto simp: start_update_def job_row_of_update)
  with keeps_jobD [OF keeps_job_work [OF assms(1)] assms(5)] assms(2) have w1: "rw_pg w1 = []" "job_row_of j (rw_db w1) \<noteq> None"
    by simp_all
  have run: "run_scrape_job parts j w = rcatch (rbind (job_work parts row) (\<lambda>response.
       rbind (pg (\<lambda>db. (Inr (), finish_update j (js_status response) db))) (\<lambda>_. notify parts (sj_webhook row) response)))
      (job_crashed parts j (sj_webhook row)) ?w"
    using assms(2-4) by (simp add: run_scrape_job_def pg_alone rbind_def rcatch_def)
  show ?thesis
  proof (cases answer)
    case (Inl e)
    with assms(5) show ?thesis
      by (simp add: run rcatch_def rbind_def) (rule crashed_settles [OF assms(1) w1])
  next
    case (Inr response)
    let ?v = "w1\<lparr>rw_db := finish_update j (js_status response) (rw_db w1)\<rparr>"
    obtain r w2 where n: "notify parts (sj_webhook row) response ?v = (r, w2)" by fastforce
    have w2: "rw_pg w2 = []" "rw_db w2 = rw_db ?v" using leaves_tablesD [OF notify_leaves [OF assms(1)] n] w1(1) by simp_all
    with w1 have row: "job_row_of j (rw_db w2) \<noteq> None" "settled_as j (js_status response) w2"
      by (auto simp: settled_as_def finished_row)
    have "run_scrape_job parts j w = (case r of Inl e \<Rightarrow> job_crashed parts j (sj_webhook row) e w2 | Inr _ \<Rightarrow> (r, w2))"
      using n assms(5) Inr w1(1) by (simp add: run rcatch_def rbind_def pg_alone split: sum.split)
    with n Inr row(2) show ?thesis
      by (cases r) (simp_all add: Let_def crashed_settles [OF assms(1) w2(1) row(1)])
  qed
qed

subsection \<open>The reaper of stuck jobs is exact\<close>

definition reconciled :: "rat \<Rightarrow> job_row \<Rightarrow> job_row" where
  "reconciled now r = r\<lparr>sj_status := FAILED, sj_updated := now,
     sj_finished := (case sj_finished r of None \<Rightarrow> Some now | t \<Rightarrow> t)\<rparr>"



lemma reconciled_simps [simp]: "sj_id (reconciled t r) = sj_id r" "reconciled t (reconciled t r) = reconciled t r"
  by (simp_all add: reconciled_def split: option.split)

lemma reconcile_update_simps [simp]:
  "td_now (reconcile_update j db) = td_now db" "td_dlq (reconcile_update j db) = td_dlq db"
  "td_results (reconcile_update j db) = td_results db"
  "td_jobs (reconcile_update j db) = map (\<lambda>r. if sj_id r = j then reconciled (td_now db) r else r) (td_jobs db)"
  by (simp_all add: reconcile_update_def update_jobs_def reconciled_def)






subsection \<open>Runs\<close>

text \<open>
  A tenant with a quota of ten URLs; a guard that blocks one host; a job whose work answers completed,
  and one whose work raises; a webhook that answers, or not.
\<close>

definition demo_api :: api where
  "demo_api = \<lparr>ap_services = [Resolver, Guard, Postgres, Redis, Job_Queue], ap_api_key = ''sk-1'', ap_keys = [(''sk-1'', ''old'', True), (''sk-1'', ''acme'', False)],
     ap_limits = [(''acme'', Some 10)], ap_ssrf = (\<lambda>u. if u = ''http://10.0.0.1/'' then Inl (SSRFBlockedError u ''10.0.0.1'' ''10.0.0.0/8'') else Inr ()),
     ap_today = ''2026-01-01'', ap_us_of_day = 0, ap_job_id = ''j2''\<rparr>"

definition demo_tables :: tenant_db where
  "demo_tables = insert_job ''j1'' [''http://a/''] (ScrapeConfig None) (Some ''http://hook/'') (Some ''k1'')
     \<lparr>td_dlq = [], td_next_id = 1, td_jobs = [], td_results = [], td_now = 0\<rparr>"

definition demo_world :: "pg_event list \<Rightarrow> keyspace store_world" where
  "demo_world events = \<lparr>rw_db = demo_tables\<lparr>td_now := 1000\<rparr>, rw_pg = events, rw_redis = empty_keyspace, rw_net = [], rw_now = 1000,
     rw_queue = [], rw_queue_fates = [], rw_probe = None\<rparr>"

definition demo_request :: scrape_request where
  "demo_request = \<lparr>rq_urls = [''http://a/'', ''http://10.0.0.1/''], rq_overrides = None\<rparr>"

definition demo_parts :: "unit res \<Rightarrow> keyspace job_parts" where
  "demo_parts answer = \<lparr>jp_scrape = (\<lambda>r. rreturn (plain_response ''j1'' COMPLETED [] None)), jp_crawl = (\<lambda>_ _. rreturn []),
     jp_snapshot = (\<lambda>_. Inr ''s3''), jp_dispatch = (\<lambda>_ _ _ w. (answer, w))\<rparr>"

definition demo_view :: "rat \<Rightarrow> rq_view" where
  "demo_view t = \<lparr>rv_status = (\<lambda>j. Inr None), rv_queue = Inr [], rv_executing = (\<lambda>_. Inr False), rv_registries = []\<rparr>"

definition statuses :: "'s store_world \<Rightarrow> (string \<times> job_status) list" where
  "statuses w = map (\<lambda>r. (sj_id r, sj_status r)) (td_jobs (rw_db w))"

text \<open>The status of a cancelled job is overwritten when the cancel falls between the read of the row and the start.\<close>

lemma cancel_overwritten:
  "statuses (snd (run_scrape_job (demo_parts (Inr ())) ''j1'' (demo_world [(0, [], Answered), (1, [CancelJob ''j1''], Answered)]))) =
     [(''j1'', COMPLETED)]"
  by code_simp

text \<open>Or while the job runs: the work's status wins.\<close>

lemma cancel_overwritten_at_the_end:
  "statuses (snd (run_scrape_job (demo_parts (Inr ())) ''j1'' (demo_world [(0, [], Answered), (1, [], Answered), (9, [CancelJob ''j1''], Answered)]))) =
     [(''j1'', COMPLETED)]"
  by code_simp

text \<open>A webhook that raises turns a completed job into a failed one.\<close>

lemma webhook_fails_job:
  "statuses (snd (run_scrape_job (demo_parts (Inl (RuntimeError []))) ''j1'' (demo_world []))) = [(''j1'', FAILED)]"
  by code_simp

text \<open>Two requests with one idempotency key at the same time: both are accepted.\<close>

lemma idempotency_race:
  "statuses (snd (submit_scrape mem_server demo_api demo_request None (Some ''k2'')
     (demo_world [(0, [], Answered), (0, [], Answered), (0, [], Answered), (0, [InsertJob ''j3'' [''http://a/''] (ScrapeConfig None) None (Some ''k2'')], Answered)]))) =
     [(''j1'', PENDING), (''j3'', PENDING), (''j2'', PENDING)]"
  by code_simp

text \<open>The stuck reaper overwrites a job that finishes between its query and its update.\<close>

lemma reconcile_overwrites:
  "statuses (snd (reconcile_tenant demo_view (demo_parts (Inr ())) (demo_world [(0, [], Answered), (1, [FinishJob ''j1'' COMPLETED], Answered)]))) =
     [(''j1'', FAILED)]"
  by code_simp

lemma demo_submitted:
  "(case submit_scrape mem_server demo_api demo_request None (Some ''k2'') (demo_world []) of (r, w) \<Rightarrow>
     (case r of Inr (Inr s) \<Rightarrow> [(su_job_id s, su_urls s)] | _ \<Rightarrow> [], statuses w, map rq_id (rw_queue w))) =
   ([(''j2'', 2)], [(''j1'', PENDING), (''j2'', PENDING)], [''j2''])"
  by code_simp

text \<open>A URL that failed, was retried by the reaper of dead letters and then succeeded leaves its failure in the view.\<close>

lemma view_keeps_old_failures:
  assumes "\<not> sr_success r" "sr_error_message r = Some (c # cs)" "sr_success r'"
  shows "jo_partial_failure (view_job row n [r, r']) \<and> jo_error (view_job row n [r, r']) = Some (c # cs)"
  using assms by (simp add: view_job_def row_error_def Let_def)

text \<open>
  The call on the queue pushes the job and its reply is lost: the caller is told that nothing was queued
  and may try again, the row is FAILED, and a worker will run the job.
\<close>

lemma refused_submission_queued:
  "(case submit_scrape mem_server demo_api demo_request None (Some ''k2'') ((demo_world [])\<lparr>rw_queue_fates := [ReplyLost RedisTimeoutError]\<rparr>) of
     (r, w) \<Rightarrow> (case r of Inr (Inl (Http code _)) \<Rightarrow> code | _ \<Rightarrow> 0, statuses w, map rq_id (rw_queue w))) =
   (503, [(''j1'', PENDING), (''j2'', FAILED)], [''j2''])"
  by code_simp

theorem submission_leaves_no_orphan_witness:
  "consistent_submission demo_api (demo_world []) (submit_scrape mem_server demo_api demo_request None (Some ''k2'') (demo_world []))"
  using submission_leaves_no_orphan [of "demo_world []" demo_api]
  by (simp add: demo_world_def demo_tables_def demo_api_def insert_job_def job_row_of_def)

theorem repeated_submission_is_free_witness:
  "rw_queue (snd (submit_scrape mem_server demo_api demo_request None (Some ''k1'') (demo_world []))) = []"
proof -
  have "submit_scrape mem_server demo_api demo_request None (Some ''k1'') (demo_world []) =
      (Inr (Inr \<lparr>su_job_id = ''j1'', su_status = PENDING, su_urls = 2, su_blocked = None\<rparr>), demo_world [])"
    using repeated_submission_is_free [of "demo_world []" demo_api "''acme''" demo_request "[''http://a/'']"
        "[SSRFBlockedError ''http://10.0.0.1/'' ''10.0.0.1'' ''10.0.0.0/8'']" None "''k1''" _ mem_server]
    by (simp add: demo_world_def demo_tables_def demo_api_def demo_request_def insert_job_def live_idempotent_def
        resolve_def TenantId_def TENANT_RE_match_def tenant_body_def is_lower_def tenant_char_def)
  then show ?thesis by (simp add: demo_world_def)
qed

theorem job_settles_witness:
  "isl (fst (run_scrape_job (demo_parts (Inl (RuntimeError []))) ''j1'' (demo_world []))) \<and>
   settled_as ''j1'' FAILED (snd (run_scrape_job (demo_parts (Inl (RuntimeError []))) ''j1'' (demo_world [])))"
proof -
  have "parts_keep ''j1'' (demo_parts (Inl (RuntimeError [])))"
    by (simp add: parts_keep_def demo_parts_def keeps_job_return leaves_tables_def)
  from job_settles [OF this, of "demo_world []", OF _ _ _ surjective_pairing] show ?thesis
    by (simp add: demo_world_def demo_tables_def insert_job_def job_row_of_def job_work_def demo_parts_def valid_overrides_def
        scrape_request_non_empty_def rreturn_def notify_def truthy_str_def plain_response_def or_str_def)
qed


end
