(* ===== verification/Host_Scheduler.thy ===== *)
theory Host_Scheduler
  imports Host_Capacity
begin

text \<open>
  The decision of the claim script as a pure function of what it reads (\<open>admit\<close>), and what that
  decision guarantees: the budget, the tenant's share, the website's cap and delay, room for every
  older waiter that could claim now, and progress on an idle host.
\<close>

subsection \<open>The scheduler\<close>

record line_view =
  lv_sim :: rat
  lv_tenant :: tenant_use
  lv_slots :: "string \<Rightarrow> int"
  lv_next :: "string \<Rightarrow> rat"

definition site_free :: "claim_ctx \<Rightarrow> line_view \<Rightarrow> waiter_info \<Rightarrow> bool" where
  "site_free c v i \<longleftrightarrow> lv_slots v (wi_slot_key i) < wi_cap i \<and> lv_next v (wi_delay_key i) \<le> of_int (cc_now c)"

definition eligible :: "claim_ctx \<Rightarrow> line_view \<Rightarrow> waiter_info \<Rightarrow> bool" where
  "eligible c v i \<longleftrightarrow> site_free c v i \<and> fits c (lv_sim v) (lv_tenant v) i"

text \<open>Charging a waiter that will claim on its next poll.\<close>

definition charge :: "claim_ctx \<Rightarrow> waiter_info \<Rightarrow> line_view \<Rightarrow> line_view" where
  "charge c i v = \<lparr>lv_sim = lv_sim v + wi_weight i,
     lv_tenant = tu_add (RText (wi_tenant i)) (wi_weight i) (lv_tenant v),
     lv_slots = (lv_slots v)(wi_slot_key i := lv_slots v (wi_slot_key i) + 1),
     lv_next = (if 0 < wi_delay_ms i
       then (lv_next v)(wi_delay_key i := of_int (cc_now c + wi_delay_ms i)) else lv_next v)\<rparr>"

datatype verdict = Granted waiter_info | Refused | NotInLine

fun admit :: "claim_ctx \<Rightarrow> string \<Rightarrow> (string \<times> waiter_info) list \<Rightarrow> line_view \<Rightarrow> verdict" where
  "admit c me [] v = NotInLine"
| "admit c me ((w, i) # line) v =
     (if w = me then (if eligible c v i then Granted i else Refused)
      else admit c me line (if eligible c v i then charge c i v else v))"

text \<open>The older waiters charged before the caller's turn.\<close>

fun charged :: "claim_ctx \<Rightarrow> string \<Rightarrow> (string \<times> waiter_info) list \<Rightarrow> line_view \<Rightarrow> waiter_info list" where
  "charged c me [] v = []"
| "charged c me ((w, i) # line) v =
     (if w = me then []
      else if eligible c v i then i # charged c me line (charge c i v)
      else charged c me line v)"

lemma admit_granted:
  "admit c me line v = Granted i \<Longrightarrow> eligible c (fold (charge c) (charged c me line v) v) i"
  by (induction c me line v rule: admit.induct) (auto split: if_splits)

lemma admit_in_line: "admit c me line v = NotInLine \<longleftrightarrow> me \<notin> fst ` set line"
  by (induction c me line v rule: admit.induct) auto

lemma admit_granted_info: "admit c me line v = Granted i \<Longrightarrow> map_of line me = Some i"
  by (induction c me line v rule: admit.induct) (auto split: if_splits)

lemma charged_subset: "set (charged c me line v) \<subseteq> snd ` set line"
proof (induction c me line v rule: charged.induct)
  case (2 c me w i line v)
  then show ?case by (auto split: if_splits)
qed simp

lemma fold_charge:
  "lv_sim (fold (charge c) is v) = lv_sim v + sum_list (map wi_weight is)"
  "lv_tenant (fold (charge c) is v) (RText t) =
     lv_tenant v (RText t) + sum_list (map wi_weight (filter (\<lambda>i. wi_tenant i = t) is))"
  "lv_slots (fold (charge c) is v) k = lv_slots v k + int (length (filter (\<lambda>i. wi_slot_key i = k) is))"
  by (induction "is" arbitrary: v) (simp_all add: charge_def tu_add_def)

lemma fold_charge_next:
  "lv_next (fold (charge c) is v) k \<le> of_int (cc_now c) \<Longrightarrow>
   lv_next v k \<le> of_int (cc_now c) \<and> (\<forall>i \<in> set is. wi_delay_key i = k \<longrightarrow> wi_delay_ms i \<le> 0)"
proof (induction "is" rule: rev_induct)
  case (snoc i "is")
  then show ?case
    by (cases "0 < wi_delay_ms i \<and> wi_delay_key i = k") (auto simp: charge_def split: if_splits)
qed simp

subsection \<open>Properties of the decision\<close>

definition weights_ok :: "(string \<times> waiter_info) list \<Rightarrow> bool" where
  "weights_ok line \<longleftrightarrow> (\<forall>(w, i) \<in> set line. 0 < wi_weight i)"

lemma charged_nonneg:
  assumes "weights_ok line"
  shows "0 \<le> sum_list (map wi_weight (filter P (charged c me line v)))"
    "charged c me line v \<noteq> [] \<Longrightarrow> 0 < sum_list (map wi_weight (charged c me line v))"
proof -
  have pos: "0 < wi_weight i" if "i \<in> set (charged c me line v)" for i
    using assms charged_subset [of c me line v] that unfolding weights_ok_def by fastforce
  show "0 \<le> sum_list (map wi_weight (filter P (charged c me line v)))"
    by (intro sum_list_nonneg) (use pos in \<open>auto intro: less_imp_le\<close>)
  show "0 < sum_list (map wi_weight (charged c me line v))" if ne: "charged c me line v \<noteq> []"
  proof -
    obtain i xs where cons: "charged c me line v = i # xs" using ne by (cases "charged c me line v") auto
    have "0 \<le> sum_list (map wi_weight xs)"
      by (intro sum_list_nonneg) (use pos cons in \<open>auto intro: less_imp_le\<close>)
    with pos [of i] cons show ?thesis by simp
  qed
qed

text \<open>The state of the seats as the script finds it.\<close>

definition start_view :: "rat \<Rightarrow> tenant_use \<Rightarrow> (string \<Rightarrow> int) \<Rightarrow> (string \<Rightarrow> rat) \<Rightarrow> line_view" where
  "start_view in_use tu sl nx = \<lparr>lv_sim = in_use, lv_tenant = tu, lv_slots = sl, lv_next = nx\<rparr>"

lemma admit_budget:
  assumes "admit c me line (start_view in_use tu sl nx) = Granted i" "weights_ok line" "0 \<le> in_use"
  defines "older \<equiv> charged c me line (start_view in_use tu sl nx)"
  shows "in_use = 0 \<and> older = [] \<or> in_use + sum_list (map wi_weight older) + wi_weight i \<le> cc_target c"
  using admit_granted [OF assms(1)] charged_nonneg(2) [OF assms(2), of c me "start_view in_use tu sl nx"]
    charged_nonneg(1) [OF assms(2), of "\<lambda>_. True" c me "start_view in_use tu sl nx"] assms(3)
  unfolding older_def [symmetric] eligible_def fits_def fold_charge
  by (cases "older = []") (auto simp: start_view_def not_less)

lemma admit_site:
  assumes "admit c me line (start_view in_use tu sl nx) = Granted i"
  defines "older \<equiv> charged c me line (start_view in_use tu sl nx)"
  shows "sl (wi_slot_key i) + int (length (filter (\<lambda>j. wi_slot_key j = wi_slot_key i) older)) < wi_cap i"
    "nx (wi_delay_key i) \<le> of_int (cc_now c)"
    "\<forall>j \<in> set older. wi_delay_key j = wi_delay_key i \<longrightarrow> wi_delay_ms j \<le> 0"
  using admit_granted [OF assms(1)] unfolding older_def [symmetric] eligible_def site_free_def fold_charge
  by (auto simp: start_view_def dest!: fold_charge_next)

lemma admit_share:
  assumes "admit c me line (start_view in_use tu sl nx) = Granted i" "weights_ok line" "1 < cc_tenants c"
    and "0 \<le> tu (RText (wi_tenant i))"
  defines "older \<equiv> charged c me line (start_view in_use tu sl nx)"
  defines "held \<equiv> tu (RText (wi_tenant i)) + sum_list (map wi_weight (filter (\<lambda>j. wi_tenant j = wi_tenant i) older))"
  shows "held = 0 \<or> held + wi_weight i \<le> cc_share_cap c"
proof -
  have "0 \<le> held"
    using charged_nonneg(1) [OF assms(2)] assms(4) by (simp add: held_def older_def)
  moreover have "\<not> (0 < held \<and> cc_share_cap c < held + wi_weight i)"
    using admit_granted [OF assms(1)] assms(3) unfolding older_def [symmetric] eligible_def fits_def fold_charge
    by (simp add: start_view_def held_def)
  ultimately show ?thesis by auto
qed

text \<open>The first waiter in line whose website is free gets in on an idle host, whatever its weight.\<close>

lemma admit_idle:
  assumes "i \<in> snd ` set line" "site_free c v i" "lv_sim v = 0" "\<forall>t. lv_tenant v t = 0" "distinct (map fst line)"
  shows "\<exists>(w, j) \<in> set line. admit c w line v = Granted j"
  using assms(1,5)
proof (induction line)
  case (Cons x line)
  obtain w j where x: "x = (w, j)" by (cases x)
  have ok: "eligible c v k \<longleftrightarrow> site_free c v k" for k
    using assms(3,4) by (simp add: eligible_def fits_def)
  show ?case
  proof (cases "site_free c v j")
    case True
    with x ok show ?thesis by auto
  next
    case False
    with assms(2) Cons.prems x have "i \<in> snd ` set line" by auto
    from Cons.IH [OF this] Cons.prems(2) obtain w' k where
      k: "(w', k) \<in> set line" "admit c w' line v = Granted k" by auto
    with x Cons.prems(2) have "w' \<noteq> w" by (auto simp: image_iff)
    with False ok x k show ?thesis by (intro bexI [of _ "(w', k)"]) auto
  qed
qed simp

end
