(* ===== verification/Host_Capacity_Refinement.thy ===== *)
theory Host_Capacity_Refinement
  imports Host_Scheduler
begin

text \<open>
  The claim script refines the scheduler: on a well-typed keyspace the script's answer is the
  verdict of \<open>admit\<close> on what the keyspace says, and its effect is all of the grant or nothing of
  it. The properties of the host-wide budget are stated on the script through this refinement.
\<close>

subsection \<open>Reads\<close>

lemma run_reads:
  "zset_at K k = Some z \<Longrightarrow> run_lua redis_exec (LCall (ZRANGE_upto k t) f) K =
     run_lua redis_exec (f (RMembers (zorder (filter (\<lambda>(m, sc). sc \<le> t) z)))) K"
  "zset_at K k = Some z \<Longrightarrow> run_lua redis_exec (LCall (ZRANGE_above k t) f) K =
     run_lua redis_exec (f (RMembers (zorder (filter (\<lambda>(m, sc). t < sc) z)))) K"
  "zset_at K k = Some z \<Longrightarrow> run_lua redis_exec (LCall (ZRANGE k) f) K =
     run_lua redis_exec (f (RMembers (zorder z))) K"
  "zset_at K k = Some z \<Longrightarrow> run_lua redis_exec (LCall (ZCOUNT_above k t) f) K =
     run_lua redis_exec (f (RInteger (int (length (filter (\<lambda>(m, sc). t < sc) z))))) K"
  "hash_at K k = Some h \<Longrightarrow> run_lua redis_exec (LCall (HGETALL k) f) K = run_lua redis_exec (f (RPairs h)) K"
  "hash_at K k = Some h \<Longrightarrow> run_lua redis_exec (LCall (HGET k fd) f) K =
     run_lua redis_exec (f (case map_of h fd of None \<Rightarrow> RNil | Some v \<Rightarrow> RBulk v)) K"
  "str_at K k = Some v \<Longrightarrow> run_lua redis_exec (LCall (GET k) f) K =
     run_lua redis_exec (f (case v of None \<Rightarrow> RNil | Some x \<Rightarrow> RBulk x)) K"
  by (auto simp: run_lua_call split: option.splits)

lemma run_writes:
  "zset_at K k \<noteq> None \<Longrightarrow> run_lua redis_exec (LCall (ZREM k m) f) K =
     run_lua redis_exec (f (fst (redis_exec (ZREM k m) K))) (after (ZREM k m) K)"
  "zset_at K k \<noteq> None \<Longrightarrow> run_lua redis_exec (LCall (ZADD k fl sc m) f) K =
     run_lua redis_exec (f (fst (redis_exec (ZADD k fl sc m) K))) (after (ZADD k fl sc m) K)"
  "hash_at K k \<noteq> None \<Longrightarrow> run_lua redis_exec (LCall (HSET k fd v) f) K =
     run_lua redis_exec (f (fst (redis_exec (HSET k fd v) K))) (after (HSET k fd v) K)"
  "hash_at K k \<noteq> None \<Longrightarrow> run_lua redis_exec (LCall (HDEL k fd) f) K =
     run_lua redis_exec (f (fst (redis_exec (HDEL k fd) K))) (after (HDEL k fd) K)"
  "0 < px \<Longrightarrow> run_lua redis_exec (LCall (SET k w (Some px) False) f) K =
     run_lua redis_exec (f ROk) (after (SET k w (Some px) False) K)"
proof -
  have "run_lua redis_exec (LCall c f) K = run_lua redis_exec (f (fst (redis_exec c K))) (after c K)"
    if "fst (redis_exec c K) \<noteq> RErr" for c
    using that by (simp only: run_lua_call if_False)
  note this [unfolded reply_ok]
  note ok = this
  show "zset_at K k \<noteq> None \<Longrightarrow> run_lua redis_exec (LCall (ZREM k m) f) K =
     run_lua redis_exec (f (fst (redis_exec (ZREM k m) K))) (after (ZREM k m) K)"
    "zset_at K k \<noteq> None \<Longrightarrow> run_lua redis_exec (LCall (ZADD k fl sc m) f) K =
     run_lua redis_exec (f (fst (redis_exec (ZADD k fl sc m) K))) (after (ZADD k fl sc m) K)"
    "hash_at K k \<noteq> None \<Longrightarrow> run_lua redis_exec (LCall (HSET k fd v) f) K =
     run_lua redis_exec (f (fst (redis_exec (HSET k fd v) K))) (after (HSET k fd v) K)"
    "hash_at K k \<noteq> None \<Longrightarrow> run_lua redis_exec (LCall (HDEL k fd) f) K =
     run_lua redis_exec (f (fst (redis_exec (HDEL k fd) K))) (after (HDEL k fd) K)"
    by (simp_all only: ok reply_ok simp_thms)
  show "0 < px \<Longrightarrow> run_lua redis_exec (LCall (SET k w (Some px) False) f) K =
     run_lua redis_exec (f ROk) (after (SET k w (Some px) False) K)"
    by simp
qed

subsection \<open>The walk\<close>

definition live_count :: "keyspace \<Rightarrow> int \<Rightarrow> string \<Rightarrow> int" where
  "live_count K now k = (case zset_at K k of None \<Rightarrow> 0 | Some z \<Rightarrow> int (length (filter (\<lambda>(m, sc). now < sc) z)))"

definition next_instant :: "keyspace \<Rightarrow> string \<Rightarrow> rat" where
  "next_instant K k = (case str_at K k of Some (Some v) \<Rightarrow> (case as_num (Some v) of Some q \<Rightarrow> q | None \<Rightarrow> 0) | _ \<Rightarrow> 0)"

definition memo_ok :: "string set \<Rightarrow> (string \<Rightarrow> 'v) \<Rightarrow> (string \<Rightarrow> 'v) \<Rightarrow> (string \<times> 'v) list \<Rightarrow> bool" where
  "memo_ok S cur base memo \<longleftrightarrow> (\<forall>k \<in> S. cur k = (case map_of memo k of Some x \<Rightarrow> x | None \<Rightarrow> base k))"

lemma memo_ok_Nil: "(\<And>k. k \<in> S \<Longrightarrow> cur k = base k) \<Longrightarrow> memo_ok S cur base []"
  by (simp add: memo_ok_def)

lemma memo_ok_fill: "memo_ok S cur base memo \<Longrightarrow> memo_ok S cur base (alist_put k (cur k) memo)"
  by (auto simp: memo_ok_def)

lemma memo_ok_put: "memo_ok S cur base memo \<Longrightarrow> memo_ok S (cur(k := x)) base (alist_put k x memo)"
  by (auto simp: memo_ok_def)

lemma run_lua_slots:
  assumes "memo_ok S cur (live_count K now) memo" "zset_at K k \<noteq> None" "k \<in> S"
  shows "\<exists>memo'. memo_ok S cur (live_count K now) memo' \<and>
    run_lua redis_exec (lua_slots now k memo cont) K = run_lua redis_exec (cont (cur k) memo') K"
proof (cases "map_of memo k")
  case (Some n)
  with assms(1,3) show ?thesis
    by (intro exI [of _ memo]) (auto simp: lua_slots_def memo_ok_def)
next
  case None
  then have cur: "cur k = live_count K now k" using assms(1,3) by (simp add: memo_ok_def)
  obtain z where z: "zset_at K k = Some z" using assms(2) by auto
  then have "run_lua redis_exec (lua_slots now k memo cont) K =
      run_lua redis_exec (cont (cur k) (alist_put k (cur k) memo)) K"
    using None by (simp add: lua_slots_def run_reads(4) [OF z] cur live_count_def del: run_lua.simps(2))
  with memo_ok_fill [OF assms(1)] show ?thesis by blast
qed

lemma run_lua_nxt:
  assumes "memo_ok S cur (next_instant K) memo" "str_at K k \<noteq> None" "k \<in> S"
  shows "\<exists>memo'. memo_ok S cur (next_instant K) memo' \<and>
    run_lua redis_exec (lua_nxt k memo cont) K = run_lua redis_exec (cont (cur k) memo') K"
proof (cases "map_of memo k")
  case (Some n)
  with assms(1,3) show ?thesis
    by (intro exI [of _ memo]) (auto simp: lua_nxt_def memo_ok_def)
next
  case None
  obtain v where v: "str_at K k = Some v" using assms(2) by auto
  have "cur k = next_instant K k" using assms(1,3) None by (simp add: memo_ok_def)
  with v have "(case lua_tonumber (case v of None \<Rightarrow> RNil | Some x \<Rightarrow> RBulk x) of Some q \<Rightarrow> q | None \<Rightarrow> 0) = cur k"
    by (auto simp: next_instant_def lua_tonumber_def split: option.splits)
  with None v have "run_lua redis_exec (lua_nxt k memo cont) K =
      run_lua redis_exec (cont (cur k) (alist_put k (cur k) memo)) K"
    by (simp add: lua_nxt_def run_reads(7) [OF v] Let_def del: run_lua.simps(2))
  with memo_ok_fill [OF assms(1)] show ?thesis by blast
qed

definition sites_typed :: "keyspace \<Rightarrow> (string \<times> waiter_info) list \<Rightarrow> bool" where
  "sites_typed K line \<longleftrightarrow> (\<forall>(w, i) \<in> set line. zset_at K (wi_slot_key i) \<noteq> None \<and> str_at K (wi_delay_key i) \<noteq> None)"

theorem claim_walk_refines_admit:
  assumes "sites_typed K line" "\<forall>(w, i) \<in> set line. wi_slot_key i \<in> S \<and> wi_delay_key i \<in> S"
    "memo_ok S (lv_slots v) (live_count K (cc_now c)) sc"
    "memo_ok S (lv_next v) (next_instant K) na"
  shows "run_lua redis_exec (claim_walk ks a c line (lv_sim v) (lv_tenant v) sc na) K =
    (case admit c (ca_me a) line v of
       Granted i \<Rightarrow> run_lua redis_exec (grant_seat ks a c i) K
     | Refused \<Rightarrow> (refusal c, K)
     | NotInLine \<Rightarrow> run_lua redis_exec (extend_all [hk_waiters ks, hk_waiter_exp ks, hk_waiter_info ks] (ca_keep a)
         (LRet (refusal c))) K)"
  using assms
proof (induction line arbitrary: v sc na)
  case (Cons x line)
  obtain w i where x: "x = (w, i)" by (cases x)
  have typed: "zset_at K (wi_slot_key i) \<noteq> None" "str_at K (wi_delay_key i) \<noteq> None" "sites_typed K line"
    "\<forall>(w, i) \<in> set line. wi_slot_key i \<in> S \<and> wi_delay_key i \<in> S" "wi_slot_key i \<in> S" "wi_delay_key i \<in> S"
    using Cons.prems(1,2) by (auto simp: x sites_typed_def)
  define decide where "decide n sc' free na' =
    (let ok = free \<and> fits c (lv_sim v) (lv_tenant v) i in
      if w = ca_me a then (if \<not> ok then LRet (refusal c) else grant_seat ks a c i)
      else if ok then
        claim_walk ks a c line (lv_sim v + wi_weight i) (tu_add (RText (wi_tenant i)) (wi_weight i) (lv_tenant v))
          (alist_put (wi_slot_key i) (n + 1) sc')
          (if 0 < wi_delay_ms i
           then alist_put (wi_delay_key i) (of_int (cc_now c + wi_delay_ms i)) na' else na')
      else claim_walk ks a c line (lv_sim v) (lv_tenant v) sc' na')" for n sc' free na'
  have decided: "run_lua redis_exec (decide (lv_slots v (wi_slot_key i)) sc' (site_free c v i) na') K =
      (case admit c (ca_me a) (x # line) v of
         Granted i \<Rightarrow> run_lua redis_exec (grant_seat ks a c i) K
       | Refused \<Rightarrow> (refusal c, K)
       | NotInLine \<Rightarrow> run_lua redis_exec (extend_all [hk_waiters ks, hk_waiter_exp ks, hk_waiter_info ks] (ca_keep a)
           (LRet (refusal c))) K)"
    if m: "memo_ok S (lv_slots v) (live_count K (cc_now c)) sc'" "memo_ok S (lv_next v) (next_instant K) na'" for sc' na'
  proof (cases "w = ca_me a")
    case True
    then show ?thesis by (simp add: decide_def x eligible_def Let_def)
  next
    case False
    show ?thesis
    proof (cases "eligible c v i")
      case True
      have sc1: "memo_ok S (lv_slots (charge c i v)) (live_count K (cc_now c))
          (alist_put (wi_slot_key i) (lv_slots v (wi_slot_key i) + 1) sc')"
        using memo_ok_put [OF m(1)] by (simp add: charge_def)
      have na1: "memo_ok S (lv_next (charge c i v)) (next_instant K)
          (if 0 < wi_delay_ms i then alist_put (wi_delay_key i) (of_int (cc_now c + wi_delay_ms i)) na' else na')"
        using memo_ok_put [OF m(2)] m(2) by (simp add: charge_def del: of_int_add)
      have "lv_sim (charge c i v) = lv_sim v + wi_weight i"
        "lv_tenant (charge c i v) = tu_add (RText (wi_tenant i)) (wi_weight i) (lv_tenant v)"
        by (simp_all add: charge_def)
      with False True Cons.IH [OF typed(3,4) sc1 na1] show ?thesis
        by (simp add: decide_def x eligible_def Let_def del: of_int_add)
    next
      case ne: False
      with False m Cons.IH [OF typed(3,4), of v sc' na'] show ?thesis
        by (auto simp: decide_def x eligible_def Let_def)
    qed
  qed
  let ?tail = "\<lambda>n sc'. if n < wi_cap i
     then lua_nxt (wi_delay_key i) na (\<lambda>y na'. decide n sc' (y \<le> of_int (cc_now c)) na') else decide n sc' False na"
  have walk: "claim_walk ks a c (x # line) (lv_sim v) (lv_tenant v) sc na =
      lua_slots (cc_now c) (wi_slot_key i) sc ?tail"
    by (simp add: x decide_def Let_def cong: if_cong)
  obtain sc' where sc': "memo_ok S (lv_slots v) (live_count K (cc_now c)) sc'"
    "run_lua redis_exec (lua_slots (cc_now c) (wi_slot_key i) sc ?tail) K =
      run_lua redis_exec (?tail (lv_slots v (wi_slot_key i)) sc') K"
    using run_lua_slots [OF Cons.prems(3) typed(1,5), of ?tail] by blast
  show ?case
  proof (cases "lv_slots v (wi_slot_key i) < wi_cap i")
    case True
    obtain na' where na': "memo_ok S (lv_next v) (next_instant K) na'"
      "run_lua redis_exec (lua_nxt (wi_delay_key i) na
         (\<lambda>y na'. decide (lv_slots v (wi_slot_key i)) sc' (y \<le> of_int (cc_now c)) na')) K =
       run_lua redis_exec (decide (lv_slots v (wi_slot_key i)) sc' (lv_next v (wi_delay_key i) \<le> of_int (cc_now c)) na') K"
      using run_lua_nxt [OF Cons.prems(4) typed(2,6)] by metis
    have free: "site_free c v i = (lv_next v (wi_delay_key i) \<le> of_int (cc_now c))"
      using True by (simp add: site_free_def)
    show ?thesis
      unfolding walk sc'(2) using True na'(2) decided [OF sc'(1) na'(1)] by (simp only: free if_True)
  next
    case False
    then have "site_free c v i = False" by (simp add: site_free_def)
    with False decided [OF sc'(1) Cons.prems(4)] show ?thesis
      unfolding walk sc'(2) by (simp only: if_False)
  qed
qed simp

subsection \<open>Purging, joining and reading\<close>

definition keys_distinct :: "host_keys \<Rightarrow> bool" where
  "keys_distinct ks \<longleftrightarrow> distinct [hk_seats ks, hk_seat_weight ks, hk_seat_tenant ks, hk_waiters ks, hk_waiter_exp ks,
     hk_waiter_info ks, hk_target ks, hk_stats ks]"

definition host_key_set :: "host_keys \<Rightarrow> string set" where
  "host_key_set ks = {hk_seats ks, hk_seat_weight ks, hk_seat_tenant ks, hk_waiters ks, hk_waiter_exp ks,
     hk_waiter_info ks, hk_target ks, hk_stats ks}"

lemma keys_distinct_host [simp]: "keys_distinct (host_keys_of h)"
  by (simp add: keys_distinct_def host_keys_of_def Let_def)

lemma keys_distinctD:
  assumes "keys_distinct ks"
  shows
    "hk_seats ks \<noteq> hk_seat_weight ks" "hk_seats ks \<noteq> hk_seat_tenant ks" "hk_seats ks \<noteq> hk_waiters ks" "hk_seats ks \<noteq> hk_waiter_exp ks" "hk_seats ks \<noteq> hk_waiter_info ks" "hk_seats ks \<noteq> hk_target ks" "hk_seats ks \<noteq> hk_stats ks"
    "hk_seat_weight ks \<noteq> hk_seats ks" "hk_seat_weight ks \<noteq> hk_seat_tenant ks" "hk_seat_weight ks \<noteq> hk_waiters ks" "hk_seat_weight ks \<noteq> hk_waiter_exp ks" "hk_seat_weight ks \<noteq> hk_waiter_info ks" "hk_seat_weight ks \<noteq> hk_target ks" "hk_seat_weight ks \<noteq> hk_stats ks"
    "hk_seat_tenant ks \<noteq> hk_seats ks" "hk_seat_tenant ks \<noteq> hk_seat_weight ks" "hk_seat_tenant ks \<noteq> hk_waiters ks" "hk_seat_tenant ks \<noteq> hk_waiter_exp ks" "hk_seat_tenant ks \<noteq> hk_waiter_info ks" "hk_seat_tenant ks \<noteq> hk_target ks" "hk_seat_tenant ks \<noteq> hk_stats ks"
    "hk_waiters ks \<noteq> hk_seats ks" "hk_waiters ks \<noteq> hk_seat_weight ks" "hk_waiters ks \<noteq> hk_seat_tenant ks" "hk_waiters ks \<noteq> hk_waiter_exp ks" "hk_waiters ks \<noteq> hk_waiter_info ks" "hk_waiters ks \<noteq> hk_target ks" "hk_waiters ks \<noteq> hk_stats ks"
    "hk_waiter_exp ks \<noteq> hk_seats ks" "hk_waiter_exp ks \<noteq> hk_seat_weight ks" "hk_waiter_exp ks \<noteq> hk_seat_tenant ks" "hk_waiter_exp ks \<noteq> hk_waiters ks" "hk_waiter_exp ks \<noteq> hk_waiter_info ks" "hk_waiter_exp ks \<noteq> hk_target ks" "hk_waiter_exp ks \<noteq> hk_stats ks"
    "hk_waiter_info ks \<noteq> hk_seats ks" "hk_waiter_info ks \<noteq> hk_seat_weight ks" "hk_waiter_info ks \<noteq> hk_seat_tenant ks" "hk_waiter_info ks \<noteq> hk_waiters ks" "hk_waiter_info ks \<noteq> hk_waiter_exp ks" "hk_waiter_info ks \<noteq> hk_target ks" "hk_waiter_info ks \<noteq> hk_stats ks"
    "hk_target ks \<noteq> hk_seats ks" "hk_target ks \<noteq> hk_seat_weight ks" "hk_target ks \<noteq> hk_seat_tenant ks" "hk_target ks \<noteq> hk_waiters ks" "hk_target ks \<noteq> hk_waiter_exp ks" "hk_target ks \<noteq> hk_waiter_info ks" "hk_target ks \<noteq> hk_stats ks"
    "hk_stats ks \<noteq> hk_seats ks" "hk_stats ks \<noteq> hk_seat_weight ks" "hk_stats ks \<noteq> hk_seat_tenant ks" "hk_stats ks \<noteq> hk_waiters ks" "hk_stats ks \<noteq> hk_waiter_exp ks" "hk_stats ks \<noteq> hk_waiter_info ks" "hk_stats ks \<noteq> hk_target ks"
  using assms by (auto simp: keys_distinct_def)

definition numeric_hash :: "(string \<times> rstr) list \<Rightarrow> bool" where
  "numeric_hash h \<longleftrightarrow> (\<forall>(f, v) \<in> set h. as_num (Some v) \<noteq> None)"

definition int_hash :: "(string \<times> rstr) list \<Rightarrow> bool" where
  "int_hash h \<longleftrightarrow> (\<forall>(f, v) \<in> set h. as_int (Some v) \<noteq> None)"

definition info_hash :: "(string \<times> rstr) list \<Rightarrow> bool" where
  "info_hash h \<longleftrightarrow> (\<forall>(f, v) \<in> set h. info_decode v \<noteq> None)"

text \<open>Every host key has the type the scripts use it with, and the values they write.\<close>

record host_state =
  hs_seats :: "(string \<times> int) list"
  hs_weight :: "(string \<times> rstr) list"
  hs_tenant :: "(string \<times> rstr) list"
  hs_waiters :: "(string \<times> int) list"
  hs_exp :: "(string \<times> int) list"
  hs_info :: "(string \<times> rstr) list"
  hs_target :: "rstr option"
  hs_stats :: "(string \<times> rstr) list"

definition host_rel :: "host_keys \<Rightarrow> keyspace \<Rightarrow> host_state \<Rightarrow> bool" where
  "host_rel ks K h \<longleftrightarrow>
     zset_at K (hk_seats ks) = Some (hs_seats h) \<and> hash_at K (hk_seat_weight ks) = Some (hs_weight h) \<and>
     hash_at K (hk_seat_tenant ks) = Some (hs_tenant h) \<and> zset_at K (hk_waiters ks) = Some (hs_waiters h) \<and>
     zset_at K (hk_waiter_exp ks) = Some (hs_exp h) \<and> hash_at K (hk_waiter_info ks) = Some (hs_info h) \<and>
     str_at K (hk_target ks) = Some (hs_target h) \<and> hash_at K (hk_stats ks) = Some (hs_stats h)"

definition host_ok :: "host_state \<Rightarrow> bool" where
  "host_ok h \<longleftrightarrow> numeric_hash (hs_weight h) \<and> info_hash (hs_info h) \<and> int_hash (hs_stats h)"

lemma as_num_lua_tostring [simp]: "as_num (Some (lua_tostring q)) = Some q"
  by (simp add: lua_tostring_def as_num_def)

lemma set_alist_put: "set (alist_put k v xs) \<subseteq> insert (k, v) (set xs)"
  by (auto simp: alist_put_def split: if_splits)

lemma set_alist_del: "set (alist_del k xs) \<subseteq> set xs"
  by (auto simp: alist_del_def)

lemma hash_del:
  "numeric_hash h \<Longrightarrow> numeric_hash (alist_del f h)" "info_hash h \<Longrightarrow> info_hash (alist_del f h)"
  using set_alist_del [of f h] by (auto simp: numeric_hash_def info_hash_def)

lemma info_hash_put: "info_hash h \<Longrightarrow> info_hash (alist_put f (info_dumps i) h)"
  using set_alist_put [of f "info_dumps i" h] by (auto simp: info_hash_def)

lemma numeric_hash_put: "numeric_hash h \<Longrightarrow> numeric_hash (alist_put f (lua_tostring w) h)"
  using set_alist_put [of f "lua_tostring w" h] by (auto simp: numeric_hash_def)

lemma int_hash_put: "int_hash h \<Longrightarrow> int_hash (alist_put f (RInt n) h)"
  using set_alist_put [of f "RInt n" h] by (auto simp: int_hash_def as_int_def)

text \<open>What the script does to the host's keys before it decides, on the abstract state.\<close>

definition drop_all :: "string list \<Rightarrow> (string \<times> 'v) list \<Rightarrow> (string \<times> 'v) list" where
  "drop_all ls xs = fold alist_del ls xs"

lemma drop_all_filter: "drop_all ls xs = filter (\<lambda>(m, _). m \<notin> set ls) xs"
  unfolding drop_all_def by (induction ls arbitrary: xs) (auto simp: alist_del_def intro: filter_cong)

definition purged_seats :: "string list \<Rightarrow> host_state \<Rightarrow> host_state" where
  "purged_seats ls h = h\<lparr>hs_seats := drop_all ls (hs_seats h), hs_weight := drop_all ls (hs_weight h),
     hs_tenant := drop_all ls (hs_tenant h)\<rparr>"

definition purged_waiters :: "string list \<Rightarrow> host_state \<Rightarrow> host_state" where
  "purged_waiters ws h = h\<lparr>hs_exp := drop_all ws (hs_exp h), hs_waiters := drop_all ws (hs_waiters h),
     hs_info := drop_all ws (hs_info h)\<rparr>"

lemma run_drop_seats:
  assumes "keys_distinct ks" "host_rel ks K h"
  shows "\<exists>K'. run_lua redis_exec (drop_seats ks ls rest) K = run_lua redis_exec rest K' \<and>
    host_rel ks K' (purged_seats ls h) \<and> ks_now K' = ks_now K \<and> (\<forall>k. k \<notin> host_key_set ks \<longrightarrow> ks_db K' k = ks_db K k)"
  using assms(2)
proof (induction ls arbitrary: K h)
  case Nil
  then show ?case by (intro exI [of _ K]) (simp add: purged_seats_def drop_all_def)
next
  case (Cons l ls)
  define K1 where "K1 = after (HDEL (hk_seat_tenant ks) l) (after (HDEL (hk_seat_weight ks) l) (after (ZREM (hk_seats ks) l) K))"
  have run: "run_lua redis_exec (drop_seats ks (l # ls) rest) K = run_lua redis_exec (drop_seats ks ls rest) K1"
    using Cons.prems
    by (simp add: run_writes keyspace_simps host_rel_def keys_distinctD [OF assms(1)] K1_def del: redis_exec.simps run_lua.simps(2))
  have rel: "host_rel ks K1 (purged_seats [l] h)"
    using Cons.prems
    by (simp add: K1_def keyspace_simps host_rel_def keys_distinctD [OF assms(1)] purged_seats_def drop_all_def del: redis_exec.simps)
  have frame: "ks_db K1 k = ks_db K k" if "k \<notin> host_key_set ks" for k
    using that by (simp add: K1_def host_key_set_def redis_exec_frame del: redis_exec.simps)
  have "purged_seats ls (purged_seats [l] h) = purged_seats (l # ls) h"
    by (simp add: purged_seats_def drop_all_def)
  with Cons.IH [OF rel] run frame show ?case by (auto simp: K1_def simp del: redis_exec.simps drop_seats.simps)
qed

lemma run_drop_waiters:
  assumes "keys_distinct ks" "host_rel ks K h"
  shows "\<exists>K'. run_lua redis_exec (drop_waiters ks ls rest) K = run_lua redis_exec rest K' \<and>
    host_rel ks K' (purged_waiters ls h) \<and> ks_now K' = ks_now K \<and> (\<forall>k. k \<notin> host_key_set ks \<longrightarrow> ks_db K' k = ks_db K k)"
  using assms(2)
proof (induction ls arbitrary: K h)
  case Nil
  then show ?case by (intro exI [of _ K]) (simp add: purged_waiters_def drop_all_def)
next
  case (Cons l ls)
  define K1 where "K1 = after (HDEL (hk_waiter_info ks) l) (after (ZREM (hk_waiters ks) l) (after (ZREM (hk_waiter_exp ks) l) K))"
  have run: "run_lua redis_exec (drop_waiters ks (l # ls) rest) K = run_lua redis_exec (drop_waiters ks ls rest) K1"
    using Cons.prems
    by (simp add: run_writes keyspace_simps host_rel_def keys_distinctD [OF assms(1)] K1_def del: redis_exec.simps run_lua.simps(2))
  have rel: "host_rel ks K1 (purged_waiters [l] h)"
    using Cons.prems
    by (simp add: K1_def keyspace_simps host_rel_def keys_distinctD [OF assms(1)] purged_waiters_def drop_all_def del: redis_exec.simps)
  have frame: "ks_db K1 k = ks_db K k" if "k \<notin> host_key_set ks" for k
    using that by (simp add: K1_def host_key_set_def redis_exec_frame del: redis_exec.simps)
  have "purged_waiters ls (purged_waiters [l] h) = purged_waiters (l # ls) h"
    by (simp add: purged_waiters_def drop_all_def)
  with Cons.IH [OF rel] run frame show ?case by (auto simp: K1_def simp del: redis_exec.simps drop_waiters.simps)
qed

lemma numeric_drop_all: "numeric_hash h \<Longrightarrow> numeric_hash (drop_all ls h)"
  and info_drop_all: "info_hash h \<Longrightarrow> info_hash (drop_all ls h)"
  by (auto simp: drop_all_filter numeric_hash_def info_hash_def)

text \<open>Units in use and per tenant, of the seats held.\<close>

definition seat_units :: "rstr \<Rightarrow> rat" where
  "seat_units v = (case as_num (Some v) of Some w \<Rightarrow> w | None \<Rightarrow> 0)"

definition units_in_use :: "host_state \<Rightarrow> rat" where
  "units_in_use h = sum_list (map (\<lambda>(l, v). seat_units v) (hs_weight h))"

definition holder :: "(string \<times> rstr) list \<Rightarrow> string \<Rightarrow> rstr" where
  "holder ht l = (case map_of ht l of Some v \<Rightarrow> v | None \<Rightarrow> RText [])"

definition tenant_units :: "host_state \<Rightarrow> tenant_use" where
  "tenant_units h tn = sum_list (map (\<lambda>(l, v). if holder (hs_tenant h) l = tn then seat_units v else 0) (hs_weight h))"

lemma run_sum_held:
  assumes "hash_at K (hk_seat_tenant ks) = Some ht" "numeric_hash held"
  shows "run_lua redis_exec (sum_held ks held u tu k) K =
    run_lua redis_exec (k (u + sum_list (map (\<lambda>(l, v). seat_units v) held))
      (\<lambda>tn. tu tn + sum_list (map (\<lambda>(l, v). if holder ht l = tn then seat_units v else 0) held))) K"
  using assms(2)
proof (induction held arbitrary: u tu)
  case (Cons x held)
  obtain l v where x: "x = (l, v)" by (cases x)
  obtain w where w: "as_num (Some v) = Some w" "seat_units v = w"
    using Cons.prems by (auto simp: numeric_hash_def x seat_units_def)
  have tn: "(case (case map_of ht l of None \<Rightarrow> RNil | Some v \<Rightarrow> RBulk v) of RBulk v \<Rightarrow> v | _ \<Rightarrow> RText []) = holder ht l"
    by (auto simp: holder_def split: option.splits)
  have "numeric_hash held" using Cons.prems by (simp add: numeric_hash_def)
  note ih = Cons.IH [OF this, of "u + w" "tu_add (holder ht l) w tu"]
  have tu: "(\<lambda>tn. tu_add (holder ht l) w tu tn + S tn) =
      (\<lambda>tn. tu tn + ((if holder ht l = tn then seat_units v else 0) + S tn))" for S
    by (auto simp: tu_add_def w fun_eq_iff)
  have "run_lua redis_exec (sum_held ks (x # held) u tu k) K =
      run_lua redis_exec (sum_held ks held (u + w) (tu_add (holder ht l) w tu) k) K"
    by (simp add: x w run_reads(6) [OF assms(1)] tn Let_def del: run_lua.simps(2))
  also note ih [unfolded tu]
  finally show ?case by (simp add: x w add.assoc)
qed simp

text \<open>The line: waiters by priority, with the data they stored.\<close>

definition infos_of :: "(string \<times> rstr) list \<Rightarrow> string list \<Rightarrow> (string \<times> waiter_info) list" where
  "infos_of hi line = List.map_filter (\<lambda>w. Option.bind (map_of hi w) (\<lambda>raw. map_option (Pair w) (info_decode raw))) line"

lemma run_read_infos:
  assumes "hash_at K (hk_waiter_info ks) = Some hi" "info_hash hi"
  shows "run_lua redis_exec (read_infos ks line acc k) K = run_lua redis_exec (k (acc @ infos_of hi line)) K"
proof (induction line arbitrary: acc)
  case (Cons w line)
  have dec: "\<exists>i. info_decode raw = Some i" if "map_of hi w = Some raw" for raw
    using assms(2) that by (auto simp: info_hash_def dest!: map_of_SomeD)
  show ?case
  proof (cases "map_of hi w")
    case None
    with Cons show ?thesis
      by (simp add: run_reads(6) [OF assms(1)] infos_of_def map_filter_simps del: run_lua.simps(2))
  next
    case (Some raw)
    with dec obtain i where "info_decode raw = Some i" by auto
    with Some Cons show ?thesis
      by (simp add: run_reads(6) [OF assms(1)] infos_of_def map_filter_simps del: run_lua.simps(2))
  qed
qed (simp add: infos_of_def map_filter_simps)

definition joined :: "claim_args \<Rightarrow> int \<Rightarrow> host_state \<Rightarrow> host_state" where
  "joined a now h = h\<lparr>hs_waiters := zadd ZNX (ca_prio a) (ca_me a) (hs_waiters h),
     hs_exp := zadd ZPlain (now + ca_waiter_ttl a) (ca_me a) (hs_exp h),
     hs_info := alist_put (ca_me a) (ca_info a) (hs_info h)\<rparr>"

text \<open>The host as the decision sees it: lapsed seats and waiters gone, the caller in line.\<close>

definition prepared :: "claim_args \<Rightarrow> int \<Rightarrow> host_state \<Rightarrow> host_state" where
  "prepared a now h =
     (let h1 = purged_seats (zorder (filter (\<lambda>(m, sc). sc \<le> now) (hs_seats h))) h;
          h2 = purged_waiters (zorder (filter (\<lambda>(m, sc). sc \<le> now) (hs_exp h1))) h1
      in joined a now h2)"

definition target_of :: "claim_args \<Rightarrow> host_state \<Rightarrow> rat" where
  "target_of a h = (case hs_target h of Some v \<Rightarrow> (case as_num (Some v) of Some q \<Rightarrow> q | None \<Rightarrow> ca_default_target a)
     | None \<Rightarrow> ca_default_target a)"

definition line_of :: "host_state \<Rightarrow> (string \<times> waiter_info) list" where
  "line_of h = infos_of (hs_info h) (zorder (hs_waiters h))"

definition ctx_of :: "claim_args \<Rightarrow> int \<Rightarrow> host_state \<Rightarrow> claim_ctx" where
  "ctx_of a now h = \<lparr>cc_now = now, cc_target = target_of a h, cc_share_cap = share_cap (target_of a h) (ca_share a),
     cc_tenants = n_tenants (line_of h), cc_in_use = units_in_use h, cc_line = length (hs_waiters h)\<rparr>"

definition view_of :: "keyspace \<Rightarrow> host_state \<Rightarrow> line_view" where
  "view_of K h = start_view (units_in_use h) (tenant_units h) (live_count K (ks_now K)) (next_instant K)"

lemma host_ok_prepared:
  assumes "host_ok h" "ca_info a = info_dumps i"
  shows "host_ok (prepared a now h)"
  using assms info_hash_put
  by (simp add: host_ok_def prepared_def joined_def purged_seats_def purged_waiters_def Let_def
      numeric_drop_all info_drop_all)

lemma live_frame: "ks_db K' k = ks_db K k \<Longrightarrow> ks_now K' = ks_now K \<Longrightarrow> live K' k = live K k"
  by (simp add: live_def split: option.splits)

lemma at_frame:
  assumes "ks_db K' k = ks_db K k" "ks_now K' = ks_now K"
  shows "zset_at K' k = zset_at K k" "str_at K' k = str_at K k" "hash_at K' k = hash_at K k"
  using live_frame [OF assms] by (simp_all add: zset_at_def str_at_def hash_at_def)

lemma live_count_frame: "ks_db K' k = ks_db K k \<Longrightarrow> ks_now K' = ks_now K \<Longrightarrow> live_count K' now k = live_count K now k"
  and next_instant_frame: "ks_db K' k = ks_db K k \<Longrightarrow> ks_now K' = ks_now K \<Longrightarrow> next_instant K' k = next_instant K k"
  using at_frame [of K' k K] by (simp_all add: live_count_def next_instant_def)

text \<open>
  The whole script: it ends up deciding on the prepared host, with the keys of the websites (which
  are no host keys) untouched so far.
\<close>

theorem CLAIM_refines:
  assumes ks: "keys_distinct ks" and rel: "host_rel ks K h" and ok: "host_ok h" "ca_info a = info_dumps me_info"
    and sites: "sites_typed K (line_of (prepared a (ks_now K) h))"
      "\<forall>(w, i) \<in> set (line_of (prepared a (ks_now K) h)). wi_slot_key i \<notin> host_key_set ks \<and> wi_delay_key i \<notin> host_key_set ks"
  defines "hp \<equiv> prepared a (ks_now K) h"
  shows "\<exists>Kp. host_rel ks Kp hp \<and> ks_now Kp = ks_now K \<and> (\<forall>k. k \<notin> host_key_set ks \<longrightarrow> ks_db Kp k = ks_db K k) \<and>
    run_lua redis_exec (CLAIM_LUA ks a) K =
      (case admit (ctx_of a (ks_now K) hp) (ca_me a) (line_of hp) (view_of K hp) of
         Granted i \<Rightarrow> run_lua redis_exec (grant_seat ks a (ctx_of a (ks_now K) hp) i) Kp
       | Refused \<Rightarrow> (refusal (ctx_of a (ks_now K) hp), Kp)
       | NotInLine \<Rightarrow> run_lua redis_exec (extend_all [hk_waiters ks, hk_waiter_exp ks, hk_waiter_info ks] (ca_keep a)
           (LRet (refusal (ctx_of a (ks_now K) hp)))) Kp)"
proof -
  let ?now = "ks_now K"
  define dead where "dead = zorder (filter (\<lambda>(m, sc). sc \<le> ?now) (hs_seats h))"
  define h1 where "h1 = purged_seats dead h"
  define gone where "gone = zorder (filter (\<lambda>(m, sc). sc \<le> ?now) (hs_exp h1))"
  define h2 where "h2 = purged_waiters gone h1"
  have hp: "hp = joined a ?now h2" by (simp add: hp_def prepared_def h2_def gone_def h1_def dead_def Let_def)
  define walk where "walk = LCall (HGETALL (hk_seat_weight ks)) (\<lambda>held. sum_held ks (reply_pairs held) 0 (\<lambda>_. 0) (\<lambda>in_use tu.
      LCall (GET (hk_target ks)) (\<lambda>raw.
        let target = (case raw of RBulk v \<Rightarrow> (case as_num (Some v) of Some q \<Rightarrow> q | None \<Rightarrow> ca_default_target a)
                      | _ \<Rightarrow> ca_default_target a) in
      LCall (ZRANGE (hk_waiters ks)) (\<lambda>ln. let line = reply_members ln in
      read_infos ks line [] (\<lambda>infos.
        claim_walk ks a \<lparr>cc_now = ?now, cc_target = target, cc_share_cap = share_cap target (ca_share a),
            cc_tenants = n_tenants infos, cc_in_use = in_use, cc_line = length line\<rparr>
          infos in_use tu [] [])))))"
  define join where "join = LCall (ZADD (hk_waiters ks) ZNX (ca_prio a) (ca_me a)) (\<lambda>_.
      LCall (ZADD (hk_waiter_exp ks) ZPlain (?now + ca_waiter_ttl a) (ca_me a)) (\<lambda>_.
      LCall (HSET (hk_waiter_info ks) (ca_me a) (ca_info a)) (\<lambda>_. walk)))"
  obtain K1 where K1: "run_lua redis_exec (drop_seats ks dead (LCall (ZRANGE_upto (hk_waiter_exp ks) ?now)
        (\<lambda>gone. drop_waiters ks (reply_members gone) join))) K =
      run_lua redis_exec (LCall (ZRANGE_upto (hk_waiter_exp ks) ?now) (\<lambda>gone. drop_waiters ks (reply_members gone) join)) K1"
    "host_rel ks K1 h1" "ks_now K1 = ?now" "\<forall>k. k \<notin> host_key_set ks \<longrightarrow> ks_db K1 k = ks_db K k"
    using run_drop_seats [OF ks rel] unfolding h1_def by blast
  obtain K2 where K2: "run_lua redis_exec (drop_waiters ks gone join) K1 = run_lua redis_exec join K2"
    "host_rel ks K2 h2" "ks_now K2 = ?now" "\<forall>k. k \<notin> host_key_set ks \<longrightarrow> ks_db K2 k = ks_db K1 k"
    using run_drop_waiters [OF ks K1(2)] K1(3) unfolding h2_def by metis
  define Kp where "Kp = after (HSET (hk_waiter_info ks) (ca_me a) (ca_info a))
    (after (ZADD (hk_waiter_exp ks) ZPlain (?now + ca_waiter_ttl a) (ca_me a))
      (after (ZADD (hk_waiters ks) ZNX (ca_prio a) (ca_me a)) K2))"
  have Kp_now: "ks_now Kp = ?now" by (simp add: Kp_def K2(3) del: redis_exec.simps)
  have relp: "host_rel ks Kp hp"
    using K2(2) by (simp add: Kp_def hp joined_def keyspace_simps host_rel_def keys_distinctD [OF ks] del: redis_exec.simps)
  have frame: "\<forall>k. k \<notin> host_key_set ks \<longrightarrow> ks_db Kp k = ks_db K k"
    using K1(4) K2(4) by (auto simp: Kp_def host_key_set_def redis_exec_frame simp del: redis_exec.simps)
  have "run_lua redis_exec (CLAIM_LUA ks a) K = run_lua redis_exec join K2"
    using rel K1 K2(1) unfolding CLAIM_LUA_def run_with_now_ms
    by (simp add: run_reads host_rel_def dead_def [symmetric] gone_def [symmetric] reply_members_def
        join_def walk_def Let_def del: run_lua.simps(2))
  also have "\<dots> = run_lua redis_exec walk Kp"
    using K2(2) by (simp add: join_def run_writes keyspace_simps host_rel_def keys_distinctD [OF ks] Kp_def
        del: redis_exec.simps run_lua.simps(2))
  also have "\<dots> = run_lua redis_exec (claim_walk ks a (ctx_of a ?now hp) (line_of hp) (units_in_use hp) (tenant_units hp) [] []) Kp"
  proof -
    have num: "numeric_hash (hs_weight hp)" "info_hash (hs_info hp)"
      using host_ok_prepared [OF ok, of ?now] by (simp_all add: host_ok_def hp_def)
    have at: "hash_at Kp (hk_seat_weight ks) = Some (hs_weight hp)" "hash_at Kp (hk_seat_tenant ks) = Some (hs_tenant hp)"
      "str_at Kp (hk_target ks) = Some (hs_target hp)" "zset_at Kp (hk_waiters ks) = Some (hs_waiters hp)"
      "hash_at Kp (hk_waiter_info ks) = Some (hs_info hp)"
      using relp by (simp_all add: host_rel_def)
    have target: "(case (case hs_target hp of None \<Rightarrow> RNil | Some x \<Rightarrow> RBulk x) of
        RBulk v \<Rightarrow> (case as_num (Some v) of Some q \<Rightarrow> q | None \<Rightarrow> ca_default_target a)
      | _ \<Rightarrow> ca_default_target a) = target_of a hp"
      by (auto simp: target_of_def split: option.splits)
    have tu: "(\<lambda>tn. 0 + sum_list (map (\<lambda>(l, v). if holder (hs_tenant hp) l = tn then seat_units v else 0) (hs_weight hp)))
        = tenant_units hp"
      by (simp add: tenant_units_def fun_eq_iff)
    show ?thesis
      unfolding walk_def run_reads(5) [OF at(1)] reply_pairs_def reply.case
      unfolding run_sum_held [OF at(2) num(1)] run_reads(7) [OF at(3)] target Let_def run_reads(3) [OF at(4)]
        reply_members_def reply.case run_read_infos [OF at(5) num(2)] tu
      by (simp add: ctx_of_def line_of_def units_in_use_def)
  qed
  also have "\<dots> = (case admit (ctx_of a ?now hp) (ca_me a) (line_of hp) (view_of K hp) of
         Granted i \<Rightarrow> run_lua redis_exec (grant_seat ks a (ctx_of a ?now hp) i) Kp
       | Refused \<Rightarrow> (refusal (ctx_of a ?now hp), Kp)
       | NotInLine \<Rightarrow> run_lua redis_exec (extend_all [hk_waiters ks, hk_waiter_exp ks, hk_waiter_info ks] (ca_keep a)
           (LRet (refusal (ctx_of a ?now hp)))) Kp)"
  proof -
    have at: "zset_at Kp k = zset_at K k" "str_at Kp k = str_at K k" if "k \<notin> host_key_set ks" for k
      using at_frame [of Kp k K] frame that Kp_now by simp_all
    have "zset_at Kp (wi_slot_key i) \<noteq> None \<and> str_at Kp (wi_delay_key i) \<noteq> None" if i: "(w, i) \<in> set (line_of hp)" for w i
    proof -
      have "zset_at K (wi_slot_key i) \<noteq> None \<and> str_at K (wi_delay_key i) \<noteq> None"
        using sites(1) i by (auto simp: sites_typed_def hp_def)
      moreover have "wi_slot_key i \<notin> host_key_set ks" "wi_delay_key i \<notin> host_key_set ks"
        using sites(2) i by (auto simp: hp_def)
      ultimately show ?thesis by (simp add: at)
    qed
    then have "sites_typed Kp (line_of hp)" by (auto simp: sites_typed_def)
    moreover have "\<forall>(w, i) \<in> set (line_of hp). wi_slot_key i \<in> - host_key_set ks \<and> wi_delay_key i \<in> - host_key_set ks"
      using sites(2) by (auto simp: hp_def)
    moreover have "memo_ok (- host_key_set ks) (lv_slots (view_of K hp)) (live_count Kp (cc_now (ctx_of a ?now hp))) []"
      "memo_ok (- host_key_set ks) (lv_next (view_of K hp)) (next_instant Kp) []"
      using frame Kp_now
      by (auto intro!: memo_ok_Nil live_count_frame [symmetric] next_instant_frame [symmetric]
          simp: view_of_def start_view_def ctx_of_def)
    ultimately have "run_lua redis_exec (claim_walk ks a (ctx_of a ?now hp) (line_of hp) (lv_sim (view_of K hp))
        (lv_tenant (view_of K hp)) [] []) Kp = (case admit (ctx_of a ?now hp) (ca_me a) (line_of hp) (view_of K hp) of
         Granted i \<Rightarrow> run_lua redis_exec (grant_seat ks a (ctx_of a ?now hp) i) Kp
       | Refused \<Rightarrow> (refusal (ctx_of a ?now hp), Kp)
       | NotInLine \<Rightarrow> run_lua redis_exec (extend_all [hk_waiters ks, hk_waiter_exp ks, hk_waiter_info ks] (ca_keep a)
           (LRet (refusal (ctx_of a ?now hp)))) Kp)"
      by (rule claim_walk_refines_admit)
    then show ?thesis by (simp only: view_of_def start_view_def line_view.simps)
  qed
  finally show ?thesis using relp Kp_now frame by blast
qed

subsection \<open>The grant\<close>

definition stat_add :: "string \<Rightarrow> int \<Rightarrow> (string \<times> rstr) list \<Rightarrow> (string \<times> rstr) list" where
  "stat_add f n hs = alist_put f (RInt ((case as_int (map_of hs f) of Some i \<Rightarrow> i | None \<Rightarrow> 0) + n)) hs"

lemma int_hash_stat_add [simp]: "int_hash hs \<Longrightarrow> int_hash (stat_add f n hs)"
  by (simp add: stat_add_def int_hash_put)

lemma run_HINCRBY:
  assumes "hash_at K k = Some hs" "int_hash hs"
  shows "run_lua redis_exec (LCall (HINCRBY k f n) g) K =
      run_lua redis_exec (g (fst (redis_exec (HINCRBY k f n) K))) (after (HINCRBY k f n) K)"
    "hash_at (after (HINCRBY k f n) K) k = Some (stat_add f n hs)"
proof -
  have "as_int (map_of hs f) \<noteq> None"
    using assms(2) by (cases "map_of hs f") (auto simp: int_hash_def as_int_def dest!: map_of_SomeD)
  with assms show "run_lua redis_exec (LCall (HINCRBY k f n) g) K =
      run_lua redis_exec (g (fst (redis_exec (HINCRBY k f n) K))) (after (HINCRBY k f n) K)"
    "hash_at (after (HINCRBY k f n) K) k = Some (stat_add f n hs)"
    by (auto simp: stat_add_def hash_at_put_hash)
qed

lemma run_extend_all:
  assumes "0 < ms"
  shows "run_lua redis_exec (extend_all keys ms k) K = run_lua redis_exec k (fold (\<lambda>key. ttl_extended key ms) keys K)"
  by (induction keys arbitrary: K) (simp_all add: run_extend_ttl [OF assms])

lemma fold_ttl_extended:
  assumes "0 < ms"
  shows "zset_at (fold (\<lambda>key. ttl_extended key ms) keys K) k = zset_at K k"
    "hash_at (fold (\<lambda>key. ttl_extended key ms) keys K) k = hash_at K k"
    "str_at (fold (\<lambda>key. ttl_extended key ms) keys K) k = str_at K k"
    "ks_now (fold (\<lambda>key. ttl_extended key ms) keys K) = ks_now K"
  by (induction keys arbitrary: K) (simp_all add: at_ttl_extended [OF assms])

lemma host_rel_cong:
  assumes "\<And>k. zset_at K' k = zset_at K k" "\<And>k. hash_at K' k = hash_at K k" "\<And>k. str_at K' k = str_at K k"
  shows "host_rel ks K' h \<longleftrightarrow> host_rel ks K h"
  by (simp add: host_rel_def assms)

definition granted :: "claim_args \<Rightarrow> int \<Rightarrow> waiter_info \<Rightarrow> host_state \<Rightarrow> host_state" where
  "granted a now i h = h\<lparr>hs_seats := zadd ZPlain (now + ca_lease_ttl a) (ca_lease a) (hs_seats h),
     hs_weight := alist_put (ca_lease a) (lua_tostring (wi_weight i)) (hs_weight h),
     hs_tenant := alist_put (ca_lease a) (RText (wi_tenant i)) (hs_tenant h),
     hs_waiters := alist_del (ca_me a) (hs_waiters h), hs_exp := alist_del (ca_me a) (hs_exp h),
     hs_info := alist_del (ca_me a) (hs_info h),
     hs_stats := stat_add (''wait_le_'' @ ca_wait_bucket a) 1
       (stat_add ''wait_ms_sum'' (ca_wait_ms a) (stat_add ''granted'' 1 (hs_stats h)))\<rparr>"

text \<open>The second half of a grant: out of the line, statistics, housekeeping.\<close>

lemma run_grant_finish:
  assumes ks: "keys_distinct ks" and rel: "host_rel ks K h" and ok: "int_hash (hs_stats h)" and keep: "0 < keep"
  shows "\<exists>K'. run_lua redis_exec
      (LCall (ZREM (hk_waiters ks) me) (\<lambda>_. LCall (ZREM (hk_waiter_exp ks) me) (\<lambda>_. LCall (HDEL (hk_waiter_info ks) me) (\<lambda>_.
       LCall (HINCRBY (hk_stats ks) ''granted'' 1) (\<lambda>_. LCall (HINCRBY (hk_stats ks) ''wait_ms_sum'' wait_ms) (\<lambda>_.
       LCall (HINCRBY (hk_stats ks) fld 1) (\<lambda>_. extend_all keys keep (LRet r)))))))) K = (r, K') \<and>
    host_rel ks K' (h\<lparr>hs_waiters := alist_del me (hs_waiters h), hs_exp := alist_del me (hs_exp h),
      hs_info := alist_del me (hs_info h), hs_stats := stat_add fld 1
        (stat_add ''wait_ms_sum'' wait_ms (stat_add ''granted'' 1 (hs_stats h)))\<rparr>) \<and> ks_now K' = ks_now K \<and>
    (\<forall>k. k \<notin> host_key_set ks \<longrightarrow> zset_at K' k = zset_at K k \<and> str_at K' k = str_at K k)"
proof -
  define K1 where "K1 = after (HDEL (hk_waiter_info ks) me) (after (ZREM (hk_waiter_exp ks) me) (after (ZREM (hk_waiters ks) me) K))"
  define K2 where "K2 = after (HINCRBY (hk_stats ks) ''granted'' 1) K1"
  define K3 where "K3 = after (HINCRBY (hk_stats ks) ''wait_ms_sum'' wait_ms) K2"
  define K4 where "K4 = after (HINCRBY (hk_stats ks) fld 1) K3"
  have st1: "hash_at K1 (hk_stats ks) = Some (hs_stats h)"
    using rel by (simp add: K1_def keyspace_simps host_rel_def keys_distinctD [OF ks] del: redis_exec.simps)
  have st2: "hash_at K2 (hk_stats ks) = Some (stat_add ''granted'' 1 (hs_stats h))"
    unfolding K2_def by (rule run_HINCRBY(2) [OF st1 ok])
  have st3: "hash_at K3 (hk_stats ks) = Some (stat_add ''wait_ms_sum'' wait_ms (stat_add ''granted'' 1 (hs_stats h)))"
    unfolding K3_def using ok by (intro run_HINCRBY(2) [OF st2]) simp
  have st4: "hash_at K4 (hk_stats ks) = Some (stat_add fld 1
      (stat_add ''wait_ms_sum'' wait_ms (stat_add ''granted'' 1 (hs_stats h))))"
    unfolding K4_def using ok by (intro run_HINCRBY(2) [OF st3]) simp
  have run: "run_lua redis_exec
      (LCall (ZREM (hk_waiters ks) me) (\<lambda>_. LCall (ZREM (hk_waiter_exp ks) me) (\<lambda>_. LCall (HDEL (hk_waiter_info ks) me) (\<lambda>_.
       LCall (HINCRBY (hk_stats ks) ''granted'' 1) (\<lambda>_. LCall (HINCRBY (hk_stats ks) ''wait_ms_sum'' wait_ms) (\<lambda>_.
       LCall (HINCRBY (hk_stats ks) fld 1) (\<lambda>_. extend_all keys keep (LRet r)))))))) K =
      (r, fold (\<lambda>key. ttl_extended key keep) keys K4)"
    using rel st1 st2 st3 ok
    by (simp add: run_writes run_HINCRBY(1) [OF st1 ok] run_HINCRBY(1) [OF st2] run_HINCRBY(1) [OF st3]
        keyspace_simps host_rel_def keys_distinctD [OF ks] K1_def [symmetric] K2_def [symmetric] K3_def [symmetric]
        K4_def [symmetric] run_extend_all [OF keep] del: redis_exec.simps run_lua.simps(2))
  have rel4: "host_rel ks K4 (h\<lparr>hs_waiters := alist_del me (hs_waiters h), hs_exp := alist_del me (hs_exp h),
      hs_info := alist_del me (hs_info h), hs_stats := stat_add fld 1
        (stat_add ''wait_ms_sum'' wait_ms (stat_add ''granted'' 1 (hs_stats h)))\<rparr>)"
    using rel st4
    by (simp add: K4_def K3_def K2_def K1_def keyspace_simps host_rel_def keys_distinctD [OF ks] del: redis_exec.simps)
  have other: "zset_at K4 k = zset_at K k" "str_at K4 k = str_at K k" if "k \<notin> host_key_set ks" for k
    using that by (simp_all add: K4_def K3_def K2_def K1_def keyspace_simps host_key_set_def del: redis_exec.simps)
  have "ks_now K4 = ks_now K" by (simp add: K4_def K3_def K2_def K1_def del: redis_exec.simps)
  with run rel4 other show ?thesis
    by (auto simp: fold_ttl_extended [OF keep] host_rel_def)
qed

theorem grant_seat_effect:
  assumes ks: "keys_distinct ks" and rel: "host_rel ks K h" and ok: "int_hash (hs_stats h)"
    and pos: "0 < ca_keep a" "0 < ca_lease_ttl a"
    and site: "wi_slot_key i \<notin> host_key_set ks" "wi_delay_key i \<notin> host_key_set ks" "wi_slot_key i \<noteq> wi_delay_key i"
    and z: "zset_at K (wi_slot_key i) = Some z"
  shows "\<exists>K'. run_lua redis_exec (grant_seat ks a c i) K =
      (RStrings [RInt 1, lua_tostring (cc_in_use c + wi_weight i), lua_tostring (cc_target c), RInt (int (cc_line c) - 1)], K') \<and>
    host_rel ks K' (granted a (cc_now c) i h) \<and> ks_now K' = ks_now K \<and>
    zset_at K' (wi_slot_key i) = Some (zadd ZPlain (cc_now c + ca_lease_ttl a) (ca_lease a) z) \<and>
    str_at K' (wi_delay_key i) = (if 0 < wi_delay_ms i then Some (Some (RInt (cc_now c + wi_delay_ms i)))
      else str_at K (wi_delay_key i)) \<and>
    (\<forall>k. k \<notin> host_key_set ks \<and> k \<noteq> wi_slot_key i \<and> k \<noteq> wi_delay_key i \<longrightarrow>
      zset_at K' k = zset_at K k \<and> str_at K' k = str_at K k)"
proof -
  let ?now = "cc_now c" and ?ttl = "ca_lease_ttl a" and ?slot = "wi_slot_key i" and ?delay = "wi_delay_key i"
  define K1 where "K1 = after (HSET (hk_seat_tenant ks) (ca_lease a) (RText (wi_tenant i)))
    (after (HSET (hk_seat_weight ks) (ca_lease a) (lua_tostring (wi_weight i)))
      (after (ZADD (hk_seats ks) ZPlain (?now + ?ttl) (ca_lease a)) K))"
  define K2 where "K2 = ttl_extended ?slot ?ttl (after (ZADD ?slot ZPlain (?now + ?ttl) (ca_lease a)) K1)"
  define K3 where "K3 = (if 0 < wi_delay_ms i
    then after (SET ?delay (RInt (?now + wi_delay_ms i)) (Some (max 60000 (wi_delay_ms i * 4))) False) K2 else K2)"
  have ne: "k \<noteq> ?slot" "?slot \<noteq> k" "k \<noteq> ?delay" "?delay \<noteq> k" if "k \<in> host_key_set ks" for k
    using site that by auto
  have mem: "hk_seats ks \<in> host_key_set ks" "hk_seat_weight ks \<in> host_key_set ks" "hk_seat_tenant ks \<in> host_key_set ks"
    "hk_waiters ks \<in> host_key_set ks" "hk_waiter_exp ks \<in> host_key_set ks" "hk_waiter_info ks \<in> host_key_set ks"
    "hk_target ks \<in> host_key_set ks" "hk_stats ks \<in> host_key_set ks"
    by (simp_all add: host_key_set_def)
  note nes = ne [OF mem(1)] ne [OF mem(2)] ne [OF mem(3)] ne [OF mem(4)] ne [OF mem(5)] ne [OF mem(6)] ne [OF mem(7)] ne [OF mem(8)]
  define h1 where "h1 = h\<lparr>hs_seats := zadd ZPlain (?now + ?ttl) (ca_lease a) (hs_seats h),
     hs_weight := alist_put (ca_lease a) (lua_tostring (wi_weight i)) (hs_weight h),
     hs_tenant := alist_put (ca_lease a) (RText (wi_tenant i)) (hs_tenant h)\<rparr>"
  have rel1: "host_rel ks K1 h1"
    using rel by (simp add: K1_def h1_def keyspace_simps host_rel_def keys_distinctD [OF ks] del: redis_exec.simps)
  have z1: "zset_at K1 ?slot = Some z"
    using z by (simp add: K1_def keyspace_simps nes del: redis_exec.simps)
  have rel2: "host_rel ks K2 h1"
    using rel1 by (simp add: K2_def keyspace_simps host_rel_def nes pos del: redis_exec.simps)
  have rel3: "host_rel ks K3 h1"
    using rel2 by (simp add: K3_def keyspace_simps host_rel_def nes del: redis_exec.simps)
  have now: "ks_now K3 = ks_now K"
    by (simp add: K3_def K2_def K1_def keyspace_simps pos del: redis_exec.simps)
  have slot3: "zset_at K3 ?slot = Some (zadd ZPlain (?now + ?ttl) (ca_lease a) z)"
    using z1 site(3) by (simp add: K3_def K2_def keyspace_simps pos del: redis_exec.simps)
  have delay3: "str_at K3 ?delay = (if 0 < wi_delay_ms i then Some (Some (RInt (?now + wi_delay_ms i))) else str_at K ?delay)"
  proof (cases "0 < wi_delay_ms i")
    case True
    then show ?thesis by (simp add: K3_def str_at_put_str)
  next
    case False
    then show ?thesis using site(3) by (simp add: K3_def K2_def K1_def keyspace_simps pos nes del: redis_exec.simps)
  qed
  have other3: "zset_at K3 k = zset_at K k" "str_at K3 k = str_at K k"
    if "k \<notin> host_key_set ks" "k \<noteq> ?slot" "k \<noteq> ?delay" for k
    using that by (simp_all add: K3_def K2_def K1_def keyspace_simps pos host_key_set_def del: redis_exec.simps)
  define fin where "fin =
      LCall (ZREM (hk_waiters ks) (ca_me a)) (\<lambda>_. LCall (ZREM (hk_waiter_exp ks) (ca_me a)) (\<lambda>_.
      LCall (HDEL (hk_waiter_info ks) (ca_me a)) (\<lambda>_. LCall (HINCRBY (hk_stats ks) ''granted'' 1) (\<lambda>_.
      LCall (HINCRBY (hk_stats ks) ''wait_ms_sum'' (ca_wait_ms a)) (\<lambda>_.
      LCall (HINCRBY (hk_stats ks) (''wait_le_'' @ ca_wait_bucket a) 1) (\<lambda>_.
      extend_all [hk_seats ks, hk_seat_weight ks, hk_seat_tenant ks, hk_waiters ks, hk_waiter_exp ks,
            hk_waiter_info ks, hk_stats ks] (ca_keep a)
          (LRet (RStrings [RInt 1, lua_tostring (cc_in_use c + wi_weight i), lua_tostring (cc_target c),
             RInt (int (cc_line c) - 1)]))))))))"
  have "run_lua redis_exec (grant_seat ks a c i) K = run_lua redis_exec fin K3"
    using rel z1 unfolding grant_seat_def Let_def fin_def [symmetric]
    by (simp add: run_writes run_extend_ttl [OF pos(2)] keyspace_simps host_rel_def keys_distinctD [OF ks] K1_def [symmetric]
        K2_def [symmetric] K3_def del: redis_exec.simps run_lua.simps(2))
  moreover have "int_hash (hs_stats h1)" using ok by (simp add: h1_def)
  ultimately show ?thesis
    using run_grant_finish [OF ks rel3 _ pos(1), of "ca_me a" "ca_wait_ms a" "''wait_le_'' @ ca_wait_bucket a"
        "[hk_seats ks, hk_seat_weight ks, hk_seat_tenant ks, hk_waiters ks, hk_waiter_exp ks, hk_waiter_info ks, hk_stats ks]"
        "RStrings [RInt 1, lua_tostring (cc_in_use c + wi_weight i), lua_tostring (cc_target c), RInt (int (cc_line c) - 1)]"]
      now slot3 delay3 other3 site
    unfolding fin_def [symmetric] by (auto simp: granted_def h1_def)
qed

subsection \<open>One claim\<close>

text \<open>
  What a claim may rely on: the host's keys are of their types with the values the scripts write
  there, the websites' keys are no host keys, weights are positive (the configuration requires
  it) and the lease identifier, a fresh UUID, names no held seat or slot.
\<close>

definition claim_ready :: "host_keys \<Rightarrow> claim_args \<Rightarrow> waiter_info \<Rightarrow> keyspace \<Rightarrow> host_state \<Rightarrow> bool" where
  "claim_ready ks a i K h \<longleftrightarrow> keys_distinct ks \<and> host_rel ks K h \<and> host_ok h \<and> ca_info a = info_dumps i \<and>
     0 < ca_keep a \<and> 0 < ca_lease_ttl a \<and> ca_lease a \<notin> fst ` set (hs_weight h) \<and>
     (\<forall>(l, v) \<in> set (hs_weight h). 0 \<le> seat_units v) \<and>
     sites_typed K (line_of (prepared a (ks_now K) h)) \<and>
     (\<forall>(w, j) \<in> set (line_of (prepared a (ks_now K) h)). 0 < wi_weight j \<and> wi_slot_key j \<noteq> wi_delay_key j \<and>
        wi_slot_key j \<notin> host_key_set ks \<and> wi_delay_key j \<notin> host_key_set ks \<and>
        (\<forall>z. zset_at K (wi_slot_key j) = Some z \<longrightarrow> ca_lease a \<notin> fst ` set z))"

definition claim_verdict :: "claim_args \<Rightarrow> keyspace \<Rightarrow> host_state \<Rightarrow> verdict" where
  "claim_verdict a K h = (let hp = prepared a (ks_now K) h in
     admit (ctx_of a (ks_now K) hp) (ca_me a) (line_of hp) (view_of K hp))"

definition older_eligible :: "claim_args \<Rightarrow> keyspace \<Rightarrow> host_state \<Rightarrow> waiter_info list" where
  "older_eligible a K h = (let hp = prepared a (ks_now K) h in
     charged (ctx_of a (ks_now K) hp) (ca_me a) (line_of hp) (view_of K hp))"

definition claim_call :: "host_keys \<Rightarrow> claim_args \<Rightarrow> reply prog" where
  "claim_call ks a = hc_eval (CLAIM_LUA ks a) Return"

lemma me_in_line:
  assumes "claim_ready ks a i K h"
  shows "ca_me a \<in> fst ` set (line_of (prepared a (ks_now K) h))"
proof -
  let ?hp = "prepared a (ks_now K) h"
  have "map_of (hs_info ?hp) (ca_me a) = Some (info_dumps i)"
    using assms by (simp add: claim_ready_def prepared_def joined_def Let_def)
  moreover have "ca_me a \<in> set (zorder (hs_waiters ?hp))"
    by (simp add: prepared_def joined_def Let_def zadd_member)
  ultimately have "(ca_me a, i) \<in> set (line_of ?hp)"
    unfolding line_of_def infos_of_def List.map_filter_def by (auto intro!: image_eqI [of _ _ "ca_me a"])
  then show ?thesis by force
qed

lemma claim_ready_weights:
  assumes "claim_ready ks a i K h"
  shows "weights_ok (line_of (prepared a (ks_now K) h))" "0 \<le> units_in_use (prepared a (ks_now K) h)"
    "0 \<le> tenant_units (prepared a (ks_now K) h) t"
proof -
  let ?hp = "prepared a (ks_now K) h"
  show "weights_ok (line_of ?hp)" using assms by (auto simp: claim_ready_def weights_ok_def)
  have "set (hs_weight ?hp) \<subseteq> set (hs_weight h)"
    by (auto simp: prepared_def joined_def purged_seats_def purged_waiters_def Let_def drop_all_filter)
  then have "0 \<le> seat_units v" if "(l, v) \<in> set (hs_weight ?hp)" for l v
    using assms that by (auto simp: claim_ready_def)
  then show "0 \<le> units_in_use ?hp" "0 \<le> tenant_units ?hp t"
    unfolding units_in_use_def tenant_units_def by (auto intro!: sum_list_nonneg)
qed

lemma units_granted:
  assumes "claim_ready ks a i K h"
  shows "units_in_use (granted a now j (prepared a (ks_now K) h)) =
    units_in_use (prepared a (ks_now K) h) + wi_weight j"
proof -
  have "ca_lease a \<notin> fst ` set (hs_weight (prepared a (ks_now K) h))"
    using assms by (auto simp: claim_ready_def prepared_def joined_def purged_seats_def purged_waiters_def Let_def
        drop_all_filter image_iff)
  then show ?thesis
    by (simp add: units_in_use_def granted_def alist_put_def seat_units_def)
qed

text \<open>The outcome of one call on the reference keyspace.\<close>

lemma run_claim_call:
  assumes ready: "claim_ready ks a i K h"
  defines "hp \<equiv> prepared a (ks_now K) h"
  shows "\<exists>K'. run mem_server (claim_call ks a) [] K =
      (Inr (case claim_verdict a K h of
         Granted j \<Rightarrow> RStrings [RInt 1, lua_tostring (units_in_use hp + wi_weight j), lua_tostring (target_of a hp),
           RInt (int (length (hs_waiters hp)) - 1)]
       | _ \<Rightarrow> refusal (ctx_of a (ks_now K) hp)), K') \<and> ks_now K' = ks_now K \<and>
    (case claim_verdict a K h of
       Granted j \<Rightarrow> host_rel ks K' (granted a (ks_now K) j hp) \<and>
         (\<exists>z. zset_at K (wi_slot_key j) = Some z \<and>
            zset_at K' (wi_slot_key j) = Some (zadd ZPlain (ks_now K + ca_lease_ttl a) (ca_lease a) z)) \<and>
         (0 < wi_delay_ms j \<longrightarrow> str_at K' (wi_delay_key j) = Some (Some (RInt (ks_now K + wi_delay_ms j)))) \<and>
         (\<forall>k. k \<notin> host_key_set ks \<and> k \<noteq> wi_slot_key j \<and> k \<noteq> wi_delay_key j \<longrightarrow>
            zset_at K' k = zset_at K k \<and> str_at K' k = str_at K k)
     | _ \<Rightarrow> host_rel ks K' hp \<and> (\<forall>k. k \<notin> host_key_set ks \<longrightarrow> zset_at K' k = zset_at K k \<and> str_at K' k = str_at K k))"
proof -
  have r: "keys_distinct ks" "host_rel ks K h" "host_ok h" "ca_info a = info_dumps i" "0 < ca_keep a" "0 < ca_lease_ttl a"
    "sites_typed K (line_of hp)"
    "\<forall>(w, j) \<in> set (line_of hp). wi_slot_key j \<notin> host_key_set ks \<and> wi_delay_key j \<notin> host_key_set ks"
    using ready by (auto simp: claim_ready_def hp_def)
  let ?ctx = "ctx_of a (ks_now K) hp"
  obtain Kp where Kp: "host_rel ks Kp hp" "ks_now Kp = ks_now K" "\<forall>k. k \<notin> host_key_set ks \<longrightarrow> ks_db Kp k = ks_db K k"
    "run_lua redis_exec (CLAIM_LUA ks a) K =
      (case admit ?ctx (ca_me a) (line_of hp) (view_of K hp) of
         Granted i \<Rightarrow> run_lua redis_exec (grant_seat ks a ?ctx i) Kp
       | Refused \<Rightarrow> (refusal ?ctx, Kp)
       | NotInLine \<Rightarrow> run_lua redis_exec (extend_all [hk_waiters ks, hk_waiter_exp ks, hk_waiter_info ks] (ca_keep a)
           (LRet (refusal ?ctx))) Kp)"
    using CLAIM_refines [OF r(1-4)] r(7,8) unfolding hp_def by blast
  have same: "zset_at Kp k = zset_at K k" "str_at Kp k = str_at K k" if "k \<notin> host_key_set ks" for k
    using Kp(2,3) that at_frame [of Kp k K] by simp_all
  have verdict: "claim_verdict a K h = admit ?ctx (ca_me a) (line_of hp) (view_of K hp)"
    by (simp add: claim_verdict_def hp_def Let_def)
  have call: "run mem_server (claim_call ks a) [] K = (Inr (fst (run_lua redis_exec (CLAIM_LUA ks a) K)),
      snd (run_lua redis_exec (CLAIM_LUA ks a) K))"
    if "fst (run_lua redis_exec (CLAIM_LUA ks a) K) \<noteq> RErr"
    using that by (simp add: claim_call_def hc_eval_def transact_answered split: prod.splits)
  show ?thesis
  proof (cases "claim_verdict a K h")
    case (Granted j)
    then have "(ca_me a, j) \<in> set (line_of hp)"
      using admit_granted_info verdict by (metis map_of_SomeD)
    then have site: "wi_slot_key j \<notin> host_key_set ks" "wi_delay_key j \<notin> host_key_set ks"
      "wi_slot_key j \<noteq> wi_delay_key j" "zset_at K (wi_slot_key j) \<noteq> None"
      using ready r(7) by (auto simp: claim_ready_def hp_def sites_typed_def)
    then obtain z where z: "zset_at Kp (wi_slot_key j) = Some z" by (auto simp: same)
    have stats: "int_hash (hs_stats hp)"
      using host_ok_prepared [OF r(3,4), of "ks_now K"] by (simp add: host_ok_def hp_def)
    from grant_seat_effect [OF r(1) Kp(1) stats r(5,6) site(1-3) z, of ?ctx] obtain K' where
      K': "run_lua redis_exec (grant_seat ks a ?ctx j) Kp =
        (RStrings [RInt 1, lua_tostring (units_in_use hp + wi_weight j), lua_tostring (target_of a hp),
           RInt (int (length (hs_waiters hp)) - 1)], K')"
      "host_rel ks K' (granted a (ks_now K) j hp)" "ks_now K' = ks_now K"
      "zset_at K' (wi_slot_key j) = Some (zadd ZPlain (ks_now K + ca_lease_ttl a) (ca_lease a) z)"
      "str_at K' (wi_delay_key j) = (if 0 < wi_delay_ms j then Some (Some (RInt (ks_now K + wi_delay_ms j)))
        else str_at Kp (wi_delay_key j))"
      "\<forall>k. k \<notin> host_key_set ks \<and> k \<noteq> wi_slot_key j \<and> k \<noteq> wi_delay_key j \<longrightarrow>
        zset_at K' k = zset_at Kp k \<and> str_at K' k = str_at Kp k"
      using Kp(2) by (auto simp: ctx_of_def)
    from Granted verdict Kp(4) K'(1) have "run_lua redis_exec (CLAIM_LUA ks a) K =
        (RStrings [RInt 1, lua_tostring (units_in_use hp + wi_weight j), lua_tostring (target_of a hp),
           RInt (int (length (hs_waiters hp)) - 1)], K')" by simp
    with call K' z Granted site(1) show ?thesis by (auto simp: same)
  next
    case Refused
    with verdict Kp(4) have "run_lua redis_exec (CLAIM_LUA ks a) K = (refusal ?ctx, Kp)" by simp
    with call Refused Kp(1,2) show ?thesis by (auto simp: same refusal_def)
  next
    case NotInLine
    then have "ca_me a \<notin> fst ` set (line_of hp)" using verdict admit_in_line by metis
    with me_in_line [OF ready] show ?thesis by (simp add: hp_def)
  qed
qed

subsection \<open>Properties\<close>

lemma claim_outcome:
  assumes "redis_server sv view" "claim_ready ks a i (view s) h"
    and "run sv (claim_call ks a) [] s = (r, s')"
  defines "K \<equiv> view s"
  defines "hp \<equiv> prepared a (ks_now K) h"
  shows "case claim_verdict a K h of
      Granted j \<Rightarrow> (\<exists>rest. r = Inr (RStrings (RInt 1 # rest))) \<and> host_rel ks (view s') (granted a (ks_now K) j hp) \<and>
        (\<exists>z. zset_at K (wi_slot_key j) = Some z \<and>
           zset_at (view s') (wi_slot_key j) = Some (zadd ZPlain (ks_now K + ca_lease_ttl a) (ca_lease a) z)) \<and>
        (0 < wi_delay_ms j \<longrightarrow> str_at (view s') (wi_delay_key j) = Some (Some (RInt (ks_now K + wi_delay_ms j))))
    | _ \<Rightarrow> (\<exists>rest. r = Inr (RStrings (RInt 0 # rest))) \<and> host_rel ks (view s') hp \<and>
        (\<forall>k. k \<notin> host_key_set ks \<longrightarrow> zset_at (view s') k = zset_at K k \<and> str_at (view s') k = str_at K k)"
proof -
  have "run mem_server (claim_call ks a) [] K = (r, view s')"
    using redis_server.run_sim [OF assms(1), of "claim_call ks a" "[]" s] assms(3)
    by (metis K_def fst_conv prod.collapse snd_conv)
  with run_claim_call [OF assms(2)] show ?thesis
    unfolding K_def hp_def by (auto simp: refusal_def split: verdict.splits)
qed

lemma claim_granted:
  assumes "redis_server sv view" "claim_ready ks a i (view s) h"
    and "run sv (claim_call ks a) [] s = (Inr (RStrings (RInt 1 # rest)), s')"
  obtains j where "claim_verdict a (view s) h = Granted j"
    "host_rel ks (view s') (granted a (ks_now (view s)) j (prepared a (ks_now (view s)) h))"
    "\<exists>z. zset_at (view s) (wi_slot_key j) = Some z \<and>
       zset_at (view s') (wi_slot_key j) = Some (zadd ZPlain (ks_now (view s) + ca_lease_ttl a) (ca_lease a) z)"
    "ks_now (view s') = ks_now (view s)"
proof -
  have run: "run mem_server (claim_call ks a) [] (view s) = (Inr (RStrings (RInt 1 # rest)), view s')"
    using redis_server.run_sim [OF assms(1), of "claim_call ks a" "[]" s] assms(3)
    by (metis fst_conv prod.collapse snd_conv)
  obtain K' where K': "run mem_server (claim_call ks a) [] (view s) =
      (Inr (case claim_verdict a (view s) h of
         Granted j \<Rightarrow> RStrings [RInt 1, lua_tostring (units_in_use (prepared a (ks_now (view s)) h) + wi_weight j),
           lua_tostring (target_of a (prepared a (ks_now (view s)) h)),
           RInt (int (length (hs_waiters (prepared a (ks_now (view s)) h))) - 1)]
       | _ \<Rightarrow> refusal (ctx_of a (ks_now (view s)) (prepared a (ks_now (view s)) h))), K')" "ks_now K' = ks_now (view s)"
    using run_claim_call [OF assms(2)] by blast
  with run obtain j where j: "claim_verdict a (view s) h = Granted j"
    by (cases "claim_verdict a (view s) h") (auto simp: refusal_def)
  with K' run have "ks_now (view s') = ks_now (view s)" by auto
  with claim_outcome [OF assms(1,2,3)] j that show ?thesis by (simp split: verdict.splits)
qed

text \<open>
  \<^bold>\<open>C11\<close>. A claim is decided by the scheduler and is all or nothing. On any server that behaves as
  Redis documents, the script's answer is \<open>1\<close> exactly when the scheduler grants; then the seat with
  its weight and tenant, the website's slot and its delay are all taken, and the caller is out of
  the line; otherwise no website key changes and no seat is added (only lapsed seats and waiters
  are gone and the caller stands in line).
\<close>

theorem host_claim_all_or_nothing:
  assumes "redis_server sv view" "claim_ready ks a i (view s) h"
    and "run sv (claim_call ks a) [] s = (r, s')"
  defines "K \<equiv> view s"
  defines "hp \<equiv> prepared a (ks_now K) h"
  shows "case claim_verdict a K h of
      Granted j \<Rightarrow> (\<exists>rest. r = Inr (RStrings (RInt 1 # rest))) \<and> host_rel ks (view s') (granted a (ks_now K) j hp) \<and>
        (\<exists>z. zset_at K (wi_slot_key j) = Some z \<and>
           zset_at (view s') (wi_slot_key j) = Some (zadd ZPlain (ks_now K + ca_lease_ttl a) (ca_lease a) z)) \<and>
        (0 < wi_delay_ms j \<longrightarrow> str_at (view s') (wi_delay_key j) = Some (Some (RInt (ks_now K + wi_delay_ms j))))
    | _ \<Rightarrow> (\<exists>rest. r = Inr (RStrings (RInt 0 # rest))) \<and> host_rel ks (view s') hp \<and>
        (\<forall>k. k \<notin> host_key_set ks \<longrightarrow> zset_at (view s') k = zset_at K k \<and> str_at (view s') k = str_at K k)"
  using claim_outcome [OF assms(1-3)] unfolding K_def hp_def .

text \<open>
  \<^bold>\<open>C12\<close>. The host's budget. After a granted claim the units in use fit the target together with
  those of every older waiter that could claim at that moment, so the grant takes nobody's room;
  the one exception is the first render on an idle host, admitted whatever its weight.
\<close>

theorem host_budget_respected:
  assumes "redis_server sv view" "claim_ready ks a i (view s) h"
    and "run sv (claim_call ks a) [] s = (Inr (RStrings (RInt 1 # rest)), s')"
  defines "hp \<equiv> prepared a (ks_now (view s)) h"
  shows "\<exists>h'. host_rel ks (view s') h' \<and>
    (units_in_use h' + sum_list (map wi_weight (older_eligible a (view s) h)) \<le> target_of a hp \<or>
     units_in_use hp = 0 \<and> older_eligible a (view s) h = [])"
proof -
  obtain j where j: "claim_verdict a (view s) h = Granted j"
    "host_rel ks (view s') (granted a (ks_now (view s)) j hp)"
    unfolding hp_def by (rule claim_granted [OF assms(1-3)])
  have "units_in_use hp = 0 \<and> older_eligible a (view s) h = [] \<or>
      units_in_use hp + sum_list (map wi_weight (older_eligible a (view s) h)) + wi_weight j \<le> target_of a hp"
    using admit_budget [OF j(1) [unfolded claim_verdict_def Let_def view_of_def] claim_ready_weights(1,2) [OF assms(2)]]
    by (simp add: older_eligible_def Let_def view_of_def hp_def ctx_of_def)
  with units_granted [OF assms(2), of "ks_now (view s)" j] j(2) show ?thesis
    by (intro exI [of _ "granted a (ks_now (view s)) j hp"]) (auto simp: hp_def)
qed

text \<open>
  \<^bold>\<open>C13\<close>. The website's limits. A granted claim found fewer live slots on its website than the cap
  it asked for, also counting every older waiter of that website that could claim now, leaves at
  most that many live, and came no earlier than the website's next allowed instant.
\<close>

theorem host_site_limits:
  assumes "redis_server sv view" "claim_ready ks a i (view s) h"
    and "run sv (claim_call ks a) [] s = (Inr (RStrings (RInt 1 # rest)), s')"
  shows "\<exists>j. claim_verdict a (view s) h = Granted j \<and>
    live_count (view s') (ks_now (view s')) (wi_slot_key j) +
      int (length (filter (\<lambda>o'. wi_slot_key o' = wi_slot_key j) (older_eligible a (view s) h))) \<le> wi_cap j \<and>
    next_instant (view s) (wi_delay_key j) \<le> of_int (ks_now (view s))"
proof -
  let ?now = "ks_now (view s)" and ?hp = "prepared a (ks_now (view s)) h"
  obtain j z where j: "claim_verdict a (view s) h = Granted j" "zset_at (view s) (wi_slot_key j) = Some z"
    "zset_at (view s') (wi_slot_key j) = Some (zadd ZPlain (?now + ca_lease_ttl a) (ca_lease a) z)"
    "ks_now (view s') = ?now"
    using claim_granted [OF assms(1-3)] by metis
  have "(ca_me a, j) \<in> set (line_of ?hp)"
    using j(1) admit_granted_info unfolding claim_verdict_def Let_def by (metis map_of_SomeD)
  with assms(2) j(2) have "ca_lease a \<notin> fst ` set z" unfolding claim_ready_def by blast
  then have "live_count (view s') (ks_now (view s')) (wi_slot_key j) \<le> live_count (view s) ?now (wi_slot_key j) + 1"
    using j by (simp add: live_count_def zadd_def alist_put_def)
  moreover note admit_site [OF j(1) [unfolded claim_verdict_def Let_def view_of_def]]
  ultimately show ?thesis
    using j(1) by (intro exI [of _ j]) (auto simp: older_eligible_def Let_def view_of_def ctx_of_def)
qed

text \<open>
  \<^bold>\<open>C14\<close>: the tenant's share. While waiters of more than one tenant are in line, a granted claim
  leaves its tenant, together with that tenant's older waiters that could claim now, within the
  share \<open>ceil(target * share)\<close> (at least 1), unless the tenant held nothing before.
\<close>

theorem host_tenant_share:
  assumes "redis_server sv view" "claim_ready ks a i (view s) h"
    and "run sv (claim_call ks a) [] s = (Inr (RStrings (RInt 1 # rest)), s')"
  defines "hp \<equiv> prepared a (ks_now (view s)) h"
  assumes "1 < n_tenants (line_of hp)"
  shows "\<exists>j. claim_verdict a (view s) h = Granted j \<and>
    (let held = tenant_units hp (RText (wi_tenant j)) +
         sum_list (map wi_weight (filter (\<lambda>o'. wi_tenant o' = wi_tenant j) (older_eligible a (view s) h)))
     in held = 0 \<or> held + wi_weight j \<le> share_cap (target_of a hp) (ca_share a))"
proof -
  obtain j where j: "claim_verdict a (view s) h = Granted j" using claim_granted [OF assms(1-3)] by metis
  from admit_share [OF this [unfolded claim_verdict_def Let_def view_of_def] claim_ready_weights(1) [OF assms(2)] _
      claim_ready_weights(3) [OF assms(2)]] assms(5) j
  show ?thesis
    by (intro exI [of _ j]) (auto simp: older_eligible_def Let_def view_of_def ctx_of_def hp_def)
qed

text \<open>
  No deadlock on an idle host. If no seat is held, the caller's website has a free slot and
  is past its delay, and no older waiter's website is free, the claim is granted, whatever its
  weight and the target.
\<close>

theorem host_idle_admits:
  assumes "redis_server sv view" "claim_ready ks a i (view s) h"
  defines "hp \<equiv> prepared a (ks_now (view s)) h"
  assumes "hs_weight hp = []" "line_of hp = older @ (ca_me a, j) # younger"
    and "\<forall>(w, o') \<in> set older. w \<noteq> ca_me a \<and> \<not> site_free (ctx_of a (ks_now (view s)) hp) (view_of (view s) hp) o'"
    and "site_free (ctx_of a (ks_now (view s)) hp) (view_of (view s) hp) j"
  shows "\<exists>rest. fst (run sv (claim_call ks a) [] s) = Inr (RStrings (RInt 1 # rest))"
proof -
  let ?c = "ctx_of a (ks_now (view s)) hp" and ?v = "view_of (view s) hp"
  have skip: "admit ?c (ca_me a) (xs @ ys) ?v = admit ?c (ca_me a) ys ?v"
    if "\<forall>(w, o') \<in> set xs. w \<noteq> ca_me a \<and> \<not> site_free ?c ?v o'" for xs ys
    using that by (induction xs) (auto simp: eligible_def)
  have "fits ?c (lv_sim ?v) (lv_tenant ?v) j"
    using assms(4) by (simp add: fits_def view_of_def start_view_def units_in_use_def tenant_units_def)
  with assms(7) have "admit ?c (ca_me a) ((ca_me a, j) # younger) ?v = Granted j" by (simp add: eligible_def)
  with skip [OF assms(6)] assms(5) have "claim_verdict a (view s) h = Granted j"
    by (simp add: claim_verdict_def hp_def Let_def)
  with run_claim_call [OF assms(2)] show ?thesis
    unfolding redis_server.run_result [OF assms(1)] by auto
qed

subsection \<open>A concrete host\<close>

text \<open>One seat held by tenant \<open>acme\<close>, one older waiter of tenant \<open>beta\<close>, and a claim of \<open>acme\<close>.\<close>

definition demo_admission :: host_admission where
  "demo_admission = host_admission_init ''h1'' host_capacity_defaults (Some 4) None"

definition demo_keys :: host_keys where
  "demo_keys = host_keys_of ''h1''"

definition demo_args :: claim_args where
  "demo_args = claim_args_of demo_admission (claim_info ''acme'' ''a.com'' 1 2 5) ''w1'' ''l1'' 10 0"

definition demo_host :: host_state where
  "demo_host = \<lparr>hs_seats = [(''l0'', 90000)], hs_weight = [(''l0'', RInt 1)], hs_tenant = [(''l0'', RText ''acme'')],
     hs_waiters = [(''w0'', 5)], hs_exp = [(''w0'', 9000)], hs_info = [(''w0'', info_dumps (claim_info ''beta'' ''b.com'' 1 2 5))],
     hs_target = None, hs_stats = []\<rparr>"

definition demo_keyspace :: keyspace where
  "demo_keyspace =
     put_zset (hk_seats demo_keys) (hs_seats demo_host) (put_hash (hk_seat_weight demo_keys) (hs_weight demo_host)
     (put_hash (hk_seat_tenant demo_keys) (hs_tenant demo_host) (put_zset (hk_waiters demo_keys) (hs_waiters demo_host)
     (put_zset (hk_waiter_exp demo_keys) (hs_exp demo_host) (put_hash (hk_waiter_info demo_keys) (hs_info demo_host)
       empty_keyspace)))))"

lemmas demo_defs = demo_admission_def demo_keys_def demo_args_def demo_host_def host_admission_init_def
  host_keys_of_def claim_args_of_def host_capacity_defaults_def claim_info_def slot_key_def delay_key_def
  HOST_KEY_TTL_MS_def trunc_int_def

lemma demo_prepared:
  "prepared demo_args 0 demo_host = demo_host\<lparr>hs_waiters := [(''w0'', 5), (''w1'', 10)],
     hs_exp := [(''w0'', 9000), (''w1'', 10000)],
     hs_info := [(''w0'', info_dumps (claim_info ''beta'' ''b.com'' 1 2 5)), (''w1'', info_dumps (claim_info ''acme'' ''a.com'' 1 2 5))]\<rparr>"
  by (simp add: prepared_def purged_seats_def purged_waiters_def joined_def demo_host_def demo_args_def claim_args_of_def
      zorder_def drop_all_def zadd_def alist_put_def demo_admission_def host_admission_init_def host_capacity_defaults_def
      Let_def)

lemma demo_line:
  "line_of (prepared demo_args 0 demo_host) =
     [(''w0'', claim_info ''beta'' ''b.com'' 1 2 5), (''w1'', claim_info ''acme'' ''a.com'' 1 2 5)]"
  by (simp add: demo_prepared line_of_def infos_of_def zorder_def map_filter_simps)

lemma demo_now: "ks_now demo_keyspace = 0"
  by (simp add: demo_keyspace_def)

lemma demo_rel: "host_rel demo_keys demo_keyspace demo_host"
proof -
  have ks: "keys_distinct demo_keys" by (simp add: demo_keys_def)
  show ?thesis
    by (simp add: host_rel_def demo_keyspace_def keyspace_simps keys_distinctD [OF ks]) (simp add: demo_host_def)
qed

lemma demo_sites:
  "zset_at demo_keyspace (slot_key d t) = Some []" "str_at demo_keyspace (delay_key d t) = Some None"
  by (simp_all add: demo_keyspace_def keyspace_simps demo_keys_def host_keys_of_def Let_def slot_key_def delay_key_def)

lemma demo_ready: "claim_ready demo_keys demo_args (claim_info ''acme'' ''a.com'' 1 2 5) demo_keyspace demo_host"
proof -
  have ks: "keys_distinct demo_keys" by (simp add: demo_keys_def)
  have ok: "host_ok demo_host"
    by (simp add: host_ok_def demo_host_def numeric_hash_def info_hash_def int_hash_def as_num_def)
  have args: "ca_info demo_args = info_dumps (claim_info ''acme'' ''a.com'' 1 2 5)" "0 < ca_keep demo_args"
    "0 < ca_lease_ttl demo_args" "ca_lease demo_args = ''l1''"
    by (simp_all add: demo_args_def claim_args_of_def HOST_KEY_TTL_MS_def demo_admission_def
        host_admission_init_def host_capacity_defaults_def Let_def)
  have seats: "ca_lease demo_args \<notin> fst ` set (hs_weight demo_host)" "\<forall>(l, v) \<in> set (hs_weight demo_host). 0 \<le> seat_units v"
    by (simp_all add: args demo_host_def seat_units_def as_num_def)
  have site: "wi_slot_key (claim_info t d 1 2 5) \<noteq> wi_delay_key (claim_info t d 1 2 5)"
    "wi_slot_key (claim_info t d 1 2 5) \<notin> host_key_set demo_keys"
    "wi_delay_key (claim_info t d 1 2 5) \<notin> host_key_set demo_keys"
    "zset_at demo_keyspace (wi_slot_key (claim_info t d 1 2 5)) = Some []"
    "str_at demo_keyspace (wi_delay_key (claim_info t d 1 2 5)) = Some None"
    "wi_weight (claim_info t d 1 2 5) = 1" for t d
    by (simp_all add: claim_info_def demo_sites)
      (simp_all add: slot_key_def delay_key_def host_key_set_def demo_keys_def host_keys_of_def Let_def)
  have sites: "sites_typed demo_keyspace (line_of (prepared demo_args (ks_now demo_keyspace) demo_host))"
    "\<forall>(w, j) \<in> set (line_of (prepared demo_args (ks_now demo_keyspace) demo_host)).
       0 < wi_weight j \<and> wi_slot_key j \<noteq> wi_delay_key j \<and> wi_slot_key j \<notin> host_key_set demo_keys \<and>
       wi_delay_key j \<notin> host_key_set demo_keys \<and>
       (\<forall>z. zset_at demo_keyspace (wi_slot_key j) = Some z \<longrightarrow> ca_lease demo_args \<notin> fst ` set z)"
    unfolding demo_now demo_line sites_typed_def by (simp_all add: site)
  show ?thesis
    unfolding claim_ready_def by (intro conjI ks demo_rel ok args(1-3) seats sites)
qed

lemma demo_args_sel:
  "ca_me demo_args = ''w1''" "ca_default_target demo_args = 4" "ca_share demo_args = 6 / 10"
  by (simp_all add: demo_args_def claim_args_of_def demo_admission_def host_admission_init_def host_capacity_defaults_def Let_def)

lemma demo_units:
  "units_in_use (prepared demo_args 0 demo_host) = 1"
  "tenant_units (prepared demo_args 0 demo_host) tn = (if tn = RText ''acme'' then 1 else 0)"
  unfolding demo_prepared
  by (simp_all add: units_in_use_def tenant_units_def demo_host_def holder_def seat_units_def as_num_def)

lemma demo_target: "target_of demo_args (prepared demo_args 0 demo_host) = 4"
  unfolding demo_prepared by (simp add: target_of_def demo_host_def demo_args_sel)

lemma demo_ctx:
  "ctx_of demo_args 0 (prepared demo_args 0 demo_host) =
     \<lparr>cc_now = 0, cc_target = 4, cc_share_cap = 3, cc_tenants = 2, cc_in_use = 1, cc_line = 2\<rparr>"
proof -
  have "share_cap 4 (6 / 10) = 3" by (simp add: share_cap_def ceiling_unique)
  moreover have "n_tenants (line_of (prepared demo_args 0 demo_host)) = 2"
    unfolding demo_line by (simp add: n_tenants_def claim_info_def)
  moreover have "length (hs_waiters (prepared demo_args 0 demo_host)) = 2" by (simp add: demo_prepared)
  ultimately show ?thesis by (simp add: ctx_of_def demo_target demo_args_sel demo_units)
qed

lemma demo_free:
  "live_count demo_keyspace now (slot_key d t) = 0" "next_instant demo_keyspace (delay_key d t) = 0"
  by (simp_all add: live_count_def next_instant_def demo_sites)

lemma demo_keys_neq: "slot_key ''a.com'' ''acme'' \<noteq> slot_key ''b.com'' ''beta''" "delay_key ''a.com'' ''acme'' \<noteq> delay_key ''b.com'' ''beta''"
  by (simp_all add: slot_key_def delay_key_def)

lemma demo_verdict:
  "claim_verdict demo_args demo_keyspace demo_host = Granted (claim_info ''acme'' ''a.com'' 1 2 5)"
  unfolding claim_verdict_def Let_def demo_now demo_line demo_ctx
  by (simp add: eligible_def site_free_def fits_def charge_def view_of_def start_view_def demo_now claim_info_def demo_units
      demo_free demo_keys_neq tu_add_def demo_args_sel)

lemma demo_run:
  "\<exists>rest s'. run mem_server (claim_call demo_keys demo_args) [] demo_keyspace = (Inr (RStrings (RInt 1 # rest)), s')"
  using run_claim_call [OF demo_ready] by (auto simp: demo_verdict)

theorem host_claim_all_or_nothing_witness:
  "\<exists>rest K'. run mem_server (claim_call demo_keys demo_args) [] demo_keyspace = (Inr (RStrings (RInt 1 # rest)), K') \<and>
     host_rel demo_keys K' (granted demo_args 0 (claim_info ''acme'' ''a.com'' 1 2 5) (prepared demo_args 0 demo_host))"
proof -
  obtain r K' where r: "run mem_server (claim_call demo_keys demo_args) [] demo_keyspace = (r, K')" by fastforce
  from host_claim_all_or_nothing [OF mem.redis_server_axioms demo_ready this] r show ?thesis
    by (auto simp: demo_verdict demo_now)
qed

theorem host_budget_respected_witness:
  "\<exists>h' K'. host_rel demo_keys K' h' \<and> units_in_use h' + sum_list (map wi_weight (older_eligible demo_args demo_keyspace demo_host)) \<le> 4"
proof -
  obtain rest K' where r: "run mem_server (claim_call demo_keys demo_args) [] demo_keyspace = (Inr (RStrings (RInt 1 # rest)), K')"
    using demo_run by blast
  from host_budget_respected [OF mem.redis_server_axioms demo_ready r] show ?thesis
    by (auto simp: demo_now demo_target demo_units)
qed

theorem host_site_limits_witness:
  "\<exists>K'. snd (run mem_server (claim_call demo_keys demo_args) [] demo_keyspace) = K' \<and>
     live_count K' (ks_now K') (slot_key ''a.com'' ''acme'') \<le> 2"
proof -
  obtain rest K' where r: "run mem_server (claim_call demo_keys demo_args) [] demo_keyspace = (Inr (RStrings (RInt 1 # rest)), K')"
    using demo_run by blast
  from host_site_limits [OF mem.redis_server_axioms demo_ready r] r show ?thesis
    by (auto simp: demo_verdict claim_info_def)
qed

theorem host_tenant_share_witness:
  "let held = 1 + sum_list (map wi_weight (filter (\<lambda>j. wi_tenant j = ''acme'') (older_eligible demo_args demo_keyspace demo_host)))
   in held = 0 \<or> held + 1 \<le> share_cap 4 (6 / 10)"
proof -
  obtain rest K' where r: "run mem_server (claim_call demo_keys demo_args) [] demo_keyspace = (Inr (RStrings (RInt 1 # rest)), K')"
    using demo_run by blast
  have "n_tenants (line_of (prepared demo_args 0 demo_host)) = 2"
    unfolding demo_line by (simp add: n_tenants_def claim_info_def)
  with host_tenant_share [OF mem.redis_server_axioms demo_ready r] show ?thesis
    by (simp add: demo_verdict demo_now demo_units demo_target demo_args_sel Let_def) (simp add: claim_info_def)
qed

text \<open>A render of weight 9 on an idle host with a target of 4.\<close>

definition idle_args :: claim_args where
  "idle_args = claim_args_of demo_admission (claim_info ''acme'' ''a.com'' 9 1 0) ''w1'' ''l1'' 10 0"

definition idle_host :: host_state where
  "idle_host = \<lparr>hs_seats = [], hs_weight = [], hs_tenant = [], hs_waiters = [], hs_exp = [], hs_info = [],
     hs_target = None, hs_stats = []\<rparr>"

lemma idle_line: "line_of (prepared idle_args 0 idle_host) = [(''w1'', claim_info ''acme'' ''a.com'' 9 1 0)]"
  by (simp add: line_of_def prepared_def purged_seats_def purged_waiters_def joined_def idle_host_def idle_args_def
      claim_args_of_def zorder_def drop_all_def zadd_def alist_put_def infos_of_def map_filter_simps Let_def)

lemma idle_ready: "claim_ready demo_keys idle_args (claim_info ''acme'' ''a.com'' 9 1 0) empty_keyspace idle_host"
proof -
  have args: "ca_info idle_args = info_dumps (claim_info ''acme'' ''a.com'' 9 1 0)" "0 < ca_keep idle_args"
    "0 < ca_lease_ttl idle_args"
    by (simp_all add: idle_args_def claim_args_of_def HOST_KEY_TTL_MS_def demo_admission_def
        host_admission_init_def host_capacity_defaults_def Let_def)
  have host: "host_rel demo_keys empty_keyspace idle_host" "host_ok idle_host" "keys_distinct demo_keys"
    "ca_lease idle_args \<notin> fst ` set (hs_weight idle_host)" "\<forall>(l, v) \<in> set (hs_weight idle_host). 0 \<le> seat_units v"
    by (simp_all add: host_rel_def idle_host_def host_ok_def numeric_hash_def info_hash_def int_hash_def demo_keys_def)
  have sites: "sites_typed empty_keyspace (line_of (prepared idle_args (ks_now empty_keyspace) idle_host))"
    "\<forall>(w, j) \<in> set (line_of (prepared idle_args (ks_now empty_keyspace) idle_host)).
       0 < wi_weight j \<and> wi_slot_key j \<noteq> wi_delay_key j \<and> wi_slot_key j \<notin> host_key_set demo_keys \<and>
       wi_delay_key j \<notin> host_key_set demo_keys \<and>
       (\<forall>z. zset_at empty_keyspace (wi_slot_key j) = Some z \<longrightarrow> ca_lease idle_args \<notin> fst ` set z)"
    by (simp_all add: idle_line sites_typed_def claim_info_def)
      (simp_all add: slot_key_def delay_key_def host_key_set_def demo_keys_def host_keys_of_def Let_def)
  show ?thesis
    unfolding claim_ready_def by (intro conjI args host sites)
qed

theorem host_idle_admits_witness:
  "\<exists>rest. fst (run mem_server (claim_call demo_keys idle_args) [] empty_keyspace) = Inr (RStrings (RInt 1 # rest))"
proof (rule host_idle_admits [where older = "[]" and younger = "[]", OF mem.redis_server_axioms idle_ready])
  show "hs_weight (prepared idle_args (ks_now empty_keyspace) idle_host) = []"
    by (simp add: prepared_def purged_seats_def purged_waiters_def joined_def idle_host_def drop_all_def zorder_def Let_def)
  show "line_of (prepared idle_args (ks_now empty_keyspace) idle_host) =
      [] @ (ca_me idle_args, claim_info ''acme'' ''a.com'' 9 1 0) # []"
    by (simp add: idle_line) (simp add: idle_args_def claim_args_of_def)
qed (simp_all add: site_free_def view_of_def start_view_def live_count_def next_instant_def claim_info_def ctx_of_def)

end
