(* ===== verification/Capacity_Controller.thy ===== *)
theory Capacity_Controller
  imports Host_Capacity
begin

text \<open>
  \<^verbatim>\<open>src/src/scraper_engine/orchestrator/capacity_controller.py\<close>: the daemon that sizes the host's
  browser budget. \<open>decide\<close> is the pure rule; \<open>tick\<close> the round of Redis calls around it, behind a
  leader lock. The readings of the host (PSI, load, memory) are arguments.
\<close>

subsection \<open>Readings and ceilings\<close>

definition load_pressure :: "int \<Rightarrow> rat option \<Rightarrow> rat option" where
  "load_pressure cpu_count loadavg =
     map_option (\<lambda>load. max 0 (load / of_int (max 1 cpu_count) - 1) * 100) loadavg"

definition memory_ceiling :: "host_capacity_config \<Rightarrow> int \<Rightarrow> int option \<Rightarrow> rat option \<Rightarrow> rat" where
  "memory_ceiling cfg cpu_count mem_total_mb browser_mb =
     (case hc_max_units cfg of
        Some m \<Rightarrow> m
      | None \<Rightarrow> (case mem_total_mb of
          None \<Rightarrow> of_int (2 * cpu_count)
        | Some total_mb \<Rightarrow>
            let per_browser = (case browser_mb of None \<Rightarrow> of_int (hc_browser_memory_mb cfg) | Some b \<Rightarrow> b)
            in max (hc_min_units cfg) (of_int \<lfloor>of_int total_mb / per_browser\<rfloor>)))"

subsection \<open>The rule\<close>

record readings =
  rd_cpu_pressure :: "rat option"
  rd_mem_available_mb :: "int option"
  rd_waiters :: int
  rd_in_use :: rat
  rd_since_change :: "rat option"
  rd_max_units :: rat
  rd_browser_mb :: "rat option"

text \<open>\<open>since_change\<close> is infinite (\<open>None\<close>) when no change was ever recorded.\<close>

definition at_least :: "rat option \<Rightarrow> rat \<Rightarrow> bool" where
  "at_least since bound = (case since of None \<Rightarrow> True | Some x \<Rightarrow> bound \<le> x)"

definition strained :: "host_capacity_config \<Rightarrow> readings \<Rightarrow> bool" where
  "strained cfg r \<longleftrightarrow>
     (case rd_cpu_pressure r of None \<Rightarrow> False | Some p \<Rightarrow> hc_cpu_pressure_high cfg < p) \<or>
     (case rd_mem_available_mb r of None \<Rightarrow> False | Some m \<Rightarrow> m < hc_mem_available_floor_mb cfg)"

definition decide :: "host_capacity_config \<Rightarrow> readings \<Rightarrow> rat \<Rightarrow> rat" where
  "decide cfg r target0 =
     (let current = min (max target0 (hc_min_units cfg)) (rd_max_units r) in
      if strained cfg r then
        (if at_least (rd_since_change r) (of_int (hc_cut_dwell_seconds cfg))
         then max (hc_min_units cfg) (py_round2 (current * hc_cut_factor cfg)) else current)
      else (case rd_cpu_pressure r of
          None \<Rightarrow> current
        | Some cpu \<Rightarrow>
            if rd_waiters r = 0 \<or> \<not> at_least (rd_since_change r) (of_int (hc_raise_dwell_seconds cfg)) then current
            else
              (let wanted1 = rd_in_use r + of_int (rd_waiters r);
                   wanted2 = (if hc_cpu_pressure_low cfg \<le> cpu
                     then min wanted1 (current + max 1 (current * hc_raise_step_fraction cfg)) else wanted1);
                   wanted3 = (case rd_mem_available_mb r of
                       None \<Rightarrow> wanted2
                     | Some m \<Rightarrow>
                         let spare = max 0 (m - hc_mem_available_floor_mb cfg);
                             per_browser = (case rd_browser_mb r of None \<Rightarrow> of_int (hc_browser_memory_mb cfg) | Some b \<Rightarrow> b)
                         in min wanted2 (rd_in_use r + of_int \<lfloor>of_int spare / per_browser\<rfloor>))
               in max current (min (rd_max_units r) (py_round2 wanted3)))))"

subsection \<open>The daemon\<close>

definition LEAD_LUA :: "string \<Rightarrow> string \<Rightarrow> int \<Rightarrow> lua" where
  "LEAD_LUA key token ttl_ms =
     LCall (GET key) (\<lambda>held.
       if held = RBulk (RText token) then LCall (PEXPIRE key ttl_ms) (\<lambda>_. LRet (RInteger 1))
       else if held = RNil then LCall (SET key (RText token) (Some ttl_ms) False) (\<lambda>_. LRet (RInteger 1))
       else LRet (RInteger 0))"

record controller =
  ct_enabled :: bool
  ct_admission :: host_admission
  ct_cpus :: int
  ct_mem_total_mb :: "int option"
  ct_token :: string
  ct_leader_key :: string
  ct_changed_key :: string

definition controller_init ::
  "bool \<Rightarrow> string \<Rightarrow> host_capacity_config \<Rightarrow> int option \<Rightarrow> int option \<Rightarrow> int option \<Rightarrow> string \<Rightarrow> controller" where
  "controller_init enabled host_id cfg cpu_count os_cpu_count mem_total_mb token =
     (let truthy = (\<lambda>c. case c of Some n \<Rightarrow> if n = 0 then None else Some n | None \<Rightarrow> None);
          cpus = (case truthy cpu_count of Some n \<Rightarrow> n
                  | None \<Rightarrow> (case truthy os_cpu_count of Some n \<Rightarrow> n | None \<Rightarrow> (1::int)))
      in \<lparr>ct_enabled = enabled, ct_admission = host_admission_init host_id cfg (Some cpus) os_cpu_count,
          ct_cpus = cpus, ct_mem_total_mb = mem_total_mb, ct_token = token,
          ct_leader_key = ''hc:'' @ host_id @ '':leader'', ct_changed_key = ''hc:'' @ host_id @ '':target_changed_at''\<rparr>)"

definition lead :: "controller \<Rightarrow> bool prog" where
  "lead self =
     (let ttl_ms = max (3 * hc_controller_interval_seconds (ha_cfg (ct_admission self))) 10 * 1000 in
      eval_script (LEAD_LUA (ct_leader_key self) (ct_token self) ttl_ms) (\<lambda>r. Return (py_true r)))"

datatype tick_result = Disabled | Standby | Ticked rat

text \<open>
  \<open>cpu\<close>, \<open>load\<close>, \<open>mem\<close> and the two clock readings are what the readers return; the blank text
  stands for a missing reading.
\<close>

definition num_or_blank :: "rat option \<Rightarrow> rstr" where
  "num_or_blank q = (case q of None \<Rightarrow> RText [] | Some x \<Rightarrow> RNum x)"

text \<open>\<open>await raw.get(key)\<close>, read for its truth and then as a number.\<close>

definition rd_get :: "string \<Rightarrow> rstr option prog" where
  "rd_get key = call (GET key) (\<lambda>r. case r of
     RBulk v \<Rightarrow> Return (if py_truthy v then Some v else None) | _ \<Rightarrow> Return None)"

definition controller_tick ::
  "controller \<Rightarrow> rat option \<Rightarrow> rat option \<Rightarrow> int option \<Rightarrow> rat \<Rightarrow> tick_result prog" where
  "controller_tick self cpu_read load_read mem now =
     (let ha = ct_admission self; cfg = ha_cfg ha; stats = hk_stats (ha_keys ha) in
      if \<not> ct_enabled self then Return Disabled
      else andthen (lead self) (\<lambda>leading.
        if \<not> leading then Return Standby
        else andthen (snapshot ha) (\<lambda>snap.
          let cpu = (case cpu_read of None \<Rightarrow> load_pressure (ct_cpus self) load_read | Some p \<Rightarrow> Some p) in
          andthen (rd_get (ct_changed_key self)) (\<lambda>changed_raw.
          lift_res (case changed_raw of None \<Rightarrow> Inr None | Some v \<Rightarrow> map_sum id Some (py_float v)) (\<lambda>changed.
          andthen (browser_memory_mb ha (of_int (max (3 * hc_controller_interval_seconds cfg) 30)) now) (\<lambda>browser_mb.
          let max_units = memory_ceiling cfg (ct_cpus self) (ct_mem_total_mb self) (Some browser_mb);
              target = decide cfg \<lparr>rd_cpu_pressure = cpu, rd_mem_available_mb = mem, rd_waiters = cs_waiters snap,
                rd_in_use = cs_in_use snap, rd_since_change = map_option (\<lambda>t. now - t) changed,
                rd_max_units = max_units, rd_browser_mb = Some browser_mb\<rparr> (cs_target snap);
              keep_ms = hc_target_ttl_seconds cfg * 1000;
              publish = call (SET (hk_target (ha_keys ha)) (RNum target) (Some keep_ms) False) (\<lambda>_.
                call (HMSET stats [(''cpu_pressure'', num_or_blank cpu),
                    (''mem_available_mb'', num_or_blank (map_option of_int mem)), (''browser_mb'', RNum browser_mb)])
                  (\<lambda>_. Return (Ticked target)))
          in if target \<noteq> cs_target snap
             then call (SET (ct_changed_key self) (RNum now) (Some (keep_ms * 30)) False) (\<lambda>_.
               call (HINCRBY stats (if cs_target snap < target then ''adjust_up'' else ''adjust_down'') 1) (\<lambda>_. publish))
             else publish))))))"

subsection \<open>Properties of the rule\<close>

definition clamped :: "host_capacity_config \<Rightarrow> readings \<Rightarrow> rat \<Rightarrow> rat" where
  "clamped cfg r x = min (max x (hc_min_units cfg)) (rd_max_units r)"

text \<open>What the configuration's validators establish, for a ceiling stated in hundredths.\<close>

definition rule_ok :: "host_capacity_config \<Rightarrow> readings \<Rightarrow> bool" where
  "rule_ok cfg r \<longleftrightarrow> 0 < hc_min_units cfg \<and> hc_min_units cfg \<le> rd_max_units r \<and> py_round2 (rd_max_units r) = rd_max_units r \<and>
     0 < hc_cut_factor cfg \<and> hc_cut_factor cfg < 1"

lemma clamped_bounds: "rule_ok cfg r \<Longrightarrow> hc_min_units cfg \<le> clamped cfg r x \<and> clamped cfg r x \<le> rd_max_units r"
  by (simp add: rule_ok_def clamped_def)

text \<open>The three kinds of answer: hold, cut, raise.\<close>

definition wanted_units :: "host_capacity_config \<Rightarrow> readings \<Rightarrow> rat \<Rightarrow> rat \<Rightarrow> rat" where
  "wanted_units cfg r c cpu =
     (let w1 = rd_in_use r + of_int (rd_waiters r);
          w2 = (if hc_cpu_pressure_low cfg \<le> cpu then min w1 (c + max 1 (c * hc_raise_step_fraction cfg)) else w1)
      in case rd_mem_available_mb r of
           None \<Rightarrow> w2
         | Some m \<Rightarrow> min w2 (rd_in_use r + of_int \<lfloor>of_int (max 0 (m - hc_mem_available_floor_mb cfg)) /
             (case rd_browser_mb r of None \<Rightarrow> of_int (hc_browser_memory_mb cfg) | Some b \<Rightarrow> b)\<rfloor>))"

lemma decide_calm:
  "\<not> strained cfg r \<Longrightarrow> decide cfg r x =
     (case rd_cpu_pressure r of None \<Rightarrow> clamped cfg r x
      | Some cpu \<Rightarrow> if rd_waiters r = 0 \<or> \<not> at_least (rd_since_change r) (of_int (hc_raise_dwell_seconds cfg))
          then clamped cfg r x
          else max (clamped cfg r x) (min (rd_max_units r) (py_round2 (wanted_units cfg r (clamped cfg r x) cpu))))"
  unfolding decide_def clamped_def wanted_units_def Let_def by (simp only: if_False)

lemma decide_strained:
  "strained cfg r \<Longrightarrow> decide cfg r x =
     (if at_least (rd_since_change r) (of_int (hc_cut_dwell_seconds cfg))
      then max (hc_min_units cfg) (py_round2 (clamped cfg r x * hc_cut_factor cfg)) else clamped cfg r x)"
  unfolding decide_def clamped_def Let_def by (simp only: if_True)

lemma decide_cases:
  "decide cfg r x = clamped cfg r x \<or>
   decide cfg r x = max (hc_min_units cfg) (py_round2 (clamped cfg r x * hc_cut_factor cfg)) \<or>
   (\<exists>w. decide cfg r x = max (clamped cfg r x) (min (rd_max_units r) w))"
  by (cases "strained cfg r") (auto simp: decide_strained decide_calm split: option.splits)

lemma cut_le_max:
  assumes "0 < hc_cut_factor cfg" "hc_cut_factor cfg < 1" "0 < hc_min_units cfg" "py_round2 (rd_max_units r) = rd_max_units r"
  shows "py_round2 (clamped cfg r x * hc_cut_factor cfg) \<le> max (hc_min_units cfg) (rd_max_units r)"
proof (cases "0 \<le> clamped cfg r x")
  case True
  then have "clamped cfg r x * hc_cut_factor cfg \<le> clamped cfg r x" using assms(1,2) by (simp add: mult_left_le)
  also have "\<dots> \<le> rd_max_units r" by (simp add: clamped_def)
  finally have "py_round2 (clamped cfg r x * hc_cut_factor cfg) \<le> py_round2 (rd_max_units r)" by (rule py_round2_mono)
  then show ?thesis using assms(4) by simp
next
  case False
  then have "clamped cfg r x * hc_cut_factor cfg \<le> 0" using assms(1) by (simp add: mult_le_0_iff)
  then have "py_round2 (clamped cfg r x * hc_cut_factor cfg) \<le> py_round2 0" by (rule py_round2_mono)
  then show ?thesis using assms(3) by (simp add: py_round2_def)
qed

text \<open>
  \<^bold>\<open>C37\<close>. The target stays within its bounds. For a positive \<open>min_units\<close>, a cut factor strictly
  between 0 and 1 (both validated by the schema) and a ceiling in whole hundredths: whatever the
  readings and the previous target, the next target lies between \<open>min_units\<close> and the ceiling, in
  whichever order these two are: the ceiling of a host without a memory reading, twice its CPUs, is
  compared with \<open>min_units\<close> nowhere.
\<close>

theorem decide_bounds:
  assumes "0 < hc_min_units cfg" "0 < hc_cut_factor cfg" "hc_cut_factor cfg < 1"
    and "py_round2 (rd_max_units r) = rd_max_units r"
  shows "min (hc_min_units cfg) (rd_max_units r) \<le> decide cfg r x \<and>
    decide cfg r x \<le> max (hc_min_units cfg) (rd_max_units r)"
proof -
  have c: "min (hc_min_units cfg) (rd_max_units r) \<le> clamped cfg r x" "clamped cfg r x \<le> max (hc_min_units cfg) (rd_max_units r)"
    by (auto simp: clamped_def)
  consider "decide cfg r x = clamped cfg r x"
    | "decide cfg r x = max (hc_min_units cfg) (py_round2 (clamped cfg r x * hc_cut_factor cfg))"
    | w where "decide cfg r x = max (clamped cfg r x) (min (rd_max_units r) w)"
    using decide_cases by blast
  then show ?thesis
    using c cut_le_max [OF assms(2,3,1,4), of x] by cases (auto simp: min_le_iff_disj le_max_iff_disj)
qed

lemma default_rule_ok:
  "rule_ok host_capacity_defaults \<lparr>rd_cpu_pressure = cpu, rd_mem_available_mb = mem, rd_waiters = w, rd_in_use = u,
     rd_since_change = sc, rd_max_units = 16, rd_browser_mb = b\<rparr>"
  by (simp add: rule_ok_def host_capacity_defaults_def py_round2_def)

theorem decide_bounds_witness:
  "1 \<le> decide host_capacity_defaults \<lparr>rd_cpu_pressure = Some 20, rd_mem_available_mb = Some 9000, rd_waiters = 40,
     rd_in_use = 3, rd_since_change = None, rd_max_units = 16, rd_browser_mb = None\<rparr> 4 \<and>
   decide host_capacity_defaults \<lparr>rd_cpu_pressure = Some 20, rd_mem_available_mb = Some 9000, rd_waiters = 40,
     rd_in_use = 3, rd_since_change = None, rd_max_units = 16, rd_browser_mb = None\<rparr> 4 \<le> 16 \<and>
   decide (host_capacity_defaults\<lparr>hc_min_units := 6\<rparr>) \<lparr>rd_cpu_pressure = Some 97, rd_mem_available_mb = Some 9000, rd_waiters = 1,
     rd_in_use = 2, rd_since_change = None, rd_max_units = 4, rd_browser_mb = None\<rparr> 4 \<le> 6"
  using decide_bounds [where cfg = host_capacity_defaults and x = 4 and r = "\<lparr>rd_cpu_pressure = Some 20, rd_mem_available_mb = Some 9000,
      rd_waiters = 40, rd_in_use = 3, rd_since_change = None, rd_max_units = 16, rd_browser_mb = None\<rparr>"]
    decide_bounds [where cfg = "host_capacity_defaults\<lparr>hc_min_units := 6\<rparr>" and x = 4 and r = "\<lparr>rd_cpu_pressure = Some 97,
      rd_mem_available_mb = Some 9000, rd_waiters = 1, rd_in_use = 2, rd_since_change = None, rd_max_units = 4, rd_browser_mb = None\<rparr>"]
  by (simp add: host_capacity_defaults_def py_round2_def)

text \<open>
  When and how far the target rises. A target above the (clamped) previous one is only
  chosen when the host is not strained, a pressure reading exists, someone waits and the raise
  dwell is over; it then lets in no more than everyone waiting, no more than the spare memory
  above the floor holds in whole browsers, and above the low mark no more than one step.
\<close>

lemma decide_strained_le:
  assumes "rule_ok cfg r" "py_round2 (clamped cfg r x) = clamped cfg r x" "strained cfg r"
  shows "decide cfg r x \<le> clamped cfg r x"
proof -
  have c: "hc_min_units cfg \<le> clamped cfg r x" "0 < clamped cfg r x"
    using clamped_bounds [OF assms(1), of x] assms(1) by (auto simp: rule_ok_def)
  then have "clamped cfg r x * hc_cut_factor cfg \<le> clamped cfg r x"
    using assms(1) by (simp add: rule_ok_def mult_left_le)
  from py_round2_mono [OF this] c assms(2,3) show ?thesis by (simp add: decide_strained)
qed

lemma py_round2_min_le: "py_round2 (min a b) \<le> py_round2 a" "py_round2 (min a b) \<le> py_round2 b"
  by (simp_all add: py_round2_mono)

theorem decide_raise_justified:
  assumes "rule_ok cfg r" "py_round2 (clamped cfg r x) = clamped cfg r x" "clamped cfg r x < decide cfg r x"
  shows "\<not> strained cfg r \<and> rd_waiters r \<noteq> 0 \<and> at_least (rd_since_change r) (of_int (hc_raise_dwell_seconds cfg)) \<and>
    decide cfg r x \<le> py_round2 (rd_in_use r + of_int (rd_waiters r)) \<and>
    (\<exists>cpu. rd_cpu_pressure r = Some cpu \<and> (hc_cpu_pressure_low cfg \<le> cpu \<longrightarrow>
       decide cfg r x \<le> py_round2 (clamped cfg r x + max 1 (clamped cfg r x * hc_raise_step_fraction cfg)))) \<and>
    (\<forall>m. rd_mem_available_mb r = Some m \<longrightarrow>
       decide cfg r x \<le> py_round2 (rd_in_use r + of_int \<lfloor>of_int (max 0 (m - hc_mem_available_floor_mb cfg)) /
         (case rd_browser_mb r of None \<Rightarrow> of_int (hc_browser_memory_mb cfg) | Some b \<Rightarrow> b)\<rfloor>))"
proof -
  let ?c = "clamped cfg r x"
  have calm: "\<not> strained cfg r" using decide_strained_le [OF assms(1,2)] assms(3) by fastforce
  note d = decide_calm [OF this, of x]
  obtain cpu where cpu: "rd_cpu_pressure r = Some cpu"
    using assms(3) d by (cases "rd_cpu_pressure r") auto
  have wait: "rd_waiters r \<noteq> 0" "at_least (rd_since_change r) (of_int (hc_raise_dwell_seconds cfg))"
    using assms(3) d cpu by (auto split: if_splits)
  define w1 where "w1 = rd_in_use r + of_int (rd_waiters r)"
  define w2 where "w2 = (if hc_cpu_pressure_low cfg \<le> cpu then min w1 (?c + max 1 (?c * hc_raise_step_fraction cfg)) else w1)"
  define w3 where "w3 = wanted_units cfg r ?c cpu"
  have w3: "w3 = (case rd_mem_available_mb r of None \<Rightarrow> w2 | Some m \<Rightarrow>
      min w2 (rd_in_use r + of_int \<lfloor>of_int (max 0 (m - hc_mem_available_floor_mb cfg)) /
        (case rd_browser_mb r of None \<Rightarrow> of_int (hc_browser_memory_mb cfg) | Some b \<Rightarrow> b)\<rfloor>))"
    by (simp only: w3_def wanted_units_def w2_def w1_def Let_def)
  have "decide cfg r x = max ?c (min (rd_max_units r) (py_round2 w3))"
    using d cpu wait by (simp add: w3_def)
  with assms(3) have d: "decide cfg r x \<le> py_round2 w3" by (auto simp: max_def split: if_splits)
  have w: "w3 \<le> w2" "w2 \<le> w1" by (auto simp: w3 w2_def split: option.splits)
  have "decide cfg r x \<le> py_round2 w2" "decide cfg r x \<le> py_round2 w1"
    using d py_round2_mono [OF w(1)] py_round2_mono [OF w(2)] by simp_all
  moreover have "py_round2 w2 \<le> py_round2 (?c + max 1 (?c * hc_raise_step_fraction cfg))" if "hc_cpu_pressure_low cfg \<le> cpu"
    using that by (auto simp: w2_def intro: py_round2_mono)
  moreover have "py_round2 w3 \<le> py_round2 (rd_in_use r + of_int \<lfloor>of_int (max 0 (m - hc_mem_available_floor_mb cfg)) /
        (case rd_browser_mb r of None \<Rightarrow> of_int (hc_browser_memory_mb cfg) | Some b \<Rightarrow> b)\<rfloor>)"
    if "rd_mem_available_mb r = Some m" for m
    using that by (auto simp: w3 intro: py_round2_mono)
  ultimately show ?thesis using calm cpu wait d by (auto simp: w1_def intro: order_trans)
qed

theorem decide_raise_justified_witness:
  "decide host_capacity_defaults \<lparr>rd_cpu_pressure = Some 20, rd_mem_available_mb = Some 9000, rd_waiters = 40,
     rd_in_use = 3, rd_since_change = None, rd_max_units = 16, rd_browser_mb = None\<rparr> 4 \<le>
   py_round2 (3 + of_int \<lfloor>of_int (max 0 (9000 - 1536)) / (1200 :: rat)\<rfloor>)"
proof -
  let ?r = "\<lparr>rd_cpu_pressure = Some 20, rd_mem_available_mb = Some 9000, rd_waiters = 40,
     rd_in_use = 3, rd_since_change = None, rd_max_units = 16, rd_browser_mb = None\<rparr>"
  have c: "clamped host_capacity_defaults ?r 4 = 4" by (simp add: clamped_def host_capacity_defaults_def)
  have "\<lfloor>7464 / 1200 :: rat\<rfloor> = 6" by (simp add: floor_unique)
  then have d: "decide host_capacity_defaults ?r 4 = 9"
    by (simp add: decide_def strained_def at_least_def host_capacity_defaults_def py_round2_def)
  show ?thesis
    using decide_raise_justified [OF default_rule_ok, of "Some 20" "Some 9000" 40 3 None None 4] d c
    by (simp add: py_round2_def host_capacity_defaults_def)
qed

subsection \<open>Shedding load\<close>

text \<open>Consecutive strained rounds, each after the cut dwell.\<close>

fun cut_rounds :: "host_capacity_config \<Rightarrow> readings list \<Rightarrow> rat \<Rightarrow> rat" where
  "cut_rounds cfg [] x = x"
| "cut_rounds cfg (r # rs) x = cut_rounds cfg rs (decide cfg r x)"

lemma cut_step:
  assumes "rule_ok cfg r" "1 \<le> hc_min_units cfg" "hc_cut_factor cfg \<le> 7 / 10" "strained cfg r"
    "at_least (rd_since_change r) (of_int (hc_cut_dwell_seconds cfg))" "hc_min_units cfg \<le> x"
  shows "hc_min_units cfg \<le> decide cfg r x" "decide cfg r x \<le> max (hc_min_units cfg) (x - 1 / 4)"
proof -
  let ?c = "clamped cfg r x"
  have c: "hc_min_units cfg \<le> ?c" "?c \<le> x" using assms(1,6) by (auto simp: clamped_def rule_ok_def)
  have d: "decide cfg r x = max (hc_min_units cfg) (py_round2 (?c * hc_cut_factor cfg))"
    using assms(4,5) by (simp add: decide_strained)
  then show "hc_min_units cfg \<le> decide cfg r x" by simp
  have "?c * hc_cut_factor cfg \<le> ?c * (7 / 10)"
    using assms(2,3) c(1) by (intro mult_left_mono) simp_all
  then have "py_round2 (?c * hc_cut_factor cfg) \<le> ?c * (7 / 10) + 1 / 200"
    using py_round2_close [of "?c * hc_cut_factor cfg"] by linarith
  also have "\<dots> \<le> x - 1 / 4" using c assms(2) by linarith
  finally show "decide cfg r x \<le> max (hc_min_units cfg) (x - 1 / 4)" unfolding d by simp
qed

text \<open>
  \<^bold>\<open>C38\<close>. A strained host is brought down to the minimum. With a cut factor of at most 0.7 (the
  default; the schema admits larger ones), a minimum of at least one unit and a ceiling of at least the
  minimum, in rounds that all find the host strained and the cut dwell over, each round takes at least
  a quarter of a unit off the target until it is the minimum: \<open>4 * (target - min)\<close> rounds are enough,
  the rounding notwithstanding.
\<close>

theorem decide_sheds_load:
  assumes "\<forall>r \<in> set rs. rule_ok cfg r \<and> strained cfg r \<and>
      at_least (rd_since_change r) (of_int (hc_cut_dwell_seconds cfg))"
    and "1 \<le> hc_min_units cfg" "hc_cut_factor cfg \<le> 7 / 10" "hc_min_units cfg \<le> x"
    and "4 * (x - hc_min_units cfg) \<le> of_nat (length rs)"
  shows "cut_rounds cfg rs x = hc_min_units cfg"
  using assms(1,4,5)
proof (induction rs arbitrary: x)
  case (Cons r rs)
  have step: "hc_min_units cfg \<le> decide cfg r x" "decide cfg r x \<le> max (hc_min_units cfg) (x - 1 / 4)"
    using Cons.prems(1,2) by (auto intro!: cut_step assms(2,3))
  moreover have "4 * (decide cfg r x - hc_min_units cfg) \<le> of_nat (length rs)"
    using step(2) Cons.prems(3) by (auto simp: max_def split: if_splits)
  ultimately show ?case using Cons.IH [of "decide cfg r x"] Cons.prems(1) by simp
qed simp

theorem decide_sheds_load_witness:
  "cut_rounds host_capacity_defaults (replicate 60 \<lparr>rd_cpu_pressure = Some 97, rd_mem_available_mb = Some 9000, rd_waiters = 3,
     rd_in_use = 8, rd_since_change = Some 20, rd_max_units = 16, rd_browser_mb = None\<rparr>) 16 = 1"
proof -
  have "strained host_capacity_defaults \<lparr>rd_cpu_pressure = Some 97, rd_mem_available_mb = Some 9000, rd_waiters = 3,
     rd_in_use = 8, rd_since_change = Some 20, rd_max_units = 16, rd_browser_mb = None\<rparr>"
    by (simp add: strained_def host_capacity_defaults_def)
  with decide_sheds_load [of "replicate 60 \<lparr>rd_cpu_pressure = Some 97, rd_mem_available_mb = Some 9000, rd_waiters = 3,
     rd_in_use = 8, rd_since_change = Some 20, rd_max_units = 16, rd_browser_mb = None\<rparr>" host_capacity_defaults 16]
  show ?thesis by (simp add: default_rule_ok at_least_def) (simp add: host_capacity_defaults_def)
qed

subsection \<open>One leader per host\<close>

definition lead_ttl_ms :: "controller \<Rightarrow> int" where
  "lead_ttl_ms self = max (3 * hc_controller_interval_seconds (ha_cfg (ct_admission self))) 10 * 1000"

lemma lead_ttl_pos: "0 < lead_ttl_ms self"
  by (simp add: lead_ttl_ms_def)

lemma run_lead:
  assumes "str_at K (ct_leader_key self) = Some v"
  shows "run mem_server (lead self) [] K =
    (if v = Some (RText (ct_token self)) then (Inr True, bump (ct_leader_key self) (lead_ttl_ms self) K)
     else if v = None
     then (Inr True, put_str (ct_leader_key self) (RText (ct_token self)) (Some (ks_now K + lead_ttl_ms self)) K)
     else (Inr False, K))"
  using assms lead_ttl_pos [of self]
  by (cases v) (simp_all add: lead_def LEAD_LUA_def run_simps Let_def lead_ttl_ms_def [symmetric] py_true_def not_less
      del: run_lua.simps(2))

lemma led_state:
  assumes "run mem_server (lead self) [] K = (Inr True, K')" "str_at K (ct_leader_key self) \<noteq> None"
  shows "str_at K' (ct_leader_key self) = Some (Some (RText (ct_token self)))"
    "deadline K' (ct_leader_key self) = Some (ks_now K + lead_ttl_ms self)" "ks_now K' = ks_now K"
proof -
  obtain v where v: "str_at K (ct_leader_key self) = Some v" using assms(2) by auto
  have "live K (ct_leader_key self) \<noteq> None" if "v = Some (RText (ct_token self))"
    using v that by (auto simp: str_at_def split: option.splits)
  with assms(1) v lead_ttl_pos [of self]
  show "str_at K' (ct_leader_key self) = Some (Some (RText (ct_token self)))"
    "deadline K' (ct_leader_key self) = Some (ks_now K + lead_ttl_ms self)" "ks_now K' = ks_now K"
    unfolding run_lead [OF v]
    by (auto simp: keyspace_simps deadline_def [of "put_str _ _ _ _"] split: if_splits)
qed

lemma str_at_later:
  assumes "deadline K k = Some x"
  shows "str_at (ks_wait d K) k = (if ks_now K + int d \<le> x then str_at K k else Some None)"
  using assms by (auto simp: str_at_def deadline_def live_def alive_def split: option.splits if_splits)

text \<open>
  One controller leads a host. Once a controller leads, a second one with another token
  that asks at any time within the lock's life is told to stand by; if the leader goes silent, the
  second one leads at any later time, so leadership is neither shared nor lost.
\<close>

theorem lead_exclusive:
  assumes "redis_server sv view" "ct_leader_key b = ct_leader_key a" "ct_token b \<noteq> ct_token a"
    and "str_at (view s) (ct_leader_key a) \<noteq> None" "run sv (lead a) [] s = (Inr True, s')"
  shows "fst (run sv (lead b) [] (srv_wait sv d s')) = Inr (lead_ttl_ms a < int d)"
proof -
  have "run mem_server (lead a) [] (view s) = (Inr True, view s')"
    using redis_server.run_sim [OF assms(1), of "lead a" "[]" s] assms(5) by (metis fst_conv prod.collapse snd_conv)
  note st = led_state [OF this assms(4)]
  have "str_at (ks_wait d (view s')) (ct_leader_key b) =
      (if int d \<le> lead_ttl_ms a then Some (Some (RText (ct_token a))) else Some None)"
    using str_at_later [OF st(2), of d] st(1,3) by (simp add: assms(2))
  then show ?thesis
    using assms(3) run_lead [of "ks_wait d (view s')" b] lead_ttl_pos [of b]
    by (auto simp: redis_server.run_result [OF assms(1)] redis_server.wait_state [OF assms(1)] split: if_splits)
qed

theorem lead_exclusive_witness:
  "fst (run mem_server (lead (controller_init True ''h1'' host_capacity_defaults (Some 4) None None ''bb'')) []
     (ks_wait 15000 (snd (run mem_server (lead (controller_init True ''h1'' host_capacity_defaults (Some 4) None None ''aa''))
       [] empty_keyspace)))) = Inr False"
proof -
  let ?a = "controller_init True ''h1'' host_capacity_defaults (Some 4) None None ''aa''"
  let ?b = "controller_init True ''h1'' host_capacity_defaults (Some 4) None None ''bb''"
  obtain K' where r: "run mem_server (lead ?a) [] empty_keyspace = (Inr True, K')"
    using run_lead [of empty_keyspace ?a None] by simp
  have "fst (run mem_server (lead ?b) [] (srv_wait mem_server 15000 K')) = Inr (lead_ttl_ms ?a < int 15000)"
    by (rule lead_exclusive [OF mem.redis_server_axioms _ _ _ r]) (simp_all add: controller_init_def Let_def)
  moreover have "lead_ttl_ms ?a = 15000"
    by (simp add: lead_ttl_ms_def controller_init_def host_admission_init_def host_capacity_defaults_def Let_def)
  ultimately show ?thesis by (simp add: r)
qed

end
