(* ===== verification/Spec2Isabelle.thy ===== *)
theory Spec2Isabelle
  imports Botasaurus_Pool Level1_Fetcher Level3_Fetcher Proxy_Upkeep Webhook_Outbox Worker_Resources Worker_Record Dlq_Reaper Job_Settlement Failure_Policy Gateway_Health Circuit_Breaker Quota_Budget Politeness Host_Capacity_Refinement Capacity_Controller
begin

text \<open>
  A model of the scraper engine (\<^verbatim>\<open>src/src/scraper_engine\<close>, Python) and of what makes its parts correct.

  \<^bold>\<open>The program.\<close> A tenant submits a job of URLs through the API (\<^verbatim>\<open>api/routes.py\<close>): the key is looked up,
  the URLs pass the SSRF guard, the quota is charged in Redis, a row is written to Postgres and the job
  put on a queue. A worker process takes it (\<^verbatim>\<open>orchestrator/tasks.py\<close>) and runs one task per URL
  (\<^verbatim>\<open>orchestrator/worker.py\<close>): the task climbs a ladder of levels (plain HTTP, a hidden browser, a full
  browser), asking on its way the level memory, the circuit breaker of the domain, the politeness slots,
  the host's browser budget, the proxy pool and the paid gateway, and leaves a result, or a failure and a
  dead letter. Daemons keep the surroundings healthy: the capacity controller sizes the browser budget,
  the harvester, promotion, monitor and retention keep the proxy pool, one reaper re-drives dead letters,
  one fails jobs nobody runs, a sweeper delivers notifications again. All of them share one Redis server
  and one Postgres database and fail independently of each other.

  \<^bold>\<open>How it is modelled.\<close> Redis, Postgres, the network, browsers, clocks, random draws and third-party
  packages are parameters. A Python exception is a value of \<open>exn\<close>, a fallible result a sum \<open>exn + 'a\<close>
  (\<open>'a res\<close>). Three ways of giving effects to code are used, by what the code does:
  \<^item> programs over Redis (\<open>prog\<close> in \<open>Redis_Service\<close>): a tree of commands and Lua scripts, run on any
    server (a function from a command and a state) by \<open>run\<close>, with a list of events that says which round
    trips are lost before or after their effect. Every client class is a group of such programs, every Lua
    script is translated command by command. Theorems hold for every server that meets the locale
    \<open>redis_server\<close>, whose laws are the documented behaviour of the commands used; \<open>mem_server\<close> is an
    executable server that meets them, on which the witnesses are evaluated.
  \<^item> accesses of a process (\<open>access\<close> in \<open>Store_Access\<close>): state passing over the tenant's tables, Redis, the
    clock and the queue. A script of events puts pauses, statements of other processes and failures
    (before or after the effect) in front of each statement of the process.
  \<^item> the worker's tasks (\<open>um\<close> in \<open>Worker_Monad\<close>): trees over the worker's own operations (\<open>wop\<close>) and
    their answers, so that tasks can be interleaved at every operation and statements proved about every
    run in any world; \<open>Worker_Engine\<close> then carries each operation out with the model of the component
    behind it. The tagged answers of \<open>wop\<close> stand for the return values of the awaited calls.

  \<^bold>\<open>Theories\<close> (paths below \<^verbatim>\<open>src/src/scraper_engine\<close>), bottom up:
  \<^item> \<open>Prelude\<close>: exceptions (\<^verbatim>\<open>core/exceptions.py\<close>), results, Python's numbers, truth and text, shared
    lemmas. \<open>Models\<close>: \<^verbatim>\<open>core/models.py\<close>. \<open>Interfaces\<close>: the contracts \<open>bounded_counter\<close> and \<open>lease_table\<close>
    with what follows from them for every history of calls.
  \<^item> \<open>Redis_Service\<close>: keyspaces with expiry, commands, scripts, programs, runs. \<open>Tenant\<close>:
    \<^verbatim>\<open>core/tenant.py\<close> and \<^verbatim>\<open>storage/redis_client.py\<close>; tenants cannot reach each other's keys.
  \<^item> \<open>Quota_Budget\<close>: \<^verbatim>\<open>core/quota.py\<close> and the CAPTCHA budget of \<^verbatim>\<open>core/budget.py\<close>; both are interpretations of
    \<open>bounded_counter\<close>, their interleaved checks of \<open>atomic_counter\<close>.
  \<^item> \<open>Circuit_Breaker\<close>: \<^verbatim>\<open>orchestrator/circuit_breaker.py\<close> refines an abstract breaker with a clock; the
    exact trip rule and cooldown.
  \<^item> \<open>Politeness\<close>: \<^verbatim>\<open>orchestrator/politeness.py\<close>; the slots of a domain interpret \<open>lease_table\<close>.
  \<^item> \<open>Host_Capacity\<close>, \<open>Host_Scheduler\<close>, \<open>Host_Capacity_Refinement\<close>: \<^verbatim>\<open>orchestrator/host_capacity.py\<close>; the
    claim script refines a pure scheduler (\<open>admit\<close>), from which the budget and website limits follow.
    \<open>Capacity_Controller\<close>: \<^verbatim>\<open>orchestrator/capacity_controller.py\<close>.
  \<^item> \<open>Level_Memory\<close>, \<open>Failure_Policy\<close>, \<open>Challenge_Detector\<close>, \<open>Paid_Gateway\<close>, \<open>Gateway_Health\<close>:
    \<^verbatim>\<open>orchestrator/level_memory.py\<close>, \<^verbatim>\<open>fetcher/_failure.py\<close> and \<^verbatim>\<open>core/retry.py\<close>,
    \<^verbatim>\<open>fetcher/challenge_detector.py\<close>, \<^verbatim>\<open>proxy/paid_gateway.py\<close>, \<^verbatim>\<open>proxy/gateway_health.py\<close>.
  \<^item> \<open>Ssrf_Guard\<close>, \<open>Level1_Fetcher\<close>, \<open>Level3_Fetcher\<close>: \<^verbatim>\<open>core/ssrf_guard.py\<close> over machine words,
    \<^verbatim>\<open>fetcher/level_1.py\<close> with its clients, \<^verbatim>\<open>fetcher/level_3.py\<close> with the CAPTCHA solver.
  \<^item> \<open>Botasaurus_Pool\<close>: \<^verbatim>\<open>browser/botasaurus_pool.py\<close> as a step relation between awaits.
  \<^item> \<open>Proxy_Scoring\<close>, \<open>Proxy_Pool\<close>, \<open>Proxy_Harvest\<close>, \<open>Proxy_Upkeep\<close>, \<open>Pool_Health\<close>: \<^verbatim>\<open>proxy/\<close>, from the score of
    a proxy to the search for one, the harvest and the upkeep of the pool.
  \<^item> \<open>Job_Store\<close>, \<open>Store_Access\<close>, \<open>Job_Routes\<close>, \<open>Job_Lifecycle\<close>, \<open>Job_Settlement\<close>: the tables with every
    statement run on them (\<^verbatim>\<open>storage/dlq.py\<close> and the SQL of the other files), \<^verbatim>\<open>api/routes.py\<close>,
    \<^verbatim>\<open>orchestrator/tasks.py\<close>, \<^verbatim>\<open>orchestrator/stuck_job_reaper.py\<close>. \<open>Dlq_Reaper\<close>: \<^verbatim>\<open>proxy/dlq_reaper.py\<close>; the
    locale \<open>reap_invariant\<close> says what a whole reap keeps, and three invariants interpret it.
  \<^item> \<open>Webhook_Delivery\<close>, \<open>Webhook_Outbox\<close>: \<^verbatim>\<open>orchestrator/webhook*.py\<close>, \<^verbatim>\<open>storage/webhook_outbox.py\<close>.
  \<^item> \<open>Worker_Base\<close>, \<open>Worker_Monad\<close>, \<open>Worker_Fetch\<close>, \<open>Worker_Url\<close>, \<open>Worker_Job\<close>: \<^verbatim>\<open>orchestrator/worker.py\<close>;
    \<open>Worker_Outcome\<close>, \<open>Worker_Resources\<close>, \<open>Worker_Scope\<close>: what every run of a URL's task leaves, costs and
    reaches; \<open>Worker_Engine\<close> and \<open>Worker_Record\<close>: the task among the models of its collaborators, and the
    tables it leaves behind.

  \<^bold>\<open>Bounds and fuel.\<close> Loops that count are structural recursions over what they count: retries
  (\<^verbatim>\<open>core/retry.py\<close>), redirects (\<open>MAX_REDIRECTS\<close>, ten for each of three clients, so a level-1 fetch makes at
  most 33 requests), the ten candidates of a proxy search (\<open>MAX_ATTEMPTS\<close>). Loops that wait are bounded as
  the code bounds them: \<open>slot_tries\<close> and \<open>reading_count\<close> are the numbers of polls that fit the wait
  budget at the shortest pause, plus one; \<open>wait_for_grant\<close> runs over the readings of its clock and has
  ended, on any server, once one of them reaches the deadline. One loop has fuel, the one around a URL's
  proxies (\<open>fetch_loop\<close>): every pass that goes round again uses up a pool retry, a rotation or the one
  discovery that the gateway refuses us, and \<open>fetch_loop_spec\<close> and \<open>fetch_loop_fuel\<close> show that its fuel is
  never used up. The poll for a solved CAPTCHA (\<open>poll_until_solved\<close>) is a partial function; it is shown to
  end within \<open>l3_waiting_bound\<close> if the poll's increment is positive (with 0 it would not).

  \<^bold>\<open>What is not modelled.\<close> Browsers and their wrappers, HTTP libraries, name resolution, providers
  of CAPTCHA solutions, extraction and storage services, observability, configuration loading, start and stop
  of the daemons. Floating-point numbers are exact rationals, except where a rounding to an integer or to
  hundredths is part of the code. Level 2 is an answer of the world, as is any browser work of level 3
  that \<open>Level3_Fetcher\<close> does not name. Where other processes may interfere, the theorems say what they
  may do: some hold for everything the engine's processes do to the tables, some only while nobody
  interferes, and then lemmas beside them show the interleavings that break them.
\<close>

end
